(* ===== verification/Prelude.thy ===== *)
theory Prelude
  imports Main "HOL-Library.Word" "HOL-Library.Char_ord" "HOL-Library.List_Lexorder"
    "HOL-Library.Product_Lexorder" "HOL-Library.Sublist"
begin

text \<open>
  Shared vocabulary of the development.  A byte is a \<^typ>\<open>char\<close> (Isabelle characters are
  exactly the 256 byte values), a \<^verbatim>\<open>Vec<u8>\<close>, \<^verbatim>\<open>&str\<close> or \<^verbatim>\<open>PathBuf\<close> is a list of bytes (a Rust
  string is its UTF-8 bytes), \<^verbatim>\<open>u32\<close> and \<^verbatim>\<open>u64\<close> are words that wrap around, and a
  \<^verbatim>\<open>Result<T, E>\<close> is a value of \<open>'e + 'a\<close> with the error on the left.  The theory also holds
  the slice and string operations of the Rust standard library that several components
  call (\<^verbatim>\<open>split\<close>, \<^verbatim>\<open>split_once\<close>, \<^verbatim>\<open>strip_suffix\<close>, \<^verbatim>\<open>position\<close>, \<^verbatim>\<open>rposition\<close>, \<^verbatim>\<open>collect\<close> of
  results, fixed-width integer encodings) with the lemmas about them.
\<close>

named_theorems bytes_simps \<open>rewrite rules for byte-string operations\<close>
named_theorems result_simps \<open>rewrite rules for the result combinators\<close>

type_synonym byte = char
type_synonym bytes = "char list"
type_synonym u32 = "32 word"
type_synonym u64 = "64 word"

text \<open>The error kinds of \<^verbatim>\<open>std::io::ErrorKind\<close> that the program distinguishes.\<close>

datatype io_error =
    NotFound | AlreadyExists | PermissionDenied | NotADirectory | IsADirectory
  | ReadOnlyFilesystem | DirectoryNotEmpty | WouldBlock | InvalidInput | InvalidData | UnexpectedEof | OtherIo

subsection \<open>Results\<close>

fun rbind :: "'e + 'a \<Rightarrow> ('a \<Rightarrow> 'e + 'b) \<Rightarrow> 'e + 'b" where
  "rbind (Inl e) f = Inl e"
| "rbind (Inr x) f = f x"

fun map_err :: "('e \<Rightarrow> 'f) \<Rightarrow> 'e + 'a \<Rightarrow> 'f + 'a" where
  "map_err g (Inl e) = Inl (g e)"
| "map_err g (Inr x) = Inr x"

fun ok_or :: "'e \<Rightarrow> 'a option \<Rightarrow> 'e + 'a" where
  "ok_or e None = Inl e"
| "ok_or e (Some x) = Inr x"

fun is_ok :: "'e + 'a \<Rightarrow> bool" where
  "is_ok (Inl e) = False"
| "is_ok (Inr x) = True"

text \<open>\<^verbatim>\<open>iter.map(f).collect::<Result<Vec<_>, _>>()\<close>: stops at the first error.\<close>

fun collect :: "('a \<Rightarrow> 'e + 'b) \<Rightarrow> 'a list \<Rightarrow> 'e + 'b list" where
  "collect f [] = Inr []"
| "collect f (x # xs) =
     (case f x of Inl e \<Rightarrow> Inl e
      | Inr y \<Rightarrow> (case collect f xs of Inl e \<Rightarrow> Inl e | Inr ys \<Rightarrow> Inr (y # ys)))"

lemma rbind_Inr_iff [result_simps]: "rbind m f = Inr y \<longleftrightarrow> (\<exists>x. m = Inr x \<and> f x = Inr y)"
  by (cases m) auto

lemma rbind_Inl_iff [result_simps]:
  "rbind m f = Inl e \<longleftrightarrow> m = Inl e \<or> (\<exists>x. m = Inr x \<and> f x = Inl e)"
  by (cases m) auto

lemma map_err_Inr [simp]: "map_err g m = Inr x \<longleftrightarrow> m = Inr x"
  by (cases m) auto

lemma ok_or_Inr [simp]: "ok_or e m = Inr x \<longleftrightarrow> m = Some x"
  by (cases m) auto

lemma ok_or_Inl [simp]: "ok_or e m = Inl e' \<longleftrightarrow> m = None \<and> e' = e"
  by (cases m) auto

lemma is_ok_iff: "is_ok m \<longleftrightarrow> (\<exists>x. m = Inr x)"
  by (cases m) auto

lemma collect_Inr_iff:
  "collect f xs = Inr ys \<longleftrightarrow> list_all2 (\<lambda>x y. f x = Inr y) xs ys"
proof (induction xs arbitrary: ys)
  case Nil
  then show ?case by auto
next
  case (Cons x xs)
  show ?case
    by (cases "f x"; cases "collect f xs")
      (auto simp: list_all2_Cons1 Cons.IH [symmetric])
qed

lemma collect_total: "(\<And>x. x \<in> set xs \<Longrightarrow> f x = Inr (g x)) \<Longrightarrow> collect f xs = Inr (map g xs)"
  by (induction xs) auto

lemma collect_cong [fundef_cong]:
  "xs = ys \<Longrightarrow> (\<And>x. x \<in> set ys \<Longrightarrow> f x = g x) \<Longrightarrow> collect f xs = collect g ys"
proof (induction xs arbitrary: ys)
  case Nil
  then show ?case by auto
next
  case (Cons x xs)
  then have "collect f xs = collect g xs" and "f x = g x" by auto
  with Cons.prems(1) show ?case by (auto split: sum.splits)
qed

lemma collect_Inl_first:
  "collect f xs = Inl e \<Longrightarrow> \<exists>x \<in> set xs. f x = Inl e"
  by (induction xs) (auto split: sum.splits)

lemma collect_length: "collect f xs = Inr ys \<Longrightarrow> length ys = length xs"
  by (auto simp: collect_Inr_iff dest: list_all2_lengthD)

text \<open>
  A call can return a value, return an error, or panic (a failed \<^verbatim>\<open>assert!\<close>, \<^verbatim>\<open>unwrap\<close> or
  \<^verbatim>\<open>expect\<close>).  Where the source can panic, the error side is a \<open>failure\<close>.
\<close>

datatype 'e failure = Fail 'e | Panicked

abbreviation ensure :: "bool \<Rightarrow> 'e failure + unit" where
  "ensure b \<equiv> (if b then Inr () else Inl Panicked)"

definition unwrap :: "'a option \<Rightarrow> 'e failure + 'a" where
  "unwrap m = (case m of None \<Rightarrow> Inl Panicked | Some x \<Rightarrow> Inr x)"

lemma unwrap_Inr [simp]: "unwrap m = Inr x \<longleftrightarrow> m = Some x"
  by (auto simp: unwrap_def split: option.splits)

lemma unwrap_Some [simp]: "unwrap (Some x) = Inr x"
  by (simp add: unwrap_def)

subsection \<open>Slices: \<open>split\<close>, \<open>join\<close>, \<open>strip\<close>, \<open>position\<close>\<close>

text \<open>\<^verbatim>\<open>slice.split(|b| *b == c)\<close>: always at least one part.\<close>

fun split_on :: "'a \<Rightarrow> 'a list \<Rightarrow> 'a list list" where
  "split_on c [] = [[]]"
| "split_on c (x # xs) =
     (if x = c then [] # split_on c xs
      else (x # hd (split_on c xs)) # tl (split_on c xs))"

fun join_with :: "'a \<Rightarrow> 'a list list \<Rightarrow> 'a list" where
  "join_with c [] = []"
| "join_with c [p] = p"
| "join_with c (p # q # ps) = p @ c # join_with c (q # ps)"

lemma split_on_neq_Nil [simp]: "split_on c xs \<noteq> []"
  by (induction xs) auto

lemma join_with_Cons: "ps \<noteq> [] \<Longrightarrow> join_with c (p # ps) = p @ c # join_with c ps"
  by (cases ps) auto

lemma join_with_hd: "ps \<noteq> [] \<Longrightarrow> join_with c ((x # hd ps) # tl ps) = x # join_with c ps"
  by (cases ps; cases "tl ps") auto

lemma join_split_on [simp]: "join_with c (split_on c xs) = xs"
  by (induction xs) (auto simp: join_with_Cons join_with_hd)

lemma split_on_no_sep: "c \<notin> set xs \<Longrightarrow> split_on c xs = [xs]"
  by (induction xs) auto

lemma split_on_append_sep:
  "c \<notin> set xs \<Longrightarrow> split_on c (xs @ c # ys) = xs # split_on c ys"
  by (induction xs) auto

lemma split_on_join_with:
  "ps \<noteq> [] \<Longrightarrow> \<forall>p \<in> set ps. c \<notin> set p \<Longrightarrow> split_on c (join_with c ps) = ps"
proof (induction c ps rule: join_with.induct)
  case (3 c p q ps)
  then show ?case by (simp add: split_on_append_sep)
qed (auto simp: split_on_no_sep)

lemma set_split_on: "p \<in> set (split_on c xs) \<Longrightarrow> set p \<subseteq> set xs - {c}"
proof (induction xs arbitrary: p)
  case Nil
  then show ?case by simp
next
  case (Cons x xs)
  have hd: "set (hd (split_on c xs)) \<subseteq> set xs - {c}"
    by (rule Cons.IH) simp
  have tl: "set q \<subseteq> set xs - {c}" if "q \<in> set (tl (split_on c xs))" for q
    using that by (intro Cons.IH) (cases "split_on c xs"; simp)
  consider "x = c" "p = []" | "x = c" "p \<in> set (split_on c xs)"
    | "x \<noteq> c" "p = x # hd (split_on c xs)" | "x \<noteq> c" "p \<in> set (tl (split_on c xs))"
    using Cons.prems by (auto split: if_splits)
  then show ?case
  proof cases
    case 2
    with Cons.IH [of p] show ?thesis by auto
  next
    case 3
    with hd show ?thesis by auto
  next
    case 4
    with tl [of p] show ?thesis by auto
  qed simp
qed

lemma split_on_sep_free: "p \<in> set (split_on c xs) \<Longrightarrow> c \<notin> set p"
  using set_split_on by fastforce

lemma split_on_inj: "split_on c xs = split_on c ys \<longleftrightarrow> xs = ys"
  by (metis join_split_on)

lemma set_join_with: "set (join_with c ps) \<subseteq> insert c (\<Union>(set ` set ps))"
  by (induction c ps rule: join_with.induct) auto

fun strip_prefix :: "'a list \<Rightarrow> 'a list \<Rightarrow> 'a list option" where
  "strip_prefix [] ys = Some ys"
| "strip_prefix (x # xs) [] = None"
| "strip_prefix (x # xs) (y # ys) = (if x = y then strip_prefix xs ys else None)"

lemma strip_prefix_iff: "strip_prefix p xs = Some r \<longleftrightarrow> xs = p @ r"
  by (induction p xs rule: strip_prefix.induct) auto

lemma strip_prefix_append [simp]: "strip_prefix p (p @ r) = Some r"
  by (simp add: strip_prefix_iff)

lemma strip_prefix_None: "strip_prefix p xs = None \<longleftrightarrow> \<not> prefix p xs"
  by (metis not_Some_eq prefix_def strip_prefix_iff)

definition strip_suffix :: "'a list \<Rightarrow> 'a list \<Rightarrow> 'a list option" where
  "strip_suffix s xs = map_option rev (strip_prefix (rev s) (rev xs))"

lemma strip_suffix_iff: "strip_suffix s xs = Some r \<longleftrightarrow> xs = r @ s"
proof -
  have "strip_suffix s xs = Some r \<longleftrightarrow> strip_prefix (rev s) (rev xs) = Some (rev r)"
    by (auto simp: strip_suffix_def)
  also have "\<dots> \<longleftrightarrow> rev xs = rev s @ rev r" by (rule strip_prefix_iff)
  also have "\<dots> \<longleftrightarrow> xs = r @ s" by (metis rev_append rev_rev_ident)
  finally show ?thesis .
qed

lemma strip_suffix_append [simp]: "strip_suffix s (r @ s) = Some r"
  by (simp add: strip_suffix_iff)

text \<open>\<^verbatim>\<open>str.split_once(c)\<close> cuts at the first occurrence, \<^verbatim>\<open>rsplit_once\<close> at the last.\<close>

fun split_once :: "'a \<Rightarrow> 'a list \<Rightarrow> ('a list \<times> 'a list) option" where
  "split_once c [] = None"
| "split_once c (x # xs) =
     (if x = c then Some ([], xs)
      else map_option (\<lambda>(a, b). (x # a, b)) (split_once c xs))"

definition rsplit_once :: "'a \<Rightarrow> 'a list \<Rightarrow> ('a list \<times> 'a list) option" where
  "rsplit_once c xs =
     map_option (\<lambda>(a, b). (rev b, rev a)) (split_once c (rev xs))"

lemma split_once_Some_iff:
  "split_once c xs = Some (a, b) \<longleftrightarrow> xs = a @ c # b \<and> c \<notin> set a"
proof (induction xs arbitrary: a)
  case Nil
  then show ?case by simp
next
  case (Cons x xs)
  then show ?case by (cases a) auto
qed

lemma split_once_None_iff: "split_once c xs = None \<longleftrightarrow> c \<notin> set xs"
  by (induction xs) auto

lemma rsplit_once_Some_iff:
  "rsplit_once c xs = Some (a, b) \<longleftrightarrow> xs = a @ c # b \<and> c \<notin> set b"
proof -
  have "rsplit_once c xs = Some (a, b) \<longleftrightarrow> split_once c (rev xs) = Some (rev b, rev a)"
    by (auto simp: rsplit_once_def)
  also have "\<dots> \<longleftrightarrow> rev xs = rev b @ c # rev a \<and> c \<notin> set b"
    by (simp add: split_once_Some_iff)
  also have "rev xs = rev b @ c # rev a \<longleftrightarrow> xs = a @ c # b"
    by (simp add: rev_swap)
  finally show ?thesis .
qed

lemma rsplit_once_None_iff: "rsplit_once c xs = None \<longleftrightarrow> c \<notin> set xs"
  by (auto simp: rsplit_once_def split_once_None_iff)

text \<open>\<^verbatim>\<open>iter.position(p)\<close> and \<^verbatim>\<open>iter.rposition(p)\<close>.\<close>

fun position :: "('a \<Rightarrow> bool) \<Rightarrow> 'a list \<Rightarrow> nat option" where
  "position p [] = None"
| "position p (x # xs) = (if p x then Some 0 else map_option Suc (position p xs))"

fun rposition :: "('a \<Rightarrow> bool) \<Rightarrow> 'a list \<Rightarrow> nat option" where
  "rposition p [] = None"
| "rposition p (x # xs) =
     (case rposition p xs of Some i \<Rightarrow> Some (Suc i)
      | None \<Rightarrow> if p x then Some 0 else None)"

lemma position_Some_iff:
  "position p xs = Some i \<longleftrightarrow> i < length xs \<and> p (xs ! i) \<and> (\<forall>j < i. \<not> p (xs ! j))"
proof (induction xs arbitrary: i)
  case Nil
  then show ?case by simp
next
  case (Cons x xs)
  then show ?case
    by (cases i) (auto simp: less_Suc_eq_0_disj)
qed

lemma position_None_iff: "position p xs = None \<longleftrightarrow> (\<forall>x \<in> set xs. \<not> p x)"
  by (induction xs) auto

lemma rposition_None_iff: "rposition p xs = None \<longleftrightarrow> (\<forall>x \<in> set xs. \<not> p x)"
  by (induction xs) (auto split: option.splits)

lemma rposition_Some_iff:
  "rposition p xs = Some i \<longleftrightarrow>
     i < length xs \<and> p (xs ! i) \<and> (\<forall>j < length xs. i < j \<longrightarrow> \<not> p (xs ! j))"
proof (induction xs arbitrary: i)
  case Nil
  then show ?case by simp
next
  case (Cons x xs)
  show ?case
  proof (cases "rposition p xs")
    case None
    then have none: "\<forall>j < length xs. \<not> p (xs ! j)"
      by (auto simp: rposition_None_iff)
    show ?thesis
      using None none by (cases i) (auto simp: less_Suc_eq_0_disj)
  next
    case (Some k)
    with Cons.IH [of k] have k: "k < length xs" "p (xs ! k)"
      "\<forall>j < length xs. k < j \<longrightarrow> \<not> p (xs ! j)" by auto
    show ?thesis
    proof (cases i)
      case 0
      with Some k show ?thesis by auto
    next
      case (Suc i')
      with Some Cons.IH [of i'] show ?thesis
        by (auto simp: less_Suc_eq_0_disj)
    qed
  qed
qed

subsection \<open>Fixed-width integer encodings\<close>

fun le_bytes :: "nat \<Rightarrow> nat \<Rightarrow> bytes" where
  "le_bytes 0 n = []"
| "le_bytes (Suc k) n = char_of (n mod 256) # le_bytes k (n div 256)"

fun of_le_bytes :: "bytes \<Rightarrow> nat" where
  "of_le_bytes [] = 0"
| "of_le_bytes (b # bs) = of_char b + 256 * of_le_bytes bs"

definition be_bytes :: "nat \<Rightarrow> nat \<Rightarrow> bytes" where
  "be_bytes k n = rev (le_bytes k n)"

definition of_be_bytes :: "bytes \<Rightarrow> nat" where
  "of_be_bytes bs = of_le_bytes (rev bs)"

lemma length_le_bytes [simp]: "length (le_bytes k n) = k"
  by (induction k arbitrary: n) auto

lemma length_be_bytes [simp]: "length (be_bytes k n) = k"
  by (simp add: be_bytes_def)

lemma of_le_le_bytes [simp]: "of_le_bytes (le_bytes k n) = n mod 256 ^ k"
proof (induction k arbitrary: n)
  case 0
  then show ?case by simp
next
  case (Suc k)
  have "n mod 256 + 256 * (n div 256 mod 256 ^ k) = n mod 256 ^ Suc k"
    by (simp add: mod_mult2_eq)
  with Suc show ?case by simp
qed

lemma of_be_be_bytes [simp]: "of_be_bytes (be_bytes k n) = n mod 256 ^ k"
  by (simp add: of_be_bytes_def be_bytes_def)

lemma of_char_less_256: "(of_char c :: nat) < 256"
  by simp

lemma of_le_bytes_less: "of_le_bytes bs < 256 ^ length bs"
proof (induction bs)
  case Nil
  then show ?case by simp
next
  case (Cons b bs)
  have b: "(of_char b :: nat) < 256" by (rule of_char_less_256)
  have "of_char b + 256 * m < 256 * n" if "m < n" for m n :: nat
    using b that by linarith
  from this [OF Cons] show ?case by simp
qed

definition u32_be :: "u32 \<Rightarrow> bytes" where "u32_be w = be_bytes 4 (unat w)"
definition u32_le :: "u32 \<Rightarrow> bytes" where "u32_le w = le_bytes 4 (unat w)"
definition u64_be :: "u64 \<Rightarrow> bytes" where "u64_be w = be_bytes 8 (unat w)"

lemma length_u_bytes [simp]:
  "length (u32_be w) = 4" "length (u32_le w) = 4" "length (u64_be v) = 8"
  by (simp_all add: u32_be_def u32_le_def u64_be_def)

lemma unat_less_256_pow: "unat (w :: u32) < 256 ^ 4" "unat (v :: u64) < 256 ^ 8"
  using unsigned_less [of w] unsigned_less [of v] by simp_all

lemma of_bytes_u [simp]:
  "of_be_bytes (u32_be w) = unat w" "of_le_bytes (u32_le w) = unat w"
  "of_be_bytes (u64_be v) = unat v"
proof -
  show "of_be_bytes (u32_be w) = unat w"
    unfolding u32_be_def of_be_be_bytes by (rule mod_less) (rule unat_less_256_pow(1))
  show "of_le_bytes (u32_le w) = unat w"
    unfolding u32_le_def of_le_le_bytes by (rule mod_less) (rule unat_less_256_pow(1))
  show "of_be_bytes (u64_be v) = unat v"
    unfolding u64_be_def of_be_be_bytes by (rule mod_less) (rule unat_less_256_pow(2))
qed

lemma u32_be_inj: "u32_be a = u32_be b \<longleftrightarrow> a = b"
  by (metis of_bytes_u(1) unsigned_word_eqI)

lemma u64_be_inj: "u64_be a = u64_be b \<longleftrightarrow> a = b"
  by (metis of_bytes_u(3) unsigned_word_eqI)

end
