(* ===== verification/EntryPool.thy ===== *)
theory EntryPool
  imports Prelude
begin

text \<open>
  \<^verbatim>\<open>src/entrypool.rs\<close>: a pool interns values and gives each a \<^verbatim>\<open>u32\<close> handle, the index of the
  value in the list of entries.  The hash map from values to handles is a HOL map; the list
  alone is serialised, and reading it back inserts the elements one by one.
\<close>

type_synonym handle = u32

record 'a entry_pool =
  pool_entries :: "'a list"
  entry_map :: "'a \<rightharpoonup> handle"

definition pool_new :: "'a entry_pool" where
  "pool_new = \<lparr>pool_entries = [], entry_map = Map.empty\<rparr>"

definition pool_get :: "'a entry_pool \<Rightarrow> 'a \<Rightarrow> handle option" where
  "pool_get p k = entry_map p k"

definition get_or_insert :: "'a entry_pool \<Rightarrow> 'a \<Rightarrow> handle \<times> 'a entry_pool" where
  "get_or_insert p k =
     (case pool_get p k of
        Some h \<Rightarrow> (h, p)
      | None \<Rightarrow>
          (let h = of_nat (length (pool_entries p))
           in (h, p\<lparr>pool_entries := pool_entries p @ [k],
                    entry_map := (entry_map p)(k \<mapsto> h)\<rparr>)))"

definition pool_lookup :: "'a entry_pool \<Rightarrow> handle \<Rightarrow> 'a option" where
  "pool_lookup p h =
     (if unat h < length (pool_entries p) then Some (pool_entries p ! unat h) else None)"

fun insert_all :: "'a entry_pool \<Rightarrow> 'a list \<Rightarrow> 'a entry_pool" where
  "insert_all p [] = p"
| "insert_all p (x # xs) = insert_all (snd (get_or_insert p x)) xs"

text \<open>\<^verbatim>\<open>FromIterator::from_iter\<close> and the visitor of \<^verbatim>\<open>Deserialize\<close> run the same loop.\<close>

definition pool_from_iter :: "'a list \<Rightarrow> 'a entry_pool" where
  "pool_from_iter xs = insert_all pool_new xs"

definition pool_deserialize :: "'a list \<Rightarrow> 'a entry_pool" where
  "pool_deserialize xs = insert_all pool_new xs"

definition pool_serialize :: "'a entry_pool \<Rightarrow> 'a list" where
  "pool_serialize p = pool_entries p"

text \<open>The invariant: the map is the inverse of the list, which has no duplicates.\<close>

definition pool_wf :: "'a entry_pool \<Rightarrow> bool" where
  "pool_wf p \<longleftrightarrow>
     distinct (pool_entries p) \<and> length (pool_entries p) \<le> 2 ^ 32 \<and>
     dom (entry_map p) = set (pool_entries p) \<and>
     (\<forall>i < length (pool_entries p). entry_map p (pool_entries p ! i) = Some (of_nat i))"

lemma unat_handle: "n < 2 ^ 32 \<Longrightarrow> unat (of_nat n :: handle) = n"
  by (simp add: unat_of_nat)

lemma pool_wf_new [simp]: "pool_wf pool_new"
  by (simp add: pool_wf_def pool_new_def)

lemma pool_get_Some_iff:
  assumes "pool_wf p"
  shows "pool_get p k = Some h \<longleftrightarrow> pool_lookup p h = Some k"
proof
  assume "pool_get p k = Some h"
  then have "k \<in> set (pool_entries p)" and h: "entry_map p k = Some h"
    using assms by (auto simp: pool_get_def pool_wf_def)
  then obtain i where i: "i < length (pool_entries p)" "pool_entries p ! i = k"
    by (auto simp: in_set_conv_nth)
  with assms h have "h = of_nat i" and "i < 2 ^ 32"
    by (auto simp: pool_wf_def)
  with i show "pool_lookup p h = Some k"
    by (simp add: pool_lookup_def unat_handle)
next
  assume "pool_lookup p h = Some k"
  then have "unat h < length (pool_entries p)" and "pool_entries p ! unat h = k"
    by (auto simp: pool_lookup_def split: if_splits)
  with assms show "pool_get p k = Some h"
    by (auto simp: pool_get_def pool_wf_def)
qed

lemma pool_get_None_iff: "pool_wf p \<Longrightarrow> pool_get p k = None \<longleftrightarrow> k \<notin> set (pool_entries p)"
  by (auto simp: pool_get_def pool_wf_def domIff)

lemma pool_entries_get_or_insert:
  "pool_wf p \<Longrightarrow> pool_entries (snd (get_or_insert p k)) =
     (if k \<in> set (pool_entries p) then pool_entries p else pool_entries p @ [k])"
  using pool_get_None_iff [of p k]
  by (auto simp: get_or_insert_def Let_def split: option.splits)

lemma pool_wf_get_or_insert:
  assumes wf: "pool_wf p" and len: "length (pool_entries p) < 2 ^ 32"
  shows "pool_wf (snd (get_or_insert p k))"
proof (cases "pool_get p k")
  case None
  with wf have "k \<notin> set (pool_entries p)" by (simp add: pool_get_None_iff)
  with None wf len show ?thesis
    by (auto simp: get_or_insert_def Let_def pool_wf_def nth_append less_Suc_eq
        dest: nth_mem)
next
  case (Some h)
  with wf show ?thesis by (simp add: get_or_insert_def)
qed

lemma pool_lookup_inserted:
  assumes wf: "pool_wf p" and len: "length (pool_entries p) < 2 ^ 32"
  shows "pool_lookup (snd (get_or_insert p k)) (fst (get_or_insert p k)) = Some k"
proof (cases "pool_get p k")
  case None
  with len show ?thesis
    by (simp add: get_or_insert_def Let_def pool_lookup_def unat_handle)
next
  case (Some h)
  with wf have "pool_lookup p h = Some k" by (simp add: pool_get_Some_iff)
  with Some show ?thesis by (simp add: get_or_insert_def)
qed

lemma pool_lookup_stable:
  assumes "pool_wf p" and "pool_lookup p h = Some x"
  shows "pool_lookup (snd (get_or_insert p k)) h = Some x"
  using assms
  by (auto simp: pool_lookup_def pool_entries_get_or_insert nth_append split: if_splits)


lemma pool_lookup_inj:
  assumes "pool_wf p" and "pool_lookup p h = Some x" and "pool_lookup p h' = Some x"
  shows "h = h'"
  using assms by (metis option.inject pool_get_Some_iff)

subsection \<open>The interning contract\<close>

text \<open>
  What the users of a pool rely on: a handle resolves to the key of the value it was made for, handles
  handed out earlier stay valid, and equal keys share a handle.  Interning a list is the
  loop of every client.
\<close>

fun intern_all :: "('p \<Rightarrow> 'a \<Rightarrow> 'h \<times> 'p) \<Rightarrow> 'p \<Rightarrow> 'a list \<Rightarrow> 'h list \<times> 'p" where
  "intern_all ins p [] = ([], p)"
| "intern_all ins p (x # xs) =
     (let (h, p') = ins p x; (hs, p'') = intern_all ins p' xs in (h # hs, p''))"

locale interner =
  fixes wf_store :: "'p \<Rightarrow> bool"
    and room :: "'p \<Rightarrow> nat"
    and ins :: "'p \<Rightarrow> 'a \<Rightarrow> 'h \<times> 'p"
    and look :: "'p \<Rightarrow> 'h \<Rightarrow> 'v option"
    and key :: "'a \<Rightarrow> 'v"
  assumes wf_ins: "wf_store p \<Longrightarrow> 0 < room p \<Longrightarrow> wf_store (snd (ins p x))"
    and room_ins: "wf_store p \<Longrightarrow> room p \<le> Suc (room (snd (ins p x)))"
    and look_ins: "wf_store p \<Longrightarrow> 0 < room p \<Longrightarrow> look (snd (ins p x)) (fst (ins p x)) = Some (key x)"
    and look_old: "wf_store p \<Longrightarrow> look p h = Some y \<Longrightarrow> look (snd (ins p x)) h = Some y"
    and look_inj: "wf_store p \<Longrightarrow> look p h = Some y \<Longrightarrow> look p h' = Some y \<Longrightarrow> h = h'"
begin

lemma wf_intern_all:
  "wf_store p \<Longrightarrow> length xs \<le> room p \<Longrightarrow> wf_store (snd (intern_all ins p xs))"
proof (induction xs arbitrary: p)
  case Nil
  then show ?case by simp
next
  case (Cons x xs)
  have "wf_store (snd (ins p x))" and "length xs \<le> room (snd (ins p x))"
    using Cons.prems wf_ins [of p x] room_ins [of p x] by auto
  from Cons.IH [OF this] show ?case by (simp add: case_prod_unfold Let_def)
qed

lemma room_intern_all:
  "wf_store p \<Longrightarrow> length xs \<le> room p \<Longrightarrow> room p \<le> room (snd (intern_all ins p xs)) + length xs"
proof (induction xs arbitrary: p)
  case Nil
  then show ?case by simp
next
  case (Cons x xs)
  have "wf_store (snd (ins p x))" and "length xs \<le> room (snd (ins p x))"
    using Cons.prems wf_ins [of p x] room_ins [of p x] by auto
  from Cons.IH [OF this] Cons.prems room_ins [of p x] show ?case by (simp add: case_prod_unfold Let_def)
qed

lemma intern_all_old:
  "wf_store p \<Longrightarrow> length xs \<le> room p \<Longrightarrow> look p h = Some y \<Longrightarrow>
     look (snd (intern_all ins p xs)) h = Some y"
proof (induction xs arbitrary: p)
  case Nil
  then show ?case by simp
next
  case (Cons x xs)
  have "wf_store (snd (ins p x))" and "length xs \<le> room (snd (ins p x))"
    and "look (snd (ins p x)) h = Some y"
    using Cons.prems wf_ins [of p x] room_ins [of p x] look_old [of p h y x] by auto
  from Cons.IH [OF this] show ?case by (simp add: case_prod_unfold Let_def)
qed

lemma intern_all_resolves:
  "wf_store p \<Longrightarrow> length xs \<le> room p \<Longrightarrow>
     map (look (snd (intern_all ins p xs))) (fst (intern_all ins p xs)) = map (\<lambda>x. Some (key x)) xs"
proof (induction xs arbitrary: p)
  case Nil
  then show ?case by simp
next
  case (Cons x xs)
  let ?p = "snd (ins p x)"
  have wf: "wf_store ?p" and len: "length xs \<le> room ?p"
    and x: "look ?p (fst (ins p x)) = Some (key x)"
    using Cons.prems wf_ins [of p x] room_ins [of p x] look_ins [of p x] by auto
  from Cons.IH [OF wf len] intern_all_old [OF wf len x] show ?case
    by (simp add: case_prod_unfold Let_def)
qed

end

definition pool_room :: "'a entry_pool \<Rightarrow> nat" where
  "pool_room p = 2 ^ 32 - length (pool_entries p)"

interpretation pool: interner pool_wf pool_room get_or_insert pool_lookup "\<lambda>x. x"
proof unfold_locales
  fix p :: "'a entry_pool" and x
  assume wf: "pool_wf p"
  show "pool_room p \<le> Suc (pool_room (snd (get_or_insert p x)))"
    using wf by (auto simp: pool_room_def pool_entries_get_or_insert)
  assume "0 < pool_room p"
  then have len: "length (pool_entries p) < 2 ^ 32" by (simp add: pool_room_def)
  show "pool_wf (snd (get_or_insert p x))"
    using wf len by (rule pool_wf_get_or_insert)
  show "pool_lookup (snd (get_or_insert p x)) (fst (get_or_insert p x)) = Some x"
    using wf len by (rule pool_lookup_inserted)
next
  fix p :: "'a entry_pool" and h x y
  assume "pool_wf p" and "pool_lookup p h = Some y"
  then show "pool_lookup (snd (get_or_insert p x)) h = Some y"
    by (rule pool_lookup_stable)
next
  fix p :: "'a entry_pool" and h x h'
  assume "pool_wf p" and "pool_lookup p h = Some x" and "pool_lookup p h' = Some x"
  then show "h = h'" by (rule pool_lookup_inj)
qed

lemma insert_all_intern: "insert_all p xs = snd (intern_all get_or_insert p xs)"
  by (induction xs arbitrary: p) (auto simp: case_prod_unfold Let_def)

subsection \<open>Building a pool from a list\<close>

lemma insert_all_append: "insert_all p (xs @ ys) = insert_all (insert_all p xs) ys"
  by (induction xs arbitrary: p) auto

lemma pool_room_new [simp]: "pool_room pool_new = 2 ^ 32"
  by (simp add: pool_room_def pool_new_def)

lemma pool_wf_insert_all:
  "pool_wf p \<Longrightarrow> length xs \<le> pool_room p \<Longrightarrow> pool_wf (insert_all p xs)"
  unfolding insert_all_intern by (rule pool.wf_intern_all)

lemma set_insert_all:
  "pool_wf p \<Longrightarrow> length xs \<le> pool_room p \<Longrightarrow>
     set (pool_entries (insert_all p xs)) = set (pool_entries p) \<union> set xs"
proof (induction xs arbitrary: p)
  case Nil
  then show ?case by simp
next
  case (Cons x xs)
  have "pool_wf (snd (get_or_insert p x))" and "length xs \<le> pool_room (snd (get_or_insert p x))"
    using Cons.prems pool.wf_ins [of p x] pool.room_ins [of p x] by auto
  from Cons.IH [OF this] Cons.prems(1) show ?case
    by (auto simp: pool_entries_get_or_insert)
qed

text \<open>Inserting new, distinct values appends them in order.\<close>

lemma insert_all_distinct:
  "pool_wf p \<Longrightarrow> length xs \<le> pool_room p \<Longrightarrow> distinct (pool_entries p @ xs) \<Longrightarrow>
     pool_entries (insert_all p xs) = pool_entries p @ xs"
proof (induction xs arbitrary: p)
  case Nil
  then show ?case by simp
next
  case (Cons x xs)
  let ?p = "snd (get_or_insert p x)"
  have ent: "pool_entries ?p = pool_entries p @ [x]"
    using Cons.prems by (simp add: pool_entries_get_or_insert)
  have "pool_wf ?p" and "length xs \<le> pool_room ?p"
    using Cons.prems pool.wf_ins [of p x] pool.room_ins [of p x] by auto
  from Cons.IH [OF this] Cons.prems(3) show ?case by (simp add: ent)
qed

lemma pool_eqI:
  assumes "pool_wf p" "pool_wf q" "pool_entries p = pool_entries q"
  shows "p = (q :: 'a entry_pool)"
proof -
  have "entry_map p x = entry_map q x" for x
  proof (cases "x \<in> set (pool_entries p)")
    case True
    with assms show ?thesis by (auto simp: pool_wf_def in_set_conv_nth)
  next
    case False
    with assms have "x \<notin> dom (entry_map p)" and "x \<notin> dom (entry_map q)"
      by (auto simp: pool_wf_def)
    then show ?thesis by (auto simp: domIff)
  qed
  then have "entry_map p = entry_map q" by blast
  with assms(3) show ?thesis by simp
qed

lemma pool_deserialize_wf:
  assumes "distinct xs" and "length xs \<le> 2 ^ 32"
  shows "pool_wf (pool_deserialize xs)" and "pool_entries (pool_deserialize xs) = xs"
proof -
  have room: "length xs \<le> pool_room (pool_new :: 'a entry_pool)"
    using assms(2) by (simp add: pool_room_def pool_new_def)
  have d: "distinct (pool_entries pool_new @ xs)"
    using assms(1) by (simp add: pool_new_def)
  show "pool_wf (pool_deserialize xs)"
    unfolding pool_deserialize_def by (rule pool_wf_insert_all [OF pool_wf_new room])
  show "pool_entries (pool_deserialize xs) = xs"
    using insert_all_distinct [OF pool_wf_new room d]
    by (simp add: pool_deserialize_def pool_new_def)
qed

lemma pool_roundtrip:
  assumes "pool_wf p"
  shows "pool_deserialize (pool_serialize p) = p"
proof (rule pool_eqI)
  have d: "distinct (pool_entries p)" "length (pool_entries p) \<le> 2 ^ 32"
    using assms by (auto simp: pool_wf_def)
  show "pool_wf (pool_deserialize (pool_serialize p))"
    using pool_deserialize_wf(1) [OF d] by (simp add: pool_serialize_def)
  show "pool_entries (pool_deserialize (pool_serialize p)) = pool_entries p"
    using pool_deserialize_wf(2) [OF d] by (simp add: pool_serialize_def)
qed (rule assms)

subsection \<open>Properties\<close>

text \<open>Interning a list of values keeps the invariant, gives handles that resolve to the
  values, keeps the handles given out before, and the serialised pool reads back as itself.\<close>

theorem pool_interning:
  assumes "pool_wf p" and "length xs \<le> pool_room p"
    and "intern_all get_or_insert p xs = (hs, q)"
  shows "pool_wf q \<and> map (pool_lookup q) hs = map Some xs \<and>
    (\<forall>h x. pool_lookup p h = Some x \<longrightarrow> pool_lookup q h = Some x) \<and>
    pool_deserialize (pool_serialize q) = q"
proof (intro conjI allI impI)
  show wf: "pool_wf q" using pool.wf_intern_all [OF assms(1,2)] assms(3) by simp
  show "map (pool_lookup q) hs = map Some xs"
    using pool.intern_all_resolves [OF assms(1,2)] assms(3) by simp
  show "pool_lookup q h = Some x" if "pool_lookup p h = Some x" for h x
    using pool.intern_all_old [OF assms(1,2) that] assms(3) by simp
  show "pool_deserialize (pool_serialize q) = q" by (rule pool_roundtrip [OF wf])
qed

theorem pool_interning_witness:
  "map (pool_lookup (snd (intern_all get_or_insert pool_new ''aba'')))
     (fst (intern_all get_or_insert pool_new ''aba'')) = map Some ''aba''"
  using pool_interning [of pool_new "''aba''"] by simp

end
