(* ===== verification/Utf8.thy ===== *)
theory Utf8
  imports Prelude
begin

text \<open>
  The text functions of the Rust standard library that the program uses: strict UTF-8
  validation with the position and length that \<^verbatim>\<open>Utf8Error\<close> reports, UTF-8 encoding of a
  scalar value, strict UTF-16 decoding, and the character classes \<^verbatim>\<open>is_control\<close>,
  \<^verbatim>\<open>is_whitespace\<close> and the ASCII ones.  Code points are natural numbers.
\<close>

definition byte_val :: "byte \<Rightarrow> nat" where "byte_val c = of_char c"
definition byte_of :: "nat \<Rightarrow> byte" where "byte_of n = char_of n"

lemma byte_of_val [simp]: "byte_of (byte_val c) = c"
  by (simp add: byte_of_def byte_val_def)

lemma byte_val_of [simp]: "n < 256 \<Longrightarrow> byte_val (byte_of n) = n"
  by (simp add: byte_of_def byte_val_def)

lemma byte_val_less [simp]: "byte_val c < 256"
  by (simp add: byte_val_def)

lemma byte_val_inj: "byte_val c = byte_val d \<longleftrightarrow> c = d"
  by (metis byte_of_val)

definition is_scalar :: "nat \<Rightarrow> bool" where
  "is_scalar u \<longleftrightarrow> u < 0xD800 \<or> (0xE000 \<le> u \<and> u < 0x110000)"

definition is_cont :: "nat \<Rightarrow> bool" where
  "is_cont b \<longleftrightarrow> 128 \<le> b \<and> b < 192"

definition second3_ok :: "nat \<Rightarrow> nat \<Rightarrow> bool" where
  "second3_ok a b \<longleftrightarrow> is_cont b \<and> (a = 0xE0 \<longrightarrow> 0xA0 \<le> b) \<and> (a = 0xED \<longrightarrow> b < 0xA0)"

definition second4_ok :: "nat \<Rightarrow> nat \<Rightarrow> bool" where
  "second4_ok a b \<longleftrightarrow> is_cont b \<and> (a = 0xF0 \<longrightarrow> 0x90 \<le> b) \<and> (a = 0xF4 \<longrightarrow> b < 0x90)"

text \<open>
  One step of the validator: a code point with its encoded length, or an error with the
  length of the invalid sequence (\<^verbatim>\<open>None\<close> when the input ends inside a sequence).
\<close>

datatype utf8_step = Utf8Char nat nat | Utf8Bad "nat option"

definition step2 :: "nat \<Rightarrow> nat list \<Rightarrow> utf8_step" where
  "step2 a ds =
     (case ds of [] \<Rightarrow> Utf8Bad None
      | b # _ \<Rightarrow> if is_cont b then Utf8Char ((a - 192) * 64 + (b - 128)) 2 else Utf8Bad (Some 1))"

definition step3 :: "nat \<Rightarrow> nat list \<Rightarrow> utf8_step" where
  "step3 a ds =
     (case ds of [] \<Rightarrow> Utf8Bad None
      | b # es \<Rightarrow>
          if \<not> second3_ok a b then Utf8Bad (Some 1)
          else (case es of [] \<Rightarrow> Utf8Bad None
                | c # _ \<Rightarrow>
                    if is_cont c
                    then Utf8Char (((a - 224) * 64 + (b - 128)) * 64 + (c - 128)) 3
                    else Utf8Bad (Some 2)))"

definition step4 :: "nat \<Rightarrow> nat list \<Rightarrow> utf8_step" where
  "step4 a ds =
     (case ds of [] \<Rightarrow> Utf8Bad None
      | b # es \<Rightarrow>
          if \<not> second4_ok a b then Utf8Bad (Some 1)
          else (case es of [] \<Rightarrow> Utf8Bad None
                | c # fs \<Rightarrow>
                    if \<not> is_cont c then Utf8Bad (Some 2)
                    else (case fs of [] \<Rightarrow> Utf8Bad None
                          | d # _ \<Rightarrow>
                              if is_cont d
                              then Utf8Char ((((a - 240) * 64 + (b - 128)) * 64 + (c - 128)) * 64
                                     + (d - 128)) 4
                              else Utf8Bad (Some 3))))"

definition utf8_step_nat :: "nat \<Rightarrow> nat list \<Rightarrow> utf8_step" where
  "utf8_step_nat a ds =
     (if a < 128 then Utf8Char a 1
      else if 0xC2 \<le> a \<and> a \<le> 0xDF then step2 a ds
      else if 0xE0 \<le> a \<and> a \<le> 0xEF then step3 a ds
      else if 0xF0 \<le> a \<and> a \<le> 0xF4 then step4 a ds
      else Utf8Bad (Some 1))"

definition utf8_step :: "byte \<Rightarrow> bytes \<Rightarrow> utf8_step" where
  "utf8_step c cs = utf8_step_nat (byte_val c) (map byte_val (take 3 cs))"

definition utf8_nats :: "nat \<Rightarrow> nat list" where
  "utf8_nats u =
     (if u < 0x80 then [u]
      else if u < 0x800 then [192 + u div 64, 128 + u mod 64]
      else if u < 0x10000 then [224 + u div 4096, 128 + u div 64 mod 64, 128 + u mod 64]
      else [240 + u div 262144, 128 + u div 4096 mod 64, 128 + u div 64 mod 64,
            128 + u mod 64])"

definition utf8_encode :: "nat \<Rightarrow> bytes" where
  "utf8_encode u = map byte_of (utf8_nats u)"

definition utf8_encode_str :: "nat list \<Rightarrow> bytes" where
  "utf8_encode_str us = concat (map utf8_encode us)"

lemma utf8_step_nat_bounds:
  "utf8_step_nat a ds = Utf8Char u n \<Longrightarrow> 1 \<le> n \<and> n \<le> Suc (length ds) \<and> n \<le> 4"
  by (auto simp: utf8_step_nat_def step2_def step3_def step4_def
      split: if_splits list.splits)

lemma utf8_step_bounds:
  "utf8_step c cs = Utf8Char u n \<Longrightarrow> 1 \<le> n \<and> n \<le> Suc (length cs) \<and> n \<le> 4"
  unfolding utf8_step_def by (drule utf8_step_nat_bounds) auto

lemma utf8_step_nat_bad_bounds:
  "utf8_step_nat a ds = Utf8Bad (Some n) \<Longrightarrow> 1 \<le> n \<and> n \<le> Suc (length ds)"
  by (auto simp: utf8_step_nat_def step2_def step3_def step4_def
      split: if_splits list.splits)

lemma utf8_step_bad_bounds:
  "utf8_step c cs = Utf8Bad (Some n) \<Longrightarrow> 1 \<le> n \<and> n \<le> Suc (length cs)"
  unfolding utf8_step_def by (drule utf8_step_nat_bad_bounds) auto

text \<open>\<^verbatim>\<open>std::str::from_utf8\<close>: the code points, or \<^verbatim>\<open>valid_up_to\<close> and \<^verbatim>\<open>error_len\<close>.\<close>

function utf8_decode :: "nat \<Rightarrow> bytes \<Rightarrow> (nat \<times> nat option) + nat list" where
  "utf8_decode pos [] = Inr []"
| "utf8_decode pos (c # cs) =
     (case utf8_step c cs of
        Utf8Bad e \<Rightarrow> Inl (pos, e)
      | Utf8Char u n \<Rightarrow>
          (case utf8_decode (pos + n) (drop (n - 1) cs) of
             Inl e \<Rightarrow> Inl e
           | Inr us \<Rightarrow> Inr (u # us)))"
  by pat_completeness auto
termination
  by (relation "measure (\<lambda>(pos, bs). length bs)") auto

definition from_utf8 :: "bytes \<Rightarrow> (nat \<times> nat option) + nat list" where
  "from_utf8 bs = utf8_decode 0 bs"

definition is_utf8 :: "bytes \<Rightarrow> bool" where
  "is_utf8 bs = is_ok (from_utf8 bs)"

text \<open>\<^verbatim>\<open>str.chars()\<close> of a valid string.\<close>

definition str_chars :: "bytes \<Rightarrow> nat list" where
  "str_chars bs = (case from_utf8 bs of Inl _ \<Rightarrow> [] | Inr us \<Rightarrow> us)"

subsection \<open>Encoding and decoding are inverse\<close>

lemma utf8_nats_less: "is_scalar u \<Longrightarrow> \<forall>b \<in> set (utf8_nats u). b < 256"
  by (auto simp: utf8_nats_def is_scalar_def)

lemma digits64_2: "(u::nat) = u div 64 * 64 + u mod 64"
  by simp

lemma digits64_3: "(u::nat) = (u div 4096 * 64 + u div 64 mod 64) * 64 + u mod 64"
proof -
  have "u div 4096 = u div 64 div 64" by (simp add: div_mult2_eq [symmetric])
  then have "u div 4096 * 64 + u div 64 mod 64 = u div 64" by simp
  then show ?thesis by simp
qed

lemma digits64_4:
  "(u::nat) = ((u div 262144 * 64 + u div 4096 mod 64) * 64 + u div 64 mod 64) * 64 + u mod 64"
proof -
  have "u div 262144 = u div 4096 div 64" by (simp add: div_mult2_eq [symmetric])
  then have "u div 262144 * 64 + u div 4096 mod 64 = u div 4096" by simp
  then show ?thesis using digits64_3 [of u] by simp
qed

lemma utf8_step_nat_encode:
  assumes "is_scalar u"
  shows "utf8_step_nat (hd (utf8_nats u)) (tl (utf8_nats u) @ ds) =
     Utf8Char u (length (utf8_nats u))"
proof -
  consider "u < 0x80" | "0x80 \<le> u" "u < 0x800" | "0x800 \<le> u" "u < 0x10000"
    | "0x10000 \<le> u" "u < 0x110000"
    using assms unfolding is_scalar_def by linarith
  then show ?thesis
  proof cases
    case 1
    then show ?thesis by (simp add: utf8_nats_def utf8_step_nat_def)
  next
    case 2
    then have "2 \<le> u div 64" "u div 64 < 32" by auto
    with 2 digits64_2 [of u] show ?thesis
      by (simp add: utf8_nats_def utf8_step_nat_def step2_def is_cont_def)
  next
    case 3
    have "u div 4096 < 16" using 3 by auto
    moreover have "u div 4096 = 0 \<longrightarrow> 32 \<le> u div 64 mod 64" using 3 by auto
    moreover have "u div 4096 = 13 \<longrightarrow> u div 64 mod 64 < 32"
    proof
      assume a: "u div 4096 = 13"
      then have "u < 57344" by linarith
      with assms have "u < 0xD800" unfolding is_scalar_def by linarith
      then have "u div 64 < 864" by linarith
      moreover have "u div 64 div 64 = 13" using a by (simp add: div_mult2_eq [symmetric])
      ultimately show "u div 64 mod 64 < 32"
        using div_mult_mod_eq [of "u div 64" 64] by linarith
    qed
    ultimately show ?thesis using 3 digits64_3 [of u]
      by (simp add: utf8_nats_def utf8_step_nat_def step3_def second3_ok_def is_cont_def)
  next
    case 4
    have "u div 262144 < 5" using 4 by auto
    moreover have "u div 262144 = 0 \<longrightarrow> 16 \<le> u div 4096 mod 64" using 4 by auto
    moreover have "u div 262144 = 4 \<longrightarrow> u div 4096 mod 64 < 16"
    proof
      assume a: "u div 262144 = 4"
      have "u div 4096 < 272" using 4 by linarith
      moreover have "u div 4096 div 64 = 4" using a by (simp add: div_mult2_eq [symmetric])
      ultimately show "u div 4096 mod 64 < 16"
        using div_mult_mod_eq [of "u div 4096" 64] by linarith
    qed
    ultimately show ?thesis using 4 digits64_4 [of u]
      by (simp add: utf8_nats_def utf8_step_nat_def step4_def second4_ok_def is_cont_def)
  qed
qed


lemma digit64: "(c :: nat) < 64 \<Longrightarrow> (m * 64 + c) div 64 = m \<and> (m * 64 + c) mod 64 = c"
  by simp

lemma utf8_nats_of_digits:
  "b < 64 \<Longrightarrow> 2 \<le> a \<Longrightarrow> a < 32 \<Longrightarrow> utf8_nats (a * 64 + b) = [192 + a, 128 + b]"
  "b < 64 \<Longrightarrow> c < 64 \<Longrightarrow> a < 16 \<Longrightarrow> a = 0 \<longrightarrow> 32 \<le> b \<Longrightarrow>
     utf8_nats ((a * 64 + b) * 64 + c) = [224 + a, 128 + b, 128 + c]"
  "b < 64 \<Longrightarrow> c < 64 \<Longrightarrow> d < 64 \<Longrightarrow> a < 5 \<Longrightarrow> a = 0 \<longrightarrow> 16 \<le> b \<Longrightarrow>
     utf8_nats (((a * 64 + b) * 64 + c) * 64 + d) = [240 + a, 128 + b, 128 + c, 128 + d]"
proof -
  assume "b < 64" "2 \<le> a" "a < 32"
  then show "utf8_nats (a * 64 + b) = [192 + a, 128 + b]"
    by (auto simp: utf8_nats_def)
next
  assume a: "b < 64" "c < 64" "a < 16" "a = 0 \<longrightarrow> 32 \<le> b"
  let ?u = "(a * 64 + b) * 64 + c"
  have "?u div 64 = a * 64 + b" "?u mod 64 = c"
    using digit64 [OF a(2), of "a * 64 + b"] by simp_all
  moreover have "?u div 4096 = ?u div 64 div 64" by (simp add: div_mult2_eq [symmetric])
  moreover have "2048 \<le> ?u" "?u < 0x10000" using a by (cases "a = 0"; simp)+
  ultimately show "utf8_nats ?u = [224 + a, 128 + b, 128 + c]"
    using a unfolding utf8_nats_def by simp
next
  assume a: "b < 64" "c < 64" "d < 64" "a < 5" "a = 0 \<longrightarrow> 16 \<le> b"
  let ?u = "((a * 64 + b) * 64 + c) * 64 + d"
  have u1: "?u div 64 = (a * 64 + b) * 64 + c" "?u mod 64 = d"
    using digit64 [OF a(3), of "(a * 64 + b) * 64 + c"] by simp_all
  have u2: "?u div 4096 = a * 64 + b"
  proof -
    have "?u div 4096 = ?u div 64 div 64" by (simp add: div_mult2_eq [symmetric])
    also have "\<dots> = a * 64 + b" unfolding u1 using a by simp
    finally show ?thesis .
  qed
  have u3: "?u div 262144 = a"
  proof -
    have "?u div 262144 = ?u div 4096 div 64" by (simp add: div_mult2_eq [symmetric])
    also have "\<dots> = a" unfolding u2 using a by simp
    finally show ?thesis .
  qed
  have u4: "?u div 64 mod 64 = c" "?u div 4096 mod 64 = b"
    unfolding u1 u2 using digit64 [OF a(2), of "a * 64 + b"] digit64 [OF a(1), of a] by simp_all
  have "0x10000 \<le> ?u" using a by (cases "a = 0"; simp)
  with u1(2) u3 u4 a show "utf8_nats ?u = [240 + a, 128 + b, 128 + c, 128 + d]"
    unfolding utf8_nats_def by simp
qed

lemma scalar3:
  assumes "x < 16" "y < 64" "z < 64" "x = 13 \<longrightarrow> y < 32"
  shows "is_scalar ((x * 64 + y) * 64 + z)"
proof -
  consider "x < 13" | "x = 13" | "13 < x" by linarith
  then show ?thesis
  proof cases
    case 1
    then have "(x * 64 + y) * 64 + z < 0xD800" using assms(2,3) by simp
    then show ?thesis by (simp add: is_scalar_def)
  next
    case 2
    then have "(x * 64 + y) * 64 + z < 0xD800" using assms by simp
    then show ?thesis by (simp add: is_scalar_def)
  next
    case 3
    then have "0xE000 \<le> (x * 64 + y) * 64 + z" "(x * 64 + y) * 64 + z < 0x110000"
      using assms by simp_all
    then show ?thesis by (simp add: is_scalar_def)
  qed
qed

lemma scalar4:
  assumes "w < 5" "x < 64" "y < 64" "z < 64" "w = 0 \<longrightarrow> 16 \<le> x" "w = 4 \<longrightarrow> x < 16"
  shows "is_scalar (((w * 64 + x) * 64 + y) * 64 + z)"
proof -
  have "0xE000 \<le> ((w * 64 + x) * 64 + y) * 64 + z"
    using assms(5) by (cases "w = 0") simp_all
  moreover have "((w * 64 + x) * 64 + y) * 64 + z < 0x110000"
  proof (cases "w = 4")
    case True
    with assms show ?thesis by simp
  next
    case False
    with assms(1) have "w < 4" by simp
    with assms(2-4) show ?thesis by simp
  qed
  ultimately show ?thesis by (simp add: is_scalar_def)
qed

lemma cont_digit: "is_cont b \<Longrightarrow> b - 128 < 64 \<and> 128 + (b - 128) = b"
  by (auto simp: is_cont_def)

lemma utf8_step_nat_sound:
  assumes "utf8_step_nat a ds = Utf8Char u n"
  shows "is_scalar u \<and> utf8_nats u = take n (a # ds)"
proof -
  consider (one) "a < 128" "u = a" "n = 1"
    | (two) b r where "0xC2 \<le> a" "a \<le> 0xDF" "ds = b # r" "is_cont b"
        "u = (a - 192) * 64 + (b - 128)" "n = 2"
    | (three) b c r where "0xE0 \<le> a" "a \<le> 0xEF" "ds = b # c # r" "second3_ok a b" "is_cont c"
        "u = ((a - 224) * 64 + (b - 128)) * 64 + (c - 128)" "n = 3"
    | (four) b c d r where "0xF0 \<le> a" "a \<le> 0xF4" "ds = b # c # d # r" "second4_ok a b"
        "is_cont c" "is_cont d"
        "u = (((a - 240) * 64 + (b - 128)) * 64 + (c - 128)) * 64 + (d - 128)" "n = 4"
    using assms
    by (auto simp: utf8_step_nat_def step2_def step3_def step4_def
        split: if_splits list.splits)
  then show ?thesis
  proof cases
    case one
    then show ?thesis by (simp add: is_scalar_def utf8_nats_def)
  next
    case two
    have "a - 192 < 32" "2 \<le> a - 192" using two by auto
    moreover have "b - 128 < 64" "128 + (b - 128) = b" using two cont_digit [of b] by auto
    moreover from calculation have "u < 0xD800" unfolding two(5) by linarith
    ultimately show ?thesis using two utf8_nats_of_digits(1) [of "b - 128" "a - 192"]
      by (simp add: is_scalar_def)
  next
    case three
    have b: "is_cont b" using three by (simp add: second3_ok_def)
    have low: "a - 224 = 0 \<longrightarrow> 32 \<le> b - 128" using three by (auto simp: second3_ok_def)
    have "a - 224 < 16" "a - 224 = 13 \<longrightarrow> b - 128 < 32"
      using three by (auto simp: second3_ok_def)
    then have "is_scalar u"
      unfolding three(6) using cont_digit [OF b] cont_digit [of c] three(5)
      by (intro scalar3) auto
    with three low show ?thesis
      using cont_digit [OF b] cont_digit [of c]
        utf8_nats_of_digits(2) [of "b - 128" "c - 128" "a - 224"] by simp
  next
    case four
    have b: "is_cont b" using four by (simp add: second4_ok_def)
    have low: "a - 240 = 0 \<longrightarrow> 16 \<le> b - 128" using four by (auto simp: second4_ok_def)
    have high: "a - 240 = 4 \<longrightarrow> b - 128 < 16" using four by (auto simp: second4_ok_def)
    have "a - 240 < 5" using four by auto
    with low high have "is_scalar u"
      unfolding four(7) using cont_digit [OF b] cont_digit [OF four(5)] cont_digit [OF four(6)]
      by (intro scalar4) auto
    moreover have "utf8_nats u = [240 + (a - 240), 128 + (b - 128), 128 + (c - 128), 128 + (d - 128)]"
      unfolding four(7)
      using cont_digit [OF b] cont_digit [OF four(5)] cont_digit [OF four(6)] low \<open>a - 240 < 5\<close>
      by (intro utf8_nats_of_digits(3)) auto
    moreover have "240 + (a - 240) = a" using four(1) by simp
    ultimately show ?thesis
      using cont_digit [OF b] cont_digit [OF four(5)] cont_digit [OF four(6)] four(3,8) by simp
  qed
qed

lemma utf8_step_sound:
  assumes "utf8_step c cs = Utf8Char u n"
  shows "is_scalar u" and "utf8_encode u = take n (c # cs)"
proof -
  have s: "is_scalar u" "utf8_nats u = take n (byte_val c # map byte_val (take 3 cs))"
    using utf8_step_nat_sound assms unfolding utf8_step_def by blast+
  have n: "1 \<le> n" "n \<le> 4" using utf8_step_bounds [OF assms] by auto
  show "is_scalar u" by (rule s)
  have "take n (byte_val c # map byte_val (take 3 cs)) = map byte_val (take n (c # cs))"
    using n by (cases n) (auto simp: take_map min_def)
  with s(2) show "utf8_encode u = take n (c # cs)"
    by (simp add: utf8_encode_def comp_def)
qed

lemma utf8_nats_Cons: "utf8_nats u = hd (utf8_nats u) # tl (utf8_nats u)"
  and utf8_nats_length: "1 \<le> length (utf8_nats u)" "length (utf8_nats u) \<le> 4"
  by (auto simp: utf8_nats_def)

lemma utf8_encode_neq_Nil [simp]: "utf8_encode u \<noteq> []"
  using utf8_nats_length(1) [of u] by (auto simp: utf8_encode_def)

lemma utf8_step_nat_prefix:
  "utf8_step_nat a ds = Utf8Char u n \<Longrightarrow> n \<le> Suc k \<Longrightarrow> utf8_step_nat a (take k ds) = Utf8Char u n"
  by (auto simp: utf8_step_nat_def step2_def step3_def step4_def take_Cons'
      split: if_splits list.splits nat.splits)

lemma utf8_step_encode:
  assumes "is_scalar u"
  shows "utf8_step (hd (utf8_encode u)) (tl (utf8_encode u) @ rest) =
     Utf8Char u (length (utf8_encode u))"
proof -
  let ?ns = "utf8_nats u"
  have lt: "\<forall>b \<in> set ?ns. b < 256" using assms by (rule utf8_nats_less)
  have v: "map byte_val (map byte_of ?ns) = ?ns"
    using lt by (simp add: map_idI)
  have hd: "byte_val (hd (utf8_encode u)) = hd ?ns"
    using v utf8_nats_length(1) [of u] by (cases ?ns) (auto simp: utf8_encode_def)
  have tl: "map byte_val (tl (utf8_encode u)) = tl ?ns"
    using v by (cases ?ns) (auto simp: utf8_encode_def)
  have "utf8_step_nat (hd ?ns) (tl ?ns @ map byte_val rest) = Utf8Char u (length ?ns)"
    using assms by (rule utf8_step_nat_encode)
  from utf8_step_nat_prefix [OF this, of 3] utf8_nats_length(2) [of u]
  have "utf8_step_nat (hd ?ns) (take 3 (tl ?ns @ map byte_val rest)) = Utf8Char u (length ?ns)"
    by simp
  then show ?thesis
    by (simp add: utf8_step_def hd take_map [symmetric] tl) (simp add: utf8_encode_def)
qed

lemma utf8_decode_encode_append:
  assumes "is_scalar u"
  shows "utf8_decode pos (utf8_encode u @ rest) =
     (case utf8_decode (pos + length (utf8_encode u)) rest of
        Inl e \<Rightarrow> Inl e | Inr us \<Rightarrow> Inr (u # us))"
proof -
  let ?e = "utf8_encode u"
  have e: "?e = hd ?e # tl ?e" by simp
  have d: "drop (length ?e - 1) (tl ?e @ rest) = rest" by simp
  have "utf8_decode pos (hd ?e # (tl ?e @ rest)) =
      (case utf8_decode (pos + length ?e) rest of Inl e \<Rightarrow> Inl e | Inr us \<Rightarrow> Inr (u # us))"
    unfolding utf8_decode.simps utf8_step_encode [OF assms] utf8_step.case d ..
  moreover have "hd ?e # (tl ?e @ rest) = ?e @ rest" by (cases ?e) auto
  ultimately show ?thesis by (simp only:)
qed

lemma utf8_decode_encode_str:
  "\<forall>u \<in> set us. is_scalar u \<Longrightarrow> utf8_decode pos (utf8_encode_str us) = Inr us"
  by (induction us arbitrary: pos)
    (auto simp: utf8_encode_str_def utf8_decode_encode_append)

lemma from_utf8_encode_str: "\<forall>u \<in> set us. is_scalar u \<Longrightarrow> from_utf8 (utf8_encode_str us) = Inr us"
  by (simp add: from_utf8_def utf8_decode_encode_str)

lemma utf8_decode_sound:
  "utf8_decode pos bs = Inr us \<Longrightarrow> (\<forall>u \<in> set us. is_scalar u) \<and> utf8_encode_str us = bs"
proof (induction pos bs arbitrary: us rule: utf8_decode.induct)
  case (1 pos)
  then show ?case by (simp add: utf8_encode_str_def)
next
  case (2 pos c cs)
  from "2.prems" obtain u n us' where st: "utf8_step c cs = Utf8Char u n"
    and rec: "utf8_decode (pos + n) (drop (n - 1) cs) = Inr us'" and us: "us = u # us'"
    by (auto split: utf8_step.splits sum.splits)
  have n: "1 \<le> n" using utf8_step_bounds [OF st] by simp
  then have "take n (c # cs) @ drop (n - 1) cs = c # cs"
    by (cases n) auto
  with "2.IH" [OF st rec] utf8_step_sound [OF st] us show ?case
    by (simp add: utf8_encode_str_def)
qed

lemma from_utf8_sound:
  "from_utf8 bs = Inr us \<Longrightarrow> (\<forall>u \<in> set us. is_scalar u) \<and> utf8_encode_str us = bs"
  unfolding from_utf8_def by (rule utf8_decode_sound)

lemma is_utf8_iff: "is_utf8 bs \<longleftrightarrow> (\<exists>us. (\<forall>u \<in> set us. is_scalar u) \<and> bs = utf8_encode_str us)"
  by (auto simp: is_utf8_def is_ok_iff from_utf8_encode_str dest: from_utf8_sound)

lemma str_chars_sound: "is_utf8 bs \<Longrightarrow> utf8_encode_str (str_chars bs) = bs"
  by (auto simp: is_utf8_def is_ok_iff str_chars_def dest: from_utf8_sound)

text \<open>Bytes of a multi-byte encoding are never ASCII.\<close>

lemma utf8_nats_ascii:
  assumes "is_scalar u" "b \<in> set (utf8_nats u)" "b < 128"
  shows "u = b \<and> utf8_nats u = [b]"
  using assms by (auto simp: utf8_nats_def split: if_splits)

lemma utf8_encode_ascii:
  assumes "is_scalar u" "c \<in> set (utf8_encode u)" "byte_val c < 128"
  shows "u = byte_val c \<and> utf8_encode u = [c]"
proof -
  from assms(2) obtain b where b: "b \<in> set (utf8_nats u)" "c = byte_of b"
    by (auto simp: utf8_encode_def)
  with utf8_nats_less [OF assms(1)] have "byte_val c = b" by auto
  with utf8_nats_ascii [OF assms(1) b(1)] assms(3) b(2) show ?thesis
    by (auto simp: utf8_encode_def)
qed

lemma utf8_encode_ascii_char: "u < 128 \<Longrightarrow> utf8_encode u = [byte_of u]"
  by (simp add: utf8_encode_def utf8_nats_def)


lemma utf8_encode_str_append: "utf8_encode_str (us @ vs) = utf8_encode_str us @ utf8_encode_str vs"
  by (simp add: utf8_encode_str_def)

lemma is_utf8_append: "is_utf8 xs \<Longrightarrow> is_utf8 ys \<Longrightarrow> is_utf8 (xs @ ys)"
  unfolding is_utf8_iff by (metis UnE set_append utf8_encode_str_append)

text \<open>
  When validation fails at \<^verbatim>\<open>valid_up_to\<close>, the bytes before it are valid and the reported
  invalid sequence lies inside the input.
\<close>

lemma utf8_decode_error:
  "utf8_decode pos bs = Inl (v, e) \<Longrightarrow>
     pos \<le> v \<and> v < pos + length bs \<and> is_utf8 (take (v - pos) bs) \<and>
     (\<forall>n. e = Some n \<longrightarrow> 1 \<le> n \<and> v + n \<le> pos + length bs)"
proof (induction pos bs rule: utf8_decode.induct)
  case (1 pos)
  then show ?case by simp
next
  case (2 pos c cs)
  show ?case
  proof (cases "utf8_step c cs")
    case (Utf8Bad e')
    with "2.prems" have "v = pos" "e = e'" by auto
    moreover have "is_utf8 []" by (simp add: is_utf8_def from_utf8_def)
    moreover have "\<forall>n. e' = Some n \<longrightarrow> 1 \<le> n \<and> n \<le> Suc (length cs)"
      using Utf8Bad utf8_step_bad_bounds by blast
    ultimately show ?thesis by auto
  next
    case (Utf8Char u n)
    have n: "1 \<le> n" "n \<le> Suc (length cs)" using utf8_step_bounds [OF Utf8Char] by auto
    from "2.prems" Utf8Char have rec: "utf8_decode (pos + n) (drop (n - 1) cs) = Inl (v, e)"
      by (auto split: sum.splits)
    note IH = "2.IH" [OF Utf8Char rec]
    have len: "length (drop (n - 1) cs) = Suc (length cs) - n" using n by simp
    have "take (v - pos) (c # cs) = take n (c # cs) @ take (v - (pos + n)) (drop (n - 1) cs)"
    proof -
      have "v - pos = n + (v - (pos + n))" using IH by simp
      then have "take (v - pos) (c # cs) = take n (c # cs) @ take (v - (pos + n)) (drop n (c # cs))"
        by (metis take_add)
      with n show ?thesis by (cases n) auto
    qed
    moreover have "is_utf8 (take n (c # cs))"
      using utf8_step_sound [OF Utf8Char] unfolding is_utf8_iff utf8_encode_str_def
      by (intro exI [of _ "[u]"]) simp
    ultimately have "is_utf8 (take (v - pos) (c # cs))"
      using IH by (simp add: is_utf8_append)
    with IH len n show ?thesis by auto
  qed
qed

lemma from_utf8_error:
  assumes "from_utf8 bs = Inl (v, e)"
  shows "v < length bs" and "is_utf8 (take v bs)"
    and "e = Some n \<Longrightarrow> 1 \<le> n \<and> v + n \<le> length bs"
  using utf8_decode_error [of 0 bs v e] assms by (auto simp: from_utf8_def)

subsection \<open>UTF-16\<close>

text \<open>\<^verbatim>\<open>String::from_utf16\<close>: strict, a lone surrogate is an error.\<close>

fun from_utf16 :: "nat list \<Rightarrow> nat list option" where
  "from_utf16 [] = Some []"
| "from_utf16 (u # us) =
     (if u < 0xD800 \<or> 0xE000 \<le> u then map_option (Cons u) (from_utf16 us)
      else if 0xDC00 \<le> u then None
      else (case us of
              [] \<Rightarrow> None
            | v # vs \<Rightarrow>
                if 0xDC00 \<le> v \<and> v < 0xE000
                then map_option (Cons (0x10000 + (u - 0xD800) * 0x400 + (v - 0xDC00))) (from_utf16 vs)
                else None))"

definition utf16_units :: "nat \<Rightarrow> nat list" where
  "utf16_units u =
     (if u < 0x10000 then [u]
      else [0xD800 + (u - 0x10000) div 0x400, 0xDC00 + (u - 0x10000) mod 0x400])"

lemma from_utf16_units_append:
  "is_scalar u \<Longrightarrow> from_utf16 (utf16_units u @ vs) = map_option (Cons u) (from_utf16 vs)"
proof -
  assume s: "is_scalar u"
  show ?thesis
  proof (cases "u < 0x10000")
    case True
    with s show ?thesis by (auto simp: utf16_units_def is_scalar_def)
  next
    case False
    then have "(u - 0x10000) div 0x400 < 0x400" using s by (auto simp: is_scalar_def)
    moreover have "0x10000 + (u - 0x10000) div 0x400 * 0x400 + (u - 0x10000) mod 0x400 = u"
      using False by (simp add: add.assoc)
    ultimately show ?thesis using False
      by (auto simp: utf16_units_def)
  qed
qed

lemma from_utf16_encode:
  "\<forall>u \<in> set us. is_scalar u \<Longrightarrow> from_utf16 (concat (map utf16_units us)) = Some us"
  by (induction us) (auto simp: from_utf16_units_append)

lemma from_utf16_scalar:
  "from_utf16 us = Some cs \<Longrightarrow> \<forall>u \<in> set us. u < 0x10000 \<Longrightarrow> \<forall>c \<in> set cs. is_scalar c"
proof (induction us arbitrary: cs rule: from_utf16.induct)
  case 1
  then show ?case by simp
next
  case (2 u us)
  show ?case
  proof (cases "u < 0xD800 \<or> 0xE000 \<le> u")
    case True
    with "2.prems" obtain cs' where "from_utf16 us = Some cs'" "cs = u # cs'" by auto
    with "2.IH"(1) [OF True] "2.prems"(2) True show ?thesis by (auto simp: is_scalar_def)
  next
    case False
    with "2.prems"(1) obtain v vs cs' where us: "us = v # vs" "0xDC00 \<le> v" "v < 0xE000"
      and cs: "from_utf16 vs = Some cs'" "cs = (0x10000 + (u - 0xD800) * 0x400 + (v - 0xDC00)) # cs'"
      and u: "u < 0xDC00"
      by (auto split: if_splits list.splits)
    have "\<forall>c \<in> set cs'. is_scalar c"
      using "2.IH"(2) [OF False _ us(1)] us u cs "2.prems"(2) by simp
    moreover have "x * 0x400 + y < 0x100000" if "x < 0x400" "y < 0x400" for x y :: nat
      using that by simp
    from this [of "u - 0xD800" "v - 0xDC00"]
    have "is_scalar (0x10000 + (u - 0xD800) * 0x400 + (v - 0xDC00))"
      using u us False by (simp add: is_scalar_def)
    ultimately show ?thesis using cs by simp
  qed
qed

subsection \<open>Character classes\<close>

definition is_control :: "nat \<Rightarrow> bool" where
  "is_control u \<longleftrightarrow> u < 0x20 \<or> (0x7F \<le> u \<and> u < 0xA0)"

definition is_whitespace :: "nat \<Rightarrow> bool" where
  "is_whitespace u \<longleftrightarrow>
     (9 \<le> u \<and> u \<le> 13) \<or>
     u \<in> set [0x20, 0x85, 0xA0, 0x1680, 0x2028, 0x2029, 0x202F, 0x205F, 0x3000] \<or>
     (0x2000 \<le> u \<and> u \<le> 0x200A)"

definition ascii_upper :: "byte \<Rightarrow> bool" where
  "ascii_upper c \<longleftrightarrow> 65 \<le> byte_val c \<and> byte_val c \<le> 90"

definition ascii_lower :: "byte \<Rightarrow> bool" where
  "ascii_lower c \<longleftrightarrow> 97 \<le> byte_val c \<and> byte_val c \<le> 122"

definition is_ascii_digit :: "byte \<Rightarrow> bool" where
  "is_ascii_digit c \<longleftrightarrow> 48 \<le> byte_val c \<and> byte_val c \<le> 57"

definition is_ascii_alphabetic :: "byte \<Rightarrow> bool" where
  "is_ascii_alphabetic c \<longleftrightarrow> ascii_upper c \<or> ascii_lower c"

definition is_ascii_alphanumeric :: "byte \<Rightarrow> bool" where
  "is_ascii_alphanumeric c \<longleftrightarrow> is_ascii_alphabetic c \<or> is_ascii_digit c"

definition to_ascii_lowercase :: "bytes \<Rightarrow> bytes" where
  "to_ascii_lowercase = map (\<lambda>c. if ascii_upper c then byte_of (byte_val c + 32) else c)"

definition to_ascii_uppercase :: "bytes \<Rightarrow> bytes" where
  "to_ascii_uppercase = map (\<lambda>c. if ascii_lower c then byte_of (byte_val c - 32) else c)"

text \<open>Decimal rendering of an unsigned number (\<^verbatim>\<open>to_string\<close>) and \<^verbatim>\<open>str.parse::<u64>\<close>.\<close>

fun show_nat :: "nat \<Rightarrow> bytes" where
  "show_nat n =
     (if n < 10 then [byte_of (48 + n)] else show_nat (n div 10) @ [byte_of (48 + n mod 10)])"

declare show_nat.simps [simp del]

definition digits_val :: "bytes \<Rightarrow> nat" where
  "digits_val ds = foldl (\<lambda>n d. n * 10 + (byte_val d - 48)) 0 ds"

definition parse_u64 :: "bytes \<Rightarrow> u64 option" where
  "parse_u64 s =
     (let ds = (case s of c # r \<Rightarrow> if c = CHR ''+'' then r else s | [] \<Rightarrow> s)
      in if ds = [] \<or> \<not> list_all is_ascii_digit ds then None
         else if digits_val ds < 2 ^ 64 then Some (of_nat (digits_val ds)) else None)"

lemma is_ascii_digit_of: "d < 10 \<Longrightarrow> is_ascii_digit (byte_of (48 + d))"
  by (simp add: is_ascii_digit_def)

lemma show_nat_digits: "show_nat n \<noteq> [] \<and> list_all is_ascii_digit (show_nat n)"
proof (induction n rule: show_nat.induct)
  case (1 n)
  show ?case
  proof (cases "n < 10")
    case True
    then show ?thesis by (subst (1 2) show_nat.simps) (simp add: is_ascii_digit_of)
  next
    case False
    with 1 show ?thesis by (subst (1 2) show_nat.simps) (simp add: is_ascii_digit_of)
  qed
qed

lemma digits_val_show_nat [simp]: "digits_val (show_nat n) = n"
proof (induction n rule: show_nat.induct)
  case (1 n)
  show ?case
  proof (cases "n < 10")
    case True
    then show ?thesis by (subst show_nat.simps) (simp add: digits_val_def)
  next
    case False
    with 1 show ?thesis by (subst show_nat.simps) (simp add: digits_val_def)
  qed
qed

lemma parse_show_u64: "parse_u64 (show_nat (unat (w :: u64))) = Some w"
proof -
  have h: "hd (show_nat (unat w)) \<noteq> CHR ''+''"
    using show_nat_digits [of "unat w"]
    by (cases "show_nat (unat w)") (auto simp: is_ascii_digit_def byte_val_def)
  then have "(case show_nat (unat w) of c # r \<Rightarrow> if c = CHR ''+'' then r else show_nat (unat w)
      | [] \<Rightarrow> show_nat (unat w)) = show_nat (unat w)"
    by (cases "show_nat (unat w)") auto
  moreover have "unat w < 2 ^ 64" using unsigned_less [of w] by simp
  ultimately show ?thesis
    using show_nat_digits [of "unat w"] by (simp add: parse_u64_def)
qed

end
