(* ===== verification/PackPath.thy ===== *)
theory PackPath
  imports Utf8
begin

text \<open>
  \<^verbatim>\<open>src/packpath.rs\<close>: canonical repository-relative paths.  A \<^verbatim>\<open>PackPath\<close> owns bytes that
  \<^verbatim>\<open>validate\<close> accepted; native paths are what \<^verbatim>\<open>std::path\<close> makes of them, so the parts of
  \<^verbatim>\<open>Path::components\<close> and \<^verbatim>\<open>PathBuf::push\<close> that the code uses on Unix are modelled here.
\<close>

subsection \<open>Native paths\<close>

datatype platform = Unix | Windows | MacOs

datatype path_component =
  Prefix bytes | RootDir | CurDir | ParentDir | Normal (normal_bytes: bytes)

definition part_component :: "bytes \<Rightarrow> path_component option" where
  "part_component s =
     (if s = [] \<or> s = ''.'' then None else if s = ''..'' then Some ParentDir else Some (Normal s))"

definition unix_components :: "bytes \<Rightarrow> path_component list" where
  "unix_components path =
     (let parts = split_on (CHR ''/'') path;
          rooted = (path \<noteq> [] \<and> hd path = CHR ''/'')
      in (if rooted then [RootDir] else if hd parts = ''.'' then [CurDir] else [])
         @ List.map_filter part_component parts)"

definition unix_push :: "bytes \<Rightarrow> bytes \<Rightarrow> bytes" where
  "unix_push path p =
     (if p \<noteq> [] \<and> hd p = CHR ''/'' then p
      else if path \<noteq> [] \<and> last path \<noteq> CHR ''/'' then path @ CHR ''/'' # p
      else path @ p)"

subsection \<open>Pack paths\<close>

datatype pack_path_error =
    PathEmpty | Absolute | EmptyComponent | CurrentDirectory | ParentDirectory | Nul
  | NativePrefix | NonUnicodeWindowsComponent | UnrepresentableComponent bytes

datatype pack_path = PackPath (as_bytes: bytes)

instantiation pack_path :: linorder
begin

definition less_eq_pack_path :: "pack_path \<Rightarrow> pack_path \<Rightarrow> bool" where
  "less_eq_pack_path p q \<longleftrightarrow> as_bytes p \<le> as_bytes q"

definition less_pack_path :: "pack_path \<Rightarrow> pack_path \<Rightarrow> bool" where
  "less_pack_path p q \<longleftrightarrow> as_bytes p < as_bytes q"

instance
  by standard (auto simp: less_eq_pack_path_def less_pack_path_def pack_path.expand)

end

fun check_components :: "bytes list \<Rightarrow> pack_path_error + unit" where
  "check_components [] = Inr ()"
| "check_components (c # cs) =
     (if c = [] then Inl EmptyComponent
      else if c = ''.'' then Inl CurrentDirectory
      else if c = ''..'' then Inl ParentDirectory
      else check_components cs)"

definition validate :: "bytes \<Rightarrow> pack_path_error + unit" where
  "validate bs =
     (if bs = [] then Inl PathEmpty
      else if hd bs = CHR ''/'' then Inl Absolute
      else if CHR 0x00 \<in> set bs then Inl Nul
      else check_components (split_on (CHR ''/'') bs))"

definition pack_path_new :: "bytes \<Rightarrow> pack_path_error + pack_path" where
  "pack_path_new bs = rbind (validate bs) (\<lambda>_. Inr (PackPath bs))"

definition components :: "pack_path \<Rightarrow> bytes list" where
  "components p = split_on (CHR ''/'') (as_bytes p)"

text \<open>
  \<^verbatim>\<open>append_native_component\<close> and \<^verbatim>\<open>native_component\<close> have a Unix and a Windows version; a
  Windows component is represented by its WTF-8 bytes, of which \<^verbatim>\<open>to_str\<close> accepts the valid
  UTF-8 ones.  macOS is a Unix target.
\<close>

definition append_native_component :: "platform \<Rightarrow> bytes \<Rightarrow> bytes \<Rightarrow> pack_path_error + bytes" where
  "append_native_component pl out c =
     (if pl = Windows \<and> \<not> is_utf8 c then Inl NonUnicodeWindowsComponent else Inr (out @ c))"

definition native_component :: "platform \<Rightarrow> bytes \<Rightarrow> pack_path_error + bytes" where
  "native_component pl c =
     (if pl = Windows
      then if \<not> is_utf8 c then Inl (UnrepresentableComponent c)
           else if CHR 0x5C \<in> set c \<or> CHR ''/'' \<in> set c then Inl (UnrepresentableComponent c)
           else Inr c
      else Inr c)"

fun from_native_loop :: "platform \<Rightarrow> bytes \<Rightarrow> path_component list \<Rightarrow> pack_path_error + bytes" where
  "from_native_loop pl out [] = Inr out"
| "from_native_loop pl out (Normal c # cs) =
     (let out = (if out \<noteq> [] then out @ ''/'' else out)
      in rbind (append_native_component pl out c) (\<lambda>out. from_native_loop pl out cs))"
| "from_native_loop pl out (CurDir # cs) = Inl CurrentDirectory"
| "from_native_loop pl out (ParentDir # cs) = Inl ParentDirectory"
| "from_native_loop pl out (RootDir # cs) = Inl NativePrefix"
| "from_native_loop pl out (Prefix p # cs) = Inl NativePrefix"

definition from_native_components ::
    "platform \<Rightarrow> path_component list \<Rightarrow> pack_path_error + pack_path" where
  "from_native_components pl cs = rbind (from_native_loop pl [] cs) pack_path_new"

definition from_native :: "bytes \<Rightarrow> pack_path_error + pack_path" where
  "from_native path = from_native_components Unix (unix_components path)"

fun to_native_loop :: "bytes \<Rightarrow> bytes list \<Rightarrow> pack_path_error + bytes" where
  "to_native_loop path [] = Inr path"
| "to_native_loop path (c # cs) =
     rbind (native_component Unix c) (\<lambda>n. to_native_loop (unix_push path n) cs)"

definition to_native :: "pack_path \<Rightarrow> pack_path_error + bytes" where
  "to_native p = to_native_loop [] (components p)"

subsection \<open>What a valid path is\<close>

definition component_ok :: "bytes \<Rightarrow> bool" where
  "component_ok c \<longleftrightarrow> c \<noteq> [] \<and> c \<noteq> ''.'' \<and> c \<noteq> ''..'' \<and> CHR ''/'' \<notin> set c \<and> CHR 0x00 \<notin> set c"

definition pack_path_ok :: "pack_path \<Rightarrow> bool" where
  "pack_path_ok p \<longleftrightarrow> list_all component_ok (components p)"

lemma components_neq_Nil [simp]: "components p \<noteq> []"
  by (simp add: components_def)

lemma join_components [simp]: "join_with (CHR ''/'') (components p) = as_bytes p"
  by (simp add: components_def)

lemma check_components_iff:
  "check_components cs = Inr () \<longleftrightarrow> (\<forall>c \<in> set cs. c \<noteq> [] \<and> c \<noteq> ''.'' \<and> c \<noteq> ''..'')"
  by (induction cs) auto

lemma validate_iff: "validate bs = Inr () \<longleftrightarrow> pack_path_ok (PackPath bs)"
proof
  assume v: "validate bs = Inr ()"
  then have cs: "\<forall>c \<in> set (split_on (CHR ''/'') bs). c \<noteq> [] \<and> c \<noteq> ''.'' \<and> c \<noteq> ''..''"
    and nul: "CHR 0x00 \<notin> set bs"
    by (auto simp: validate_def check_components_iff split: if_splits)
  show "pack_path_ok (PackPath bs)"
    unfolding pack_path_ok_def list_all_iff
  proof
    fix c assume c: "c \<in> set (components (PackPath bs))"
    then have "c \<in> set (split_on (CHR ''/'') bs)" by (simp add: components_def)
    with cs nul set_split_on [OF this] show "component_ok c"
      by (auto simp: component_ok_def)
  qed
next
  assume ok: "pack_path_ok (PackPath bs)"
  then have cs: "\<forall>c \<in> set (split_on (CHR ''/'') bs). component_ok c"
    by (simp add: pack_path_ok_def list_all_iff components_def)
  have nil: "\<not> component_ok []" by (simp add: component_ok_def)
  have "bs \<noteq> []"
  proof
    assume "bs = []"
    with cs nil show False by simp
  qed
  moreover have "hd bs \<noteq> CHR ''/''"
  proof
    assume "hd bs = CHR ''/''"
    with \<open>bs \<noteq> []\<close> obtain r where "bs = CHR ''/'' # r" by (cases bs) auto
    then have "[] \<in> set (split_on (CHR ''/'') bs)" by simp
    with cs nil show False by blast
  qed
  moreover have "CHR 0x00 \<notin> set bs"
  proof -
    have "set (join_with (CHR ''/'') (split_on (CHR ''/'') bs)) \<subseteq>
        insert (CHR ''/'') (\<Union>(set ` set (split_on (CHR ''/'') bs)))"
      by (rule set_join_with)
    moreover have "CHR 0x00 \<notin> set c" if "c \<in> set (split_on (CHR ''/'') bs)" for c
      using cs that unfolding component_ok_def by blast
    ultimately show ?thesis by (auto simp del: join_split_on simp: join_split_on [of "CHR ''/''" bs])
  qed
  moreover have "check_components (split_on (CHR ''/'') bs) = Inr ()"
    using cs unfolding check_components_iff component_ok_def by blast
  ultimately show "validate bs = Inr ()" by (simp add: validate_def)
qed

lemma pack_path_new_iff: "pack_path_new bs = Inr p \<longleftrightarrow> p = PackPath bs \<and> pack_path_ok p"
  using validate_iff [of bs] by (cases "validate bs") (auto simp: pack_path_new_def)

lemma pack_path_new_ok: "pack_path_ok p \<Longrightarrow> pack_path_new (as_bytes p) = Inr p"
  by (cases p) (simp add: pack_path_new_iff)

lemma component_ok_part: "component_ok c \<Longrightarrow> part_component c = Some (Normal c)"
  by (auto simp: component_ok_def part_component_def)

subsection \<open>Native round trip\<close>

lemma unix_components_join:
  assumes "list_all component_ok cs" "cs \<noteq> []"
  shows "unix_components (join_with (CHR ''/'') cs) = map Normal cs"
proof -
  have free: "\<forall>c \<in> set cs. CHR ''/'' \<notin> set c"
    using assms(1) by (auto simp: list_all_iff component_ok_def)
  have parts: "split_on (CHR ''/'') (join_with (CHR ''/'') cs) = cs"
    using assms(2) free by (rule split_on_join_with)
  obtain x c' r where cs: "cs = (x # c') # r" and x: "x \<noteq> CHR ''/''"
    using assms by (cases cs; cases "hd cs") (auto simp: component_ok_def)
  have "\<not> (join_with (CHR ''/'') cs \<noteq> [] \<and> hd (join_with (CHR ''/'') cs) = CHR ''/'')"
    using x by (cases r) (auto simp: cs)
  moreover have "hd cs \<noteq> ''.''" using assms by (cases cs) (auto simp: component_ok_def)
  moreover have "List.map_filter part_component cs = map Normal cs"
    using assms(1) by (induction cs) (auto simp: component_ok_part)
  ultimately show ?thesis by (simp add: unix_components_def parts Let_def)
qed

lemma unix_push_ok:
  "component_ok c \<Longrightarrow> unix_push path c =
     (if path \<noteq> [] \<and> last path \<noteq> CHR ''/'' then path @ CHR ''/'' # c else path @ c)"
  by (cases c) (auto simp: unix_push_def component_ok_def)

lemma to_native_loop_join:
  "list_all component_ok cs \<Longrightarrow> path \<noteq> [] \<Longrightarrow> last path \<noteq> CHR ''/'' \<Longrightarrow>
     to_native_loop path cs = Inr (join_with (CHR ''/'') (path # cs))"
proof (induction cs arbitrary: path)
  case Nil
  then show ?case by simp
next
  case (Cons c cs)
  have c: "component_ok c" using Cons.prems by simp
  then have "c \<noteq> []" "last c \<noteq> CHR ''/''"
    by (auto simp: component_ok_def) (metis last_in_set)
  with Cons.IH [of "path @ CHR ''/'' # c"] Cons.prems c show ?case
    by (cases cs) (auto simp: native_component_def unix_push_ok)
qed

lemma to_native_ok:
  assumes "pack_path_ok p"
  shows "to_native p = Inr (as_bytes p)"
proof -
  obtain c cs where cs: "components p = c # cs" by (cases "components p") auto
  then have ok: "component_ok c" "list_all component_ok cs"
    using assms by (auto simp: pack_path_ok_def)
  then have "c \<noteq> []" "last c \<noteq> CHR ''/''"
    by (auto simp: component_ok_def) (metis last_in_set)
  then have "to_native_loop c cs = Inr (join_with (CHR ''/'') (c # cs))"
    by (rule to_native_loop_join [OF ok(2)])
  also have "join_with (CHR ''/'') (c # cs) = as_bytes p"
    using join_components [of p] cs by simp
  finally show ?thesis
    using cs ok(1) by (simp add: to_native_def native_component_def unix_push_ok)
qed

lemma from_native_loop_normal:
  "list_all component_ok cs \<Longrightarrow> out \<noteq> [] \<Longrightarrow>
     from_native_loop Unix out (map Normal cs) = Inr (join_with (CHR ''/'') (out # cs))"
proof (induction cs arbitrary: out)
  case Nil
  then show ?case by simp
next
  case (Cons c cs)
  then show ?case
    using Cons.IH [of "out @ CHR ''/'' # c"]
    by (cases cs) (auto simp: append_native_component_def Let_def)
qed

lemma from_native_to_native:
  assumes "pack_path_ok p"
  shows "from_native (as_bytes p) = Inr p"
proof -
  obtain c cs where cs: "components p = c # cs" by (cases "components p") auto
  with assms have ok: "component_ok c" "list_all component_ok cs"
    by (auto simp: pack_path_ok_def)
  have "unix_components (as_bytes p) = map Normal (c # cs)"
    using unix_components_join [of "components p"] assms cs
    by (simp add: pack_path_ok_def del: join_components add: join_components [symmetric])
  then have "from_native_loop Unix [] (unix_components (as_bytes p)) = Inr (as_bytes p)"
    using from_native_loop_normal [OF ok(2), of c] ok(1) join_components [of p] cs
    by (simp add: append_native_component_def component_ok_def Let_def)
  then show ?thesis
    using assms by (simp add: from_native_def from_native_components_def pack_path_new_ok)
qed


subsection \<open>Escaped display\<close>

text \<open>\<^verbatim>\<open>format!("%{byte:02X}")\<close>.\<close>

definition hex_upper :: "nat \<Rightarrow> byte" where
  "hex_upper d = (if d < 10 then byte_of (48 + d) else byte_of (55 + d))"

definition percent_byte :: "byte \<Rightarrow> bytes" where
  "percent_byte b = [CHR ''%'', hex_upper (byte_val b div 16), hex_upper (byte_val b mod 16)]"

definition push_escaped_char :: "nat \<Rightarrow> bytes" where
  "push_escaped_char u =
     (if u = 37 \<or> is_control u then concat (map percent_byte (utf8_encode u))
      else utf8_encode u)"

definition push_escaped_str :: "bytes \<Rightarrow> bytes" where
  "push_escaped_str value = concat (map push_escaped_char (str_chars value))"

function escape_bytes :: "bytes \<Rightarrow> bytes" where
  "escape_bytes remaining =
     (if remaining = [] then []
      else case from_utf8 remaining of
        Inr _ \<Rightarrow> push_escaped_str remaining
      | Inl (valid_len, error_len) \<Rightarrow>
          (let invalid_len = (case error_len of Some n \<Rightarrow> n | None \<Rightarrow> length remaining - valid_len)
           in push_escaped_str (take valid_len remaining)
              @ concat (map percent_byte (take invalid_len (drop valid_len remaining)))
              @ escape_bytes (drop (valid_len + invalid_len) remaining)))"
  by pat_completeness auto
termination
proof (relation "measure length")
  fix remaining x valid_len error_len invalid_len
  assume r: "remaining \<noteq> []" and x: "from_utf8 remaining = Inl x" "(valid_len, error_len) = x"
    and i: "invalid_len = (case error_len of Some n \<Rightarrow> n | None \<Rightarrow> length remaining - valid_len)"
  have f: "from_utf8 remaining = Inl (valid_len, error_len)" using x by simp
  have "0 < valid_len + invalid_len"
    using from_utf8_error [OF f] i by (cases error_len) auto
  with r show "(drop (valid_len + invalid_len) remaining, remaining) \<in> measure length"
    by simp
qed simp

declare escape_bytes.simps [simp del]

definition escaped :: "pack_path \<Rightarrow> bytes" where
  "escaped p = escape_bytes (as_bytes p)"

text \<open>The reader that undoes the escaping; the specification of reversibility.\<close>

definition hex_digit_val :: "byte \<Rightarrow> nat" where
  "hex_digit_val c = (if is_ascii_digit c then byte_val c - 48 else byte_val c - 55)"

fun unescape :: "bytes \<Rightarrow> bytes" where
  "unescape [] = []"
| "unescape (c # cs) =
     (if c = CHR ''%'' then
        (case cs of a # b # rest \<Rightarrow> byte_of (hex_digit_val a * 16 + hex_digit_val b) # unescape rest
         | _ \<Rightarrow> c # cs)
      else c # unescape cs)"

lemma hex_digit_val_upper: "d < 16 \<Longrightarrow> hex_digit_val (hex_upper d) = d"
  by (auto simp: hex_digit_val_def hex_upper_def is_ascii_digit_def)

lemma unescape_percent [simp]: "unescape (percent_byte b @ rest) = b # unescape rest"
proof -
  have "byte_val b div 16 < 16" using byte_val_less [of b] by linarith
  then show ?thesis
    by (simp add: percent_byte_def hex_digit_val_upper)
qed

lemma unescape_percents [simp]:
  "unescape (concat (map percent_byte bs) @ rest) = bs @ unescape rest"
  by (induction bs) auto

lemma unescape_plain: "CHR ''%'' \<notin> set bs \<Longrightarrow> unescape (bs @ rest) = bs @ unescape rest"
  by (induction bs) auto

lemma unescape_char [simp]:
  assumes "is_scalar u"
  shows "unescape (push_escaped_char u @ rest) = utf8_encode u @ unescape rest"
proof (cases "u = 37 \<or> is_control u")
  case True
  then show ?thesis by (simp add: push_escaped_char_def)
next
  case False
  have "CHR ''%'' \<notin> set (utf8_encode u)"
  proof
    assume "CHR ''%'' \<in> set (utf8_encode u)"
    from utf8_encode_ascii [OF assms this] have "u = 37" by (simp add: byte_val_def)
    with False show False by simp
  qed
  with False show ?thesis by (simp add: push_escaped_char_def unescape_plain)
qed

lemma unescape_str:
  assumes "is_utf8 bs"
  shows "unescape (push_escaped_str bs @ rest) = bs @ unescape rest"
proof -
  have u: "unescape (concat (map push_escaped_char us) @ rest) = utf8_encode_str us @ unescape rest"
    if "\<forall>u \<in> set us. is_scalar u" for us
    using that by (induction us) (auto simp: utf8_encode_str_def)
  have "\<forall>u \<in> set (str_chars bs). is_scalar u"
    using assms from_utf8_sound [of bs]
    by (auto simp: is_utf8_def is_ok_iff str_chars_def)
  from u [OF this] show ?thesis
    by (simp add: push_escaped_str_def str_chars_sound [OF assms])
qed

lemma unescape_escape_bytes: "unescape (escape_bytes bs) = bs"
proof (induction bs rule: escape_bytes.induct)
  case (1 bs)
  show ?case
  proof (cases "bs = []")
    case True
    then show ?thesis by (simp add: escape_bytes.simps)
  next
    case ne: False
    show ?thesis
    proof (cases "from_utf8 bs")
      case (Inr us)
      then have "is_utf8 bs" by (simp add: is_utf8_def)
      from unescape_str [OF this, of "[]"] ne Inr show ?thesis
        by (simp add: escape_bytes.simps [of bs])
    next
      case (Inl x)
      obtain v e where x: "x = (v, e)" by (cases x)
      define k where "k = (case e of Some n \<Rightarrow> n | None \<Rightarrow> length bs - v)"
      have u8: "is_utf8 (take v bs)" using from_utf8_error(2) Inl x by blast
      have IH: "unescape (escape_bytes (drop (v + k) bs)) = drop (v + k) bs"
        using "1.IH" [OF ne Inl] x k_def by simp
      have "escape_bytes bs = push_escaped_str (take v bs)
          @ concat (map percent_byte (take k (drop v bs))) @ escape_bytes (drop (v + k) bs)"
        using ne Inl x by (simp add: escape_bytes.simps [of bs] k_def Let_def)
      then have "unescape (escape_bytes bs) = take v bs @ take k (drop v bs) @ drop (v + k) bs"
        by (simp only: unescape_str [OF u8] unescape_percents IH)
      then show ?thesis by (metis append_take_drop_id drop_drop add.commute)
    qed
  qed
qed

text \<open>The output is text without control characters.\<close>

definition printable :: "bytes \<Rightarrow> bool" where
  "printable bs \<longleftrightarrow> (\<exists>us. (\<forall>u \<in> set us. is_scalar u \<and> \<not> is_control u) \<and> bs = utf8_encode_str us)"

lemma printable_append: "printable xs \<Longrightarrow> printable ys \<Longrightarrow> printable (xs @ ys)"
  unfolding printable_def by (metis UnE set_append utf8_encode_str_append)

lemma printable_Nil [simp]: "printable []"
  unfolding printable_def by (intro exI [of _ "[]"]) (simp add: utf8_encode_str_def)

lemma printable_concat: "\<forall>x \<in> set xs. printable x \<Longrightarrow> printable (concat xs)"
  by (induction xs) (auto intro: printable_append)

lemma printable_ascii: "\<forall>n \<in> set ns. 32 \<le> n \<and> n < 127 \<Longrightarrow> printable (map byte_of ns)"
  unfolding printable_def
proof (intro exI [of _ ns] conjI)
  assume ns: "\<forall>n \<in> set ns. 32 \<le> n \<and> n < 127"
  then show "\<forall>u \<in> set ns. is_scalar u \<and> \<not> is_control u"
    by (auto simp: is_scalar_def is_control_def)
  from ns show "map byte_of ns = utf8_encode_str ns"
    by (induction ns) (auto simp: utf8_encode_str_def utf8_encode_ascii_char)
qed

lemma printable_percent: "printable (percent_byte b)"
proof -
  let ?d = "\<lambda>d. if d < 10 then 48 + d else (55 + d :: nat)"
  have lt: "byte_val b div 16 < 16" using byte_val_less [of b] by linarith
  have "byte_val b mod 16 < 16" by simp
  have "percent_byte b = map byte_of [37, ?d (byte_val b div 16), ?d (byte_val b mod 16)]"
    using byte_of_val [of "CHR ''%''"] by (simp add: percent_byte_def hex_upper_def byte_val_def)
  also have "printable \<dots>"
    using lt \<open>byte_val b mod 16 < 16\<close> by (intro printable_ascii) auto
  finally show ?thesis .
qed

lemma printable_char: "is_scalar u \<Longrightarrow> printable (push_escaped_char u)"
proof (cases "u = 37 \<or> is_control u")
  case True
  have "printable (concat (map percent_byte (utf8_encode u)))"
    by (rule printable_concat) (simp add: printable_percent)
  with True show ?thesis by (simp add: push_escaped_char_def)
next
  case False
  assume "is_scalar u"
  with False show ?thesis
    by (auto simp: push_escaped_char_def printable_def utf8_encode_str_def intro!: exI [of _ "[u]"])
qed

lemma printable_str:
  assumes "is_utf8 bs"
  shows "printable (push_escaped_str bs)"
proof -
  have "\<forall>u \<in> set (str_chars bs). is_scalar u"
    using assms from_utf8_sound [of bs]
    by (auto simp: is_utf8_def is_ok_iff str_chars_def)
  then show ?thesis
    unfolding push_escaped_str_def by (intro printable_concat) (simp add: printable_char)
qed

lemma printable_escape_bytes: "printable (escape_bytes bs)"
proof (induction bs rule: escape_bytes.induct)
  case (1 bs)
  show ?case
  proof (cases "bs = []")
    case True
    then show ?thesis by (simp add: escape_bytes.simps)
  next
    case ne: False
    show ?thesis
    proof (cases "from_utf8 bs")
      case (Inr us)
      then have "is_utf8 bs" by (simp add: is_utf8_def)
      with ne Inr show ?thesis by (simp add: escape_bytes.simps [of bs] printable_str)
    next
      case (Inl x)
      obtain v e where x: "x = (v, e)" by (cases x)
      have u8: "is_utf8 (take v bs)" using from_utf8_error(2) Inl x by blast
      show ?thesis using ne Inl x "1.IH" [OF ne Inl]
        by (auto simp: escape_bytes.simps [of bs] Let_def
            intro!: printable_append printable_str [OF u8] printable_concat printable_percent)
    qed
  qed
qed

subsection \<open>Properties\<close>

text \<open>A byte string is accepted as a logical path exactly when its components are non-empty,
  none is \<^verbatim>\<open>.\<close> or \<^verbatim>\<open>..\<close>, and no byte is NUL; the accepted path is the string itself.\<close>

theorem pack_path_new_spec:
  "pack_path_new bs = Inr p \<longleftrightarrow>
     p = PackPath bs \<and> CHR 0x00 \<notin> set bs \<and>
     list_all (\<lambda>c. c \<noteq> [] \<and> c \<noteq> ''.'' \<and> c \<noteq> ''..'') (split_on (CHR ''/'') bs)"
proof -
  have "c \<in> set (split_on (CHR ''/'') bs) \<Longrightarrow> CHR ''/'' \<notin> set c" for c
    by (rule split_on_sep_free)
  moreover have "(\<forall>c \<in> set (split_on (CHR ''/'') bs). CHR 0x00 \<notin> set c) \<longleftrightarrow> CHR 0x00 \<notin> set bs"
    using set_split_on [of _ "CHR ''/''" bs] set_join_with [of "CHR ''/''" "split_on (CHR ''/'') bs"]
    by auto
  ultimately show ?thesis
    unfolding pack_path_new_iff by (auto simp: pack_path_ok_def components_def component_ok_def list_all_iff)
qed

text \<open>Every valid logical path has a native path and comes back from it unchanged (Unix).\<close>

theorem native_round_trip:
  assumes "pack_path_ok p"
  shows "\<exists>q. to_native p = Inr q \<and> from_native q = Inr p"
  using to_native_ok [OF assms] from_native_to_native [OF assms] by auto

theorem native_round_trip_witness:
  "\<exists>q. to_native (PackPath ''a/b.c'') = Inr q \<and> from_native q = Inr (PackPath ''a/b.c'')"
  by (rule native_round_trip) (simp add: pack_path_ok_def components_def component_ok_def)

text \<open>The displayed form of a path holds no control character and determines the path.\<close>

theorem escaped_reversible:
  "unescape (escaped p) = as_bytes p \<and> printable (escaped p)"
  by (simp add: escaped_def unescape_escape_bytes printable_escape_bytes)

end
