(* ===== verification/Algo.thy ===== *)
theory Algo
  imports Prelude
begin

text \<open>
  \<^verbatim>\<open>src/repo/algo.rs\<close>: splitting work over threads, and partitioning a list by weight.
  A thread returns the mapped list of its group; \<^verbatim>\<open>join\<close> collects the groups in the order
  in which the workers were spawned, so the model maps each group and flattens.
\<close>

subsection \<open>\<open>run_in_parallel\<close>\<close>

definition n_per_thread :: "nat \<Rightarrow> nat \<Rightarrow> nat" where
  "n_per_thread nthread n = (if nthread > n then 1 else n div nthread)"

text \<open>The spawn loop: take a group, spawn a worker, until no item is left.\<close>

function thread_groups :: "nat \<Rightarrow> 'a list \<Rightarrow> 'a list list" where
  "thread_groups k items =
     (if items = [] \<or> k = 0 then [] else take k items # thread_groups k (drop k items))"
  by pat_completeness auto
termination
  by (relation "measure (\<lambda>(k, items). length items)") auto

declare thread_groups.simps [simp del]

definition run_in_parallel :: "nat \<Rightarrow> 'a list \<Rightarrow> ('a \<Rightarrow> 'b) \<Rightarrow> 'b list option" where
  "run_in_parallel nthread items workload =
     (if nthread = 0 then None
      else Some (concat (map (map workload)
        (thread_groups (n_per_thread nthread (length items)) items))))"

lemma concat_thread_groups: "0 < k \<Longrightarrow> concat (thread_groups k items) = items"
proof (induction k items rule: thread_groups.induct)
  case (1 k items)
  then show ?case
    by (cases "items = []") (simp_all add: thread_groups.simps [of k items] thread_groups.simps [of k "[]"])
qed

lemma concat_map_map: "concat (map (map f) xss) = map f (concat xss)"
  by (induction xss) auto

lemma n_per_thread_pos: "0 < n_per_thread nthread n" if "0 < nthread"
  using that by (simp add: n_per_thread_def div_greater_zero_iff)

lemma run_in_parallel_eq_map:
  "0 < nthread \<Longrightarrow> run_in_parallel nthread items workload = Some (map workload items)"
  by (simp add: run_in_parallel_def concat_map_map concat_thread_groups n_per_thread_pos)

lemma length_thread_groups:
  "0 < k \<Longrightarrow> length (thread_groups k items) = (length items + k - 1) div k"
proof (induction k items rule: thread_groups.induct)
  case (1 k items)
  show ?case
  proof (cases "items = []")
    case True
    with "1.prems" show ?thesis by (simp add: thread_groups.simps)
  next
    case False
    with "1.prems" have IH:
      "length (thread_groups k (drop k items)) = (length items - k + k - 1) div k"
      using "1.IH" by simp
    show ?thesis
    proof (cases "length items \<le> k")
      case True
      moreover obtain x r where "items = x # r" using False by (cases items) auto
      ultimately have "k * 1 \<le> length items + k - 1" "length items + k - 1 < k * Suc 1"
        using "1.prems" by simp_all
      then have "(length items + k - 1) div k = 1" by (rule div_nat_eqI)
      with True False IH "1.prems" show ?thesis
        by (simp add: thread_groups.simps [of k items])
    next
      case long: False
      then have eq: "length items + k - 1 = (length items - 1) + k" by linarith
      have "(length items + k - 1) div k = Suc ((length items - 1) div k)"
        unfolding eq using "1.prems" by (subst div_add_self2) simp_all
      with long IH False "1.prems" show ?thesis
        by (simp add: thread_groups.simps [of k items])
    qed
  qed
qed

lemma thread_groups_le: "g \<in> set (thread_groups k items) \<Longrightarrow> length g \<le> k \<and> g \<noteq> []"
proof (induction k items rule: thread_groups.induct)
  case (1 k items)
  then show ?case
    by (subst (asm) (2) thread_groups.simps) (auto split: if_splits)
qed

subsection \<open>\<open>partition_by_u64\<close>\<close>

text \<open>
  Sums and the bound are \<^verbatim>\<open>u64\<close> values that wrap.  \<open>take_bounded\<close> is the inner \<^verbatim>\<open>while\<close>: it
  advances \<^verbatim>\<open>i\<close> while the next weight still fits under the bound.
\<close>

definition total_weight :: "('a \<Rightarrow> u64) \<Rightarrow> 'a list \<Rightarrow> u64" where
  "total_weight eval xs = foldl (\<lambda>s x. s + eval x) 0 xs"

fun take_bounded :: "('a \<Rightarrow> u64) \<Rightarrow> u64 \<Rightarrow> u64 \<Rightarrow> 'a list \<Rightarrow> 'a list \<times> 'a list" where
  "take_bounded eval bound cur [] = ([], [])"
| "take_bounded eval bound cur (x # xs) =
     (let v = eval x
      in if cur + v \<le> bound
         then (let (part, rest) = take_bounded eval bound (cur + v) xs in (x # part, rest))
         else ([], x # xs))"

fun partition_rounds :: "('a \<Rightarrow> u64) \<Rightarrow> u64 \<Rightarrow> nat \<Rightarrow> 'a list \<Rightarrow> 'a list list" where
  "partition_rounds eval bound 0 xs = (if xs = [] then [] else [xs])"
| "partition_rounds eval bound (Suc k) xs =
     (let (part, rest) = take_bounded eval bound 0 xs
      in if part = [] then partition_rounds eval bound k rest
         else part # partition_rounds eval bound k rest)"

definition clamp_partitions :: "u32 \<Rightarrow> nat \<Rightarrow> u32" where
  "clamp_partitions n len = max (min n (of_nat len)) 1"

definition partition_by_u64 :: "('a \<Rightarrow> u64) \<Rightarrow> 'a list \<Rightarrow> u32 \<Rightarrow> 'a list list" where
  "partition_by_u64 eval xs n =
     (if xs = [] then []
      else let n = clamp_partitions n (length xs);
               bound = total_weight eval xs div ucast n
           in partition_rounds eval bound (unat (n - 1)) xs)"

lemma take_bounded_append:
  "take_bounded eval bound cur xs = (part, rest) \<Longrightarrow> xs = part @ rest"
  by (induction eval bound cur xs arbitrary: part rest rule: take_bounded.induct)
    (auto simp: Let_def split: if_splits prod.splits)

lemma concat_partition_rounds: "concat (partition_rounds eval bound k xs) = xs"
  by (induction eval bound k xs rule: partition_rounds.induct)
    (auto simp: Let_def split: prod.splits dest: take_bounded_append)

lemma length_partition_rounds: "length (partition_rounds eval bound k xs) \<le> Suc k"
  by (induction eval bound k xs rule: partition_rounds.induct)
    (auto simp: Let_def le_SucI split: prod.splits)

lemma partition_rounds_nonempty: "p \<in> set (partition_rounds eval bound k xs) \<Longrightarrow> p \<noteq> []"
  by (induction eval bound k xs rule: partition_rounds.induct)
    (auto simp: Let_def split: prod.splits if_splits)

lemma clamp_partitions_bounds:
  assumes "0 < len" "len < 2 ^ 32"
  shows "0 < unat (clamp_partitions n len)"
    and "unat (clamp_partitions n len) \<le> max 1 (min (unat n) len)"
proof -
  have "unat (of_nat len :: u32) = len" using assms by (simp add: unat_of_nat)
  then show "unat (clamp_partitions n len) \<le> max 1 (min (unat n) len)"
    by (auto simp: clamp_partitions_def max_def min_def word_le_nat_alt)
  have "(1 :: u32) \<le> clamp_partitions n len" by (simp add: clamp_partitions_def)
  then show "0 < unat (clamp_partitions n len)" by (simp add: word_le_nat_alt)
qed

lemma concat_partition_by_u64: "concat (partition_by_u64 eval xs n) = xs"
  by (simp add: partition_by_u64_def concat_partition_rounds Let_def)

lemma partition_by_u64_nonempty: "p \<in> set (partition_by_u64 eval xs n) \<Longrightarrow> p \<noteq> []"
  by (auto simp: partition_by_u64_def Let_def dest: partition_rounds_nonempty split: if_splits)

lemma length_partition_by_u64:
  assumes "length xs < 2 ^ 32"
  shows "length (partition_by_u64 eval xs n) \<le> max 1 (min (unat n) (length xs))"
proof (cases "xs = []")
  case True
  then show ?thesis by (simp add: partition_by_u64_def)
next
  case False
  let ?n = "clamp_partitions n (length xs)"
  have pos: "0 < unat ?n" and le: "unat ?n \<le> max 1 (min (unat n) (length xs))"
    using clamp_partitions_bounds [of "length xs" n] False assms by auto
  have "?n \<noteq> 0" using pos by auto
  then have "unat (?n - 1) = unat ?n - 1" by (simp add: unat_minus_one)
  with pos have "Suc (unat (?n - 1)) = unat ?n" by simp
  then have "length (partition_rounds eval b (unat (?n - 1)) xs) \<le> unat ?n" for b
    using length_partition_rounds [of eval b "unat (?n - 1)" xs] by simp
  from order_trans [OF this le] False show ?thesis
    by (simp add: partition_by_u64_def Let_def)
qed

text \<open>
  Without overflow, every partition but the last weighs at most the bound (the total over
  the number of partitions).
\<close>

definition nat_weight :: "('a \<Rightarrow> u64) \<Rightarrow> 'a list \<Rightarrow> nat" where
  "nat_weight eval xs = sum_list (map (\<lambda>x. unat (eval x)) xs)"

lemma nat_weight_simps [simp]:
  "nat_weight eval [] = 0"
  "nat_weight eval (x # xs) = unat (eval x) + nat_weight eval xs"
  "nat_weight eval (xs @ ys) = nat_weight eval xs + nat_weight eval ys"
  by (simp_all add: nat_weight_def)

lemma unat_add_u64: "unat a + unat b < 2 ^ 64 \<Longrightarrow> unat (a + b) = unat a + unat (b :: u64)"
  by (simp add: unat_word_ariths)

lemma foldl_weight:
  "unat s + nat_weight eval xs < 2 ^ 64 \<Longrightarrow>
     unat (foldl (\<lambda>s x. s + eval x) s xs) = unat s + nat_weight eval xs"
proof (induction xs arbitrary: s)
  case Nil
  then show ?case by simp
next
  case (Cons x xs)
  then have "unat (s + eval x) = unat s + unat (eval x)"
    by (intro unat_add_u64) simp
  with Cons.IH [of "s + eval x"] Cons.prems show ?case by simp
qed

lemma unat_total_weight:
  "nat_weight eval xs < 2 ^ 64 \<Longrightarrow> unat (total_weight eval xs) = nat_weight eval xs"
  unfolding total_weight_def by (subst foldl_weight) auto

lemma take_bounded_weight:
  "unat cur + nat_weight eval xs < 2 ^ 64 \<Longrightarrow> take_bounded eval bound cur xs = (part, rest) \<Longrightarrow>
     cur \<le> bound \<Longrightarrow> unat cur + nat_weight eval part \<le> unat bound"
proof (induction eval bound cur xs arbitrary: part rest rule: take_bounded.induct)
  case (1 eval bound cur)
  then show ?case by (simp add: word_le_nat_alt)
next
  case (2 eval bound cur x xs)
  have add: "unat (cur + eval x) = unat cur + unat (eval x)"
    using "2.prems"(1) by (intro unat_add_u64) simp
  show ?case
  proof (cases "cur + eval x \<le> bound")
    case True
    obtain p r where pr: "take_bounded eval bound (cur + eval x) xs = (p, r)" by fastforce
    with "2.IH" [OF refl True _ pr True] "2.prems" add True show ?thesis
      by (auto simp: Let_def)
  next
    case False
    with "2.prems" show ?thesis by (auto simp: Let_def word_le_nat_alt)
  qed
qed

text \<open>Why the loop stopped: nothing is left, or the next item does not fit any more.\<close>

lemma take_bounded_stops:
  "unat cur + nat_weight eval xs < 2 ^ 64 \<Longrightarrow> take_bounded eval bound cur xs = (part, x # rest) \<Longrightarrow>
     unat bound < unat cur + nat_weight eval part + unat (eval x)"
proof (induction eval bound cur xs arbitrary: part rule: take_bounded.induct)
  case (1 eval bound cur)
  then show ?case by simp
next
  case (2 eval bound cur y ys)
  have add: "unat (cur + eval y) = unat cur + unat (eval y)"
    using "2.prems"(1) by (intro unat_add_u64) simp
  show ?case
  proof (cases "cur + eval y \<le> bound")
    case True
    then obtain p where "take_bounded eval bound (cur + eval y) ys = (p, x # rest)" "part = y # p"
      using "2.prems"(2) by (auto simp: Let_def split: prod.splits)
    with "2.IH" [OF refl True] "2.prems"(1) add show ?thesis by simp
  next
    case False
    with "2.prems"(2) add show ?thesis by (auto simp: Let_def word_le_nat_alt)
  qed
qed

text \<open>
  The greedy cut with a bound on the weights and a number of rounds, on the result alone: a piece that
  another one follows weighs at most the bound and the next item would exceed it; the last piece exceeds
  the bound only when the rounds are used up, or when its first item alone exceeds it.
\<close>

definition greedy_pieces :: "('a \<Rightarrow> u64) \<Rightarrow> nat \<Rightarrow> nat \<Rightarrow> 'a list list \<Rightarrow> bool" where
  "greedy_pieces eval bound n ps \<longleftrightarrow>
     (\<forall>as p q bs. ps = as @ p # q # bs \<longrightarrow>
        nat_weight eval p \<le> bound \<and> bound < nat_weight eval p + unat (eval (hd q))) \<and>
     (ps \<noteq> [] \<longrightarrow> nat_weight eval (last ps) \<le> bound \<or> length ps = n \<or> bound < unat (eval (hd (last ps))))"

lemma greedy_Cons:
  assumes "greedy_pieces eval bound n ps" "nat_weight eval p \<le> bound"
    and "ps \<noteq> [] \<Longrightarrow> bound < nat_weight eval p + unat (eval (hd (hd ps)))"
  shows "greedy_pieces eval bound (Suc n) (p # ps)"
  using assms by (auto simp: greedy_pieces_def Cons_eq_append_conv)

lemma partition_rounds_greedy:
  "nat_weight eval xs < 2 ^ 64 \<Longrightarrow> greedy_pieces eval (unat bound) (Suc k) (partition_rounds eval bound k xs)"
proof (induction eval bound k xs rule: partition_rounds.induct)
  case (1 eval bound xs)
  then show ?case by (auto simp: greedy_pieces_def Cons_eq_append_conv)
next
  case (2 eval bound k xs)
  obtain part rest where tb: "take_bounded eval bound 0 xs = (part, rest)" by fastforce
  have xs: "xs = part @ rest" using tb by (rule take_bounded_append)
  have small: "nat_weight eval rest < 2 ^ 64" using "2.prems" xs by simp
  show ?case
  proof (cases "part = []")
    case False
    let ?ps = "partition_rounds eval bound k rest"
    have "nat_weight eval part \<le> unat bound" using take_bounded_weight [OF _ tb] "2.prems" by simp
    moreover have "unat bound < nat_weight eval part + unat (eval (hd (hd ?ps)))" if ne: "?ps \<noteq> []"
    proof -
      obtain p ps where p: "?ps = p # ps" "p \<noteq> []"
        using ne partition_rounds_nonempty [of "hd ?ps" eval bound k rest] by (cases ?ps) auto
      then have "rest = p @ concat ps" using concat_partition_rounds [of eval bound k rest] by simp
      with p have "rest = hd (hd ?ps) # tl rest" by (cases p) auto
      with take_bounded_stops [of 0 eval xs bound part "hd (hd ?ps)" "tl rest"] tb "2.prems" show ?thesis by simp
    qed
    ultimately show ?thesis
      using greedy_Cons [OF "2.IH"(2) [OF tb [symmetric] refl False small], of part] tb False by simp
  next
    case True
    show ?thesis
    proof (cases rest)
      case Nil
      have "partition_rounds eval bound j [] = []" for j by (induction j) simp_all
      with Nil tb True show ?thesis by (simp add: greedy_pieces_def)
    next
      case (Cons x more)
      then have over: "unat bound < unat (eval x)" using take_bounded_stops [of 0 eval xs bound part x more] tb True "2.prems" by simp
      have all: "partition_rounds eval bound j rest = [rest]" for j
      proof -
        have "\<not> eval x \<le> bound" using over by (simp add: word_le_nat_alt)
        then show ?thesis by (induction j) (simp_all add: Cons)
      qed
      then show ?thesis using over Cons tb True by (auto simp: greedy_pieces_def Cons_eq_append_conv)
    qed
  qed
qed
lemma partition_greedy:
  assumes w: "nat_weight eval xs < 2 ^ 64" and len: "length xs < 2 ^ 32"
  shows "greedy_pieces eval (nat_weight eval xs div max 1 (min (unat n) (length xs))) (max 1 (min (unat n) (length xs)))
    (partition_by_u64 eval xs n)"
proof (cases "xs = []")
  case True
  then show ?thesis by (simp add: partition_by_u64_def greedy_pieces_def)
next
  case False
  let ?n = "clamp_partitions n (length xs)"
  have n: "unat ?n = max 1 (min (unat n) (length xs))"
  proof -
    have "unat (of_nat (length xs) :: u32) = length xs" using len by (simp add: unat_of_nat)
    then show ?thesis by (auto simp: clamp_partitions_def max_def min_def word_le_nat_alt)
  qed
  have "?n \<noteq> 0" using n by auto
  then have rounds: "Suc (unat (?n - 1)) = max 1 (min (unat n) (length xs))"
    using n by (simp add: unat_minus_one)
  have "unat ?n < 2 ^ 64" using unsigned_less [of ?n, where 'a = nat] by simp
  then have "unat (ucast ?n :: u64) = unat ?n"
    by (simp add: unsigned_ucast_eq take_bit_nat_eq_self)
  then have bound: "unat (total_weight eval xs div ucast ?n) = nat_weight eval xs div max 1 (min (unat n) (length xs))"
    using n by (simp add: unat_div unat_total_weight [OF w])
  show ?thesis
    using partition_rounds_greedy [OF w, of "total_weight eval xs div ucast ?n" "unat (?n - 1)"] False
    unfolding rounds bound by (simp add: partition_by_u64_def Let_def)
qed

text \<open>The examples of the tests.\<close>

lemma partition_examples:
  "partition_by_u64 (\<lambda>w. w) [1, 2, 3, 4, 5, 6, 7, 8, 9 :: u64] 2 = [[1, 2, 3, 4, 5, 6], [7, 8, 9]]"
  "partition_by_u64 (\<lambda>w. w) [1, 2, 999 :: u64] 4 = [[1, 2], [999]]"
  "partition_by_u64 (\<lambda>w. w) [1, 1, 1 :: u64] 4 = [[1], [1], [1]]"
  by code_simp+

subsection \<open>Properties\<close>

text \<open>C40: \<^verbatim>\<open>partition_by_u64\<close> is the greedy cut.  With the number \<^verbatim>\<open>n\<close> limited to the number of items and
  to at least one, it makes at most that many consecutive, non-empty pieces that together are the list;
  each but the last is as long as the total weight divided by that number allows, and the last exceeds
  it only when all rounds are used or its first item is heavier (no sum overflows).\<close>

theorem partition_by_u64_correct:
  assumes w: "nat_weight eval xs < 2 ^ 64" and len: "length xs < 2 ^ 32"
  shows "let k = max 1 (min (unat n) (length xs)); ps = partition_by_u64 eval xs n in
    concat ps = xs \<and> [] \<notin> set ps \<and> length ps \<le> k \<and> greedy_pieces eval (nat_weight eval xs div k) k ps"
  using concat_partition_by_u64 [of eval xs n] partition_by_u64_nonempty [of "[]" eval xs n]
    length_partition_by_u64 [OF len, of eval n] partition_greedy [OF w len, of n]
  by (auto simp: Let_def)

text \<open>Three items of weight 1 for four partitions: three pieces, of the weight that the bound 1 allows.\<close>

theorem partition_by_u64_witness:
  "partition_by_u64 (\<lambda>w. w) [1, 1, 1 :: u64] 4 = [[1], [1], [1]] \<and>
   greedy_pieces (\<lambda>w. w) 1 3 [[1], [1], [1 :: u64]]"
proof -
  have k: "max 1 (min (unat (4 :: u32)) (length [1, 1, 1 :: u64])) = 3"
    and w: "nat_weight (\<lambda>w. w) [1, 1, 1 :: u64] = 3" by (simp_all add: numeral_3_eq_3)
  from partition_by_u64_correct [of "\<lambda>w. w" "[1, 1, 1 :: u64]" 4]
  show ?thesis unfolding k w Let_def partition_examples(3) by simp
qed

text \<open>\<^verbatim>\<open>run_in_parallel\<close> returns the results in the order of the items, whatever the number of
  threads; zero threads fail its assertion.\<close>

theorem run_in_parallel_correct:
  "run_in_parallel nthread items workload =
     (if nthread = 0 then None else Some (map workload items))"
  using run_in_parallel_eq_map [of nthread items workload] by (auto simp: run_in_parallel_def)

text \<open>The number of groups can exceed the number of threads: five items, three threads.\<close>

lemma run_in_parallel_groups:
  "length (thread_groups (n_per_thread 3 (length [a, b, c, d, e])) [a, b, c, d, e]) = 5"
  by (simp add: n_per_thread_def length_thread_groups)

end
