(* ===== verification/PackIdx.thy ===== *)
theory PackIdx
  imports EntryPool PackPath Algo
begin

text \<open>
  \<^verbatim>\<open>src/packidx.rs\<close>: the pack index.  Snapshots are stored as deltas over sets of file
  handles; the index interns paths and object checksums and records where each object lies
  in the pack.  A \<^verbatim>\<open>HashSet\<close> is a list without duplicates (its iteration order is not
  specified; the theorems speak of the set, and quantify over every order of the inputs),
  the \<^verbatim>\<open>BTreeMap\<close> of object metadata is an association list sorted by its keys.
\<close>

subsection \<open>Data\<close>

type_synonym checksum = bytes

datatype symlink_target_encoding = PortableUtf8 | UnixBytes | WindowsUtf16Le
datatype symlink_target_kind = TargetFile | TargetDirectory | TargetUnknown

fun encoding_tag :: "symlink_target_encoding \<Rightarrow> byte" where
  "encoding_tag PortableUtf8 = CHR 0x00"
| "encoding_tag UnixBytes = CHR 0x01"
| "encoding_tag WindowsUtf16Le = CHR 0x02"

fun kind_tag :: "symlink_target_kind \<Rightarrow> byte" where
  "kind_tag TargetFile = CHR 0x00"
| "kind_tag TargetDirectory = CHR 0x01"
| "kind_tag TargetUnknown = CHR 0x02"

datatype entry_metadata =
    Regular u32
  | Symlink symlink_target_encoding symlink_target_kind

fun regular_mode :: "entry_metadata \<Rightarrow> 'e failure + u32" where
  "regular_mode (Regular mode) = Inr mode"
| "regular_mode (Symlink e k) = Inl Panicked"

fun is_symlink :: "entry_metadata \<Rightarrow> bool" where
  "is_symlink (Regular mode) = False"
| "is_symlink (Symlink e k) = True"

definition default_metadata :: entry_metadata where
  "default_metadata = Regular 33204"

record file_handle =
  fh_path :: handle
  fh_object :: handle
  fh_metadata :: entry_metadata

record object_metadata =
  om_offset :: u64
  om_size :: u64

definition loose_object_offset :: u64 where
  "loose_object_offset = - 1"

record file_entry =
  fe_path :: pack_path
  fe_checksum :: checksum
  fe_object :: object_metadata
  fe_metadata :: entry_metadata

record 'a change_set =
  cs_added :: "'a list"
  cs_removed :: "'a list"

definition change_set_map ::
    "('a list \<Rightarrow> 'e + 'b list) \<Rightarrow> 'a change_set \<Rightarrow> 'e + 'b change_set" where
  "change_set_map f cs =
     rbind (f (cs_added cs)) (\<lambda>a.
     rbind (f (cs_removed cs)) (\<lambda>r. Inr \<lparr>cs_added = a, cs_removed = r\<rparr>))"

definition change_set_from_iter :: "'a list \<Rightarrow> 'a change_set" where
  "change_set_from_iter xs = \<lparr>cs_added = xs, cs_removed = []\<rparr>"

datatype decode_error = LengthMismatch nat | BadEncoding bytes

datatype pack_error =
    CompleteListNeeded
  | PathNotFound handle
  | ObjectNotFound
  | SnapshotNotFound bytes
  | SnapshotAlreadyExists bytes bytes
  | ChecksumMismatch checksum checksum
  | PackIOError io_error
  | DeserializeError decode_error
  | SerializeError bytes
  | BadMagic
  | BadPackVersion bytes
  | UnknownRequiredFeatures u64
  | UnsupportedPathEncoding "nat list"
  | InvalidLogicalPath pack_path_error
  | PathNotRepresentable pack_path pack_path_error
  | DuplicateLogicalPath pack_path
  | PathPrefixConflict pack_path pack_path
  | TargetPathCollision pack_path pack_path
  | SymlinkedDestination "bytes list"
  | UnsupportedSymlinkTargetEncoding pack_path symlink_target_encoding
  | InvalidSymlinkTarget pack_path bytes
  | SymlinkCreationUnsupported "bytes list" io_error

type_synonym 'a pack_result = "pack_error failure + 'a"

subsection \<open>Sorted association lists (\<open>BTreeMap\<close>)\<close>

fun bt_insert :: "'k::linorder \<Rightarrow> 'v \<Rightarrow> ('k \<times> 'v) list \<Rightarrow> ('k \<times> 'v) list" where
  "bt_insert k v [] = [(k, v)]"
| "bt_insert k v ((k', v') # m) =
     (if k < k' then (k, v) # (k', v') # m
      else if k = k' then (k, v) # m
      else (k', v') # bt_insert k v m)"

lemma map_of_bt_insert:
  "sorted (map fst m) \<Longrightarrow> distinct (map fst m) \<Longrightarrow> map_of (bt_insert k v m) = (map_of m)(k \<mapsto> v)"
proof (induction m)
  case Nil
  then show ?case by simp
next
  case (Cons kv m)
  obtain k' v' where kv: "kv = (k', v')" by (cases kv)
  have "map_of m k = None" if "k < k'"
    using that Cons.prems kv by (force simp: map_of_eq_None_iff)
  with Cons kv show ?case by (auto simp: fun_eq_iff)
qed

lemma keys_bt_insert: "fst ` set (bt_insert k v m) = insert k (fst ` set m)"
  by (induction k v m rule: bt_insert.induct) auto

lemma sorted_bt_insert:
  "sorted (map fst m) \<Longrightarrow> distinct (map fst m) \<Longrightarrow>
     sorted (map fst (bt_insert k v m)) \<and> distinct (map fst (bt_insert k v m))"
proof (induction m)
  case Nil
  then show ?case by simp
next
  case (Cons kv m)
  obtain k' v' where kv: "kv = (k', v')" by (cases kv)
  with Cons keys_bt_insert [of k v m] show ?case by auto
qed

subsection \<open>Snapshots as change sets\<close>

fun set_remove_all :: "'a list \<Rightarrow> 'a list \<Rightarrow> 'e failure + 'a list" where
  "set_remove_all s [] = Inr s"
| "set_remove_all s (x # xs) =
     rbind (ensure (x \<in> set s)) (\<lambda>_. set_remove_all (removeAll x s) xs)"

fun set_insert_all :: "'a list \<Rightarrow> 'a list \<Rightarrow> 'e failure + 'a list" where
  "set_insert_all s [] = Inr s"
| "set_insert_all s (x # xs) =
     rbind (ensure (x \<notin> set s)) (\<lambda>_. set_insert_all (s @ [x]) xs)"

definition apply_changes :: "'a list \<Rightarrow> 'a change_set \<Rightarrow> 'e failure + 'a list" where
  "apply_changes s cs =
     rbind (set_remove_all s (cs_removed cs)) (\<lambda>s. set_insert_all s (cs_added cs))"

definition get_changes :: "'a list \<Rightarrow> 'a list \<Rightarrow> 'e failure + ('a change_set \<times> 'a list)" where
  "get_changes s nxt =
     (let removed = filter (\<lambda>f. f \<notin> set nxt) s;
          added = filter (\<lambda>f. f \<notin> set s) nxt
      in rbind (set_insert_all s added) (\<lambda>s.
         rbind (set_remove_all s removed) (\<lambda>s.
         Inr (\<lparr>cs_added = added, cs_removed = removed\<rparr>, s))))"

lemma set_remove_all_ok:
  "distinct xs \<Longrightarrow> set xs \<subseteq> set s \<Longrightarrow>
     set_remove_all s xs = Inr (filter (\<lambda>y. y \<notin> set xs) s)"
proof (induction xs arbitrary: s)
  case Nil
  then show ?case by simp
next
  case (Cons x xs)
  have "set xs \<subseteq> set (removeAll x s)" using Cons.prems by auto
  with Cons.IH [of "removeAll x s"] Cons.prems show ?case
    by (auto simp: removeAll_filter_not_eq intro: filter_cong)
qed

lemma set_insert_all_ok:
  "distinct xs \<Longrightarrow> set xs \<inter> set s = {} \<Longrightarrow> set_insert_all s xs = Inr (s @ xs)"
proof (induction xs arbitrary: s)
  case Nil
  then show ?case by simp
next
  case (Cons x xs)
  with Cons.IH [of "s @ [x]"] show ?case by auto
qed

lemma apply_changes_ok:
  assumes "distinct (cs_removed cs)" "distinct (cs_added cs)"
    and "set (cs_removed cs) \<subseteq> set s"
    and "set (cs_added cs) \<inter> (set s - set (cs_removed cs)) = {}"
  shows "(apply_changes s cs :: 'b failure + _) =
    Inr (filter (\<lambda>y. y \<notin> set (cs_removed cs)) s @ cs_added cs)"
proof -
  let ?s = "filter (\<lambda>y. y \<notin> set (cs_removed cs)) s"
  have "set_insert_all ?s (cs_added cs) = (Inr (?s @ cs_added cs) :: 'b failure + _)"
    using assms(2,4) by (intro set_insert_all_ok) auto
  with assms show ?thesis by (simp add: apply_changes_def set_remove_all_ok)
qed

lemma get_changes_ok:
  assumes "distinct s" "distinct nxt"
  shows "(get_changes s nxt :: 'e failure + _) =
     Inr (\<lparr>cs_added = filter (\<lambda>f. f \<notin> set s) nxt, cs_removed = filter (\<lambda>f. f \<notin> set nxt) s\<rparr>,
          filter (\<lambda>f. f \<in> set nxt) s @ filter (\<lambda>f. f \<notin> set s) nxt)"
proof -
  have ins: "set_insert_all s (filter (\<lambda>f. f \<notin> set s) nxt) =
      (Inr (s @ filter (\<lambda>f. f \<notin> set s) nxt) :: 'e failure + 'a list)"
    using assms by (intro set_insert_all_ok) auto
  have rem: "set_remove_all (s @ filter (\<lambda>f. f \<notin> set s) nxt) (filter (\<lambda>f. f \<notin> set nxt) s) =
      (Inr (filter (\<lambda>y. y \<notin> set (filter (\<lambda>f. f \<notin> set nxt) s)) (s @ filter (\<lambda>f. f \<notin> set s) nxt))
        :: 'e failure + 'a list)"
    using assms by (intro set_remove_all_ok) auto
  have "filter (\<lambda>y. y \<notin> set (filter (\<lambda>f. f \<notin> set nxt) s)) (s @ filter (\<lambda>f. f \<notin> set s) nxt) =
      filter (\<lambda>f. f \<in> set nxt) s @ filter (\<lambda>f. f \<notin> set s) nxt"
    by (auto intro!: arg_cong2 [where f = "(@)"] filter_cong)
  with ins rem show ?thesis by (simp add: get_changes_def Let_def)
qed

text \<open>Applying the changes from one set to the next gives the next set.\<close>

lemma apply_get_changes:
  assumes "distinct s" "distinct nxt" "distinct s'" "set s' = set s"
    and "get_changes s nxt = (Inr (cs, s2) :: 'e failure + _)"
  shows "\<exists>r. apply_changes s' cs = (Inr r :: 'e2 failure + _) \<and> distinct r \<and> set r = set nxt"
proof -
  have cs: "cs = \<lparr>cs_added = filter (\<lambda>f. f \<notin> set s) nxt, cs_removed = filter (\<lambda>f. f \<notin> set nxt) s\<rparr>"
    using assms(5) get_changes_ok [OF assms(1,2), where 'e = 'e] by simp
  have "apply_changes s' cs = (Inr (filter (\<lambda>y. y \<notin> set (cs_removed cs)) s' @ cs_added cs)
      :: 'e2 failure + _)"
    using assms(1,2,4) by (intro apply_changes_ok) (auto simp: cs)
  moreover have "distinct (filter (\<lambda>y. y \<notin> set (cs_removed cs)) s' @ cs_added cs)"
    using assms(1-4) by (auto simp: cs)
  moreover have "set (filter (\<lambda>y. y \<notin> set (cs_removed cs)) s' @ cs_added cs) = set nxt"
    using assms(4) by (auto simp: cs)
  ultimately show ?thesis by blast
qed


subsection \<open>The index\<close>

record pack_index =
  snapshot_tags :: "bytes list"
  snapshot_deltas :: "file_handle change_set list"
  path_pool :: "pack_path entry_pool"
  object_pool :: "checksum entry_pool"
  object_table :: "(handle \<times> object_metadata) list"
  current :: "file_handle list"

definition index_new :: pack_index where
  "index_new = \<lparr>snapshot_tags = [], snapshot_deltas = [], path_pool = pool_new,
     object_pool = pool_new, object_table = [], current = []\<rparr>"

definition object_size_total :: "pack_index \<Rightarrow> u64" where
  "object_size_total idx = foldl (\<lambda>s (h, om). s + om_size om) 0 (object_table idx)"

definition object_checksums :: "pack_index \<Rightarrow> checksum list" where
  "object_checksums idx = pool_entries (object_pool idx)"

definition get_object_metadata :: "pack_index \<Rightarrow> checksum \<Rightarrow> 'e failure + object_metadata" where
  "get_object_metadata idx c =
     rbind (unwrap (pool_get (object_pool idx) c)) (\<lambda>h. unwrap (map_of (object_table idx) h))"

text \<open>The size closure that \<^verbatim>\<open>objects_partitioned_by_size\<close> hands to the partitioner.\<close>

definition handle_size :: "pack_index \<Rightarrow> handle \<Rightarrow> u64" where
  "handle_size idx h = (case map_of (object_table idx) h of Some om \<Rightarrow> om_size om | None \<Rightarrow> 0)"

definition objects_partitioned_by_size ::
    "pack_index \<Rightarrow> u32 \<Rightarrow> handle list \<Rightarrow> 'e failure + handle list list" where
  "objects_partitioned_by_size idx partitions handles =
     rbind (ensure (list_all (\<lambda>h. map_of (object_table idx) h \<noteq> None) handles))
       (\<lambda>_. Inr (partition_by_u64 (handle_size idx) handles partitions))"

text \<open>
  Layout: objects sorted by size, ties by handle, offsets accumulated in that order.
\<close>

definition size_handles :: "pack_index \<Rightarrow> (u64 \<times> handle) list" where
  "size_handles idx = sort (map (\<lambda>(h, om). (om_size om, h)) (object_table idx))"

fun assign_offsets ::
    "u64 \<Rightarrow> (u64 \<times> handle) list \<Rightarrow> (handle \<times> object_metadata) list \<Rightarrow>
     (handle \<times> object_metadata) list" where
  "assign_offsets pos [] m = m"
| "assign_offsets pos ((sz, h) # rest) m =
     assign_offsets (pos + sz) rest
       (map (\<lambda>(k, om). if k = h then (k, om\<lparr>om_offset := pos\<rparr>) else (k, om)) m)"

definition compute_object_offsets_and_ordering :: "pack_index \<Rightarrow> pack_index \<times> handle list" where
  "compute_object_offsets_and_ordering idx =
     (let sh = size_handles idx
      in (idx\<lparr>object_table := assign_offsets 0 sh (object_table idx)\<rparr>, map snd sh))"

definition handle_to_checksum :: "pack_index \<Rightarrow> handle \<Rightarrow> 'e failure + checksum" where
  "handle_to_checksum idx h = unwrap (pool_lookup (object_pool idx) h)"

definition handle_to_entry :: "pack_index \<Rightarrow> file_handle \<Rightarrow> file_entry pack_result" where
  "handle_to_entry idx fh =
     rbind (ok_or (Fail (PathNotFound (fh_path fh))) (pool_lookup (path_pool idx) (fh_path fh)))
       (\<lambda>path.
     rbind (ok_or (Fail ObjectNotFound) (pool_lookup (object_pool idx) (fh_object fh)))
       (\<lambda>checksum.
     rbind (unwrap (map_of (object_table idx) (fh_object fh)))
       (\<lambda>om. Inr \<lparr>fe_path = path, fe_checksum = checksum, fe_object = om,
                  fe_metadata = fh_metadata fh\<rparr>)))"

text \<open>\<^verbatim>\<open>FileEntryRef\<close> borrows the same four fields.\<close>

definition handle_to_entry_ref :: "pack_index \<Rightarrow> file_handle \<Rightarrow> file_entry pack_result" where
  "handle_to_entry_ref idx fh =
     rbind (ok_or (Fail (PathNotFound (fh_path fh))) (pool_lookup (path_pool idx) (fh_path fh)))
       (\<lambda>path.
     rbind (ok_or (Fail ObjectNotFound) (pool_lookup (object_pool idx) (fh_object fh)))
       (\<lambda>checksum.
     rbind (unwrap (map_of (object_table idx) (fh_object fh)))
       (\<lambda>om. Inr \<lparr>fe_path = path, fe_checksum = checksum, fe_object = om,
                  fe_metadata = fh_metadata fh\<rparr>)))"

definition entry_to_handle :: "pack_index \<Rightarrow> file_entry \<Rightarrow> file_handle \<times> pack_index" where
  "entry_to_handle idx e =
     (let (oh, opool) = get_or_insert (object_pool idx) (fe_checksum e);
          table = bt_insert oh (fe_object e) (object_table idx);
          (ph, ppool) = get_or_insert (path_pool idx) (fe_path e)
      in (\<lparr>fh_path = ph, fh_object = oh, fh_metadata = fe_metadata e\<rparr>,
          idx\<lparr>object_pool := opool, object_table := table, path_pool := ppool\<rparr>))"

definition has_snapshot :: "pack_index \<Rightarrow> bytes \<Rightarrow> bool" where
  "has_snapshot idx needle \<longleftrightarrow> list_ex (\<lambda>s. s = needle) (snapshot_tags idx)"

fun resolve_loop ::
    "'t \<Rightarrow> 'a list \<Rightarrow> ('t \<times> 'a change_set) list \<Rightarrow> 'e failure + 'a list option" where
  "resolve_loop needle cur [] = Inr None"
| "resolve_loop needle cur ((tag, delta) # rest) =
     rbind (apply_changes cur delta) (\<lambda>cur.
       if tag = needle then Inr (Some cur) else resolve_loop needle cur rest)"

definition resolve_snapshot ::
    "pack_index \<Rightarrow> bytes \<Rightarrow> 'e failure + file_handle list option" where
  "resolve_snapshot idx needle =
     resolve_loop needle [] (zip (snapshot_tags idx) (snapshot_deltas idx))"

definition entries_from_handles :: "pack_index \<Rightarrow> file_handle list \<Rightarrow> file_entry list pack_result" where
  "entries_from_handles idx hs = collect (handle_to_entry idx) hs"

definition entry_refs_from_handles ::
    "pack_index \<Rightarrow> file_handle list \<Rightarrow> file_entry list pack_result" where
  "entry_refs_from_handles idx hs = collect (handle_to_entry_ref idx) hs"

definition push_snapshot ::
    "pack_index \<Rightarrow> bytes \<Rightarrow> file_entry list \<Rightarrow> pack_index pack_result" where
  "push_snapshot idx tag input =
     (if tag \<in> set (snapshot_tags idx)
      then Inl (Fail (SnapshotAlreadyExists ''<unknown>'' tag))
      else let (hs, idx) = intern_all entry_to_handle idx input; files = remdups hs
        in rbind (get_changes (current idx) files) (\<lambda>(delta, _).
             Inr (idx\<lparr>current := files, snapshot_tags := snapshot_tags idx @ [tag],
                      snapshot_deltas := snapshot_deltas idx @ [delta]\<rparr>)))"

text \<open>
  The closures of \<^verbatim>\<open>for_each_snapshot\<close> carry a state and may break out of the loop.
\<close>

fun for_each_loop ::
    "pack_index \<Rightarrow> (bytes \<Rightarrow> file_entry list \<Rightarrow> 's \<Rightarrow> 'b option \<times> 's) \<Rightarrow> file_entry list \<Rightarrow>
     (bytes \<times> file_handle change_set) list \<Rightarrow> 's \<Rightarrow> ('b option \<times> 's) pack_result" where
  "for_each_loop idx f complete [] st = Inr (None, st)"
| "for_each_loop idx f complete ((tag, delta) # rest) st =
     rbind (change_set_map (entry_refs_from_handles idx) delta) (\<lambda>deltas.
     rbind (apply_changes complete deltas) (\<lambda>complete.
       case f tag complete st of
         (Some out, st) \<Rightarrow> Inr (Some out, st)
       | (None, st) \<Rightarrow> for_each_loop idx f complete rest st))"

definition for_each_snapshot ::
    "pack_index \<Rightarrow> (bytes \<Rightarrow> file_entry list \<Rightarrow> 's \<Rightarrow> 'b option \<times> 's) \<Rightarrow> 's \<Rightarrow>
     ('b option \<times> 's) pack_result" where
  "for_each_snapshot idx f st =
     for_each_loop idx f [] (zip (snapshot_tags idx) (snapshot_deltas idx)) st"

fun file_count_loop ::
    "(bytes \<Rightarrow> u64 \<Rightarrow> 's \<Rightarrow> 'b option \<times> 's) \<Rightarrow> u64 \<Rightarrow>
     (bytes \<times> file_handle change_set) list \<Rightarrow> 's \<Rightarrow> 'b option \<times> 's" where
  "file_count_loop f file_count [] st = (None, st)"
| "file_count_loop f file_count ((tag, delta) # rest) st =
     (let file_count = file_count + of_nat (length (cs_added delta))
            - of_nat (length (cs_removed delta))
      in case f tag file_count st of
           (Some out, st) \<Rightarrow> (Some out, st)
         | (None, st) \<Rightarrow> file_count_loop f file_count rest st)"

definition for_each_snapshot_file_count ::
    "pack_index \<Rightarrow> (bytes \<Rightarrow> u64 \<Rightarrow> 's \<Rightarrow> 'b option \<times> 's) \<Rightarrow> 's \<Rightarrow> 'b option \<times> 's" where
  "for_each_snapshot_file_count idx f st =
     file_count_loop f 0 (zip (snapshot_tags idx) (snapshot_deltas idx)) st"

subsection \<open>Snapshot identity\<close>

definition identity_domain :: bytes where
  "identity_domain = ''elfshaker-snapshot-identity'' @ CHR 0x00 # ''v3'' @ [CHR 0x00]"

definition entry_identity :: "file_entry \<Rightarrow> bytes" where
  "entry_identity e =
     u64_be (of_nat (length (as_bytes (fe_path e)))) @ as_bytes (fe_path e) @
     (case fe_metadata e of
        Regular mode \<Rightarrow> CHR 0x00 # fe_checksum e @ u32_be mode
      | Symlink enc kind \<Rightarrow> CHR 0x01 # fe_checksum e @ [encoding_tag enc, kind_tag kind])"

text \<open>The byte stream fed to SHA-1: the hash itself is a parameter.\<close>

definition identity_stream :: "file_entry list \<Rightarrow> bytes" where
  "identity_stream entries =
     identity_domain @ u64_be (of_nat (length entries)) @
     concat (map entry_identity (sort_key fe_path entries))"

definition compute_snapshot_checksum ::
    "(bytes \<Rightarrow> checksum) \<Rightarrow> pack_index \<Rightarrow> bytes \<Rightarrow> 'e failure + checksum option" where
  "compute_snapshot_checksum sha1 idx snapshot =
     rbind (resolve_snapshot idx snapshot) (\<lambda>handles.
       case handles of None \<Rightarrow> Inr None
       | Some hs \<Rightarrow>
           (case entry_refs_from_handles idx hs of
              Inr entries \<Rightarrow> Inr (Some (sha1 (identity_stream entries)))
            | Inl (Fail _) \<Rightarrow> Inr None
            | Inl Panicked \<Rightarrow> Inl Panicked))"

end
