(* ===== verification/IndexInv.thy ===== *)
theory IndexInv
  imports PackIdx
begin

text \<open>
  The invariant of the pack index, its abstraction to a list of tagged sets of entries, and
  the refinement: pushing a snapshot appends one tagged set and changes no earlier one.
\<close>

subsection \<open>The tables\<close>

definition index_tables_wf :: "pack_index \<Rightarrow> bool" where
  "index_tables_wf idx \<longleftrightarrow>
     pool_wf (path_pool idx) \<and> pool_wf (object_pool idx) \<and>
     map fst (object_table idx) = map of_nat [0..<length (pool_entries (object_pool idx))]"

definition index_room :: "pack_index \<Rightarrow> nat" where
  "index_room idx = min (pool_room (path_pool idx)) (pool_room (object_pool idx))"

type_synonym content = "pack_path \<times> checksum \<times> entry_metadata"

definition entry_content :: "file_entry \<Rightarrow> content" where
  "entry_content e = (fe_path e, fe_checksum e, fe_metadata e)"

definition handle_content :: "pack_index \<Rightarrow> file_handle \<Rightarrow> content option" where
  "handle_content idx fh =
     (case (pool_lookup (path_pool idx) (fh_path fh), pool_lookup (object_pool idx) (fh_object fh)) of
        (Some p, Some c) \<Rightarrow> Some (p, c, fh_metadata fh)
      | _ \<Rightarrow> None)"

lemma handle_content_Some_iff:
  "handle_content idx fh = Some (p, c, m) \<longleftrightarrow>
     pool_lookup (path_pool idx) (fh_path fh) = Some p \<and>
     pool_lookup (object_pool idx) (fh_object fh) = Some c \<and> fh_metadata fh = m"
  by (auto simp: handle_content_def split: option.splits)

lemma of_nat_handle_less_iff:
  "i < 2 ^ 32 \<Longrightarrow> j < 2 ^ 32 \<Longrightarrow> (of_nat i :: handle) < of_nat j \<longleftrightarrow> i < j"
  by (simp add: word_less_nat_alt unat_handle)

lemma handle_keys:
  assumes "n \<le> 2 ^ 32"
  shows "sorted (map of_nat [0..<n] :: handle list)" and "distinct (map of_nat [0..<n] :: handle list)"
proof -
  show "sorted (map of_nat [0..<n] :: handle list)"
    using assms by (auto simp: sorted_iff_nth_mono word_le_nat_alt unat_handle)
  have "inj_on (of_nat :: nat \<Rightarrow> handle) {0..<n}"
  proof (rule inj_onI)
    fix i j assume "i \<in> {0..<n}" "j \<in> {0..<n}" "(of_nat i :: handle) = of_nat j"
    moreover from this assms have "i < 2 ^ 32" "j < 2 ^ 32" by auto
    ultimately show "i = j" by (metis unat_handle)
  qed
  then show "distinct (map of_nat [0..<n] :: handle list)"
    by (simp add: distinct_map)
qed

lemma bt_insert_last:
  "(\<And>k'. k' \<in> set (map fst m) \<Longrightarrow> k' < k) \<Longrightarrow> bt_insert k v m = m @ [(k, v)]"
proof (induction m)
  case Nil
  then show ?case by simp
next
  case (Cons kv m)
  have "fst kv < k" using Cons.prems by simp
  then have "\<not> k < fst kv" "k \<noteq> fst kv" by auto
  with Cons show ?case by (cases kv) simp
qed

lemma bt_insert_old_keys:
  "sorted (map fst m) \<Longrightarrow> distinct (map fst m) \<Longrightarrow> k \<in> set (map fst m) \<Longrightarrow>
     map fst (bt_insert k v m) = map fst m"
proof (induction m)
  case Nil
  then show ?case by simp
next
  case (Cons kv m)
  obtain k' v' where kv: "kv = (k', v')" by (cases kv)
  consider "k = k'" | "k \<noteq> k'" "k \<in> set (map fst m)" "\<not> k < k'"
    using Cons.prems kv by fastforce
  then show ?case using Cons kv by cases simp_all
qed

lemma table_sorted:
  assumes "index_tables_wf idx"
  shows "sorted (map fst (object_table idx))" and "distinct (map fst (object_table idx))"
  using assms handle_keys [of "length (pool_entries (object_pool idx))"]
  by (auto simp: index_tables_wf_def pool_wf_def)

lemma table_lookup_iff:
  assumes "index_tables_wf idx"
  shows "map_of (object_table idx) h \<noteq> None \<longleftrightarrow> pool_lookup (object_pool idx) h \<noteq> None"
proof -
  let ?n = "length (pool_entries (object_pool idx))"
  have n: "?n \<le> 2 ^ 32" using assms by (simp add: index_tables_wf_def pool_wf_def)
  have "map_of (object_table idx) h \<noteq> None \<longleftrightarrow> h \<in> set (map fst (object_table idx))"
    by (simp add: map_of_eq_None_iff)
  also have "\<dots> \<longleftrightarrow> h \<in> of_nat ` {0..<?n}"
    using assms by (simp add: index_tables_wf_def)
  also have "\<dots> \<longleftrightarrow> unat h < ?n"
  proof
    assume "h \<in> of_nat ` {0..<?n}"
    then obtain i where "i < ?n" "h = of_nat i" by auto
    with n show "unat h < ?n" by (simp add: unat_handle)
  next
    assume "unat h < ?n"
    then show "h \<in> of_nat ` {0..<?n}"
      by (intro image_eqI [where x = "unat h"]) auto
  qed
  finally show ?thesis by (simp add: pool_lookup_def)
qed

lemma handle_to_entry_ref_eq: "handle_to_entry_ref idx = handle_to_entry idx"
  by (simp add: fun_eq_iff handle_to_entry_def handle_to_entry_ref_def)

lemma handle_to_entry_ok:
  assumes wf: "index_tables_wf idx" and c: "handle_content idx fh = Some c"
  shows "\<exists>e. handle_to_entry idx fh = Inr e \<and> entry_content e = c \<and>
     map_of (object_table idx) (fh_object fh) = Some (fe_object e)"
proof -
  obtain p k m where cc: "c = (p, k, m)" by (cases c)
  from c cc have l: "pool_lookup (path_pool idx) (fh_path fh) = Some p"
    "pool_lookup (object_pool idx) (fh_object fh) = Some k" "fh_metadata fh = m"
    by (simp_all add: handle_content_Some_iff)
  with table_lookup_iff [OF wf] obtain om where "map_of (object_table idx) (fh_object fh) = Some om"
    by (metis option.exhaust option.simps(3))
  with l cc show ?thesis
    by (simp add: handle_to_entry_def entry_content_def)
qed

text \<open>The three steps of \<^verbatim>\<open>entry_to_handle\<close>.\<close>

lemma entry_to_handle_simps:
  "fst (entry_to_handle idx e) =
     \<lparr>fh_path = fst (get_or_insert (path_pool idx) (fe_path e)),
      fh_object = fst (get_or_insert (object_pool idx) (fe_checksum e)),
      fh_metadata = fe_metadata e\<rparr>"
  "path_pool (snd (entry_to_handle idx e)) = snd (get_or_insert (path_pool idx) (fe_path e))"
  "object_pool (snd (entry_to_handle idx e)) = snd (get_or_insert (object_pool idx) (fe_checksum e))"
  "object_table (snd (entry_to_handle idx e)) =
     bt_insert (fst (get_or_insert (object_pool idx) (fe_checksum e))) (fe_object e) (object_table idx)"
  "snapshot_tags (snd (entry_to_handle idx e)) = snapshot_tags idx"
  "snapshot_deltas (snd (entry_to_handle idx e)) = snapshot_deltas idx"
  "current (snd (entry_to_handle idx e)) = current idx"
  by (simp_all add: entry_to_handle_def case_prod_unfold Let_def)

lemma get_or_insert_cases:
  assumes "pool_wf p" "length (pool_entries p) < 2 ^ 32"
  obtains (old) "pool_lookup p (fst (get_or_insert p k)) = Some k" "snd (get_or_insert p k) = p"
  | (new) "fst (get_or_insert p k) = of_nat (length (pool_entries p))"
      "pool_entries (snd (get_or_insert p k)) = pool_entries p @ [k]"
proof (cases "pool_get p k")
  case None
  then show ?thesis by (intro new) (simp_all add: get_or_insert_def Let_def)
next
  case (Some h)
  with assms(1) have "pool_lookup p h = Some k" by (simp add: pool_get_Some_iff)
  with Some show ?thesis by (intro old) (simp_all add: get_or_insert_def)
qed

lemma index_tables_wf_entry_to_handle:
  assumes wf: "index_tables_wf idx" and room: "0 < index_room idx"
  shows "index_tables_wf (snd (entry_to_handle idx e))"
proof -
  let ?p = "object_pool idx" and ?n = "length (pool_entries (object_pool idx))"
  have wfp: "pool_wf (path_pool idx)" "pool_wf ?p" and
    keys: "map fst (object_table idx) = map of_nat [0..<?n]"
    using wf by (simp_all add: index_tables_wf_def)
  have len: "length (pool_entries (path_pool idx)) < 2 ^ 32" "?n < 2 ^ 32"
    using room by (simp_all add: index_room_def pool_room_def)
  have pools: "pool_wf (snd (get_or_insert (path_pool idx) (fe_path e)))"
    "pool_wf (snd (get_or_insert ?p (fe_checksum e)))"
    using wfp len by (auto intro: pool_wf_get_or_insert)
  have "map fst (bt_insert (fst (get_or_insert ?p (fe_checksum e))) (fe_object e) (object_table idx)) =
      map of_nat [0..<length (pool_entries (snd (get_or_insert ?p (fe_checksum e))))]"
  proof (cases rule: get_or_insert_cases [OF wfp(2) len(2), of "fe_checksum e"])
    case 1
    let ?h = "fst (get_or_insert ?p (fe_checksum e))"
    have "?h \<in> set (map fst (object_table idx))"
      using 1(1) table_lookup_iff [OF wf, of ?h] by (metis map_of_eq_None_iff option.simps(3) set_map)
    then show ?thesis using table_sorted [OF wf] keys 1(2) by (simp add: bt_insert_old_keys)
  next
    case 2
    have "k' < of_nat ?n" if "k' \<in> set (map fst (object_table idx))" for k'
      using that keys len(2) of_nat_handle_less_iff by auto
    then have "bt_insert (of_nat ?n) (fe_object e) (object_table idx) =
        object_table idx @ [(of_nat ?n, fe_object e)]"
      by (rule bt_insert_last)
    with 2 keys show ?thesis by simp
  qed
  with pools show ?thesis by (simp add: index_tables_wf_def entry_to_handle_simps)
qed

lemma index_room_entry_to_handle:
  assumes "index_tables_wf idx"
  shows "index_room idx \<le> Suc (index_room (snd (entry_to_handle idx e)))"
  using assms pool.room_ins [of "path_pool idx" "fe_path e"]
    pool.room_ins [of "object_pool idx" "fe_checksum e"]
  by (simp add: index_room_def index_tables_wf_def entry_to_handle_simps)

text \<open>The index is itself an interner: it stores entries up to their object metadata.\<close>

interpretation index: interner index_tables_wf index_room entry_to_handle handle_content entry_content
proof unfold_locales
  fix idx e assume wf: "index_tables_wf idx"
  then have wfp: "pool_wf (path_pool idx)" "pool_wf (object_pool idx)"
    by (simp_all add: index_tables_wf_def)
  show "index_room idx \<le> Suc (index_room (snd (entry_to_handle idx e)))"
    using wf by (rule index_room_entry_to_handle)
  show "handle_content (snd (entry_to_handle idx e)) h = Some y"
    if "handle_content idx h = Some y" for h y
    using that wfp by (cases y) (auto simp: handle_content_Some_iff entry_to_handle_simps
        intro: pool_lookup_stable)
  show "h = h'" if "handle_content idx h = Some y" "handle_content idx h' = Some y" for h h' y
  proof -
    obtain p c m where y: "y = (p, c, m)" by (cases y)
    have "fh_path h = fh_path h'" "fh_object h = fh_object h'" "fh_metadata h = fh_metadata h'"
      using that wfp pool_lookup_inj unfolding y handle_content_Some_iff by metis+
    then show "h = h'" by (simp add: file_handle.equality)
  qed
  assume room: "0 < index_room idx"
  show "index_tables_wf (snd (entry_to_handle idx e))"
    using wf room by (rule index_tables_wf_entry_to_handle)
  have len: "length (pool_entries (path_pool idx)) < 2 ^ 32"
    "length (pool_entries (object_pool idx)) < 2 ^ 32"
    using room by (simp_all add: index_room_def pool_room_def)
  show "handle_content (snd (entry_to_handle idx e)) (fst (entry_to_handle idx e)) =
      Some (entry_content e)"
    using pool_lookup_inserted [OF wfp(1) len(1)] pool_lookup_inserted [OF wfp(2) len(2)]
    by (simp add: handle_content_def entry_to_handle_simps entry_content_def)
qed

subsection \<open>Deltas over sets\<close>

definition delta_apply :: "'a set \<Rightarrow> 'a change_set \<Rightarrow> 'a set" where
  "delta_apply S d = (S - set (cs_removed d)) \<union> set (cs_added d)"

definition delta_ok :: "'a set \<Rightarrow> 'a change_set \<Rightarrow> bool" where
  "delta_ok S d \<longleftrightarrow> distinct (cs_removed d) \<and> distinct (cs_added d) \<and>
     set (cs_removed d) \<subseteq> S \<and> set (cs_added d) \<inter> (S - set (cs_removed d)) = {}"

fun deltas_ok :: "'a set \<Rightarrow> 'a change_set list \<Rightarrow> bool" where
  "deltas_ok S [] = True"
| "deltas_ok S (d # ds) = (delta_ok S d \<and> deltas_ok (delta_apply S d) ds)"

fun replay :: "'a set \<Rightarrow> 'a change_set list \<Rightarrow> 'a set list" where
  "replay S [] = []"
| "replay S (d # ds) = delta_apply S d # replay (delta_apply S d) ds"

lemma apply_changes_delta:
  assumes "distinct s" and "delta_ok (set s) d"
  shows "\<exists>r. (apply_changes s d :: 'e failure + _) = Inr r \<and> distinct r \<and> set r = delta_apply (set s) d"
proof -
  have "(apply_changes s d :: 'e failure + _) =
      Inr (filter (\<lambda>y. y \<notin> set (cs_removed d)) s @ cs_added d)"
    using assms(2) by (intro apply_changes_ok) (auto simp: delta_ok_def)
  moreover have "distinct (filter (\<lambda>y. y \<notin> set (cs_removed d)) s @ cs_added d)"
    using assms by (auto simp: delta_ok_def)
  moreover have "set (filter (\<lambda>y. y \<notin> set (cs_removed d)) s @ cs_added d) = delta_apply (set s) d"
    by (auto simp: delta_apply_def)
  ultimately show ?thesis by blast
qed

lemma length_replay [simp]: "length (replay S ds) = length ds"
  by (induction S ds rule: replay.induct) auto

lemma last_replay_Cons:
  "last (S # replay S (d # ds)) = last (delta_apply S d # replay (delta_apply S d) ds)"
  by simp

lemma replay_append: "replay S (ds @ [d]) = replay S ds @ [delta_apply (last (S # replay S ds)) d]"
  by (induction S ds rule: replay.induct) auto

lemma deltas_ok_append:
  "deltas_ok S (ds @ [d]) \<longleftrightarrow> deltas_ok S ds \<and> delta_ok (last (S # replay S ds)) d"
  by (induction S ds rule: replay.induct) auto

text \<open>Deltas carry over along an injective map of the elements.\<close>

definition delta_image :: "('a \<Rightarrow> 'b) \<Rightarrow> 'a change_set \<Rightarrow> 'b change_set" where
  "delta_image f d = \<lparr>cs_added = map f (cs_added d), cs_removed = map f (cs_removed d)\<rparr>"

lemma delta_apply_subset: "delta_apply S d \<subseteq> S \<union> set (cs_added d)"
  by (auto simp: delta_apply_def)

lemma delta_apply_image:
  assumes "inj_on f (S \<union> set (cs_added d))" "set (cs_removed d) \<subseteq> S"
  shows "delta_apply (f ` S) (delta_image f d) = f ` delta_apply S d"
proof -
  have "f ` S - f ` set (cs_removed d) = f ` (S - set (cs_removed d))"
    using assms by (intro inj_on_image_set_diff [symmetric, where C = "S \<union> set (cs_added d)"]) auto
  then show ?thesis by (simp add: delta_apply_def delta_image_def image_Un)
qed

lemma delta_ok_image:
  assumes "inj_on f (S \<union> set (cs_added d))" and ok: "delta_ok S d"
  shows "delta_ok (f ` S) (delta_image f d)"
proof -
  let ?R = "set (cs_removed d)" and ?A = "set (cs_added d)"
  have R: "?R \<subseteq> S" using ok by (simp add: delta_ok_def)
  have inj: "inj_on f ?A" "inj_on f ?R" using assms(1) R by (auto intro: inj_on_subset)
  have "f ` S - f ` ?R = f ` (S - ?R)"
    using assms(1) R by (intro inj_on_image_set_diff [symmetric, where C = "S \<union> ?A"]) auto
  moreover have "f ` ?A \<inter> f ` (S - ?R) = f ` (?A \<inter> (S - ?R))"
    using assms(1) by (intro inj_on_image_Int [symmetric, where C = "S \<union> ?A"]) auto
  moreover have "?A \<inter> (S - ?R) = {}" using ok by (simp add: delta_ok_def)
  ultimately have "f ` ?A \<inter> (f ` S - f ` ?R) = {}" by simp
  then show ?thesis
    using ok inj R by (auto simp: delta_ok_def delta_image_def distinct_map)
qed

subsection \<open>The invariant and the abstraction\<close>

definition handles_valid :: "pack_index \<Rightarrow> file_handle set \<Rightarrow> bool" where
  "handles_valid idx S \<longleftrightarrow> (\<forall>h\<in>S. handle_content idx h \<noteq> None)"

definition contents_of :: "pack_index \<Rightarrow> file_handle set \<Rightarrow> content set" where
  "contents_of idx S = (\<lambda>h. the (handle_content idx h)) ` S"

definition index_wf :: "pack_index \<Rightarrow> bool" where
  "index_wf idx \<longleftrightarrow>
     index_tables_wf idx \<and> distinct (snapshot_tags idx) \<and>
     length (snapshot_tags idx) = length (snapshot_deltas idx) \<and>
     deltas_ok {} (snapshot_deltas idx) \<and>
     (\<forall>S\<in>set (replay {} (snapshot_deltas idx)). handles_valid idx S)"

text \<open>
  An index under construction also carries the last file set; one that was loaded does not.
\<close>

definition index_synced :: "pack_index \<Rightarrow> bool" where
  "index_synced idx \<longleftrightarrow>
     distinct (current idx) \<and> set (current idx) = last ({} # replay {} (snapshot_deltas idx))"

definition snapshots_of :: "pack_index \<Rightarrow> (bytes \<times> content set) list" where
  "snapshots_of idx = zip (snapshot_tags idx) (map (contents_of idx) (replay {} (snapshot_deltas idx)))"

lemma index_wf_new: "index_wf index_new \<and> index_synced index_new \<and> snapshots_of index_new = []"
  by (simp add: index_wf_def index_synced_def snapshots_of_def index_new_def index_tables_wf_def)
    (simp add: pool_new_def)

lemma fst_snapshots_of: "index_wf idx \<Longrightarrow> map fst (snapshots_of idx) = snapshot_tags idx"
  by (simp add: snapshots_of_def index_wf_def)

lemma intern_entries_frame:
  "snapshot_tags (snd (intern_all entry_to_handle idx es)) = snapshot_tags idx \<and>
   snapshot_deltas (snd (intern_all entry_to_handle idx es)) = snapshot_deltas idx \<and>
   current (snd (intern_all entry_to_handle idx es)) = current idx"
  by (induction es arbitrary: idx) (simp_all add: case_prod_unfold Let_def entry_to_handle_simps)

lemma contents_of_stable:
  assumes "index_tables_wf idx" "length es \<le> index_room idx" "handles_valid idx S"
  shows "handles_valid (snd (intern_all entry_to_handle idx es)) S"
    and "contents_of (snd (intern_all entry_to_handle idx es)) S = contents_of idx S"
proof -
  have *: "handle_content (snd (intern_all entry_to_handle idx es)) h = handle_content idx h"
    if "h \<in> S" for h
    using that assms index.intern_all_old [OF assms(1,2)] by (auto simp: handles_valid_def)
  from assms(3) * show "handles_valid (snd (intern_all entry_to_handle idx es)) S"
    by (simp add: handles_valid_def)
  from * show "contents_of (snd (intern_all entry_to_handle idx es)) S = contents_of idx S"
    by (simp add: contents_of_def)
qed

lemma intern_entries_contents:
  assumes "index_tables_wf idx" "length es \<le> index_room idx"
    and "intern_all entry_to_handle idx es = (hs, idx')"
  shows "handles_valid idx' (set hs)" and "contents_of idx' (set hs) = entry_content ` set es"
proof -
  have *: "map (handle_content idx') hs = map (\<lambda>e. Some (entry_content e)) es"
    using index.intern_all_resolves [OF assms(1,2)] assms(3) by simp
  then have "handle_content idx' ` set hs = (\<lambda>e. Some (entry_content e)) ` set es"
    by (metis set_map)
  moreover from this show "handles_valid idx' (set hs)"
    unfolding handles_valid_def by (metis image_iff option.distinct(1))
  ultimately have "the ` (handle_content idx' ` set hs) = the ` ((\<lambda>e. Some (entry_content e)) ` set es)"
    by simp
  then show "contents_of idx' (set hs) = entry_content ` set es"
    by (simp add: contents_of_def image_image)
qed

text \<open>Pushing a snapshot refines appending a tagged set.\<close>

lemma push_snapshot_correct:
  assumes wf: "index_wf idx" and sync: "index_synced idx"
    and room: "length es \<le> index_room idx" and new: "tag \<notin> set (snapshot_tags idx)"
  shows "\<exists>idx'. push_snapshot idx tag es = Inr idx' \<and> index_wf idx' \<and> index_synced idx' \<and>
     snapshots_of idx' = snapshots_of idx @ [(tag, entry_content ` set es)]"
proof -
  let ?D = "snapshot_deltas idx"
  obtain hs idx1 where i: "intern_all entry_to_handle idx es = (hs, idx1)" by fastforce
  have t: "index_tables_wf idx" using wf by (simp add: index_wf_def)
  have t1: "index_tables_wf idx1" using index.wf_intern_all [OF t room] i by simp
  have fr: "snapshot_tags idx1 = snapshot_tags idx" "snapshot_deltas idx1 = ?D" "current idx1 = current idx"
    using intern_entries_frame [of idx es] i by simp_all
  note ic = intern_entries_contents [OF t room i]
  have old: "handles_valid idx1 S \<and> contents_of idx1 S = contents_of idx S" if "S \<in> set (replay {} ?D)" for S
    using that wf contents_of_stable [OF t room, of S] i by (simp add: index_wf_def)
  define d where "d = \<lparr>cs_added = filter (\<lambda>f. f \<notin> set (current idx)) (remdups hs),
      cs_removed = filter (\<lambda>f. f \<notin> set (remdups hs)) (current idx)\<rparr>"
  have cur: "distinct (current idx)" "set (current idx) = last ({} # replay {} ?D)"
    using sync by (simp_all add: index_synced_def)
  have gc: "get_changes (current idx1) (remdups hs) =
      (Inr (d, filter (\<lambda>f. f \<in> set (remdups hs)) (current idx) @
          filter (\<lambda>f. f \<notin> set (current idx)) (remdups hs)) :: pack_error failure + _)"
    using cur by (simp add: get_changes_ok d_def fr)
  define idx' where "idx' = idx1\<lparr>current := remdups hs, snapshot_tags := snapshot_tags idx @ [tag],
      snapshot_deltas := ?D @ [d]\<rparr>"
  have push: "push_snapshot idx tag es = Inr idx'"
    using new i gc by (simp add: push_snapshot_def idx'_def fr)
  have hc: "handle_content idx' = handle_content idx1" "contents_of idx' = contents_of idx1"
    "handles_valid idx' = handles_valid idx1" "index_tables_wf idx' = index_tables_wf idx1"
    by (simp_all add: fun_eq_iff handle_content_def contents_of_def handles_valid_def
        index_tables_wf_def idx'_def cong: option.case_cong)
  have dok: "delta_ok (last ({} # replay {} ?D)) d"
    unfolding cur(2) [symmetric] using cur(1) by (auto simp: delta_ok_def d_def)
  have dap: "delta_apply (last ({} # replay {} ?D)) d = set hs"
    unfolding cur(2) [symmetric] by (auto simp: delta_apply_def d_def)
  have rp: "replay {} (?D @ [d]) = replay {} ?D @ [set hs]"
    by (simp only: replay_append dap)
  have "index_wf idx'"
    using wf t1 new ic(1) old dok rp hc
    by (auto simp: index_wf_def idx'_def deltas_ok_append)
  moreover have "index_synced idx'"
    using rp by (simp add: index_synced_def idx'_def)
  moreover have "map (contents_of idx1) (replay {} ?D) = map (contents_of idx) (replay {} ?D)"
    using old by simp
  then have "snapshots_of idx' = snapshots_of idx @ [(tag, entry_content ` set es)]"
    using wf rp hc ic(2) by (simp add: snapshots_of_def idx'_def index_wf_def del: map_eq_conv)
  ultimately show ?thesis using push by blast
qed

lemma push_snapshot_duplicate:
  "tag \<in> set (snapshot_tags idx) \<Longrightarrow>
     push_snapshot idx tag es = Inl (Fail (SnapshotAlreadyExists ''<unknown>'' tag))"
  by (simp add: push_snapshot_def)

subsection \<open>Reading snapshots back\<close>

text \<open>The loops of \<^verbatim>\<open>resolve_snapshot\<close> and \<^verbatim>\<open>for_each_snapshot\<close> follow \<^const>\<open>replay\<close>.\<close>

lemma resolve_loop_replay:
  assumes "distinct cur" "deltas_ok (set cur) ds" "length tags = length ds"
  shows "case map_of (zip tags (replay (set cur) ds)) needle of
      None \<Rightarrow> (resolve_loop needle cur (zip tags ds) :: 'e failure + _) = Inr None
    | Some S \<Rightarrow> \<exists>hs. (resolve_loop needle cur (zip tags ds) :: 'e failure + _) = Inr (Some hs) \<and>
        distinct hs \<and> set hs = S"
  using assms
proof (induction ds arbitrary: cur tags)
  case Nil
  then show ?case by simp
next
  case (Cons d ds)
  obtain t ts where ts: "tags = t # ts" "length ts = length ds"
    using Cons.prems(3) by (cases tags) auto
  obtain r where r: "(apply_changes cur d :: 'e failure + _) = Inr r" "distinct r"
      "set r = delta_apply (set cur) d"
    using apply_changes_delta [OF Cons.prems(1), of d, where 'e = 'e] Cons.prems(2) by auto
  show ?case
  proof (cases "t = needle")
    case True
    with ts r show ?thesis by simp
  next
    case False
    have eq: "(resolve_loop needle cur (zip tags (d # ds)) :: 'e failure + _) = resolve_loop needle r (zip ts ds)"
      using ts r False by simp
    have "deltas_ok (set r) ds" using Cons.prems(2) r(3) by simp
    from Cons.IH [OF r(2) this ts(2)] show ?thesis
      unfolding eq using ts(1) r(3) False by (simp del: resolve_loop.simps)
  qed
qed

lemma collect_handle_to_entry:
  assumes wf: "index_tables_wf idx" and v: "handles_valid idx (set hs)"
  shows "\<exists>es. collect (handle_to_entry idx) hs = Inr es \<and>
     map entry_content es = map (\<lambda>h. the (handle_content idx h)) hs \<and>
     list_all2 (\<lambda>h e. map_of (object_table idx) (fh_object h) = Some (fe_object e)) hs es"
  using v
proof (induction hs)
  case Nil
  then show ?case by simp
next
  case (Cons h hs)
  from Cons.prems obtain c where c: "handle_content idx h = Some c"
    by (auto simp: handles_valid_def)
  obtain e where "handle_to_entry idx h = Inr e" "entry_content e = c"
      "map_of (object_table idx) (fh_object h) = Some (fe_object e)"
    using handle_to_entry_ok [OF wf c] by blast
  moreover have "handles_valid idx (set hs)" using Cons.prems by (simp add: handles_valid_def)
  ultimately show ?case using Cons.IH c by auto
qed

lemma handles_inj:
  assumes "index_tables_wf idx" "handles_valid idx S"
  shows "inj_on (\<lambda>h. the (handle_content idx h)) S"
proof (rule inj_onI)
  fix h h' assume "h \<in> S" "h' \<in> S" and eq: "the (handle_content idx h) = the (handle_content idx h')"
  with assms(2) obtain y y' where y: "handle_content idx h = Some y" "handle_content idx h' = Some y'"
    unfolding handles_valid_def by blast
  with eq have "y = y'" by simp
  with y index.look_inj [OF assms(1), of h y h'] show "h = h'" by simp
qed

lemma resolve_snapshot_replayed:
  assumes wf: "index_wf idx"
  shows "case map_of (snapshots_of idx) tag of
      None \<Rightarrow> (resolve_snapshot idx tag :: 'e failure + _) = Inr None
    | Some C \<Rightarrow> \<exists>hs es. resolve_snapshot idx tag = (Inr (Some hs) :: 'e failure + _) \<and>
        entries_from_handles idx hs = Inr es \<and> distinct (map entry_content es) \<and>
        entry_content ` set es = C"
proof -
  have len: "length (snapshot_tags idx) = length (snapshot_deltas idx)"
    and ok: "deltas_ok (set []) (snapshot_deltas idx)"
    and t: "index_tables_wf idx"
    and v: "\<And>S. S \<in> set (replay {} (snapshot_deltas idx)) \<Longrightarrow> handles_valid idx S"
    using wf by (auto simp: index_wf_def)
  have mo: "map_of (snapshots_of idx) tag =
      map_option (contents_of idx) (map_of (zip (snapshot_tags idx) (replay {} (snapshot_deltas idx))) tag)"
    using len by (simp add: snapshots_of_def zip_map2 map_of_map del: fun_upd_apply)
  note rl = resolve_loop_replay [OF distinct.simps(1) [THEN iffD2] ok len, of tag, where 'e = 'e]
  show ?thesis
  proof (cases "map_of (zip (snapshot_tags idx) (replay {} (snapshot_deltas idx))) tag")
    case None
    with rl mo show ?thesis by (simp add: resolve_snapshot_def)
  next
    case (Some S)
    with rl obtain hs where hs: "resolve_snapshot idx tag = (Inr (Some hs) :: 'e failure + _)"
        "distinct hs" "set hs = S"
      by (auto simp: resolve_snapshot_def)
    have "S \<in> set (replay {} (snapshot_deltas idx))"
      using Some by (auto dest!: map_of_SomeD set_zip_rightD)
    with v hs have vs: "handles_valid idx (set hs)" by simp
    obtain es where es: "collect (handle_to_entry idx) hs = Inr es"
        "map entry_content es = map (\<lambda>h. the (handle_content idx h)) hs"
      using collect_handle_to_entry [OF t vs] by blast
    have "distinct (map entry_content es)"
      unfolding es(2) using hs(2) handles_inj [OF t vs] by (simp add: distinct_map)
    moreover have "entry_content ` set es = contents_of idx S"
      using arg_cong [OF es(2), of set] hs(3) by (simp add: contents_of_def)
    ultimately show ?thesis
      using Some mo hs(1) es(1) by (auto simp: entries_from_handles_def)
  qed
qed

lemmas resolve_snapshot_correct = resolve_snapshot_replayed [where 'e = pack_error]

subsection \<open>Visiting every snapshot\<close>

text \<open>The abstract loop: visit the tagged sets in order until the closure breaks.\<close>

fun visit :: "('t \<Rightarrow> 'c \<Rightarrow> 's \<Rightarrow> 'b option \<times> 's) \<Rightarrow> ('t \<times> 'c) list \<Rightarrow> 's \<Rightarrow> 'b option \<times> 's" where
  "visit g [] st = (None, st)"
| "visit g ((t, c) # rest) st =
     (case g t c st of (Some out, st) \<Rightarrow> (Some out, st) | (None, st) \<Rightarrow> visit g rest st)"

definition entry_of :: "pack_index \<Rightarrow> file_handle \<Rightarrow> file_entry" where
  "entry_of idx h = (case handle_to_entry idx h of Inr e \<Rightarrow> e | Inl _ \<Rightarrow> undefined)"

lemma entry_of_ok:
  assumes "index_tables_wf idx" "handle_content idx h \<noteq> None"
  shows "handle_to_entry idx h = Inr (entry_of idx h)"
    and "entry_content (entry_of idx h) = the (handle_content idx h)"
  using assms handle_to_entry_ok [of idx h] by (auto simp: entry_of_def)

lemma collect_entry_of:
  assumes "index_tables_wf idx" "handles_valid idx (set hs)"
  shows "collect (handle_to_entry idx) hs = Inr (map (entry_of idx) hs)"
  using assms by (induction hs) (auto simp: handles_valid_def entry_of_ok)

lemma entry_of_inj:
  assumes "index_tables_wf idx" "handles_valid idx S"
  shows "inj_on (entry_of idx) S"
  using handles_inj [OF assms] entry_of_ok(2) [OF assms(1)] assms(2)
  unfolding inj_on_def handles_valid_def by metis

lemma contents_of_entries:
  assumes "index_tables_wf idx" "handles_valid idx S"
  shows "entry_content ` entry_of idx ` S = contents_of idx S"
  using assms entry_of_ok(2) [OF assms(1)]
  by (auto simp: contents_of_def handles_valid_def image_image intro!: image_cong)

text \<open>The loop over the whole entries, which the tables determine, and not only over their contents.\<close>

definition entry_sets :: "pack_index \<Rightarrow> (bytes \<times> file_entry set) list" where
  "entry_sets idx = zip (snapshot_tags idx) (map (\<lambda>S. entry_of idx ` S) (replay {} (snapshot_deltas idx)))"

lemma for_each_loop_lists:
  assumes t: "index_tables_wf idx"
  shows "length tags = length ds \<Longrightarrow> deltas_ok S ds \<Longrightarrow> handles_valid idx S \<Longrightarrow>
    (\<forall>S'\<in>set (replay S ds). handles_valid idx S') \<Longrightarrow> distinct es \<Longrightarrow> set es = entry_of idx ` S \<Longrightarrow>
    \<exists>ess. map set ess = map (\<lambda>S. entry_of idx ` S) (replay S ds) \<and> (\<forall>es \<in> set ess. distinct es) \<and>
      (\<forall>(f :: bytes \<Rightarrow> file_entry list \<Rightarrow> 's \<Rightarrow> 'b option \<times> 's) st. for_each_loop idx f es (zip tags ds) st = Inr (visit f (zip tags ess) st))"
proof (induction ds arbitrary: S tags es)
  case Nil
  then show ?case by (intro exI [of _ "[]"]) simp
next
  case (Cons d ds)
  obtain tg ts where ts: "tags = tg # ts" "length ts = length ds"
    using Cons.prems(1) by (cases tags) auto
  let ?S = "delta_apply S d" and ?e = "entry_of idx"
  have dok: "delta_ok S d" and vS: "handles_valid idx ?S" using Cons.prems by auto
  then have R: "set (cs_removed d) \<subseteq> S" and A: "set (cs_added d) \<subseteq> ?S"
    by (auto simp: delta_ok_def delta_apply_def)
  have v: "handles_valid idx (S \<union> set (cs_added d))" "handles_valid idx (set (cs_removed d))"
    "handles_valid idx (set (cs_added d))"
    using Cons.prems(3) vS R A by (auto simp: handles_valid_def)
  have inj: "inj_on ?e (S \<union> set (cs_added d))" by (rule entry_of_inj [OF t v(1)])
  have map: "change_set_map (entry_refs_from_handles idx) d = Inr (delta_image ?e d)"
    using collect_entry_of [OF t v(2)] collect_entry_of [OF t v(3)]
    by (simp add: change_set_map_def entry_refs_from_handles_def handle_to_entry_ref_eq delta_image_def)
  obtain r where r: "(apply_changes es (delta_image ?e d) :: pack_error failure + _) = Inr r" "distinct r"
      "set r = ?e ` ?S"
    using apply_changes_delta [OF Cons.prems(5), of "delta_image ?e d", where 'e = pack_error]
      delta_ok_image [OF inj dok] delta_apply_image [OF inj R] Cons.prems(6) by auto
  obtain ess where ess: "map set ess = map (\<lambda>S. ?e ` S) (replay ?S ds)" "\<forall>es \<in> set ess. distinct es"
      "\<And>(f :: bytes \<Rightarrow> file_entry list \<Rightarrow> 's \<Rightarrow> 'b option \<times> 's) st. for_each_loop idx f r (zip ts ds) st = Inr (visit f (zip ts ess) st)"
    using Cons.IH [OF ts(2) _ vS _ r(2,3)] Cons.prems by auto
  then show ?case
    using ts(1) map r by (intro exI [of _ "r # ess"]) (simp split: option.split prod.split)
qed

lemma for_each_snapshot_lists:
  assumes "index_wf idx"
  shows "\<exists>ess. entry_sets idx = zip (snapshot_tags idx) (map set ess) \<and> (\<forall>es \<in> set ess. distinct es) \<and>
    (\<forall>(f :: bytes \<Rightarrow> file_entry list \<Rightarrow> 's \<Rightarrow> 'b option \<times> 's) st. for_each_snapshot idx f st = Inr (visit f (zip (snapshot_tags idx) ess) st))"
proof -
  have "handles_valid idx {}" by (simp add: handles_valid_def)
  with assms for_each_loop_lists [of idx "snapshot_tags idx" "snapshot_deltas idx" "{}" "[]", where 's = 's and 'b = 'b]
  obtain ess where "map set ess = map (\<lambda>S. entry_of idx ` S) (replay {} (snapshot_deltas idx))"
      "\<forall>es \<in> set ess. distinct es"
      "\<forall>(f :: bytes \<Rightarrow> file_entry list \<Rightarrow> 's \<Rightarrow> 'b option \<times> 's) st. for_each_loop idx f [] (zip (snapshot_tags idx) (snapshot_deltas idx)) st =
        Inr (visit f (zip (snapshot_tags idx) ess) st)"
    by (auto simp: index_wf_def)
  then show ?thesis by (intro exI [of _ ess]) (simp add: entry_sets_def for_each_snapshot_def)
qed

lemma visit_map: "visit (\<lambda>t x. g t (h x)) (zip ts xs) st = visit g (zip ts (map h xs)) st"
proof (induction ts arbitrary: xs st)
  case (Cons t ts)
  then show ?case by (cases xs) (auto split: option.split prod.split)
qed simp

lemma visit_cong:
  "(\<And>t x st. x \<in> set xs \<Longrightarrow> f t x st = g t x st) \<Longrightarrow> visit f (zip ts xs) st = visit g (zip ts xs) st"
proof (induction ts arbitrary: xs st)
  case (Cons t ts)
  then show ?case by (cases xs) (auto split: option.split prod.split)
qed simp

lemma for_each_snapshot_entries:
  fixes f :: "bytes \<Rightarrow> file_entry list \<Rightarrow> 's \<Rightarrow> 'b option \<times> 's"
  assumes wf: "index_wf idx" and f: "\<And>t es st. distinct es \<Longrightarrow> f t es st = g t (set es) st"
  shows "for_each_snapshot idx f st = Inr (visit g (entry_sets idx) st)"
proof -
  obtain ess where ess: "entry_sets idx = zip (snapshot_tags idx) (map set ess)" "\<forall>es \<in> set ess. distinct es"
      "\<forall>(f :: bytes \<Rightarrow> file_entry list \<Rightarrow> 's \<Rightarrow> 'b option \<times> 's) st. for_each_snapshot idx f st = Inr (visit f (zip (snapshot_tags idx) ess) st)"
    using for_each_snapshot_lists [OF wf, where 's = 's and 'b = 'b] by blast
  have "visit f (zip (snapshot_tags idx) ess) st = visit (\<lambda>t es. g t (set es)) (zip (snapshot_tags idx) ess) st"
    using ess(2) f by (intro visit_cong) blast
  then show ?thesis by (simp only: ess(1,3) visit_map [where h = set])
qed

lemma snapshots_of_entries:
  assumes "index_wf idx"
  shows "snapshots_of idx =
    zip (snapshot_tags idx) (map ((`) entry_content) (map ((`) (entry_of idx)) (replay {} (snapshot_deltas idx))))"
proof -
  have "map (contents_of idx) (replay {} (snapshot_deltas idx)) =
      map ((`) entry_content) (map ((`) (entry_of idx)) (replay {} (snapshot_deltas idx)))"
    using assms by (simp add: index_wf_def contents_of_entries)
  then show ?thesis by (simp only: snapshots_of_def)
qed

lemma for_each_snapshot_visit:
  assumes wf: "index_wf idx"
    and f: "\<And>t es st. distinct es \<Longrightarrow> f t es st = g t (entry_content ` set es) st"
  shows "for_each_snapshot idx f st = Inr (visit g (snapshots_of idx) st)"
proof -
  have "for_each_snapshot idx f st = Inr (visit (\<lambda>t es. g t (entry_content ` es)) (entry_sets idx) st)"
    by (rule for_each_snapshot_entries [OF wf]) (simp add: f)
  then show ?thesis
    by (simp only: entry_sets_def visit_map [where h = "(`) entry_content"] snapshots_of_entries [OF wf])
qed

lemma delta_apply_card:
  assumes "finite S" "delta_ok S d"
  shows "int (card (delta_apply S d)) =
    int (card S) + int (length (cs_added d)) - int (length (cs_removed d))"
proof -
  let ?R = "set (cs_removed d)" and ?A = "set (cs_added d)"
  have R: "?R \<subseteq> S" "card ?R = length (cs_removed d)" and A: "card ?A = length (cs_added d)"
    and disj: "(S - ?R) \<inter> ?A = {}"
    using assms(2) by (auto simp: delta_ok_def distinct_card)
  have "card (delta_apply S d) = card (S - ?R) + card ?A"
    using assms(1) disj by (simp add: delta_apply_def card_Un_disjoint)
  moreover have "card (S - ?R) = card S - card ?R" "card ?R \<le> card S"
    using assms(1) R(1) by (auto simp: card_Diff_subset card_mono)
  ultimately show ?thesis using R(2) A by simp
qed

lemma file_count_loop_visit:
  assumes t: "index_tables_wf idx"
  shows "length tags = length ds \<Longrightarrow> finite S \<Longrightarrow> deltas_ok S ds \<Longrightarrow>
    (\<forall>S'\<in>set (replay S ds). handles_valid idx S') \<Longrightarrow> count = of_nat (card S) \<Longrightarrow>
    file_count_loop f count (zip tags ds) st =
      visit (\<lambda>t C st. f t (of_nat (card C)) st) (zip tags (map (contents_of idx) (replay S ds))) st"
proof (induction ds arbitrary: S tags count st)
  case Nil
  then show ?case by simp
next
  case (Cons d ds)
  obtain tg ts where ts: "tags = tg # ts" "length ts = length ds"
    using Cons.prems(1) by (cases tags) auto
  let ?S = "delta_apply S d"
  have fin: "finite ?S" using Cons.prems(2) by (simp add: delta_apply_def)
  have vS: "handles_valid idx ?S" using Cons.prems(4) by simp
  have "(of_int (int (card ?S)) :: u64) =
      of_int (int (card S) + int (length (cs_added d)) - int (length (cs_removed d)))"
    using delta_apply_card [OF Cons.prems(2)] Cons.prems(3) by simp
  then have count: "count + of_nat (length (cs_added d)) - of_nat (length (cs_removed d)) =
      of_nat (card ?S)"
    using Cons.prems(5) by simp
  have card: "card (contents_of idx ?S) = card ?S"
    unfolding contents_of_def by (rule card_image [OF handles_inj [OF t vS]])
  have IH: "file_count_loop f (of_nat (card ?S)) (zip ts ds) st =
      visit (\<lambda>t C st. f t (of_nat (card C)) st) (zip ts (map (contents_of idx) (replay ?S ds))) st" for st
    using Cons.prems by (intro Cons.IH [OF ts(2) fin]) auto
  show ?case
    using ts(1) count card IH by (simp add: Let_def split: option.split prod.split)
qed

lemma for_each_snapshot_file_count_visit:
  assumes "index_wf idx"
  shows "for_each_snapshot_file_count idx f st =
    visit (\<lambda>t C st. f t (of_nat (card C)) st) (snapshots_of idx) st"
  using assms unfolding for_each_snapshot_file_count_def snapshots_of_def
  by (intro file_count_loop_visit) (auto simp: index_wf_def)

lemma has_snapshot_iff: "has_snapshot idx tag \<longleftrightarrow> tag \<in> set (snapshot_tags idx)"
  by (auto simp: has_snapshot_def list_ex_iff)

subsection \<open>Properties\<close>

definition sample_entries :: "file_entry list" where
  "sample_entries =
     [\<lparr>fe_path = PackPath ''a'', fe_checksum = replicate 20 CHR 0x01,
       fe_object = \<lparr>om_offset = 0, om_size = 5\<rparr>, fe_metadata = Regular 420\<rparr>,
      \<lparr>fe_path = PackPath ''b/c'', fe_checksum = replicate 20 CHR 0x02,
       fe_object = \<lparr>om_offset = 5, om_size = 7\<rparr>, fe_metadata = Symlink PortableUtf8 TargetFile\<rparr>]"

lemma index_room_new [simp]: "index_room index_new = 2 ^ 32"
  by (simp add: index_room_def index_new_def)

lemma snapshot_tags_new [simp]: "snapshot_tags index_new = []"
  by (simp add: index_new_def)

text \<open>C12: Pushing a snapshot with a new tag succeeds, keeps the invariant of the index and refines
  appending one tagged set of (path, checksum, metadata): every earlier snapshot keeps its
  contents; a used tag is refused.\<close>

theorem push_snapshot_refines:
  assumes "index_wf idx" "index_synced idx" "length es \<le> index_room idx"
  shows "if tag \<in> set (snapshot_tags idx)
    then push_snapshot idx tag es = Inl (Fail (SnapshotAlreadyExists ''<unknown>'' tag))
    else \<exists>idx'. push_snapshot idx tag es = Inr idx' \<and> index_wf idx' \<and> index_synced idx' \<and>
      snapshots_of idx' = snapshots_of idx @ [(tag, entry_content ` set es)]"
  using push_snapshot_correct [OF assms] by (simp add: push_snapshot_duplicate)

theorem push_snapshot_refines_witness:
  "\<exists>idx'. push_snapshot index_new ''s1'' sample_entries = Inr idx' \<and> index_wf idx' \<and>
     index_synced idx' \<and> snapshots_of idx' = [(''s1'', entry_content ` set sample_entries)]"
  using push_snapshot_refines [of index_new sample_entries "''s1''"] index_wf_new
  by (simp add: sample_entries_def)

text \<open>C13: Resolving a tag replays the deltas: the entries found have pairwise different contents,
  and these are exactly the tagged set; an unknown tag is not found, and the panics of the
  replay do not occur.\<close>

theorem resolve_snapshot_spec:
  assumes "index_wf idx"
  shows "case map_of (snapshots_of idx) tag of
      None \<Rightarrow> (resolve_snapshot idx tag :: pack_error failure + _) = Inr None \<and> \<not> has_snapshot idx tag
    | Some C \<Rightarrow> has_snapshot idx tag \<and>
        (\<exists>hs es. resolve_snapshot idx tag = (Inr (Some hs) :: pack_error failure + _) \<and>
          entries_from_handles idx hs = Inr es \<and> distinct (map entry_content es) \<and>
          entry_content ` set es = C)"
proof -
  have "map_of (snapshots_of idx) tag = None \<longleftrightarrow> tag \<notin> set (snapshot_tags idx)"
    using fst_snapshots_of [OF assms] by (metis map_of_eq_None_iff set_map)
  with resolve_snapshot_correct [OF assms, of tag] show ?thesis
    by (auto simp: has_snapshot_iff split: option.splits)
qed

theorem resolve_snapshot_spec_witness:
  "(resolve_snapshot index_new ''s1'' :: pack_error failure + _) = Inr None \<and>
     \<not> has_snapshot index_new ''s1''"
  using resolve_snapshot_spec [of index_new "''s1''"] index_wf_new by simp

text \<open>\<^verbatim>\<open>for_each_snapshot\<close> and \<^verbatim>\<open>for_each_snapshot_file_count\<close> visit the tagged sets in order until
  the closure breaks; the counter carried along the deltas is the size of each set.\<close>

theorem for_each_snapshot_spec:
  assumes wf: "index_wf idx"
    and f: "\<And>t es st. distinct es \<Longrightarrow> f t es st = g t (entry_content ` set es) st"
  shows "for_each_snapshot idx f st = Inr (visit g (snapshots_of idx) st) \<and>
    for_each_snapshot_file_count idx k st' =
      visit (\<lambda>t C st. k t (of_nat (card C)) st) (snapshots_of idx) st'"
proof
  show "for_each_snapshot idx f st = Inr (visit g (snapshots_of idx) st)"
    using wf by (rule for_each_snapshot_visit) (rule f)
  show "for_each_snapshot_file_count idx k st' =
      visit (\<lambda>t C st. k t (of_nat (card C)) st) (snapshots_of idx) st'"
    using wf by (rule for_each_snapshot_file_count_visit)
qed

theorem for_each_snapshot_spec_witness:
  "for_each_snapshot index_new (\<lambda>t es st. (None :: unit option, st @ [card (entry_content ` set es)])) [] =
     Inr (None, []) \<and>
   for_each_snapshot_file_count index_new (\<lambda>t n st. (None :: unit option, n # st)) [] = (None, [])"
  using for_each_snapshot_spec [of index_new
      "\<lambda>t es st. (None :: unit option, st @ [card (entry_content ` set es)])"
      "\<lambda>t C st. (None, st @ [card C])" "[]" "\<lambda>t n st. (None :: unit option, n # st)" "[]"]
    index_wf_new by simp

end
