(* ===== verification/IndexWire.thy ===== *)
theory IndexWire
  imports IndexInv LegacyPath
begin

text \<open>
  The on-disk index (\<^verbatim>\<open>src/packidx.rs\<close>): the magic and version, the version-3 envelope and
  the legacy versions 1 and 2.  The MessagePack encoding comes from \<^verbatim>\<open>rmp\<close> and \<^verbatim>\<open>rmp_serde\<close>, which
  are not part of the sources: the record \<^verbatim>\<open>codec\<close> holds their encoders and decoders, one
  pair for each type that the index reads or writes.
\<close>

subsection \<open>Wire types\<close>

record legacy_file_handle =
  lfh_path :: handle
  lfh_object :: handle
  lfh_mode :: u32

definition legacy_to_file_handle :: "legacy_file_handle \<Rightarrow> file_handle" where
  "legacy_to_file_handle h =
     \<lparr>fh_path = lfh_path h, fh_object = lfh_object h, fh_metadata = Regular (lfh_mode h)\<rparr>"

definition legacy_to_change_set :: "legacy_file_handle change_set \<Rightarrow> file_handle change_set" where
  "legacy_to_change_set cs =
     \<lparr>cs_added = map legacy_to_file_handle (cs_added cs),
      cs_removed = map legacy_to_file_handle (cs_removed cs)\<rparr>"

type_synonym 'a decoder = "bytes \<Rightarrow> decode_error + ('a \<times> bytes)"

record codec =
  dec_array_len :: "nat decoder"
  enc_array_len :: "nat \<Rightarrow> bytes"
  dec_u64 :: "u64 decoder"
  enc_u64 :: "u64 \<Rightarrow> bytes"
  dec_strings :: "bytes list decoder"
  enc_strings :: "bytes list \<Rightarrow> bytes"
  dec_deltas :: "file_handle change_set list decoder"
  enc_deltas :: "file_handle change_set list \<Rightarrow> bytes"
  dec_legacy_deltas :: "legacy_file_handle change_set list decoder"
  dec_blobs :: "bytes list decoder"
  enc_blobs :: "bytes list \<Rightarrow> bytes"
  dec_legacy_paths :: "legacy_wire_path list decoder"
  dec_checksums :: "checksum list decoder"
  enc_checksums :: "checksum list \<Rightarrow> bytes"
  dec_metadata :: "object_metadata list decoder"
  enc_metadata :: "object_metadata list \<Rightarrow> bytes"
  dec_extensions :: "(u32 \<times> bytes) list decoder"
  enc_extensions :: "(u32 \<times> bytes) list \<Rightarrow> bytes"

definition inverse_codec :: "('a \<Rightarrow> bytes) \<Rightarrow> 'a decoder \<Rightarrow> bool" where
  "inverse_codec enc dec \<longleftrightarrow> (\<forall>x rest. dec (enc x @ rest) = Inr (x, rest))"

text \<open>What the sources rely on: every decoder reads back what its encoder wrote.\<close>

definition codec_ok :: "codec \<Rightarrow> bool" where
  "codec_ok C \<longleftrightarrow>
     inverse_codec (enc_array_len C) (dec_array_len C) \<and>
     inverse_codec (enc_u64 C) (dec_u64 C) \<and>
     inverse_codec (enc_strings C) (dec_strings C) \<and>
     inverse_codec (enc_deltas C) (dec_deltas C) \<and>
     inverse_codec (enc_blobs C) (dec_blobs C) \<and>
     inverse_codec (enc_checksums C) (dec_checksums C) \<and>
     inverse_codec (enc_metadata C) (dec_metadata C) \<and>
     inverse_codec (enc_extensions C) (dec_extensions C)"

record legacy_index =
  li_tags :: "bytes list"
  li_deltas :: "legacy_file_handle change_set list"
  li_paths :: "legacy_wire_path entry_pool"
  li_objects :: "checksum entry_pool"
  li_metadata :: "object_metadata list"

record v3_wire_index =
  wi_tags :: "bytes list"
  wi_deltas :: "file_handle change_set list"
  wi_paths :: "pack_path entry_pool"
  wi_objects :: "checksum entry_pool"
  wi_metadata :: "object_metadata list"

datatype load_mode = LoadFull | OnlySnapshots

subsection \<open>Magic and features\<close>

definition max_version :: u32 where "max_version = 3"
definition write_version :: u32 where "write_version = 3"
definition feature_symlinks :: u64 where "feature_symlinks = push_bit 0 1"
definition supported_required_features :: u64 where
  "supported_required_features = feature_symlinks"

text \<open>\<^verbatim>\<open>read_exact\<close> on a reader that holds the remaining bytes.\<close>

definition read_exact :: "nat \<Rightarrow> bytes \<Rightarrow> (bytes \<times> bytes) pack_result" where
  "read_exact n bs =
     (if length bs < n then Inl (Fail (PackIOError UnexpectedEof)) else Inr (take n bs, drop n bs))"

definition read_magic :: "bytes \<Rightarrow> (u32 \<times> bytes) pack_result" where
  "read_magic rd =
     rbind (read_exact 4 rd) (\<lambda>(magic, rd).
     if magic \<noteq> ''ELFS'' then Inl (Fail BadMagic)
     else rbind (read_exact 4 rd) (\<lambda>(version, rd).
       if \<not> (1 \<le> of_be_bytes version \<and> of_be_bytes version \<le> unat max_version)
       then Inl (Fail (BadPackVersion version))
       else Inr (of_nat (of_be_bytes version), rd)))"

definition write_magic :: bytes where
  "write_magic = ''ELFS'' @ u32_be write_version"

definition required_features :: "pack_index \<Rightarrow> u64" where
  "required_features idx =
     (if list_ex (\<lambda>h. is_symlink (fh_metadata h))
           (concat (map (\<lambda>d. cs_added d @ cs_removed d) (snapshot_deltas idx)))
      then feature_symlinks else 0)"

subsection \<open>Building an index from its parts\<close>

fun enumerate_metadata :: "nat \<Rightarrow> object_metadata list \<Rightarrow> (handle \<times> object_metadata) list \<Rightarrow>
    (handle \<times> object_metadata) list" where
  "enumerate_metadata i [] m = m"
| "enumerate_metadata i (om # oms) m = enumerate_metadata (Suc i) oms (bt_insert (of_nat i) om m)"

definition from_parts ::
    "bytes list \<Rightarrow> file_handle change_set list \<Rightarrow> pack_path entry_pool \<Rightarrow> checksum entry_pool \<Rightarrow>
     object_metadata list \<Rightarrow> pack_index" where
  "from_parts tags deltas paths objects oms =
     \<lparr>snapshot_tags = tags, snapshot_deltas = deltas, path_pool = paths, object_pool = objects,
      object_table = enumerate_metadata 0 oms [], current = []\<rparr>"

definition from_v3 :: "v3_wire_index \<Rightarrow> pack_index" where
  "from_v3 w = from_parts (wi_tags w) (wi_deltas w) (wi_paths w) (wi_objects w) (wi_metadata w)"

fun legacy_error :: "legacy_path_error \<Rightarrow> pack_error" where
  "legacy_error (UnsupportedWindowsUtf16 units) = UnsupportedPathEncoding units"
| "legacy_error (LegacyInvalidLogicalPath e) = InvalidLogicalPath e"

fun decode_legacy_paths ::
    "pack_path entry_pool \<Rightarrow> legacy_wire_path list \<Rightarrow> pack_path entry_pool pack_result" where
  "decode_legacy_paths p [] = Inr p"
| "decode_legacy_paths p (w # ws) =
     rbind (map_err (\<lambda>e. Fail (legacy_error e)) (legacy_decode w)) (\<lambda>path.
       decode_legacy_paths (snd (get_or_insert p path)) ws)"

definition from_legacy :: "legacy_index \<Rightarrow> pack_index pack_result" where
  "from_legacy w =
     rbind (decode_legacy_paths pool_new (pool_entries (li_paths w))) (\<lambda>paths.
     Inr (from_parts (li_tags w) (map legacy_to_change_set (li_deltas w)) paths
            (li_objects w) (li_metadata w)))"

subsection \<open>Parsing and writing\<close>

definition de :: "decode_error + 'a \<Rightarrow> 'a pack_result" where
  "de m = map_err (\<lambda>e. Fail (DeserializeError e)) m"

text \<open>
  The elements of a path pool are binary values that \<^verbatim>\<open>PackPath::deserialize\<close> validates.
\<close>

definition dec_paths :: "codec \<Rightarrow> pack_path list decoder" where
  "dec_paths C rd =
     rbind (dec_blobs C rd) (\<lambda>(blobs, rd).
     rbind (map_err (\<lambda>e. BadEncoding ''path'') (collect pack_path_new blobs)) (\<lambda>paths.
     Inr (paths, rd)))"

definition only_snapshots :: "bytes list \<Rightarrow> pack_index" where
  "only_snapshots tags = index_new\<lparr>snapshot_tags := tags\<rparr>"

definition parse_legacy :: "codec \<Rightarrow> load_mode \<Rightarrow> bytes \<Rightarrow> pack_index pack_result" where
  "parse_legacy C mode rd =
     rbind (de (dec_array_len C rd)) (\<lambda>(fields, rd).
     if fields \<noteq> 5 then Inl (Fail (DeserializeError (LengthMismatch 5)))
     else rbind (de (dec_strings C rd)) (\<lambda>(tags, rd).
     if mode = OnlySnapshots then Inr (only_snapshots tags)
     else rbind (de (dec_legacy_deltas C rd)) (\<lambda>(deltas, rd).
     rbind (de (dec_legacy_paths C rd)) (\<lambda>(paths, rd).
     rbind (de (dec_checksums C rd)) (\<lambda>(objects, rd).
     rbind (de (dec_metadata C rd)) (\<lambda>(oms, rd).
     from_legacy \<lparr>li_tags = tags, li_deltas = deltas, li_paths = pool_deserialize paths,
       li_objects = pool_deserialize objects, li_metadata = oms\<rparr>))))))"

definition parse_v3 :: "codec \<Rightarrow> load_mode \<Rightarrow> bytes \<Rightarrow> pack_index pack_result" where
  "parse_v3 C mode rd =
     rbind (de (dec_array_len C rd)) (\<lambda>(fields, rd).
     if fields < 2 then Inl (Fail (DeserializeError (LengthMismatch 2)))
     else rbind (de (dec_u64 C rd)) (\<lambda>(features, rd).
     rbind (de (dec_strings C rd)) (\<lambda>(tags, rd).
     if mode = OnlySnapshots then Inr (only_snapshots tags)
     else let unsupported = and features (not supported_required_features)
     in if unsupported \<noteq> 0 then Inl (Fail (UnknownRequiredFeatures unsupported))
     else if fields \<noteq> 7 then Inl (Fail (DeserializeError (LengthMismatch 7)))
     else rbind (de (dec_deltas C rd)) (\<lambda>(deltas, rd).
     rbind (de (dec_paths C rd)) (\<lambda>(paths, rd).
     rbind (de (dec_checksums C rd)) (\<lambda>(objects, rd).
     rbind (de (dec_metadata C rd)) (\<lambda>(oms, rd).
     rbind (de (dec_extensions C rd)) (\<lambda>(extensions, rd).
     Inr (from_v3 \<lparr>wi_tags = tags, wi_deltas = deltas, wi_paths = pool_deserialize paths,
       wi_objects = pool_deserialize objects, wi_metadata = oms\<rparr>)))))))))"

definition parse :: "codec \<Rightarrow> bytes \<Rightarrow> pack_index pack_result" where
  "parse C rd =
     rbind (read_magic rd) (\<lambda>(version, rd).
     if version = 1 \<or> version = 2 then parse_legacy C LoadFull rd
     else if version = 3 then parse_v3 C LoadFull rd
     else Inl (Fail (BadPackVersion (u32_be version))))"

definition load_only_snapshots :: "codec \<Rightarrow> bytes \<Rightarrow> bytes list pack_result" where
  "load_only_snapshots C rd =
     rbind (read_magic rd) (\<lambda>(version, rd).
     rbind (if version = 1 \<or> version = 2 then parse_legacy C OnlySnapshots rd
            else if version = 3 then parse_v3 C OnlySnapshots rd
            else Inl (Fail (BadPackVersion (u32_be version)))) (\<lambda>idx.
     Inr (snapshot_tags idx)))"

definition v3_serialize :: "codec \<Rightarrow> pack_index \<Rightarrow> bytes" where
  "v3_serialize C idx =
     enc_array_len C 7 @ enc_u64 C (required_features idx) @ enc_strings C (snapshot_tags idx) @
     enc_deltas C (snapshot_deltas idx) @ enc_blobs C (map as_bytes (pool_serialize (path_pool idx))) @
     enc_checksums C (pool_serialize (object_pool idx)) @
     enc_metadata C (map snd (object_table idx)) @ enc_extensions C []"

definition write_index :: "codec \<Rightarrow> pack_index \<Rightarrow> bytes" where
  "write_index C idx = write_magic @ v3_serialize C idx"

subsection \<open>Round trip\<close>

lemma inverse_codecD: "inverse_codec e d \<Longrightarrow> d (e x @ rest) = Inr (x, rest)"
  by (simp add: inverse_codec_def)

lemma codec_okD:
  assumes "codec_ok C"
  shows "dec_array_len C (enc_array_len C n @ r) = Inr (n, r)"
    and "dec_u64 C (enc_u64 C w @ r) = Inr (w, r)"
    and "dec_strings C (enc_strings C ts @ r) = Inr (ts, r)"
    and "dec_deltas C (enc_deltas C ds @ r) = Inr (ds, r)"
    and "dec_blobs C (enc_blobs C bs @ r) = Inr (bs, r)"
    and "dec_checksums C (enc_checksums C cs @ r) = Inr (cs, r)"
    and "dec_metadata C (enc_metadata C oms @ r) = Inr (oms, r)"
    and "dec_extensions C (enc_extensions C xs @ r) = Inr (xs, r)"
  using assms by (auto simp: codec_ok_def intro: inverse_codecD)

lemma read_magic_write [simp]: "read_magic (write_magic @ rest) = Inr (3, rest)"
  by (simp add: read_magic_def write_magic_def read_exact_def write_version_def max_version_def)

lemma enumerate_metadata_from:
  "i + length oms \<le> 2 ^ 32 \<Longrightarrow> map fst m = map of_nat [0..<i] \<Longrightarrow>
     enumerate_metadata i oms m = m @ zip (map of_nat [i..<i + length oms]) oms"
proof (induction oms arbitrary: i m)
  case Nil
  then show ?case by simp
next
  case (Cons om oms)
  have "k < of_nat i" if "k \<in> set (map fst m)" for k :: handle
    using that Cons.prems of_nat_handle_less_iff by auto
  then have last: "bt_insert (of_nat i) om m = m @ [(of_nat i, om)]" by (rule bt_insert_last)
  have "enumerate_metadata (Suc i) oms (m @ [(of_nat i, om)]) =
      (m @ [(of_nat i, om)]) @ zip (map of_nat [Suc i..<Suc i + length oms]) oms"
    using Cons.prems by (intro Cons.IH) auto
  moreover have "[i..<i + length (om # oms)] = i # [Suc i..<Suc i + length oms]"
    by (simp add: upt_rec)
  ultimately show ?case by (simp add: last)
qed

lemma enumerate_table:
  assumes wf: "index_tables_wf idx"
  shows "enumerate_metadata 0 (map snd (object_table idx)) [] = object_table idx"
proof -
  have keys: "map fst (object_table idx) = map of_nat [0..<length (pool_entries (object_pool idx))]"
    and n: "length (pool_entries (object_pool idx)) \<le> 2 ^ 32"
    using wf by (auto simp: index_tables_wf_def pool_wf_def)
  have len: "length (object_table idx) = length (pool_entries (object_pool idx))"
    using arg_cong [OF keys, of length] by simp
  have "enumerate_metadata 0 (map snd (object_table idx)) [] =
      zip (map of_nat [0..<length (object_table idx)]) (map snd (object_table idx))"
    using enumerate_metadata_from [of 0 "map snd (object_table idx)" "[]"] n len by simp
  also have "\<dots> = zip (map fst (object_table idx)) (map snd (object_table idx))"
    unfolding keys len ..
  finally show ?thesis by (simp add: zip_map_fst_snd)
qed

lemma dec_paths_ok:
  assumes "codec_ok C" "\<forall>p \<in> set ps. pack_path_ok p"
  shows "dec_paths C (enc_blobs C (map as_bytes ps) @ r) = Inr (ps, r)"
proof -
  have "collect pack_path_new (map as_bytes ps) = Inr ps"
    using assms(2) by (induction ps) (auto simp: pack_path_new_ok)
  then show ?thesis by (simp add: dec_paths_def codec_okD [OF assms(1)])
qed

lemma required_features_supported:
  "and (required_features idx) (not supported_required_features) = 0"
  by (simp add: required_features_def supported_required_features_def)

lemma parse_write_index:
  assumes C: "codec_ok C" and wf: "index_tables_wf idx"
    and paths: "\<forall>p \<in> set (pool_entries (path_pool idx)). pack_path_ok p"
  shows "parse C (write_index C idx) = Inr (idx\<lparr>current := []\<rparr>)"
proof -
  have pools: "pool_deserialize (pool_entries (path_pool idx)) = path_pool idx"
    "pool_deserialize (pool_entries (object_pool idx)) = object_pool idx"
    using wf pool_roundtrip by (auto simp: index_tables_wf_def pool_serialize_def)
  have ext: "dec_extensions C (enc_extensions C []) = Inr ([], [])"
    using codec_okD(8) [OF C, of "[]" "[]"] by simp
  show ?thesis
    using enumerate_table [OF wf]
    by (simp add: parse_def write_index_def v3_serialize_def parse_v3_def de_def codec_okD [OF C] ext
        dec_paths_ok [OF C paths] pool_serialize_def required_features_supported from_v3_def
        from_parts_def pools)
qed

text \<open>Listing reads only the envelope: the tables may be damaged or missing.\<close>

lemma load_only_snapshots_prefix:
  assumes "codec_ok C" and "2 \<le> n"
  shows "load_only_snapshots C (write_magic @ enc_array_len C n @ enc_u64 C features @
      enc_strings C tags @ rest) = Inr tags"
  using assms(2) by (simp add: load_only_snapshots_def parse_v3_def de_def codec_okD [OF assms(1)]
      only_snapshots_def)

lemma parse_unknown_features:
  assumes "codec_ok C" and "2 \<le> n" and "and features (not 1) \<noteq> 0"
  shows "parse C (write_magic @ enc_array_len C n @ enc_u64 C features @
      enc_strings C tags @ rest) = Inl (Fail (UnknownRequiredFeatures (and features (not 1))))"
  using assms(2,3) by (simp add: parse_def parse_v3_def de_def codec_okD [OF assms(1)]
      supported_required_features_def feature_symlinks_def)

lemma parse_bad_magic:
  "length rd \<ge> 4 \<Longrightarrow> take 4 rd \<noteq> ''ELFS'' \<Longrightarrow> parse C rd = Inl (Fail BadMagic)"
  by (simp add: parse_def read_magic_def read_exact_def)

lemma parse_bad_version:
  assumes "v < 1 \<or> 3 < v"
  shows "parse C (''ELFS'' @ u32_be v @ rest) = Inl (Fail (BadPackVersion (u32_be v)))"
proof -
  have "unat v < 1 \<or> 3 < unat v"
    using assms by (auto simp: word_less_nat_alt)
  then show ?thesis
    by (auto simp: parse_def read_magic_def read_exact_def max_version_def)
qed

subsection \<open>Every path of a parsed index is a valid logical path\<close>

lemma set_get_or_insert: "set (pool_entries (snd (get_or_insert p k))) \<subseteq> insert k (set (pool_entries p))"
  by (auto simp: get_or_insert_def Let_def split: option.splits)

lemma set_insert_all_subset: "set (pool_entries (insert_all p xs)) \<subseteq> set (pool_entries p) \<union> set xs"
proof (induction xs arbitrary: p)
  case Nil
  then show ?case by simp
next
  case (Cons x xs)
  show ?case using Cons.IH [of "snd (get_or_insert p x)"] set_get_or_insert [of p x] by auto
qed

lemma decode_legacy_paths_ok:
  "decode_legacy_paths p ws = Inr q \<Longrightarrow> \<forall>x \<in> set (pool_entries p). pack_path_ok x \<Longrightarrow>
     \<forall>x \<in> set (pool_entries q). pack_path_ok x"
proof (induction ws arbitrary: p)
  case Nil
  then show ?case by simp
next
  case (Cons w ws)
  then obtain path where w: "legacy_decode w = Inr path"
      "decode_legacy_paths (snd (get_or_insert p path)) ws = Inr q"
    by (auto simp: result_simps)
  moreover have "\<forall>x \<in> set (pool_entries (snd (get_or_insert p path))). pack_path_ok x"
    using Cons.prems(2) legacy_decode_ok [OF w(1)] set_get_or_insert [of p path] by auto
  ultimately show ?case using Cons.IH by blast
qed

lemma dec_paths_sound: "dec_paths C rd = Inr (ps, r) \<Longrightarrow> \<forall>p \<in> set ps. pack_path_ok p"
  by (auto simp: dec_paths_def result_simps collect_Inr_iff pack_path_new_iff
      list_all2_conv_all_nth in_set_conv_nth split: prod.splits)

lemma path_pool_from_parts [simp]: "path_pool (from_parts tags deltas paths objects oms) = paths"
  by (simp add: from_parts_def)

lemma pool_entries_new [simp]: "pool_entries pool_new = []"
  by (simp add: pool_new_def)

lemma pool_deserialize_subset: "set (pool_entries (pool_deserialize xs)) \<subseteq> set xs"
  using set_insert_all_subset [of pool_new xs] by (simp add: pool_deserialize_def)

lemma parse_v3_paths_ok:
  assumes "parse_v3 C LoadFull rd = Inr idx"
  shows "\<forall>p \<in> set (pool_entries (path_pool idx)). pack_path_ok p"
proof -
  obtain ps rd1 rd2 where "dec_paths C rd1 = Inr (ps, rd2)" "path_pool idx = pool_deserialize ps"
    using assms
    by (auto simp: parse_v3_def result_simps de_def Let_def from_v3_def split: prod.splits if_splits)
  then show ?thesis using dec_paths_sound pool_deserialize_subset by fastforce
qed

lemma parse_legacy_paths_ok:
  assumes "parse_legacy C LoadFull rd = Inr idx"
  shows "\<forall>p \<in> set (pool_entries (path_pool idx)). pack_path_ok p"
proof -
  obtain w where "from_legacy w = Inr idx"
    using assms by (auto simp: parse_legacy_def result_simps split: prod.splits if_splits)
  then obtain q where "decode_legacy_paths pool_new (pool_entries (li_paths w)) = Inr q"
      "path_pool idx = q"
    by (auto simp: from_legacy_def result_simps)
  then show ?thesis using decode_legacy_paths_ok by fastforce
qed

lemma parse_paths_ok:
  assumes "parse C rd = Inr idx"
  shows "\<forall>p \<in> set (pool_entries (path_pool idx)). pack_path_ok p"
  using assms parse_v3_paths_ok parse_legacy_paths_ok
  by (fastforce simp: parse_def result_simps split: prod.splits if_splits)

subsection \<open>Legacy handles\<close>

text \<open>
  Handles are positions in the list of legacy paths.  They stay valid when the decoded paths
  are distinct; two spellings of one path are merged, and the handles after them shift.
\<close>

lemma decode_legacy_paths_distinct:
  assumes "list_all2 (\<lambda>w x. legacy_decode w = Inr x) ws ps" and "pool_wf p"
    and "length ps \<le> pool_room p" and "distinct (pool_entries p @ ps)"
  shows "\<exists>q. decode_legacy_paths p ws = Inr q \<and> pool_entries q = pool_entries p @ ps"
  using assms
proof (induction ws ps arbitrary: p rule: list_all2_induct)
  case Nil
  then show ?case by simp
next
  case (Cons w ws x ps)
  let ?p = "snd (get_or_insert p x)"
  have ent: "pool_entries ?p = pool_entries p @ [x]"
    using Cons.prems by (simp add: pool_entries_get_or_insert)
  have "pool_wf ?p" and "length ps \<le> pool_room ?p"
    using Cons.prems pool.wf_ins [of p x] pool.room_ins [of p x] by auto
  from Cons.IH [OF this] Cons.prems(3) Cons.hyps(1) show ?case by (simp add: ent)
qed

lemma from_legacy_handles:
  assumes "list_all2 (\<lambda>w x. legacy_decode w = Inr x) (pool_entries (li_paths w)) ps"
    and "length ps \<le> 2 ^ 32" and "distinct ps" and "i < length ps"
  shows "\<exists>idx. from_legacy w = Inr idx \<and> pool_lookup (path_pool idx) (of_nat i) = Some (ps ! i) \<and>
     snapshot_deltas idx = map legacy_to_change_set (li_deltas w)"
proof -
  obtain q where "decode_legacy_paths pool_new (pool_entries (li_paths w)) = Inr q" "pool_entries q = ps"
    using decode_legacy_paths_distinct [OF assms(1), of pool_new] assms(2,3) by auto
  with assms(2,4) show ?thesis
    by (auto simp: from_legacy_def from_parts_def pool_lookup_def unat_handle)
qed

text \<open>Handle 1 is the path \<^verbatim>\<open>a/b\<close> in the stored index; after loading it is \<^verbatim>\<open>c\<close>.\<close>

definition shifting_index :: legacy_index where
  "shifting_index =
     \<lparr>li_tags = [''s''], li_deltas = [],
      li_paths = pool_from_iter [WireWindows [0x61, 0x5C, 0x62], WireWindows [0x61, 0x2F, 0x62],
        WireWindows [0x63]],
      li_objects = pool_new, li_metadata = []\<rparr>"

lemma shifting_bytes:
  "byte_of 97 = CHR ''a''" "byte_of 98 = CHR ''b''" "byte_of 99 = CHR ''c''"
  "byte_of 47 = CHR ''/''" "byte_of 92 = CHR 0x5C"
  using byte_of_val [of "CHR ''a''"] byte_of_val [of "CHR ''b''"] byte_of_val [of "CHR ''c''"]
    byte_of_val [of "CHR ''/''"] byte_of_val [of "CHR 0x5C"]
  by (simp_all add: byte_val_def)

lemma shifting_paths:
  "legacy_decode (WireWindows [0x61, 0x5C, 0x62]) = Inr (PackPath ''a/b'')"
  "legacy_decode (WireWindows [0x61, 0x2F, 0x62]) = Inr (PackPath ''a/b'')"
  "legacy_decode (WireWindows [0x63]) = Inr (PackPath ''c'')"
  by (simp_all add: decode_windows_def utf8_encode_str_def utf8_encode_def utf8_nats_def shifting_bytes
      has_windows_prefix_def backslash_to_slash_def pack_path_new_def validate_def)

lemma from_legacy_shifts_handles:
  "map_option legacy_decode (pool_lookup (li_paths shifting_index) 1) = Some (Inr (PackPath ''a/b'')) \<and>
   (case from_legacy shifting_index of
      Inr idx \<Rightarrow> pool_lookup (path_pool idx) 1 = Some (PackPath ''c'') | Inl _ \<Rightarrow> False)"
  by (simp add: shifting_index_def pool_from_iter_def get_or_insert_def pool_get_def pool_new_def
      pool_lookup_def from_legacy_def from_parts_def shifting_paths del: legacy_decode.simps)

subsection \<open>A codec\<close>

text \<open>A self-delimiting encoding with a unary length, which has the assumed round trips.\<close>

fun unary_dec :: "nat decoder" where
  "unary_dec [] = Inl (BadEncoding [])"
| "unary_dec (b # bs) =
     (if b = CHR ''0'' then Inr (0, bs) else rbind (unary_dec bs) (\<lambda>(n, r). Inr (Suc n, r)))"

definition unary_enc :: "nat \<Rightarrow> bytes" where
  "unary_enc n = replicate n (CHR ''1'') @ ''0''"

fun repeat_dec :: "'a decoder \<Rightarrow> nat \<Rightarrow> 'a list decoder" where
  "repeat_dec d 0 bs = Inr ([], bs)"
| "repeat_dec d (Suc n) bs =
     rbind (d bs) (\<lambda>(x, bs). rbind (repeat_dec d n bs) (\<lambda>(xs, bs). Inr (x # xs, bs)))"

definition list_enc :: "('a \<Rightarrow> bytes) \<Rightarrow> 'a list \<Rightarrow> bytes" where
  "list_enc e xs = unary_enc (length xs) @ concat (map e xs)"

definition list_dec :: "'a decoder \<Rightarrow> 'a list decoder" where
  "list_dec d bs = rbind (unary_dec bs) (\<lambda>(n, bs). repeat_dec d n bs)"

definition iso_dec :: "('a \<Rightarrow> 'b) \<Rightarrow> 'a decoder \<Rightarrow> 'b decoder" where
  "iso_dec g d bs = rbind (d bs) (\<lambda>(x, r). Inr (g x, r))"

lemma unary_codec: "inverse_codec unary_enc unary_dec"
proof -
  have "unary_dec (unary_enc n @ r) = Inr (n, r)" for n r
    by (induction n) (simp_all add: unary_enc_def)
  then show ?thesis by (simp add: inverse_codec_def)
qed

lemma list_codec:
  assumes "inverse_codec e d"
  shows "inverse_codec (list_enc e) (list_dec d)"
proof -
  have "repeat_dec d (length xs) (concat (map e xs) @ r) = Inr (xs, r)" for xs r
    by (induction xs) (simp_all add: inverse_codecD [OF assms])
  then show ?thesis
    by (simp add: inverse_codec_def list_enc_def list_dec_def inverse_codecD [OF unary_codec])
qed

lemma iso_codec:
  assumes "inverse_codec e d" and "\<And>x. g (f x) = x"
  shows "inverse_codec (\<lambda>x. e (f x)) (iso_dec g d)"
  using assms by (simp add: inverse_codec_def iso_dec_def)

definition nats_enc :: "nat list \<Rightarrow> bytes" where "nats_enc = list_enc unary_enc"
definition nats_dec :: "nat list decoder" where "nats_dec = list_dec unary_dec"

lemma nats_codec: "inverse_codec nats_enc nats_dec"
  unfolding nats_enc_def nats_dec_def by (rule list_codec [OF unary_codec])

definition enum_encoding :: "nat \<Rightarrow> symlink_target_encoding" where
  "enum_encoding n = (if n = 0 then PortableUtf8 else if n = 1 then UnixBytes else WindowsUtf16Le)"

definition enum_kind :: "nat \<Rightarrow> symlink_target_kind" where
  "enum_kind n = (if n = 0 then TargetFile else if n = 1 then TargetDirectory else TargetUnknown)"

fun handle_nats :: "file_handle \<Rightarrow> nat list" where
  "handle_nats fh =
     [unat (fh_path fh), unat (fh_object fh)] @
     (case fh_metadata fh of Regular m \<Rightarrow> [unat m]
      | Symlink e k \<Rightarrow> [byte_val (encoding_tag e), byte_val (kind_tag k)])"

definition nats_handle :: "nat list \<Rightarrow> file_handle" where
  "nats_handle ns =
     \<lparr>fh_path = of_nat (ns ! 0), fh_object = of_nat (ns ! 1),
      fh_metadata = (if length ns = 3 then Regular (of_nat (ns ! 2))
                     else Symlink (enum_encoding (ns ! 2)) (enum_kind (ns ! 3)))\<rparr>"

lemma nats_handle_nats: "nats_handle (handle_nats fh) = fh"
proof -
  have "enum_encoding (byte_val (encoding_tag e)) = e" for e
    by (cases e) (simp_all add: enum_encoding_def byte_val_def)
  moreover have "enum_kind (byte_val (kind_tag k)) = k" for k
    by (cases k) (simp_all add: enum_kind_def byte_val_def)
  ultimately show ?thesis
    by (cases fh) (simp add: nats_handle_def split: entry_metadata.splits)
qed

definition unary_sample :: codec where
  "unary_sample =
     \<lparr>dec_array_len = unary_dec, enc_array_len = unary_enc,
      dec_u64 = iso_dec of_nat unary_dec, enc_u64 = (\<lambda>w. unary_enc (unat w)),
      dec_strings = list_dec (iso_dec (map char_of) nats_dec),
      enc_strings = list_enc (\<lambda>s. nats_enc (map of_char s)),
      dec_deltas = list_dec (iso_dec (\<lambda>xss. \<lparr>cs_added = xss ! 0, cs_removed = xss ! 1\<rparr>)
        (list_dec (list_dec (iso_dec nats_handle nats_dec)))),
      enc_deltas = list_enc (\<lambda>d. list_enc (list_enc (\<lambda>h. nats_enc (handle_nats h)))
        [cs_added d, cs_removed d]),
      dec_legacy_deltas = (\<lambda>_. Inl (BadEncoding [])),
      dec_blobs = list_dec (iso_dec (map char_of) nats_dec),
      enc_blobs = list_enc (\<lambda>s. nats_enc (map of_char s)),
      dec_legacy_paths = (\<lambda>_. Inl (BadEncoding [])),
      dec_checksums = list_dec (iso_dec (map char_of) nats_dec),
      enc_checksums = list_enc (\<lambda>s. nats_enc (map of_char s)),
      dec_metadata = list_dec (iso_dec (\<lambda>ns. \<lparr>om_offset = of_nat (ns ! 0), om_size = of_nat (ns ! 1)\<rparr>)
        nats_dec),
      enc_metadata = list_enc (\<lambda>om. nats_enc [unat (om_offset om), unat (om_size om)]),
      dec_extensions = list_dec (iso_dec (\<lambda>ns. (of_nat (hd ns), map char_of (tl ns))) nats_dec),
      enc_extensions = list_enc (\<lambda>x. nats_enc (unat (fst x) # map of_char (snd x)))\<rparr>"

lemma unary_sample_ok: "codec_ok unary_sample"
proof -
  have "inverse_codec (\<lambda>s. nats_enc (map of_char (s :: bytes))) (iso_dec (map char_of) nats_dec)"
    by (intro iso_codec nats_codec) (simp add: map_idI)
  note strings = list_codec [OF this]
  have "inverse_codec (\<lambda>h. nats_enc (handle_nats h)) (iso_dec nats_handle nats_dec)"
    by (intro iso_codec nats_codec nats_handle_nats)
  note hs = list_codec [OF list_codec [OF this]]
  have "inverse_codec (\<lambda>d. list_enc (list_enc (\<lambda>h. nats_enc (handle_nats h))) [cs_added d, cs_removed d])
      (iso_dec (\<lambda>xss. \<lparr>cs_added = xss ! 0, cs_removed = xss ! 1\<rparr>)
        (list_dec (list_dec (iso_dec nats_handle nats_dec))))"
    by (rule iso_codec [OF hs]) simp
  note deltas = list_codec [OF this]
  have "inverse_codec (\<lambda>om. nats_enc [unat (om_offset om), unat (om_size om)])
      (iso_dec (\<lambda>ns. \<lparr>om_offset = of_nat (ns ! 0), om_size = of_nat (ns ! 1)\<rparr>) nats_dec)"
    by (rule iso_codec [OF nats_codec]) simp
  note oms = list_codec [OF this]
  have "inverse_codec (\<lambda>x. nats_enc (unat (fst x) # map of_char (snd x)))
      (iso_dec (\<lambda>ns. (of_nat (hd ns), map char_of (tl ns))) nats_dec)"
    by (rule iso_codec [OF nats_codec]) (simp add: map_idI)
  note exts = list_codec [OF this]
  have "inverse_codec (\<lambda>w :: u64. unary_enc (unat w)) (iso_dec of_nat unary_dec)"
    by (rule iso_codec [OF unary_codec]) simp
  then show ?thesis
    using strings deltas oms exts unary_codec by (simp add: codec_ok_def unary_sample_def)
qed

subsection \<open>Properties\<close>

text \<open>C17: An index whose paths are valid reads back as itself (its builder state reset) from what
  \<^verbatim>\<open>write\<close> wrote, given a MessagePack library whose decoders invert its encoders.\<close>

theorem index_round_trip:
  assumes "codec_ok C" "index_tables_wf idx" "\<forall>p \<in> set (pool_entries (path_pool idx)). pack_path_ok p"
  shows "parse C (write_index C idx) = Inr (idx\<lparr>current := []\<rparr>)"
  using assms by (rule parse_write_index)

theorem index_round_trip_witness:
  "parse unary_sample (write_index unary_sample index_new) = Inr index_new"
  using index_round_trip [OF unary_sample_ok, of index_new] index_wf_new
  by (simp add: index_new_def index_wf_def)

text \<open>C25: Whatever the bytes and the decoders, every path of a successfully parsed index (version 1,
  2 or 3) is a valid logical path: relative, no empty, \<^verbatim>\<open>.\<close> or \<^verbatim>\<open>..\<close> component.\<close>

theorem parsed_paths_valid:
  assumes "parse C rd = Inr idx" and "p \<in> set (pool_entries (path_pool idx))"
  shows "pack_path_ok p"
  using assms parse_paths_ok by blast

definition one_path_index :: pack_index where
  "one_path_index = index_new\<lparr>path_pool := pool_from_iter [PackPath ''a/b'']\<rparr>"

theorem parsed_paths_valid_witness: "pack_path_ok (PackPath ''a/b'')"
proof (rule parsed_paths_valid)
  have p: "pool_from_iter [PackPath ''a/b''] = pool_deserialize [PackPath ''a/b'']"
    by (simp add: pool_from_iter_def pool_deserialize_def)
  have e: "pool_entries (path_pool one_path_index) = [PackPath ''a/b'']"
    using pool_deserialize_wf(2) [of "[PackPath ''a/b'']"] by (simp add: one_path_index_def p)
  then show "PackPath ''a/b'' \<in> set (pool_entries (path_pool (one_path_index\<lparr>current := []\<rparr>)))"
    by simp
  have "index_tables_wf one_path_index"
    using pool_deserialize_wf(1) [of "[PackPath ''a/b'']"]
    by (simp add: one_path_index_def index_tables_wf_def p) (simp add: index_new_def)
  moreover have "pack_path_ok (PackPath ''a/b'')"
    by (simp add: pack_path_ok_def components_def component_ok_def)
  ultimately show "parse unary_sample (write_index unary_sample one_path_index) =
      Inr (one_path_index\<lparr>current := []\<rparr>)"
    using parse_write_index [OF unary_sample_ok] e by simp
qed

text \<open>Listing the snapshots of a version 3 index reads the envelope only (what follows the tags
  may be anything), while loading it refuses unknown required features before any table.\<close>

theorem envelope_first:
  assumes "codec_ok C" and "2 \<le> n"
  shows "load_only_snapshots C (write_magic @ enc_array_len C n @ enc_u64 C features @
      enc_strings C tags @ rest) = Inr tags \<and>
    (and features (not 1) \<noteq> 0 \<longrightarrow>
      parse C (write_magic @ enc_array_len C n @ enc_u64 C features @ enc_strings C tags @ rest) =
        Inl (Fail (UnknownRequiredFeatures (and features (not 1)))))"
  using load_only_snapshots_prefix [OF assms] parse_unknown_features [OF assms] by blast

theorem envelope_first_witness:
  "load_only_snapshots unary_sample (write_magic @ enc_array_len unary_sample 2 @
     enc_u64 unary_sample 6 @ enc_strings unary_sample [''s''] @ ''??'') = Inr [''s''] \<and>
   parse unary_sample (write_magic @ enc_array_len unary_sample 2 @
     enc_u64 unary_sample 6 @ enc_strings unary_sample [''s''] @ ''??'') =
       Inl (Fail (UnknownRequiredFeatures 6))"
  using envelope_first [OF unary_sample_ok, of 2 6 "[''s'']" "''??''"] by simp

text \<open>When the legacy paths decode to distinct logical paths, path handle \<^verbatim>\<open>i\<close> of a legacy
  index is the \<^verbatim>\<open>i\<close>-th decoded path, and the deltas keep their handles.\<close>

theorem legacy_handles_spec:
  assumes "list_all2 (\<lambda>w x. legacy_decode w = Inr x) (pool_entries (li_paths w)) ps"
    and "length ps \<le> 2 ^ 32" and "distinct ps" and "i < length ps"
  shows "\<exists>idx. from_legacy w = Inr idx \<and> pool_lookup (path_pool idx) (of_nat i) = Some (ps ! i) \<and>
     snapshot_deltas idx = map legacy_to_change_set (li_deltas w)"
  using assms by (rule from_legacy_handles)

definition unix_legacy :: legacy_index where
  "unix_legacy = \<lparr>li_tags = [''s''], li_deltas = [],
     li_paths = pool_from_iter [WireUnix ''a/b'', WireUnix ''c''], li_objects = pool_new, li_metadata = []\<rparr>"

theorem legacy_handles_spec_witness:
  "\<exists>idx. from_legacy unix_legacy = Inr idx \<and> pool_lookup (path_pool idx) 1 = Some (PackPath ''c'')"
proof -
  have "list_all2 (\<lambda>w x. legacy_decode w = Inr x) (pool_entries (li_paths unix_legacy))
      [PackPath ''a/b'', PackPath ''c'']"
    by (simp add: unix_legacy_def pool_from_iter_def get_or_insert_def pool_get_def pool_new_def
        pack_path_new_def validate_def)
  from legacy_handles_spec [OF this, of 1] show ?thesis by auto
qed

end
