(* ===== verification/SnapshotIdentity.thy ===== *)
theory SnapshotIdentity
  imports IndexInv
begin

text \<open>
  The byte stream hashed for a snapshot's identity (\<^verbatim>\<open>compute_snapshot_checksum\<close> of
  \<^verbatim>\<open>src/packidx.rs\<close>): it does not depend on the order of the entries nor on where the objects
  lie, and it determines the set of paths, checksums and metadata.
\<close>

definition identity_ok :: "file_entry \<Rightarrow> bool" where
  "identity_ok e \<longleftrightarrow> length (as_bytes (fe_path e)) < 2 ^ 64 \<and> length (fe_checksum e) = 20"

lemma encoding_tag_inj: "encoding_tag a = encoding_tag b \<longleftrightarrow> a = b"
  by (cases a; cases b) auto

lemma kind_tag_inj: "kind_tag a = kind_tag b \<longleftrightarrow> a = b"
  by (cases a; cases b) auto

lemma u64_of_nat_inj: "m < 2 ^ 64 \<Longrightarrow> n < 2 ^ 64 \<Longrightarrow> (of_nat m :: u64) = of_nat n \<longleftrightarrow> m = n"
  by (simp add: word_of_nat_eq_iff take_bit_nat_eq_self)

lemma entry_identity_decodable:
  assumes ok: "identity_ok e" "identity_ok e'"
    and eq: "entry_identity e @ r = entry_identity e' @ r'"
  shows "entry_content e = entry_content e' \<and> r = r'"
proof -
  let ?p = "as_bytes (fe_path e)" and ?q = "as_bytes (fe_path e')"
  let ?t = "\<lambda>e. case fe_metadata e of
        Regular mode \<Rightarrow> CHR 0x00 # fe_checksum e @ u32_be mode
      | Symlink enc kind \<Rightarrow> CHR 0x01 # fe_checksum e @ [encoding_tag enc, kind_tag kind]"
  have 1: "u64_be (of_nat (length ?p)) = u64_be (of_nat (length ?q)) \<and>
      ?p @ ?t e @ r = ?q @ ?t e' @ r'"
    using eq by (simp add: entry_identity_def)
  then have "length ?p = length ?q"
    using ok by (simp add: u64_be_inj u64_of_nat_inj identity_ok_def)
  with 1 have 2: "?p = ?q" and 3: "?t e @ r = ?t e' @ r'" by auto
  from 2 have p: "fe_path e = fe_path e'" by (simp add: pack_path.expand)
  have c: "length (fe_checksum e) = length (fe_checksum e')" using ok by (simp add: identity_ok_def)
  from 3 c p show ?thesis
    by (auto simp: entry_content_def encoding_tag_inj kind_tag_inj u32_be_inj
        split: entry_metadata.splits)
qed

lemma entry_identities_decodable:
  "length es = length es' \<Longrightarrow> list_all identity_ok es \<Longrightarrow> list_all identity_ok es' \<Longrightarrow>
     concat (map entry_identity es) = concat (map entry_identity es') \<Longrightarrow>
     map entry_content es = map entry_content es'"
proof (induction es es' rule: list_induct2)
  case Nil
  then show ?case by simp
next
  case (Cons e es e' es')
  then show ?case using entry_identity_decodable [of e e'] by auto
qed

lemma entry_identity_content:
  "entry_content e = entry_content e' \<Longrightarrow> entry_identity e = entry_identity e'"
  by (auto simp: entry_content_def entry_identity_def split: entry_metadata.splits)

definition identity_input_ok :: "file_entry list \<Rightarrow> bool" where
  "identity_input_ok es \<longleftrightarrow>
     list_all identity_ok es \<and> distinct (map fe_path es) \<and> length es < 2 ^ 64"

lemma sort_content_unique:
  assumes "distinct (map fe_path es)" "distinct (map fe_path es')"
    and "entry_content ` set es = entry_content ` set es'"
  shows "map entry_content (sort_key fe_path es) = map entry_content (sort_key fe_path es')"
proof -
  let ?xs = "map entry_content (sort_key fe_path es)" and ?ys = "map entry_content (sort_key fe_path es')"
  have fst: "map fst (map entry_content zs) = map fe_path zs" for zs
    by (simp add: entry_content_def)
  have dx: "distinct (map fst ?xs)" and dy: "distinct (map fst ?ys)"
    using assms(1,2) by (simp_all only: fst distinct_map distinct_sort set_sort)
  have sx: "sorted (map fst ?xs)" and sy: "sorted (map fst ?ys)"
    by (simp_all only: fst sorted_sort_key)
  have set: "set ?xs = set ?ys" using assms(3) by simp
  have "inj_on fst (set ?xs \<union> set ?ys)"
    unfolding set [symmetric] Un_absorb using dx unfolding distinct_map by blast
  from map_sorted_distinct_set_unique [OF this sx dx sy dy set] show ?thesis .
qed

lemma map_via_content:
  "map entry_content xs = map entry_content ys \<Longrightarrow> map entry_identity xs = map entry_identity ys"
proof (induction xs arbitrary: ys)
  case Nil
  then show ?case by simp
next
  case (Cons x xs)
  then obtain y zs where "ys = y # zs" "entry_content x = entry_content y"
      "map entry_content xs = map entry_content zs"
    by (cases ys) auto
  with Cons.IH [of zs] entry_identity_content [of x y] show ?case by simp
qed

lemma identity_stream_iff:
  assumes "identity_input_ok es" "identity_input_ok es'"
  shows "identity_stream es = identity_stream es' \<longleftrightarrow>
    entry_content ` set es = entry_content ` set es'"
proof
  assume "entry_content ` set es = entry_content ` set es'"
  with assms have m: "map entry_content (sort_key fe_path es) = map entry_content (sort_key fe_path es')"
    by (intro sort_content_unique) (auto simp: identity_input_ok_def)
  then have "length es = length es'" by (metis length_map length_sort)
  moreover have "map entry_identity (sort_key fe_path es) = map entry_identity (sort_key fe_path es')"
    using m by (rule map_via_content)
  ultimately show "identity_stream es = identity_stream es'"
    by (simp add: identity_stream_def del: map_eq_conv)
next
  assume "identity_stream es = identity_stream es'"
  then have *: "u64_be (of_nat (length es)) = u64_be (of_nat (length es'))"
    "concat (map entry_identity (sort_key fe_path es)) = concat (map entry_identity (sort_key fe_path es'))"
    by (simp_all add: identity_stream_def)
  then have "length es = length es'"
    using assms by (simp add: u64_be_inj u64_of_nat_inj identity_input_ok_def)
  with * assms have "map entry_content (sort_key fe_path es) = map entry_content (sort_key fe_path es')"
    by (intro entry_identities_decodable) (auto simp: identity_input_ok_def list_all_iff)
  from arg_cong [OF this, of set] show "entry_content ` set es = entry_content ` set es'"
    by simp
qed

text \<open>C18: The byte stream hashed for a snapshot is the same for two lists of entries exactly when
  they hold the same set of (path, checksum, metadata): neither the order of the entries nor
  the place of the objects matters, and no two different snapshots share a stream.\<close>

theorem snapshot_identity_spec:
  assumes "identity_input_ok es" "identity_input_ok es'"
  shows "identity_stream es = identity_stream es' \<longleftrightarrow>
    entry_content ` set es = entry_content ` set es'"
  using assms by (rule identity_stream_iff)

theorem snapshot_identity_spec_witness:
  "identity_stream sample_entries = identity_stream (rev sample_entries)"
proof -
  have "identity_input_ok sample_entries" "identity_input_ok (rev sample_entries)"
    by (simp_all add: identity_input_ok_def sample_entries_def identity_ok_def)
  from snapshot_identity_spec [OF this] show ?thesis by simp
qed

end
