(* ===== verification/Ids.thy ===== *)
theory Ids
  imports Utf8
begin

text \<open>
  Pack and snapshot identifiers (\<^verbatim>\<open>src/repo/pack.rs\<close>).  A \<^verbatim>\<open>String\<close> is its UTF-8 bytes.  The
  Unicode general category comes from another crate: its first letter is the parameter \<^verbatim>\<open>cat\<close>.
\<close>

datatype id_error = BadFormat bytes | InvalidPack bytes | InvalidSnapshot bytes

datatype pack_id = Pack (pack_name: bytes)

definition pack_extra_id_chars :: bytes where
  "pack_extra_id_chars = ''-_/''"

definition forbidden_snapshot_chars :: bytes where
  "forbidden_snapshot_chars = CHR 0x5C # CHR 0x22 # '':<>|?*''"

definition dot_pack_index_extension :: bytes where
  "dot_pack_index_extension = ''.pack.idx''"

definition loose_prefix :: bytes where "loose_prefix = ''loose/''"

definition is_windows_device_name :: "bytes \<Rightarrow> bool" where
  "is_windows_device_name component =
     (let stem = (case split_once (CHR ''.'') component of Some (s, _) \<Rightarrow> s | None \<Rightarrow> component);
          upper = to_ascii_uppercase stem
      in upper \<in> {''CON'', ''PRN'', ''AUX'', ''NUL''} \<or>
         length upper = 4 \<and> take 3 upper \<in> {''COM'', ''LPT''} \<and>
         byte_val CHR ''1'' \<le> byte_val (upper ! 3) \<and> byte_val (upper ! 3) \<le> byte_val CHR ''9'')"

definition snapshot_char_ok :: "(nat \<Rightarrow> byte) \<Rightarrow> nat \<Rightarrow> bool" where
  "snapshot_char_ok cat c =
     (if c = byte_val CHR '' '' then True
      else if c \<in> byte_val ` set forbidden_snapshot_chars then False
      else cat c \<in> set ''LMNPS'')"

definition component_refused :: "bool \<Rightarrow> bytes \<Rightarrow> bool" where
  "component_refused is_final component \<longleftrightarrow>
     component = [] \<or> component = ''.'' \<or> component = ''..'' \<or>
     hd component = CHR '' '' \<or> last component \<in> set '' .'' \<or>
     (\<not> is_final \<and> strip_suffix dot_pack_index_extension (to_ascii_lowercase component) \<noteq> None) \<or>
     (CHR ''.'' \<in> set component \<and> is_windows_device_name component)"

fun check_tag_components :: "(nat \<Rightarrow> byte) \<Rightarrow> bytes list \<Rightarrow> bool" where
  "check_tag_components cat [] = True"
| "check_tag_components cat (c # cs) =
     (if component_refused (cs = []) c then False
      else if \<not> list_all (snapshot_char_ok cat) (str_chars c) then False
      else check_tag_components cat cs)"

definition snapshot_tag_valid :: "(nat \<Rightarrow> byte) \<Rightarrow> bytes \<Rightarrow> bool" where
  "snapshot_tag_valid cat tag =
     (if tag = [] then False else check_tag_components cat (split_on (CHR ''/'') tag))"

definition pack_char_ok :: "nat \<Rightarrow> bool" where
  "pack_char_ok c \<longleftrightarrow>
     c < 128 \<and> (is_ascii_alphanumeric (byte_of c) \<or> byte_of c \<in> set pack_extra_id_chars)"

definition is_valid_regular :: "bytes \<Rightarrow> bool" where
  "is_valid_regular s \<longleftrightarrow>
     s \<noteq> [] \<and> strip_prefix loose_prefix s = None \<and>
     list_all (\<lambda>component. component \<noteq> [] \<and> list_all pack_char_ok (str_chars component))
       (split_on (CHR ''/'') s)"

definition from_index_path :: "bytes \<Rightarrow> pack_id option" where
  "from_index_path p = map_option Pack (strip_suffix dot_pack_index_extension p)"

definition for_loose_snapshot :: "(nat \<Rightarrow> byte) \<Rightarrow> bytes \<Rightarrow> id_error + pack_id" where
  "for_loose_snapshot cat tag =
     (if \<not> snapshot_tag_valid cat tag then Inl (InvalidSnapshot tag)
      else Inr (Pack (loose_prefix @ tag)))"

fun validate_pack_id :: "(nat \<Rightarrow> byte) \<Rightarrow> pack_id \<Rightarrow> id_error + unit" where
  "validate_pack_id cat (Pack name) =
     (case strip_prefix loose_prefix name of
        Some tag \<Rightarrow> if snapshot_tag_valid cat tag then Inr () else Inl (InvalidSnapshot tag)
      | None \<Rightarrow> if is_valid_regular name then Inr () else Inl (InvalidPack name))"

fun validate_regular :: "pack_id \<Rightarrow> id_error + unit" where
  "validate_regular (Pack name) = (if is_valid_regular name then Inr () else Inl (InvalidPack name))"

definition pack_id_from_str :: "(nat \<Rightarrow> byte) \<Rightarrow> bytes \<Rightarrow> id_error + pack_id" where
  "pack_id_from_str cat s = rbind (validate_pack_id cat (Pack s)) (\<lambda>_. Inr (Pack s))"

fun pack_id_display :: "pack_id \<Rightarrow> bytes" where
  "pack_id_display (Pack s) = s"

record snapshot_id =
  sid_pack :: pack_id
  sid_tag :: bytes

definition snapshot_id_new :: "(nat \<Rightarrow> byte) \<Rightarrow> pack_id \<Rightarrow> bytes \<Rightarrow> id_error + snapshot_id" where
  "snapshot_id_new cat pack tag =
     (if \<not> snapshot_tag_valid cat tag then Inl (InvalidSnapshot tag)
      else Inr \<lparr>sid_pack = pack, sid_tag = tag\<rparr>)"

definition snapshot_id_display :: "snapshot_id \<Rightarrow> bytes" where
  "snapshot_id_display s = pack_id_display (sid_pack s) @ CHR '':'' # sid_tag s"

definition snapshot_id_from_str :: "(nat \<Rightarrow> byte) \<Rightarrow> bytes \<Rightarrow> id_error + snapshot_id" where
  "snapshot_id_from_str cat s =
     (case rsplit_once (CHR '':'') s of
        Some (pack, snapshot) \<Rightarrow>
          if pack = [] then Inl (InvalidPack pack)
          else rbind (pack_id_from_str cat pack) (\<lambda>p. snapshot_id_new cat p snapshot)
      | None \<Rightarrow> Inl (BadFormat s))"

subsection \<open>Splitting UTF-8 at an ASCII byte\<close>

lemma split_on_prefix:
  "c \<notin> set xs \<Longrightarrow> split_on c (xs @ ys) = (xs @ hd (split_on c ys)) # tl (split_on c ys)"
  by (induction xs) auto

lemma split_on_utf8:
  "\<forall>u \<in> set us. is_scalar u \<Longrightarrow> byte_val c < 128 \<Longrightarrow>
     split_on c (utf8_encode_str us) = map utf8_encode_str (split_on (byte_val c) us)"
proof (induction us)
  case Nil
  then show ?case by (simp add: utf8_encode_str_def)
next
  case (Cons u us)
  then have IH: "split_on c (utf8_encode_str us) = map utf8_encode_str (split_on (byte_val c) us)" by simp
  have cons: "utf8_encode_str (u # vs) = utf8_encode u @ utf8_encode_str vs" for vs
    by (simp add: utf8_encode_str_def)
  show ?case
  proof (cases "u = byte_val c")
    case True
    then have "utf8_encode u = [c]" using Cons.prems(2) utf8_encode_ascii_char [of u] by simp
    with True IH show ?thesis by (simp add: cons) (simp add: utf8_encode_str_def)
  next
    case False
    then have "c \<notin> set (utf8_encode u)" using utf8_encode_ascii [of u c] Cons.prems by auto
    with False IH show ?thesis
      by (simp add: cons split_on_prefix hd_map map_tl)
  qed
qed

lemma ascii_in_utf8:
  assumes "\<forall>u \<in> set us. is_scalar u" and "c \<in> set (utf8_encode_str us)" and "byte_val c < 128"
  shows "byte_val c \<in> set us"
proof -
  obtain u where "u \<in> set us" "c \<in> set (utf8_encode u)"
    using assms(2) by (auto simp: utf8_encode_str_def)
  with assms(1,3) show ?thesis using utf8_encode_ascii [of u c] by auto
qed

lemma scalar_pieces:
  assumes "\<forall>u \<in> set us. is_scalar u" and "vs \<in> set (split_on c us)"
  shows "\<forall>u \<in> set vs. is_scalar u"
  using assms set_split_on [OF assms(2)] by auto

lemma str_chars_encode: "\<forall>u \<in> set us. is_scalar u \<Longrightarrow> str_chars (utf8_encode_str us) = us"
  by (simp add: str_chars_def from_utf8_encode_str)

lemma ascii_string:
  assumes "list_all (\<lambda>b. byte_val b < 128) s"
  shows "is_utf8 s" and "str_chars s = map byte_val s"
proof -
  have sc: "\<forall>u \<in> set (map byte_val s). is_scalar u"
    using assms by (auto simp: list_all_iff is_scalar_def)
  have "utf8_encode_str (map byte_val s) = s"
    using assms by (induction s) (auto simp: utf8_encode_str_def utf8_encode_ascii_char)
  with sc show "is_utf8 s" and "str_chars s = map byte_val s"
    using str_chars_encode [OF sc] by (auto simp: is_utf8_iff intro!: exI [where x = "map byte_val s"])
qed

text \<open>A property of the characters of every component holds of every character but the slash.\<close>

lemma utf8_components:
  assumes "is_utf8 s" and "\<forall>c \<in> set (split_on (CHR ''/'') s). list_all P (str_chars c)"
  shows "\<forall>c \<in> set (split_on (CHR ''/'') s). \<forall>b \<in> set c. byte_val b < 128 \<longrightarrow> P (byte_val b)"
proof (intro ballI impI)
  fix c b assume c: "c \<in> set (split_on (CHR ''/'') s)" and b: "b \<in> set c" "byte_val b < 128"
  obtain us where us: "\<forall>u \<in> set us. is_scalar u" "s = utf8_encode_str us"
    using assms(1) by (auto simp: is_utf8_iff)
  have "split_on (CHR ''/'') s = map utf8_encode_str (split_on (byte_val (CHR ''/'')) us)"
    using us split_on_utf8 [of us "CHR ''/''"] by (simp add: byte_val_def)
  with c obtain vs where vs: "vs \<in> set (split_on (byte_val (CHR ''/'')) us)" "c = utf8_encode_str vs"
    by auto
  have sc: "\<forall>u \<in> set vs. is_scalar u" by (rule scalar_pieces [OF us(1) vs(1)])
  then have "str_chars c = vs" using vs(2) by (simp add: str_chars_encode)
  moreover have "byte_val b \<in> set vs" using ascii_in_utf8 [OF sc] b vs(2) by simp
  ultimately show "P (byte_val b)" using assms(2) c by (auto simp: list_all_iff)
qed

subsection \<open>Properties of identifiers\<close>

lemma component_accepted:
  "\<not> component_refused f c \<Longrightarrow> c \<noteq> [] \<and> c \<noteq> ''.'' \<and> c \<noteq> ''..''"
  unfolding component_refused_def by blast

lemma check_tag_components_all:
  "check_tag_components cat cs \<Longrightarrow>
     \<forall>c \<in> set cs. c \<noteq> [] \<and> c \<noteq> ''.'' \<and> c \<noteq> ''..'' \<and> list_all (snapshot_char_ok cat) (str_chars c)"
proof (induction cs)
  case Nil
  then show ?case by simp
next
  case (Cons c cs)
  then have "\<not> component_refused (cs = []) c" "list_all (snapshot_char_ok cat) (str_chars c)"
      "check_tag_components cat cs"
    by (simp_all split: if_splits)
  with Cons.IH component_accepted [of "cs = []" c] show ?case by simp
qed

lemma forbidden_ascii: "b \<in> set forbidden_snapshot_chars \<Longrightarrow> byte_val b < 128 \<and> b \<noteq> CHR '' ''"
  by (auto simp: forbidden_snapshot_chars_def byte_val_def)

lemma tag_no_forbidden:
  assumes "is_utf8 tag" "snapshot_tag_valid cat tag" "b \<in> set forbidden_snapshot_chars"
  shows "b \<notin> set tag"
proof
  assume b: "b \<in> set tag"
  have comps: "check_tag_components cat (split_on (CHR ''/'') tag)"
    using assms(2) by (simp add: snapshot_tag_valid_def split: if_splits)
  have "b \<noteq> CHR ''/''" using assms(3) by (auto simp: forbidden_snapshot_chars_def)
  with b obtain c where c: "c \<in> set (split_on (CHR ''/'') tag)" "b \<in> set c"
    using set_join_with [of "CHR ''/''" "split_on (CHR ''/'') tag"] by auto
  have "\<forall>c \<in> set (split_on (CHR ''/'') tag). list_all (snapshot_char_ok cat) (str_chars c)"
    using check_tag_components_all [OF comps] by blast
  from utf8_components [OF assms(1) this] c have "snapshot_char_ok cat (byte_val b)"
    using forbidden_ascii [OF assms(3)] by blast
  with forbidden_ascii [OF assms(3)] assms(3) show False
    by (auto simp: snapshot_char_ok_def byte_val_inj split: if_splits)
qed

lemma validate_pack_id_nonempty: "validate_pack_id cat (Pack name) = Inr () \<Longrightarrow> name \<noteq> []"
  by (auto simp: is_valid_regular_def loose_prefix_def split: option.splits if_splits)

lemma regular_components:
  assumes "is_utf8 name" "is_valid_regular name" "c \<in> set (split_on (CHR ''/'') name)"
  shows "c \<noteq> [] \<and> (\<forall>b \<in> set c. byte_val b < 128 \<longrightarrow> pack_char_ok (byte_val b))"
proof -
  have "\<forall>c \<in> set (split_on (CHR ''/'') name). list_all pack_char_ok (str_chars c)"
    using assms(2) by (auto simp: is_valid_regular_def list_all_iff)
  from utf8_components [OF assms(1) this] assms show ?thesis
    by (auto simp: is_valid_regular_def list_all_iff)
qed

lemma pack_char_ok_dot: "\<not> pack_char_ok (byte_val (CHR ''.''))"
  by (simp add: pack_char_ok_def is_ascii_alphanumeric_def is_ascii_alphabetic_def ascii_upper_def
      ascii_lower_def is_ascii_digit_def pack_extra_id_chars_def) (simp add: byte_val_def)

text \<open>A validated pack identifier, regular or loose, names a path of proper components: none is
  empty, \<^verbatim>\<open>.\<close> or \<^verbatim>\<open>..\<close>, so the files derived from it stay under the packs directory.\<close>

theorem pack_id_components:
  assumes "is_utf8 name" and "validate_pack_id cat (Pack name) = Inr ()"
    and c: "c \<in> set (split_on (CHR ''/'') name)"
  shows "c \<noteq> [] \<and> c \<noteq> ''.'' \<and> c \<noteq> ''..''"
proof (cases "strip_prefix loose_prefix name")
  case None
  then have reg: "is_valid_regular name" using assms(2) by (simp split: if_splits)
  have "byte_val (CHR ''.'') < 128" by (simp add: byte_val_def)
  with regular_components [OF assms(1) reg c] pack_char_ok_dot show ?thesis by auto
next
  case (Some tag)
  then have name: "name = ''loose'' @ CHR ''/'' # tag" and "snapshot_tag_valid cat tag"
    using assms(2) by (auto simp: strip_prefix_iff loose_prefix_def split: if_splits)
  then have "check_tag_components cat (split_on (CHR ''/'') tag)"
    by (simp add: snapshot_tag_valid_def split: if_splits)
  moreover have "split_on (CHR ''/'') name = ''loose'' # split_on (CHR ''/'') tag"
    unfolding name by (rule split_on_append_sep) simp
  ultimately show ?thesis using c check_tag_components_all [of cat "split_on (CHR ''/'') tag"] by auto
qed

lemma snapshot_id_parses:
  assumes "is_utf8 (sid_tag i)" "snapshot_tag_valid cat (sid_tag i)"
    and "validate_pack_id cat (sid_pack i) = Inr ()"
  shows "snapshot_id_from_str cat (snapshot_id_display i) = Inr i"
proof -
  obtain name where name: "sid_pack i = Pack name" by (cases "sid_pack i")
  have "CHR '':'' \<notin> set (sid_tag i)"
    using tag_no_forbidden [OF assms(1,2), of "CHR '':''"] by (simp add: forbidden_snapshot_chars_def)
  then have "rsplit_once (CHR '':'') (snapshot_id_display i) = Some (name, sid_tag i)"
    using name by (simp add: rsplit_once_Some_iff snapshot_id_display_def)
  with assms(2,3) name validate_pack_id_nonempty [of cat name] show ?thesis
    by (simp add: snapshot_id_from_str_def pack_id_from_str_def snapshot_id_new_def)
qed

lemma snapshot_id_display_parsed: "snapshot_id_from_str cat s = Inr j \<Longrightarrow> snapshot_id_display j = s"
  by (auto simp: snapshot_id_from_str_def pack_id_from_str_def snapshot_id_new_def result_simps
      snapshot_id_display_def rsplit_once_Some_iff split: option.splits if_splits)

text \<open>The canonical form \<^verbatim>\<open>pack:tag\<close> of a valid identifier parses back to it, and whatever parses
  is displayed as it was written.\<close>

theorem snapshot_id_round_trip:
  assumes "is_utf8 (sid_tag i)" "snapshot_tag_valid cat (sid_tag i)"
    and "validate_pack_id cat (sid_pack i) = Inr ()"
  shows "snapshot_id_from_str cat (snapshot_id_display i) = Inr i \<and>
    (\<forall>s j. snapshot_id_from_str cat s = Inr j \<longrightarrow> snapshot_id_display j = s)"
  using snapshot_id_parses [OF assms] snapshot_id_display_parsed by blast

definition all_letters :: "nat \<Rightarrow> byte" where "all_letters c = CHR ''L''"

lemma sample_id_valid:
  "is_utf8 ''v1.2/x''" "snapshot_tag_valid all_letters ''v1.2/x''"
  "validate_pack_id all_letters (Pack ''a/b-1'') = Inr ()"
proof -
  have a: "list_all (\<lambda>b. byte_val b < 128) ''v1.2/x''" "list_all (\<lambda>b. byte_val b < 128) ''v1.2''"
    "list_all (\<lambda>b. byte_val b < 128) ''x''" "list_all (\<lambda>b. byte_val b < 128) ''a''"
    "list_all (\<lambda>b. byte_val b < 128) ''b-1''"
    by (simp_all add: byte_val_def)
  show "is_utf8 ''v1.2/x''" by (rule ascii_string(1) [OF a(1)])
  show "snapshot_tag_valid all_letters ''v1.2/x''"
    by code_simp
  show "validate_pack_id all_letters (Pack ''a/b-1'') = Inr ()"
    by code_simp
qed

theorem snapshot_id_round_trip_witness:
  "snapshot_id_from_str all_letters ''a/b-1:v1.2/x'' = Inr \<lparr>sid_pack = Pack ''a/b-1'', sid_tag = ''v1.2/x''\<rparr>"
  using snapshot_id_round_trip [of "\<lparr>sid_pack = Pack ''a/b-1'', sid_tag = ''v1.2/x''\<rparr>" all_letters]
    sample_id_valid by (simp add: snapshot_id_display_def)

theorem pack_id_components_witness: "''a'' \<noteq> [] \<and> ''a'' \<noteq> ''.'' \<and> ''a'' \<noteq> ''..''"
proof (rule pack_id_components [of "''a/b-1''" all_letters])
  show "is_utf8 ''a/b-1''" by (rule ascii_string(1)) (simp add: byte_val_def)
  show "validate_pack_id all_letters (Pack ''a/b-1'') = Inr ()" by (rule sample_id_valid)
qed simp

end
