(* ===== verification/FileSystem.thy ===== *)
theory FileSystem
  imports Utf8
begin

text \<open>
  The operations of \<^verbatim>\<open>std::fs\<close> that the sources call, on a Unix file system: a path is a list of
  components below a root, a node a file with its data and permission bits, a directory or a
  symbolic link.  Resolution follows symbolic links (40 at most, as Linux does).  The process
  owns every file and is not privileged: reading needs the owner's read bit, truncating the
  write bit.  Failures of the medium are not modelled.
\<close>

type_synonym path = "bytes list"

datatype node = FileNode bytes u32 | DirNode | LinkNode bytes

type_synonym fs = "(path \<times> node) list"

text \<open>An operation returns an error or a value, and leaves a file system in either case.\<close>

type_synonym ('e, 'a) fs_op = "fs \<Rightarrow> ('e + 'a) \<times> fs"

definition ret :: "'a \<Rightarrow> ('e, 'a) fs_op" where "ret x fs = (Inr x, fs)"
definition err :: "'e \<Rightarrow> ('e, 'a) fs_op" where "err e fs = (Inl e, fs)"

definition andThen :: "('e, 'a) fs_op \<Rightarrow> ('a \<Rightarrow> ('e, 'b) fs_op) \<Rightarrow> ('e, 'b) fs_op" where
  "andThen m f fs = (case m fs of (Inl e, fs') \<Rightarrow> (Inl e, fs') | (Inr x, fs') \<Rightarrow> f x fs')"

definition lift_err :: "('e \<Rightarrow> 'f) \<Rightarrow> ('e, 'a) fs_op \<Rightarrow> ('f, 'a) fs_op" where
  "lift_err g m fs = (case m fs of (r, fs') \<Rightarrow> (map_err g r, fs'))"

definition liftr :: "'e + 'a \<Rightarrow> ('e, 'a) fs_op" where "liftr r fs = (r, fs)"

text \<open>A read-only operation.\<close>

definition query :: "(fs \<Rightarrow> 'e + 'a) \<Rightarrow> ('e, 'a) fs_op" where "query q fs = (q fs, fs)"

text \<open>Running an operation for its effect, ignoring an error (\<^verbatim>\<open>let _ = ...\<close>).\<close>

definition attempt :: "('e, 'a) fs_op \<Rightarrow> ('f, unit) fs_op" where
  "attempt m fs = (Inr (), snd (m fs))"

fun each :: "('a \<Rightarrow> ('e, unit) fs_op) \<Rightarrow> 'a list \<Rightarrow> ('e, unit) fs_op" where
  "each f [] = ret ()"
| "each f (x # xs) = andThen (f x) (\<lambda>_. each f xs)"

lemma each_cong [fundef_cong]:
  "xs = ys \<Longrightarrow> (\<And>x. x \<in> set ys \<Longrightarrow> f x = g x) \<Longrightarrow> each f xs = each g ys"
proof (induction xs arbitrary: ys)
  case Nil
  then show ?case by simp
next
  case (Cons x xs)
  then show ?case by (cases ys) auto
qed

subsection \<open>Nodes and resolution\<close>

definition fs_get :: "fs \<Rightarrow> path \<Rightarrow> node option" where
  "fs_get fs p = (if p = [] then Some DirNode else map_of fs p)"

definition fs_put :: "path \<Rightarrow> node \<Rightarrow> fs \<Rightarrow> fs" where
  "fs_put p n fs = (p, n) # filter (\<lambda>(q, _). q \<noteq> p) fs"

definition fs_del :: "path \<Rightarrow> fs \<Rightarrow> fs" where
  "fs_del p fs = filter (\<lambda>(q, _). q \<noteq> p) fs"

definition has_children :: "fs \<Rightarrow> path \<Rightarrow> bool" where
  "has_children fs p \<longleftrightarrow> list_ex (\<lambda>(q, _). strict_prefix p q) fs"

definition target_components :: "bytes \<Rightarrow> bytes list" where
  "target_components t = filter (\<lambda>c. c \<noteq> [] \<and> c \<noteq> ''.'') (split_on (CHR ''/'') t)"

definition link_start :: "path \<Rightarrow> bytes \<Rightarrow> path" where
  "link_start dir t = (if t \<noteq> [] \<and> hd t = CHR ''/'' then [] else dir)"

function walk :: "nat \<Rightarrow> fs \<Rightarrow> bool \<Rightarrow> path \<Rightarrow> path \<Rightarrow> io_error + path" where
  "walk links fs follow cur [] = Inr cur"
| "walk links fs follow cur (c # cs) =
     (if c = ''..'' then walk links fs follow (butlast cur) cs
      else case fs_get fs (cur @ [c]) of
        None \<Rightarrow> if cs = [] then Inr (cur @ [c]) else Inl NotFound
      | Some DirNode \<Rightarrow> walk links fs follow (cur @ [c]) cs
      | Some (FileNode d m) \<Rightarrow> if cs = [] then Inr (cur @ [c]) else Inl NotADirectory
      | Some (LinkNode t) \<Rightarrow>
          if cs = [] \<and> \<not> follow then Inr (cur @ [c])
          else if links = 0 then Inl OtherIo
          else walk (links - 1) fs follow (link_start cur t) (target_components t @ cs))"
  by pat_completeness auto
termination by (relation "measures [\<lambda>(l, fs, f, c, cs). l, \<lambda>(l, fs, f, c, cs). length cs]") auto

definition max_links :: nat where "max_links = 40"

definition resolve_entry :: "fs \<Rightarrow> path \<Rightarrow> io_error + path" where
  "resolve_entry fs p = walk max_links fs False [] p"

definition resolve_target :: "fs \<Rightarrow> path \<Rightarrow> io_error + path" where
  "resolve_target fs p = walk max_links fs True [] p"

subsection \<open>The calls\<close>

definition symlink_metadata :: "fs \<Rightarrow> path \<Rightarrow> io_error + node" where
  "symlink_metadata fs p = rbind (resolve_entry fs p) (\<lambda>q. ok_or NotFound (fs_get fs q))"

definition metadata :: "fs \<Rightarrow> path \<Rightarrow> io_error + node" where
  "metadata fs p = rbind (resolve_target fs p) (\<lambda>q. ok_or NotFound (fs_get fs q))"

fun is_dir_node :: "node \<Rightarrow> bool" where
  "is_dir_node DirNode = True"
| "is_dir_node (FileNode d m) = False"
| "is_dir_node (LinkNode t) = False"

fun is_file_node :: "node \<Rightarrow> bool" where
  "is_file_node (FileNode d m) = True"
| "is_file_node DirNode = False"
| "is_file_node (LinkNode t) = False"

fun is_link_node :: "node \<Rightarrow> bool" where
  "is_link_node (LinkNode t) = True"
| "is_link_node DirNode = False"
| "is_link_node (FileNode d m) = False"

definition path_is_dir :: "fs \<Rightarrow> path \<Rightarrow> bool" where
  "path_is_dir fs p = (case metadata fs p of Inr n \<Rightarrow> is_dir_node n | Inl _ \<Rightarrow> False)"

definition path_is_file :: "fs \<Rightarrow> path \<Rightarrow> bool" where
  "path_is_file fs p = (case metadata fs p of Inr n \<Rightarrow> is_file_node n | Inl _ \<Rightarrow> False)"

definition path_exists :: "fs \<Rightarrow> path \<Rightarrow> bool" where
  "path_exists fs p = is_ok (metadata fs p)"

definition owner_read :: u32 where "owner_read = 0x100"
definition owner_write :: u32 where "owner_write = 0x80"
definition permission_bits :: u32 where "permission_bits = 0xFFF"
definition regular_type :: u32 where "regular_type = 0x8000"
definition created_mode :: u32 where "created_mode = 0x1A4"

definition fs_read :: "fs \<Rightarrow> path \<Rightarrow> io_error + bytes" where
  "fs_read fs p = rbind (metadata fs p) (\<lambda>n. case n of
      FileNode d m \<Rightarrow> if and m owner_read = 0 then Inl PermissionDenied else Inr d
    | DirNode \<Rightarrow> Inl IsADirectory
    | LinkNode t \<Rightarrow> Inl OtherIo)"

definition read_link :: "fs \<Rightarrow> path \<Rightarrow> io_error + bytes" where
  "read_link fs p = rbind (symlink_metadata fs p) (\<lambda>n. case n of
      LinkNode t \<Rightarrow> Inr t | FileNode d m \<Rightarrow> Inl InvalidInput | DirNode \<Rightarrow> Inl InvalidInput)"

text \<open>\<^verbatim>\<open>File::create\<close>: returns the resolved path, which stands for the open file.\<close>

definition fs_create :: "u32 \<Rightarrow> path \<Rightarrow> (io_error, path) fs_op" where
  "fs_create mode p fs =
     (case resolve_target fs p of
        Inl e \<Rightarrow> (Inl e, fs)
      | Inr q \<Rightarrow>
          (case fs_get fs q of
             None \<Rightarrow> (Inr q, fs_put q (FileNode [] mode) fs)
           | Some (FileNode d m) \<Rightarrow>
               if and m owner_write = 0 then (Inl PermissionDenied, fs)
               else (Inr q, fs_put q (FileNode [] m) fs)
           | Some DirNode \<Rightarrow> (Inl IsADirectory, fs)
           | Some (LinkNode t) \<Rightarrow> (Inl OtherIo, fs)))"

definition fs_append :: "path \<Rightarrow> bytes \<Rightarrow> ('e, unit) fs_op" where
  "fs_append q data fs =
     (Inr (), case fs_get fs q of Some (FileNode d m) \<Rightarrow> fs_put q (FileNode (d @ data) m) fs | _ \<Rightarrow> fs)"

definition fs_set_mode :: "path \<Rightarrow> u32 \<Rightarrow> ('e, unit) fs_op" where
  "fs_set_mode q mode fs =
     (Inr (), case fs_get fs q of
        Some (FileNode d m) \<Rightarrow> fs_put q (FileNode d (and mode permission_bits)) fs | _ \<Rightarrow> fs)"

definition create_dir :: "path \<Rightarrow> (io_error, unit) fs_op" where
  "create_dir p fs =
     (case resolve_entry fs p of
        Inl e \<Rightarrow> (Inl e, fs)
      | Inr q \<Rightarrow> (case fs_get fs q of
          Some n \<Rightarrow> (Inl AlreadyExists, fs)
        | None \<Rightarrow> (Inr (), fs_put q DirNode fs)))"

definition mkdir_or_dir :: "path \<Rightarrow> (io_error, unit) fs_op" where
  "mkdir_or_dir p fs =
     (case create_dir p fs of
        (Inr _, fs') \<Rightarrow> (Inr (), fs')
      | (Inl e, fs') \<Rightarrow> if path_is_dir fs' p then (Inr (), fs') else (Inl e, fs'))"

function create_dir_all :: "path \<Rightarrow> (io_error, unit) fs_op" where
  "create_dir_all p fs =
     (if p = [] then (Inr (), fs)
      else case create_dir p fs of
        (Inr _, fs') \<Rightarrow> (Inr (), fs')
      | (Inl e, fs') \<Rightarrow>
          if e = NotFound
          then andThen (create_dir_all (butlast p)) (\<lambda>_. mkdir_or_dir p) fs'
          else if path_is_dir fs' p then (Inr (), fs') else (Inl e, fs'))"
  by pat_completeness auto
termination by (relation "measure (\<lambda>(p, fs). length p)") auto

declare create_dir_all.simps [simp del]

definition fs_rename :: "path \<Rightarrow> path \<Rightarrow> (io_error, unit) fs_op" where
  "fs_rename a b fs =
     (case (resolve_entry fs a, resolve_entry fs b) of
        (Inr qa, Inr qb) \<Rightarrow>
          (case fs_get fs qa of
             None \<Rightarrow> (Inl NotFound, fs)
           | Some n \<Rightarrow>
               if qa = qb then (Inr (), fs)
               else if is_dir_node n then
                 (if prefix qa qb then (Inl InvalidInput, fs)
                  else case fs_get fs qb of
                    Some m \<Rightarrow>
                      if \<not> is_dir_node m then (Inl NotADirectory, fs)
                      else if has_children fs qb then (Inl DirectoryNotEmpty, fs)
                      else (Inr (), map (\<lambda>(r, x). if prefix qa r then (qb @ drop (length qa) r, x) else (r, x))
                              (fs_del qb fs))
                  | None \<Rightarrow> (Inr (), map (\<lambda>(r, x). if prefix qa r then (qb @ drop (length qa) r, x) else (r, x)) fs))
               else (case fs_get fs qb of
                    Some DirNode \<Rightarrow> (Inl IsADirectory, fs)
                  | _ \<Rightarrow> (Inr (), fs_put qb n (fs_del qa fs))))
      | (Inl e, _) \<Rightarrow> (Inl e, fs)
      | (_, Inl e) \<Rightarrow> (Inl e, fs))"

definition remove_file :: "path \<Rightarrow> (io_error, unit) fs_op" where
  "remove_file p fs =
     (case resolve_entry fs p of
        Inl e \<Rightarrow> (Inl e, fs)
      | Inr q \<Rightarrow> (case fs_get fs q of
          None \<Rightarrow> (Inl NotFound, fs)
        | Some n \<Rightarrow> if is_dir_node n then (Inl IsADirectory, fs) else (Inr (), fs_del q fs)))"

definition remove_dir :: "path \<Rightarrow> (io_error, unit) fs_op" where
  "remove_dir p fs =
     (case resolve_entry fs p of
        Inl e \<Rightarrow> (Inl e, fs)
      | Inr q \<Rightarrow> (case fs_get fs q of
          None \<Rightarrow> (Inl NotFound, fs)
        | Some n \<Rightarrow>
            if \<not> is_dir_node n then (Inl NotADirectory, fs)
            else if has_children fs q then (Inl DirectoryNotEmpty, fs)
            else if q = [] then (Inl OtherIo, fs)
            else (Inr (), fs_del q fs)))"

definition remove_dir_all :: "path \<Rightarrow> (io_error, unit) fs_op" where
  "remove_dir_all p fs =
     (case resolve_entry fs p of
        Inl e \<Rightarrow> (Inl e, fs)
      | Inr q \<Rightarrow> (case fs_get fs q of
          None \<Rightarrow> (Inl NotFound, fs)
        | Some (FileNode d m) \<Rightarrow> (Inl NotADirectory, fs)
        | Some (LinkNode t) \<Rightarrow> (Inr (), fs_del q fs)
        | Some DirNode \<Rightarrow>
            if q = [] then (Inl OtherIo, fs) else (Inr (), filter (\<lambda>(r, _). \<not> prefix q r) fs)))"

definition unix_symlink :: "bytes \<Rightarrow> path \<Rightarrow> (io_error, unit) fs_op" where
  "unix_symlink target p fs =
     (if target = [] then (Inl NotFound, fs)
      else case resolve_entry fs p of
        Inl e \<Rightarrow> (Inl e, fs)
      | Inr q \<Rightarrow> (case fs_get fs q of
          Some n \<Rightarrow> (Inl AlreadyExists, fs)
        | None \<Rightarrow> (Inr (), fs_put q (LinkNode target) fs)))"

end
