(* ===== verification/External.thy ===== *)
theory External
  imports Ids
begin

text \<open>
  Interfaces of crates whose code is not part of the sources: \<^verbatim>\<open>hex\<close> and \<^verbatim>\<open>url\<close>.  Each is a
  record of the functions that the sources call; \<^verbatim>\<open>hex_ok\<close> states the documented behaviour of
  \<^verbatim>\<open>hex\<close> that lemmas rely on, and \<^verbatim>\<open>plain_hex\<close> is an instance that has it.  A URL is its
  serialisation.
\<close>

record hex_crate =
  hex_encode :: "bytes \<Rightarrow> bytes"
  hex_decode :: "bytes \<Rightarrow> bytes option"

type_synonym url = bytes

record url_crate =
  url_parse :: "bytes \<Rightarrow> url option"
  url_join :: "url \<Rightarrow> bytes \<Rightarrow> url option"
  url_path :: "url \<Rightarrow> bytes"
  url_segments :: "url \<Rightarrow> bytes list option"
  url_set_path :: "url \<Rightarrow> bytes \<Rightarrow> url"

definition is_hex_lower :: "byte \<Rightarrow> bool" where
  "is_hex_lower c \<longleftrightarrow> is_ascii_digit c \<or> (97 \<le> byte_val c \<and> byte_val c \<le> 102)"

definition is_hex_digit :: "byte \<Rightarrow> bool" where
  "is_hex_digit c \<longleftrightarrow> is_hex_lower c \<or> (65 \<le> byte_val c \<and> byte_val c \<le> 70)"

text \<open>Encoding gives two lower-case digits per byte, byte by byte; decoding inverts it and accepts only digits.\<close>

definition hex_ok :: "hex_crate \<Rightarrow> bool" where
  "hex_ok H \<longleftrightarrow>
     (\<forall>b. hex_decode H (hex_encode H b) = Some b \<and> length (hex_encode H b) = 2 * length b \<and>
        list_all is_hex_lower (hex_encode H b)) \<and>
     (\<forall>a b. hex_encode H (a @ b) = hex_encode H a @ hex_encode H b) \<and>
     (\<forall>s b. hex_decode H s = Some b \<longrightarrow> list_all is_hex_digit s \<and> length s = 2 * length b)"

subsection \<open>An instance\<close>

definition hex_char :: "nat \<Rightarrow> byte" where
  "hex_char n = byte_of (if n < 10 then 48 + n else 87 + n)"

definition hex_char_val :: "byte \<Rightarrow> nat option" where
  "hex_char_val c =
     (let v = byte_val c in
      if 48 \<le> v \<and> v \<le> 57 then Some (v - 48)
      else if 97 \<le> v \<and> v \<le> 102 then Some (v - 87)
      else if 65 \<le> v \<and> v \<le> 70 then Some (v - 55) else None)"

definition plain_encode :: "bytes \<Rightarrow> bytes" where
  "plain_encode bs = concat (map (\<lambda>b. [hex_char (byte_val b div 16), hex_char (byte_val b mod 16)]) bs)"

fun plain_decode :: "bytes \<Rightarrow> bytes option" where
  "plain_decode [] = Some []"
| "plain_decode [c] = None"
| "plain_decode (a # b # r) =
     (case (hex_char_val a, hex_char_val b, plain_decode r) of
        (Some x, Some y, Some bs) \<Rightarrow> Some (byte_of (16 * x + y) # bs)
      | _ \<Rightarrow> None)"

definition plain_hex :: hex_crate where
  "plain_hex = \<lparr>hex_encode = plain_encode, hex_decode = plain_decode\<rparr>"

lemma byte_val_hex_char: "n < 16 \<Longrightarrow> byte_val (hex_char n) = (if n < 10 then 48 + n else 87 + n)"
  by (simp add: hex_char_def)

lemma hex_char_round: "n < 16 \<Longrightarrow> hex_char_val (hex_char n) = Some n"
  by (simp add: hex_char_val_def byte_val_hex_char)

lemma is_hex_lower_char: "n < 16 \<Longrightarrow> is_hex_lower (hex_char n)"
  by (simp add: is_hex_lower_def is_ascii_digit_def byte_val_hex_char)

lemma hex_char_val_digit: "hex_char_val c = Some n \<Longrightarrow> is_hex_digit c"
  by (auto simp: hex_char_val_def is_hex_digit_def is_hex_lower_def is_ascii_digit_def Let_def
      split: if_splits)

lemma byte_digits: "byte_val b div 16 < 16 \<and> byte_val b mod 16 < 16"
  using byte_val_less [of b] by (simp add: less_mult_imp_div_less)

lemma plain_decode_encode: "plain_decode (plain_encode bs) = Some bs"
proof (induction bs)
  case Nil
  then show ?case by (simp add: plain_encode_def)
next
  case (Cons b bs)
  have "16 * (byte_val b div 16) + byte_val b mod 16 = byte_val b" by simp
  with Cons byte_digits [of b] show ?case by (simp add: plain_encode_def hex_char_round)
qed

lemma plain_decode_digits:
  "plain_decode s = Some b \<Longrightarrow> list_all is_hex_digit s \<and> length s = 2 * length b"
proof (induction s arbitrary: b rule: plain_decode.induct)
  case (3 x y r)
  then show ?case by (auto split: option.splits dest: hex_char_val_digit)
qed auto

lemma plain_hex_ok: "hex_ok plain_hex"
proof -
  have "length (plain_encode bs) = 2 * length bs" for bs
    by (induction bs) (simp_all add: plain_encode_def)
  moreover have "list_all is_hex_lower (plain_encode bs)" for bs
    by (induction bs) (simp_all add: plain_encode_def is_hex_lower_char byte_digits)
  ultimately show ?thesis
    by (simp add: hex_ok_def plain_hex_def plain_decode_encode plain_decode_digits)
      (simp add: plain_encode_def)
qed

lemma hex_okD:
  assumes "hex_ok H"
  shows "hex_decode H (hex_encode H b) = Some b" and "length (hex_encode H b) = 2 * length b"
    and "list_all is_hex_lower (hex_encode H b)"
    and "hex_decode H s = Some c \<Longrightarrow> list_all is_hex_digit s"
    and "hex_decode H s = Some c \<Longrightarrow> length s = 2 * length c"
    and "hex_encode H (x @ y) = hex_encode H x @ hex_encode H y"
  using assms by (auto simp: hex_ok_def)

end
