(* ===== verification/Esi.thy ===== *)
theory Esi
  imports External PackIdx
begin

text \<open>
  \<^verbatim>\<open>src/esi.rs\<close>: remote indexes as documents that keep every byte of their lines.  The type of
  the errors has one constructor per message of the source.  \<^verbatim>\<open>Url\<close> and \<^verbatim>\<open>hex\<close> are the
  interfaces of \<^verbatim>\<open>External\<close>.
\<close>

datatype meta_version = V1 | V2

fun meta_str :: "meta_version \<Rightarrow> bytes" where
  "meta_str V1 = ''v1''"
| "meta_str V2 = ''v2''"

datatype format_error =
    UnsupportedMeta bytes
  | MissingPackSize bytes
  | MissingIndexSize bytes
  | MissingHeaders
  | DuplicateUrl bytes nat
  | BadPackUrl bytes
  | BadPackUrlOn bytes nat
  | UrlExists bytes
  | UrlMissing bytes
  | BadUtf8 nat
  | ExpectedKey bytes nat
  | TooManyValues nat
  | ExpectedValue bytes nat
  | ExpectedValues nat nat nat
  | BadChecksumFormat bytes nat
  | BadChecksumLength bytes nat
  | BadSize bytes bytes nat
  | BadIndexUrl bytes
  | EmptyField bytes
  | FieldWhitespace bytes

definition meta_from_str :: "bytes \<Rightarrow> format_error + meta_version" where
  "meta_from_str s =
     (if s = ''v1'' then Inr V1 else if s = ''v2'' then Inr V2 else Inl (UnsupportedMeta s))"

record esi_entry =
  en_index_checksum :: checksum
  en_pack_checksum :: checksum
  en_url :: bytes
  en_pack_size :: "u64 option"
  en_index_size :: "u64 option"

definition validate_field_value :: "bytes \<Rightarrow> bytes \<Rightarrow> format_error + unit" where
  "validate_field_value v description =
     (if v = [] then Inl (EmptyField description)
      else if list_ex is_whitespace (str_chars v) then Inl (FieldWhitespace description)
      else Inr ())"

definition validate_index_url :: "url_crate \<Rightarrow> bytes \<Rightarrow> format_error + url" where
  "validate_index_url U v =
     rbind (validate_field_value v ''elfshaker index URL'') (\<lambda>_. ok_or (BadIndexUrl v) (url_parse U v))"

abbreviation "tab \<equiv> CHR 0x09"
abbreviation "newline \<equiv> CHR 0x0A"
abbreviation "carriage \<equiv> CHR 0x0D"

definition canonical_line :: "hex_crate \<Rightarrow> esi_entry \<Rightarrow> meta_version \<Rightarrow> format_error + bytes" where
  "canonical_line H e meta =
     rbind (validate_field_value (en_url e) ''pack URL'') (\<lambda>_.
     let line = hex_encode H (en_index_checksum e) @ tab # hex_encode H (en_pack_checksum e) @
           tab # en_url e
     in if meta = V2
        then rbind (ok_or (MissingPackSize (en_url e)) (en_pack_size e)) (\<lambda>pack_size.
             rbind (ok_or (MissingIndexSize (en_url e)) (en_index_size e)) (\<lambda>index_size.
             Inr (line @ tab # show_nat (unat pack_size) @ tab # show_nat (unat index_size))))
        else Inr line)"

datatype line_kind = MetaLine | UrlLine | BlankLine | EntryLine esi_entry

record esi_line =
  ln_content :: bytes
  ln_ending :: bytes
  ln_kind :: line_kind

record document =
  doc_lines :: "esi_line list"
  doc_meta :: meta_version
  doc_url :: bytes

definition document_create :: "url_crate \<Rightarrow> meta_version \<Rightarrow> bytes \<Rightarrow> format_error + document" where
  "document_create U meta url =
     rbind (validate_index_url U url) (\<lambda>_.
     Inr \<lparr>doc_lines = [
            \<lparr>ln_content = ''meta'' @ tab # meta_str meta, ln_ending = [newline], ln_kind = MetaLine\<rparr>,
            \<lparr>ln_content = ''url'' @ tab # url, ln_ending = [newline], ln_kind = UrlLine\<rparr>],
          doc_meta = meta, doc_url = url\<rparr>)"

subsection \<open>Parsing\<close>

definition cut_line :: "bytes \<Rightarrow> esi_line" where
  "cut_line l =
     (if l \<noteq> [] \<and> last l = carriage
      then \<lparr>ln_content = butlast l, ln_ending = [carriage, newline], ln_kind = BlankLine\<rparr>
      else \<lparr>ln_content = l, ln_ending = [newline], ln_kind = BlankLine\<rparr>)"

function split_lines :: "bytes \<Rightarrow> esi_line list" where
  "split_lines bs =
     (case split_once newline bs of
        Some (l, rest) \<Rightarrow> cut_line l # split_lines rest
      | None \<Rightarrow>
          if bs = [] then [] else [\<lparr>ln_content = bs, ln_ending = [], ln_kind = BlankLine\<rparr>])"
  by pat_completeness auto
termination by (relation "measure length") (auto simp: split_once_Some_iff)

declare split_lines.simps [simp del]

definition is_blank_byte :: "byte \<Rightarrow> bool" where
  "is_blank_byte b \<longleftrightarrow> b = CHR '' '' \<or> b = tab"

fun split_by :: "('a \<Rightarrow> bool) \<Rightarrow> 'a list \<Rightarrow> 'a list list" where
  "split_by p [] = [[]]"
| "split_by p (x # xs) =
     (if p x then [] # split_by p xs else (x # hd (split_by p xs)) # tl (split_by p xs))"

text \<open>The separators are ASCII, so cutting the bytes of a string is cutting the string.\<close>

definition line_fields :: "bytes \<Rightarrow> nat \<Rightarrow> format_error + bytes list" where
  "line_fields content line_no =
     (if is_utf8 content then Inr (filter (\<lambda>f. f \<noteq> []) (split_by is_blank_byte content))
      else Inl (BadUtf8 line_no))"

definition parse_header :: "bytes \<Rightarrow> bytes \<Rightarrow> nat \<Rightarrow> format_error + bytes" where
  "parse_header content key line_no =
     rbind (line_fields content line_no) (\<lambda>fs.
     if fs = [] \<or> hd fs \<noteq> key then Inl (ExpectedKey key line_no)
     else case fs of
         [_, v] \<Rightarrow> Inr v
       | _ \<Rightarrow> if length fs > 2 then Inl (TooManyValues line_no) else Inl (ExpectedValue key line_no))"

definition parse_checksum :: "hex_crate \<Rightarrow> bytes \<Rightarrow> bytes \<Rightarrow> nat \<Rightarrow> format_error + checksum" where
  "parse_checksum H v description line_no =
     rbind (ok_or (BadChecksumFormat description line_no) (hex_decode H v)) (\<lambda>d.
     if length d = 20 then Inr d else Inl (BadChecksumLength description line_no))"

definition parse_size :: "bytes \<Rightarrow> bytes \<Rightarrow> nat \<Rightarrow> format_error + u64" where
  "parse_size v description line_no = ok_or (BadSize description v line_no) (parse_u64 v)"

definition parse_entry ::
    "url_crate \<Rightarrow> hex_crate \<Rightarrow> bytes \<Rightarrow> meta_version \<Rightarrow> url \<Rightarrow> nat \<Rightarrow> format_error + esi_entry" where
  "parse_entry U H content meta base line_no =
     rbind (line_fields content line_no) (\<lambda>fs.
     let expected = (if meta = V1 then 3 else 5)
     in if length fs < expected then Inl (ExpectedValues expected line_no (length fs))
        else if expected < length fs then Inl (TooManyValues line_no)
        else
          rbind (parse_checksum H (fs ! 0) ''pack index'' line_no) (\<lambda>index_checksum.
          rbind (parse_checksum H (fs ! 1) ''pack'' line_no) (\<lambda>pack_checksum.
          rbind (validate_field_value (fs ! 2) ''pack URL'') (\<lambda>_.
          rbind (ok_or (BadPackUrlOn (fs ! 2) line_no) (url_join U base (fs ! 2))) (\<lambda>_.
          rbind (if meta = V2
                 then rbind (parse_size (fs ! 3) ''pack'' line_no) (\<lambda>p.
                      rbind (parse_size (fs ! 4) ''pack index'' line_no) (\<lambda>i. Inr (Some p, Some i)))
                 else Inr (None, None)) (\<lambda>(pack_size, index_size).
          Inr \<lparr>en_index_checksum = index_checksum, en_pack_checksum = pack_checksum,
            en_url = fs ! 2, en_pack_size = pack_size, en_index_size = index_size\<rparr>))))))"

fun parse_lines ::
    "url_crate \<Rightarrow> hex_crate \<Rightarrow> meta_version \<Rightarrow> url \<Rightarrow> bytes list \<Rightarrow> nat \<Rightarrow> esi_line list \<Rightarrow>
     format_error + esi_line list" where
  "parse_lines U H meta base urls line_no [] = Inr []"
| "parse_lines U H meta base urls line_no (l # ls) =
     (if list_all is_blank_byte (ln_content l)
      then rbind (parse_lines U H meta base urls (line_no + 1) ls) (\<lambda>rest.
           Inr (l\<lparr>ln_kind := BlankLine\<rparr> # rest))
      else rbind (parse_entry U H (ln_content l) meta base line_no) (\<lambda>e.
           if en_url e \<in> set urls then Inl (DuplicateUrl (en_url e) line_no)
           else rbind (parse_lines U H meta base (en_url e # urls) (line_no + 1) ls) (\<lambda>rest.
                Inr (l\<lparr>ln_kind := EntryLine e\<rparr> # rest))))"

definition document_parse :: "url_crate \<Rightarrow> hex_crate \<Rightarrow> bytes \<Rightarrow> format_error + document" where
  "document_parse U H bs =
     (case split_lines bs of
        l0 # l1 # ls \<Rightarrow>
          rbind (parse_header (ln_content l0) ''meta'' 1) (\<lambda>meta_value.
          rbind (meta_from_str meta_value) (\<lambda>meta.
          rbind (parse_header (ln_content l1) ''url'' 2) (\<lambda>url.
          rbind (validate_index_url U url) (\<lambda>base.
          rbind (parse_lines U H meta base [] 3 ls) (\<lambda>rest.
          Inr \<lparr>doc_lines = l0\<lparr>ln_kind := MetaLine\<rparr> # l1\<lparr>ln_kind := UrlLine\<rparr> # rest,
            doc_meta = meta, doc_url = url\<rparr>)))))
      | _ \<Rightarrow> Inl MissingHeaders)"

subsection \<open>Reading and editing\<close>

fun kind_entry :: "line_kind \<Rightarrow> esi_entry option" where
  "kind_entry (EntryLine e) = Some e"
| "kind_entry MetaLine = None"
| "kind_entry UrlLine = None"
| "kind_entry BlankLine = None"

definition document_entries :: "document \<Rightarrow> esi_entry list" where
  "document_entries d = List.map_filter (\<lambda>l. kind_entry (ln_kind l)) (doc_lines d)"

definition resolved_entry_url :: "url_crate \<Rightarrow> document \<Rightarrow> esi_entry \<Rightarrow> format_error + url" where
  "resolved_entry_url U d e =
     rbind (validate_index_url U (doc_url d)) (\<lambda>base.
     rbind (validate_field_value (en_url e) ''pack URL'') (\<lambda>_.
     ok_or (BadPackUrl (en_url e)) (url_join U base (en_url e))))"

definition has_url :: "bytes \<Rightarrow> esi_line \<Rightarrow> bool" where
  "has_url url l \<longleftrightarrow> (case kind_entry (ln_kind l) of Some e \<Rightarrow> en_url e = url | None \<Rightarrow> False)"

definition preferred_line_ending :: "document \<Rightarrow> bytes" where
  "preferred_line_ending d =
     (case find (\<lambda>e. e \<noteq> []) (map ln_ending (doc_lines d)) of Some e \<Rightarrow> e | None \<Rightarrow> [newline])"

definition document_add ::
    "url_crate \<Rightarrow> hex_crate \<Rightarrow> document \<Rightarrow> esi_entry \<Rightarrow> bool \<Rightarrow> format_error + document" where
  "document_add U H d e force =
     rbind (validate_field_value (en_url e) ''pack URL'') (\<lambda>_.
     rbind (validate_index_url U (doc_url d)) (\<lambda>base.
     rbind (ok_or (BadPackUrl (en_url e)) (url_join U base (en_url e))) (\<lambda>_.
     rbind (canonical_line H e (doc_meta d)) (\<lambda>canonical.
     case position (has_url (en_url e)) (doc_lines d) of
       Some i \<Rightarrow>
         if \<not> force then Inl (UrlExists (en_url e))
         else Inr (d\<lparr>doc_lines := (doc_lines d)[i := (doc_lines d ! i)
                \<lparr>ln_content := canonical, ln_kind := EntryLine e\<rparr>]\<rparr>)
     | None \<Rightarrow>
         let ending = preferred_line_ending d;
             ls = doc_lines d;
             terminated = (ls \<noteq> [] \<and> ln_ending (last ls) \<noteq> []);
             ls' = (if terminated \<or> ls = [] then ls
                    else butlast ls @ [(last ls)\<lparr>ln_ending := ending\<rparr>])
         in Inr (d\<lparr>doc_lines := ls' @ [\<lparr>ln_content = canonical,
              ln_ending = (if terminated then ending else []), ln_kind = EntryLine e\<rparr>]\<rparr>)))))"

definition document_remove :: "document \<Rightarrow> bytes \<Rightarrow> bool \<Rightarrow> format_error + document" where
  "document_remove d url force =
     (case position (has_url url) (doc_lines d) of
        Some i \<Rightarrow> Inr (d\<lparr>doc_lines := take i (doc_lines d) @ drop (Suc i) (doc_lines d)\<rparr>)
      | None \<Rightarrow> if force then Inr d else Inl (UrlMissing url))"

definition to_bytes :: "document \<Rightarrow> bytes" where
  "to_bytes d = concat (map (\<lambda>l. ln_content l @ ln_ending l) (doc_lines d))"

end
