(* ===== verification/RepoError.thy ===== *)
theory RepoError
  imports PackIdx Ids FileSystem Esi
begin

text \<open>
  \<^verbatim>\<open>src/repo/error.rs\<close>: the errors of repository operations.  Wrapped errors of other crates
  (\<^verbatim>\<open>walkdir\<close>, \<^verbatim>\<open>ureq\<close>) keep only their text.
\<close>

datatype remote_message =
    BadDocument format_error
  | EndpointRequires url meta_version meta_version
  | UnsupportedEndpoint url
  | UnversionedRequires url meta_version

record remote_format_error =
  rfe_message :: remote_message
  rfe_source :: "bytes option"

datatype error =
    IOError io_error
  | WalkDirError bytes
  | Utf8Error bytes
  | PackErr pack_error
  | IdError id_error
  | CorruptHead
  | BrokenHeadRef error
  | CorruptPackIndex
  | CorruptPack
  | AmbiguousSnapshotMatch bytes "pack_id list"
  | LooseSnapshotPathCollision path bytes bytes
  | DirtyWorkDir
  | UntrackedPaths "path list"
  | PackNotFound bytes
  | RepositoryNotFound path
  | BadLooseObject bytes
  | BadRemoteIndexFormat remote_format_error
  | HttpError bytes

type_synonym 'a op = "(error failure, 'a) fs_op"

definition io :: "(io_error, 'a) fs_op \<Rightarrow> 'a op" where
  "io m = lift_err (\<lambda>e. Fail (IOError e)) m"

definition packerr :: "pack_error + 'a \<Rightarrow> error failure + 'a" where
  "packerr r = map_err (\<lambda>e. Fail (PackErr e)) r"

fun pack_failure :: "pack_error failure \<Rightarrow> error failure" where
  "pack_failure (Fail e) = Fail (PackErr e)"
| "pack_failure Panicked = Panicked"

end
