(* ===== verification/FsLemmas.thy ===== *)
theory FsLemmas
  imports FileSystem
begin

text \<open>
  Facts about the file-system model for paths whose directories are real directories or do
  not exist yet: what each operation returns there, and the one place it changes.
\<close>

lemma fs_get_put: "p \<noteq> [] \<Longrightarrow> fs_get (fs_put p n fs) q = (if q = p then Some n else fs_get fs q)"
proof -
  assume p: "p \<noteq> []"
  have "map_of (filter (\<lambda>(r, _). r \<noteq> p) fs) q = map_of fs q" if "q \<noteq> p"
    using that by (induction fs) auto
  with p show ?thesis by (auto simp: fs_get_def fs_put_def)
qed

lemma fs_get_del: "p \<noteq> [] \<Longrightarrow> fs_get (fs_del p fs) q = (if q = p then None else fs_get fs q)"
proof -
  assume p: "p \<noteq> []"
  have "map_of (filter (\<lambda>(r, _). r \<noteq> p) fs) q = (if q = p then None else map_of fs q)"
    by (induction fs) auto
  with p show ?thesis by (auto simp: fs_get_def fs_del_def)
qed

lemma fs_get_root [simp]: "fs_get fs [] = Some DirNode"
  by (simp add: fs_get_def)

definition fs_wf :: "fs \<Rightarrow> bool" where
  "fs_wf fs \<longleftrightarrow> distinct (map fst fs) \<and> [] \<notin> fst ` set fs \<and>
     (\<forall>p \<in> fst ` set fs. fs_get fs (butlast p) = Some DirNode)"

lemma fs_wfD:
  "fs_wf fs \<Longrightarrow> q \<in> fst ` set fs \<Longrightarrow> q \<noteq> [] \<and> fs_get fs (butlast q) = Some DirNode"
  unfolding fs_wf_def by metis

lemma fs_get_in: "fs_get fs p = Some n \<Longrightarrow> p = [] \<or> (p, n) \<in> set fs"
  by (auto simp: fs_get_def dest: map_of_SomeD split: if_splits)

lemma fs_wf_parent: "fs_wf fs \<Longrightarrow> fs_get fs (p @ [c]) \<noteq> None \<Longrightarrow> fs_get fs p = Some DirNode"
proof -
  assume wf: "fs_wf fs" and "fs_get fs (p @ [c]) \<noteq> None"
  then have "p @ [c] \<in> fst ` set fs" using fs_get_in [of fs "p @ [c]"] by force
  with wf show ?thesis unfolding fs_wf_def by fastforce
qed

lemma fs_wf_prefix:
  "fs_wf fs \<Longrightarrow> fs_get fs p \<noteq> None \<Longrightarrow> strict_prefix q p \<Longrightarrow> fs_get fs q = Some DirNode"
proof (induction p rule: rev_induct)
  case Nil
  then show ?case by simp
next
  case (snoc c p)
  from snoc.prems have p: "fs_get fs p = Some DirNode" by (intro fs_wf_parent) auto
  show ?case
  proof (cases "q = p")
    case True
    with p show ?thesis by simp
  next
    case False
    with snoc.prems(3) have "strict_prefix q p" by (auto simp: strict_prefix_def)
    with snoc.IH [OF snoc.prems(1)] p show ?thesis by simp
  qed
qed

lemma fs_wf_put:
  assumes "fs_wf fs" "p \<noteq> []" "fs_get fs (butlast p) = Some DirNode"
    and "n \<noteq> DirNode \<longrightarrow> \<not> has_children fs p"
  shows "fs_wf (fs_put p n fs)"
proof -
  have d: "distinct (map fst (fs_put p n fs))"
  proof -
    have "distinct (map fst (filter (\<lambda>(r, _). r \<noteq> p) fs))"
      using assms(1) by (auto simp: fs_wf_def distinct_map inj_on_def)
    then show ?thesis by (auto simp: fs_put_def)
  qed
  have "fs_get (fs_put p n fs) (butlast q) = Some DirNode" if q: "q \<in> fst ` set (fs_put p n fs)" for q
  proof -
    consider "q = p" | "q \<noteq> p" "q \<in> fst ` set fs" using q by (auto simp: fs_put_def)
    then show ?thesis
    proof cases
      case 1
      moreover have "butlast p \<noteq> p" using assms(2) by (metis append_butlast_last_id append_self_conv not_Cons_self2)
      ultimately show ?thesis using assms(2,3) by (simp add: fs_get_put)
    next
      case 2
      then have get: "fs_get fs (butlast q) = Some DirNode" and "q \<noteq> []"
        using fs_wfD [OF assms(1)] by simp_all
      have "n = DirNode" if "butlast q = p"
      proof (rule ccontr)
        assume "n \<noteq> DirNode"
        with assms(4) have "\<not> has_children fs p" by simp
        moreover have "strict_prefix p q"
          using that \<open>q \<noteq> []\<close> by (metis append_butlast_last_id prefix_def strict_prefix_def append_self_conv not_Cons_self2)
        ultimately show False using 2 by (auto simp: has_children_def list_ex_iff)
      qed
      with get assms(2) show ?thesis by (simp add: fs_get_put)
    qed
  qed
  moreover have "[] \<notin> fst ` set (fs_put p n fs)"
    using assms(1,2) by (force simp: fs_wf_def fs_put_def)
  ultimately show ?thesis using d by (simp add: fs_wf_def)
qed

lemma fs_wf_del:
  assumes "fs_wf fs" "p \<noteq> []" "\<not> has_children fs p"
  shows "fs_wf (fs_del p fs)"
proof -
  have "fs_get (fs_del p fs) (butlast q) = Some DirNode" if q: "q \<in> fst ` set (fs_del p fs)" for q
  proof -
    have q: "q \<in> fst ` set fs" "q \<noteq> p" using q by (auto simp: fs_del_def)
    then have get: "fs_get fs (butlast q) = Some DirNode" and "q \<noteq> []"
      using fs_wfD [OF assms(1)] by simp_all
    have "butlast q \<noteq> p"
    proof
      assume "butlast q = p"
      then have "strict_prefix p q"
        using \<open>q \<noteq> []\<close> by (metis append_butlast_last_id prefix_def strict_prefix_def append_self_conv not_Cons_self2)
      with assms(3) q show False by (auto simp: has_children_def list_ex_iff)
    qed
    with get assms(2) show ?thesis by (simp add: fs_get_del)
  qed
  moreover have "distinct (map fst (fs_del p fs))"
    using assms(1) by (auto simp: fs_wf_def fs_del_def distinct_map inj_on_def)
  moreover have "[] \<notin> fst ` set (fs_del p fs)"
    using assms(1) by (force simp: fs_wf_def fs_del_def)
  ultimately show ?thesis by (simp add: fs_wf_def)
qed

lemma has_children_get:
  assumes "fs_wf fs"
  shows "has_children fs p \<longleftrightarrow> (\<exists>q. strict_prefix p q \<and> fs_get fs q \<noteq> None)"
proof
  assume "has_children fs p"
  then obtain q n where q: "(q, n) \<in> set fs" "strict_prefix p q"
    by (auto simp: has_children_def list_ex_iff)
  then have "map_of fs q \<noteq> None" using weak_map_of_SomeI [of q n fs] by simp
  moreover have "q \<noteq> []" using q(2) by auto
  ultimately have "strict_prefix p q \<and> fs_get fs q \<noteq> None"
    using q(2) by (simp add: fs_get_def)
  then show "\<exists>q. strict_prefix p q \<and> fs_get fs q \<noteq> None" ..
next
  assume "\<exists>q. strict_prefix p q \<and> fs_get fs q \<noteq> None"
  then obtain q n where q: "strict_prefix p q" "fs_get fs q = Some n" by blast
  then have "q \<noteq> []" by auto
  with q have "(q, n) \<in> set fs" using fs_get_in [of fs q n] by simp
  with q(1) show "has_children fs p" unfolding has_children_def list_ex_iff by fast
qed

lemma children_need_dir:
  "fs_wf fs \<Longrightarrow> has_children fs p \<Longrightarrow> fs_get fs p = Some DirNode"
  using has_children_get fs_wf_prefix by blast

subsection \<open>Resolution\<close>

definition no_parent_refs :: "path \<Rightarrow> bool" where
  "no_parent_refs p \<longleftrightarrow> ''..'' \<notin> set p"

definition dirs_above :: "fs \<Rightarrow> path \<Rightarrow> bool" where
  "dirs_above fs p \<longleftrightarrow> (\<forall>q. strict_prefix q p \<longrightarrow> fs_get fs q = Some DirNode)"

lemma dirs_above_butlast:
  assumes "fs_wf fs" "fs_get fs (butlast p) = Some DirNode"
  shows "dirs_above fs p"
  unfolding dirs_above_def
proof (intro allI impI)
  fix q assume "strict_prefix q p"
  then have "q = butlast p \<or> strict_prefix q (butlast p)"
    by (cases p rule: rev_cases) (auto simp: strict_prefix_def)
  with assms show "fs_get fs q = Some DirNode" using fs_wf_prefix [of fs "butlast p" q] by auto
qed

lemma walk_plain:
  assumes "''..'' \<notin> set cs"
    and "\<And>q. strict_prefix q cs \<Longrightarrow> fs_get fs (cur @ q) = Some DirNode"
    and "follow \<longrightarrow> (\<forall>t. fs_get fs (cur @ cs) \<noteq> Some (LinkNode t))"
  shows "walk links fs follow cur cs = Inr (cur @ cs)"
  using assms
proof (induction cs arbitrary: cur)
  case Nil
  then show ?case by simp
next
  case (Cons c cs)
  have c: "c \<noteq> ''..''" using Cons.prems(1) by auto
  show ?case
  proof (cases "cs = []")
    case True
    with c Cons.prems(3) show ?thesis by (auto split: option.split node.split)
  next
    case False
    then have "strict_prefix [c] (c # cs)" by (auto simp: strict_prefix_def)
    from Cons.prems(2) [OF this] have dir: "fs_get fs (cur @ [c]) = Some DirNode" .
    have "walk links fs follow (cur @ [c]) cs = Inr ((cur @ [c]) @ cs)"
    proof (rule Cons.IH)
      show "''..'' \<notin> set cs" using Cons.prems(1) by simp
      show "fs_get fs ((cur @ [c]) @ q) = Some DirNode" if "strict_prefix q cs" for q
        using Cons.prems(2) [of "c # q"] that by (simp add: strict_prefix_def)
      show "follow \<longrightarrow> (\<forall>t. fs_get fs ((cur @ [c]) @ cs) \<noteq> Some (LinkNode t))"
        using Cons.prems(3) by simp
    qed
    with dir c show ?thesis by simp
  qed
qed

lemma resolve_entry_plain:
  "no_parent_refs p \<Longrightarrow> dirs_above fs p \<Longrightarrow> resolve_entry fs p = Inr p"
  unfolding resolve_entry_def using walk_plain [of p fs "[]" False]
  by (simp add: no_parent_refs_def dirs_above_def)

lemma resolve_target_plain:
  "no_parent_refs p \<Longrightarrow> dirs_above fs p \<Longrightarrow> (\<And>t. fs_get fs p \<noteq> Some (LinkNode t)) \<Longrightarrow>
     resolve_target fs p = Inr p"
  unfolding resolve_target_def using walk_plain [of p fs "[]" True]
  by (simp add: no_parent_refs_def dirs_above_def)

text \<open>A missing directory above the last component is reported as such.\<close>

lemma walk_missing:
  assumes "''..'' \<notin> set cs" and "strict_prefix q cs" and "fs_get fs (cur @ q) = None"
    and "\<And>r. strict_prefix r q \<Longrightarrow> fs_get fs (cur @ r) = Some DirNode"
  shows "q \<noteq> [] \<Longrightarrow> walk links fs follow cur cs = Inl NotFound"
  using assms
proof (induction cs arbitrary: cur q)
  case Nil
  then show ?case by simp
next
  case (Cons c cs)
  have c: "c \<noteq> ''..''" using Cons.prems(2) by auto
  obtain q' where q: "q = c # q'" "strict_prefix q' cs"
    using Cons.prems(1,3) by (cases q) (auto simp: strict_prefix_def)
  show ?case
  proof (cases "q' = []")
    case True
    then have "cs \<noteq> []" using q by auto
    with True q c Cons.prems(4) show ?thesis by simp
  next
    case False
    then have "strict_prefix [c] q" using q by (simp add: strict_prefix_def)
    from Cons.prems(5) [OF this] have dir: "fs_get fs (cur @ [c]) = Some DirNode" .
    have "walk links fs follow (cur @ [c]) cs = Inl NotFound"
    proof (rule Cons.IH [OF False _ q(2)])
      show "''..'' \<notin> set cs" using Cons.prems(2) by simp
      show "fs_get fs ((cur @ [c]) @ q') = None" using Cons.prems(4) q by simp
      show "fs_get fs ((cur @ [c]) @ r) = Some DirNode" if "strict_prefix r q'" for r
        using Cons.prems(5) [of "c # r"] that q by (simp add: strict_prefix_def)
    qed
    with dir c show ?thesis by simp
  qed
qed

subsection \<open>Creating directories\<close>

text \<open>Every prefix of the path is a directory or does not exist.\<close>

definition dirs_or_missing :: "fs \<Rightarrow> path \<Rightarrow> bool" where
  "dirs_or_missing fs p \<longleftrightarrow> (\<forall>q. prefix q p \<longrightarrow> fs_get fs q = None \<or> fs_get fs q = Some DirNode)"

definition dirs_to :: "fs \<Rightarrow> path \<Rightarrow> bool" where
  "dirs_to fs p \<longleftrightarrow> (\<forall>q. prefix q p \<longrightarrow> fs_get fs q = Some DirNode)"

lemma dirs_to_get: "fs_wf fs \<Longrightarrow> dirs_to fs p \<longleftrightarrow> fs_get fs p = Some DirNode"
  unfolding dirs_to_def using fs_wf_prefix [of fs p] by (auto simp: strict_prefix_def)

lemma dirs_above_snoc: "dirs_above fs (p @ [c]) \<longleftrightarrow> dirs_to fs p"
proof -
  have "strict_prefix q (p @ [c]) \<longleftrightarrow> prefix q p" for q by (auto simp: strict_prefix_def)
  then show ?thesis by (simp add: dirs_above_def dirs_to_def)
qed

lemma prefix_snoc_iff: "prefix q (p @ [c]) \<longleftrightarrow> q = p @ [c] \<or> prefix q p"
  by auto

lemma metadata_plain:
  assumes "no_parent_refs p" "dirs_above fs p" "fs_get fs p = Some n" "\<not> is_link_node n"
  shows "metadata fs p = Inr n"
proof -
  have "fs_get fs p \<noteq> Some (LinkNode t)" for t using assms(3,4) by auto
  with resolve_target_plain [OF assms(1,2)] assms(3) show ?thesis by (simp add: metadata_def)
qed

lemma symlink_metadata_plain:
  "no_parent_refs p \<Longrightarrow> dirs_above fs p \<Longrightarrow> symlink_metadata fs p = ok_or NotFound (fs_get fs p)"
  by (simp add: symlink_metadata_def resolve_entry_plain)

lemma path_is_dir_plain:
  "no_parent_refs p \<Longrightarrow> dirs_above fs p \<Longrightarrow> fs_get fs p = Some DirNode \<Longrightarrow> path_is_dir fs p"
  by (simp add: path_is_dir_def metadata_plain)

lemma no_parent_refs_snoc: "no_parent_refs (p @ [c]) \<longleftrightarrow> no_parent_refs p \<and> c \<noteq> ''..''"
  by (auto simp: no_parent_refs_def)

lemma first_missing:
  assumes wf: "fs_wf fs" and dm: "dirs_or_missing fs p" and missing: "fs_get fs p = None"
  shows "\<exists>q. prefix q p \<and> q \<noteq> [] \<and> fs_get fs q = None \<and>
    (\<forall>r. strict_prefix r q \<longrightarrow> fs_get fs r = Some DirNode)"
  using dm missing
proof (induction p rule: rev_induct)
  case Nil
  then show ?case by simp
next
  case (snoc c p)
  have dm: "dirs_or_missing fs p" using snoc.prems(1) by (simp add: dirs_or_missing_def)
  show ?case
  proof (cases "fs_get fs p")
    case None
    with snoc.IH [OF dm] show ?thesis by (auto intro: prefix_prefix)
  next
    case (Some n)
    with dm have "fs_get fs p = Some DirNode" by (auto simp: dirs_or_missing_def)
    then have "dirs_to fs p" using dirs_to_get [OF wf] by simp
    then have "dirs_above fs (p @ [c])" by (simp add: dirs_above_snoc)
    with snoc.prems(2) show ?thesis by (auto simp: dirs_above_def intro!: exI [where x = "p @ [c]"])
  qed
qed

lemma create_dir_all_ok:
  assumes "fs_wf fs" "no_parent_refs p" "dirs_or_missing fs p"
  shows "\<exists>fs'. create_dir_all p fs = (Inr (), fs') \<and> fs_wf fs' \<and>
    (\<forall>q. fs_get fs' q = (if prefix q p then Some DirNode else fs_get fs q))"
  using assms(2,3)
proof (induction p rule: rev_induct)
  case Nil
  with assms(1) show ?case by (simp add: create_dir_all.simps)
next
  case (snoc c p)
  let ?p = "p @ [c]"
  have np: "no_parent_refs ?p" "no_parent_refs p" using snoc.prems(1) by (simp_all add: no_parent_refs_snoc)
  have dm: "dirs_or_missing fs p" using snoc.prems(2) by (simp add: dirs_or_missing_def)
  have here: "fs_get fs ?p = None \<or> fs_get fs ?p = Some DirNode"
    using snoc.prems(2) by (simp add: dirs_or_missing_def)
  show ?case
  proof (cases "fs_get fs p")
    case None
    obtain q where q: "prefix q p" "q \<noteq> []" "fs_get fs q = None"
        "\<And>r. strict_prefix r q \<Longrightarrow> fs_get fs r = Some DirNode"
      using first_missing [OF assms(1) dm None] by blast
    have "strict_prefix q ?p" using q(1) by (auto simp: strict_prefix_def)
    then have "resolve_entry fs ?p = Inl NotFound"
      unfolding resolve_entry_def using walk_missing [of ?p q fs "[]"] np q by (simp add: no_parent_refs_def)
    then have first: "create_dir ?p fs = (Inl NotFound, fs)" by (simp add: create_dir_def)
    obtain fs1 where fs1: "create_dir_all p fs = (Inr (), fs1)" "fs_wf fs1"
        "\<And>q. fs_get fs1 q = (if prefix q p then Some DirNode else fs_get fs q)"
      using snoc.IH [OF np(2) dm] by auto
    have "dirs_above fs1 ?p" using fs1(3) by (simp add: dirs_above_snoc dirs_to_def)
    then have res: "resolve_entry fs1 ?p = Inr ?p" by (rule resolve_entry_plain [OF np(1)])
    have "fs_get fs ?p = None"
      using None assms(1) fs_wf_parent [of fs p c] by (cases "fs_get fs ?p") auto
    then have get1: "fs_get fs1 ?p = None" using fs1(3) by simp
    have "\<not> has_children fs1 ?p" using children_need_dir [OF fs1(2), of ?p] get1 by auto
    then have "fs_wf (fs_put ?p DirNode fs1)" using fs1 by (intro fs_wf_put) auto
    moreover have "create_dir_all ?p fs = (Inr (), fs_put ?p DirNode fs1)"
      using res get1 first fs1(1)
      by (simp add: create_dir_all.simps [of ?p] andThen_def mkdir_or_dir_def create_dir_def)
    ultimately show ?thesis using fs1(3) by (auto simp: fs_get_put)
  next
    case (Some n)
    with dm have p: "fs_get fs p = Some DirNode" by (auto simp: dirs_or_missing_def)
    then have to: "dirs_to fs p" using dirs_to_get [OF assms(1)] by simp
    then have "dirs_above fs ?p" by (simp add: dirs_above_snoc)
    then have res: "resolve_entry fs ?p = Inr ?p" by (rule resolve_entry_plain [OF np(1)])
    show ?thesis
    proof (cases "fs_get fs ?p")
      case None
      have "\<not> has_children fs ?p" using children_need_dir [OF assms(1), of ?p] None by auto
      then have "fs_wf (fs_put ?p DirNode fs)" using assms(1) p by (intro fs_wf_put) auto
      moreover have "create_dir_all ?p fs = (Inr (), fs_put ?p DirNode fs)"
        using res None by (simp add: create_dir_all.simps [of ?p] create_dir_def)
      ultimately show ?thesis using to by (auto simp: fs_get_put dirs_to_def)
    next
      case (Some n)
      with here have d: "fs_get fs ?p = Some DirNode" by simp
      have "path_is_dir fs ?p" using path_is_dir_plain [OF np(1) \<open>dirs_above fs ?p\<close> d] .
      then have "create_dir_all ?p fs = (Inr (), fs)"
        using res d by (simp add: create_dir_all.simps [of ?p] create_dir_def)
      with assms(1) to d show ?thesis by (auto simp: dirs_to_def)
    qed
  qed
qed

subsection \<open>Files and links in a directory\<close>

lemma dirs_to_snoc: "dirs_to fs d \<Longrightarrow> no_parent_refs d \<Longrightarrow> c \<noteq> ''..'' \<Longrightarrow>
    resolve_entry fs (d @ [c]) = Inr (d @ [c])"
  by (simp add: resolve_entry_plain no_parent_refs_snoc dirs_above_snoc)

lemma fs_create_new:
  assumes "dirs_to fs d" "no_parent_refs d" "c \<noteq> ''..''" "fs_get fs (d @ [c]) = None"
  shows "fs_create mode (d @ [c]) fs = (Inr (d @ [c]), fs_put (d @ [c]) (FileNode [] mode) fs)"
proof -
  have "resolve_target fs (d @ [c]) = Inr (d @ [c])"
    using assms by (intro resolve_target_plain) (auto simp: no_parent_refs_snoc dirs_above_snoc)
  with assms(4) show ?thesis by (simp add: fs_create_def)
qed

lemma fs_rename_leaf:
  assumes "dirs_to fs d" "no_parent_refs d" "dirs_to fs e" "no_parent_refs e"
    and "a \<noteq> ''..''" "b \<noteq> ''..''" "d @ [a] \<noteq> e @ [b]"
    and "fs_get fs (d @ [a]) = Some n" "\<not> is_dir_node n" "fs_get fs (e @ [b]) \<noteq> Some DirNode"
  shows "fs_rename (d @ [a]) (e @ [b]) fs = (Inr (), fs_put (e @ [b]) n (fs_del (d @ [a]) fs))"
  using assms dirs_to_snoc [OF assms(1,2)] dirs_to_snoc [OF assms(3,4)]
  by (auto simp: fs_rename_def split: option.split node.split)

lemma fs_move_facts:
  assumes "fs_wf fs" "dirs_to fs e" "d @ [a] \<noteq> e @ [b]" "fs_get fs (d @ [a]) \<noteq> Some DirNode"
    and "\<not> is_dir_node n" "fs_get fs (e @ [b]) \<noteq> Some DirNode"
  shows "fs_wf (fs_put (e @ [b]) n (fs_del (d @ [a]) fs))"
    and "fs_get (fs_put (e @ [b]) n (fs_del (d @ [a]) fs)) q =
      (if q = e @ [b] then Some n else if q = d @ [a] then None else fs_get fs q)"
proof -
  have "\<not> has_children fs (d @ [a])" "\<not> has_children fs (e @ [b])"
    using assms children_need_dir [OF assms(1)] by auto
  then have "fs_wf (fs_del (d @ [a]) fs)" using assms(1) by (intro fs_wf_del) auto
  moreover have "\<not> has_children (fs_del (d @ [a]) fs) (e @ [b])"
    using \<open>\<not> has_children fs (e @ [b])\<close> by (auto simp: has_children_def list_ex_iff fs_del_def)
  moreover have "fs_get fs e = Some DirNode" using assms(2) by (simp add: dirs_to_def)
  moreover from this assms(4) have "e \<noteq> d @ [a]" by auto
  ultimately show "fs_wf (fs_put (e @ [b]) n (fs_del (d @ [a]) fs))"
    by (intro fs_wf_put) (auto simp: fs_get_del)
  show "fs_get (fs_put (e @ [b]) n (fs_del (d @ [a]) fs)) q =
      (if q = e @ [b] then Some n else if q = d @ [a] then None else fs_get fs q)"
    by (simp add: fs_get_put fs_get_del)
qed

lemma fs_rename_file:
  assumes "dirs_to fs d" "no_parent_refs d" "a \<noteq> ''..''" "b \<noteq> ''..''" "a \<noteq> b"
    and "fs_get fs (d @ [a]) = Some n" "\<not> is_dir_node n" "fs_get fs (d @ [b]) \<noteq> Some DirNode"
  shows "fs_rename (d @ [a]) (d @ [b]) fs = (Inr (), fs_put (d @ [b]) n (fs_del (d @ [a]) fs))"
  using assms by (intro fs_rename_leaf) auto

lemma fs_put_del_facts:
  assumes "fs_wf fs" "dirs_to fs d" "a \<noteq> b" "fs_get fs (d @ [a]) \<noteq> Some DirNode"
    and "\<not> is_dir_node n" "fs_get fs (d @ [b]) \<noteq> Some DirNode"
  shows "fs_wf (fs_put (d @ [b]) n (fs_del (d @ [a]) fs))"
    and "fs_get (fs_put (d @ [b]) n (fs_del (d @ [a]) fs)) q =
      (if q = d @ [b] then Some n else if q = d @ [a] then None else fs_get fs q)"
  using fs_move_facts [of fs d d a b n] assms by auto

end
