(* ===== verification/Preflight.thy ===== *)
theory Preflight
  imports RepoError FsLemmas "HOL-Library.Multiset"
begin

text \<open>
  The checks made before anything is written (\<^verbatim>\<open>src/repo/repository.rs\<close>): the path policy of the
  target platform, symbolic links above the outputs, untracked files in the way, and the
  cleaning of the file list of a new snapshot.  Full Unicode case mapping and decomposition
  are parameters (the record \<^verbatim>\<open>unicode\<close>), as is the directory walk of the crate \<^verbatim>\<open>walkdir\<close>.
\<close>

record unicode =
  lowercase_str :: "nat list \<Rightarrow> nat list"
  lowercase_char :: "nat \<Rightarrow> nat list"
  nfd :: "nat list \<Rightarrow> nat list"

subsection \<open>Keys of the target platform\<close>

definition unrepresentable :: "pack_path \<Rightarrow> bytes \<Rightarrow> pack_error" where
  "unrepresentable path c = PathNotRepresentable path (UnrepresentableComponent c)"

definition target_utf8_component :: "pack_path \<Rightarrow> bytes \<Rightarrow> pack_error + bytes" where
  "target_utf8_component path c = (if is_utf8 c then Inr c else Inl (unrepresentable path c))"

definition windows_device_suffixes :: "bytes list" where
  "windows_device_suffixes =
     [''1'', ''2'', ''3'', ''4'', ''5'', ''6'', ''7'', ''8'', ''9'',
      utf8_encode 0xB9, utf8_encode 0xB2, utf8_encode 0xB3]"

definition is_windows_device_suffix :: "bytes \<Rightarrow> bool" where
  "is_windows_device_suffix s \<longleftrightarrow> s \<in> set windows_device_suffixes"

definition windows_forbidden :: "nat list" where
  "windows_forbidden = [0x3C, 0x3E, 0x3A, 0x22, 0x2F, 0x5C, 0x7C, 0x3F, 0x2A]"

definition windows_invalid_char :: "bytes \<Rightarrow> bool" where
  "windows_invalid_char c \<longleftrightarrow> list_ex (\<lambda>u. u \<le> 0x1F \<or> u \<in> set windows_forbidden) (str_chars c)"

definition windows_trailing :: "bytes \<Rightarrow> bool" where
  "windows_trailing c \<longleftrightarrow> c \<noteq> [] \<and> (last c = CHR ''.'' \<or> last c = CHR '' '')"

definition windows_reserved :: "bytes \<Rightarrow> bool" where
  "windows_reserved c \<longleftrightarrow>
     (let stem = to_ascii_uppercase (hd (split_on (CHR ''.'') c))
      in stem \<in> set [''CON'', ''PRN'', ''AUX'', ''NUL''] \<or>
         (case (case strip_prefix ''COM'' stem of Some s \<Rightarrow> Some s | None \<Rightarrow> strip_prefix ''LPT'' stem) of
            Some s \<Rightarrow> is_windows_device_suffix s | None \<Rightarrow> False))"

definition validate_windows_component :: "pack_path \<Rightarrow> bytes \<Rightarrow> pack_error + unit" where
  "validate_windows_component path c =
     (if windows_invalid_char c \<or> windows_trailing c \<or> windows_reserved c
      then Inl (unrepresentable path c) else Inr ())"

definition target_component_key :: "unicode \<Rightarrow> platform \<Rightarrow> pack_path \<Rightarrow> bytes \<Rightarrow> pack_error + bytes" where
  "target_component_key U pf path c =
     (case pf of
        Unix \<Rightarrow> Inr c
      | Windows \<Rightarrow>
          rbind (target_utf8_component path c) (\<lambda>c.
          rbind (validate_windows_component path c) (\<lambda>_.
          Inr (utf8_encode_str (lowercase_str U (str_chars c)))))
      | MacOs \<Rightarrow>
          rbind (target_utf8_component path c) (\<lambda>c.
          Inr (utf8_encode_str (concat (map (lowercase_char U) (nfd U (str_chars c)))))))"

definition target_path_key :: "unicode \<Rightarrow> platform \<Rightarrow> pack_path \<Rightarrow> pack_error + bytes list" where
  "target_path_key U pf path = collect (target_component_key U pf path) (components path)"

lemma unix_keys: "target_path_key U Unix p = Inr (components p)"
proof -
  have "collect (target_component_key U Unix p) cs = Inr cs" for cs
    by (simp add: collect_Inr_iff list_all2_conv_all_nth target_component_key_def)
  then show ?thesis by (simp add: target_path_key_def)
qed

subsection \<open>The path policy\<close>

definition is_component_prefix :: "bytes list \<Rightarrow> bytes list \<Rightarrow> bool" where
  "is_component_prefix p path \<longleftrightarrow> length p < length path \<and> take (length p) path = p"

fun policy_keys ::
    "unicode \<Rightarrow> platform \<Rightarrow> pack_path list \<Rightarrow> pack_path list \<Rightarrow> pack_error + (bytes list \<times> pack_path) list" where
  "policy_keys U pf exact [] = Inr []"
| "policy_keys U pf exact (p # ps) =
     (if p \<in> set exact then Inl (DuplicateLogicalPath p)
      else rbind (target_path_key U pf p) (\<lambda>k.
           rbind (policy_keys U pf (p # exact) ps) (\<lambda>rest. Inr ((k, p) # rest))))"

fun policy_pairs :: "(bytes list \<times> pack_path) list \<Rightarrow> pack_error + unit" where
  "policy_pairs ((left, lp) # (right, rp) # rest) =
     (if left = right then Inl (TargetPathCollision lp rp)
      else if is_component_prefix left right then Inl (PathPrefixConflict lp rp)
      else policy_pairs ((right, rp) # rest))"
| "policy_pairs [x] = Inr ()"
| "policy_pairs [] = Inr ()"

definition preflight_path_policy :: "unicode \<Rightarrow> pack_path list \<Rightarrow> platform \<Rightarrow> pack_error + unit" where
  "preflight_path_policy U paths pf =
     rbind (policy_keys U pf [] paths) (\<lambda>keys. policy_pairs (sort_key fst keys))"

subsection \<open>Links above the outputs\<close>

definition native_path :: "pack_path \<Rightarrow> pack_error + path" where
  "native_path p = map_err (PathNotRepresentable p) (rbind (to_native p) (\<lambda>n. Inr (target_components n)))"

fun check_ancestors_loop :: "fs \<Rightarrow> path list \<Rightarrow> path \<Rightarrow> path \<Rightarrow> path \<Rightarrow> pack_error + unit" where
  "check_ancestors_loop fs removable cur rel [] = Inr ()"
| "check_ancestors_loop fs removable cur rel (c # cs) =
     (case symlink_metadata fs (cur @ [c]) of
        Inr n \<Rightarrow>
          if is_link_node n \<and> rel @ [c] \<notin> set removable
          then Inl (SymlinkedDestination (cur @ [c]))
          else check_ancestors_loop fs removable (cur @ [c]) (rel @ [c]) cs
      | Inl e \<Rightarrow> if e = NotFound \<or> e = NotADirectory then Inr () else Inl (PackIOError e))"

definition check_destination_ancestors :: "fs \<Rightarrow> path \<Rightarrow> path \<Rightarrow> path list \<Rightarrow> pack_error + unit" where
  "check_destination_ancestors fs destination relative removable =
     check_ancestors_loop fs removable destination [] (butlast relative)"

fun preflight_destination_ancestors :: "fs \<Rightarrow> path \<Rightarrow> pack_path list \<Rightarrow> path list \<Rightarrow> pack_error + unit" where
  "preflight_destination_ancestors fs destination [] removable = Inr ()"
| "preflight_destination_ancestors fs destination (p # ps) removable =
     rbind (native_path p) (\<lambda>native.
     rbind (check_destination_ancestors fs destination native removable) (\<lambda>_.
     preflight_destination_ancestors fs destination ps removable))"

subsection \<open>Untracked files in the way\<close>

text \<open>What a walk finds: every path with whether it is a directory, children after parents.\<close>

datatype walk_tree = WalkLeaf path | WalkDir path "walk_tree list"

type_synonym walker = "fs \<Rightarrow> path \<Rightarrow> error + walk_tree"

fun head_keys :: "unicode \<Rightarrow> platform \<Rightarrow> pack_path list \<Rightarrow> pack_error + (bytes list list \<times> bytes list list)" where
  "head_keys U pf [] = Inr ([], [])"
| "head_keys U pf (p # ps) =
     rbind (target_path_key U pf p) (\<lambda>key.
     rbind (head_keys U pf ps) (\<lambda>(tracked, directories).
     Inr (key # tracked, map (\<lambda>n. take n key) [1..<length key] @ directories)))"

definition walked_key :: "unicode \<Rightarrow> platform \<Rightarrow> path \<Rightarrow> path \<Rightarrow> error failure + bytes list" where
  "walked_key U pf destination p =
     rbind (unwrap (strip_prefix destination p)) (\<lambda>relative.
     packerr (rbind (map_err InvalidLogicalPath (from_native_components Unix (map Normal relative)))
       (target_path_key U pf)))"

fun tree_collisions ::
    "unicode \<Rightarrow> platform \<Rightarrow> path \<Rightarrow> bytes list list \<Rightarrow> bytes list list \<Rightarrow> walk_tree \<Rightarrow>
     error failure + path list" where
  "tree_collisions U pf destination tracked directories (WalkLeaf p) =
     rbind (walked_key U pf destination p) (\<lambda>key.
     Inr (if key \<in> set tracked then [] else [drop (length destination) p]))"
| "tree_collisions U pf destination tracked directories (WalkDir p ts) =
     rbind (walked_key U pf destination p) (\<lambda>key.
     if key \<in> set directories
     then rbind (collect (tree_collisions U pf destination tracked directories) ts) (\<lambda>css. Inr (concat css))
     else Inr [drop (length destination) p])"

definition output_collisions ::
    "unicode \<Rightarrow> platform \<Rightarrow> walker \<Rightarrow> fs \<Rightarrow> path \<Rightarrow> bytes list list \<Rightarrow> bytes list list \<Rightarrow> path list \<Rightarrow>
     pack_path \<Rightarrow> error failure + path list" where
  "output_collisions U pf walker fs destination tracked directories removable p =
     rbind (packerr (native_path p)) (\<lambda>native.
     if list_ex (\<lambda>n. take n native \<in> set removable) [0..<length native] then Inr []
     else case symlink_metadata fs (destination @ native) of
       Inl e \<Rightarrow> if e = NotFound \<or> e = NotADirectory then Inr [] else Inl (Fail (IOError e))
     | Inr _ \<Rightarrow>
         rbind (map_err Fail (walker fs (destination @ native)))
           (tree_collisions U pf destination tracked directories))"

definition preflight_untracked_collisions ::
    "unicode \<Rightarrow> platform \<Rightarrow> walker \<Rightarrow> fs \<Rightarrow> path \<Rightarrow> pack_path list \<Rightarrow> pack_path list \<Rightarrow> path list \<Rightarrow>
     error failure + unit" where
  "preflight_untracked_collisions U pf walker fs destination outputs head_paths removable =
     rbind (packerr (head_keys U pf head_paths)) (\<lambda>(tracked, directories).
     rbind (collect (output_collisions U pf walker fs destination tracked directories removable) outputs)
       (\<lambda>css. if concat css = [] then Inr ()
              else Inl (Fail (UntrackedPaths (remdups (sort (concat css)))))))"

subsection \<open>The file list of a new snapshot\<close>

fun normalize_loop :: "path \<Rightarrow> path_component list \<Rightarrow> io_error + path" where
  "normalize_loop normalized [] = Inr normalized"
| "normalize_loop normalized (Normal c # cs) = normalize_loop (normalized @ [c]) cs"
| "normalize_loop normalized (CurDir # cs) = normalize_loop normalized cs"
| "normalize_loop normalized (ParentDir # cs) =
     (if normalized = [] then Inl InvalidInput else normalize_loop (butlast normalized) cs)"
| "normalize_loop normalized (RootDir # cs) = Inl InvalidInput"
| "normalize_loop normalized (Prefix p # cs) = Inl InvalidInput"

definition normalize_relative_path :: "path_component list \<Rightarrow> io_error + path" where
  "normalize_relative_path cs =
     rbind (normalize_loop [] cs) (\<lambda>p. if p = [] then Inl InvalidInput else Inr p)"

fun reject_links_loop :: "fs \<Rightarrow> path \<Rightarrow> path \<Rightarrow> io_error + unit" where
  "reject_links_loop fs candidate [] = Inr ()"
| "reject_links_loop fs candidate (c # cs) =
     rbind (symlink_metadata fs (candidate @ [c])) (\<lambda>n.
       if is_link_node n then Inl InvalidInput else reject_links_loop fs (candidate @ [c]) cs)"

definition reject_symlink_ancestors :: "fs \<Rightarrow> path \<Rightarrow> path \<Rightarrow> io_error + unit" where
  "reject_symlink_ancestors fs repo_dir p = reject_links_loop fs repo_dir (butlast p)"

fun clean_loop :: "fs \<Rightarrow> path \<Rightarrow> path option \<Rightarrow> path list \<Rightarrow> bytes list \<Rightarrow> io_error + path list" where
  "clean_loop fs repo_dir data_dir seen [] = Inr []"
| "clean_loop fs repo_dir data_dir seen (input # inputs) =
     rbind (normalize_relative_path (unix_components input)) (\<lambda>p.
     if (case data_dir of Some d \<Rightarrow> prefix d p | None \<Rightarrow> False)
     then clean_loop fs repo_dir data_dir seen inputs
     else if p \<in> set seen then Inl InvalidInput
     else rbind (reject_symlink_ancestors fs repo_dir p) (\<lambda>_.
          rbind (clean_loop fs repo_dir data_dir (p # seen) inputs) (\<lambda>ps. Inr (p # ps))))"

definition clean_file_list :: "fs \<Rightarrow> path \<Rightarrow> path \<Rightarrow> bytes list \<Rightarrow> io_error + path list" where
  "clean_file_list fs repo_dir data_dir files =
     (case strip_prefix repo_dir data_dir of
        None \<Rightarrow> clean_loop fs repo_dir None [] files
      | Some d \<Rightarrow>
          rbind (normalize_relative_path (map Normal d)) (\<lambda>d. clean_loop fs repo_dir (Some d) [] files))"

subsection \<open>Adjacent keys suffice\<close>

lemma prefix_imp_le: "prefix a b \<Longrightarrow> a \<le> (b :: 'a::linorder list)"
proof (induction a arbitrary: b)
  case Nil
  then show ?case by simp
next
  case (Cons x a)
  then obtain c where "b = x # c" "prefix a c" by (cases b) auto
  with Cons.IH show ?case by simp
qed

text \<open>Between a list and an extension of it there are only extensions of it.\<close>

lemma prefix_between:
  "prefix a c \<Longrightarrow> a \<le> b \<Longrightarrow> b \<le> c \<Longrightarrow> prefix a (b :: 'a::linorder list)"
proof (induction a arbitrary: b c)
  case Nil
  then show ?case by simp
next
  case (Cons x a)
  then obtain c' where c: "c = x # c'" "prefix a c'" by (cases c) auto
  with Cons.prems obtain y b' where b: "b = y # b'" by (cases b) auto
  with Cons.prems c have "y = x" "a \<le> b'" "b' \<le> c'" by auto
  with Cons.IH [OF c(2)] b show ?case by simp
qed

lemma is_component_prefix_iff: "is_component_prefix p path \<longleftrightarrow> strict_prefix p path"
proof -
  have "take (length p) path = p \<longleftrightarrow> prefix p path"
    by (metis append_eq_conv_conj append_take_drop_id prefix_def)
  then show ?thesis
    by (auto simp: is_component_prefix_def strict_prefix_def dest: prefix_length_le
        intro: prefix_length_less [unfolded strict_prefix_def])
qed

lemma policy_pairs_iff:
  "sorted (map fst xs) \<Longrightarrow>
     policy_pairs xs = Inr () \<longleftrightarrow> sorted_wrt (\<lambda>x y. \<not> prefix (fst x) (fst y)) xs"
proof (induction xs rule: policy_pairs.induct)
  case (1 left lp right rp rest)
  have IH: "policy_pairs ((right, rp) # rest) = Inr () \<longleftrightarrow>
      sorted_wrt (\<lambda>x y. \<not> prefix (fst x) (fst y)) ((right, rp) # rest)"
    if "left \<noteq> right" "\<not> is_component_prefix left right"
    using that 1 by simp
  have "\<not> prefix left (fst z)" if "\<not> prefix left right" "z \<in> set rest" for z
    using prefix_between [of left "fst z" right] that "1.prems" by auto
  with IH show ?case
    by (auto simp: is_component_prefix_iff strict_prefix_def)
qed auto

text \<open>The policy, as a statement about all pairs.\<close>

definition policy_ok :: "unicode \<Rightarrow> platform \<Rightarrow> pack_path list \<Rightarrow> bool" where
  "policy_ok U pf paths \<longleftrightarrow>
     distinct paths \<and>
     (\<exists>keys. collect (target_path_key U pf) paths = Inr keys \<and> distinct keys \<and>
       (\<forall>a \<in> set keys. \<forall>b \<in> set keys. \<not> strict_prefix a b))"

lemma policy_keys_iff:
  "policy_keys U pf exact ps = Inr kps \<longleftrightarrow>
     distinct ps \<and> set ps \<inter> set exact = {} \<and>
     collect (target_path_key U pf) ps = Inr (map fst kps) \<and> map snd kps = ps"
proof (induction ps arbitrary: exact kps)
  case Nil
  then show ?case by auto
next
  case (Cons p ps)
  show ?case
  proof (cases "p \<in> set exact \<or> (\<exists>e. target_path_key U pf p = Inl e)")
    case True
    then show ?thesis by auto
  next
    case False
    then obtain k where k: "target_path_key U pf p = Inr k" "p \<notin> set exact"
      by (cases "target_path_key U pf p") auto
    then have "policy_keys U pf exact (p # ps) = Inr kps \<longleftrightarrow>
        (\<exists>rest. policy_keys U pf (p # exact) ps = Inr rest \<and> kps = (k, p) # rest)"
      by (auto simp: result_simps)
    with k show ?thesis
      unfolding Cons.IH by (cases kps) (auto split: sum.splits)
  qed
qed

lemma pairwise_sorted:
  assumes "sorted (map fst xs)"
  shows "sorted_wrt (\<lambda>x y. \<not> prefix (fst x) (fst y)) xs \<longleftrightarrow>
    distinct (map fst xs) \<and> (\<forall>a \<in> fst ` set xs. \<forall>b \<in> fst ` set xs. \<not> strict_prefix a (b :: 'a::linorder list))"
  using assms
proof (induction xs)
  case Nil
  then show ?case by simp
next
  case (Cons x xs)
  have le: "fst x \<le> fst y" if "y \<in> set xs" for y using Cons.prems that by auto
  have "(\<forall>y \<in> set xs. \<not> prefix (fst x) (fst y)) \<longleftrightarrow>
      fst x \<notin> fst ` set xs \<and>
      (\<forall>y \<in> set xs. \<not> strict_prefix (fst x) (fst y) \<and> \<not> strict_prefix (fst y) (fst x))"
    (is "?l \<longleftrightarrow> ?r")
  proof
    assume l: ?l
    then have "fst x \<notin> fst ` set xs" by force
    moreover have "\<not> strict_prefix (fst y) (fst x)" if "y \<in> set xs" for y
      using le [OF that] prefix_imp_le [of "fst y" "fst x"] l that by (auto simp: strict_prefix_def)
    ultimately show ?r using l by (auto simp: strict_prefix_def)
  next
    assume r: ?r
    show ?l
    proof
      fix y assume "y \<in> set xs"
      with r have "\<not> strict_prefix (fst x) (fst y)" "fst x \<noteq> fst y" by force+
      then show "\<not> prefix (fst x) (fst y)" by (simp add: strict_prefix_def)
    qed
  qed
  moreover have IH: "sorted_wrt (\<lambda>x y. \<not> prefix (fst x) (fst y)) xs \<longleftrightarrow>
      distinct (map fst xs) \<and> (\<forall>a \<in> fst ` set xs. \<forall>b \<in> fst ` set xs. \<not> strict_prefix a b)"
    using Cons by simp
  ultimately show ?case by (simp add: IH) blast
qed

lemma preflight_path_policy_iff:
  "preflight_path_policy U paths pf = Inr () \<longleftrightarrow> policy_ok U pf paths"
proof (cases "\<exists>kps. policy_keys U pf [] paths = Inr kps")
  case False
  have "\<not> (distinct paths \<and> (\<exists>keys. collect (target_path_key U pf) paths = Inr keys))"
  proof
    assume "distinct paths \<and> (\<exists>keys. collect (target_path_key U pf) paths = Inr keys)"
    then obtain keys where "distinct paths" "collect (target_path_key U pf) paths = Inr keys" by blast
    then have "policy_keys U pf [] paths = Inr (zip keys paths)"
      using collect_length [of "target_path_key U pf" paths keys] by (simp add: policy_keys_iff)
    with False show False by blast
  qed
  moreover have "preflight_path_policy U paths pf \<noteq> Inr ()"
    using False by (auto simp: preflight_path_policy_def result_simps)
  ultimately show ?thesis by (auto simp: policy_ok_def)
next
  case True
  then obtain kps where kps: "policy_keys U pf [] paths = Inr kps" by blast
  then have k: "distinct paths" "collect (target_path_key U pf) paths = Inr (map fst kps)"
    by (simp_all add: policy_keys_iff)
  have m: "mset (map fst (sort_key fst kps)) = mset (map fst kps)" by simp
  have "preflight_path_policy U paths pf = Inr () \<longleftrightarrow>
      sorted_wrt (\<lambda>x y. \<not> prefix (fst x) (fst y)) (sort_key fst kps)"
    using kps by (simp add: preflight_path_policy_def policy_pairs_iff)
  also have "\<dots> \<longleftrightarrow> distinct (map fst kps) \<and>
      (\<forall>a \<in> set (map fst kps). \<forall>b \<in> set (map fst kps). \<not> strict_prefix a b)"
    using mset_eq_imp_distinct_iff [OF m] by (simp add: pairwise_sorted)
  finally show ?thesis using k by (auto simp: policy_ok_def)
qed

subsection \<open>No output leaves the destination\<close>

definition no_link_above :: "fs \<Rightarrow> path \<Rightarrow> path \<Rightarrow> bool" where
  "no_link_above fs cur rel \<longleftrightarrow>
     (\<forall>q. strict_prefix q rel \<and> q \<noteq> [] \<longrightarrow> (\<forall>t. fs_get fs (cur @ q) \<noteq> Some (LinkNode t)))"

lemma strict_prefix_ConsE:
  assumes "strict_prefix q (c # cs)" "q \<noteq> []"
  obtains q' where "q = c # q'" "strict_prefix q' cs"
  using assms by (cases q) (auto simp: strict_prefix_def)

lemma missing_below:
  assumes "fs_wf fs" "fs_get fs p \<noteq> Some DirNode" "q \<noteq> []"
  shows "fs_get fs (p @ q) = None"
proof (rule ccontr)
  assume "fs_get fs (p @ q) \<noteq> None"
  moreover have "strict_prefix p (p @ q)" using assms(3) by (auto simp: strict_prefix_def)
  ultimately show False using fs_wf_prefix [OF assms(1), of "p @ q" p] assms(2) by blast
qed

lemma check_ancestors_links:
  "fs_wf fs \<Longrightarrow> dirs_to fs cur \<Longrightarrow> no_parent_refs (cur @ cs) \<Longrightarrow>
     check_ancestors_loop fs removable cur rel cs = Inr () \<Longrightarrow>
     prefix q cs \<Longrightarrow> q \<noteq> [] \<Longrightarrow> fs_get fs (cur @ q) = Some (LinkNode t) \<Longrightarrow> rel @ q \<in> set removable"
proof (induction cs arbitrary: cur rel q)
  case Nil
  then show ?case by simp
next
  case (Cons c cs)
  obtain q' where q: "q = c # q'" "prefix q' cs" using Cons.prems(5,6) by (cases q) auto
  have np: "no_parent_refs (cur @ [c])" using Cons.prems(3) by (auto simp: no_parent_refs_def)
  have md: "symlink_metadata fs (cur @ [c]) = ok_or NotFound (fs_get fs (cur @ [c]))"
    using Cons.prems(2) by (intro symlink_metadata_plain [OF np]) (simp add: dirs_above_snoc)
  show ?case
  proof (cases "q' = []")
    case True
    with Cons.prems(4,7) md q(1) show ?thesis by (auto split: if_splits)
  next
    case False
    then have d: "fs_get fs (cur @ [c]) = Some DirNode"
      using missing_below [OF Cons.prems(1), of "cur @ [c]" q'] Cons.prems(7) q(1) by auto
    then have "dirs_to fs (cur @ [c])" using dirs_to_get [OF Cons.prems(1)] by simp
    moreover have "check_ancestors_loop fs removable (cur @ [c]) (rel @ [c]) cs = Inr ()"
      using Cons.prems(4) md d by simp
    ultimately show ?thesis
      using Cons.IH [of "cur @ [c]" "rel @ [c]" q'] Cons.prems(1,3,7) q False by simp
  qed
qed

text \<open>Every link strictly between the destination and an output that passes the check may be removed.\<close>

lemma checked_links_removable:
  assumes "fs_wf fs" "dirs_to fs dest" "no_parent_refs (dest @ rel)"
    and "check_destination_ancestors fs dest rel removable = Inr ()"
    and "strict_prefix s rel" "s \<noteq> []" "fs_get fs (dest @ s) = Some (LinkNode t)"
  shows "s \<in> set removable"
proof -
  have "rel \<noteq> []" using assms(5) by (auto simp: strict_prefix_def)
  then have s: "prefix s (butlast rel)"
    using assms(5) by (metis append_butlast_last_id prefix_snoc strict_prefix_def)
  have "no_parent_refs (dest @ butlast rel)"
    using assms(3) by (auto simp: no_parent_refs_def dest: in_set_butlastD)
  from check_ancestors_links [OF assms(1,2) this _ s assms(6,7), of removable "[]"] assms(4)
  show ?thesis by (simp add: check_destination_ancestors_def)
qed

lemma walk_no_link:
  "no_link_above fs cur cs \<Longrightarrow> ''..'' \<notin> set cs \<Longrightarrow> walk links fs False cur cs = Inr q \<Longrightarrow> q = cur @ cs"
proof (induction cs arbitrary: cur)
  case Nil
  then show ?case by simp
next
  case (Cons c cs)
  have c: "c \<noteq> ''..''" using Cons.prems(2) by auto
  show ?case
  proof (cases "cs = []")
    case True
    with c Cons.prems(3) show ?thesis by (auto split: option.splits node.splits)
  next
    case False
    then have "fs_get fs (cur @ [c]) \<noteq> Some (LinkNode t)" for t
      using Cons.prems(1) by (auto simp: no_link_above_def strict_prefix_def)
    then have "walk links fs False (cur @ [c]) cs = Inr q"
      using c False Cons.prems(3) by (auto split: option.splits node.splits)
    moreover have "no_link_above fs (cur @ [c]) cs"
      using Cons.prems(1) unfolding no_link_above_def
      by (auto simp: strict_prefix_def dest: spec [of _ "c # q" for q])
    ultimately show ?thesis using Cons.IH [of "cur @ [c]"] Cons.prems(2) by simp
  qed
qed

lemma no_link_resolves:
  assumes "dirs_to fs dest" "no_parent_refs (dest @ rel)" "no_link_above fs dest rel"
    and "resolve_entry fs (dest @ rel) = Inr q"
  shows "q = dest @ rel"
proof -
  have "no_link_above fs [] (dest @ rel)"
    unfolding no_link_above_def
  proof (intro allI impI)
    fix r t assume r: "strict_prefix r (dest @ rel) \<and> r \<noteq> []"
    show "fs_get fs ([] @ r) \<noteq> Some (LinkNode t)"
    proof (cases "prefix r dest")
      case True
      with assms(1) show ?thesis by (simp add: dirs_to_def)
    next
      case False
      with r obtain s where s: "r = dest @ s" "s \<noteq> []"
        by (metis append_Nil2 prefix_def prefix_same_cases strict_prefix_def)
      then have "strict_prefix s rel" using r by (simp add: strict_prefix_def)
      with assms(3) s show ?thesis by (auto simp: no_link_above_def)
    qed
  qed
  from walk_no_link [OF this] assms(2,4) show ?thesis
    by (simp add: resolve_entry_def no_parent_refs_def)
qed

text \<open>Once the removable links are gone, and no link was added, the output resolves to itself.\<close>

lemma check_destination_resolves:
  assumes "fs_wf fs" "dirs_to fs dest" "no_parent_refs (dest @ rel)"
    and "check_destination_ancestors fs dest rel removable = Inr ()"
    and "dirs_to fs' dest" "\<forall>s t. fs_get fs' (dest @ s) = Some (LinkNode t) \<longrightarrow>
      s \<notin> set removable \<and> (\<exists>t'. fs_get fs (dest @ s) = Some (LinkNode t'))"
    and "resolve_entry fs' (dest @ rel) = Inr q"
  shows "q = dest @ rel"
proof -
  have "no_link_above fs' dest rel"
    using checked_links_removable [OF assms(1-4)] assms(6) unfolding no_link_above_def by blast
  from no_link_resolves [OF assms(5,3) this assms(7)] show ?thesis .
qed

subsection \<open>Untracked files are kept\<close>

fun tree_entries :: "walk_tree \<Rightarrow> (path \<times> bool) list" where
  "tree_entries (WalkLeaf p) = [(p, False)]"
| "tree_entries (WalkDir p ts) = (p, True) # concat (map tree_entries ts)"

lemma collect_concat_Nil:
  assumes "collect f xs = Inr yss" "concat yss = []" "x \<in> set xs"
  shows "f x = Inr []"
proof -
  have l: "list_all2 (\<lambda>x y. f x = Inr y) xs yss" using assms(1) by (simp add: collect_Inr_iff)
  obtain i where i: "i < length xs" "xs ! i = x" using assms(3) by (auto simp: in_set_conv_nth)
  with l have "f x = Inr (yss ! i)" "i < length yss" by (auto simp: list_all2_conv_all_nth)
  moreover have "yss ! i = []" using assms(2) \<open>i < length yss\<close> by auto
  ultimately show ?thesis by simp
qed

lemma tree_collisions_none:
  "tree_collisions U pf dest tracked dirs t = Inr [] \<Longrightarrow> (q, False) \<in> set (tree_entries t) \<Longrightarrow>
     \<exists>key \<in> set tracked. walked_key U pf dest q = Inr key"
proof (induction t)
  case (WalkLeaf p)
  then show ?case by (auto simp: result_simps split: if_splits)
next
  case (WalkDir p ts)
  then obtain css where css: "collect (tree_collisions U pf dest tracked dirs) ts = Inr css" "concat css = []"
    by (auto simp: result_simps split: if_splits)
  obtain t where t: "t \<in> set ts" "(q, False) \<in> set (tree_entries t)"
    using WalkDir.prems(2) by auto
  have "tree_collisions U pf dest tracked dirs t = Inr []"
    by (rule collect_concat_Nil [OF css t(1)])
  from WalkDir.IH [OF t(1) this t(2)] show ?case .
qed

lemma head_keys_tracked:
  "head_keys U pf ps = Inr (tracked, dirs) \<Longrightarrow> collect (target_path_key U pf) ps = Inr tracked"
  by (induction ps arbitrary: tracked dirs) (auto simp: result_simps split: prod.splits)

text \<open>What the walk of \<^verbatim>\<open>walkdir\<close> documents: it finds every entry at or below its root.\<close>

definition walker_complete :: "walker \<Rightarrow> fs \<Rightarrow> path list \<Rightarrow> bool" where
  "walker_complete walker fs roots \<longleftrightarrow>
     (\<forall>r \<in> set roots. \<forall>t q n. walker fs r = Inr t \<and> prefix r q \<and> fs_get fs q = Some n \<longrightarrow>
        (q, is_dir_node n) \<in> set (tree_entries t))"

lemma untracked_collisions_sound:
  assumes "preflight_untracked_collisions U pf walker fs dest outputs heads removable = Inr ()"
    and p: "p \<in> set outputs" "native_path p = Inr native"
    and walk: "walker_complete walker fs [dest @ native]"
    and q: "prefix (dest @ native) q" "fs_get fs q = Some n" "\<not> is_dir_node n"
    and np: "no_parent_refs (dest @ native)" and wf: "fs_wf fs"
  shows "(\<exists>r \<in> set removable. strict_prefix r native) \<or>
    (\<exists>h \<in> set heads. \<exists>key. target_path_key U pf h = Inr key \<and> walked_key U pf dest q = Inr key)"
proof (cases "list_ex (\<lambda>n. take n native \<in> set removable) [0..<length native]")
  case True
  then obtain i where "i < length native" "take i native \<in> set removable" by (auto simp: list_ex_iff)
  moreover from this have "strict_prefix (take i native) native"
    using take_is_prefix [of i native] by (auto simp: strict_prefix_def dest: arg_cong [of _ _ length])
  ultimately show ?thesis by blast
next
  case False
  obtain tracked dirs css where k: "head_keys U pf heads = Inr (tracked, dirs)"
    and c: "collect (output_collisions U pf walker fs dest tracked dirs removable) outputs = Inr css" "concat css = []"
    using assms(1) by (auto simp: preflight_untracked_collisions_def packerr_def result_simps split: if_splits)
  have out: "output_collisions U pf walker fs dest tracked dirs removable p = Inr []"
    using collect_concat_Nil [OF c p(1)] .
  have "fs_get fs (dest @ native) \<noteq> None"
  proof (cases "q = dest @ native")
    case False
    then have "strict_prefix (dest @ native) q" using q(1) by (simp add: strict_prefix_def)
    then show ?thesis using fs_wf_prefix [OF wf] q(2) by blast
  qed (use q(2) in simp)
  then obtain m where m: "fs_get fs (dest @ native) = Some m" by auto
  then have "dirs_above fs (dest @ native)"
    using fs_wf_prefix [OF wf, of "dest @ native"] by (simp add: dirs_above_def)
  then have "symlink_metadata fs (dest @ native) = Inr m"
    using symlink_metadata_plain [OF np] m by simp
  with out p(2) False obtain t where t: "walker fs (dest @ native) = Inr t"
      "tree_collisions U pf dest tracked dirs t = Inr []"
    by (auto simp: output_collisions_def packerr_def result_simps)
  have "(q, is_dir_node n) \<in> set (tree_entries t)"
    using walk t(1) q(1,2) by (auto simp: walker_complete_def)
  then have "(q, False) \<in> set (tree_entries t)" using q(3) by simp
  from tree_collisions_none [OF t(2) this] obtain key where key: "key \<in> set tracked"
      "walked_key U pf dest q = Inr key" by blast
  have "list_all2 (\<lambda>h k. target_path_key U pf h = Inr k) heads tracked"
    using head_keys_tracked [OF k] by (simp add: collect_Inr_iff)
  with key(1) obtain h where "h \<in> set heads" "target_path_key U pf h = Inr key"
    by (force simp: list_all2_conv_all_nth in_set_conv_nth)
  with key(2) show ?thesis by blast
qed

subsection \<open>Cleaning a file list\<close>

lemma normalize_loop_ok:
  "normalize_loop out cs = Inr p \<Longrightarrow> no_parent_refs out \<Longrightarrow>
     (\<forall>c. Normal c \<in> set cs \<longrightarrow> c \<noteq> ''..'') \<Longrightarrow> no_parent_refs p"
proof (induction out cs rule: normalize_loop.induct)
  case (2 out c cs)
  then show ?case by (auto simp: no_parent_refs_snoc)
next
  case (4 out cs)
  then show ?case by (auto simp: no_parent_refs_def dest: in_set_butlastD split: if_splits)
qed auto

lemma normalize_normals: "normalize_loop out (map Normal p) = Inr (out @ p)"
  by (induction p arbitrary: out) auto

lemma unix_components_normal: "Normal c \<in> set (unix_components s) \<Longrightarrow> c \<noteq> ''..'' \<and> c \<noteq> [] \<and> c \<noteq> ''.''"
  by (auto simp: unix_components_def Let_def map_filter_def part_component_def split: if_splits)

lemma reject_links_no_link:
  "fs_wf fs \<Longrightarrow> dirs_to fs cur \<Longrightarrow> no_parent_refs (cur @ cs) \<Longrightarrow> reject_links_loop fs cur cs = Inr () \<Longrightarrow>
     no_link_above fs cur (cs @ [c])"
proof (induction cs arbitrary: cur)
  case Nil
  have "q = []" if "strict_prefix q [c]" for q :: path
    using prefix_length_less [OF that] by simp
  then show ?case by (auto simp: no_link_above_def)
next
  case (Cons d cs)
  have np: "no_parent_refs (cur @ [d])" using Cons.prems(3) by (auto simp: no_parent_refs_def)
  have md: "symlink_metadata fs (cur @ [d]) = ok_or NotFound (fs_get fs (cur @ [d]))"
    using Cons.prems(2) by (intro symlink_metadata_plain [OF np]) (simp add: dirs_above_snoc)
  with Cons.prems(4) obtain n where n: "fs_get fs (cur @ [d]) = Some n" "\<not> is_link_node n"
      "reject_links_loop fs (cur @ [d]) cs = Inr ()"
    by (auto simp: result_simps split: if_splits)
  show ?case
    unfolding no_link_above_def
  proof (intro allI impI)
    fix q t assume q: "strict_prefix q ((d # cs) @ [c]) \<and> q \<noteq> []"
    then obtain q' where q': "q = d # q'" "strict_prefix q' (cs @ [c])"
      by (auto elim: strict_prefix_ConsE)
    show "fs_get fs (cur @ q) \<noteq> Some (LinkNode t)"
    proof (cases "q' = []")
      case True
      with n q' show ?thesis by auto
    next
      case False
      show ?thesis
      proof (cases "is_dir_node n")
        case True
        then have "fs_get fs (cur @ [d]) = Some DirNode" using n(1) by (cases n) auto
        then have "dirs_to fs (cur @ [d])" using dirs_to_get [OF Cons.prems(1)] by simp
        from Cons.IH [OF Cons.prems(1) this _ n(3)] Cons.prems(3)
        have "no_link_above fs (cur @ [d]) (cs @ [c])" by simp
        with q' False show ?thesis by (auto simp: no_link_above_def)
      next
        case not_dir: False
        then have "fs_get fs (cur @ [d]) \<noteq> Some DirNode" using n(1) by auto
        from missing_below [OF Cons.prems(1) this False] q' show ?thesis by simp
      qed
    qed
  qed
qed

lemma normalize_relative_ok:
  assumes "normalize_relative_path (unix_components input) = Inr p"
  shows "p \<noteq> [] \<and> no_parent_refs p"
  using assms normalize_loop_ok [of "[]" "unix_components input" p] unix_components_normal
  by (auto simp: normalize_relative_path_def result_simps no_parent_refs_def split: if_splits)

definition clean_path :: "fs \<Rightarrow> path \<Rightarrow> path option \<Rightarrow> path \<Rightarrow> bool" where
  "clean_path fs repo dd p \<longleftrightarrow> p \<noteq> [] \<and> no_parent_refs p \<and> no_link_above fs repo p \<and>
     (case dd of Some d \<Rightarrow> \<not> prefix d p | None \<Rightarrow> True)"

lemma clean_loop_ok:
  assumes wf: "fs_wf fs" and repo: "dirs_to fs repo" "no_parent_refs repo"
  shows "clean_loop fs repo dd seen inputs = Inr ps \<Longrightarrow>
    distinct ps \<and> set ps \<inter> set seen = {} \<and> (\<forall>p \<in> set ps. clean_path fs repo dd p)"
proof (induction inputs arbitrary: seen ps)
  case Nil
  then show ?case by simp
next
  case (Cons input inputs)
  obtain p where p: "normalize_relative_path (unix_components input) = Inr p"
    using Cons.prems by (auto simp: result_simps)
  note ok = normalize_relative_ok [OF p]
  show ?case
  proof (cases "case dd of Some d \<Rightarrow> prefix d p | None \<Rightarrow> False")
    case True
    with p Cons show ?thesis by simp
  next
    case False
    with p Cons.prems obtain qs where qs: "p \<notin> set seen" "reject_symlink_ancestors fs repo p = Inr ()"
        "clean_loop fs repo dd (p # seen) inputs = Inr qs" "ps = p # qs"
      by (auto simp: result_simps split: if_splits)
    have "no_link_above fs repo (butlast p @ [last p])"
      using ok qs(2) repo wf by (intro reject_links_no_link)
        (auto simp: reject_symlink_ancestors_def no_parent_refs_def dest: in_set_butlastD)
    then have "clean_path fs repo dd p"
      using ok False by (auto simp: clean_path_def split: option.splits)
    with Cons.IH [OF qs(3)] qs show ?thesis by auto
  qed
qed

subsection \<open>Properties\<close>

text \<open>C22: The path policy accepts a list of paths exactly when they are distinct, every one has a key
  on the target platform, and no two keys are equal or one a directory of the other; the
  check of adjacent sorted keys misses no conflict.\<close>

theorem path_policy_spec:
  "preflight_path_policy U paths pf = Inr () \<longleftrightarrow>
     distinct paths \<and>
     (\<exists>keys. collect (target_path_key U pf) paths = Inr keys \<and> distinct keys \<and>
       (\<forall>a \<in> set keys. \<forall>b \<in> set keys. \<not> strict_prefix a b))"
  using preflight_path_policy_iff [of U paths pf] by (simp add: policy_ok_def)

definition plain_unicode :: unicode where
  "plain_unicode = \<lparr>lowercase_str = \<lambda>s. s, lowercase_char = \<lambda>c. [c], nfd = \<lambda>s. s\<rparr>"

theorem path_policy_spec_witness:
  "preflight_path_policy plain_unicode [PackPath ''b'', PackPath ''a/b'', PackPath ''a/c''] Unix = Inr ()"
  by (rule path_policy_spec [THEN iffD2])
    (simp add: target_path_key_def target_component_key_def components_def strict_prefix_def)

text \<open>C21: When the check of the directories above an output succeeds, every link among them is one of the
  removable ones (outputs of HEAD that the checkout removes first).  So from the moment these are
  removed, and as long as no other link is made, the output resolves to itself: no symbolic link leads
  the write out of the destination.  Without removable links this holds at once.\<close>

theorem output_stays_inside:
  assumes "fs_wf fs" "dirs_to fs dest" "no_parent_refs (dest @ rel)"
    and "check_destination_ancestors fs dest rel removable = Inr ()"
  shows "(\<forall>s t. strict_prefix s rel \<and> s \<noteq> [] \<and> fs_get fs (dest @ s) = Some (LinkNode t) \<longrightarrow> s \<in> set removable) \<and>
    (\<forall>fs' q. dirs_to fs' dest \<and>
       (\<forall>s t. fs_get fs' (dest @ s) = Some (LinkNode t) \<longrightarrow>
          s \<notin> set removable \<and> (\<exists>t'. fs_get fs (dest @ s) = Some (LinkNode t'))) \<and>
       resolve_entry fs' (dest @ rel) = Inr q \<longrightarrow> q = dest @ rel)"
  using checked_links_removable [OF assms] check_destination_resolves [OF assms] by blast

definition small_fs :: fs where
  "small_fs = [([''w''], DirNode), ([''w'', ''a''], FileNode ''x'' 420), ([''w'', ''l''], LinkNode ''/etc'')]"

lemma prefix_one: "prefix q [c] \<longleftrightarrow> q = [] \<or> q = [c]" for q :: path
  by (cases q) auto

lemma small_fs_ok: "fs_wf small_fs" "dirs_to small_fs [''w'']"
  by (auto simp: fs_wf_def small_fs_def dirs_to_def fs_get_def prefix_one)

lemma link_parts:
  "symlink_metadata small_fs [''w'', ''l''] = Inr (LinkNode ''/etc'')"
  by (simp add: symlink_metadata_def resolve_entry_def fs_get_def small_fs_def)

text \<open>The link \<^verbatim>\<open>w/l\<close> is removable: after a directory took its place, the output below resolves to itself.\<close>

theorem output_stays_inside_witness:
  "check_destination_ancestors small_fs [''w''] [''l'', ''passwd''] [[''l'']] = Inr () \<and>
   fs_get small_fs [''w'', ''l''] = Some (LinkNode ''/etc'') \<and>
   resolve_entry (fs_put [''w'', ''l''] DirNode small_fs) [''w'', ''l'', ''passwd''] = Inr [''w'', ''l'', ''passwd'']"
proof -
  let ?fs = "fs_put [''w'', ''l''] DirNode small_fs"
  have check: "check_destination_ancestors small_fs [''w''] [''l'', ''passwd''] [[''l'']] = Inr ()"
    by (simp add: check_destination_ancestors_def link_parts)
  have "dirs_to ?fs [''w'']"
    using small_fs_ok(2) by (auto simp: dirs_to_def fs_get_put prefix_one)
  moreover have "\<forall>s t. fs_get ?fs ([''w''] @ s) = Some (LinkNode t) \<longrightarrow>
      s \<notin> set [[''l'']] \<and> (\<exists>t'. fs_get small_fs ([''w''] @ s) = Some (LinkNode t'))"
    by (auto simp: fs_get_put)
  moreover have "fs_get small_fs [''w''] = Some DirNode" "fs_get small_fs [''w'', ''l'', ''passwd''] = None"
    by (simp_all add: small_fs_def fs_get_def)
  then have "\<exists>q. resolve_entry ?fs [''w'', ''l'', ''passwd''] = Inr q"
    by (simp add: resolve_entry_def fs_get_put)
  ultimately have "resolve_entry ?fs [''w'', ''l'', ''passwd''] = Inr [''w'', ''l'', ''passwd'']"
    using output_stays_inside [OF small_fs_ok _ check] by (fastforce simp: no_parent_refs_def)
  with check show ?thesis by (simp add: small_fs_def fs_get_def)
qed

text \<open>A link above the output is refused.\<close>

lemma link_above_refused:
  "check_destination_ancestors small_fs [''w''] [''l'', ''passwd''] [] =
     Inl (SymlinkedDestination [''w'', ''l''])"
  by (simp add: check_destination_ancestors_def symlink_metadata_def resolve_entry_def fs_get_def small_fs_def)

text \<open>C20: When the collision check succeeds, whatever file or link there is at or below an output has the
  key of a HEAD path on the target platform, or the output lies below a path of HEAD that the checkout
  removes first, provided the walk reports everything at or below the output.\<close>

theorem no_untracked_overwritten:
  assumes "preflight_untracked_collisions U pf walker fs dest outputs heads removable = Inr ()"
    and "p \<in> set outputs" "native_path p = Inr native"
    and "walker_complete walker fs [dest @ native]"
    and "prefix (dest @ native) q" "fs_get fs q = Some n" "\<not> is_dir_node n"
    and "no_parent_refs (dest @ native)" "fs_wf fs"
  shows "(\<exists>r \<in> set removable. strict_prefix r native) \<or>
    (\<exists>h \<in> set heads. \<exists>key. target_path_key U pf h = Inr key \<and> walked_key U pf dest q = Inr key)"
  using assms by (rule untracked_collisions_sound)

text \<open>The file \<^verbatim>\<open>w/a\<close> of HEAD is an output; the removable path \<^verbatim>\<open>l\<close> does not excuse it.\<close>

theorem no_untracked_overwritten_witness:
  "preflight_untracked_collisions plain_unicode Unix (\<lambda>fs p. Inr (WalkLeaf p)) small_fs [''w''] [PackPath ''a'']
     [PackPath ''a''] [[''l'']] = Inr () \<and>
   fs_get small_fs [''w'', ''a''] = Some (FileNode ''x'' 420) \<and>
   (\<exists>h \<in> set [PackPath ''a'']. \<exists>key. target_path_key plain_unicode Unix h = Inr key \<and>
     walked_key plain_unicode Unix [''w''] [''w'', ''a''] = Inr key)"
proof -
  let ?walker = "\<lambda>fs p. Inr (WalkLeaf p)"
  have check: "preflight_untracked_collisions plain_unicode Unix ?walker small_fs [''w''] [PackPath ''a'']
      [PackPath ''a''] [[''l'']] = Inr ()"
    by (simp add: preflight_untracked_collisions_def packerr_def target_path_key_def
        target_component_key_def components_def output_collisions_def native_path_def to_native_def
        unix_push_def native_component_def target_components_def symlink_metadata_def resolve_entry_def
        fs_get_def small_fs_def walked_key_def append_native_component_def from_native_components_def
        pack_path_new_def validate_def)
  have walk: "walker_complete ?walker small_fs [[''w''] @ [''a'']]"
    by (auto simp: walker_complete_def small_fs_def fs_get_def split: if_splits)
  have native: "native_path (PackPath ''a'') = Inr [''a'']"
    by (simp add: native_path_def to_native_def components_def unix_push_def native_component_def
        target_components_def)
  have here: "fs_get small_fs [''w'', ''a''] = Some (FileNode ''x'' 420)"
    by (simp add: fs_get_def small_fs_def)
  have "strict_prefix [''l''] [''a''] = False" by (auto simp: strict_prefix_def)
  with no_untracked_overwritten [OF check _ native walk _ here] small_fs_ok(1) check here show ?thesis
    by (simp add: no_parent_refs_def)
qed

text \<open>C23: The cleaned file list of a snapshot has no duplicates, and each path is relative without
  \<^verbatim>\<open>..\<close>, lies outside the data directory and is reached through no symbolic link.\<close>

theorem clean_file_list_spec:
  assumes "fs_wf fs" "dirs_to fs repo" "no_parent_refs repo"
    and "clean_file_list fs repo data inputs = Inr ps" and "\<not> strict_prefix data repo"
  shows "distinct ps \<and>
    (\<forall>p \<in> set ps. p \<noteq> [] \<and> no_parent_refs p \<and> no_link_above fs repo p \<and> \<not> prefix data (repo @ p))"
proof (cases "strip_prefix repo data")
  case None
  then have n: "\<not> prefix repo data" by (simp add: strip_prefix_None)
  have "\<not> prefix data (repo @ p)" for p
  proof
    assume "prefix data (repo @ p)"
    then have "prefix data repo \<or> prefix repo data" using prefix_same_cases prefixI by blast
    with n assms(5) show False by (auto simp: strict_prefix_def)
  qed
  moreover have "clean_loop fs repo None [] inputs = Inr ps"
    using None assms(4) by (simp add: clean_file_list_def)
  ultimately show ?thesis using clean_loop_ok [OF assms(1-3)] by (auto simp: clean_path_def)
next
  case (Some d)
  then have d: "data = repo @ d" by (simp add: strip_prefix_iff)
  with Some assms(4) obtain e where e: "normalize_relative_path (map Normal d) = Inr e"
      "clean_loop fs repo (Some e) [] inputs = Inr ps"
    by (auto simp: clean_file_list_def result_simps)
  then have "e = d" by (auto simp: normalize_relative_path_def normalize_normals split: if_splits)
  with clean_loop_ok [OF assms(1-3) e(2)] d show ?thesis by (auto simp: clean_path_def)
qed

lemma sample_parts:
  "part_component ''a'' = Some (Normal ''a'')" "part_component ''..'' = Some ParentDir"
  "part_component ''.'' = None" "part_component ''data'' = Some (Normal ''data'')"
  by (simp_all add: part_component_def)

lemma sample_splits:
  "split_on (CHR ''/'') ''./a/../a'' = [''.'', ''a'', ''..'', ''a'']"
  "split_on (CHR ''/'') ''data/a'' = [''data'', ''a'']"
  by simp_all

lemma sample_components:
  "unix_components ''./a/../a'' = [CurDir, Normal ''a'', ParentDir, Normal ''a'']"
  "unix_components ''data/a'' = [Normal ''data'', Normal ''a'']"
  unfolding unix_components_def sample_splits Let_def by (simp_all add: sample_parts map_filter_simps)

theorem clean_file_list_spec_witness:
  "no_link_above small_fs [''w''] [''a''] \<and> \<not> prefix [''w'', ''data''] [''w'', ''a'']"
proof -
  have "clean_file_list small_fs [''w''] [''w'', ''data''] [''./a/../a'', ''data/a''] = Inr [[''a'']]"
    by (simp add: clean_file_list_def normalize_relative_path_def sample_components
        reject_symlink_ancestors_def)
  moreover have "\<not> strict_prefix [''w'', ''data''] [''w'']"
    by (auto dest: prefix_length_less)
  ultimately show ?thesis
    using clean_file_list_spec [OF small_fs_ok, of "[''w'', ''data'']"] by (simp add: no_parent_refs_def)
qed

end
