(* ===== verification/RepoFs.thy ===== *)
theory RepoFs
  imports FsLemmas
begin

text \<open>
  \<^verbatim>\<open>src/repo/fs.rs\<close>: atomic writes, empty files and the removal of empty directories.  Random
  names are arguments (\<^verbatim>\<open>tmp\<close>); a reader is the data it delivers and the error, if any, that
  ends it.  The lock on a fresh temporary file always succeeds.
\<close>

type_synonym reader = "bytes \<times> io_error option"

definition get_last_modified :: "nat option \<Rightarrow> nat option \<Rightarrow> nat option" where
  "get_last_modified created modified =
     (case (created, modified) of
        (Some c, Some m) \<Rightarrow> Some (max c m)
      | (Some c, None) \<Rightarrow> Some c
      | (None, m) \<Rightarrow> m)"

definition ensure_dir :: "path \<Rightarrow> (io_error, unit) fs_op" where
  "ensure_dir p fs =
     (case create_dir_all p fs of
        (Inr _, fs) \<Rightarrow> (Inr (), fs)
      | (Inl e, fs) \<Rightarrow> if e = AlreadyExists then (Inr (), fs) else (Inl e, fs))"

definition io_copy :: "reader \<Rightarrow> path \<Rightarrow> (io_error, unit) fs_op" where
  "io_copy r q =
     andThen (fs_append q (fst r)) (\<lambda>_. case snd r of None \<Rightarrow> ret () | Some e \<Rightarrow> err e)"

definition create_file :: "path \<Rightarrow> u32 option \<Rightarrow> (io_error, path) fs_op" where
  "create_file p mode =
     andThen (fs_create created_mode p) (\<lambda>q.
     andThen (case mode of Some m \<Rightarrow> fs_set_mode q m | None \<Rightarrow> ret ()) (\<lambda>_. ret q))"

definition prepare_atomic_write :: "reader \<Rightarrow> path \<Rightarrow> bytes \<Rightarrow> (io_error, path) fs_op" where
  "prepare_atomic_write r temp_dir tmp =
     andThen (create_file (temp_dir @ [tmp]) None) (\<lambda>q.
     andThen (io_copy r q) (\<lambda>_. ret (temp_dir @ [tmp])))"

definition write_file_atomic :: "reader \<Rightarrow> path \<Rightarrow> bytes \<Rightarrow> path \<Rightarrow> (io_error, unit) fs_op" where
  "write_file_atomic r temp_dir tmp dest =
     andThen (prepare_atomic_write r temp_dir tmp) (\<lambda>t. fs_rename t dest)"

definition write_file_atomic_or_existing ::
    "reader \<Rightarrow> path \<Rightarrow> bytes \<Rightarrow> path \<Rightarrow> (io_error, unit) fs_op" where
  "write_file_atomic_or_existing r temp_dir tmp dest fs =
     (if path_is_file fs dest then (Inr (), fs)
      else andThen (prepare_atomic_write r temp_dir tmp) (\<lambda>t fs.
        case fs_rename t dest fs of
          (Inr _, fs) \<Rightarrow> (Inr (), fs)
        | (Inl e, fs) \<Rightarrow>
            if path_is_file fs dest then andThen (attempt (remove_file t)) (\<lambda>_. ret ()) fs
            else (Inl e, fs)) fs)"

definition umask :: u32 where "umask = 0x12"

definition create_with_mode :: "path \<Rightarrow> u32 \<Rightarrow> (io_error, path) fs_op" where
  "create_with_mode p mode = fs_create (and (and mode (not umask)) permission_bits) p"

definition create_empty_attempt :: "bool \<Rightarrow> bytes \<Rightarrow> path \<Rightarrow> u32 \<Rightarrow> (io_error, unit) fs_op" where
  "create_empty_attempt make_parent_dirs tmp p mode =
     andThen (if make_parent_dirs then create_dir_all (butlast p) else ret ()) (\<lambda>_.
     andThen (create_with_mode (butlast p @ [tmp]) mode) (\<lambda>_. fs_rename (butlast p @ [tmp]) p))"

definition create_empty :: "bytes \<Rightarrow> bytes \<Rightarrow> path \<Rightarrow> u32 \<Rightarrow> (io_error, unit) fs_op" where
  "create_empty tmp1 tmp2 p mode fs =
     (if p = [] then (Inl InvalidInput, fs)
      else case create_empty_attempt False tmp1 p mode fs of
        (Inr _, fs) \<Rightarrow> (Inr (), fs)
      | (Inl e, fs) \<Rightarrow>
          if e = NotFound then create_empty_attempt True tmp2 p mode fs else (Inl e, fs))"

definition set_file_mode :: "path \<Rightarrow> u32 \<Rightarrow> (io_error, unit) fs_op" where
  "set_file_mode p mode fs =
     (case resolve_target fs p of
        Inl e \<Rightarrow> (Inl e, fs)
      | Inr q \<Rightarrow> (case fs_get fs q of
          None \<Rightarrow> (Inl NotFound, fs)
        | Some (FileNode d m) \<Rightarrow>
            if and m owner_read = 0 then (Inl PermissionDenied, fs) else fs_set_mode q mode fs
        | Some n \<Rightarrow> (Inr (), fs)))"

subsection \<open>Removing empty directories\<close>

definition contains_parent_dir_component :: "path \<Rightarrow> bool" where
  "contains_parent_dir_component p \<longleftrightarrow> list_ex (\<lambda>c. c = ''..'') p"

function remove_empty_dirs :: "path \<Rightarrow> path \<Rightarrow> (io_error failure, unit) fs_op" where
  "remove_empty_dirs leaf boundary fs =
     (case strip_prefix boundary leaf of
        None \<Rightarrow> (Inl Panicked, fs)
      | Some relative \<Rightarrow>
          if contains_parent_dir_component relative then (Inl Panicked, fs)
          else if leaf = boundary then (Inr (), fs)
          else case remove_dir leaf fs of
            (Inl DirectoryNotEmpty, fs) \<Rightarrow> (Inr (), fs)
          | (Inl NotFound, fs) \<Rightarrow> (Inr (), fs)
          | (Inl e, fs) \<Rightarrow> (Inl (Fail e), fs)
          | (Inr _, fs) \<Rightarrow>
              if butlast leaf \<noteq> boundary then remove_empty_dirs (butlast leaf) boundary fs
              else (Inr (), fs))"
  by pat_completeness auto
termination
  by (relation "measure (\<lambda>(leaf, b, fs). length leaf)")
    (auto simp: strip_prefix_iff)

declare remove_empty_dirs.simps [simp del]

type_synonym cleanup_queue = "(path \<times> path) option"

definition queue_enqueue ::
    "path \<Rightarrow> path \<Rightarrow> cleanup_queue \<Rightarrow> (io_error failure, cleanup_queue) fs_op" where
  "queue_enqueue leaf boundary q =
     (case q of
        None \<Rightarrow> ret (Some (leaf, boundary))
      | Some (last_leaf, last_boundary) \<Rightarrow>
          if last_boundary = boundary \<and> prefix last_leaf leaf then ret (Some (leaf, last_boundary))
          else andThen (remove_empty_dirs last_leaf last_boundary) (\<lambda>_. ret (Some (leaf, boundary))))"

definition queue_process :: "cleanup_queue \<Rightarrow> (io_error failure, cleanup_queue) fs_op" where
  "queue_process q =
     (case q of None \<Rightarrow> ret None
      | Some (leaf, boundary) \<Rightarrow> andThen (remove_empty_dirs leaf boundary) (\<lambda>_. ret None))"

subsection \<open>Atomic writes\<close>

lemma andThen_Inr: "m fs = (Inr x, fs') \<Longrightarrow> andThen m f fs = f x fs'"
  by (simp add: andThen_def)

lemma andThen_Inl: "m fs = (Inl e, fs') \<Longrightarrow> andThen m f fs = (Inl e, fs')"
  by (simp add: andThen_def)

lemma prepare_atomic_write_ok:
  assumes "dirs_to fs d" "no_parent_refs d" "tmp \<noteq> ''..''" "fs_get fs (d @ [tmp]) = None"
  shows "\<exists>fs'. prepare_atomic_write r d tmp fs =
      (case snd r of None \<Rightarrow> Inr (d @ [tmp]) | Some e \<Rightarrow> Inl e, fs') \<and>
    (\<forall>q. fs_get fs' q = (if q = d @ [tmp] then Some (FileNode (fst r) created_mode) else fs_get fs q))"
  using fs_create_new [OF assms, of created_mode]
  by (auto simp: prepare_atomic_write_def create_file_def andThen_def ret_def err_def io_copy_def
      fs_append_def fs_get_put split: option.split)

lemma fs_wf_same_domain:
  "fs_wf fs \<Longrightarrow> dirs_to fs d \<Longrightarrow> fs_get fs (d @ [c]) = None \<Longrightarrow> \<not> is_dir_node n \<Longrightarrow> fs_wf (fs_put (d @ [c]) n fs)"
  using children_need_dir [of fs "d @ [c]"] by (intro fs_wf_put) (auto simp: dirs_to_def)

lemma prepare_atomic_write_wf:
  assumes "fs_wf fs" "dirs_to fs d" "no_parent_refs d" "tmp \<noteq> ''..''" "fs_get fs (d @ [tmp]) = None"
  shows "fs_wf (snd (prepare_atomic_write r d tmp fs))"
proof -
  let ?f1 = "fs_put (d @ [tmp]) (FileNode [] created_mode) fs"
  have w1: "fs_wf ?f1" using assms by (intro fs_wf_same_domain) auto
  have "\<not> has_children ?f1 (d @ [tmp])"
    using children_need_dir [OF w1, of "d @ [tmp]"] by (auto simp: fs_get_put)
  then have "fs_wf (fs_put (d @ [tmp]) (FileNode x m) ?f1)" for x m
    using w1 assms(2) by (intro fs_wf_put [OF w1]) (simp_all add: fs_get_put dirs_to_def)
  with fs_create_new [OF assms(2-5), of created_mode] show ?thesis
    by (auto simp: prepare_atomic_write_def create_file_def andThen_def ret_def err_def io_copy_def
        fs_append_def fs_get_put split: option.split)
qed

text \<open>
  An atomic write: the destination holds all the data or what it held before, whatever the
  reader does.
\<close>

lemma write_file_atomic_to:
  assumes "fs_wf fs" "dirs_to fs d" "no_parent_refs d" "dirs_to fs e" "no_parent_refs e"
    and "tmp \<noteq> ''..''" "name \<noteq> ''..''" "d @ [tmp] \<noteq> e @ [name]"
    and "fs_get fs (d @ [tmp]) = None" "fs_get fs (e @ [name]) \<noteq> Some DirNode"
  shows "\<exists>fs'. write_file_atomic r d tmp (e @ [name]) fs =
      (case snd r of None \<Rightarrow> Inr () | Some e \<Rightarrow> Inl e, fs') \<and> fs_wf fs' \<and>
    (\<forall>q. q \<noteq> d @ [tmp] \<longrightarrow> fs_get fs' q =
      (if q = e @ [name] \<and> snd r = None then Some (FileNode (fst r) created_mode) else fs_get fs q)) \<and>
    (snd r = None \<longrightarrow> fs_get fs' (d @ [tmp]) = None)"
proof -
  obtain fs1 where fs1: "prepare_atomic_write r d tmp fs =
      (case snd r of None \<Rightarrow> Inr (d @ [tmp]) | Some e \<Rightarrow> Inl e, fs1)"
    "\<And>q. fs_get fs1 q = (if q = d @ [tmp] then Some (FileNode (fst r) created_mode) else fs_get fs q)"
    using prepare_atomic_write_ok [OF assms(2,3,6,9), of r] by blast
  have w1: "fs_wf fs1" using prepare_atomic_write_wf [OF assms(1-3,6,9), of r] fs1(1) by simp
  show ?thesis
  proof (cases "snd r")
    case (Some e)
    with fs1 w1 show ?thesis by (simp add: write_file_atomic_def andThen_def)
  next
    case None
    have d1: "dirs_to fs1 d"
      using assms(2) fs1(2) by (auto simp: dirs_to_def dest: prefix_length_le)
    have e1: "dirs_to fs1 e" using assms(4,9) fs1(2) by (auto simp: dirs_to_def)
    have tmp1: "fs_get fs1 (d @ [tmp]) = Some (FileNode (fst r) created_mode)"
      and name1: "fs_get fs1 (e @ [name]) \<noteq> Some DirNode"
      using assms(8,10) fs1(2) by auto
    have "fs_rename (d @ [tmp]) (e @ [name]) fs1 =
        (Inr (), fs_put (e @ [name]) (FileNode (fst r) created_mode) (fs_del (d @ [tmp]) fs1))"
      using fs_rename_leaf [OF d1 assms(3) e1 assms(5-8) tmp1 _ name1] by simp
    moreover note fs_move_facts [OF w1 e1 assms(8) _ _ name1, of "FileNode (fst r) created_mode"]
    ultimately show ?thesis using None fs1 tmp1 assms(8)
      by (auto simp: write_file_atomic_def andThen_def)
  qed
qed

lemma write_file_atomic_ok:
  assumes "fs_wf fs" "dirs_to fs d" "no_parent_refs d" "tmp \<noteq> ''..''" "name \<noteq> ''..''" "tmp \<noteq> name"
    and "fs_get fs (d @ [tmp]) = None" "fs_get fs (d @ [name]) \<noteq> Some DirNode"
  shows "\<exists>fs'. write_file_atomic r d tmp (d @ [name]) fs =
      (case snd r of None \<Rightarrow> Inr () | Some e \<Rightarrow> Inl e, fs') \<and>
    (\<forall>q. q \<noteq> d @ [tmp] \<longrightarrow> fs_get fs' q =
      (if q = d @ [name] \<and> snd r = None then Some (FileNode (fst r) created_mode) else fs_get fs q)) \<and>
    (snd r = None \<longrightarrow> fs_get fs' (d @ [tmp]) = None)"
proof -
  have "d @ [tmp] \<noteq> d @ [name]" using assms(6) by simp
  from write_file_atomic_to [OF assms(1,2,3,2,3,4,5) this assms(7,8), of r] obtain fs' where
    "write_file_atomic r d tmp (d @ [name]) fs = (case snd r of None \<Rightarrow> Inr () | Some e \<Rightarrow> Inl e, fs')"
    and "\<forall>q. q \<noteq> d @ [tmp] \<longrightarrow> fs_get fs' q =
      (if q = d @ [name] \<and> snd r = None then Some (FileNode (fst r) created_mode) else fs_get fs q)"
    and "snd r = None \<longrightarrow> fs_get fs' (d @ [tmp]) = None"
    by (elim exE conjE)
  then show ?thesis by (intro exI [of _ fs'] conjI)
qed

subsection \<open>Removing empty directories: what is removed\<close>

definition only_dirs_removed :: "path \<Rightarrow> path \<Rightarrow> fs \<Rightarrow> fs \<Rightarrow> bool" where
  "only_dirs_removed boundary leaf fs fs' \<longleftrightarrow>
     (\<forall>q. fs_get fs' q = fs_get fs q \<or>
        fs_get fs q = Some DirNode \<and> fs_get fs' q = None \<and> strict_prefix boundary q \<and> prefix q leaf)"

definition none_left_empty :: "path \<Rightarrow> path \<Rightarrow> fs \<Rightarrow> bool" where
  "none_left_empty boundary leaf fs \<longleftrightarrow>
     (\<forall>q. strict_prefix boundary q \<and> prefix q leaf \<longrightarrow> fs_get fs q = None \<or> has_children fs q)"

lemma only_dirs_removed_refl: "only_dirs_removed b l fs fs"
  by (simp add: only_dirs_removed_def)

lemma remove_dir_plain:
  assumes "no_parent_refs (p @ [c])" "dirs_to fs (p @ [c])"
  shows "remove_dir (p @ [c]) fs =
    (if has_children fs (p @ [c]) then (Inl DirectoryNotEmpty, fs) else (Inr (), fs_del (p @ [c]) fs))"
proof -
  have "dirs_above fs (p @ [c])" using assms(2) by (auto simp: dirs_above_def dirs_to_def strict_prefix_def)
  then have "resolve_entry fs (p @ [c]) = Inr (p @ [c])" by (rule resolve_entry_plain [OF assms(1)])
  moreover have "fs_get fs (p @ [c]) = Some DirNode" using assms(2) by (simp add: dirs_to_def)
  ultimately show ?thesis by (simp add: remove_dir_def)
qed

lemma none_left_empty_stop:
  assumes "fs_wf fs" "has_children fs leaf"
  shows "none_left_empty boundary leaf fs"
  unfolding none_left_empty_def
proof (intro allI impI disjI2)
  fix q assume "strict_prefix boundary q \<and> prefix q leaf"
  moreover obtain r where "strict_prefix leaf r" "fs_get fs r \<noteq> None"
    using assms has_children_get by blast
  ultimately have "strict_prefix q r" "fs_get fs r \<noteq> None"
    by (auto intro: prefix_order.le_less_trans)
  then show "has_children fs q" using has_children_get [OF assms(1)] by blast
qed

lemma remove_empty_dirs_ok:
  "fs_wf fs \<Longrightarrow> no_parent_refs leaf \<Longrightarrow> dirs_to fs leaf \<Longrightarrow> prefix boundary leaf \<Longrightarrow>
     \<exists>fs'. remove_empty_dirs leaf boundary fs = (Inr (), fs') \<and> fs_wf fs' \<and>
       only_dirs_removed boundary leaf fs fs' \<and> none_left_empty boundary leaf fs'"
proof (induction leaf arbitrary: fs rule: rev_induct)
  case Nil
  then have "boundary = []" by simp
  with Nil(1) show ?case
    by (simp add: remove_empty_dirs.simps [of "[]"] contains_parent_dir_component_def
        only_dirs_removed_refl none_left_empty_def strict_prefix_def)
next
  case (snoc c p)
  let ?l = "p @ [c]"
  obtain rel where rel: "?l = boundary @ rel" using snoc.prems(4) by (auto simp: prefix_def)
  have nd: "\<not> contains_parent_dir_component rel"
    using snoc.prems(2) unfolding rel by (auto simp: contains_parent_dir_component_def list_ex_iff no_parent_refs_def)
  have sp: "strip_prefix boundary ?l = Some rel" using rel by (simp add: strip_prefix_iff)
  show ?case
  proof (cases "?l = boundary")
    case True
    then have "none_left_empty boundary ?l fs" 
      unfolding none_left_empty_def by (meson prefix_order.less_le_not_le)
    moreover have "remove_empty_dirs ?l boundary fs = (Inr (), fs)"
      using sp nd True by (simp add: remove_empty_dirs.simps [of boundary])
    ultimately show ?thesis using snoc.prems(1) only_dirs_removed_refl by blast
  next
    case False
    note rd = remove_dir_plain [OF snoc.prems(2,3)]
    show ?thesis
    proof (cases "has_children fs ?l")
      case True
      with rd sp nd False snoc.prems(1) none_left_empty_stop show ?thesis
        by (simp add: remove_empty_dirs.simps [of ?l] only_dirs_removed_refl)
    next
      case empty: False
      let ?f = "fs_del ?l fs"
      have wf: "fs_wf ?f" using snoc.prems(1) empty by (intro fs_wf_del) auto
      have dirs: "dirs_to ?f p" using snoc.prems(3)
        by (auto simp: dirs_to_def fs_get_del dest: prefix_length_le)
      have bp: "prefix boundary p" using snoc.prems(4) False by (auto simp: prefix_snoc_iff)
      have removed: "only_dirs_removed boundary ?l fs ?f"
        using snoc.prems(3) False snoc.prems(4)
        by (auto simp: only_dirs_removed_def fs_get_del dirs_to_def strict_prefix_def)
      show ?thesis
      proof (cases "p = boundary")
        case True
        have "none_left_empty boundary ?l ?f"
          using True by (auto simp: none_left_empty_def fs_get_del prefix_snoc_iff strict_prefix_def
              dest: prefix_order.antisym)
        moreover have "remove_empty_dirs ?l boundary fs = (Inr (), ?f)"
          by (subst remove_empty_dirs.simps, subst sp, subst rd) (use nd empty False True in simp)
        ultimately show ?thesis using removed wf by blast
      next
        case np: False
        have "no_parent_refs p" using snoc.prems(2) by (simp add: no_parent_refs_snoc)
        from snoc.IH [OF wf this dirs bp] obtain fs' where fs':
          "remove_empty_dirs p boundary ?f = (Inr (), fs')" "fs_wf fs'"
          "only_dirs_removed boundary p ?f fs'" "none_left_empty boundary p fs'" by blast
        have gone: "fs_get fs' ?l = None"
          using fs'(3) by (auto simp: only_dirs_removed_def fs_get_del dest: spec [of _ ?l])
        have "only_dirs_removed boundary ?l fs fs'"
          using removed fs'(3) unfolding only_dirs_removed_def
          by (metis prefix_order.order_trans prefixI)
        moreover have "none_left_empty boundary ?l fs'"
          using fs'(4) gone by (auto simp: none_left_empty_def prefix_snoc_iff)
        moreover have "remove_empty_dirs ?l boundary fs = (Inr (), fs')"
          by (subst remove_empty_dirs.simps, subst sp, subst rd) (use fs'(1) nd empty False np in simp)
        ultimately show ?thesis using fs'(2) by blast
      qed
    qed
  qed
qed

subsection \<open>Properties\<close>

text \<open>An atomic write is all or nothing: if the reader delivers everything, the destination holds
  exactly it and the temporary file is gone; if the reader fails, the error is returned and
  every path but the temporary one is as before.\<close>

theorem write_file_atomic_spec:
  assumes "fs_wf fs" "dirs_to fs d" "no_parent_refs d" "tmp \<noteq> ''..''" "name \<noteq> ''..''" "tmp \<noteq> name"
    and "fs_get fs (d @ [tmp]) = None" "fs_get fs (d @ [name]) \<noteq> Some DirNode"
  shows "\<exists>fs'. write_file_atomic r d tmp (d @ [name]) fs =
      (case snd r of None \<Rightarrow> Inr () | Some e \<Rightarrow> Inl e, fs') \<and>
    (\<forall>q. q \<noteq> d @ [tmp] \<longrightarrow> fs_get fs' q =
      (if q = d @ [name] \<and> snd r = None then Some (FileNode (fst r) created_mode) else fs_get fs q)) \<and>
    (snd r = None \<longrightarrow> fs_get fs' (d @ [tmp]) = None)"
  using assms by (rule write_file_atomic_ok)

theorem write_file_atomic_spec_witness:
  "\<exists>fs'. write_file_atomic (''ab'', Some InvalidData) [] ''t'' [''f''] [([''f''], FileNode ''old'' 420)] =
      (Inl InvalidData, fs') \<and> fs_get fs' [''f''] = Some (FileNode ''old'' 420)"
proof -
  let ?fs = "[([''f''], FileNode ''old'' 420)]"
  have "fs_wf ?fs" "dirs_to ?fs []" "fs_get ?fs [''t''] = None" "fs_get ?fs [''f''] = Some (FileNode ''old'' 420)"
    by (auto simp: fs_wf_def dirs_to_def fs_get_def)
  then show ?thesis
    using write_file_atomic_spec [of ?fs "[]" "''t''" "''f''" "(''ab'', Some InvalidData)"]
    by (auto simp: no_parent_refs_def)
qed

text \<open>C24: Removing empty directories upwards from a leaf succeeds, removes only empty directories
  strictly below the boundary (never a file), and leaves none of them empty.\<close>

theorem remove_empty_dirs_spec:
  assumes "fs_wf fs" "no_parent_refs leaf" "dirs_to fs leaf" "prefix boundary leaf"
  shows "\<exists>fs'. remove_empty_dirs leaf boundary fs = (Inr (), fs') \<and> fs_wf fs' \<and>
    only_dirs_removed boundary leaf fs fs' \<and> none_left_empty boundary leaf fs'"
  using assms by (rule remove_empty_dirs_ok)

theorem remove_empty_dirs_spec_witness:
  "\<exists>fs'. remove_empty_dirs [''a'', ''b''] [] [([''a''], DirNode), ([''a'', ''b''], DirNode)] = (Inr (), fs') \<and>
     fs_wf fs' \<and> only_dirs_removed [] [''a'', ''b''] [([''a''], DirNode), ([''a'', ''b''], DirNode)] fs' \<and>
     none_left_empty [] [''a'', ''b''] fs'"
proof (rule remove_empty_dirs_spec)
  have "prefix q [''a'', ''b''] \<longleftrightarrow> q = [] \<or> q = [''a''] \<or> q = [''a'', ''b'']" for q :: path
    by (cases q rule: list.exhaust; cases "tl q") auto
  then show "dirs_to [([''a''], DirNode), ([''a'', ''b''], DirNode)] [''a'', ''b'']"
    by (auto simp: dirs_to_def fs_get_def)
qed (auto simp: fs_wf_def no_parent_refs_def fs_get_def)

end
