(* ===== verification/Symlink.thy ===== *)
theory Symlink
  imports PackIdx RepoFs LegacyPath Ids
begin

text \<open>
  \<^verbatim>\<open>src/repo/symlink.rs\<close>: how link targets are stored, read back and materialised.  A native
  target is a byte string on Unix and a list of 16-bit units on Windows; the code chosen by
  \<^verbatim>\<open>cfg\<close> is a case of the platform.  The file-system steps are those of Unix.
\<close>

datatype native_target = UnixNative bytes | WindowsNative "nat list"

fun target_to_str :: "native_target \<Rightarrow> nat list option" where
  "target_to_str (UnixNative t) = (if is_utf8 t then Some (str_chars t) else None)"
| "target_to_str (WindowsNative us) = from_utf16 us"

definition windows_separator :: "nat \<Rightarrow> bool" where
  "windows_separator u \<longleftrightarrow> u = 0x5C \<or> u = 0x2F"

text \<open>\<^verbatim>\<open>Path::is_absolute\<close>: on Windows a drive followed by a root, or two separators.\<close>

fun target_is_absolute :: "native_target \<Rightarrow> bool" where
  "target_is_absolute (UnixNative t) = (t \<noteq> [] \<and> hd t = CHR ''/'')"
| "target_is_absolute (WindowsNative us) =
     (case us of
        u # v # w # _ \<Rightarrow>
          (windows_separator u \<and> windows_separator v) \<or>
          (u < 128 \<and> is_ascii_alphabetic (byte_of u) \<and> v = 0x3A \<and> windows_separator w)
      | [u, v] \<Rightarrow> windows_separator u \<and> windows_separator v
      | _ \<Rightarrow> False)"

fun portable_text :: "native_target \<Rightarrow> nat list \<Rightarrow> nat list option" where
  "portable_text (WindowsNative us) text = Some (map (\<lambda>u. if u = 0x5C then 0x2F else u) text)"
| "portable_text (UnixNative t) text = (if 0x5C \<in> set text then None else Some text)"

definition portable_native_target :: "native_target \<Rightarrow> bytes option" where
  "portable_native_target target =
     (case target_to_str target of
        None \<Rightarrow> None
      | Some text \<Rightarrow>
          if text = [] \<or> target_is_absolute target then None
          else case portable_text target text of
            None \<Rightarrow> None
          | Some text \<Rightarrow>
              let bs = utf8_encode_str text
              in if hd text = 0x2F \<or> has_windows_prefix bs then None else Some bs)"

definition u16_le :: "nat \<Rightarrow> bytes" where "u16_le u = le_bytes 2 u"

fun encode_native_target :: "native_target \<Rightarrow> bytes \<times> symlink_target_encoding" where
  "encode_native_target (UnixNative t) = (t, UnixBytes)"
| "encode_native_target (WindowsNative us) = (concat (map u16_le us), WindowsUtf16Le)"

definition encode_target :: "native_target \<Rightarrow> bytes \<times> symlink_target_encoding" where
  "encode_target target =
     (case portable_native_target target of
        Some portable \<Rightarrow> (portable, PortableUtf8)
      | None \<Rightarrow> encode_native_target target)"

fun encode_target_as ::
    "pack_path \<Rightarrow> native_target \<Rightarrow> symlink_target_encoding \<Rightarrow> pack_error + bytes" where
  "encode_target_as entry target PortableUtf8 =
     ok_or (InvalidSymlinkTarget entry ''materialized target is not portable'')
       (portable_native_target target)"
| "encode_target_as entry (UnixNative t) UnixBytes = Inr t"
| "encode_target_as entry (WindowsNative us) UnixBytes =
     Inl (UnsupportedSymlinkTargetEncoding entry UnixBytes)"
| "encode_target_as entry (WindowsNative us) WindowsUtf16Le = Inr (concat (map u16_le us))"
| "encode_target_as entry (UnixNative t) WindowsUtf16Le =
     Inl (UnsupportedSymlinkTargetEncoding entry WindowsUtf16Le)"

definition native_of_str :: "platform \<Rightarrow> bytes \<Rightarrow> native_target" where
  "native_of_str pf t =
     (if pf = Windows then WindowsNative (concat (map utf16_units (str_chars t))) else UnixNative t)"

definition decode_portable_target :: "platform \<Rightarrow> pack_path \<Rightarrow> bytes \<Rightarrow> pack_error + native_target" where
  "decode_portable_target pf entry bs =
     (if \<not> is_utf8 bs then Inl (InvalidSymlinkTarget entry ''invalid UTF-8'')
      else if bs = [] \<or> CHR 0x00 \<in> set bs \<or> CHR 0x5C \<in> set bs
      then Inl (InvalidSymlinkTarget entry ''invalid portable target'')
      else if hd bs = CHR ''/'' \<or> target_is_absolute (native_of_str pf bs) \<or> has_windows_prefix bs
      then Inl (InvalidSymlinkTarget entry ''portable target is absolute'')
      else Inr (native_of_str pf bs))"

definition decode_unix_target :: "platform \<Rightarrow> pack_path \<Rightarrow> bytes \<Rightarrow> pack_error + native_target" where
  "decode_unix_target pf entry bs =
     (if pf = Windows then Inl (UnsupportedSymlinkTargetEncoding entry UnixBytes)
      else if CHR 0x00 \<in> set bs then Inl (InvalidSymlinkTarget entry ''Unix target contains NUL'')
      else Inr (UnixNative bs))"

fun u16_units :: "bytes \<Rightarrow> nat list" where
  "u16_units (a # b # bs) = of_le_bytes [a, b] # u16_units bs"
| "u16_units [a] = []"
| "u16_units [] = []"

definition decode_windows_target :: "platform \<Rightarrow> pack_path \<Rightarrow> bytes \<Rightarrow> pack_error + native_target" where
  "decode_windows_target pf entry bs =
     (if pf \<noteq> Windows then Inl (UnsupportedSymlinkTargetEncoding entry WindowsUtf16Le)
      else if length bs mod 2 \<noteq> 0
      then Inl (InvalidSymlinkTarget entry ''Windows target has an odd byte length'')
      else if 0 \<in> set (u16_units bs)
      then Inl (InvalidSymlinkTarget entry ''Windows target contains NUL'')
      else Inr (WindowsNative (u16_units bs)))"

fun decode_target ::
    "platform \<Rightarrow> pack_path \<Rightarrow> bytes \<Rightarrow> symlink_target_encoding \<Rightarrow> pack_error + native_target" where
  "decode_target pf entry bs PortableUtf8 = decode_portable_target pf entry bs"
| "decode_target pf entry bs UnixBytes = decode_unix_target pf entry bs"
| "decode_target pf entry bs WindowsUtf16Le = decode_windows_target pf entry bs"

definition target_kind :: "fs \<Rightarrow> path \<Rightarrow> symlink_target_kind" where
  "target_kind fs p =
     (case metadata fs p of
        Inr n \<Rightarrow> if is_dir_node n then TargetDirectory else TargetFile
      | Inl _ \<Rightarrow> TargetUnknown)"

subsection \<open>Materialising (Unix)\<close>

definition remove_leaf :: "path \<Rightarrow> (io_error, unit) fs_op" where
  "remove_leaf p fs =
     (case symlink_metadata fs p of
        Inl e \<Rightarrow> if e = NotFound then (Inr (), fs) else (Inl e, fs)
      | Inr n \<Rightarrow>
          if is_link_node n then remove_file p fs
          else if is_dir_node n then remove_dir p fs
          else remove_file p fs)"

definition replace_path :: "path \<Rightarrow> path \<Rightarrow> (io_error, unit) fs_op" where
  "replace_path temporary destination fs =
     (case fs_rename temporary destination fs of
        (Inr _, fs) \<Rightarrow> (Inr (), fs)
      | (Inl e, fs) \<Rightarrow>
          if is_ok (symlink_metadata fs destination)
          then andThen (remove_leaf destination) (\<lambda>_. fs_rename temporary destination) fs
          else (Inl e, fs))"

definition replace_or_clean :: "path \<Rightarrow> path \<Rightarrow> (io_error, unit) fs_op" where
  "replace_or_clean temporary destination fs =
     (case replace_path temporary destination fs of
        (Inr _, fs) \<Rightarrow> (Inr (), fs)
      | (Inl e, fs) \<Rightarrow> (Inl e, snd (remove_file temporary fs)))"

fun native_bytes :: "native_target \<Rightarrow> bytes" where
  "native_bytes (UnixNative t) = t"
| "native_bytes (WindowsNative us) = concat (map u16_le us)"

definition materialize ::
    "pack_path \<Rightarrow> bytes \<Rightarrow> symlink_target_encoding \<Rightarrow> symlink_target_kind \<Rightarrow> bytes \<Rightarrow> path \<Rightarrow>
     (pack_error, unit) fs_op" where
  "materialize entry bs enc kind tmp destination =
     andThen (liftr (decode_target Unix entry bs enc)) (\<lambda>target.
     if destination = [] then err (InvalidSymlinkTarget entry ''destination has no parent'')
     else let parent = butlast destination; temporary = parent @ [tmp] in
     andThen (lift_err PackIOError (create_dir_all parent)) (\<lambda>_.
     andThen (lift_err (SymlinkCreationUnsupported destination)
       (unix_symlink (native_bytes target) temporary)) (\<lambda>_.
     lift_err PackIOError (replace_or_clean temporary destination))))"

definition copy_or_clean :: "reader \<Rightarrow> path \<Rightarrow> path \<Rightarrow> (io_error, unit) fs_op" where
  "copy_or_clean r q temporary fs =
     (case io_copy r q fs of
        (Inr _, fs) \<Rightarrow> (Inr (), fs)
      | (Inl e, fs) \<Rightarrow> (Inl e, snd (remove_file temporary fs)))"

definition materialize_regular :: "reader \<Rightarrow> bytes \<Rightarrow> path \<Rightarrow> u32 \<Rightarrow> (io_error, unit) fs_op" where
  "materialize_regular r tmp destination mode =
     (if destination = [] then err InvalidInput
      else let parent = butlast destination; temporary = parent @ [tmp] in
      andThen (create_dir_all parent) (\<lambda>_.
      andThen (create_file temporary (Some mode)) (\<lambda>q.
      andThen (copy_or_clean r q temporary) (\<lambda>_.
      replace_or_clean temporary destination))))"

text \<open>SHA-1 is a parameter; the native kind of a link is not checked on Unix.\<close>

definition verify_materialized ::
    "(bytes \<Rightarrow> checksum) \<Rightarrow> pack_path \<Rightarrow> path \<Rightarrow> symlink_target_encoding \<Rightarrow> symlink_target_kind \<Rightarrow>
     checksum \<Rightarrow> fs \<Rightarrow> pack_error + unit" where
  "verify_materialized sha1 entry destination enc kind expected fs =
     rbind (map_err PackIOError (read_link fs destination)) (\<lambda>target.
     rbind (encode_target_as entry (UnixNative target) enc) (\<lambda>bs.
     if sha1 bs \<noteq> expected then Inl (ChecksumMismatch expected (sha1 bs)) else Inr ()))"

fun probe_kinds :: "path \<Rightarrow> bytes list \<Rightarrow> (pack_error, unit) fs_op" where
  "probe_kinds destination [] = ret ()"
| "probe_kinds destination (tmp # tmps) =
     andThen (lift_err PackIOError (create_dir (destination @ [tmp]))) (\<lambda>_ fs.
       case unix_symlink ''elfshaker-symlink-probe-target'' (destination @ [tmp, ''link'']) fs of
         (result, fs) \<Rightarrow>
           andThen (lift_err PackIOError (remove_dir_all (destination @ [tmp]))) (\<lambda>_.
           andThen (liftr (map_err (SymlinkCreationUnsupported destination) result)) (\<lambda>_.
           probe_kinds destination tmps)) fs)"

text \<open>One temporary name for each distinct kind.\<close>

definition probe :: "path \<Rightarrow> symlink_target_kind list \<Rightarrow> bytes list \<Rightarrow> (pack_error, unit) fs_op" where
  "probe destination kinds tmps =
     (if kinds = [] then ret ()
      else andThen (lift_err PackIOError (create_dir_all destination)) (\<lambda>_.
        probe_kinds destination (take (length (remdups kinds)) tmps)))"

subsection \<open>What materialising does\<close>

lemma replace_or_clean_ok:
  assumes "dirs_to fs d" "no_parent_refs d" "tmp \<noteq> ''..''" "name \<noteq> ''..''" "tmp \<noteq> name"
    and "fs_get fs (d @ [tmp]) = Some n" "\<not> is_dir_node n" "fs_get fs (d @ [name]) \<noteq> Some DirNode"
  shows "replace_or_clean (d @ [tmp]) (d @ [name]) fs =
    (Inr (), fs_put (d @ [name]) n (fs_del (d @ [tmp]) fs))"
  using fs_rename_file [OF assms] by (simp add: replace_or_clean_def replace_path_def)

text \<open>A destination that can be written: real or missing directories above, no directory in place.\<close>

definition writable_at :: "fs \<Rightarrow> path \<Rightarrow> bool" where
  "writable_at fs p \<longleftrightarrow>
     p \<noteq> [] \<and> no_parent_refs p \<and> dirs_or_missing fs (butlast p) \<and> fs_get fs p \<noteq> Some DirNode"

definition temp_free :: "fs \<Rightarrow> path \<Rightarrow> bytes \<Rightarrow> bool" where
  "temp_free fs p tmp \<longleftrightarrow> tmp \<noteq> ''..'' \<and> tmp \<noteq> last p \<and> fs_get fs (butlast p @ [tmp]) = None"

text \<open>The file system after a leaf was placed: directories above it, everything else unchanged.\<close>

definition placed :: "fs \<Rightarrow> path \<Rightarrow> node \<Rightarrow> fs \<Rightarrow> bool" where
  "placed fs p n fs' \<longleftrightarrow> fs_wf fs' \<and>
     (\<forall>q. fs_get fs' q =
        (if q = p then Some n else if prefix q (butlast p) then Some DirNode else fs_get fs q))"

lemma no_parent_refs_butlast:
  "p \<noteq> [] \<Longrightarrow> no_parent_refs p \<Longrightarrow> no_parent_refs (butlast p) \<and> last p \<noteq> ''..''"
  by (cases p rule: rev_cases) (auto simp: no_parent_refs_def)

lemma place_leaf:
  assumes fs: "fs_wf fs" "writable_at fs p" "temp_free fs p tmp"
    and c: "create_dir_all (butlast p) fs = (Inr (), fs1)" "fs_wf fs1"
      "\<And>q. fs_get fs1 q = (if prefix q (butlast p) then Some DirNode else fs_get fs q)"
    and t: "fs_wf fs2" "\<And>q. fs_get fs2 q = (if q = butlast p @ [tmp] then Some n else fs_get fs1 q)"
    and n: "\<not> is_dir_node n"
  shows "\<exists>fs'. replace_or_clean (butlast p @ [tmp]) p fs2 = (Inr (), fs') \<and> placed fs p n fs'"
proof -
  let ?d = "butlast p" and ?c = "last p"
  have p: "p = ?d @ [?c]" using fs(2) by (simp add: writable_at_def)
  have nd: "no_parent_refs ?d" "?c \<noteq> ''..''"
    using fs(2) no_parent_refs_butlast [of p] by (auto simp: writable_at_def)
  have tmp: "tmp \<noteq> ''..''" "tmp \<noteq> ?c" "fs_get fs (?d @ [tmp]) = None"
    using fs(3) by (auto simp: temp_free_def)
  have long: "\<not> prefix (?d @ [x]) ?d" for x by (auto dest: prefix_length_le)
  have d2: "dirs_to fs2 ?d"
    using c(3) t(2) long by (auto simp: dirs_to_def)
  have g2: "fs_get fs2 (?d @ [tmp]) = Some n" using t(2) by simp
  have "fs_get fs2 p = fs_get fs p" using c(3) t(2) tmp(2) long [of ?c] p by (metis append1_eq_conv)
  then have b2: "fs_get fs2 (?d @ [?c]) \<noteq> Some DirNode"
    using fs(2) p by (simp add: writable_at_def)
  let ?f = "fs_put (?d @ [?c]) n (fs_del (?d @ [tmp]) fs2)"
  have "replace_or_clean (?d @ [tmp]) (?d @ [?c]) fs2 = (Inr (), ?f)"
    using replace_or_clean_ok [OF d2 nd(1) tmp(1) nd(2) tmp(2) g2 n b2] .
  moreover have tn: "fs_get fs2 (?d @ [tmp]) \<noteq> Some DirNode" using g2 n by auto
  note facts = fs_put_del_facts [OF t(1) d2 tmp(2) tn n b2]
  have "placed fs p n ?f"
    unfolding placed_def
  proof (intro conjI allI)
    show "fs_wf ?f" by (rule facts(1))
    show "fs_get ?f q = (if q = p then Some n else if prefix q ?d then Some DirNode else fs_get fs q)" for q
      using facts(2) [of q] t(2) c(3) p tmp(3) long [of tmp] by (auto split: if_splits)
  qed
  ultimately show ?thesis using p by auto
qed

lemma fs_wf_file:
  assumes "fs_wf fs" "fs_get fs t = Some (FileNode u v)"
  shows "fs_wf (fs_put t (FileNode x y) fs)"
proof (rule fs_wf_put [OF assms(1)])
  show t: "t \<noteq> []" using assms(2) by auto
  show "fs_get fs (butlast t) = Some DirNode"
    using fs_wf_parent [of fs "butlast t" "last t"] assms t by simp
  show "FileNode x y \<noteq> DirNode \<longrightarrow> \<not> has_children fs t"
    using children_need_dir [OF assms(1), of t] assms(2) by auto
qed

text \<open>Up to the copy: the directories are there, the temporary file is empty and has the mode.\<close>

lemma regular_staged:
  assumes "fs_wf fs" "writable_at fs p" "temp_free fs p tmp"
  shows "\<exists>fs1 fs2. create_dir_all (butlast p) fs = (Inr (), fs1) \<and> fs_wf fs1 \<and>
    (\<forall>q. fs_get fs1 q = (if prefix q (butlast p) then Some DirNode else fs_get fs q)) \<and>
    create_file (butlast p @ [tmp]) (Some mode) fs1 = (Inr (butlast p @ [tmp]), fs2) \<and> fs_wf fs2 \<and>
    (\<forall>q. fs_get fs2 q = (if q = butlast p @ [tmp] then Some (FileNode [] (and mode permission_bits)) else fs_get fs1 q))"
proof -
  let ?d = "butlast p" and ?t = "butlast p @ [tmp]"
  have nd: "no_parent_refs ?d" and dm: "dirs_or_missing fs ?d"
    using assms(2) no_parent_refs_butlast [of p] by (auto simp: writable_at_def)
  obtain fs1 where c: "create_dir_all ?d fs = (Inr (), fs1)" "fs_wf fs1"
      "\<And>q. fs_get fs1 q = (if prefix q ?d then Some DirNode else fs_get fs q)"
    using create_dir_all_ok [OF assms(1) nd dm] by blast
  have d1: "dirs_to fs1 ?d" using c(3) by (simp add: dirs_to_def)
  have long: "\<not> prefix ?t ?d" by (auto dest: prefix_length_le)
  have none: "fs_get fs1 ?t = None" "tmp \<noteq> ''..''"
    using assms(3) c(3) long by (auto simp: temp_free_def)
  let ?f1 = "fs_put ?t (FileNode [] created_mode) fs1"
  let ?f2 = "fs_put ?t (FileNode [] (and mode permission_bits)) ?f1"
  have w1: "fs_wf ?f1" using c(2) d1 none(1) by (intro fs_wf_same_domain) auto
  have "fs_wf ?f2" by (rule fs_wf_file [OF w1, of ?t]) (simp_all add: fs_get_put)
  moreover have "create_file ?t (Some mode) fs1 = (Inr ?t, ?f2)"
    using fs_create_new [OF d1 nd none(2,1), of created_mode]
    by (simp add: create_file_def andThen_def fs_set_mode_def ret_def fs_get_put)
  ultimately show ?thesis using c by (intro exI [of _ fs1] exI [of _ ?f2]) (auto simp: fs_get_put)
qed

lemma materialize_regular_ok:
  assumes "fs_wf fs" "writable_at fs p" "temp_free fs p tmp"
  shows "\<exists>fs'. materialize_regular (data, None) tmp p mode fs = (Inr (), fs') \<and>
    placed fs p (FileNode data (and mode permission_bits)) fs'"
proof -
  let ?t = "butlast p @ [tmp]" and ?n = "FileNode data (and mode permission_bits)"
  obtain fs1 fs2 where c: "create_dir_all (butlast p) fs = (Inr (), fs1)" "fs_wf fs1"
      "\<And>q. fs_get fs1 q = (if prefix q (butlast p) then Some DirNode else fs_get fs q)"
      "create_file ?t (Some mode) fs1 = (Inr ?t, fs2)" "fs_wf fs2"
      "\<And>q. fs_get fs2 q = (if q = ?t then Some (FileNode [] (and mode permission_bits)) else fs_get fs1 q)"
    using regular_staged [OF assms, of mode] by blast
  have p: "p \<noteq> []" using assms(2) by (simp add: writable_at_def)
  have copied: "copy_or_clean (data, None) ?t ?t fs2 = (Inr (), fs_put ?t ?n fs2)"
    by (simp add: copy_or_clean_def io_copy_def andThen_def fs_append_def ret_def c(6))
  have "materialize_regular (data, None) tmp p mode fs = replace_or_clean ?t p (fs_put ?t ?n fs2)"
    using c(1,4) p by (simp add: materialize_regular_def Let_def andThen_Inr copied)
  moreover have "fs_wf (fs_put ?t ?n fs2)" by (rule fs_wf_file [OF c(5), of ?t]) (simp_all add: c(6))
  then have "\<exists>fs'. replace_or_clean ?t p (fs_put ?t ?n fs2) = (Inr (), fs') \<and> placed fs p ?n fs'"
    by (rule place_leaf [OF assms c(1-3)]) (simp_all add: fs_get_put c(6))
  ultimately show ?thesis by simp
qed

text \<open>A reader that fails: its error is returned, and the temporary file is removed again.\<close>

lemma materialize_regular_failed:
  assumes "fs_wf fs" "writable_at fs p" "temp_free fs p tmp"
  shows "\<exists>fs'. materialize_regular (data, Some e) tmp p mode fs = (Inl e, fs') \<and>
    (\<forall>q. fs_get fs' q = (if prefix q (butlast p) then Some DirNode else fs_get fs q))"
proof -
  let ?d = "butlast p" and ?t = "butlast p @ [tmp]" and ?n = "FileNode data (and mode permission_bits)"
  obtain fs1 fs2 where c: "create_dir_all ?d fs = (Inr (), fs1)"
      "\<And>q. fs_get fs1 q = (if prefix q ?d then Some DirNode else fs_get fs q)"
      "create_file ?t (Some mode) fs1 = (Inr ?t, fs2)"
      "\<And>q. fs_get fs2 q = (if q = ?t then Some (FileNode [] (and mode permission_bits)) else fs_get fs1 q)"
    using regular_staged [OF assms, of mode] by blast
  let ?f3 = "fs_put ?t ?n fs2"
  have p: "p \<noteq> []" "no_parent_refs ?d" using assms(2) no_parent_refs_butlast [of p] by (auto simp: writable_at_def)
  have tmp: "tmp \<noteq> ''..''" "fs_get fs ?t = None" using assms(3) by (simp_all add: temp_free_def)
  have long: "\<not> prefix ?t ?d" by (auto dest: prefix_length_le)
  have get: "fs_get ?f3 q = (if q = ?t then Some ?n else fs_get fs1 q)" for q
    by (simp add: fs_get_put c(4))
  have "dirs_to ?f3 ?d" using long by (auto simp: dirs_to_def get c(2))
  then have "resolve_entry ?f3 ?t = Inr ?t" using p(2) tmp(1) by (intro dirs_to_snoc)
  then have "remove_file ?t ?f3 = (Inr (), fs_del ?t ?f3)" by (simp add: remove_file_def get)
  then have copied: "copy_or_clean (data, Some e) ?t ?t fs2 = (Inl e, fs_del ?t ?f3)"
    by (simp add: copy_or_clean_def io_copy_def andThen_def fs_append_def err_def c(4))
  have "materialize_regular (data, Some e) tmp p mode fs = (Inl e, fs_del ?t ?f3)"
    using c(1,3) p(1) by (simp add: materialize_regular_def Let_def andThen_Inr andThen_Inl copied)
  moreover have "fs_get (fs_del ?t ?f3) q = (if prefix q ?d then Some DirNode else fs_get fs q)" for q
    using long tmp(2) by (auto simp: fs_get_del get c(2))
  ultimately show ?thesis by simp
qed

lemma materialize_ok:
  assumes "fs_wf fs" "writable_at fs p" "temp_free fs p tmp"
    and "decode_target Unix entry bs enc = Inr target" "native_bytes target \<noteq> []"
  shows "\<exists>fs'. materialize entry bs enc kind tmp p fs = (Inr (), fs') \<and>
    placed fs p (LinkNode (native_bytes target)) fs'"
proof -
  let ?d = "butlast p" and ?t = "butlast p @ [tmp]" and ?n = "LinkNode (native_bytes target)"
  have nd: "no_parent_refs ?d" and dm: "dirs_or_missing fs ?d" and p: "p \<noteq> []"
    using assms(2) no_parent_refs_butlast [of p] by (auto simp: writable_at_def)
  obtain fs1 where c: "create_dir_all ?d fs = (Inr (), fs1)" "fs_wf fs1"
      "\<And>q. fs_get fs1 q = (if prefix q ?d then Some DirNode else fs_get fs q)"
    using create_dir_all_ok [OF assms(1) nd dm] by blast
  have d1: "dirs_to fs1 ?d" using c(3) by (simp add: dirs_to_def)
  have long: "\<not> prefix ?t ?d" by (auto dest: prefix_length_le)
  have none: "fs_get fs1 ?t = None" "tmp \<noteq> ''..''"
    using assms(3) c(3) long by (auto simp: temp_free_def)
  have "unix_symlink (native_bytes target) ?t fs1 = (Inr (), fs_put ?t ?n fs1)"
    using assms(5) dirs_to_snoc [OF d1 nd none(2)] none(1) by (simp add: unix_symlink_def)
  moreover have "create_dir_all ?d fs = (Inr (), fs1)" by (rule c(1))
  ultimately have "materialize entry bs enc kind tmp p fs =
      lift_err PackIOError (replace_or_clean ?t p) (fs_put ?t ?n fs1)"
    using p assms(4) by (simp add: materialize_def Let_def andThen_def liftr_def lift_err_def)
  moreover have "fs_wf (fs_put ?t ?n fs1)" using c(2) d1 none(1) by (intro fs_wf_same_domain) auto
  then have "\<exists>fs'. replace_or_clean ?t p (fs_put ?t ?n fs1) = (Inr (), fs') \<and> placed fs p ?n fs'"
    by (intro place_leaf [OF assms(1-3) c]) (simp_all add: fs_get_put)
  ultimately show ?thesis by (auto simp: lift_err_def)
qed

subsection \<open>Encoding and decoding targets\<close>

lemma has_prefix_nonempty: "has_windows_prefix bs \<Longrightarrow> bs \<noteq> []"
  by (auto simp: has_windows_prefix_def)

lemma ascii_iff_utf8:
  assumes "\<forall>u \<in> set us. is_scalar u" and "byte_val c < 128"
  shows "c \<in> set (utf8_encode_str us) \<longleftrightarrow> byte_val c \<in> set us"
proof
  assume "byte_val c \<in> set us"
  moreover have "utf8_encode (byte_val c) = [c]" using utf8_encode_ascii_char [OF assms(2)] by simp
  ultimately show "c \<in> set (utf8_encode_str us)" unfolding utf8_encode_str_def by force
qed (rule ascii_in_utf8 [OF assms(1) _ assms(2)])

lemma utf8_str_empty [simp]: "utf8_encode_str us = [] \<longleftrightarrow> us = []"
  by (cases us) (auto simp: utf8_encode_str_def utf8_encode_neq_Nil)

lemma hd_utf8:
  assumes "\<forall>u \<in> set us. is_scalar u" "us \<noteq> []" "byte_val c < 128"
  shows "hd (utf8_encode_str us) = c \<longleftrightarrow> hd us = byte_val c"
proof -
  obtain u vs where us: "us = u # vs" using assms(2) by (cases us) auto
  have hd: "hd (utf8_encode_str us) = hd (utf8_encode u)"
    using us utf8_encode_neq_Nil [of u] by (simp add: utf8_encode_str_def hd_append)
  show ?thesis
  proof
    assume "hd (utf8_encode_str us) = c"
    then have "c \<in> set (utf8_encode u)" using hd utf8_encode_neq_Nil [of u] by (metis list.set_sel(1))
    with assms us utf8_encode_ascii [of u c] show "hd us = byte_val c" by simp
  next
    assume "hd us = byte_val c"
    then show "hd (utf8_encode_str us) = c"
      using hd us assms(3) utf8_encode_ascii_char [of u] by simp
  qed
qed

lemma slash_vals: "byte_val CHR ''/'' = 0x2F" "byte_val CHR 0x5C = 0x5C" "byte_val CHR 0x00 = 0"
  "byte_val CHR '':'' = 0x3A"
  by (simp_all add: byte_val_def)

text \<open>What a portable target looks like.\<close>

definition portable_bytes :: "bytes \<Rightarrow> bool" where
  "portable_bytes bs \<longleftrightarrow>
     is_utf8 bs \<and> bs \<noteq> [] \<and> CHR 0x5C \<notin> set bs \<and> hd bs \<noteq> CHR ''/'' \<and> \<not> has_windows_prefix bs"

definition units_ok :: "native_target \<Rightarrow> bool" where
  "units_ok t = (case t of UnixNative _ \<Rightarrow> True | WindowsNative us \<Rightarrow> \<forall>u \<in> set us. u < 0x10000)"

lemma target_to_str_scalar:
  "units_ok t \<Longrightarrow> target_to_str t = Some tx \<Longrightarrow> \<forall>u \<in> set tx. is_scalar u"
proof (cases t)
  case (UnixNative b)
  assume "target_to_str t = Some tx"
  with UnixNative have "from_utf8 b = Inr tx"
    by (auto simp: is_utf8_def is_ok_iff str_chars_def split: if_splits)
  then show ?thesis by (simp add: from_utf8_sound)
next
  case (WindowsNative us)
  assume "units_ok t" "target_to_str t = Some tx"
  with WindowsNative show ?thesis using from_utf16_scalar [of us tx] by (simp add: units_ok_def)
qed

lemma portable_native_target_bytes:
  assumes "units_ok t" "portable_native_target t = Some bs"
  shows "portable_bytes bs"
proof -
  obtain tx tx' where tx: "target_to_str t = Some tx" "tx \<noteq> []" "portable_text t tx = Some tx'"
    and bs: "bs = utf8_encode_str tx'" "hd tx' \<noteq> 0x2F" "\<not> has_windows_prefix bs"
    using assms(2) by (auto simp: portable_native_target_def Let_def split: option.splits if_splits)
  have sc: "\<forall>u \<in> set tx. is_scalar u" by (rule target_to_str_scalar [OF assms(1) tx(1)])
  have sc': "\<forall>u \<in> set tx'. is_scalar u" and no: "0x5C \<notin> set tx'" and ne: "tx' \<noteq> []"
    using tx(2,3) sc by (cases t; auto simp: is_scalar_def split: if_splits)+
  have "CHR 0x5C \<notin> set bs"
    using ascii_iff_utf8 [OF sc', of "CHR 0x5C"] no bs(1) by (simp add: slash_vals)
  moreover have "hd bs \<noteq> CHR ''/''"
    using hd_utf8 [OF sc' ne, of "CHR ''/''"] bs by (simp add: slash_vals)
  ultimately show ?thesis using sc' bs ne by (auto simp: portable_bytes_def is_utf8_iff)
qed

lemma utf16_first:
  assumes "is_scalar c" "hd (utf16_units c @ vs) = u" "u < 0xD800"
  shows "c = u \<and> utf16_units c = [c]"
  using assms by (auto simp: utf16_units_def is_scalar_def split: if_splits)

lemma utf16_units_neq_Nil: "utf16_units c \<noteq> []"
  by (simp add: utf16_units_def)

lemma windows_absolute_text:
  assumes "is_utf8 bs" "target_is_absolute (WindowsNative (concat (map utf16_units (str_chars bs))))"
  shows "hd bs = CHR ''/'' \<or> CHR 0x5C \<in> set bs \<or> has_windows_prefix bs"
proof -
  obtain cs where cs: "\<forall>u \<in> set cs. is_scalar u" "bs = utf8_encode_str cs"
    using assms(1) by (auto simp: is_utf8_iff)
  then have chars: "str_chars bs = cs" by (simp add: str_chars_encode)
  let ?us = "concat (map utf16_units cs)"
  have abs: "target_is_absolute (WindowsNative ?us)" using assms(2) chars by simp
  then obtain u v r where us: "?us = u # v # r"
    by (auto split: list.splits)
  then obtain c ds where c: "cs = c # ds" by (cases cs) auto
  have first: "c = u \<and> utf16_units c = [c]" if "u < 0xD800"
    using utf16_first [of c _ u] c cs(1) us that by (metis list.sel(1) list.set_intros(1) concat.simps(2) list.simps(9))
  consider (sep) "windows_separator u"
    | (drive) "u < 128" "is_ascii_alphabetic (byte_of u)" "v = 0x3A"
    using abs us by (cases r) auto
  then show ?thesis
  proof cases
    case sep
    then have "u = 0x5C \<or> u = 0x2F" by (simp add: windows_separator_def)
    moreover have "c = u" using first calculation by auto
    ultimately show ?thesis
      using hd_utf8 [OF cs(1), of "CHR ''/''"] ascii_iff_utf8 [OF cs(1), of "CHR 0x5C"] c cs(2)
      by (auto simp: slash_vals)
  next
    case drive
    then have cu: "c = u" "utf16_units c = [c]" using first by auto
    with us c have rest: "concat (map utf16_units ds) = v # r" by simp
    then obtain d es where d: "ds = d # es" by (cases ds) auto
    have "d = v"
      using utf16_first [of d _ v] d cs(1) c rest drive(3)
      by (metis list.sel(1) list.set_intros concat.simps(2) list.simps(9) numeral_less_iff semiring_norm(75,76,78,81))
    then have "bs = byte_of u # CHR '':'' # utf8_encode_str es"
      using cs(2) c d cu drive utf8_encode_ascii_char [of u] utf8_encode_ascii_char [of v]
      by (simp add: utf8_encode_str_def) (metis byte_of_val slash_vals(4))
    with drive(2) show ?thesis by (simp add: has_windows_prefix_def)
  qed
qed

lemma decode_portable:
  assumes "portable_bytes bs" "CHR 0x00 \<notin> set bs"
  shows "decode_target pf entry bs PortableUtf8 = Inr (native_of_str pf bs)"
proof -
  have "\<not> target_is_absolute (native_of_str pf bs)"
    using assms windows_absolute_text [of bs] by (auto simp: portable_bytes_def native_of_str_def)
  with assms show ?thesis by (simp add: decode_portable_target_def portable_bytes_def)
qed

lemma u16_units_le:
  assumes "\<forall>u \<in> set us. u < 0x10000"
  shows "u16_units (concat (map u16_le us)) = us" and "length (concat (map u16_le us)) = 2 * length us"
proof -
  have two: "\<exists>a b. le_bytes 2 u = [a, b]" for u
    using length_le_bytes [of 2 u] by (metis (no_types) length_0_conv length_Suc_conv numeral_2_eq_2)
  have "u16_units (u16_le u @ bs) = u # u16_units bs" if "u < 0x10000" for u bs
  proof -
    obtain a b where ab: "le_bytes 2 u = [a, b]" using two by blast
    with of_le_le_bytes [of 2 u] that have "of_le_bytes [a, b] = u" by simp
    with ab show ?thesis by (simp add: u16_le_def)
  qed
  with assms show "u16_units (concat (map u16_le us)) = us" by (induction us) auto
  show "length (concat (map u16_le us)) = 2 * length us"
    by (induction us) (simp_all add: u16_le_def)
qed

lemma portable_unix:
  assumes "portable_native_target (UnixNative t) = Some bs"
  shows "bs = t"
  using assms str_chars_sound [of t]
  by (auto simp: portable_native_target_def Let_def split: if_splits)

lemma portable_unix_bytes:
  assumes "portable_bytes bs"
  shows "portable_native_target (UnixNative bs) = Some bs"
proof -
  obtain us where us: "\<forall>u \<in> set us. is_scalar u" "bs = utf8_encode_str us"
    using assms by (auto simp: portable_bytes_def is_utf8_iff)
  then have chars: "str_chars bs = us" by (simp add: str_chars_encode)
  have "0x5C \<notin> set us"
    using assms ascii_iff_utf8 [OF us(1), of "CHR 0x5C"] us(2) by (simp add: portable_bytes_def slash_vals)
  moreover have "us \<noteq> []" using assms us(2) by (auto simp: portable_bytes_def)
  moreover from this have "hd us \<noteq> 0x2F"
    using assms hd_utf8 [OF us(1), of "CHR ''/''"] us(2) by (simp add: portable_bytes_def slash_vals)
  ultimately show ?thesis
    using assms chars us(2)
    by (auto simp: portable_native_target_def portable_bytes_def Let_def)
qed

lemma encode_target_as_decoded:
  assumes "decode_target Unix entry bs enc = Inr target"
  shows "target = UnixNative bs \<and> encode_target_as entry target enc = Inr bs"
proof (cases enc)
  case PortableUtf8
  with assms have "portable_bytes bs" "target = UnixNative bs"
    by (auto simp: decode_portable_target_def portable_bytes_def native_of_str_def split: if_splits)
  with PortableUtf8 portable_unix_bytes [of bs] show ?thesis by simp
next
  case UnixBytes
  with assms show ?thesis by (auto simp: decode_unix_target_def split: if_splits)
next
  case WindowsUtf16Le
  with assms show ?thesis by (simp add: decode_windows_target_def)
qed

subsection \<open>Properties\<close>

text \<open>A stored link target decodes to the target it was made from, on Unix always (without NUL)
  and on Windows when stored as UTF-16; a target stored as portable decodes on every
  platform, so no platform takes it for an absolute path.\<close>

theorem symlink_target_round_trip:
  assumes "units_ok t" and e: "encode_target t = (bs, enc)"
  shows "(case t of
      UnixNative b \<Rightarrow> CHR 0x00 \<notin> set b \<longrightarrow> decode_target Unix entry bs enc = Inr t
    | WindowsNative us \<Rightarrow> 0 \<notin> set us \<and> enc = WindowsUtf16Le \<longrightarrow>
        decode_target Windows entry bs enc = Inr t) \<and>
    (enc = PortableUtf8 \<and> CHR 0x00 \<notin> set bs \<longrightarrow>
      decode_target pf entry bs enc = Inr (native_of_str pf bs))"
proof (intro conjI impI)
  have port: "portable_bytes bs" if "enc = PortableUtf8"
    using that e portable_native_target_bytes [OF assms(1)]
    by (cases t) (auto simp: encode_target_def split: option.splits)
  then show "decode_target pf entry bs enc = Inr (native_of_str pf bs)"
    if "enc = PortableUtf8 \<and> CHR 0x00 \<notin> set bs"
    using that decode_portable by simp
  show "case t of
      UnixNative b \<Rightarrow> CHR 0x00 \<notin> set b \<longrightarrow> decode_target Unix entry bs enc = Inr t
    | WindowsNative us \<Rightarrow> 0 \<notin> set us \<and> enc = WindowsUtf16Le \<longrightarrow>
        decode_target Windows entry bs enc = Inr t"
  proof (cases t)
    case (UnixNative b)
    have "decode_target Unix entry bs enc = Inr t" if nul: "CHR 0x00 \<notin> set b"
    proof (cases "portable_native_target t")
      case None
      with e UnixNative nul show ?thesis by (auto simp: encode_target_def decode_unix_target_def)
    next
      case (Some p)
      with e have enc: "enc = PortableUtf8" "bs = p" by (auto simp: encode_target_def)
      moreover have "p = b" using Some UnixNative portable_unix by simp
      ultimately show ?thesis
        using decode_portable [OF port, of Unix entry] nul UnixNative by (simp add: native_of_str_def)
    qed
    with UnixNative show ?thesis by simp
  next
    case (WindowsNative us)
    with assms u16_units_le [of us] show ?thesis
      by (auto simp: encode_target_def decode_windows_target_def units_ok_def split: option.splits)
  qed
qed

theorem symlink_target_round_trip_witness:
  "decode_target Unix (PackPath ''l'') ''../lib/x'' PortableUtf8 = Inr (UnixNative ''../lib/x'')"
proof -
  have asc: "list_all (\<lambda>b. byte_val b < 128) ''../lib/x''" by (simp add: byte_val_def)
  have "portable_bytes ''../lib/x''"
    using ascii_string(1) [OF asc] by (simp add: portable_bytes_def has_windows_prefix_def
        is_ascii_alphabetic_def ascii_upper_def ascii_lower_def byte_val_def)
  then have "encode_target (UnixNative ''../lib/x'') = (''../lib/x'', PortableUtf8)"
    by (simp add: encode_target_def portable_unix_bytes)
  from symlink_target_round_trip [OF _ this] show ?thesis
    by (simp add: units_ok_def native_of_str_def)
qed

text \<open>Materialising a link creates the missing directories and puts exactly this link at the
  destination, touching nothing else; verification then succeeds exactly when the expected
  checksum is that of the stored target.\<close>

theorem symlink_materialize_verified:
  assumes "fs_wf fs" "writable_at fs p" "temp_free fs p tmp"
    and "decode_target Unix entry bs enc = Inr target" "bs \<noteq> []"
  shows "\<exists>fs'. materialize entry bs enc kind tmp p fs = (Inr (), fs') \<and>
    placed fs p (LinkNode bs) fs' \<and>
    verify_materialized sha1 entry p enc kind c fs' =
      (if sha1 bs = c then Inr () else Inl (ChecksumMismatch c (sha1 bs)))"
proof -
  have t: "target = UnixNative bs" "encode_target_as entry target enc = Inr bs"
    using encode_target_as_decoded [OF assms(4)] by auto
  obtain fs' where fs': "materialize entry bs enc kind tmp p fs = (Inr (), fs')" "placed fs p (LinkNode bs) fs'"
    using materialize_ok [OF assms(1-4), of kind] t(1) assms(5) by auto
  have np: "no_parent_refs p" "p \<noteq> []" using assms(2) by (auto simp: writable_at_def)
  have get: "fs_get fs' p = Some (LinkNode bs)" using fs'(2) by (simp add: placed_def)
  have "dirs_above fs' p"
    using fs'(2) fs_wf_prefix [of fs' p] get by (auto simp: dirs_above_def placed_def)
  then have "read_link fs' p = Inr bs"
    using symlink_metadata_plain [OF np(1)] get by (simp add: read_link_def)
  then have "verify_materialized sha1 entry p enc kind c fs' =
      (if sha1 bs = c then Inr () else Inl (ChecksumMismatch c (sha1 bs)))"
    using t by (simp add: verify_materialized_def)
  with fs' show ?thesis by blast
qed

theorem symlink_materialize_verified_witness:
  "\<exists>fs'. materialize (PackPath ''d/l'') ''x'' UnixBytes TargetFile ''tmp'' [''d'', ''l''] [] = (Inr (), fs') \<and>
     placed [] [''d'', ''l''] (LinkNode ''x'') fs' \<and>
     verify_materialized (\<lambda>b. b) (PackPath ''d/l'') [''d'', ''l''] UnixBytes TargetFile ''y'' fs' =
       Inl (ChecksumMismatch ''y'' ''x'')"
proof -
  have "writable_at [] [''d'', ''l'']" "temp_free [] [''d'', ''l''] ''tmp''"
    by (auto simp: writable_at_def no_parent_refs_def dirs_or_missing_def temp_free_def fs_get_def)
  from symlink_materialize_verified [OF _ this, of "PackPath ''d/l''" "''x''" UnixBytes _ TargetFile
      "\<lambda>b. b" "''y''"]
  show ?thesis by (simp add: fs_wf_def decode_unix_target_def)
qed

text \<open>C19: Materialising a regular file is all or nothing.  When the reader gives all its data, a file with
  exactly the data and the permission bits is at the destination, over a file or a link that was
  there, and nothing else changes but missing directories above it.  When the reader fails, its error is
  returned and nothing changes but these directories: no part of the data stays behind.\<close>

theorem materialize_regular_spec:
  assumes "fs_wf fs" "writable_at fs p" "temp_free fs p tmp"
  shows "(\<exists>fs'. materialize_regular (data, None) tmp p mode fs = (Inr (), fs') \<and>
      placed fs p (FileNode data (and mode permission_bits)) fs') \<and>
    (\<exists>fs'. materialize_regular (data, Some e) tmp p mode fs = (Inl e, fs') \<and>
      (\<forall>q. fs_get fs' q = (if prefix q (butlast p) then Some DirNode else fs_get fs q)))"
  using materialize_regular_ok [OF assms] materialize_regular_failed [OF assms] by blast

theorem materialize_regular_spec_witness:
  "(\<exists>fs'. materialize_regular (''data'', None) ''tmp'' [''d'', ''f''] 0x81B4
      [([''d''], DirNode), ([''d'', ''f''], LinkNode ''/etc/passwd'')] = (Inr (), fs') \<and>
    placed [([''d''], DirNode), ([''d'', ''f''], LinkNode ''/etc/passwd'')] [''d'', ''f'']
      (FileNode ''data'' 0x1B4) fs') \<and>
   (\<exists>fs'. materialize_regular (''da'', Some OtherIo) ''tmp'' [''d'', ''f''] 0x81B4
      [([''d''], DirNode), ([''d'', ''f''], LinkNode ''/etc/passwd'')] = (Inl OtherIo, fs') \<and>
    fs_get fs' [''d'', ''f''] = Some (LinkNode ''/etc/passwd'') \<and> fs_get fs' [''d'', ''tmp''] = None)"
proof -
  let ?fs = "[([''d''], DirNode), ([''d'', ''f''], LinkNode ''/etc/passwd'')]"
  have "prefix q [''d''] \<longleftrightarrow> q = [] \<or> q = [''d'']" for q :: path
    by (cases q) auto
  then have ok: "fs_wf ?fs" "writable_at ?fs [''d'', ''f'']" "temp_free ?fs [''d'', ''f''] ''tmp''"
    by (auto simp: fs_wf_def writable_at_def no_parent_refs_def dirs_or_missing_def temp_free_def fs_get_def)
  have "\<exists>fs'. materialize_regular (''da'', Some OtherIo) ''tmp'' [''d'', ''f''] 0x81B4 ?fs = (Inl OtherIo, fs') \<and>
      fs_get fs' [''d'', ''f''] = fs_get ?fs [''d'', ''f''] \<and> fs_get fs' [''d'', ''tmp''] = fs_get ?fs [''d'', ''tmp'']"
    using materialize_regular_spec [OF ok, of "''da''" "0x81B4" OtherIo] by auto
  moreover have "and 0x81B4 permission_bits = (0x1B4 :: u32)" by (simp add: permission_bits_def)
  ultimately show ?thesis using materialize_regular_spec [OF ok, of "''data''" "0x81B4"] by (simp add: fs_get_def)
qed

end
