(* ===== verification/ObjectLayout.thy ===== *)
theory ObjectLayout
  imports IndexInv "HOL-Library.Multiset"
begin

text \<open>
  The layout that \<^verbatim>\<open>compute_object_offsets_and_ordering\<close> of \<^verbatim>\<open>src/packidx.rs\<close> gives a pack: the
  objects in order of size, one after the other, each at its recorded offset.
\<close>

lemma map_of_update_offset:
  "map_of (map (\<lambda>(k, om). if k = h then (k, om\<lparr>om_offset := pos\<rparr>) else (k, om)) m) x =
     (if x = h then map_option (\<lambda>om. om\<lparr>om_offset := pos\<rparr>) (map_of m x) else map_of m x)"
  by (induction m) auto

lemma assign_offsets_other:
  "h \<notin> snd ` set sh \<Longrightarrow> map_of (assign_offsets pos sh m) h = map_of m h"
  by (induction pos sh m rule: assign_offsets.induct) (auto simp: map_of_update_offset)

lemma assign_offsets_nth:
  "distinct (map snd sh) \<Longrightarrow> i < length sh \<Longrightarrow>
     map_of (assign_offsets pos sh m) (snd (sh ! i)) =
       map_option (\<lambda>om. om\<lparr>om_offset := pos + sum_list (map fst (take i sh))\<rparr>)
         (map_of m (snd (sh ! i)))"
proof (induction pos sh m arbitrary: i rule: assign_offsets.induct)
  case (1 pos m)
  then show ?case by simp
next
  case (2 pos sz h rest m)
  show ?case
  proof (cases i)
    case 0
    with 2 show ?thesis
      by (simp add: assign_offsets_other map_of_update_offset image_set [symmetric])
  next
    case (Suc j)
    with 2 have "snd (rest ! j) \<noteq> h" using nth_mem [of j rest] by auto
    with Suc 2 show ?thesis
      by (auto simp: map_of_update_offset add.assoc)
  qed
qed

lemma assign_offsets_keys: "map fst (assign_offsets pos sh m) = map fst m"
  by (induction pos sh m rule: assign_offsets.induct) (auto simp: comp_def case_prod_unfold)

lemma assign_offsets_sizes:
  "map_option om_size (map_of (assign_offsets pos sh m) h) = map_option om_size (map_of m h)"
  by (induction pos sh m rule: assign_offsets.induct)
    (auto simp: map_of_update_offset option.map_comp comp_def)

lemma size_handles_set:
  assumes "distinct (map fst (object_table idx))"
  shows "(sz, h) \<in> set (size_handles idx) \<longleftrightarrow> map_option om_size (map_of (object_table idx) h) = Some sz"
  using assms by (auto simp: size_handles_def image_iff intro!: bexI dest: map_of_SomeD)

lemma size_handles_distinct:
  assumes "distinct (map fst (object_table idx))"
  shows "distinct (map snd (size_handles idx))"
proof -
  let ?xs = "map (\<lambda>(h, om). (om_size om, h)) (object_table idx)"
  have "map snd ?xs = map fst (object_table idx)" by (simp add: comp_def case_prod_unfold)
  moreover have "mset (map snd (sort ?xs)) = mset (map snd ?xs)"
    unfolding mset_map mset_sort ..
  ultimately show ?thesis
    using assms mset_eq_imp_distinct_iff unfolding size_handles_def by metis
qed

text \<open>Element \<^verbatim>\<open>i\<close> of a concatenation is the slice after the first \<^verbatim>\<open>i\<close> elements.\<close>

lemma concat_slice:
  "i < length xss \<Longrightarrow>
     take (length (xss ! i)) (drop (length (concat (take i xss))) (concat xss)) = xss ! i"
proof -
  assume i: "i < length xss"
  then have "concat xss = concat (take i xss) @ xss ! i @ concat (drop (Suc i) xss)"
    by (metis concat.simps(2) concat_append id_take_nth_drop)
  then show ?thesis by simp
qed

lemma unat_sum_list:
  "nat_weight (\<lambda>x. x) ws < 2 ^ 64 \<Longrightarrow> unat (sum_list ws) = nat_weight (\<lambda>x. x) ws"
proof (induction ws)
  case Nil
  then show ?case by simp
next
  case (Cons w ws)
  then have "unat (sum_list ws) = nat_weight (\<lambda>x. x) ws" by simp
  with Cons.prems show ?case by (simp add: unat_add_u64)
qed

lemma handle_size_alt:
  "handle_size idx h =
     (case map_option om_size (map_of (object_table idx) h) of Some s \<Rightarrow> s | None \<Rightarrow> 0)"
  by (simp add: handle_size_def split: option.split)

definition layout_total :: "pack_index \<Rightarrow> nat" where
  "layout_total idx = sum_list (map (\<lambda>(h, om). unat (om_size om)) (object_table idx))"

lemma layout_total_size_handles:
  "nat_weight (\<lambda>x. x) (map fst (size_handles idx)) = layout_total idx"
proof -
  let ?xs = "map (\<lambda>(h, om). (om_size om, h)) (object_table idx)"
  have "mset (map (unat \<circ> fst) (sort ?xs)) = mset (map (unat \<circ> fst) ?xs)"
    unfolding mset_map mset_sort ..
  then have "sum_list (map (unat \<circ> fst) (sort ?xs)) = sum_list (map (unat \<circ> fst) ?xs)"
    by (metis sum_mset_sum_list)
  then show ?thesis
    by (simp add: nat_weight_def layout_total_def size_handles_def comp_def case_prod_unfold)
qed

text \<open>The order is a permutation of the handles, sizes do not decrease along it.\<close>

lemma layout_order:
  assumes "index_tables_wf idx" and "compute_object_offsets_and_ordering idx = (idx', hs)"
  shows "distinct hs" and "set hs = fst ` set (object_table idx)"
    and "sorted (map (handle_size idx) hs)"
    and "map fst (object_table idx') = map fst (object_table idx)"
    and "handle_size idx' = handle_size idx"
proof -
  note d = table_sorted(2) [OF assms(1)]
  have hs: "hs = map snd (size_handles idx)"
    and idx': "idx' = idx\<lparr>object_table := assign_offsets 0 (size_handles idx) (object_table idx)\<rparr>"
    using assms(2) by (simp_all add: compute_object_offsets_and_ordering_def Let_def)
  show "distinct hs" using size_handles_distinct [OF d] hs by simp
  show "set hs = fst ` set (object_table idx)"
    unfolding hs size_handles_def by (auto simp: image_iff split: prod.splits; force)
  have "handle_size idx (snd x) = fst x" if "x \<in> set (size_handles idx)" for x
    using that size_handles_set [OF d, of "fst x" "snd x"]
    by (auto simp: handle_size_def split: option.splits)
  then have "map (handle_size idx) hs = map fst (size_handles idx)"
    unfolding hs by simp
  moreover have "sorted (map fst (size_handles idx))"
  proof -
    have "sorted (size_handles idx)" by (simp add: size_handles_def)
    then show ?thesis
      by (auto simp: sorted_iff_nth_mono less_eq_prod_def intro: less_imp_le)
  qed
  ultimately show "sorted (map (handle_size idx) hs)" by simp
  show "map fst (object_table idx') = map fst (object_table idx)"
    by (simp add: idx' assign_offsets_keys)
  show "handle_size idx' = handle_size idx"
    using assign_offsets_sizes [of 0 "size_handles idx" "object_table idx"]
    by (simp add: fun_eq_iff handle_size_alt idx')
qed

text \<open>
  If the object contents have the recorded sizes and fit in 64 bits, the recorded offset and
  size of each object select it in the concatenation.
\<close>

lemma layout_positions:
  assumes wf: "index_tables_wf idx" and co: "compute_object_offsets_and_ordering idx = (idx', hs)"
    and small: "layout_total idx < 2 ^ 64"
    and obj: "\<And>h. h \<in> set hs \<Longrightarrow> length (obj h) = unat (handle_size idx h)"
    and h: "map_of (object_table idx') h = Some om"
  shows "\<exists>i<length hs. hs ! i = h \<and> unat (om_offset om) = length (concat (take i (map obj hs))) \<and>
    unat (om_size om) = length (map obj hs ! i)"
proof -
  note d = table_sorted(2) [OF wf]
  have hs: "hs = map snd (size_handles idx)"
    and idx': "object_table idx' = assign_offsets 0 (size_handles idx) (object_table idx)"
    using co by (auto simp: compute_object_offsets_and_ordering_def Let_def)
  have "h \<in> set (map fst (object_table idx'))" using h by (metis map_of_eq_None_iff option.simps(3) set_map)
  then have "h \<in> set hs" using layout_order(2,4) [OF wf co] by (metis set_map)
  then obtain i where i: "i < length hs" "hs ! i = h" by (auto simp: in_set_conv_nth)
  let ?sh = "size_handles idx"
  have fs: "map fst ?sh = map (handle_size idx) hs"
  proof -
    have "handle_size idx (snd x) = fst x" if "x \<in> set ?sh" for x
      using that size_handles_set [OF d, of "fst x" "snd x"]
      by (auto simp: handle_size_def split: option.splits)
    then show ?thesis unfolding hs by simp
  qed
  have at: "map_of (object_table idx') h =
      map_option (\<lambda>om. om\<lparr>om_offset := 0 + sum_list (map fst (take i ?sh))\<rparr>) (map_of (object_table idx) h)"
    using assign_offsets_nth [OF size_handles_distinct [OF d], of i 0 "object_table idx"] i hs idx' by simp
  with h have off: "om_offset om = sum_list (take i (map (handle_size idx) hs))"
    and sz: "om_size om = handle_size idx h"
    by (auto simp: fs [symmetric] take_map handle_size_def split: option.splits)
  have "nat_weight (\<lambda>x. x) (take i (map (handle_size idx) hs)) \<le> layout_total idx"
    unfolding layout_total_size_handles [symmetric] fs
    by (metis append_take_drop_id le_add1 nat_weight_simps(3))
  then have "unat (om_offset om) = nat_weight (\<lambda>x. x) (take i (map (handle_size idx) hs))"
    using small unat_sum_list off by simp
  also have "\<dots> = length (concat (take i (map obj hs)))"
    using obj set_take_subset [of i hs] unfolding nat_weight_def length_concat take_map map_map
    by (intro arg_cong [where f = sum_list] map_cong) auto
  finally have off: "unat (om_offset om) = length (concat (take i (map obj hs)))" .
  have "unat (om_size om) = length (map obj hs ! i)" using sz obj [of h] i nth_mem [OF i(1)] by simp
  with off i show ?thesis by blast
qed

lemma layout_slices:
  assumes wf: "index_tables_wf idx" and co: "compute_object_offsets_and_ordering idx = (idx', hs)"
    and small: "layout_total idx < 2 ^ 64"
    and obj: "\<And>h. h \<in> set hs \<Longrightarrow> length (obj h) = unat (handle_size idx h)"
    and h: "map_of (object_table idx') h = Some om"
  shows "take (unat (om_size om)) (drop (unat (om_offset om)) (concat (map obj hs))) = obj h"
proof -
  obtain i where "i < length hs" "hs ! i = h" "unat (om_offset om) = length (concat (take i (map obj hs)))"
      "unat (om_size om) = length (map obj hs ! i)"
    using layout_positions [OF wf co small obj h] by blast
  with concat_slice [of i "map obj hs"] show ?thesis by simp
qed

text \<open>C14: Packing lays the objects out in order of size; if they fit in 64 bits, the offset and size
  recorded for each object select exactly it in the concatenation of the objects.\<close>

theorem object_layout_spec:
  assumes "index_tables_wf idx" and "compute_object_offsets_and_ordering idx = (idx', hs)"
    and "layout_total idx < 2 ^ 64"
    and "\<And>h. h \<in> set hs \<Longrightarrow> length (obj h) = unat (handle_size idx h)"
  shows "distinct hs \<and> set hs = fst ` set (object_table idx) \<and> sorted (map (handle_size idx) hs) \<and>
    (\<forall>h om. map_of (object_table idx') h = Some om \<longrightarrow>
      take (unat (om_size om)) (drop (unat (om_offset om)) (concat (map obj hs))) = obj h)"
  using layout_order(1-3) [OF assms(1,2)] layout_slices [OF assms(1-4)] by blast

text \<open>An index with two objects, the larger one first.\<close>

definition two_objects :: pack_index where
  "two_objects = index_new\<lparr>object_pool := pool_from_iter [''x'', ''y''],
     object_table := [(0, \<lparr>om_offset = 0, om_size = 3\<rparr>), (1, \<lparr>om_offset = 0, om_size = 2\<rparr>)]\<rparr>"

lemma two_objects_wf: "index_tables_wf two_objects"
  using pool_deserialize_wf [of "[''x'', ''y'']"]
  by (simp add: index_tables_wf_def two_objects_def index_new_def pool_deserialize_def pool_from_iter_def
      upt_rec)

theorem object_layout_spec_witness:
  "map_of (object_table (fst (compute_object_offsets_and_ordering two_objects))) 0 =
     Some \<lparr>om_offset = 2, om_size = 3\<rparr> \<and>
   take 3 (drop 2 (concat (map (\<lambda>h. if h = 0 then ''abc'' else ''de'')
     (snd (compute_object_offsets_and_ordering two_objects))))) = ''abc''"
proof -
  let ?obj = "\<lambda>h :: handle. if h = 0 then ''abc'' else ''de''"
  have c: "compute_object_offsets_and_ordering two_objects =
      (two_objects\<lparr>object_table := [(0, \<lparr>om_offset = 2, om_size = 3\<rparr>), (1, \<lparr>om_offset = 0, om_size = 2\<rparr>)]\<rparr>,
       [1, 0])"
    by (simp add: compute_object_offsets_and_ordering_def size_handles_def two_objects_def)
  have "length (?obj h) = unat (handle_size two_objects h)" if "h \<in> set [1, 0 :: handle]" for h
    using that by (auto simp: handle_size_def two_objects_def)
  moreover have "layout_total two_objects < 2 ^ 64"
    by (simp add: layout_total_def two_objects_def)
  ultimately show ?thesis
    using object_layout_spec [OF two_objects_wf c, of ?obj] c by auto
qed

end
