(* ===== verification/PackFile.thy ===== *)
theory PackFile
  imports Preflight Symlink ObjectLayout
begin

text \<open>
  Pack files (\<^verbatim>\<open>src/repo/pack.rs\<close>): the skippable header frame, the frames, the assignment of
  entries to frames, and reading or extracting the objects by forward-only seeking.  Zstandard
  is a parameter: \<^verbatim>\<open>unzstd\<close> gives the decompressed stream of a file suffix and the error, if any,
  that ends it; so is the decoder of the header.  The frames of a pack are read one after the
  other here; the threads of \<^verbatim>\<open>run_in_parallel\<close> write to disjoint paths.
\<close>

subsection \<open>Frames\<close>

definition skippable_magic_mask :: u32 where "skippable_magic_mask = 0x184D2A50"

definition read_u32_le :: "bytes \<Rightarrow> io_error + (u32 \<times> bytes)" where
  "read_u32_le rd =
     (if length rd < 4 then Inl UnexpectedEof
      else Inr (of_nat (of_le_bytes (take 4 rd)), drop 4 rd))"

text \<open>The frame size and the user data; the reader is left after the frame.\<close>

definition read_skippable_frame :: "bytes \<Rightarrow> io_error + (u64 \<times> bytes \<times> bytes)" where
  "read_skippable_frame rd =
     rbind (read_u32_le rd) (\<lambda>(magic, rd).
     if and magic skippable_magic_mask \<noteq> skippable_magic_mask then Inl InvalidData
     else rbind (read_u32_le rd) (\<lambda>(frame_sz, rd).
       if length rd < unat frame_sz then Inl UnexpectedEof
       else Inr (8 + ucast frame_sz, take (unat frame_sz) rd, drop (unat frame_sz) rd)))"

definition write_skippable_frame :: "bytes \<Rightarrow> bytes \<times> u64" where
  "write_skippable_frame buf =
     (u32_le skippable_magic_mask @ u32_le (of_nat (length buf)) @ buf, of_nat (8 + length buf))"

record pack_frame =
  frame_size :: u64
  decompressed_size :: u64

record pack_header =
  header_magic :: u64
  header_frames :: "pack_frame list"

definition pack_header_magic :: u64 where "pack_header_magic = 848629801635942891"

definition header_new :: "pack_frame list \<Rightarrow> pack_header" where
  "header_new frames = \<lparr>header_magic = pack_header_magic, header_frames = frames\<rparr>"

definition header_is_valid :: "pack_header \<Rightarrow> bool" where
  "header_is_valid h \<longleftrightarrow> header_magic h = pack_header_magic"

fun offsets_from :: "(pack_frame \<Rightarrow> u64) \<Rightarrow> u64 \<Rightarrow> pack_frame list \<Rightarrow> u64 list" where
  "offsets_from sz acc [] = []"
| "offsets_from sz acc (f # fs) = acc # offsets_from sz (acc + sz f) fs"

definition compute_frame_offsets :: "pack_frame list \<Rightarrow> u64 list" where
  "compute_frame_offsets frames = offsets_from frame_size 0 frames"

definition compute_frame_decompressed_offset :: "pack_frame list \<Rightarrow> u64 list" where
  "compute_frame_decompressed_offset frames = offsets_from decompressed_size 0 frames"

subsection \<open>Readers\<close>

text \<open>A forward-only stream: the bytes left, and the error that follows them (\<^verbatim>\<open>None\<close> at the end).\<close>

record pack_reader =
  pr_data :: bytes
  pr_fail :: "io_error option"

definition reader_seek :: "nat \<Rightarrow> pack_reader \<Rightarrow> io_error + pack_reader" where
  "reader_seek n r =
     (if n \<le> length (pr_data r) then Inr (r\<lparr>pr_data := drop n (pr_data r)\<rparr>)
      else case pr_fail r of Some e \<Rightarrow> Inl e | None \<Rightarrow> Inr (r\<lparr>pr_data := []\<rparr>))"

definition reader_read_exact :: "nat \<Rightarrow> pack_reader \<Rightarrow> io_error + (bytes \<times> pack_reader)" where
  "reader_read_exact n r =
     (if n \<le> length (pr_data r) then Inr (take n (pr_data r), r\<lparr>pr_data := drop n (pr_data r)\<rparr>)
      else Inl (case pr_fail r of Some e \<Rightarrow> e | None \<Rightarrow> UnexpectedEof))"

type_synonym zstd_decoder = "bytes \<Rightarrow> bytes \<times> io_error option"

definition decoder_at :: "zstd_decoder \<Rightarrow> bytes \<Rightarrow> nat \<Rightarrow> pack_reader" where
  "decoder_at unzstd file pos =
     (let (d, e) = unzstd (drop pos file) in \<lparr>pr_data = d, pr_fail = e\<rparr>)"

record pack =
  pk_header :: pack_header
  pk_readers :: "pack_reader list"
  pk_file_size :: u64

definition open_pack ::
    "zstd_decoder \<Rightarrow> (bytes \<Rightarrow> decode_error + pack_header) \<Rightarrow> io_error + bytes \<Rightarrow> error + pack" where
  "open_pack unzstd dec_header file =
     rbind (map_err IOError file) (\<lambda>file.
     rbind (map_err IOError (read_skippable_frame file)) (\<lambda>(header_size, buf, rest).
     rbind (map_err (\<lambda>_. CorruptPack) (dec_header buf)) (\<lambda>header.
     if \<not> header_is_valid header then Inl CorruptPack
     else Inr \<lparr>pk_header = header,
            pk_readers = map (\<lambda>off. decoder_at unzstd file (unat (header_size + off)))
              (compute_frame_offsets (header_frames header)),
            pk_file_size = of_nat (length file)\<rparr>)))"

definition open_pack_legacy :: "zstd_decoder \<Rightarrow> io_error + bytes \<Rightarrow> error + pack" where
  "open_pack_legacy unzstd file =
     rbind (map_err IOError file) (\<lambda>file.
     Inr \<lparr>pk_header = header_new [\<lparr>frame_size = of_nat (length file), decompressed_size = - 1\<rparr>],
       pk_readers = [decoder_at unzstd file 0],
       pk_file_size = of_nat (length file)\<rparr>)"

definition packs_dir :: bytes where "packs_dir = ''packs''"

definition append_path_suffix :: "path \<Rightarrow> bytes \<Rightarrow> path" where
  "append_path_suffix p sfx = butlast p @ [last p @ sfx]"

definition pack_open ::
    "zstd_decoder \<Rightarrow> (bytes \<Rightarrow> decode_error + pack_header) \<Rightarrow> fs \<Rightarrow> path \<Rightarrow> pack_id \<Rightarrow> error + pack" where
  "pack_open unzstd dec_header fs data_dir pack =
     rbind (map_err IdError (validate_regular pack)) (\<lambda>_.
     let pack_path = append_path_suffix (data_dir @ packs_dir # target_components (pack_name pack)) ''.pack'';
         file = fs_read fs pack_path
     in case open_pack unzstd dec_header file of
          Inr p \<Rightarrow> Inr p
        | Inl _ \<Rightarrow> open_pack_legacy unzstd file)"

subsection \<open>Entries and frames\<close>

definition local_entry :: "file_entry \<Rightarrow> u64 \<Rightarrow> file_entry" where
  "local_entry e base = e\<lparr>fe_object := \<lparr>om_offset = om_offset (fe_object e) - base, om_size = om_size (fe_object e)\<rparr>\<rparr>"

fun assign_loop :: "u64 list \<Rightarrow> file_entry list list \<Rightarrow> file_entry list \<Rightarrow> error + file_entry list list" where
  "assign_loop offsets frames [] = Inr frames"
| "assign_loop offsets frames (e # es) =
     (case rposition (\<lambda>x. x \<le> om_offset (fe_object e)) offsets of
        None \<Rightarrow> Inl CorruptPack
      | Some i \<Rightarrow>
          assign_loop offsets (frames[i := frames ! i @ [local_entry e (offsets ! i)]]) es)"

definition assign_to_frames :: "pack_frame list \<Rightarrow> file_entry list \<Rightarrow> error + file_entry list list" where
  "assign_to_frames frames entries =
     assign_loop (compute_frame_decompressed_offset frames) (replicate (length frames) []) entries"

definition verify_object :: "(bytes \<Rightarrow> checksum) \<Rightarrow> bytes \<Rightarrow> checksum \<Rightarrow> error + unit" where
  "verify_object sha1 buf expected =
     (if sha1 buf \<noteq> expected then Inl (PackErr (ChecksumMismatch expected (sha1 buf))) else Inr ())"

definition entry_offset :: "file_entry \<Rightarrow> u64" where "entry_offset e = om_offset (fe_object e)"
definition entry_size :: "file_entry \<Rightarrow> u64" where "entry_size e = om_size (fe_object e)"

text \<open>
  The common step: unless the stream is past the object, seek to it and read it.  The result
  is the reader, the buffer and the position.
\<close>

definition next_object ::
    "file_entry \<Rightarrow> pack_reader \<times> bytes \<times> u64 \<Rightarrow> error + (pack_reader \<times> bytes \<times> u64)" where
  "next_object e = (\<lambda>(reader, buf, pos).
     if pos \<le> entry_offset e
     then rbind (map_err IOError (reader_seek (unat (entry_offset e - pos)) reader)) (\<lambda>reader.
          rbind (map_err IOError (reader_read_exact (unat (entry_size e)) reader)) (\<lambda>(buf, reader).
          Inr (reader, buf, entry_offset e + entry_size e)))
     else Inr (reader, buf, pos))"

fun read_objects_loop ::
    "pack_reader \<times> bytes \<times> u64 \<Rightarrow> file_entry list \<Rightarrow> error + (file_entry \<times> bytes) list" where
  "read_objects_loop st [] = Inr []"
| "read_objects_loop st (e # es) =
     (if entry_size e = 0
      then rbind (read_objects_loop st es) (\<lambda>rest. Inr ((e, []) # rest))
      else rbind (next_object e st) (\<lambda>st.
           rbind (read_objects_loop st es) (\<lambda>rest. Inr ((e, fst (snd st)) # rest))))"

definition read_objects :: "pack_reader \<Rightarrow> file_entry list \<Rightarrow> error + (file_entry \<times> bytes) list" where
  "read_objects reader entries = read_objects_loop (reader, [], 0) (sort_key entry_offset entries)"

definition read_entry_objects :: "pack \<Rightarrow> file_entry list \<Rightarrow> error + (file_entry \<times> bytes) list" where
  "read_entry_objects pack entries =
     (if entries = [] then Inr []
      else rbind (assign_to_frames (header_frames (pk_header pack)) entries) (\<lambda>frames.
           rbind (collect (\<lambda>(reader, es). read_objects reader es)
             (filter (\<lambda>(reader, es). es \<noteq> []) (zip (pk_readers pack) frames))) (\<lambda>results.
           Inr (concat results))))"

subsection \<open>Extraction\<close>

definition write_entry ::
    "(bytes \<Rightarrow> checksum) \<Rightarrow> bool \<Rightarrow> bytes \<Rightarrow> bytes \<Rightarrow> path \<Rightarrow> file_entry \<Rightarrow> (error, unit) fs_op" where
  "write_entry sha1 verify tmp buf out e =
     (case fe_metadata e of
        Regular mode \<Rightarrow>
          lift_err IOError (materialize_regular (if entry_size e = 0 then [] else buf, None) tmp out mode)
      | Symlink enc kind \<Rightarrow>
          andThen (lift_err PackErr (materialize (fe_path e) buf enc kind tmp out)) (\<lambda>_.
            if verify
            then query (\<lambda>fs. map_err PackErr
                   (verify_materialized sha1 (fe_path e) out enc kind (fe_checksum e) fs))
            else ret ()))"

fun extract_loop ::
    "(bytes \<Rightarrow> checksum) \<Rightarrow> bool \<Rightarrow> (file_entry \<Rightarrow> bytes) \<Rightarrow> path \<Rightarrow> pack_reader \<times> bytes \<times> u64 \<Rightarrow>
     file_entry list \<Rightarrow> (error, unit) fs_op" where
  "extract_loop sha1 verify tmp out st [] = ret ()"
| "extract_loop sha1 verify tmp out st (e # es) =
     andThen (liftr (next_object e st)) (\<lambda>st'.
     andThen (liftr (if snd (snd st) \<le> entry_offset e \<and> verify
                     then verify_object sha1 (fst (snd st')) (fe_checksum e) else Inr ())) (\<lambda>_.
     andThen (liftr (map_err PackErr (native_path (fe_path e)))) (\<lambda>native.
     andThen (write_entry sha1 verify (tmp e) (fst (snd st')) (out @ native) e) (\<lambda>_.
     extract_loop sha1 verify tmp out st' es))))"

definition extract_files ::
    "(bytes \<Rightarrow> checksum) \<Rightarrow> bool \<Rightarrow> (file_entry \<Rightarrow> bytes) \<Rightarrow> path \<Rightarrow> pack_reader \<Rightarrow> file_entry list \<Rightarrow>
     (error, unit) fs_op" where
  "extract_files sha1 verify tmp out reader entries =
     extract_loop sha1 verify tmp out (reader, [], 0) (sort_key entry_offset entries)"

text \<open>Every task runs; the first error in task order is reported.\<close>

fun run_tasks :: "('a \<Rightarrow> ('e, unit) fs_op) \<Rightarrow> 'a list \<Rightarrow> ('e, unit) fs_op" where
  "run_tasks f [] fs = (Inr (), fs)"
| "run_tasks f (t # ts) fs =
     (case f t fs of (r, fs) \<Rightarrow> (case run_tasks f ts fs of (r', fs) \<Rightarrow> (rbind r (\<lambda>_. r'), fs)))"

definition extract_entries ::
    "(bytes \<Rightarrow> checksum) \<Rightarrow> pack \<Rightarrow> file_entry list \<Rightarrow> path \<Rightarrow> bool \<Rightarrow> u32 \<Rightarrow> (file_entry \<Rightarrow> bytes) \<Rightarrow>
     (error failure, unit) fs_op" where
  "extract_entries sha1 pack entries out verify num_workers tmp =
     (if entries = [] then ret ()
      else if num_workers = 0 \<or> header_frames (pk_header pack) = [] then err Panicked
      else andThen (lift_err Fail (liftr (assign_to_frames (header_frames (pk_header pack)) entries)))
        (\<lambda>frames. lift_err Fail (run_tasks (\<lambda>(reader, es). extract_files sha1 verify tmp out reader es)
           (filter (\<lambda>(reader, es). es \<noteq> []) (zip (pk_readers pack) frames)))))"

subsection \<open>The header frame\<close>

lemma read_u32_le_append [simp]: "read_u32_le (u32_le w @ r) = Inr (w, r)"
  by (simp add: read_u32_le_def)

lemma skippable_round_trip:
  assumes "length buf < 2 ^ 32"
  shows "read_skippable_frame (fst (write_skippable_frame buf) @ rest) =
    Inr (snd (write_skippable_frame buf), buf, rest)"
proof -
  have n: "unat (of_nat (length buf) :: u32) = length buf"
    using assms by (simp add: unat_of_nat take_bit_nat_eq_self)
  then have "(ucast (of_nat (length buf) :: u32) :: u64) = of_nat (length buf)"
    using assms by (intro unsigned_word_eqI [where 'a = nat])
      (simp add: unsigned_ucast_eq unat_of_nat take_bit_nat_eq_self)
  with n show ?thesis by (simp add: read_skippable_frame_def write_skippable_frame_def)
qed

subsection \<open>Reading objects\<close>

text \<open>The bytes that an entry's offset and size select in a stream.\<close>

definition object_at :: "bytes \<Rightarrow> file_entry \<Rightarrow> bytes" where
  "object_at D e = take (unat (entry_size e)) (drop (unat (entry_offset e)) D)"

definition in_range :: "bytes \<Rightarrow> file_entry \<Rightarrow> bool" where
  "in_range D e \<longleftrightarrow> unat (entry_offset e) + unat (entry_size e) \<le> length D"

text \<open>Two non-empty objects are the same interval or disjoint.\<close>

definition separate :: "file_entry \<Rightarrow> file_entry \<Rightarrow> bool" where
  "separate e e' \<longleftrightarrow>
     entry_size e = 0 \<or> entry_size e' = 0 \<or>
     (entry_offset e = entry_offset e' \<and> entry_size e = entry_size e') \<or>
     unat (entry_offset e) + unat (entry_size e) \<le> unat (entry_offset e') \<or>
     unat (entry_offset e') + unat (entry_size e') \<le> unat (entry_offset e)"

definition layout_ok :: "bytes \<Rightarrow> file_entry list \<Rightarrow> bool" where
  "layout_ok D es \<longleftrightarrow> length D < 2 ^ 64 \<and> list_all (in_range D) es \<and>
     (\<forall>e \<in> set es. \<forall>e' \<in> set es. separate e e')"

fun reading :: "bytes \<Rightarrow> file_entry list \<Rightarrow> pack_reader \<times> bytes \<times> u64 \<Rightarrow> bool" where
  "reading D rest (reader, buf, pos) \<longleftrightarrow>
     unat pos \<le> length D \<and> pr_data reader = drop (unat pos) D \<and>
     (\<forall>e \<in> set rest. entry_size e \<noteq> 0 \<and> entry_offset e < pos \<longrightarrow> buf = object_at D e)"

lemma reading_start: "reading D es (\<lparr>pr_data = D, pr_fail = x\<rparr>, [], 0)"
  by simp

lemma reading_mono: "reading D (e # es) st \<Longrightarrow> reading D es st"
  by (cases st) auto

lemma next_object_ok:
  assumes lay: "layout_ok D (e # es)" and sorted: "\<forall>e' \<in> set es. entry_offset e \<le> entry_offset e'"
    and rd: "reading D (e # es) st"
  shows "\<exists>st'. next_object e st = Inr st' \<and> reading D es st' \<and>
    (entry_size e \<noteq> 0 \<or> snd (snd st) \<le> entry_offset e \<longrightarrow> fst (snd st') = object_at D e)"
proof -
  obtain reader buf pos where st: "st = (reader, buf, pos)" by (cases st)
  note rd = rd [unfolded st]
  have D: "length D < 2 ^ 64" and range: "unat (entry_offset e) + unat (entry_size e) \<le> length D"
    using lay by (auto simp: layout_ok_def in_range_def)
  show ?thesis
  proof (cases "pos \<le> entry_offset e")
    case False
    then have "next_object e st = Inr st" by (simp add: next_object_def st)
    moreover have "entry_size e \<noteq> 0 \<Longrightarrow> buf = object_at D e" using rd False by auto
    ultimately show ?thesis using reading_mono [OF rd] False by (auto simp: st)
  next
    case True
    let ?o = "unat (entry_offset e)" and ?s = "unat (entry_size e)"
    let ?d = "entry_offset e - pos" and ?stop = "entry_offset e + entry_size e"
    have le: "unat pos \<le> ?o" using True by (simp add: word_le_nat_alt)
    have d: "unat ?d = ?o - unat pos" using True by (rule unat_sub)
    have e: "unat ?stop = ?o + ?s" using range D by (intro unat_add_u64) simp
    let ?r1 = "reader\<lparr>pr_data := drop ?o D\<rparr>" and ?r2 = "reader\<lparr>pr_data := drop (?o + ?s) D\<rparr>"
    have "reader_seek (unat ?d) reader = Inr ?r1"
      using rd range le diff_le_mono [of ?o "length D" "unat pos"] by (simp add: reader_seek_def d)
    moreover have "reader_read_exact ?s ?r1 = Inr (object_at D e, ?r2)"
      using range by (simp add: reader_read_exact_def object_at_def add.commute)
    ultimately have n: "next_object e st = Inr (?r2, object_at D e, ?stop)"
      using True by (simp add: next_object_def st)
    have "object_at D e = object_at D e'"
      if e': "e' \<in> set es" "entry_size e' \<noteq> 0" "entry_offset e' < ?stop" for e'
    proof -
      have o: "?o \<le> unat (entry_offset e')" using sorted e'(1) by (simp add: word_le_nat_alt)
      have "unat (entry_offset e') < ?o + ?s" using e'(3) e by (simp add: word_less_nat_alt)
      moreover have "separate e e'" using lay e'(1) by (simp add: layout_ok_def)
      moreover have "unat (entry_size e') \<noteq> 0" using e'(2) by (simp add: unat_eq_0)
      ultimately have "entry_offset e = entry_offset e' \<and> entry_size e = entry_size e'"
        using o e'(2) by (auto simp: separate_def)
      then show ?thesis by (simp add: object_at_def)
    qed
    then have "reading D es (?r2, object_at D e, ?stop)" using range e by auto
    with n show ?thesis by auto
  qed
qed

lemma layout_ok_tail: "layout_ok D (e # es) \<Longrightarrow> layout_ok D es"
  by (auto simp: layout_ok_def)

lemma read_objects_loop_ok:
  "layout_ok D es \<Longrightarrow> sorted (map entry_offset es) \<Longrightarrow> reading D es st \<Longrightarrow>
     read_objects_loop st es = Inr (map (\<lambda>e. (e, object_at D e)) es)"
proof (induction es arbitrary: st)
  case Nil
  then show ?case by simp
next
  case (Cons e es)
  note t = layout_ok_tail [OF Cons.prems(1)]
  show ?case
  proof (cases "entry_size e = 0")
    case True
    then have "object_at D e = []" by (simp add: object_at_def)
    with True Cons.IH [OF t _ reading_mono [OF Cons.prems(3)]] Cons.prems(2) show ?thesis by simp
  next
    case False
    have "\<forall>e' \<in> set es. entry_offset e \<le> entry_offset e'" using Cons.prems(2) by simp
    from next_object_ok [OF Cons.prems(1) this Cons.prems(3)] False obtain st' where
      "next_object e st = Inr st'" "reading D es st'" "fst (snd st') = object_at D e" by blast
    with False Cons.IH [OF t _ this(2)] Cons.prems(2) show ?thesis by simp
  qed
qed

lemma layout_ok_sort: "layout_ok D (sort_key f es) \<longleftrightarrow> layout_ok D es"
  by (simp add: layout_ok_def list_all_iff)

lemma read_objects_ok:
  assumes "layout_ok D es"
  shows "read_objects \<lparr>pr_data = D, pr_fail = x\<rparr> es =
    Inr (map (\<lambda>e. (e, object_at D e)) (sort_key entry_offset es))"
  unfolding read_objects_def
  using assms by (intro read_objects_loop_ok) (simp_all add: layout_ok_sort)

subsection \<open>Writing a set of outputs\<close>

lemma native_path_ok:
  assumes "pack_path_ok p"
  shows "native_path p = Inr (components p)"
proof -
  have "\<forall>c \<in> set (components p). c \<noteq> [] \<and> c \<noteq> ''.''"
    using assms by (auto simp: pack_path_ok_def list_all_iff component_ok_def)
  then have "target_components (as_bytes p) = components p"
    by (auto simp: target_components_def components_def intro: filter_True)
  with to_native_ok [OF assms] show ?thesis by (simp add: native_path_def)
qed

text \<open>No output is an ancestor of another, and no temporary name is part of an output.\<close>

definition antichain :: "path set \<Rightarrow> bool" where
  "antichain T \<longleftrightarrow> (\<forall>p \<in> T. \<forall>q \<in> T. \<not> strict_prefix p q)"

definition targets_free :: "fs \<Rightarrow> path set \<Rightarrow> (path \<Rightarrow> bytes) \<Rightarrow> bool" where
  "targets_free fs T tmp \<longleftrightarrow>
     (\<forall>p \<in> T. writable_at fs p \<and> temp_free fs p (tmp p) \<and> (\<forall>q \<in> T. tmp p \<notin> set q))"

definition all_written :: "fs \<Rightarrow> (path \<times> node) list \<Rightarrow> fs \<Rightarrow> bool" where
  "all_written fs ws fs' \<longleftrightarrow> fs_wf fs' \<and>
     (\<forall>q. fs_get fs' q =
        (case map_of ws q of
           Some n \<Rightarrow> Some n
         | None \<Rightarrow> if \<exists>p \<in> fst ` set ws. prefix q (butlast p) then Some DirNode else fs_get fs q))"

lemma prefix_butlast: "p \<noteq> [] \<Longrightarrow> prefix q (butlast p) \<longleftrightarrow> strict_prefix q p"
  by (cases p rule: rev_cases) (auto simp: strict_prefix_def dest: prefix_length_le)

lemma antichain_butlast:
  "antichain T \<Longrightarrow> p \<in> T \<Longrightarrow> q \<in> T \<Longrightarrow> q \<noteq> [] \<Longrightarrow> \<not> prefix p (butlast q)"
  by (simp add: antichain_def prefix_butlast)

lemma all_written_keeps_free:
  assumes free: "targets_free fs T tmp" and anti: "antichain T" and ws: "fst ` set ws \<subseteq> T"
    and written: "all_written fs ws fs1"
  shows "targets_free fs1 (T - fst ` set ws) tmp"
  unfolding targets_free_def
proof (intro ballI conjI)
  let ?W = "fst ` set ws"
  fix p' assume p': "p' \<in> T - ?W"
  have ne: "p \<noteq> []" if "p \<in> T" for p using free that by (auto simp: targets_free_def writable_at_def)
  have none: "map_of ws q = None" if "q \<notin> ?W" for q using that by (simp add: map_of_eq_None_iff)
  have w: "writable_at fs p'" using free p' by (simp add: targets_free_def)
  show "tmp p' \<notin> set q" if "q \<in> T - ?W" for q using free p' that by (simp add: targets_free_def)
  have "fs_get fs1 q = None \<or> fs_get fs1 q = Some DirNode" if q: "prefix q (butlast p')" for q
  proof -
    have "q \<notin> T" using antichain_butlast [OF anti] ne p' q by blast
    then have "map_of ws q = None" using ws none by blast
    with w q written show ?thesis by (auto simp: writable_at_def dirs_or_missing_def all_written_def)
  qed
  moreover have "fs_get fs1 p' \<noteq> Some DirNode"
  proof -
    have "\<not> prefix p' (butlast p)" if "p \<in> ?W" for p
      using antichain_butlast [OF anti, of p' p] ne ws p' that by blast
    then show ?thesis using written none p' w by (auto simp: all_written_def writable_at_def)
  qed
  ultimately show "writable_at fs1 p'" using w by (simp add: writable_at_def dirs_or_missing_def)
  have tf: "temp_free fs p' (tmp p')" and fresh: "\<And>p. p \<in> ?W \<Longrightarrow> tmp p' \<notin> set p"
    using free ws p' by (auto simp: targets_free_def)
  let ?t = "butlast p' @ [tmp p']"
  have "?t \<notin> ?W" using fresh by force
  moreover have "\<not> prefix ?t (butlast p)" if p: "p \<in> ?W" for p
  proof
    assume "prefix ?t (butlast p)"
    then have "tmp p' \<in> set (butlast p)" by (auto simp: prefix_def)
    with fresh [OF p] show False by (auto dest: in_set_butlastD)
  qed
  ultimately have "fs_get fs1 ?t = fs_get fs ?t" using written none by (simp add: all_written_def)
  with tf show "temp_free fs1 p' (tmp p')" by (simp add: temp_free_def)
qed

lemma placed_all_written: "placed fs p n fs' \<longleftrightarrow> all_written fs [(p, n)] fs'"
  by (auto simp: placed_def all_written_def)

lemma all_written_Nil: "fs_wf fs \<Longrightarrow> all_written fs [] fs"
  by (simp add: all_written_def)

lemma all_written_Cons:
  assumes "placed fs p n fs1" "all_written fs1 ws fs'" "p \<notin> fst ` set ws"
    and anti: "antichain (insert p (fst ` set ws))" and ne: "\<forall>q \<in> fst ` set ws. q \<noteq> []"
  shows "all_written fs ((p, n) # ws) fs'"
proof -
  have "fs_get fs' q = (case map_of ((p, n) # ws) q of
        Some n \<Rightarrow> Some n
      | None \<Rightarrow> if \<exists>p \<in> fst ` set ((p, n) # ws). prefix q (butlast p) then Some DirNode else fs_get fs q)" for q
  proof (cases "map_of ws q")
    case (Some m)
    then have "q \<in> fst ` set ws" by (metis map_of_eq_None_iff option.distinct(1))
    then have "q \<noteq> p" using assms(3) by auto
    with Some assms(2) show ?thesis by (simp add: all_written_def)
  next
    case None
    have "\<not> prefix p (butlast p')" if "p' \<in> fst ` set ws" for p'
      using that ne antichain_butlast [OF anti, of p p'] by blast
    with None assms(1,2) show ?thesis by (auto simp: all_written_def placed_def)
  qed
  with assms(2) show ?thesis by (simp add: all_written_def)
qed

lemma all_written_append:
  "all_written fs us fs1 \<Longrightarrow> all_written fs1 vs fs' \<Longrightarrow>
     antichain (fst ` set (us @ vs)) \<Longrightarrow> (\<forall>q \<in> fst ` set (us @ vs). q \<noteq> []) \<Longrightarrow>
     fst ` set us \<inter> fst ` set vs = {} \<Longrightarrow> all_written fs (us @ vs) fs'"
proof -
  assume a: "all_written fs us fs1" "all_written fs1 vs fs'" "antichain (fst ` set (us @ vs))"
    and ne: "\<forall>q \<in> fst ` set (us @ vs). q \<noteq> []" and disj: "fst ` set us \<inter> fst ` set vs = {}"
  have "fs_get fs' q = (case map_of (us @ vs) q of
        Some n \<Rightarrow> Some n
      | None \<Rightarrow> if \<exists>p \<in> fst ` set (us @ vs). prefix q (butlast p) then Some DirNode else fs_get fs q)" for q
  proof (cases "map_of us q")
    case (Some m)
    then have q: "q \<in> fst ` set us" by (metis map_of_eq_None_iff option.distinct(1))
    with disj have "map_of vs q = None" by (auto simp: map_of_eq_None_iff)
    moreover have "\<not> prefix q (butlast p)" if "p \<in> fst ` set vs" for p
    proof -
      have "q \<in> fst ` set (us @ vs)" "p \<in> fst ` set (us @ vs)" using that q by auto
      with antichain_butlast [OF a(3)] ne show ?thesis by blast
    qed
    ultimately have "fs_get fs' q = fs_get fs1 q" using a(2) by (auto simp: all_written_def)
    with Some a(1) show ?thesis by (simp add: all_written_def map_add_def split: option.splits)
  next
    case None
    show ?thesis
    proof (cases "map_of vs q")
      case None
      with \<open>map_of us q = None\<close> a(1,2) show ?thesis
        by (auto simp: all_written_def map_add_def)
    next
      case (Some m)
      with \<open>map_of us q = None\<close> a(2) show ?thesis by (simp add: all_written_def map_add_def)
    qed
  qed
  with a(2) show ?thesis by (simp add: all_written_def)
qed

subsection \<open>Extracting the entries of one stream\<close>

definition output_path :: "path \<Rightarrow> file_entry \<Rightarrow> path" where
  "output_path out e = out @ components (fe_path e)"

text \<open>The node that an entry stands for, given its bytes.\<close>

definition entry_node :: "bytes \<Rightarrow> file_entry \<Rightarrow> node" where
  "entry_node b e =
     (case fe_metadata e of
        Regular mode \<Rightarrow> FileNode b (and mode permission_bits)
      | Symlink enc kind \<Rightarrow> LinkNode b)"

text \<open>An entry that can be materialised from its bytes.\<close>

definition extractable :: "(bytes \<Rightarrow> checksum) \<Rightarrow> bool \<Rightarrow> bytes \<Rightarrow> file_entry \<Rightarrow> bool" where
  "extractable sha1 verify b e \<longleftrightarrow>
     pack_path_ok (fe_path e) \<and> length b = unat (entry_size e) \<and>
     (verify \<longrightarrow> sha1 b = fe_checksum e) \<and>
     (case fe_metadata e of
        Regular mode \<Rightarrow> True
      | Symlink enc kind \<Rightarrow>
          b \<noteq> [] \<and> (\<exists>t. decode_target Unix (fe_path e) b enc = Inr t))"

lemma entry_node_not_dir [simp]: "\<not> is_dir_node (entry_node b e)"
  by (simp add: entry_node_def split: entry_metadata.split)

lemma read_link_placed:
  assumes "placed fs p (LinkNode b) fs'" "writable_at fs p"
  shows "read_link fs' p = Inr b"
proof -
  have np: "no_parent_refs p" using assms(2) by (simp add: writable_at_def)
  have get: "fs_get fs' p = Some (LinkNode b)" using assms(1) by (simp add: placed_def)
  then have "dirs_above fs' p"
    using assms(1) fs_wf_prefix [of fs' p] by (auto simp: dirs_above_def placed_def)
  with symlink_metadata_plain [OF np] get show ?thesis by (simp add: read_link_def)
qed

lemma write_entry_ok:
  assumes ex: "extractable sha1 verify b e"
    and buf: "entry_size e \<noteq> 0 \<Longrightarrow> buf = b"
    and fs: "fs_wf fs" "writable_at fs p" "temp_free fs p tmp"
  shows "\<exists>fs'. write_entry sha1 verify tmp buf p e fs = (Inr (), fs') \<and> placed fs p (entry_node b e) fs'"
proof (cases "fe_metadata e")
  case (Regular mode)
  have "(if entry_size e = 0 then [] else buf) = b"
    using ex buf by (auto simp: extractable_def)
  with Regular materialize_regular_ok [OF fs, of b mode] show ?thesis
    by (auto simp: write_entry_def entry_node_def lift_err_def)
next
  case (Symlink enc kind)
  with ex have b: "b \<noteq> []" "length b = unat (entry_size e)"
    and "\<exists>t. decode_target Unix (fe_path e) b enc = Inr t"
    by (auto simp: extractable_def)
  then obtain t where t: "decode_target Unix (fe_path e) b enc = Inr t" by blast
  have "entry_size e \<noteq> 0" using b by auto
  then have "buf = b" by (rule buf)
  have tb: "t = UnixNative b" "encode_target_as (fe_path e) t enc = Inr b"
    using encode_target_as_decoded [OF t] by auto
  obtain fs' where fs': "materialize (fe_path e) b enc kind tmp p fs = (Inr (), fs')"
      "placed fs p (LinkNode b) fs'"
    using materialize_ok [OF fs t, of kind] tb(1) b(1) by auto
  have "verify_materialized sha1 (fe_path e) p enc kind (fe_checksum e) fs' = Inr ()" if verify
    using read_link_placed [OF fs'(2) fs(2)] tb ex that
    by (simp add: verify_materialized_def extractable_def)
  with fs' Symlink \<open>buf = b\<close> show ?thesis
    by (simp add: write_entry_def entry_node_def andThen_def lift_err_def query_def ret_def)
qed

definition entry_writes :: "path \<Rightarrow> bytes \<Rightarrow> file_entry list \<Rightarrow> (path \<times> node) list" where
  "entry_writes out D es = map (\<lambda>e. (output_path out e, entry_node (object_at D e) e)) es"

lemma extract_loop_ok:
  "layout_ok D es \<Longrightarrow> sorted (map entry_offset es) \<Longrightarrow> reading D es st \<Longrightarrow>
   \<forall>e \<in> set es. extractable sha1 verify (object_at D e) e \<Longrightarrow>
   distinct (map (output_path out) es) \<Longrightarrow> antichain (output_path out ` set es) \<Longrightarrow>
   targets_free fs (output_path out ` set es) tmp \<Longrightarrow> fs_wf fs \<Longrightarrow>
   \<exists>fs'. extract_loop sha1 verify (\<lambda>e. tmp (output_path out e)) out st es fs = (Inr (), fs') \<and>
     all_written fs (entry_writes out D es) fs'"
proof (induction es arbitrary: st fs)
  case Nil
  then show ?case by (simp add: ret_def all_written_Nil entry_writes_def)
next
  case (Cons e es)
  let ?p = "output_path out e" and ?T = "output_path out ` set (e # es)"
  have ex: "extractable sha1 verify (object_at D e) e" using Cons.prems(4) by simp
  have "\<forall>e' \<in> set es. entry_offset e \<le> entry_offset e'" using Cons.prems(2) by simp
  from next_object_ok [OF Cons.prems(1) this Cons.prems(3)] obtain st' where st':
    "next_object e st = Inr st'" "reading D es st'"
    "entry_size e \<noteq> 0 \<or> snd (snd st) \<le> entry_offset e \<longrightarrow> fst (snd st') = object_at D e" by blast
  have check: "(if snd (snd st) \<le> entry_offset e \<and> verify
      then verify_object sha1 (fst (snd st')) (fe_checksum e) else Inr ()) = Inr ()"
    using st'(3) ex by (auto simp: verify_object_def extractable_def)
  have native: "native_path (fe_path e) = Inr (components (fe_path e))"
    using ex by (simp add: native_path_ok extractable_def)
  have p: "writable_at fs ?p" "temp_free fs ?p (tmp ?p)"
    using Cons.prems(7) by (auto simp: targets_free_def)
  obtain fs1 where fs1: "write_entry sha1 verify (tmp ?p) (fst (snd st')) ?p e fs = (Inr (), fs1)"
      "placed fs ?p (entry_node (object_at D e) e) fs1"
    using write_entry_ok [OF ex _ Cons.prems(8) p] st'(3) by blast
  have "targets_free fs1 (?T - {?p}) tmp"
    using all_written_keeps_free [OF Cons.prems(7,6) _ fs1(2) [unfolded placed_all_written]] by simp
  moreover have diff: "?T - {?p} = output_path out ` set es"
    using Cons.prems(5) by auto
  ultimately have free1: "targets_free fs1 (output_path out ` set es) tmp" by simp
  have anti1: "antichain (output_path out ` set es)" using Cons.prems(6) by (auto simp: antichain_def)
  have wf1: "fs_wf fs1" using fs1(2) by (simp add: placed_def)
  have "\<exists>fs'. extract_loop sha1 verify (\<lambda>e. tmp (output_path out e)) out st' es fs1 = (Inr (), fs') \<and>
      all_written fs1 (entry_writes out D es) fs'"
    using Cons.prems(2,4,5) anti1 free1 wf1
    by (intro Cons.IH layout_ok_tail [OF Cons.prems(1)] st'(2)) auto
  then obtain fs' where fs': "extract_loop sha1 verify (\<lambda>e. tmp (output_path out e)) out st' es fs1 = (Inr (), fs')"
      "all_written fs1 (entry_writes out D es) fs'" by blast
  have dom: "fst ` set (entry_writes out D es) = output_path out ` set es"
    by (auto simp: entry_writes_def image_iff)
  have ne: "\<forall>q \<in> ?T. q \<noteq> []" using Cons.prems(7) by (auto simp: targets_free_def writable_at_def)
  have "all_written fs ((?p, entry_node (object_at D e) e) # entry_writes out D es) fs'"
    using all_written_Cons [OF fs1(2) fs'(2)] Cons.prems(5,6) ne dom by auto
  then have "all_written fs (entry_writes out D (e # es)) fs'" by (simp add: entry_writes_def)
  moreover have "extract_loop sha1 verify (\<lambda>e. tmp (output_path out e)) out st (e # es) fs = (Inr (), fs')"
    using st'(1) check native fs1(1) fs'(1)
    by (simp add: andThen_def liftr_def output_path_def del: next_object_def)
  ultimately show ?case by blast
qed

subsection \<open>Frames\<close>

lemma length_offsets_from [simp]: "length (offsets_from sz acc fs) = length fs"
  by (induction sz acc fs rule: offsets_from.induct) auto

lemma offsets_from_nth:
  "i < length fs \<Longrightarrow> offsets_from sz acc fs ! i = acc + sum_list (map sz (take i fs))"
proof (induction fs arbitrary: acc i)
  case Nil
  then show ?case by simp
next
  case (Cons f fs)
  then show ?case by (cases i) (simp_all add: add.assoc)
qed

lemma offsets_from_map:
  "offsets_from sz acc fs = map (\<lambda>i. acc + sum_list (map sz (take i fs))) [0..<length fs]"
  by (rule nth_equalityI) (simp_all add: offsets_from_nth)

text \<open>The frames of a pack: their decompressed contents, and the readers that start at each.\<close>

definition frames_match :: "pack \<Rightarrow> bytes list \<Rightarrow> bool" where
  "frames_match pk Fs \<longleftrightarrow> Fs \<noteq> [] \<and>
     length (header_frames (pk_header pk)) = length Fs \<and>
     compute_frame_decompressed_offset (header_frames (pk_header pk)) =
       map (\<lambda>i. of_nat (length (concat (take i Fs)))) [0..<length Fs] \<and>
     pk_readers pk = map (\<lambda>i. \<lparr>pr_data = concat (drop i Fs), pr_fail = None\<rparr>) [0..<length Fs]"

lemma frame_offsets_of_sizes:
  fixes Fs :: "bytes list"
  assumes "length frames = length Fs"
    and "\<And>i. i < length Fs \<Longrightarrow> decompressed_size (frames ! i) = of_nat (length (Fs ! i))"
  shows "compute_frame_decompressed_offset frames =
    map (\<lambda>i. of_nat (length (concat (take i Fs)))) [0..<length Fs]"
proof -
  have sizes: "map decompressed_size frames = map (\<lambda>F. of_nat (length F)) Fs"
    using assms by (simp add: list_eq_iff_nth_eq)
  have "(of_nat (length (concat xs)) :: u64) = sum_list (map (\<lambda>F. of_nat (length F)) xs)" for xs :: "bytes list"
    by (induction xs) simp_all
  then have "sum_list (map decompressed_size (take i frames)) = of_nat (length (concat (take i Fs)))" for i
    using arg_cong [OF sizes, of "take i"] by (simp add: take_map)
  then show ?thesis
    by (simp add: compute_frame_decompressed_offset_def offsets_from_map assms(1))
qed

definition frame_of :: "u64 list \<Rightarrow> file_entry \<Rightarrow> nat option" where
  "frame_of offs e = rposition (\<lambda>x. x \<le> om_offset (fe_object e)) offs"

lemma assign_loop_spec:
  "length frames = length offs \<Longrightarrow> \<forall>e \<in> set es. frame_of offs e \<noteq> None \<Longrightarrow>
   assign_loop offs frames es = Inr (map (\<lambda>i. frames ! i @
     map (\<lambda>e. local_entry e (offs ! i)) (filter (\<lambda>e. frame_of offs e = Some i) es)) [0..<length offs])"
proof (induction es arbitrary: frames)
  case Nil
  then have "map ((!) frames) [0..<length offs] = frames" using map_nth [of frames] by simp
  then show ?case by simp
next
  case (Cons e es)
  then obtain i where i: "frame_of offs e = Some i" by auto
  then have "i < length offs" by (simp add: frame_of_def rposition_Some_iff)
  let ?fr = "frames[i := frames ! i @ [local_entry e (offs ! i)]]"
  have "assign_loop offs frames (e # es) = assign_loop offs ?fr es"
    using i by (simp add: frame_of_def)
  also have "\<dots> = Inr (map (\<lambda>j. ?fr ! j @
      map (\<lambda>e. local_entry e (offs ! j)) (filter (\<lambda>e. frame_of offs e = Some j) es)) [0..<length offs])"
    by (rule Cons.IH) (use Cons.prems in simp_all)
  also have "\<dots> = Inr (map (\<lambda>j. frames ! j @
      map (\<lambda>e. local_entry e (offs ! j)) (filter (\<lambda>e. frame_of offs e = Some j) (e # es))) [0..<length offs])"
  proof (intro arg_cong [where f = Inr] map_cong refl)
    fix j assume "j \<in> set [0..<length offs]"
    then have "j < length frames" using Cons.prems(1) by simp
    then show "?fr ! j @ map (\<lambda>e. local_entry e (offs ! j)) (filter (\<lambda>e. frame_of offs e = Some j) es) =
        frames ! j @ map (\<lambda>e. local_entry e (offs ! j)) (filter (\<lambda>e. frame_of offs e = Some j) (e # es))"
      using i by (cases "j = i") simp_all
  qed
  finally show ?case .
qed

lemma mset_by_index:
  "(\<forall>e \<in> set es. \<exists>i<n. g e = Some i) \<Longrightarrow>
     mset (concat (map (\<lambda>i. filter (\<lambda>e. g e = Some i) es) [0..<n])) = mset es"
proof (induction es)
  case Nil
  then show ?case by (simp add: mset_concat comp_def)
next
  case (Cons e es)
  then obtain i where i: "i < n" "g e = Some i" by auto
  have filt: "mset (filter (\<lambda>e. g e = Some j) (e # es)) =
      (if j = i then {#e#} else {#}) + mset (filter (\<lambda>e. g e = Some j) es)" for j
    using i by auto
  have sum: "mset (concat (map f [0..<n])) = (\<Sum>j\<in>{0..<n}. mset (f j))" for f :: "nat \<Rightarrow> 'a list"
    by (simp add: mset_concat comp_def interv_sum_list_conv_sum_set_nat)
  have "(\<Sum>j\<in>{0..<n}. if j = i then {#e#} else {#}) = {#e#}"
    using i by (simp add: sum.delta)
  moreover have "(\<Sum>j\<in>{0..<n}. mset (filter (\<lambda>e. g e = Some j) es)) = mset es"
    using Cons by (simp add: sum)
  ultimately show ?case
    unfolding sum filt sum.distrib by simp
qed

end
