(* ===== verification/PackFrames.thy ===== *)
theory PackFrames
  imports PackFile
begin

text \<open>
  Reading and extracting through the frames of a pack (\<^verbatim>\<open>src/repo/pack.rs\<close>): the frame that an
  entry is assigned to holds its object, so the entries read and the files written do not
  depend on how the pack was cut into frames.
\<close>

subsection \<open>Entries relative to a frame\<close>

lemma local_entry_simps [simp]:
  "entry_size (local_entry e b) = entry_size e"
  "entry_offset (local_entry e b) = entry_offset e - b"
  "fe_path (local_entry e b) = fe_path e"
  "fe_checksum (local_entry e b) = fe_checksum e"
  "fe_metadata (local_entry e b) = fe_metadata e"
  by (simp_all add: local_entry_def entry_size_def entry_offset_def)

lemma local_entry_content [simp]:
  "entry_content (local_entry e b) = entry_content e"
  "output_path out (local_entry e b) = output_path out e"
  "entry_node bs (local_entry e b) = entry_node bs e"
  "extractable sha1 verify bs (local_entry e b) = extractable sha1 verify bs e"
  by (simp_all add: entry_content_def output_path_def entry_node_def extractable_def
      cong: entry_metadata.case_cong)

lemma object_at_local:
  "b \<le> entry_offset e \<Longrightarrow> object_at (drop (unat b) D) (local_entry e b) = object_at D e"
  by (simp add: object_at_def unat_sub word_le_nat_alt add.commute)

lemma separate_local:
  assumes "separate e e'" "b \<le> entry_offset e" "b \<le> entry_offset e'"
  shows "separate (local_entry e b) (local_entry e' b)"
proof -
  note unat_sub [OF assms(2)] unat_sub [OF assms(3)]
  moreover have "unat b \<le> unat (entry_offset e)" "unat b \<le> unat (entry_offset e')"
    using assms(2,3) by (simp_all add: word_le_nat_alt)
  ultimately show ?thesis using assms(1) by (auto simp: separate_def)
qed

lemma layout_ok_local:
  assumes lay: "layout_ok D es" and sub: "set fs \<subseteq> set es" and le: "\<forall>e \<in> set fs. b \<le> entry_offset e"
  shows "layout_ok (drop (unat b) D) (map (\<lambda>e. local_entry e b) fs)"
proof -
  have "in_range (drop (unat b) D) (local_entry e b)" if e: "e \<in> set fs" for e
  proof -
    have "b \<le> entry_offset e" "in_range D e" using e sub le lay by (auto simp: layout_ok_def list_all_iff)
    then show ?thesis by (simp add: in_range_def unat_sub word_le_nat_alt)
  qed
  moreover have "separate (local_entry e b) (local_entry e' b)" if "e \<in> set fs" "e' \<in> set fs" for e e'
    using that sub le lay by (intro separate_local) (auto simp: layout_ok_def)
  moreover have "length D - unat b < 2 ^ 64"
    using lay by (intro le_less_trans [OF diff_le_self]) (simp add: layout_ok_def)
  ultimately show ?thesis by (simp add: layout_ok_def list_all_iff)
qed

subsection \<open>The tasks of a pack\<close>

text \<open>A part is a frame offset and the entries assigned to that frame.\<close>

definition part_task :: "bytes \<Rightarrow> u64 \<times> file_entry list \<Rightarrow> pack_reader \<times> file_entry list" where
  "part_task D = (\<lambda>(b, es).
     (\<lparr>pr_data = drop (unat b) D, pr_fail = None\<rparr>, map (\<lambda>e. local_entry e b) es))"

definition parts_ok :: "(u64 \<times> file_entry list) list \<Rightarrow> bool" where
  "parts_ok parts \<longleftrightarrow> (\<forall>(b, es) \<in> set parts. \<forall>e \<in> set es. b \<le> entry_offset e)"

lemma parts_ok_Cons: "parts_ok ((b, es) # parts) \<longleftrightarrow> (\<forall>e \<in> set es. b \<le> entry_offset e) \<and> parts_ok parts"
  by (simp add: parts_ok_def)

lemma concat_nonempty: "concat (map f (filter (\<lambda>i. f i \<noteq> []) is)) = concat (map f is)"
  by (induction "is") auto

lemma frame_starts:
  assumes m: "frames_match pk Fs" and D: "length (concat Fs) < 2 ^ 64" and i: "i < length Fs"
  shows "concat (drop i Fs) =
    drop (unat (compute_frame_decompressed_offset (header_frames (pk_header pk)) ! i)) (concat Fs)"
proof -
  have split: "concat Fs = concat (take i Fs) @ concat (drop i Fs)"
    by (metis append_take_drop_id concat_append)
  then have "length (concat (take i Fs)) \<le> length (concat Fs)" by (metis length_append le_add1)
  then have "length (concat (take i Fs)) < 2 ^ 64" using D by (rule le_less_trans)
  then have "unat (of_nat (length (concat (take i Fs))) :: u64) = length (concat (take i Fs))"
    by (simp add: unat_of_nat take_bit_nat_eq_self)
  with m i split show ?thesis by (simp add: frames_match_def)
qed

lemma tasks_of_pack:
  assumes m: "frames_match pk Fs" and D: "length (concat Fs) < 2 ^ 64"
  shows "\<exists>frames parts. assign_to_frames (header_frames (pk_header pk)) es = Inr frames \<and>
    filter (\<lambda>(reader, es). es \<noteq> []) (zip (pk_readers pk) frames) = map (part_task (concat Fs)) parts \<and>
    mset (concat (map snd parts)) = mset es \<and> parts_ok parts"
proof -
  let ?offs = "compute_frame_decompressed_offset (header_frames (pk_header pk))"
  let ?n = "length Fs" and ?sel = "\<lambda>i. filter (\<lambda>e. frame_of ?offs e = Some i) es"
  let ?loc = "\<lambda>i. map (\<lambda>e. local_entry e (?offs ! i)) (?sel i)"
  let ?parts = "map (\<lambda>i. (?offs ! i, ?sel i)) (filter (\<lambda>i. ?sel i \<noteq> []) [0..<?n])"
  have len: "length ?offs = ?n" "length (header_frames (pk_header pk)) = ?n" "0 < ?n"
    using m by (simp_all add: frames_match_def)
  have "?offs ! 0 = 0" using m len(3) by (simp add: frames_match_def)
  then have found: "frame_of ?offs e \<noteq> None" for e
    using len nth_mem [of 0 ?offs] by (auto simp: frame_of_def rposition_None_iff intro!: bexI [of _ 0])
  have bound: "i < ?n \<and> ?offs ! i \<le> entry_offset e" if "frame_of ?offs e = Some i" for e i
    using that len(1) by (simp add: frame_of_def rposition_Some_iff entry_offset_def)
  have "assign_to_frames (header_frames (pk_header pk)) es = Inr (map ?loc [0..<?n])"
    using assign_loop_spec [of "replicate ?n []" ?offs es] found len
    by (simp add: assign_to_frames_def cong: map_cong)
  moreover have "filter (\<lambda>(reader, es). es \<noteq> []) (zip (pk_readers pk) (map ?loc [0..<?n])) =
      map (part_task (concat Fs)) ?parts"
  proof -
    have "zip (pk_readers pk) (map ?loc [0..<?n]) =
        map (\<lambda>i. (\<lparr>pr_data = concat (drop i Fs), pr_fail = None\<rparr>, ?loc i)) [0..<?n]"
      using m by (simp add: frames_match_def zip_map_map zip_same_conv_map)
    also have "\<dots> = map (\<lambda>i. part_task (concat Fs) (?offs ! i, ?sel i)) [0..<?n]"
      using frame_starts [OF m D] by (simp add: part_task_def)
    finally show ?thesis by (simp add: filter_map comp_def part_task_def)
  qed
  moreover have "mset (concat (map snd ?parts)) = mset es"
  proof -
    have "\<forall>e \<in> set es. \<exists>i<?n. frame_of ?offs e = Some i" using found bound by blast
    from mset_by_index [OF this] show ?thesis by (simp add: comp_def concat_nonempty)
  qed
  moreover have "parts_ok ?parts" using bound by (auto simp: parts_ok_def)
  ultimately show ?thesis by blast
qed

subsection \<open>Reading the objects\<close>

lemma read_part_ok:
  assumes "layout_ok D es" "\<forall>e \<in> set es. b \<le> entry_offset e"
  shows "\<exists>rs. (case part_task D (b, es) of (reader, es) \<Rightarrow> read_objects reader es) = Inr rs \<and>
    mset (map (\<lambda>(e, bs). (entry_content e, bs)) rs) = mset (map (\<lambda>e. (entry_content e, object_at D e)) es)"
proof -
  let ?loc = "map (\<lambda>e. local_entry e b) es" and ?D = "drop (unat b) D"
  have "read_objects \<lparr>pr_data = ?D, pr_fail = None\<rparr> ?loc =
      Inr (map (\<lambda>e. (e, object_at ?D e)) (sort_key entry_offset ?loc))"
    using layout_ok_local [OF assms(1) subset_refl assms(2)] by (rule read_objects_ok)
  moreover have "mset (map (\<lambda>e. (entry_content e, object_at ?D e)) (sort_key entry_offset ?loc)) =
      mset (map (\<lambda>e. (entry_content e, object_at D e)) es)"
    using assms(2) by (auto simp: object_at_local multiset.map_comp comp_def intro!: image_mset_cong)
  ultimately show ?thesis by (simp add: part_task_def multiset.map_comp comp_def)
qed

lemma layout_ok_append: "layout_ok D (es @ es') \<Longrightarrow> layout_ok D es \<and> layout_ok D es'"
  by (auto simp: layout_ok_def)

lemma read_parts_ok:
  "layout_ok D (concat (map snd parts)) \<Longrightarrow> parts_ok parts \<Longrightarrow>
   \<exists>rss. collect (\<lambda>(reader, es). read_objects reader es) (map (part_task D) parts) = Inr rss \<and>
     mset (map (\<lambda>(e, bs). (entry_content e, bs)) (concat rss)) =
       mset (map (\<lambda>e. (entry_content e, object_at D e)) (concat (map snd parts)))"
proof (induction parts)
  case Nil
  then show ?case by simp
next
  case (Cons p parts)
  obtain b es where p: "p = (b, es)" by (cases p)
  have "layout_ok D (es @ concat (map snd parts))" using Cons.prems(1) by (simp add: p)
  note lay = layout_ok_append [OF this]
  have ok: "\<forall>e \<in> set es. b \<le> entry_offset e" "parts_ok parts"
    using Cons.prems(2) by (auto simp: p parts_ok_Cons)
  from read_part_ok [OF conjunct1 [OF lay] ok(1)] obtain rs where rs:
    "(case part_task D (b, es) of (reader, es) \<Rightarrow> read_objects reader es) = Inr rs"
    "mset (map (\<lambda>(e, bs). (entry_content e, bs)) rs) = mset (map (\<lambda>e. (entry_content e, object_at D e)) es)"
    by blast
  from Cons.IH [OF conjunct2 [OF lay] ok(2)] obtain rss where rss:
    "collect (\<lambda>(reader, es). read_objects reader es) (map (part_task D) parts) = Inr rss"
    "mset (map (\<lambda>(e, bs). (entry_content e, bs)) (concat rss)) =
       mset (map (\<lambda>e. (entry_content e, object_at D e)) (concat (map snd parts)))" by blast
  have "collect (\<lambda>(reader, es). read_objects reader es) (map (part_task D) (p # parts)) = Inr (rs # rss)"
    using rs(1) rss(1) by (simp add: p)
  moreover have "mset (map (\<lambda>(e, bs). (entry_content e, bs)) (concat (rs # rss))) =
      mset (map (\<lambda>e. (entry_content e, object_at D e)) (concat (map snd (p # parts))))"
    using rs(2) rss(2) by (simp add: p)
  ultimately show ?case by blast
qed

lemma layout_ok_mset: "mset es = mset es' \<Longrightarrow> layout_ok D es \<longleftrightarrow> layout_ok D es'"
  by (simp add: layout_ok_def list_all_iff flip: set_mset_mset)

lemma read_entry_objects_ok:
  assumes m: "frames_match pk Fs" and lay: "layout_ok (concat Fs) es"
  shows "\<exists>rs. read_entry_objects pk es = Inr rs \<and>
    mset (map (\<lambda>(e, bs). (entry_content e, bs)) rs) =
      mset (map (\<lambda>e. (entry_content e, object_at (concat Fs) e)) es)"
proof (cases "es = []")
  case True
  then show ?thesis by (simp add: read_entry_objects_def)
next
  case False
  have "length (concat Fs) < 2 ^ 64" using lay by (simp add: layout_ok_def)
  from tasks_of_pack [OF m this, of es] obtain frames parts where t:
    "assign_to_frames (header_frames (pk_header pk)) es = Inr frames"
    "filter (\<lambda>(reader, es). es \<noteq> []) (zip (pk_readers pk) frames) = map (part_task (concat Fs)) parts"
    "mset (concat (map snd parts)) = mset es" "parts_ok parts" by blast
  have "layout_ok (concat Fs) (concat (map snd parts))" using lay layout_ok_mset [OF t(3)] by simp
  from read_parts_ok [OF this t(4)] obtain rss where
    "collect (\<lambda>(reader, es). read_objects reader es) (map (part_task (concat Fs)) parts) = Inr rss"
    "mset (map (\<lambda>(e, bs). (entry_content e, bs)) (concat rss)) =
      mset (map (\<lambda>e. (entry_content e, object_at (concat Fs) e)) (concat (map snd parts)))" by blast
  with t False show ?thesis by (simp add: read_entry_objects_def)
qed

subsection \<open>Extracting the entries\<close>

lemma all_written_cong:
  assumes "set ws = set ws'" "distinct (map fst ws)" "distinct (map fst ws')"
  shows "all_written fs ws fs' \<longleftrightarrow> all_written fs ws' fs'"
proof -
  have "map_of ws = map_of ws'" using assms map_of_inject_set by blast
  with assms(1) show ?thesis by (simp add: all_written_def)
qed

lemma fst_entry_writes [simp]: "map fst (entry_writes out D es) = map (output_path out) es"
  by (simp add: entry_writes_def comp_def)

lemma dom_entry_writes [simp]: "fst ` set (entry_writes out D es) = output_path out ` set es"
  by (metis fst_entry_writes list.set_map)

lemma all_written_mset:
  assumes "mset es = mset es'" "distinct (map (output_path out) es)"
  shows "all_written fs (entry_writes out D es) fs' \<longleftrightarrow> all_written fs (entry_writes out D es') fs'"
proof (rule all_written_cong)
  have s: "set es = set es'" using assms(1) by (metis set_mset_mset)
  then show "set (entry_writes out D es) = set (entry_writes out D es')" by (simp add: entry_writes_def)
  have "mset (map (output_path out) es) = mset (map (output_path out) es')" using assms(1) by simp
  then show "distinct (map fst (entry_writes out D es'))"
    using assms(2) mset_eq_imp_distinct_iff by (metis fst_entry_writes)
qed (simp add: assms(2))

text \<open>The entries in the order in which the stream of their frame delivers them.\<close>

lemma extract_files_ok:
  assumes lay: "layout_ok D es" and b: "\<forall>e \<in> set es. b \<le> entry_offset e"
    and ex: "\<forall>e \<in> set es. extractable sha1 verify (object_at D e) e"
    and distinct: "distinct (map (output_path out) es)" and anti: "antichain (output_path out ` set es)"
    and free: "targets_free fs (output_path out ` set es) tmp" and wf: "fs_wf fs"
  shows "\<exists>fs'. (case part_task D (b, es) of (reader, es) \<Rightarrow>
      extract_files sha1 verify (\<lambda>e. tmp (output_path out e)) out reader es) fs = (Inr (), fs') \<and>
    all_written fs (entry_writes out D es) fs'"
proof -
  let ?loc = "map (\<lambda>e. local_entry e b) es" and ?D = "drop (unat b) D"
  let ?es = "sort_key entry_offset ?loc"
  have paths: "output_path out ` set ?es = output_path out ` set es" by (simp add: image_image)
  have bytes: "object_at ?D (local_entry e b) = object_at D e" if "e \<in> set es" for e
    using b that by (simp add: object_at_local)
  have "mset (map (output_path out) ?es) = mset (map (output_path out) es)"
    by (simp add: multiset.map_comp comp_def)
  then have dist: "distinct (map (output_path out) ?es)"
    using distinct mset_eq_imp_distinct_iff by blast
  have lay': "layout_ok ?D ?es"
    using layout_ok_local [OF lay subset_refl b] by (simp add: layout_ok_sort)
  have ex': "\<forall>e \<in> set ?es. extractable sha1 verify (object_at ?D e) e"
    using ex bytes by simp
  have "reading ?D ?es (\<lparr>pr_data = ?D, pr_fail = None\<rparr>, [], 0)" by (rule reading_start)
  from extract_loop_ok [OF lay' _ this ex' dist, unfolded paths, OF _ anti free wf] obtain fs' where fs':
    "extract_loop sha1 verify (\<lambda>e. tmp (output_path out e)) out (\<lparr>pr_data = ?D, pr_fail = None\<rparr>, [], 0) ?es fs =
      (Inr (), fs')" "all_written fs (entry_writes out ?D ?es) fs'" by (auto simp del: set_sort set_map list.set_map)
  have "set (entry_writes out ?D ?es) = set (entry_writes out D es)"
    using bytes by (auto simp: entry_writes_def image_iff)
  with dist distinct fs'(2) have "all_written fs (entry_writes out D es) fs'"
    using all_written_cong [of "entry_writes out ?D ?es" "entry_writes out D es"] by simp
  with fs'(1) show ?thesis by (simp add: part_task_def extract_files_def)
qed

lemma run_parts_ok:
  "layout_ok D (concat (map snd parts)) \<Longrightarrow> parts_ok parts \<Longrightarrow>
   \<forall>e \<in> set (concat (map snd parts)). extractable sha1 verify (object_at D e) e \<Longrightarrow>
   distinct (map (output_path out) (concat (map snd parts))) \<Longrightarrow>
   antichain (output_path out ` set (concat (map snd parts))) \<Longrightarrow>
   targets_free fs (output_path out ` set (concat (map snd parts))) tmp \<Longrightarrow> fs_wf fs \<Longrightarrow>
   \<exists>fs'. run_tasks (\<lambda>(reader, es). extract_files sha1 verify (\<lambda>e. tmp (output_path out e)) out reader es)
       (map (part_task D) parts) fs = (Inr (), fs') \<and>
     all_written fs (entry_writes out D (concat (map snd parts))) fs'"
proof (induction parts arbitrary: fs)
  case Nil
  then show ?case by (simp add: all_written_Nil entry_writes_def)
next
  case (Cons p parts)
  obtain b es where p: "p = (b, es)" by (cases p)
  let ?rest = "concat (map snd parts)" and ?out = "\<lambda>es. output_path out ` set es"
  have all: "concat (map snd (p # parts)) = es @ ?rest" by (simp add: p)
  note prems = Cons.prems [unfolded all]
  note lay = layout_ok_append [OF prems(1)]
  have ok: "\<forall>e \<in> set es. b \<le> entry_offset e" "parts_ok parts"
    using Cons.prems(2) by (auto simp: p parts_ok_Cons)
  have dist: "distinct (map (output_path out) es)" "distinct (map (output_path out) ?rest)"
    and disj: "?out es \<inter> ?out ?rest = {}" using prems(4) by auto
  have anti: "antichain (?out es)" "antichain (?out ?rest)" using prems(5) by (auto simp: antichain_def)
  have exs: "\<forall>e \<in> set es. extractable sha1 verify (object_at D e) e"
    "\<forall>e \<in> set ?rest. extractable sha1 verify (object_at D e) e" using prems(3) by auto
  have free: "targets_free fs (?out es) tmp" using prems(6) by (auto simp: targets_free_def)
  obtain fs1 where fs1: "(case part_task D (b, es) of (reader, es) \<Rightarrow>
      extract_files sha1 verify (\<lambda>e. tmp (output_path out e)) out reader es) fs = (Inr (), fs1)"
      "all_written fs (entry_writes out D es) fs1"
    using extract_files_ok [OF conjunct1 [OF lay] ok(1) exs(1) dist(1) anti(1) free prems(7)] by blast
  have "?out (es @ ?rest) - ?out es = ?out ?rest" using disj by auto
  moreover have "targets_free fs1 (?out (es @ ?rest) - ?out es) tmp"
    using all_written_keeps_free [OF prems(6,5) _ fs1(2)] by auto
  ultimately have free1: "targets_free fs1 (?out ?rest) tmp" by simp
  have wf1: "fs_wf fs1" using fs1(2) by (simp add: all_written_def)
  from Cons.IH [OF conjunct2 [OF lay] ok(2) exs(2) dist(2) anti(2) free1 wf1] obtain fs' where fs':
    "run_tasks (\<lambda>(reader, es). extract_files sha1 verify (\<lambda>e. tmp (output_path out e)) out reader es)
       (map (part_task D) parts) fs1 = (Inr (), fs')"
    "all_written fs1 (entry_writes out D ?rest) fs'" by blast
  have "\<forall>q \<in> ?out (es @ ?rest). q \<noteq> []" using prems(6) by (auto simp: targets_free_def writable_at_def)
  then have "all_written fs (entry_writes out D es @ entry_writes out D ?rest) fs'"
    using prems(5) disj by (intro all_written_append [OF fs1(2) fs'(2)]) (simp_all add: image_Un)
  then have "all_written fs (entry_writes out D (es @ ?rest)) fs'" by (simp add: entry_writes_def)
  with fs1(1) fs'(1) show ?case by (simp add: p all)
qed

lemma extract_entries_ok:
  assumes m: "frames_match pk Fs" and lay: "layout_ok (concat Fs) es" and n: "n \<noteq> 0"
    and ex: "\<forall>e \<in> set es. extractable sha1 verify (object_at (concat Fs) e) e"
    and dist: "distinct (map (output_path out) es)" and anti: "antichain (output_path out ` set es)"
    and free: "targets_free fs (output_path out ` set es) tmp" and wf: "fs_wf fs"
  shows "\<exists>fs'. extract_entries sha1 pk es out verify n (\<lambda>e. tmp (output_path out e)) fs = (Inr (), fs') \<and>
    all_written fs (entry_writes out (concat Fs) es) fs'"
proof (cases "es = []")
  case True
  with wf show ?thesis by (simp add: extract_entries_def ret_def entry_writes_def all_written_Nil)
next
  case False
  have "length (concat Fs) < 2 ^ 64" using lay by (simp add: layout_ok_def)
  from tasks_of_pack [OF m this, of es] obtain frames parts where t:
    "assign_to_frames (header_frames (pk_header pk)) es = Inr frames"
    "filter (\<lambda>(reader, es). es \<noteq> []) (zip (pk_readers pk) frames) = map (part_task (concat Fs)) parts"
    "mset (concat (map snd parts)) = mset es" "parts_ok parts" by blast
  let ?es = "concat (map snd parts)"
  have s: "set ?es = set es" using t(3) by (metis set_mset_mset)
  have "mset (map (output_path out) ?es) = mset (map (output_path out) es)" using t(3) by simp
  then have dist': "distinct (map (output_path out) ?es)" using dist mset_eq_imp_distinct_iff by blast
  have "layout_ok (concat Fs) ?es" using lay layout_ok_mset [OF t(3)] by simp
  from run_parts_ok [OF this t(4) _ dist', unfolded s, OF ex anti free wf] obtain fs' where fs':
    "run_tasks (\<lambda>(reader, es). extract_files sha1 verify (\<lambda>e. tmp (output_path out e)) out reader es)
       (map (part_task (concat Fs)) parts) fs = (Inr (), fs')"
    "all_written fs (entry_writes out (concat Fs) ?es) fs'" by blast
  have "header_frames (pk_header pk) \<noteq> []" using m by (auto simp: frames_match_def)
  then have "extract_entries sha1 pk es out verify n (\<lambda>e. tmp (output_path out e)) fs = (Inr (), fs')"
    using False n t(1,2) fs'(1) by (simp add: extract_entries_def andThen_def lift_err_def liftr_def)
  with fs'(2) all_written_mset [OF t(3) dist'] show ?thesis by blast
qed

subsection \<open>The properties\<close>

definition sample_pack :: pack where
  "sample_pack = \<lparr>
     pk_header = header_new [\<lparr>frame_size = 20, decompressed_size = 2\<rparr>, \<lparr>frame_size = 20, decompressed_size = 1\<rparr>],
     pk_readers = [\<lparr>pr_data = ''abc'', pr_fail = None\<rparr>, \<lparr>pr_data = ''c'', pr_fail = None\<rparr>],
     pk_file_size = 48\<rparr>"

definition sample_packed :: "file_entry list" where
  "sample_packed = [
     \<lparr>fe_path = PackPath ''d/y'', fe_checksum = [], fe_object = \<lparr>om_offset = 2, om_size = 1\<rparr>,
      fe_metadata = Regular 420\<rparr>,
     \<lparr>fe_path = PackPath ''x'', fe_checksum = [], fe_object = \<lparr>om_offset = 0, om_size = 2\<rparr>,
      fe_metadata = Regular 420\<rparr>]"

lemma sample_pack_frames: "frames_match sample_pack [''ab'', ''c'']"
  by (simp add: frames_match_def sample_pack_def header_new_def compute_frame_decompressed_offset_def)

lemma sample_packed_layout: "layout_ok (concat [''ab'', ''c'']) sample_packed"
  by (simp add: layout_ok_def sample_packed_def in_range_def separate_def entry_offset_def entry_size_def)

text \<open>A skippable frame reads back the data it was written with, leaves the reader after the
  frame and reports the length written.\<close>

theorem skippable_frame_round_trip:
  assumes "length buf < 2 ^ 32"
  shows "read_skippable_frame (fst (write_skippable_frame buf) @ rest) =
      Inr (snd (write_skippable_frame buf), buf, rest)"
  using assms by (rule skippable_round_trip)

theorem skippable_frame_round_trip_witness:
  "read_skippable_frame (fst (write_skippable_frame ''ab'') @ ''c'') = Inr (10, ''ab'', ''c'')"
  using skippable_frame_round_trip [of "''ab''" "''c''"] by (simp add: write_skippable_frame_def)

text \<open>C16: Reading entries gives each entry the bytes that its offset and size select in the
  decompressed pack, however the pack is cut into frames (objects shared or disjoint).\<close>

theorem read_entry_objects_spec:
  assumes "frames_match pk Fs" "layout_ok (concat Fs) es"
  shows "\<exists>rs. read_entry_objects pk es = Inr rs \<and>
    mset (map (\<lambda>(e, bs). (entry_content e, bs)) rs) =
      mset (map (\<lambda>e. (entry_content e, object_at (concat Fs) e)) es)"
  using assms by (rule read_entry_objects_ok)

theorem read_entry_objects_spec_witness:
  "\<exists>rs. read_entry_objects sample_pack sample_packed = Inr rs \<and>
    mset (map (\<lambda>(e, bs). (entry_content e, bs)) rs) =
      {#((PackPath ''d/y'', [], Regular 420), ''c''), ((PackPath ''x'', [], Regular 420), ''ab'')#}"
  using read_entry_objects_spec [OF sample_pack_frames sample_packed_layout]
  by (simp add: sample_packed_def object_at_def entry_offset_def entry_size_def entry_content_def)

text \<open>C15: Extracting entries with valid objects writes every output with its bytes and mode (or link
  target), makes the directories above them and changes no other path, however the pack is
  cut into frames.\<close>

theorem extract_entries_spec:
  assumes "frames_match pk Fs" "layout_ok (concat Fs) es" "n \<noteq> 0"
    and "\<forall>e \<in> set es. extractable sha1 verify (object_at (concat Fs) e) e"
    and "distinct (map (output_path out) es)" "antichain (output_path out ` set es)"
    and "targets_free fs (output_path out ` set es) tmp" "fs_wf fs"
  shows "\<exists>fs'. extract_entries sha1 pk es out verify n (\<lambda>e. tmp (output_path out e)) fs = (Inr (), fs') \<and>
    all_written fs (entry_writes out (concat Fs) es) fs'"
  using assms by (rule extract_entries_ok)

theorem extract_entries_spec_witness:
  "\<exists>fs'. extract_entries (\<lambda>b. []) sample_pack sample_packed [''w''] True 2 (\<lambda>e. ''t'') [([''w''], DirNode)] =
      (Inr (), fs') \<and> fs_get fs' [''w'', ''d'', ''y''] = Some (FileNode ''c'' 420)"
proof -
  have paths: "map (output_path [''w'']) sample_packed = [[''w'', ''d'', ''y''], [''w'', ''x'']]"
    by (simp add: sample_packed_def output_path_def components_def)
  have img: "output_path [''w''] ` set sample_packed = {[''w'', ''d'', ''y''], [''w'', ''x'']}"
    using arg_cong [OF paths, of set] by simp
  have wf: "fs_wf [([''w''], DirNode)]" by (simp add: fs_wf_def fs_get_def)
  have "\<exists>fs'. extract_entries (\<lambda>b. []) sample_pack sample_packed [''w''] True 2 (\<lambda>e. ''t'') [([''w''], DirNode)] =
      (Inr (), fs') \<and> all_written [([''w''], DirNode)]
        (entry_writes [''w''] (concat [''ab'', ''c'']) sample_packed) fs'"
  proof (rule extract_entries_spec [OF sample_pack_frames sample_packed_layout, where tmp = "\<lambda>p. ''t''"])
    show "\<forall>e \<in> set sample_packed. extractable (\<lambda>b. []) True (object_at (concat [''ab'', ''c'']) e) e"
      by (simp add: sample_packed_def extractable_def object_at_def entry_offset_def entry_size_def
          pack_path_ok_def components_def component_ok_def)
    show "antichain (output_path [''w''] ` set sample_packed)"
      by (simp add: img antichain_def strict_prefix_def)
    show "targets_free [([''w''], DirNode)] (output_path [''w''] ` set sample_packed) (\<lambda>p. ''t'')"
      by (auto simp: img targets_free_def writable_at_def temp_free_def dirs_or_missing_def fs_get_def
          no_parent_refs_def)
  qed (simp_all add: paths wf)
  then show ?thesis
    by (auto simp: all_written_def entry_writes_def sample_packed_def output_path_def components_def
        entry_node_def object_at_def entry_offset_def entry_size_def permission_bits_def)
qed

end
