(* ===== verification/PathText.thy ===== *)
theory PathText
  imports RepoError
begin

text \<open>
  Paths and names as text: the operations of \<^verbatim>\<open>std::path\<close> and \<^verbatim>\<open>to_string_lossy\<close> that the
  repository code uses, and the constants of \<^verbatim>\<open>src/repo/constants.rs\<close>.
\<close>

definition repo_dir :: bytes where "repo_dir = ''elfshaker_data''"
definition head_file :: bytes where "head_file = ''HEAD''"
definition packs_name :: bytes where "packs_name = ''packs''"
definition remotes_name :: bytes where "remotes_name = ''remotes''"
definition pack_extension :: bytes where "pack_extension = ''pack''"
definition remote_index_extension :: bytes where "remote_index_extension = ''esi''"
definition loose_name :: bytes where "loose_name = ''loose''"
definition temp_name :: bytes where "temp_name = ''trash''"

text \<open>\<^verbatim>\<open>to_string_lossy\<close>: every maximal invalid sequence becomes U+FFFD.\<close>

definition replacement_char :: bytes where
  "replacement_char = utf8_encode 0xFFFD"

function utf8_lossy :: "bytes \<Rightarrow> bytes" where
  "utf8_lossy bs =
     (case from_utf8 bs of
        Inr us \<Rightarrow> bs
      | Inl (valid, None) \<Rightarrow> take valid bs @ replacement_char
      | Inl (valid, Some n) \<Rightarrow>
          take valid bs @ replacement_char @
            (if n = 0 \<or> length bs < valid + n then [] else utf8_lossy (drop (valid + n) bs)))"
  by pat_completeness auto
termination by (relation "measure length") auto

declare utf8_lossy.simps [simp del]

lemma utf8_lossy_valid: "is_utf8 bs \<Longrightarrow> utf8_lossy bs = bs"
  by (auto simp: utf8_lossy.simps [of bs] is_utf8_def is_ok_iff)

text \<open>\<^verbatim>\<open>path.join(name)\<close>: an absolute name replaces the path.\<close>

definition path_push :: "path \<Rightarrow> bytes \<Rightarrow> path" where
  "path_push p name = link_start p name @ target_components name"

definition path_display :: "path \<Rightarrow> bytes" where
  "path_display p = utf8_lossy (CHR ''/'' # join_with (CHR ''/'') p)"

text \<open>\<^verbatim>\<open>file_stem\<close> and \<^verbatim>\<open>extension\<close>: the parts around the last dot, unless the name starts with it.\<close>

definition file_stem :: "bytes \<Rightarrow> bytes" where
  "file_stem name =
     (case rsplit_once (CHR ''.'') name of Some (stem, _) \<Rightarrow> if stem = [] then name else stem | None \<Rightarrow> name)"

definition file_extension :: "bytes \<Rightarrow> bytes option" where
  "file_extension name =
     (case rsplit_once (CHR ''.'') name of Some (stem, ext) \<Rightarrow> if stem = [] then None else Some ext | None \<Rightarrow> None)"

text \<open>\<^verbatim>\<open>set_extension(ext)\<close> for a non-empty extension; a path without a file name stays.\<close>

definition set_extension :: "path \<Rightarrow> bytes \<Rightarrow> path" where
  "set_extension p ext =
     (if p = [] \<or> last p = ''..'' then p else butlast p @ [file_stem (last p) @ CHR ''.'' # ext])"

end
