(* ===== verification/Env.thy ===== *)
theory Env
  imports PathText PackFile IndexWire
begin

text \<open>
  What the repository code takes from outside its sources, as one record: the functions of other
  crates (\<^verbatim>\<open>sha1\<close>, \<^verbatim>\<open>hex\<close>, \<^verbatim>\<open>url\<close>, \<^verbatim>\<open>rmp_serde\<close>, \<^verbatim>\<open>zstd\<close>, \<^verbatim>\<open>walkdir\<close>, \<^verbatim>\<open>ureq\<close>, the Unicode tables), the
  clock, the locks of other processes, random names and the order in which a hash map is
  iterated.
\<close>

text \<open>A response to a request: status, \<^verbatim>\<open>Content-Length\<close> and the body with the error that ends it.\<close>

record http_response =
  hr_status :: nat
  hr_length :: "bytes option"
  hr_body :: "bytes \<times> (io_error \<times> bytes) option"

text \<open>\<^verbatim>\<open>GET\<close> of a URL with a time limit and an \<^verbatim>\<open>If-Modified-Since\<close>; a failed call gives its text.\<close>

type_synonym http_agent = "url \<Rightarrow> nat option \<Rightarrow> nat option \<Rightarrow> bytes + http_response"

record compression_options =
  co_level :: int
  co_window_log :: u32
  co_num_workers :: u32

text \<open>What the system answers to the calls on the repository lock.\<close>

datatype lock_answer = Granted | Contended | LockFailed io_error

record lock_answers =
  la_try_shared :: lock_answer
  la_shared :: "io_error + unit"
  la_unlock :: "io_error + unit"
  la_try_exclusive :: lock_answer
  la_exclusive :: "io_error + unit"
  la_restore :: "io_error + unit"

text \<open>
  \<^verbatim>\<open>WalkDir\<close> as a list: an error or a path and whether it is a regular file.  The times of a path
  are those of creation and modification; a clock may depend on everything written so far.
\<close>

record env =
  e_sha1 :: "bytes \<Rightarrow> checksum"
  e_hex :: hex_crate
  e_url :: url_crate
  e_codec :: codec
  e_cat :: "nat \<Rightarrow> byte"
  e_unicode :: unicode
  e_unzstd :: zstd_decoder
  e_zstd :: "compression_options \<Rightarrow> bytes \<Rightarrow> io_error + bytes"
  e_enc_header :: "pack_header \<Rightarrow> bytes"
  e_dec_header :: "bytes \<Rightarrow> decode_error + pack_header"
  e_walk :: "fs \<Rightarrow> path \<Rightarrow> (error + path \<times> bool) list"
  e_tree :: walker
  e_agent :: http_agent
  e_times :: "fs \<Rightarrow> path \<Rightarrow> nat option \<times> nat option"
  e_locks :: lock_answers
  e_held :: "path \<Rightarrow> bool"
  e_tmp :: "path \<Rightarrow> bytes"
  e_probes :: "bytes list"
  e_order :: "file_entry list \<Rightarrow> file_entry list"

text \<open>\<^verbatim>\<open>fs::metadata(p).ok().and_then(|m| m.modified().ok())\<close>\<close>

definition modified_at :: "env \<Rightarrow> fs \<Rightarrow> path \<Rightarrow> nat option" where
  "modified_at E fs p =
     (case rbind (metadata fs p) (\<lambda>_. resolve_target fs p) of
        Inl _ \<Rightarrow> None | Inr q \<Rightarrow> snd (e_times E fs q))"

text \<open>\<^verbatim>\<open>fs::write\<close>\<close>

definition fs_write :: "path \<Rightarrow> bytes \<Rightarrow> (io_error, unit) fs_op" where
  "fs_write p data = andThen (fs_create created_mode p) (\<lambda>q. fs_append q data)"

text \<open>\<^verbatim>\<open>read_dir\<close>, in an order that the list of the file system fixes.\<close>

definition read_dir :: "fs \<Rightarrow> path \<Rightarrow> io_error + path list" where
  "read_dir fs p =
     rbind (metadata fs p) (\<lambda>n.
     if \<not> is_dir_node n then Inl NotADirectory
     else rbind (resolve_target fs p) (\<lambda>q.
       Inr (map (\<lambda>c. p @ [last c]) (filter (\<lambda>c. c \<noteq> [] \<and> butlast c = q) (map fst fs)))))"

end
