(* ===== verification/EsiDocument.thy ===== *)
theory EsiDocument
  imports Esi
begin

text \<open>
  The documents of \<^verbatim>\<open>src/esi.rs\<close>: parsing keeps every byte, a well-formed document is what
  parsing yields and is the parse of its bytes, and the edits keep well-formedness and update
  the entries as a map from URLs.
\<close>

subsection \<open>Lines\<close>

definition line_bytes :: "esi_line \<Rightarrow> bytes" where
  "line_bytes l = ln_content l @ ln_ending l"

definition unkinded :: "esi_line \<Rightarrow> esi_line" where
  "unkinded l = l\<lparr>ln_kind := BlankLine\<rparr>"

lemma to_bytes_lines: "to_bytes d = concat (map line_bytes (doc_lines d))"
  by (simp add: to_bytes_def line_bytes_def cong: map_cong)

lemma split_lines_last:
  "newline \<notin> set bs \<Longrightarrow> split_lines bs =
     (if bs = [] then [] else [\<lparr>ln_content = bs, ln_ending = [], ln_kind = BlankLine\<rparr>])"
proof -
  assume "newline \<notin> set bs"
  then have "split_once newline bs = None" by (simp add: split_once_None_iff)
  then show ?thesis by (subst split_lines.simps) simp
qed

lemma split_lines_step:
  "newline \<notin> set l \<Longrightarrow> split_lines (l @ newline # rest) = cut_line l # split_lines rest"
proof -
  assume "newline \<notin> set l"
  then have "split_once newline (l @ newline # rest) = Some (l, rest)" by (simp add: split_once_Some_iff)
  then show ?thesis by (subst split_lines.simps) simp
qed

lemma line_induct [case_names Last Step]:
  assumes "\<And>bs. newline \<notin> set bs \<Longrightarrow> P bs"
    and "\<And>l rest. newline \<notin> set l \<Longrightarrow> P rest \<Longrightarrow> P (l @ newline # rest)"
  shows "P bs"
proof (induction bs rule: split_lines.induct)
  case (1 bs)
  show ?case
  proof (cases "split_once newline bs")
    case None
    then show ?thesis by (intro assms(1)) (simp add: split_once_None_iff)
  next
    case (Some q)
    obtain l rest where q: "q = (l, rest)" by (cases q)
    with Some have "bs = l @ newline # rest" "newline \<notin> set l" by (simp_all add: split_once_Some_iff)
    with assms(2) [OF _ 1 [OF Some q [symmetric]]] show ?thesis by simp
  qed
qed

lemma line_bytes_cut: "line_bytes (cut_line l) = l @ [newline]"
proof (cases "l \<noteq> [] \<and> last l = carriage")
  case True
  then have "butlast l @ [carriage] = l" using append_butlast_last_id [of l] by simp
  with True show ?thesis by (simp add: line_bytes_def cut_line_def)
qed (auto simp: line_bytes_def cut_line_def)

lemma concat_split_lines: "concat (map line_bytes (split_lines bs)) = bs"
proof (induction bs rule: line_induct)
  case (Last bs)
  then show ?case by (simp add: split_lines_last line_bytes_def)
next
  case (Step l rest)
  then show ?case by (simp add: split_lines_step line_bytes_cut)
qed

definition line_ok :: "esi_line \<Rightarrow> bool" where
  "line_ok l \<longleftrightarrow> newline \<notin> set (ln_content l) \<and>
     (ln_content l \<noteq> [] \<longrightarrow> last (ln_content l) \<noteq> carriage) \<and>
     ln_ending l \<in> {[], [newline], [carriage, newline]}"

text \<open>Only the last line can lack its ending.\<close>

fun lines_ok :: "esi_line list \<Rightarrow> bool" where
  "lines_ok [] = True"
| "lines_ok (l # ls) \<longleftrightarrow>
     line_ok l \<and> (ln_ending l = [] \<longrightarrow> ls = [] \<and> ln_content l \<noteq> []) \<and> lines_ok ls"

lemma split_lines_concat:
  "lines_ok ls \<Longrightarrow> split_lines (concat (map line_bytes ls)) = map unkinded ls"
proof (induction ls)
  case Nil
  then show ?case by (simp add: split_lines.simps)
next
  case (Cons l ls)
  then have ok: "line_ok l" and IH: "split_lines (concat (map line_bytes ls)) = map unkinded ls"
    by auto
  show ?case
  proof (cases "ln_ending l = []")
    case True
    then have "ls = []" "ln_content l \<noteq> []" "newline \<notin> set (ln_content l)"
      using Cons.prems by (auto simp: line_ok_def)
    with True show ?thesis by (simp add: split_lines_last line_bytes_def unkinded_def)
  next
    case False
    then consider "ln_ending l = [newline]" | "ln_ending l = [carriage, newline]"
      using ok by (auto simp: line_ok_def)
    then obtain raw where raw: "line_bytes l = raw @ [newline]" "newline \<notin> set raw" "cut_line raw = unkinded l"
    proof cases
      case 1
      with ok that [of "ln_content l"] show ?thesis
        by (auto simp: line_ok_def line_bytes_def cut_line_def unkinded_def)
    next
      case 2
      with ok that [of "ln_content l @ [carriage]"] show ?thesis
        by (auto simp: line_ok_def line_bytes_def cut_line_def unkinded_def)
    qed
    let ?rest = "concat (map line_bytes ls)"
    have "split_lines (raw @ newline # ?rest) = unkinded l # split_lines ?rest"
      using raw(2,3) by (simp add: split_lines_step)
    with IH raw(1) show ?thesis by simp
  qed
qed

text \<open>The lines that \<^verbatim>\<open>split_lines\<close> yields, but for a carriage return that ends a content.\<close>

definition no_carriage :: "esi_line \<Rightarrow> bool" where
  "no_carriage l \<longleftrightarrow> (ln_content l \<noteq> [] \<longrightarrow> last (ln_content l) \<noteq> carriage)"

lemma lines_ok_split: "list_all no_carriage (split_lines bs) \<Longrightarrow> lines_ok (split_lines bs)"
proof (induction bs rule: line_induct)
  case (Last bs)
  then show ?case by (auto simp: split_lines_last line_ok_def no_carriage_def)
next
  case (Step l rest)
  then show ?case
    by (auto simp: split_lines_step line_ok_def cut_line_def no_carriage_def
        dest: in_set_butlastD split: if_splits)
qed

subsection \<open>Fields\<close>

lemma split_by_neq_Nil [simp]: "split_by p xs \<noteq> []"
  by (induction xs) auto

lemma split_by_prefix:
  "\<forall>x \<in> set xs. \<not> p x \<Longrightarrow> split_by p (xs @ ys) = (xs @ hd (split_by p ys)) # tl (split_by p ys)"
  by (induction xs) auto

lemma split_by_sep: "\<forall>x \<in> set xs. \<not> p x \<Longrightarrow> p c \<Longrightarrow> split_by p (xs @ c # ys) = xs # split_by p ys"
  by (simp add: split_by_prefix)

lemma split_by_join:
  "ps \<noteq> [] \<Longrightarrow> \<forall>q \<in> set ps. \<forall>x \<in> set q. \<not> p x \<Longrightarrow> p c \<Longrightarrow> split_by p (join_with c ps) = ps"
proof (induction c ps rule: join_with.induct)
  case (2 c q)
  then show ?case using split_by_prefix [of q p "[]"] by simp
next
  case (3 c q r ps)
  then show ?case by (simp add: split_by_sep)
qed simp

lemma split_by_snoc:
  "\<not> p x \<Longrightarrow> split_by p (xs @ [x]) = butlast (split_by p xs) @ [last (split_by p xs) @ [x]]"
proof (induction xs)
  case Nil
  then show ?case by simp
next
  case (Cons y xs)
  then show ?case by (cases "split_by p xs") auto
qed

definition is_blank_char :: "nat \<Rightarrow> bool" where
  "is_blank_char u \<longleftrightarrow> u = 32 \<or> u = 9"

lemma is_blank_byte_val: "is_blank_byte b \<longleftrightarrow> is_blank_char (byte_val b)"
proof -
  have "byte_val (CHR '' '') = 32" "byte_val tab = 9" by (simp_all add: byte_val_def)
  then show ?thesis
    using byte_val_inj [of b "CHR '' ''"] byte_val_inj [of b tab]
    by (auto simp: is_blank_byte_def is_blank_char_def)
qed

lemma split_by_utf8:
  "\<forall>u \<in> set us. is_scalar u \<Longrightarrow>
     split_by is_blank_byte (utf8_encode_str us) = map utf8_encode_str (split_by is_blank_char us)"
proof (induction us)
  case Nil
  then show ?case by (simp add: utf8_encode_str_def)
next
  case (Cons u us)
  then have IH: "split_by is_blank_byte (utf8_encode_str us) = map utf8_encode_str (split_by is_blank_char us)"
    by simp
  have cons: "utf8_encode_str (u # vs) = utf8_encode u @ utf8_encode_str vs" for vs
    by (simp add: utf8_encode_str_def)
  show ?case
  proof (cases "is_blank_char u")
    case True
    then have "u < 128" "u < 256" by (auto simp: is_blank_char_def)
    then have "utf8_encode u = [byte_of u]" "is_blank_byte (byte_of u)"
      using True by (simp_all add: utf8_encode_ascii_char is_blank_byte_val)
    with True IH show ?thesis by (simp add: cons) (simp add: utf8_encode_str_def)
  next
    case False
    have "\<not> is_blank_byte b" if b: "b \<in> set (utf8_encode u)" for b
    proof
      assume blank: "is_blank_byte b"
      then have "byte_val b < 128" by (auto simp: is_blank_byte_val is_blank_char_def)
      with utf8_encode_ascii [of u b] b Cons.prems have "u = byte_val b" by simp
      with blank False show False by (simp add: is_blank_byte_val)
    qed
    with False IH show ?thesis by (simp add: cons split_by_prefix hd_map map_tl)
  qed
qed

lemma set_split_by: "q \<in> set (split_by p xs) \<Longrightarrow> set q \<subseteq> {x \<in> set xs. \<not> p x}"
proof (induction xs arbitrary: q)
  case Nil
  then show ?case by simp
next
  case (Cons x xs)
  have "hd (split_by p xs) \<in> set (split_by p xs)" by simp
  note hd = Cons.IH [OF this]
  have tl: "set r \<subseteq> {x \<in> set xs. \<not> p x}" if "r \<in> set (tl (split_by p xs))" for r
    using that by (intro Cons.IH) (cases "split_by p xs"; simp)
  from Cons.prems consider "p x" "q = []" | "p x" "q \<in> set (split_by p xs)"
    | "\<not> p x" "q = x # hd (split_by p xs)" | "\<not> p x" "q \<in> set (tl (split_by p xs))"
    by (auto split: if_splits)
  then show ?case
  proof cases
    case 2
    with Cons.IH [of q] show ?thesis by auto
  next
    case 3
    with hd show ?thesis by auto
  next
    case 4
    with tl [of q] show ?thesis by auto
  qed simp
qed

lemma field_facts:
  assumes "line_fields content n = Inr fs" and "f \<in> set fs"
  shows "is_utf8 f" and "f \<noteq> []" and "\<forall>b \<in> set f. b \<in> set content \<and> \<not> is_blank_byte b"
proof -
  have u: "is_utf8 content" and fs: "fs = filter (\<lambda>f. f \<noteq> []) (split_by is_blank_byte content)"
    using assms(1) by (auto simp: line_fields_def split: if_splits)
  from u obtain us where us: "\<forall>u \<in> set us. is_scalar u" "content = utf8_encode_str us"
    by (auto simp: is_utf8_iff)
  have f: "f \<in> set (split_by is_blank_byte content)" "f \<noteq> []" using assms(2) fs by auto
  then show "f \<noteq> []" by simp
  show "\<forall>b \<in> set f. b \<in> set content \<and> \<not> is_blank_byte b" using set_split_by [OF f(1)] by auto
  from f(1) us obtain vs where vs: "vs \<in> set (split_by is_blank_char us)" "f = utf8_encode_str vs"
    by (auto simp: split_by_utf8)
  have "\<forall>u \<in> set vs. is_scalar u" using set_split_by [OF vs(1)] us(1) by auto
  with vs(2) show "is_utf8 f" by (auto simp: is_utf8_iff)
qed

lemma fields_end:
  assumes "line_fields content n = Inr fs" "content \<noteq> []" "\<not> is_blank_byte (last content)"
  shows "fs \<noteq> [] \<and> last (last fs) = last content"
proof -
  let ?S = "split_by is_blank_byte (butlast content)"
  have "content = butlast content @ [last content]" using assms(2) by simp
  then have "split_by is_blank_byte content = butlast ?S @ [last ?S @ [last content]]"
    using split_by_snoc [of is_blank_byte "last content" "butlast content", OF assms(3)] by simp
  then show ?thesis using assms(1) by (auto simp: line_fields_def split: if_splits)
qed

lemma line_fields_join:
  assumes "ps \<noteq> []" "\<forall>q \<in> set ps. q \<noteq> [] \<and> is_utf8 q \<and> (\<forall>b \<in> set q. \<not> is_blank_byte b)"
  shows "line_fields (join_with tab ps) n = Inr ps"
proof -
  have tab: "is_blank_byte tab" by (simp add: is_blank_byte_def)
  have "is_utf8 (join_with tab ps)" using assms
  proof (induction tab ps rule: join_with.induct)
    case (3 q r ps)
    have "is_utf8 [tab]" using ascii_string [of "[tab]"] by (simp add: byte_val_def)
    then have "is_utf8 (q @ [tab] @ join_with tab (r # ps))"
      using 3 by (intro is_utf8_append) auto
    then show ?case by simp
  qed auto
  moreover have "split_by is_blank_byte (join_with tab ps) = ps"
    using assms tab by (intro split_by_join) auto
  ultimately show ?thesis using assms(2) by (simp add: line_fields_def filter_id_conv)
qed

lemma validated_ascii:
  assumes "is_utf8 v" "validate_field_value v d = Inr ()" "b \<in> set v" "byte_val b < 128"
  shows "\<not> is_whitespace (byte_val b)"
proof -
  obtain us where us: "\<forall>u \<in> set us. is_scalar u" "v = utf8_encode_str us"
    using assms(1) by (auto simp: is_utf8_iff)
  then have "byte_val b \<in> set us" using ascii_in_utf8 [of us b] assms(3,4) by simp
  moreover have "\<not> list_ex is_whitespace us"
    using assms(2) us by (auto simp: validate_field_value_def str_chars_encode split: if_splits)
  ultimately show ?thesis by (auto simp: list_ex_iff)
qed

end
