(* ===== verification/EsiEdit.thy ===== *)
theory EsiEdit
  imports EsiDocument
begin

text \<open>
  Well-formed documents of \<^verbatim>\<open>src/esi.rs\<close>: they are the values of \<^verbatim>\<open>Document::parse\<close>, each is the
  parse of its bytes, and \<^verbatim>\<open>add\<close> and \<^verbatim>\<open>remove\<close> keep them well-formed.
\<close>

subsection \<open>The lines after the headers\<close>

definition line_matches :: "url_crate \<Rightarrow> hex_crate \<Rightarrow> meta_version \<Rightarrow> url \<Rightarrow> esi_line \<Rightarrow> bool" where
  "line_matches U H meta base l \<longleftrightarrow>
     (case ln_kind l of
        BlankLine \<Rightarrow> list_all is_blank_byte (ln_content l)
      | EntryLine e \<Rightarrow> \<not> list_all is_blank_byte (ln_content l) \<and>
          parse_entry U H (ln_content l) meta base 0 = Inr e
      | MetaLine \<Rightarrow> False
      | UrlLine \<Rightarrow> False)"

definition line_entries :: "esi_line list \<Rightarrow> esi_entry list" where
  "line_entries ls = List.map_filter (\<lambda>l. kind_entry (ln_kind l)) ls"

lemma line_entries_simps [simp]:
  "line_entries [] = []"
  "line_entries (l # ls) = (case kind_entry (ln_kind l) of None \<Rightarrow> line_entries ls | Some e \<Rightarrow> e # line_entries ls)"
  "line_entries (ls @ ks) = line_entries ls @ line_entries ks"
  by (simp_all add: line_entries_def map_filter_def split: option.split)

abbreviation "line_urls ls \<equiv> map en_url (line_entries ls)"

lemma parse_checksum_iff: "parse_checksum H v d n = Inr c \<longleftrightarrow> hex_decode H v = Some c \<and> length c = 20"
  by (auto simp: parse_checksum_def result_simps split: if_splits)

lemma parse_size_iff: "parse_size v d n = Inr w \<longleftrightarrow> parse_u64 v = Some w"
  by (simp add: parse_size_def)

lemma line_fields_iff:
  "line_fields c n = Inr fs \<longleftrightarrow> is_utf8 c \<and> fs = filter (\<lambda>f. f \<noteq> []) (split_by is_blank_byte c)"
  by (auto simp: line_fields_def)

definition sizes_parsed :: "meta_version \<Rightarrow> bytes list \<Rightarrow> esi_entry \<Rightarrow> bool" where
  "sizes_parsed meta fs e \<longleftrightarrow>
     (if meta = V1 then en_pack_size e = None \<and> en_index_size e = None
      else parse_u64 (fs ! 3) = en_pack_size e \<and> parse_u64 (fs ! 4) = en_index_size e \<and>
        en_pack_size e \<noteq> None \<and> en_index_size e \<noteq> None)"

lemma sizes_parsed_iff:
  "(if meta = V2
    then rbind (parse_size (fs ! 3) d n) (\<lambda>p. rbind (parse_size (fs ! 4) d' n) (\<lambda>i. Inr (Some p, Some i)))
    else Inr (None, None)) = Inr (en_pack_size e, en_index_size e) \<longleftrightarrow> sizes_parsed meta fs e"
  by (cases meta; cases "en_pack_size e"; cases "en_index_size e")
    (auto simp: sizes_parsed_def result_simps parse_size_iff)

lemma parse_entry_iff:
  "parse_entry U H c meta base n = Inr e \<longleftrightarrow>
     (\<exists>fs. line_fields c n = Inr fs \<and> length fs = (if meta = V1 then 3 else 5) \<and>
        hex_decode H (fs ! 0) = Some (en_index_checksum e) \<and> length (en_index_checksum e) = 20 \<and>
        hex_decode H (fs ! 1) = Some (en_pack_checksum e) \<and> length (en_pack_checksum e) = 20 \<and>
        validate_field_value (fs ! 2) ''pack URL'' = Inr () \<and> url_join U base (fs ! 2) \<noteq> None \<and>
        en_url e = fs ! 2 \<and> sizes_parsed meta fs e)"
  (is "?l \<longleftrightarrow> (\<exists>fs. ?r fs)")
proof
  assume ?l
  then obtain fs x y u p i where fs: "line_fields c n = Inr fs" "length fs = (if meta = V1 then 3 else 5)"
    and xy: "hex_decode H (fs ! 0) = Some x" "length x = 20" "hex_decode H (fs ! 1) = Some y" "length y = 20"
    and u: "validate_field_value (fs ! 2) ''pack URL'' = Inr ()" "url_join U base (fs ! 2) = Some u"
    and pi: "(if meta = V2
       then rbind (parse_size (fs ! 3) ''pack'' n) (\<lambda>p.
            rbind (parse_size (fs ! 4) ''pack index'' n) (\<lambda>i. Inr (Some p, Some i)))
       else Inr (None, None)) = Inr (p, i)"
    and e: "e = \<lparr>en_index_checksum = x, en_pack_checksum = y, en_url = fs ! 2,
       en_pack_size = p, en_index_size = i\<rparr>"
    by (auto simp: parse_entry_def Let_def rbind_Inr_iff parse_checksum_iff split: if_split_asm
        simp del: One_nat_def)
  have "sizes_parsed meta fs e" using pi sizes_parsed_iff [of meta fs _ n _ e] by (simp add: e)
  with fs xy u show "\<exists>fs. ?r fs" by (auto simp: e)
next
  assume "\<exists>fs. ?r fs"
  then obtain fs where "?r fs" by blast
  then show ?l
    using sizes_parsed_iff [of meta fs "''pack''" n "''pack index''" e]
    by (cases e) (auto simp: parse_entry_def Let_def parse_checksum_iff [THEN iffD2])
qed

lemma parse_entry_line_no:
  "parse_entry U H c meta base n = Inr e \<Longrightarrow> parse_entry U H c meta base m = Inr e"
  by (simp add: parse_entry_iff line_fields_iff)

lemma rekind: "unkinded l = unkinded k \<Longrightarrow> l\<lparr>ln_kind := ln_kind k\<rparr> = k"
  by (cases l; cases k) (simp add: unkinded_def)

lemma unkinded_content:
  "unkinded l = unkinded k \<Longrightarrow> ln_content l = ln_content k \<and> ln_ending l = ln_ending k"
  by (cases l; cases k) (simp add: unkinded_def)

lemma unkinded_kind [simp]: "unkinded (l\<lparr>ln_kind := k\<rparr>) = unkinded l"
  by (simp add: unkinded_def)

lemma parse_lines_sound:
  "parse_lines U H meta base urls n ls = Inr ks \<Longrightarrow>
     map unkinded ks = map unkinded ls \<and> list_all (line_matches U H meta base) ks \<and>
     distinct (line_urls ks) \<and> set (line_urls ks) \<inter> set urls = {}"
proof (induction ls arbitrary: urls n ks)
  case Nil
  then show ?case by simp
next
  case (Cons l ls)
  show ?case
  proof (cases "list_all is_blank_byte (ln_content l)")
    case True
    with Cons.prems obtain rest where "parse_lines U H meta base urls (n + 1) ls = Inr rest"
      "ks = l\<lparr>ln_kind := BlankLine\<rparr> # rest" by (auto simp: result_simps)
    with Cons.IH [OF this(1)] True show ?thesis by (simp add: line_matches_def)
  next
    case False
    with Cons.prems obtain e rest where e: "parse_entry U H (ln_content l) meta base n = Inr e"
      "en_url e \<notin> set urls" and rest: "parse_lines U H meta base (en_url e # urls) (n + 1) ls = Inr rest"
      and ks: "ks = l\<lparr>ln_kind := EntryLine e\<rparr> # rest" by (auto simp: result_simps split: if_splits)
    from Cons.IH [OF rest] e(2) parse_entry_line_no [OF e(1), of 0] False show ?thesis
      by (auto simp: ks line_matches_def)
  qed
qed

lemma parse_lines_complete:
  "list_all (line_matches U H meta base) ks \<Longrightarrow> distinct (line_urls ks) \<Longrightarrow>
     set (line_urls ks) \<inter> set urls = {} \<Longrightarrow> map unkinded ls = map unkinded ks \<Longrightarrow>
     parse_lines U H meta base urls n ls = Inr ks"
proof (induction ks arbitrary: urls n ls)
  case Nil
  then show ?case by simp
next
  case (Cons k ks)
  then obtain l ls' where ls: "ls = l # ls'" "unkinded l = unkinded k" "map unkinded ls' = map unkinded ks"
    by auto
  note same = unkinded_content [OF ls(2)] and k = rekind [OF ls(2)]
  show ?case
  proof (cases "ln_kind k")
    case BlankLine
    with Cons.IH [of urls ls' "n + 1"] Cons.prems ls(3) k same show ?thesis
      by (simp add: ls(1) line_matches_def)
  next
    case (EntryLine e)
    then have e: "\<not> list_all is_blank_byte (ln_content k)" "parse_entry U H (ln_content k) meta base n = Inr e"
      using Cons.prems(1) parse_entry_line_no [of U H "ln_content k" meta base 0 e n] by (auto simp: line_matches_def)
    have "parse_lines U H meta base (en_url e # urls) (n + 1) ls' = Inr ks"
      using Cons.prems EntryLine ls(3) by (intro Cons.IH) auto
    with e same k EntryLine Cons.prems(3) show ?thesis by (simp add: ls(1))
  qed (use Cons.prems(1) in \<open>auto simp: line_matches_def\<close>)
qed

subsection \<open>Well-formed documents\<close>

definition document_wf :: "url_crate \<Rightarrow> hex_crate \<Rightarrow> document \<Rightarrow> bool" where
  "document_wf U H d \<longleftrightarrow> lines_ok (doc_lines d) \<and>
     (case doc_lines d of
        l0 # l1 # ls \<Rightarrow> ln_kind l0 = MetaLine \<and> ln_kind l1 = UrlLine \<and>
          parse_header (ln_content l0) ''meta'' 1 = Inr (meta_str (doc_meta d)) \<and>
          parse_header (ln_content l1) ''url'' 2 = Inr (doc_url d) \<and>
          (case validate_index_url U (doc_url d) of
             Inr base \<Rightarrow> list_all (line_matches U H (doc_meta d) base) ls \<and> distinct (line_urls ls)
           | Inl _ \<Rightarrow> False)
      | _ \<Rightarrow> False)"

lemma document_wfE:
  assumes "document_wf U H d"
  obtains l0 l1 ls base where "doc_lines d = l0 # l1 # ls" "lines_ok (l0 # l1 # ls)"
    "ln_kind l0 = MetaLine" "ln_kind l1 = UrlLine"
    "parse_header (ln_content l0) ''meta'' 1 = Inr (meta_str (doc_meta d))"
    "parse_header (ln_content l1) ''url'' 2 = Inr (doc_url d)"
    "validate_index_url U (doc_url d) = Inr base"
    "list_all (line_matches U H (doc_meta d) base) ls" "distinct (line_urls ls)"
  using assms by (auto simp: document_wf_def split: list.splits sum.splits)

lemma meta_from_str_iff [simp]: "meta_from_str s = Inr m \<longleftrightarrow> s = meta_str m"
  by (cases m) (auto simp: meta_from_str_def)

lemma meta_from_str_str [simp]: "meta_from_str (meta_str m) = Inr m"
  by simp

lemma parse_wf: "document_wf U H d \<Longrightarrow> document_parse U H (to_bytes d) = Inr d"
proof (erule document_wfE)
  fix l0 l1 ls base
  assume d: "doc_lines d = l0 # l1 # ls" "lines_ok (l0 # l1 # ls)"
    and k: "ln_kind l0 = MetaLine" "ln_kind l1 = UrlLine"
    and h: "parse_header (ln_content l0) ''meta'' 1 = Inr (meta_str (doc_meta d))"
      "parse_header (ln_content l1) ''url'' 2 = Inr (doc_url d)"
    and base: "validate_index_url U (doc_url d) = Inr base"
    and ls: "list_all (line_matches U H (doc_meta d) base) ls" "distinct (line_urls ls)"
  have "split_lines (to_bytes d) = unkinded l0 # unkinded l1 # map unkinded ls"
    using split_lines_concat [OF d(2)] by (simp add: to_bytes_lines d(1))
  moreover have "parse_lines U H (doc_meta d) base [] 3 (map unkinded ls) = Inr ls"
    using ls by (intro parse_lines_complete) (simp_all add: unkinded_def)
  moreover have "unkinded l\<lparr>ln_kind := ln_kind l\<rparr> = l" for l by (simp add: unkinded_def)
  then have "unkinded l0\<lparr>ln_kind := MetaLine\<rparr> = l0" "unkinded l1\<lparr>ln_kind := UrlLine\<rparr> = l1"
    using k by metis+
  moreover have "ln_content (unkinded l) = ln_content l" for l by (simp add: unkinded_def)
  ultimately show ?thesis using d(1) h base by (simp add: document_parse_def)
qed

subsection \<open>Parsing loses nothing\<close>

lemma parse_u64_last: "parse_u64 s = Some w \<Longrightarrow> s \<noteq> [] \<and> is_ascii_digit (last s)"
  by (cases s) (auto simp: parse_u64_def Let_def list_all_iff split: if_splits)

lemma carriage_space: "is_whitespace (byte_val carriage)" "byte_val carriage < 128"
    "\<not> is_blank_byte carriage" "\<not> is_ascii_digit carriage"
  by (simp_all add: is_whitespace_def byte_val_def is_blank_byte_def is_ascii_digit_def)

lemma entry_no_carriage:
  assumes e: "parse_entry U H c meta base n = Inr e"
  shows "c \<noteq> [] \<longrightarrow> last c \<noteq> carriage"
proof (intro impI notI)
  assume c: "c \<noteq> []" "last c = carriage"
  obtain fs where fs: "line_fields c n = Inr fs" "length fs = (if meta = V1 then 3 else 5)"
    "validate_field_value (fs ! 2) ''pack URL'' = Inr ()" "sizes_parsed meta fs e"
    using e by (auto simp: parse_entry_iff)
  have "fs \<noteq> []" and last: "last (last fs) = carriage"
    using fields_end [OF fs(1) c(1)] c(2) carriage_space by auto
  then have mem: "last fs \<in> set fs" by simp
  then have inlast: "carriage \<in> set (last fs)"
    using last field_facts(2) [OF fs(1) mem] by (metis last_in_set)
  show False
  proof (cases meta)
    case V1
    then have "last fs = fs ! 2" using fs(2) \<open>fs \<noteq> []\<close> by (simp add: last_conv_nth)
    with validated_ascii [OF field_facts(1) [OF fs(1) mem] _ inlast] fs(3) carriage_space
    show False by simp
  next
    case V2
    then have "last fs = fs ! 4" using fs(2) \<open>fs \<noteq> []\<close> by (simp add: last_conv_nth)
    with V2 fs(4) have "parse_u64 (last fs) \<noteq> None" by (auto simp: sizes_parsed_def)
    then show False using parse_u64_last [of "last fs"] last carriage_space by auto
  qed
qed

lemma parse_header_iff: "parse_header c key n = Inr v \<longleftrightarrow> line_fields c n = Inr [key, v]"
proof (cases "line_fields c n")
  case (Inr fs)
  have "fs = [] \<or> (\<exists>x. fs = [x]) \<or> (\<exists>x y. fs = [x, y]) \<or> (\<exists>x y z r. fs = x # y # z # r)"
    by (metis list.exhaust)
  with Inr show ?thesis by (auto simp: parse_header_def)
qed (simp add: parse_header_def)

lemma header_no_carriage:
  assumes "parse_header c key n = Inr v" and "carriage \<notin> set v"
  shows "c \<noteq> [] \<longrightarrow> last c \<noteq> carriage"
proof (intro impI notI)
  assume c: "c \<noteq> []" "last c = carriage"
  have fs: "line_fields c n = Inr [key, v]" using assms(1) by (simp add: parse_header_iff)
  have "last v = carriage" using fields_end [OF fs c(1)] c(2) carriage_space by simp
  moreover have "v \<noteq> []" using field_facts(2) [OF fs] by simp
  ultimately show False using assms(2) last_in_set by metis
qed

lemma line_matches_no_carriage: "line_matches U H meta base l \<Longrightarrow> no_carriage l"
proof (cases "ln_kind l")
  case (EntryLine e)
  moreover assume "line_matches U H meta base l"
  ultimately show ?thesis using entry_no_carriage by (auto simp: line_matches_def no_carriage_def)
next
  case BlankLine
  moreover assume "line_matches U H meta base l"
  ultimately show ?thesis using carriage_space
    by (auto simp: line_matches_def no_carriage_def list_all_iff) (metis last_in_set)
qed (simp_all add: line_matches_def)

lemma document_parse_wf:
  assumes "document_parse U H bs = Inr d"
  shows "to_bytes d = bs \<and> document_wf U H d"
proof -
  obtain l0 l1 ls meta u base rest where sp: "split_lines bs = l0 # l1 # ls"
    and h: "parse_header (ln_content l0) ''meta'' 1 = Inr (meta_str meta)"
      "parse_header (ln_content l1) ''url'' 2 = Inr u"
    and base: "validate_index_url U u = Inr base" and rest: "parse_lines U H meta base [] 3 ls = Inr rest"
    and d: "d = \<lparr>doc_lines = l0\<lparr>ln_kind := MetaLine\<rparr> # l1\<lparr>ln_kind := UrlLine\<rparr> # rest,
      doc_meta = meta, doc_url = u\<rparr>"
    using assms by (auto simp: document_parse_def result_simps split: list.splits)
  note r = parse_lines_sound [OF rest]
  have uk: "map unkinded (doc_lines d) = map unkinded (split_lines bs)" using r by (simp add: d sp)
  have lb: "line_bytes l = line_bytes (unkinded l)" for l by (simp add: line_bytes_def unkinded_def)
  have "map line_bytes (doc_lines d) = map line_bytes (map unkinded (doc_lines d))"
    by (simp add: lb [symmetric])
  also have "\<dots> = map line_bytes (split_lines bs)" unfolding uk by (simp add: lb [symmetric])
  finally have bytes: "to_bytes d = bs" by (simp add: to_bytes_lines concat_split_lines)
  have "carriage \<notin> set u"
  proof
    assume c: "carriage \<in> set u"
    have "is_utf8 u" using h(2) field_facts(1) by (auto simp: parse_header_iff)
    moreover have "validate_field_value u ''elfshaker index URL'' = Inr ()"
      using base by (auto simp: validate_index_url_def rbind_Inr_iff)
    ultimately show False using validated_ascii [OF _ _ c] carriage_space by blast
  qed
  moreover have "carriage \<notin> set (meta_str meta)" by (cases meta) auto
  ultimately have "list_all no_carriage (doc_lines d)"
    using header_no_carriage h r line_matches_no_carriage
    by (auto simp: d no_carriage_def list_all_iff)
  moreover have "list_all no_carriage ks = list_all no_carriage (map unkinded ks)" for ks
    by (simp add: list_all_iff no_carriage_def unkinded_def)
  moreover have "lines_ok ks = lines_ok (map unkinded ks)" for ks
    by (induction ks) (simp_all add: line_ok_def unkinded_def)
  ultimately have "lines_ok (doc_lines d)"
    using lines_ok_split [of bs] uk by metis
  with h base r show ?thesis using bytes by (simp add: document_wf_def d)
qed

subsection \<open>Canonical lines\<close>

text \<open>A field: UTF-8 without white space.\<close>

definition plain_piece :: "bytes \<Rightarrow> bool" where
  "plain_piece q \<longleftrightarrow> q \<noteq> [] \<and> is_utf8 q \<and>
     (\<forall>b \<in> set q. byte_val b < 128 \<longrightarrow> \<not> is_whitespace (byte_val b))"

lemma plain_piece_bytes:
  "plain_piece q \<Longrightarrow> b \<in> set q \<Longrightarrow> \<not> is_blank_byte b \<and> b \<noteq> newline"
  by (auto simp: plain_piece_def is_blank_byte_def is_whitespace_def byte_val_def)

lemma plain_ascii:
  assumes "q \<noteq> []" "\<forall>b \<in> set q. 33 \<le> byte_val b \<and> byte_val b < 128"
  shows "plain_piece q"
  using assms ascii_string [of q] by (fastforce simp: plain_piece_def list_all_iff is_whitespace_def)

lemma plain_hex: "hex_ok H \<Longrightarrow> c \<noteq> [] \<Longrightarrow> plain_piece (hex_encode H c)"
proof (rule plain_ascii)
  assume H: "hex_ok H" and c: "c \<noteq> []"
  have "length (hex_encode H c) = 2 * length c" by (rule hex_okD(2) [OF H])
  with c show "hex_encode H c \<noteq> []" by auto
  show "\<forall>b \<in> set (hex_encode H c). 33 \<le> byte_val b \<and> byte_val b < 128"
    using hex_okD(3) [OF H, of c] by (auto simp: list_all_iff is_hex_lower_def is_ascii_digit_def)
qed

lemma plain_show: "plain_piece (show_nat n)"
  using show_nat_digits [of n]
  by (intro plain_ascii) (auto simp: list_all_iff is_ascii_digit_def)

definition entry_fits :: "meta_version \<Rightarrow> esi_entry \<Rightarrow> bool" where
  "entry_fits meta e \<longleftrightarrow> is_utf8 (en_url e) \<and>
     length (en_index_checksum e) = 20 \<and> length (en_pack_checksum e) = 20 \<and>
     (meta = V1 \<longrightarrow> en_pack_size e = None \<and> en_index_size e = None)"

lemma plain_url:
  assumes "is_utf8 u" "validate_field_value u d = Inr ()"
  shows "plain_piece u"
  using assms validated_ascii [OF assms]
  by (auto simp: plain_piece_def validate_field_value_def split: if_splits)

lemma canonical_parse:
  assumes H: "hex_ok H" and fits: "entry_fits meta e" and c: "canonical_line H e meta = Inr c"
    and join: "url_join U base (en_url e) \<noteq> None"
  shows "parse_entry U H c meta base n = Inr e" and "c \<noteq> []" and "newline \<notin> set c"
    and "\<not> list_all is_blank_byte c"
proof -
  let ?hi = "hex_encode H (en_index_checksum e)" and ?hp = "hex_encode H (en_pack_checksum e)"
  have v: "validate_field_value (en_url e) ''pack URL'' = Inr ()"
    using c by (auto simp: canonical_line_def rbind_Inr_iff)
  have plain: "plain_piece ?hi" "plain_piece ?hp" "plain_piece (en_url e)"
    using plain_hex [OF H, of "en_index_checksum e"] plain_hex [OF H, of "en_pack_checksum e"]
      plain_url [OF _ v] fits by (fastforce simp: entry_fits_def)+
  obtain ps where ps: "c = join_with tab (?hi # ?hp # en_url e # ps)" "list_all plain_piece ps"
    "length ps = (if meta = V1 then 0 else 2)" "sizes_parsed meta (?hi # ?hp # en_url e # ps) e"
  proof (cases meta)
    case V1
    with that [of "[]"] c v fits show ?thesis
      by (simp add: canonical_line_def sizes_parsed_def entry_fits_def)
  next
    case V2
    with c v obtain p i where "en_pack_size e = Some p" "en_index_size e = Some i"
      "c = join_with tab [?hi, ?hp, en_url e, show_nat (unat p), show_nat (unat i)]"
      by (auto simp: canonical_line_def rbind_Inr_iff)
    with V2 that [of "[show_nat (unat p), show_nat (unat i)]"] show ?thesis
      by (simp add: plain_show sizes_parsed_def parse_show_u64)
  qed
  let ?ps = "?hi # ?hp # en_url e # ps"
  have all: "\<forall>q \<in> set ?ps. plain_piece q" using plain ps(2) by (auto simp: list_all_iff)
  then have "line_fields c n = Inr ?ps"
    unfolding ps(1) using plain_piece_bytes by (intro line_fields_join) (auto simp: plain_piece_def)
  then show "parse_entry U H c meta base n = Inr e"
    using ps(3,4) hex_okD(1) [OF H] fits v join by (auto simp: parse_entry_iff entry_fits_def)
  have "newline \<notin> set q" if "q \<in> set ?ps" for q using all that plain_piece_bytes by blast
  then show "newline \<notin> set c" unfolding ps(1) using set_join_with [of tab ?ps] by auto
  have ne: "?hi \<noteq> []" using plain(1) by (simp add: plain_piece_def)
  then have h: "hd ?hi \<in> set ?hi" "hd c = hd ?hi" by (simp_all add: ps(1))
  from ne show "c \<noteq> []" by (simp add: ps(1))
  with h plain_piece_bytes [OF plain(1)] show "\<not> list_all is_blank_byte c"
    unfolding list_all_iff by (metis hd_in_set)
qed

subsection \<open>Editing\<close>

lemma lines_ok_append:
  "lines_ok (xs @ ys) \<longleftrightarrow>
     lines_ok xs \<and> lines_ok ys \<and> (xs \<noteq> [] \<and> ys \<noteq> [] \<longrightarrow> ln_ending (last xs) \<noteq> [])"
  by (induction xs) auto

lemma position_split:
  "position p xs = Some i \<Longrightarrow>
     \<exists>as x bs. xs = as @ x # bs \<and> length as = i \<and> p x \<and> (\<forall>a \<in> set as. \<not> p a)"
proof -
  assume p: "position p xs = Some i"
  then have i: "i < length xs" "p (xs ! i)" "\<forall>j < i. \<not> p (xs ! j)" by (simp_all add: position_Some_iff)
  then have "xs = take i xs @ xs ! i # drop (Suc i) xs" by (simp add: id_take_nth_drop)
  moreover have "\<forall>a \<in> set (take i xs). \<not> p a" using i by (auto simp: in_set_conv_nth)
  ultimately show ?thesis using i(1,2) by (metis length_take min.absorb4)
qed

lemma has_url_entries: "(\<exists>l \<in> set ls. has_url u l) \<longleftrightarrow> u \<in> set (line_urls ls)"
  by (induction ls) (auto simp: has_url_def split: option.split)

lemma has_url_entry: "has_url u l \<longleftrightarrow> (\<exists>e. ln_kind l = EntryLine e \<and> en_url e = u)"
  by (cases "ln_kind l") (auto simp: has_url_def)

lemma lines_ok_endings:
  "lines_ok ls \<Longrightarrow> l \<in> set ls \<Longrightarrow> ln_ending l \<in> {[], [newline], [carriage, newline]}"
  by (induction ls) (auto simp: line_ok_def)

lemma preferred_ending:
  "lines_ok (doc_lines d) \<Longrightarrow> preferred_line_ending d \<in> {[newline], [carriage, newline]}"
proof -
  assume ok: "lines_ok (doc_lines d)"
  show ?thesis
  proof (cases "find (\<lambda>e. e \<noteq> []) (map ln_ending (doc_lines d))")
    case (Some e)
    then have "e \<in> set (map ln_ending (doc_lines d))" "e \<noteq> []" by (auto simp: find_Some_iff)
    with Some lines_ok_endings [OF ok] show ?thesis by (auto simp: preferred_line_ending_def)
  qed (simp add: preferred_line_ending_def)
qed

text \<open>A line of well-formed content in place of another one.\<close>

lemma document_add_found:
  assumes wf: "document_wf U H d" and H: "hex_ok H" and fits: "entry_fits (doc_meta d) e"
    and add: "document_add U H d e force = Inr d'" and mem: "en_url e \<in> en_url ` set (document_entries d)"
  shows "force \<and> document_wf U H d' \<and>
    (\<exists>pre old post. document_entries d = pre @ old # post \<and> en_url old = en_url e \<and>
      document_entries d' = pre @ e # post)"
proof -
  from wf obtain l0 l1 ls base where d: "doc_lines d = l0 # l1 # ls" "lines_ok (l0 # l1 # ls)"
    and k: "ln_kind l0 = MetaLine" "ln_kind l1 = UrlLine"
    and h: "parse_header (ln_content l0) ''meta'' 1 = Inr (meta_str (doc_meta d))"
      "parse_header (ln_content l1) ''url'' 2 = Inr (doc_url d)"
    and base: "validate_index_url U (doc_url d) = Inr base"
    and ls: "list_all (line_matches U H (doc_meta d) base) ls" "distinct (line_urls ls)"
    by (rule document_wfE)
  have ents: "document_entries d = line_entries ls"
    by (simp add: document_entries_def line_entries_def [symmetric] d(1) k)
  from add base obtain c where c: "canonical_line H e (doc_meta d) = Inr c"
    and join: "url_join U base (en_url e) \<noteq> None"
    by (auto simp: document_add_def rbind_Inr_iff)
  have ex: "\<exists>l \<in> set ls. has_url (en_url e) l"
    using mem by (simp add: has_url_entries ents)
  then obtain j where "position (has_url (en_url e)) ls = Some j"
    by (cases "position (has_url (en_url e)) ls") (auto simp: position_None_iff)
  from position_split [OF this] obtain as l bs where sp: "ls = as @ l # bs" "length as = j"
    "has_url (en_url e) l" by blast
  have pos: "position (has_url (en_url e)) (doc_lines d) = Some (Suc (Suc j))"
    using k \<open>position _ ls = Some j\<close> by (simp add: d(1) has_url_def)
  let ?l = "l\<lparr>ln_content := c, ln_kind := EntryLine e\<rparr>"
  from add base c pos join have force and d': "d' = d\<lparr>doc_lines := l0 # l1 # as @ ?l # bs\<rparr>"
    using sp by (auto simp: document_add_def rbind_Inr_iff d(1) nth_append list_update_append
        split: if_splits)
  note cl = canonical_parse [OF H fits c join]
  obtain old where old: "ln_kind l = EntryLine old" "en_url old = en_url e"
    using sp(3) by (auto simp: has_url_entry)
  have "lines_ok (l0 # l1 # as @ ?l # bs)"
    using d(2) cl(2,3) entry_no_carriage [OF cl(1) [of 0]]
    by (auto simp: sp(1) lines_ok_append line_ok_def)
  moreover have "list_all (line_matches U H (doc_meta d) base) (as @ ?l # bs)"
    using ls(1) cl(1) [of 0] cl(4) by (simp add: sp(1) line_matches_def)
  moreover have "distinct (line_urls (as @ ?l # bs))" using ls(2) old by (simp add: sp(1))
  ultimately have "document_wf U H d'" using k h base by (simp add: d' document_wf_def)
  moreover have "document_entries d' = line_entries as @ e # line_entries bs"
    using k by (simp add: document_entries_def line_entries_def [symmetric] d')
  moreover have "document_entries d = line_entries as @ old # line_entries bs"
    using old by (simp add: ents sp(1))
  ultimately show ?thesis using \<open>force\<close> old(2) by blast
qed

lemma lines_ok_terminated:
  "lines_ok ls \<Longrightarrow> ls \<noteq> [] \<Longrightarrow> fin \<in> {[newline], [carriage, newline]} \<Longrightarrow>
     lines_ok (butlast ls @ [(last ls)\<lparr>ln_ending := fin\<rparr>])"
proof -
  assume ok: "lines_ok ls" "ls \<noteq> []" and fin: "fin \<in> {[newline], [carriage, newline]}"
  then have "lines_ok (butlast ls @ [last ls])" by simp
  with fin show ?thesis unfolding lines_ok_append by (auto simp: line_ok_def)
qed

lemma line_matches_ending [simp]:
  "line_matches U H m base (l\<lparr>ln_ending := x\<rparr>) = line_matches U H m base l"
  by (simp add: line_matches_def cong: line_kind.case_cong)

lemma document_add_new:
  assumes wf: "document_wf U H d" and H: "hex_ok H" and fits: "entry_fits (doc_meta d) e"
    and add: "document_add U H d e force = Inr d'" and mem: "en_url e \<notin> en_url ` set (document_entries d)"
  shows "document_wf U H d' \<and> document_entries d' = document_entries d @ [e]"
proof -
  from wf obtain l0 l1 ls base where d: "doc_lines d = l0 # l1 # ls" "lines_ok (l0 # l1 # ls)"
    and k: "ln_kind l0 = MetaLine" "ln_kind l1 = UrlLine"
    and h: "parse_header (ln_content l0) ''meta'' 1 = Inr (meta_str (doc_meta d))"
      "parse_header (ln_content l1) ''url'' 2 = Inr (doc_url d)"
    and base: "validate_index_url U (doc_url d) = Inr base"
    and ls: "list_all (line_matches U H (doc_meta d) base) ls" "distinct (line_urls ls)"
    by (rule document_wfE)
  have ents: "document_entries d = line_entries (doc_lines d)"
    by (simp add: document_entries_def line_entries_def)
  from add base obtain c where c: "canonical_line H e (doc_meta d) = Inr c"
    and join: "url_join U base (en_url e) \<noteq> None"
    by (auto simp: document_add_def rbind_Inr_iff)
  have pos: "position (has_url (en_url e)) (doc_lines d) = None"
    using mem has_url_entries [of "doc_lines d" "en_url e"] by (auto simp: position_None_iff ents)
  let ?fin = "preferred_line_ending d" and ?ls = "doc_lines d"
  let ?closed = "ln_ending (last ?ls) \<noteq> []"
  let ?ls' = "if ?closed then ?ls else butlast ?ls @ [(last ?ls)\<lparr>ln_ending := ?fin\<rparr>]"
  let ?new = "\<lparr>ln_content = c, ln_ending = (if ?closed then ?fin else []), ln_kind = EntryLine e\<rparr>"
  have d': "d' = d\<lparr>doc_lines := ?ls' @ [?new]\<rparr>"
    using add base c pos join by (auto simp: document_add_def rbind_Inr_iff d(1) Let_def)
  have pe: "?fin \<in> {[newline], [carriage, newline]}" using preferred_ending [of d] d by simp
  note cl = canonical_parse [OF H fits c join]
  have ne: "?ls \<noteq> []" and ok: "lines_ok ?ls" using d by simp_all
  have "lines_ok ?ls'" using lines_ok_terminated [OF ok ne pe] ok by simp
  moreover have "ln_ending (last ?ls') \<noteq> []" using pe by (cases "?closed") auto
  moreover have "?ls' \<noteq> []" using ne by simp
  moreover have "lines_ok [?new]" using pe cl(2,3) entry_no_carriage [OF cl(1) [of 0]]
    by (auto simp: line_ok_def)
  ultimately have lok: "lines_ok (doc_lines d')" unfolding d' by (simp add: lines_ok_append)
  obtain k0 k1 ks where new: "?ls' = k0 # k1 # ks" and same: "ln_kind k0 = MetaLine" "ln_kind k1 = UrlLine"
    "ln_content k0 = ln_content l0" "ln_content k1 = ln_content l1"
    "list_all (line_matches U H (doc_meta d) base) ks" "line_entries ks = line_entries ls"
  proof (cases ?closed)
    case True
    then have "?ls' = l0 # l1 # ls" unfolding d(1) by simp
    then show ?thesis using that k ls(1) by blast
  next
    case False
    define l1' where "l1' = l1\<lparr>ln_ending := ?fin\<rparr>"
    define last' where "last' = (last ls)\<lparr>ln_ending := ?fin\<rparr>"
    show ?thesis
    proof (cases "ls = []")
      case True
      with False have "?ls' = l0 # l1' # []" by (simp add: d(1) l1'_def)
      then show ?thesis using that k True by (simp add: l1'_def)
    next
      case ne: False
      then have sl: "ls = butlast ls @ [last ls]" by simp
      have m: "list_all (line_matches U H (doc_meta d) base) (butlast ls @ [last ls])" using ls(1) sl by simp
      have "line_entries ls = line_entries (butlast ls) @ line_entries [last ls]"
        using arg_cong [OF sl, of line_entries] by simp
      then have "line_entries (butlast ls @ [last']) = line_entries ls" by (simp add: last'_def)
      moreover have "list_all (line_matches U H (doc_meta d) base) (butlast ls @ [last'])"
        using m by (simp add: last'_def)
      moreover have "?ls' = l0 # l1 # butlast ls @ [last']"
        using False ne by (simp add: d(1) last'_def)
      ultimately show ?thesis using that k by blast
    qed
  qed
  have ents': "document_entries d' = line_entries ls @ [e]"
    using new same by (simp add: document_entries_def line_entries_def [symmetric] d')
  have "en_url e \<notin> set (line_urls ls)" using mem k by (simp add: ents d(1))
  then have "document_wf U H d'"
    using lok new same h base ls(2) cl(1) [of 0] cl(4)
    by (simp add: document_wf_def d' line_matches_def)
  with ents' k show ?thesis by (simp add: ents d(1))
qed

lemma document_remove_wf:
  assumes wf: "document_wf U H d" and rem: "document_remove d url force = Inr d'"
  shows "document_wf U H d' \<and> document_entries d' = filter (\<lambda>e. en_url e \<noteq> url) (document_entries d)"
proof (cases "position (has_url url) (doc_lines d)")
  case None
  then have "url \<notin> set (line_urls (doc_lines d))"
    using has_url_entries [of "doc_lines d" url] by (simp add: position_None_iff)
  then have "filter (\<lambda>e. en_url e \<noteq> url) (document_entries d) = document_entries d"
    by (auto simp: document_entries_def line_entries_def [symmetric] filter_id_conv)
  with None rem wf show ?thesis by (auto simp: document_remove_def split: if_splits)
next
  case (Some i)
  from wf obtain l0 l1 ls base where d: "doc_lines d = l0 # l1 # ls" "lines_ok (l0 # l1 # ls)"
    and k: "ln_kind l0 = MetaLine" "ln_kind l1 = UrlLine"
    and h: "parse_header (ln_content l0) ''meta'' 1 = Inr (meta_str (doc_meta d))"
      "parse_header (ln_content l1) ''url'' 2 = Inr (doc_url d)"
    and base: "validate_index_url U (doc_url d) = Inr base"
    and ls: "list_all (line_matches U H (doc_meta d) base) ls" "distinct (line_urls ls)"
    by (rule document_wfE)
  from Some k obtain j where j: "i = Suc (Suc j)" "position (has_url url) ls = Some j"
    by (auto simp: d(1) has_url_def)
  from position_split [OF j(2)] obtain as l bs where sp: "ls = as @ l # bs" "length as = j"
    "has_url url l" by blast
  have d': "d' = d\<lparr>doc_lines := l0 # l1 # as @ bs\<rparr>"
    using rem Some sp(2) by (auto simp: document_remove_def d(1) j(1) sp(1))
  obtain old where old: "ln_kind l = EntryLine old" "en_url old = url"
    using sp(3) by (auto simp: has_url_entry)
  have "lines_ok (l0 # l1 # as @ bs)" using d(2) by (cases bs) (auto simp: sp(1) lines_ok_append)
  moreover have "list_all (line_matches U H (doc_meta d) base) (as @ bs)" "distinct (line_urls (as @ bs))"
    using ls old by (auto simp: sp(1))
  ultimately have "document_wf U H d'" using k h base by (simp add: d' document_wf_def)
  moreover have "url \<notin> set (line_urls as)" "url \<notin> set (line_urls bs)" using ls(2) old by (auto simp: sp(1))
  then have "filter (\<lambda>e. en_url e \<noteq> url) (line_entries as) = line_entries as"
    "filter (\<lambda>e. en_url e \<noteq> url) (line_entries bs) = line_entries bs"
    by (auto simp: filter_id_conv)
  ultimately show ?thesis using k old
    by (simp add: document_entries_def line_entries_def [symmetric] d' d(1) sp(1))
qed

end
