(* ===== verification/EsiStore.thy ===== *)
theory EsiStore
  imports EsiEdit
begin

text \<open>
  The contract of an ESI document (\<^verbatim>\<open>src/esi.rs\<close>) for the commands that edit it: a map from URLs
  to entries, changed by additions and removals.  In a version 1 document an added entry keeps
  its sizes in memory, but not in the bytes; \<^verbatim>\<open>norm_document\<close> is the document as its bytes say it.
\<close>

subsection \<open>An edited store of keyed items\<close>

fun edit_all :: "('d \<Rightarrow> 'e \<Rightarrow> 'x + 'd) \<Rightarrow> 'd \<Rightarrow> 'e list \<Rightarrow> 'x + 'd" where
  "edit_all f d [] = Inr d"
| "edit_all f d (e # es) = rbind (f d e) (\<lambda>d. edit_all f d es)"

definition keymap :: "('e \<Rightarrow> 'k) \<Rightarrow> 'e list \<Rightarrow> 'k \<Rightarrow> 'e option" where
  "keymap key xs = map_of (map (\<lambda>e. (key e, e)) xs)"

locale keyed_store =
  fixes items :: "'d \<Rightarrow> 'e list" and key :: "'e \<Rightarrow> 'k" and wf :: "'d \<Rightarrow> bool"
    and stored :: "'d \<Rightarrow> 'e \<Rightarrow> 'e" and fits :: "'d \<Rightarrow> 'e \<Rightarrow> bool"
    and put :: "'d \<Rightarrow> 'e \<Rightarrow> 'x + 'd" and del :: "'d \<Rightarrow> 'k \<Rightarrow> 'x + 'd"
  assumes put_wf: "wf d \<Longrightarrow> fits d e \<Longrightarrow> put d e = Inr d' \<Longrightarrow>
      wf d' \<and> fits d' = fits d \<and> stored d' = stored d"
    and put_items: "wf d \<Longrightarrow> fits d e \<Longrightarrow> put d e = Inr d' \<Longrightarrow>
      keymap key (items d') = (keymap key (items d))(key e \<mapsto> stored d e)"
    and del_wf: "wf d \<Longrightarrow> del d k = Inr d' \<Longrightarrow> wf d'"
    and del_items: "wf d \<Longrightarrow> del d k = Inr d' \<Longrightarrow> keymap key (items d') = (keymap key (items d))(k := None)"
begin

lemma put_all:
  "wf d \<Longrightarrow> list_all (fits d) es \<Longrightarrow> edit_all put d es = Inr d' \<Longrightarrow>
     wf d' \<and> keymap key (items d') = foldl (\<lambda>m e. m(key e \<mapsto> stored d e)) (keymap key (items d)) es"
proof (induction es arbitrary: d)
  case Nil
  then show ?case by simp
next
  case (Cons e es)
  then obtain d1 where d1: "put d e = Inr d1" "edit_all put d1 es = Inr d'"
    by (auto simp: rbind_Inr_iff)
  have step: "wf d1 \<and> fits d1 = fits d \<and> stored d1 = stored d"
    using put_wf [OF Cons.prems(1) _ d1(1)] Cons.prems(2) by simp
  have "keymap key (items d1) = (keymap key (items d))(key e \<mapsto> stored d e)"
    using put_items [OF Cons.prems(1) _ d1(1)] Cons.prems(2) by simp
  with Cons.IH [of d1] d1(2) step Cons.prems(2) show ?case by simp
qed

lemma del_all:
  "wf d \<Longrightarrow> edit_all del d ks = Inr d' \<Longrightarrow>
     wf d' \<and> keymap key (items d') = keymap key (items d) |` (- set ks)"
proof (induction ks arbitrary: d)
  case Nil
  then show ?case by simp
next
  case (Cons k ks)
  then obtain d1 where d1: "del d k = Inr d1" "edit_all del d1 ks = Inr d'"
    by (auto simp: rbind_Inr_iff)
  have "wf d1" "keymap key (items d1) = (keymap key (items d))(k := None)"
    using del_wf [OF Cons.prems(1) d1(1)] del_items [OF Cons.prems(1) d1(1)] by auto
  with Cons.IH [of d1] d1(2) show ?case by (auto simp: restrict_map_def fun_eq_iff)
qed

end

subsection \<open>Documents as their bytes say\<close>

definition norm_entry :: "meta_version \<Rightarrow> esi_entry \<Rightarrow> esi_entry" where
  "norm_entry meta e = (if meta = V1 then e\<lparr>en_pack_size := None, en_index_size := None\<rparr> else e)"

fun norm_kind :: "meta_version \<Rightarrow> line_kind \<Rightarrow> line_kind" where
  "norm_kind meta (EntryLine e) = EntryLine (norm_entry meta e)"
| "norm_kind meta MetaLine = MetaLine"
| "norm_kind meta UrlLine = UrlLine"
| "norm_kind meta BlankLine = BlankLine"

definition norm_line :: "meta_version \<Rightarrow> esi_line \<Rightarrow> esi_line" where
  "norm_line meta l = l\<lparr>ln_kind := norm_kind meta (ln_kind l)\<rparr>"

definition norm_document :: "document \<Rightarrow> document" where
  "norm_document d = d\<lparr>doc_lines := map (norm_line (doc_meta d)) (doc_lines d)\<rparr>"

lemma norm_line_simps [simp]:
  "ln_content (norm_line m l) = ln_content l" "ln_ending (norm_line m l) = ln_ending l"
  "ln_kind (norm_line m l) = norm_kind m (ln_kind l)"
  by (simp_all add: norm_line_def)

lemma norm_document_simps [simp]:
  "doc_meta (norm_document d) = doc_meta d" "doc_url (norm_document d) = doc_url d"
  "doc_lines (norm_document d) = map (norm_line (doc_meta d)) (doc_lines d)"
  by (simp_all add: norm_document_def)

lemma norm_entry_url [simp]: "en_url (norm_entry m e) = en_url e"
  by (simp add: norm_entry_def)

lemma norm_bytes: "to_bytes (norm_document d) = to_bytes d"
  by (simp add: to_bytes_def comp_def)

lemma norm_canonical: "canonical_line H (norm_entry m e) m = canonical_line H e m"
  by (simp add: canonical_line_def norm_entry_def)

lemma norm_has_url: "has_url u (norm_line m l) = has_url u l"
  by (cases "ln_kind l") (simp_all add: has_url_def)

lemma position_map: "position p (map f xs) = position (\<lambda>x. p (f x)) xs"
  by (induction xs) auto

lemma norm_preferred: "preferred_line_ending (norm_document d) = preferred_line_ending d"
  by (simp add: preferred_line_ending_def comp_def)

lemma norm_entries:
  "document_entries (norm_document d) = map (norm_entry (doc_meta d)) (document_entries d)"
proof -
  have "line_entries (map (norm_line m) ls) = map (norm_entry m) (line_entries ls)" for m ls
  proof (induction ls)
    case (Cons l ls)
    then show ?case by (cases "ln_kind l") simp_all
  qed simp
  then show ?thesis by (simp add: document_entries_def line_entries_def [symmetric])
qed

lemma norm_line_ending [simp]:
  "norm_line m (l\<lparr>ln_ending := x\<rparr>) = (norm_line m l)\<lparr>ln_ending := x\<rparr>"
  by (cases l) (simp add: norm_line_def)

lemma norm_line_new [simp]:
  "norm_line m \<lparr>ln_content = c, ln_ending = x, ln_kind = EntryLine e\<rparr> =
     \<lparr>ln_content = c, ln_ending = x, ln_kind = EntryLine (norm_entry m e)\<rparr>"
  by (simp add: norm_line_def)

lemma norm_add:
  assumes "document_add U H d e force = Inr d'"
  shows "document_add U H (norm_document d) (norm_entry (doc_meta d) e) force = Inr (norm_document d') \<and>
    doc_meta d' = doc_meta d"
proof -
  have v: "validate_field_value (en_url e) ''pack URL'' = Inr ()"
    using assms by (auto simp: document_add_def rbind_Inr_iff)
  obtain base u where base: "validate_index_url U (doc_url d) = Inr base"
    "url_join U base (en_url e) = Some u"
    using assms by (auto simp: document_add_def rbind_Inr_iff)
  obtain c where c: "canonical_line H e (doc_meta d) = Inr c"
    using assms by (auto simp: document_add_def rbind_Inr_iff)
  have pos: "position (has_url (en_url e)) (map (norm_line (doc_meta d)) (doc_lines d)) =
      position (has_url (en_url e)) (doc_lines d)"
    by (simp add: position_map norm_has_url)
  show ?thesis
  proof (cases "position (has_url (en_url e)) (doc_lines d)")
    case (Some i)
    then have i: "i < length (doc_lines d)" by (simp add: position_Some_iff)
    with Some assms v base c pos show ?thesis
      by (auto simp: document_add_def norm_canonical norm_document_def map_update norm_line_def
          split: if_splits)
  next
    case None
    let ?ls = "doc_lines d"
    show ?thesis
    proof (cases "?ls = []")
      case True
      with None assms v base c pos show ?thesis
        by (auto simp: document_add_def norm_canonical norm_preferred norm_document_def norm_line_def Let_def)
    next
      case False
      have "d' = d\<lparr>doc_lines := (if ln_ending (last ?ls) \<noteq> [] then ?ls
            else butlast ?ls @ [(last ?ls)\<lparr>ln_ending := preferred_line_ending d\<rparr>]) @
          [\<lparr>ln_content = c, ln_ending = (if ln_ending (last ?ls) \<noteq> [] then preferred_line_ending d else []),
            ln_kind = EntryLine e\<rparr>]\<rparr>"
        using None assms v base c False by (auto simp: document_add_def Let_def)
      then show ?thesis using None v base c pos False
        by (simp add: document_add_def norm_canonical norm_preferred Let_def last_map map_butlast norm_has_url
            norm_document_def norm_preferred [unfolded norm_document_def])
    qed
  qed
qed

lemma norm_remove:
  assumes "document_remove d url force = Inr d'"
  shows "document_remove (norm_document d) url force = Inr (norm_document d') \<and> doc_meta d' = doc_meta d"
proof -
  have pos: "position (has_url url) (map (norm_line (doc_meta d)) (doc_lines d)) =
      position (has_url url) (doc_lines d)"
    by (simp add: position_map norm_has_url)
  show ?thesis
    using assms pos
    by (cases "position (has_url url) (doc_lines d)")
      (auto simp: document_remove_def norm_document_def take_map drop_map split: if_splits)
qed

subsection \<open>Documents as a keyed store\<close>

definition esi_wf :: "url_crate \<Rightarrow> hex_crate \<Rightarrow> document \<Rightarrow> bool" where
  "esi_wf U H d \<longleftrightarrow> document_wf U H (norm_document d)"

definition esi_items :: "document \<Rightarrow> esi_entry list" where
  "esi_items d = document_entries (norm_document d)"

definition esi_fits :: "document \<Rightarrow> esi_entry \<Rightarrow> bool" where
  "esi_fits d e \<longleftrightarrow> entry_fits (doc_meta d) (norm_entry (doc_meta d) e)"

lemma keymap_append: "keymap key (xs @ ys) = keymap key ys ++ keymap key xs"
  by (simp add: keymap_def)

lemma keymap_Cons: "keymap key (x # xs) = (keymap key xs)(key x \<mapsto> x)"
  by (simp add: keymap_def)

lemma keymap_None: "keymap key xs k = None \<longleftrightarrow> k \<notin> key ` set xs"
  by (simp add: keymap_def map_of_eq_None_iff image_image)

lemma document_distinct: "document_wf U H d \<Longrightarrow> distinct (map en_url (document_entries d))"
  by (erule document_wfE) (simp add: document_entries_def line_entries_def [symmetric])

lemma keymap_filter: "keymap key (filter (\<lambda>x. key x \<noteq> k) xs) = (keymap key xs)(k := None)"
  by (induction xs) (auto simp: keymap_def fun_eq_iff)

lemma esi_put:
  assumes H: "hex_ok H" and wf: "esi_wf U H d" and fits: "esi_fits d e"
    and add: "document_add U H d e force = Inr d'"
  shows "esi_wf U H d' \<and> doc_meta d' = doc_meta d \<and>
    keymap en_url (esi_items d') = (keymap en_url (esi_items d))(en_url e \<mapsto> norm_entry (doc_meta d) e)"
proof -
  let ?n = "norm_document d" and ?e = "norm_entry (doc_meta d) e"
  have na: "document_add U H ?n ?e force = Inr (norm_document d')" "doc_meta d' = doc_meta d"
    using norm_add [OF add] by auto
  have wfn: "document_wf U H ?n" and fn: "entry_fits (doc_meta ?n) ?e"
    using wf fits by (simp_all add: esi_wf_def esi_fits_def)
  show ?thesis
  proof (cases "en_url ?e \<in> en_url ` set (document_entries ?n)")
    case False
    then have "keymap en_url (document_entries ?n) (en_url e) = None" by (simp add: keymap_None)
    with document_add_new [OF wfn H fn na(1) False] na(2) show ?thesis
      by (auto simp: esi_wf_def esi_items_def keymap_append keymap_Cons map_add_def fun_eq_iff
          keymap_def [where xs = "[]"] split: option.split)
  next
    case True
    from document_add_found [OF wfn H fn na(1) True] obtain pre old post where
      e: "document_wf U H (norm_document d')" "document_entries ?n = pre @ old # post"
      "en_url old = en_url ?e" "document_entries (norm_document d') = pre @ ?e # post" by blast
    have "distinct (map en_url (document_entries ?n))" by (rule document_distinct [OF wfn])
    then have "keymap en_url pre (en_url e) = None" "keymap en_url post (en_url e) = None"
      using e(2,3) by (auto simp: keymap_None)
    with e na(2) show ?thesis
      by (auto simp: esi_wf_def esi_items_def keymap_append keymap_Cons map_add_def fun_eq_iff
          split: option.split)
  qed
qed

lemma esi_del:
  assumes "esi_wf U H d" and "document_remove d url force = Inr d'"
  shows "esi_wf U H d' \<and> keymap en_url (esi_items d') = (keymap en_url (esi_items d))(url := None)"
  using document_remove_wf [of U H "norm_document d" url force "norm_document d'"] norm_remove [OF assms(2)] assms(1)
  by (simp add: esi_wf_def esi_items_def keymap_filter)

lemma esi_store:
  assumes "hex_ok H"
  shows "keyed_store esi_items en_url (esi_wf U H) (\<lambda>d. norm_entry (doc_meta d)) esi_fits
    (\<lambda>d e. document_add U H d e force) (\<lambda>d url. document_remove d url force)"
proof
  fix d e d' assume "esi_wf U H d" "esi_fits d e" "document_add U H d e force = Inr d'"
  note p = esi_put [OF assms this]
  then show "esi_wf U H d' \<and> esi_fits d' = esi_fits d \<and> norm_entry (doc_meta d') = norm_entry (doc_meta d)"
    by (simp add: esi_fits_def fun_eq_iff)
  show "keymap en_url (esi_items d') = (keymap en_url (esi_items d))(en_url e \<mapsto> norm_entry (doc_meta d) e)"
    using p by blast
qed (use esi_del in \<open>blast\<close>)+

interpretation esi: keyed_store esi_items en_url "esi_wf U plain_hex" "\<lambda>d. norm_entry (doc_meta d)" esi_fits
    "\<lambda>d e. document_add U plain_hex d e force" "\<lambda>d url. document_remove d url force"
  for U force
  by (rule esi_store [OF plain_hex_ok])

lemma parsed_esi:
  assumes "document_parse U H bs = Inr d"
  shows "esi_wf U H d \<and> norm_document d = d"
proof -
  have wf: "document_wf U H d" using document_parse_wf [OF assms] by simp
  then obtain l0 l1 ls base where d: "doc_lines d = l0 # l1 # ls"
    and k: "ln_kind l0 = MetaLine" "ln_kind l1 = UrlLine"
    and ls: "list_all (line_matches U H (doc_meta d) base) ls" by (rule document_wfE)
  have same: "norm_line (doc_meta d) l = l" if "l \<in> set ls" for l
  proof (cases "ln_kind l")
    case (EntryLine e)
    then have "parse_entry U H (ln_content l) (doc_meta d) base 0 = Inr e"
      using ls that by (auto simp: list_all_iff line_matches_def)
    then have "norm_entry (doc_meta d) e = e"
      by (cases e) (auto simp: parse_entry_iff sizes_parsed_def norm_entry_def)
    with EntryLine show ?thesis by (cases l) (simp add: norm_line_def)
  qed (cases l; simp add: norm_line_def)+
  have "norm_line (doc_meta d) l0 = l0" "norm_line (doc_meta d) l1 = l1"
    using k by (cases l0; cases l1; simp add: norm_line_def)+
  then have "map (norm_line (doc_meta d)) (doc_lines d) = doc_lines d"
    using same by (simp add: d map_idI)
  then have "norm_document d = d" by (simp add: norm_document_def)
  with wf show ?thesis by (simp add: esi_wf_def)
qed

subsection \<open>The properties\<close>

definition plain_url_crate :: url_crate where
  "plain_url_crate = \<lparr>url_parse = Some, url_join = (\<lambda>b u. Some (b @ u)), url_path = (\<lambda>u. u),
     url_segments = (\<lambda>u. Some (split_on (CHR ''/'') u)), url_set_path = (\<lambda>u p. p)\<rparr>"

definition sample_esi :: document where
  "sample_esi = \<lparr>doc_lines = [
       \<lparr>ln_content = join_with tab [''meta'', ''v1''], ln_ending = [newline], ln_kind = MetaLine\<rparr>,
       \<lparr>ln_content = join_with tab [''url'', ''h/''], ln_ending = [], ln_kind = UrlLine\<rparr>],
     doc_meta = V1, doc_url = ''h/''\<rparr>"

definition sample_entry :: esi_entry where
  "sample_entry = \<lparr>en_index_checksum = replicate 20 (CHR 0x00), en_pack_checksum = replicate 20 (CHR 0x00),
     en_url = ''p'', en_pack_size = Some 3, en_index_size = Some 4\<rparr>"

lemma plain_words:
  "plain_piece ''meta''" "plain_piece ''v1''" "plain_piece ''url''" "plain_piece ''h/''" "plain_piece ''p''"
  by (rule plain_ascii; simp add: byte_val_def)+

lemma line_fields_plain: "list_all plain_piece ps \<Longrightarrow> ps \<noteq> [] \<Longrightarrow> line_fields (join_with tab ps) n = Inr ps"
  using plain_piece_bytes by (intro line_fields_join) (auto simp: list_all_iff plain_piece_def)

lemma plain_validated:
  assumes "plain_piece v" "\<forall>b \<in> set v. byte_val b < 128"
  shows "validate_field_value v d = Inr ()"
  using assms ascii_string(2) [of v]
  by (auto simp: validate_field_value_def plain_piece_def list_all_iff list_ex_iff)

lemma sample_esi_wf: "document_wf plain_url_crate plain_hex sample_esi"
proof -
  have "line_fields (join_with tab [''meta'', ''v1'']) 1 = Inr [''meta'', ''v1'']"
    "line_fields (join_with tab [''url'', ''h/'']) 2 = Inr [''url'', ''h/'']"
    by (rule line_fields_plain; simp add: plain_words)+
  then have "parse_header (join_with tab [''meta'', ''v1'']) ''meta'' 1 = Inr ''v1''"
    "parse_header (join_with tab [''url'', ''h/'']) ''url'' 2 = Inr ''h/''"
    by (simp_all add: parse_header_iff)
  moreover have "validate_field_value ''h/'' ''elfshaker index URL'' = Inr ()"
    by (rule plain_validated [OF plain_words(4)]) (simp add: byte_val_def)
  then have "validate_index_url plain_url_crate ''h/'' = Inr ''h/''"
    by (simp add: validate_index_url_def plain_url_crate_def)
  ultimately show ?thesis
    by (simp add: document_wf_def sample_esi_def line_ok_def)
qed

text \<open>C37: Parsing a remote index loses nothing: the bytes come back unchanged, and the pack URLs of
  its entries are distinct.\<close>

theorem esi_lossless:
  assumes "document_parse U H bs = Inr d"
  shows "to_bytes d = bs \<and> distinct (map en_url (document_entries d))"
  using document_parse_wf [OF assms] document_distinct by blast

theorem esi_lossless_witness:
  "to_bytes sample_esi = ''meta'' @ [tab] @ ''v1'' @ [newline] @ ''url'' @ [tab] @ ''h/''"
  using esi_lossless [OF parse_wf [OF sample_esi_wf]] by (simp add: to_bytes_def sample_esi_def)

text \<open>Adding entries to a parsed remote index succeeds only on bytes that parse again; the
  entries read back are the old ones updated, as a map from URLs, by the added ones in order
  (a version 1 document drops their sizes).\<close>

lemma esi_add_reads_back:
  assumes "hex_ok H" "document_parse U H bs = Inr d" "list_all (esi_fits d) es"
    and "edit_all (\<lambda>d e. document_add U H d e force) d es = Inr d'"
  shows "\<exists>r. document_parse U H (to_bytes d') = Inr r \<and>
    keymap en_url (document_entries r) =
      foldl (\<lambda>m e. m(en_url e \<mapsto> norm_entry (doc_meta d) e)) (keymap en_url (document_entries d)) es"
proof -
  have wf: "esi_wf U H d" "esi_items d = document_entries d"
    using parsed_esi [OF assms(2)] by (simp_all add: esi_items_def)
  have r: "esi_wf U H d'" "keymap en_url (esi_items d') =
      foldl (\<lambda>m e. m(en_url e \<mapsto> norm_entry (doc_meta d) e)) (keymap en_url (esi_items d)) es"
    using keyed_store.put_all [OF esi_store [OF assms(1)] wf(1) assms(3,4)] by auto
  have "document_parse U H (to_bytes d') = Inr (norm_document d')"
    using parse_wf [of U H "norm_document d'"] r(1) by (simp add: esi_wf_def norm_bytes)
  with r(2) wf(2) show ?thesis by (simp add: esi_items_def)
qed

lemma add_to_sample: "en_url e = ''p'' \<Longrightarrow> \<exists>d'. document_add plain_url_crate plain_hex sample_esi e False = Inr d'"
proof -
  assume e: "en_url e = ''p''"
  have "validate_field_value ''p'' ''pack URL'' = Inr ()"
    by (rule plain_validated [OF plain_words(5)]) (simp add: byte_val_def)
  moreover have "validate_field_value ''h/'' ''elfshaker index URL'' = Inr ()"
    by (rule plain_validated [OF plain_words(4)]) (simp add: byte_val_def)
  ultimately show ?thesis using e
    by (simp add: document_add_def validate_index_url_def plain_url_crate_def canonical_line_def
        has_url_def sample_esi_def Let_def)
qed

lemma sample_add:
  "\<exists>d'. edit_all (\<lambda>d e. document_add plain_url_crate plain_hex d e False) sample_esi [sample_entry] = Inr d'"
  using add_to_sample [of sample_entry] by (auto simp: sample_entry_def)

text \<open>Removing URLs from a parsed remote index leaves bytes that parse to exactly the entries
  with other URLs.\<close>

lemma esi_remove_reads_back:
  assumes "hex_ok H" "document_parse U H bs = Inr d"
    and "edit_all (\<lambda>d url. document_remove d url force) d urls = Inr d'"
  shows "\<exists>r. document_parse U H (to_bytes d') = Inr r \<and>
    keymap en_url (document_entries r) = keymap en_url (document_entries d) |` (- set urls)"
proof -
  have wf: "esi_wf U H d" "esi_items d = document_entries d"
    using parsed_esi [OF assms(2)] by (simp_all add: esi_items_def)
  have r: "esi_wf U H d'" "keymap en_url (esi_items d') = keymap en_url (esi_items d) |` (- set urls)"
    using keyed_store.del_all [OF esi_store [OF assms(1)] wf(1) assms(3)] by auto
  have "document_parse U H (to_bytes d') = Inr (norm_document d')"
    using parse_wf [of U H "norm_document d'"] r(1) by (simp add: esi_wf_def norm_bytes)
  with r(2) wf(2) show ?thesis by (simp add: esi_items_def)
qed

end
