(* ===== verification/Remote.thy ===== *)
theory Remote
  imports Env IndexWire EsiStore
begin

text \<open>
  Remotes (\<^verbatim>\<open>src/repo/remote.rs\<close>): reading \<^verbatim>\<open>.esi\<close> files, selecting the endpoint version, fetching
  packs and pack indexes.  The HTTP client is the agent of the environment; building it from
  the certificate settings, the HTTP date format and the progress reports are not modelled.
\<close>

definition reify_source :: "remote_format_error \<Rightarrow> bytes \<Rightarrow> remote_format_error" where
  "reify_source e name = (case rfe_source e of None \<Rightarrow> e\<lparr>rfe_source := Some name\<rparr> | Some _ \<Rightarrow> e)"

definition reify :: "bytes \<Rightarrow> error + 'a \<Rightarrow> error + 'a" where
  "reify name r =
     (case r of Inl (BadRemoteIndexFormat e) \<Rightarrow> Inl (BadRemoteIndexFormat (reify_source e name)) | _ \<Rightarrow> r)"

definition bad_remote :: "remote_message \<Rightarrow> error" where
  "bad_remote m = BadRemoteIndexFormat \<lparr>rfe_message = m, rfe_source = None\<rparr>"

record remote_pack =
  rp_index_checksum :: checksum
  rp_pack_checksum :: checksum
  rp_url :: bytes
  rp_index_size :: "u64 option"
  rp_pack_size :: "u64 option"

definition remote_file_name :: "remote_pack \<Rightarrow> error failure + bytes" where
  "remote_file_name p = unwrap (map_option snd (rsplit_once (CHR ''/'') (rp_url p)))"

record remote_index =
  ri_path :: "path option"
  ri_meta :: meta_version
  ri_url :: bytes
  ri_packs :: "remote_pack list"

definition remote_new :: "bytes \<Rightarrow> remote_index" where
  "remote_new url = \<lparr>ri_path = None, ri_meta = V1, ri_url = url, ri_packs = []\<rparr>"

definition remote_name :: "remote_index \<Rightarrow> bytes option" where
  "remote_name r = map_option (\<lambda>p. utf8_lossy (file_stem (last p))) (ri_path r)"

definition from_document :: "env \<Rightarrow> document \<Rightarrow> error + remote_index" where
  "from_document E d =
     rbind (map_err (\<lambda>e. bad_remote (BadDocument e))
       (collect (\<lambda>e. rbind (resolved_entry_url (e_url E) d e) (\<lambda>u.
          Inr \<lparr>rp_index_checksum = en_index_checksum e, rp_pack_checksum = en_pack_checksum e,
             rp_url = u, rp_index_size = en_index_size e, rp_pack_size = en_pack_size e\<rparr>))
         (document_entries d))) (\<lambda>packs.
     Inr \<lparr>ri_path = None, ri_meta = doc_meta d, ri_url = doc_url d, ri_packs = packs\<rparr>)"

definition remote_read :: "env \<Rightarrow> bytes \<Rightarrow> error + remote_index" where
  "remote_read E data =
     rbind (map_err (\<lambda>e. bad_remote (BadDocument e)) (document_parse (e_url E) (e_hex E) data)) (\<lambda>d.
     from_document E d)"

definition remote_load :: "env \<Rightarrow> fs \<Rightarrow> path \<Rightarrow> error + remote_index" where
  "remote_load E fs p =
     rbind (map_err IOError (fs_read fs p)) (\<lambda>data.
     rbind (reify (path_display p) (remote_read E data)) (\<lambda>r.
     Inr (r\<lparr>ri_path := Some p\<rparr>)))"

fun find_remote_pack :: "bytes \<Rightarrow> remote_pack list \<Rightarrow> error failure + remote_pack option" where
  "find_remote_pack file_name [] = Inr None"
| "find_remote_pack file_name (p # ps) =
     rbind (remote_file_name p) (\<lambda>n.
     if n = file_name then Inr (Some p) else find_remote_pack file_name ps)"

definition find_pack :: "remote_index \<Rightarrow> bytes \<Rightarrow> error failure + remote_pack option" where
  "find_pack r pack = find_remote_pack (pack @ CHR ''.'' # pack_extension) (ri_packs r)"

definition load_remotes :: "env \<Rightarrow> fs \<Rightarrow> path \<Rightarrow> error + remote_index list" where
  "load_remotes E fs base =
     rbind (map_err IOError (read_dir fs base)) (\<lambda>paths.
     collect (remote_load E fs)
       (filter (\<lambda>p. file_extension (last p) = Some remote_index_extension) paths))"

subsection \<open>Requests\<close>

datatype 'r remote_resource = Found nat 'r | NotModified | ResourceNotFound

definition content_length :: "http_response \<Rightarrow> nat" where
  "content_length r =
     (case hr_length r of None \<Rightarrow> 0
      | Some v \<Rightarrow> (case parse_u64 v of None \<Rightarrow> 0 | Some n \<Rightarrow> unat n))"

definition bad_status :: "nat \<Rightarrow> error" where
  "bad_status status = HttpError (''Response status code '' @ show_nat status @ '' indicates failure!'')"

definition open_remote_resource ::
    "env \<Rightarrow> url \<Rightarrow> nat option \<Rightarrow> nat option \<Rightarrow> error + (bytes \<times> (io_error \<times> bytes) option) remote_resource" where
  "open_remote_resource E url timeout since =
     rbind (map_err HttpError (e_agent E url timeout since)) (\<lambda>r.
     if hr_status r = 200 then Inr (Found (content_length r) (hr_body r))
     else if hr_status r = 304 then Inr NotModified
     else if hr_status r = 404 then Inr ResourceNotFound
     else Inl (bad_status (hr_status r)))"

definition read_remote_body :: "bytes \<times> (io_error \<times> bytes) option \<Rightarrow> error + bytes" where
  "read_remote_body body =
     (case snd body of None \<Rightarrow> Inr (fst body) | Some (_, text) \<Rightarrow> Inl (HttpError text))"

definition read_remote_resource ::
    "env \<Rightarrow> url \<Rightarrow> nat \<Rightarrow> nat option \<Rightarrow> error + bytes remote_resource" where
  "read_remote_resource E url timeout since =
     rbind (open_remote_resource E url (Some timeout) since) (\<lambda>r. case r of
        Found n body \<Rightarrow> rbind (read_remote_body body) (\<lambda>bs. Inr (Found n bs))
      | NotModified \<Rightarrow> Inr NotModified
      | ResourceNotFound \<Rightarrow> Inr ResourceNotFound)"

definition write_created :: "path \<Rightarrow> bytes \<Rightarrow> (io_error, unit) fs_op" where
  "write_created p data = andThen (create_file p None) (\<lambda>q. fs_append q data)"

text \<open>A pack is written only when its checksum and size are those of the index.\<close>

definition fetch_remote_pack :: "env \<Rightarrow> remote_pack \<Rightarrow> path \<Rightarrow> unit op" where
  "fetch_remote_pack E rp pack_path fs =
     andThen (liftr (unwrap (url_parse (e_url E) (rp_url rp)))) (\<lambda>url.
     andThen (liftr (map_err Fail
       (open_remote_resource E url None (modified_at E fs pack_path)))) (\<lambda>r. case r of
         Found n (data, failed) \<Rightarrow>
           (case failed of Some (e, _) \<Rightarrow> err (Fail (IOError e)) | None \<Rightarrow>
              if e_sha1 E data = rp_pack_checksum rp \<and>
                 (case rp_pack_size rp of None \<Rightarrow> True | Some s \<Rightarrow> s = of_nat (length data))
              then io (write_created pack_path data)
              else err (Fail CorruptPack))
       | NotModified \<Rightarrow> ret ()
       | ResourceNotFound \<Rightarrow> err (Fail (bad_status 404)))) fs"

definition update_pack_index :: "env \<Rightarrow> url \<Rightarrow> path \<Rightarrow> u64 option \<Rightarrow> unit op" where
  "update_pack_index E url index_path expected_size fs =
     andThen (liftr (map_err Fail
       (read_remote_resource E url 15 (modified_at E fs index_path)))) (\<lambda>r. case r of
         Found n data \<Rightarrow>
           if (case expected_size of None \<Rightarrow> False | Some s \<Rightarrow> s \<noteq> of_nat (length data))
           then err (Fail CorruptPackIndex)
           else (case parse (e_codec E) data of
                   Inl Panicked \<Rightarrow> err Panicked
                 | Inl (Fail e) \<Rightarrow> ret ()
                 | Inr idx \<Rightarrow> io (fs_write index_path data))
       | NotModified \<Rightarrow> ret ()
       | ResourceNotFound \<Rightarrow> err (Fail (bad_status 404))) fs"

definition compute_file_checksum :: "env \<Rightarrow> fs \<Rightarrow> path \<Rightarrow> io_error + checksum" where
  "compute_file_checksum E fs p = rbind (fs_read fs p) (\<lambda>data. Inr (e_sha1 E data))"

definition verify_checksum :: "env \<Rightarrow> fs \<Rightarrow> path \<Rightarrow> checksum \<Rightarrow> io_error + bool" where
  "verify_checksum E fs p expected =
     (case compute_file_checksum E fs p of
        Inr actual \<Rightarrow> Inr (actual = expected)
      | Inl e \<Rightarrow> if e = NotFound then Inr False else Inl e)"

definition update_remote_pack_index :: "env \<Rightarrow> path \<Rightarrow> remote_pack \<Rightarrow> unit op" where
  "update_remote_pack_index E base rp =
     andThen (liftr (rbind (unwrap (url_parse (e_url E) (rp_url rp @ ''.idx''))) (\<lambda>url.
        rbind (unwrap (url_segments (e_url E) url)) (\<lambda>segs.
        rbind (unwrap (if segs = [] then None else Some (last segs))) (\<lambda>name.
        Inr (url, path_push base name)))))) (\<lambda>(url, index_path).
     andThen (query (\<lambda>fs. map_err (\<lambda>e. Fail (IOError e))
        (verify_checksum E fs index_path (rp_index_checksum rp)))) (\<lambda>up_to_date.
     andThen (if up_to_date then ret () else update_pack_index E url index_path (rp_index_size rp)) (\<lambda>_.
     andThen (liftr (remote_file_name rp)) (\<lambda>_. ret ()))))"

definition update_remote_pack_indexes :: "env \<Rightarrow> remote_index \<Rightarrow> path \<Rightarrow> unit op" where
  "update_remote_pack_indexes E r base = each (update_remote_pack_index E base) (ri_packs r)"

subsection \<open>Endpoint versions\<close>

definition url_file_name :: "env \<Rightarrow> url \<Rightarrow> bytes option" where
  "url_file_name E url =
     Option.bind (url_segments (e_url E) url) (\<lambda>segs. if segs = [] then None else Some (last segs))"

text \<open>\<^verbatim>\<open>rsplit_once(".v")\<close>\<close>

fun split_dot_v :: "bytes \<Rightarrow> (bytes \<times> bytes) option" where
  "split_dot_v [] = None"
| "split_dot_v (c # s) =
     (case split_dot_v s of
        Some (a, b) \<Rightarrow> Some (c # a, b)
      | None \<Rightarrow> map_option (\<lambda>r. ([], r)) (strip_prefix ''.v'' (c # s)))"

definition versioned_stem :: "env \<Rightarrow> url \<Rightarrow> bytes option" where
  "versioned_stem E url =
     Option.bind (url_file_name E url) (\<lambda>name.
     Option.bind (strip_suffix ''.esi'' name) (\<lambda>stem.
     map_option snd (split_dot_v stem)))"

definition endpoint_version :: "env \<Rightarrow> url \<Rightarrow> meta_version option" where
  "endpoint_version E url =
     Option.bind (versioned_stem E url) (\<lambda>version.
     if version = ''1'' then Some V1 else if version = ''2'' then Some V2 else None)"

definition is_versioned_endpoint :: "env \<Rightarrow> url \<Rightarrow> bool" where
  "is_versioned_endpoint E url =
     (case versioned_stem E url of None \<Rightarrow> False
      | Some version \<Rightarrow> version \<noteq> [] \<and> list_all is_ascii_digit version)"

definition v2_sibling_url :: "env \<Rightarrow> url \<Rightarrow> url option" where
  "v2_sibling_url E url =
     (if is_versioned_endpoint E url then None
      else map_option (\<lambda>stem. url_set_path (e_url E) url (stem @ ''.v2.esi''))
        (strip_suffix ''.esi'' (url_path (e_url E) url)))"

definition validate_endpoint_version :: "env \<Rightarrow> url \<Rightarrow> meta_version \<Rightarrow> error + unit" where
  "validate_endpoint_version E url meta =
     (if is_versioned_endpoint E url
      then (case endpoint_version E url of
          Some expected \<Rightarrow>
            if expected = meta then Inr () else Inl (bad_remote (EndpointRequires url expected meta))
        | None \<Rightarrow> Inl (bad_remote (UnsupportedEndpoint url)))
      else if strip_suffix ''.esi'' (url_path (e_url E) url) \<noteq> None \<and> meta \<noteq> V1
      then Inl (bad_remote (UnversionedRequires url meta))
      else Inr ())"

definition install_remote :: "env \<Rightarrow> path \<Rightarrow> url \<Rightarrow> bytes \<Rightarrow> remote_index op" where
  "install_remote E p fetched_url data =
     andThen (liftr (map_err Fail (reify fetched_url (remote_read E data)))) (\<lambda>r.
     andThen (liftr (map_err Fail (validate_endpoint_version E fetched_url (ri_meta r)))) (\<lambda>_.
     andThen (io (write_created p data)) (\<lambda>_.
     ret (r\<lparr>ri_path := Some p\<rparr>))))"

definition require_found :: "bytes remote_resource \<Rightarrow> error failure + bytes" where
  "require_found r =
     (case r of Found n body \<Rightarrow> Inr body
      | NotModified \<Rightarrow> Inl Panicked
      | ResourceNotFound \<Rightarrow> Inl (Fail (bad_status 404)))"

definition fetch_supplied :: "env \<Rightarrow> url \<Rightarrow> error failure + url \<times> bytes" where
  "fetch_supplied E url =
     rbind (map_err Fail (read_remote_resource E url 15 None)) (\<lambda>r.
     rbind (require_found r) (\<lambda>body. Inr (url, body)))"

definition fetch_endpoint :: "env \<Rightarrow> url \<Rightarrow> error failure + url \<times> bytes" where
  "fetch_endpoint E supplied =
     (case v2_sibling_url E supplied of
        Some versioned \<Rightarrow>
          rbind (map_err Fail (read_remote_resource E versioned 15 None)) (\<lambda>r. case r of
            Found n body \<Rightarrow> Inr (versioned, body)
          | ResourceNotFound \<Rightarrow> fetch_supplied E supplied
          | NotModified \<Rightarrow> Inl Panicked)
      | None \<Rightarrow> fetch_supplied E supplied)"

definition fetch_remote :: "env \<Rightarrow> bytes \<Rightarrow> path \<Rightarrow> remote_index op" where
  "fetch_remote E url p =
     andThen (liftr (map_err Fail (ok_or (HttpError url) (url_parse (e_url E) url)))) (\<lambda>supplied.
     andThen (liftr (fetch_endpoint E supplied)) (\<lambda>(fetched, data).
     install_remote E p fetched data))"

definition update_remote :: "env \<Rightarrow> remote_index \<Rightarrow> remote_index op" where
  "update_remote E r fs =
     andThen (liftr (unwrap (ri_path r))) (\<lambda>p.
     andThen (liftr (map_err Fail (ok_or (HttpError (ri_url r)) (url_parse (e_url E) (ri_url r))))) (\<lambda>url.
     andThen (liftr (map_err Fail (read_remote_resource E url 15 (modified_at E fs p)))) (\<lambda>res. case res of
         Found n body \<Rightarrow> install_remote E p url body
       | NotModified \<Rightarrow> query (\<lambda>fs. map_err Fail (reify (path_display p) (remote_load E fs p)))
       | ResourceNotFound \<Rightarrow> err (Fail (bad_status 404))))) fs"

end
