(* ===== verification/AtomicFile.thy ===== *)
theory AtomicFile
  imports RepoFs
begin

text \<open>
  \<^verbatim>\<open>src/atomicfile.rs\<close> on Unix, for one process: reserving a file with \<^verbatim>\<open>AtomicCreateFile::new\<close> and
  filling it with \<^verbatim>\<open>commit_content\<close>.  The path of an open file stands for its inode; \<^verbatim>\<open>held\<close> says
  which files other processes have locked.  The interleavings of several processes are in
  \<^verbatim>\<open>AtomicProtocol\<close>.
\<close>

definition acf_temp_path :: "path \<Rightarrow> bytes \<Rightarrow> path" where
  "acf_temp_path dir rnd = dir @ [''.elfshakertmp_'' @ rnd]"

text \<open>\<^verbatim>\<open>OpenOptions::new().write(true).create(true)\<close>: no truncation; the result is the open file.\<close>

definition open_for_write :: "path \<Rightarrow> (io_error, path) fs_op" where
  "open_for_write p fs =
     (case resolve_target fs p of
        Inl e \<Rightarrow> (Inl e, fs)
      | Inr q \<Rightarrow>
          (case fs_get fs q of
             None \<Rightarrow> (Inr q, fs_put q (FileNode [] created_mode) fs)
           | Some (FileNode d m) \<Rightarrow>
               if and m owner_write = 0 then (Inl PermissionDenied, fs) else (Inr q, fs)
           | Some DirNode \<Rightarrow> (Inl IsADirectory, fs)
           | Some (LinkNode t) \<Rightarrow> (Inl OtherIo, fs)))"

definition open_create_new :: "path \<Rightarrow> (io_error, path) fs_op" where
  "open_create_new p fs =
     (case resolve_entry fs p of
        Inl e \<Rightarrow> (Inl e, fs)
      | Inr q \<Rightarrow>
          (case fs_get fs q of
             None \<Rightarrow> (Inr q, fs_put q (FileNode [] created_mode) fs)
           | Some n \<Rightarrow> (Inl AlreadyExists, fs)))"

definition lock_name :: "(path \<Rightarrow> bool) \<Rightarrow> path \<Rightarrow> path \<Rightarrow> fs \<Rightarrow> io_error + unit" where
  "lock_name held name fd fs =
     (if held fd then Inl WouldBlock
      else case rbind (metadata fs name) (\<lambda>_. resolve_target fs name) of
        Inl e \<Rightarrow> Inl (if e = NotFound then WouldBlock else e)
      | Inr q \<Rightarrow> if q \<noteq> fd then Inl WouldBlock else Inr ())"

definition file_len :: "fs \<Rightarrow> path \<Rightarrow> nat" where
  "file_len fs q = (case fs_get fs q of Some (FileNode d m) \<Rightarrow> length d | _ \<Rightarrow> 0)"

record atomic_create_file =
  acf_path :: path
  acf_temp :: path
  acf_temp_file :: path

definition create_temp :: "path \<Rightarrow> bytes \<Rightarrow> (io_error, path \<times> path) fs_op" where
  "create_temp dir rnd =
     andThen (open_create_new (acf_temp_path dir rnd)) (\<lambda>q. ret (acf_temp_path dir rnd, q))"

text \<open>The destination was opened: lock it, check its length, make the temporary file.\<close>

definition reserve :: "(path \<Rightarrow> bool) \<Rightarrow> bytes \<Rightarrow> path \<Rightarrow> path \<Rightarrow> (io_error, atomic_create_file) fs_op" where
  "reserve held rnd dest fd =
     andThen (query (lock_name held dest fd)) (\<lambda>_.
     andThen (query (\<lambda>fs. if file_len fs fd > 0 then Inl AlreadyExists else Inr ())) (\<lambda>_.
     andThen (create_temp (butlast dest) rnd) (\<lambda>(t, f).
     ret \<lparr>acf_path = dest, acf_temp = t, acf_temp_file = f\<rparr>)))"

text \<open>\<^verbatim>\<open>new\<close> calls itself after making the parent directories; \<^verbatim>\<open>None\<close> means that it never returns.\<close>

partial_function (option) acf_new ::
    "(path \<Rightarrow> bool) \<Rightarrow> bytes \<Rightarrow> path \<Rightarrow> fs \<Rightarrow> ((io_error + atomic_create_file) \<times> fs) option" where
  "acf_new held rnd dest fs =
     (case open_for_write dest fs of
        (Inr fd, fs1) \<Rightarrow> Some (reserve held rnd dest fd fs1)
      | (Inl e, fs1) \<Rightarrow>
          if e = NotFound
          then (case create_dir_all (butlast dest) fs1 of
              (Inl e, fs2) \<Rightarrow> Some (Inl e, fs2)
            | (Inr _, fs2) \<Rightarrow> acf_new held rnd dest fs2)
          else Some (Inl e, fs1))"

definition commit_content :: "atomic_create_file \<Rightarrow> reader \<Rightarrow> (io_error failure, unit) fs_op" where
  "commit_content a r =
     andThen (lift_err Fail (io_copy r (acf_temp_file a))) (\<lambda>_.
     andThen (liftr (ensure (fst r \<noteq> []))) (\<lambda>_.
     lift_err Fail (fs_rename (acf_temp a) (acf_path a))))"

subsection \<open>Opening the destination\<close>

lemma open_for_write_NotFound:
  "open_for_write p fs = (Inl NotFound, fs') \<longleftrightarrow> resolve_target fs p = Inl NotFound \<and> fs' = fs"
  by (auto simp: open_for_write_def split: sum.splits option.splits node.splits if_splits)

lemma open_for_write_keeps: "open_for_write p fs = (Inl e, fs') \<Longrightarrow> fs' = fs"
  by (auto simp: open_for_write_def split: sum.splits option.splits node.splits if_splits)

text \<open>A link that leads into a missing directory: making the parent directories changes nothing.\<close>

lemma acf_new_never_returns:
  assumes "resolve_target fs dest = Inl NotFound" "create_dir_all (butlast dest) fs = (Inr (), fs)"
  shows "acf_new held rnd dest fs = None"
proof (rule ccontr)
  assume "acf_new held rnd dest fs \<noteq> None"
  then obtain r where r: "acf_new held rnd dest fs = Some r" by blast
  have "\<not> (resolve_target fs dest = Inl NotFound \<and> create_dir_all (butlast dest) fs = (Inr (), fs))"
  proof (rule acf_new.raw_induct [where P = "\<lambda>held rnd dest fs r.
      \<not> (resolve_target fs dest = Inl NotFound \<and> create_dir_all (butlast dest) fs = (Inr (), fs))", OF _ r])
    fix f :: "(path \<Rightarrow> bool) \<Rightarrow> bytes \<Rightarrow> path \<Rightarrow> fs \<Rightarrow> ((io_error + atomic_create_file) \<times> fs) option"
    fix held rnd dest fs r
    assume IH: "\<And>held rnd dest fs r. f held rnd dest fs = Some r \<Longrightarrow>
        \<not> (resolve_target fs dest = Inl NotFound \<and> create_dir_all (butlast dest) fs = (Inr (), fs))"
      and eq: "(case open_for_write dest fs of
        (Inl e, fs1) \<Rightarrow>
          if e = NotFound
          then (case create_dir_all (butlast dest) fs1 of
              (Inl e, fs2) \<Rightarrow> Some (Inl e, fs2)
            | (Inr _, fs2) \<Rightarrow> f held rnd dest fs2)
          else Some (Inl e, fs1)
      | (Inr fd, fs1) \<Rightarrow> Some (reserve held rnd dest fd fs1)) = Some r"
    show "\<not> (resolve_target fs dest = Inl NotFound \<and> create_dir_all (butlast dest) fs = (Inr (), fs))"
    proof
      assume a: "resolve_target fs dest = Inl NotFound \<and> create_dir_all (butlast dest) fs = (Inr (), fs)"
      then have "open_for_write dest fs = (Inl NotFound, fs)" by (simp add: open_for_write_NotFound)
      with eq a have "f held rnd dest fs = Some r" by simp
      from IH [OF this] a show False by blast
    qed
  qed
  with assms show False by blast
qed

lemma create_dir_all_exists:
  assumes "dirs_to fs p" "no_parent_refs p"
  shows "create_dir_all p fs = (Inr (), fs)"
proof (cases p rule: rev_cases)
  case Nil
  then show ?thesis by (simp add: create_dir_all.simps)
next
  case (snoc d c)
  have above: "dirs_above fs p" and dir: "fs_get fs p = Some DirNode"
    using assms(1) by (auto simp: dirs_to_def dirs_above_def strict_prefix_def)
  have "resolve_entry fs p = Inr p" by (rule resolve_entry_plain [OF assms(2) above])
  moreover have "path_is_dir fs p" by (rule path_is_dir_plain [OF assms(2) above dir])
  ultimately show ?thesis
    using snoc dir by (subst create_dir_all.simps) (simp add: create_dir_def)
qed

lemma resolve_target_missing:
  assumes "fs_wf fs" "no_parent_refs d" "name \<noteq> ''..''" "dirs_or_missing fs d" "fs_get fs d = None"
  shows "resolve_target fs (d @ [name]) = Inl NotFound"
proof -
  obtain q where q: "prefix q d" "q \<noteq> []" "fs_get fs q = None"
      "\<And>r. strict_prefix r q \<Longrightarrow> fs_get fs r = Some DirNode"
    using first_missing [OF assms(1,4,5)] by blast
  have "strict_prefix q (d @ [name])" using q(1) by (auto simp: strict_prefix_def)
  then show ?thesis
    unfolding resolve_target_def
    using walk_missing [of "d @ [name]" q fs "[]"] assms(2,3) q by (simp add: no_parent_refs_def)
qed

lemma open_plain:
  assumes "dirs_to fs d" "no_parent_refs d" "name \<noteq> ''..''" "\<And>t. fs_get fs (d @ [name]) \<noteq> Some (LinkNode t)"
  shows "resolve_target fs (d @ [name]) = Inr (d @ [name])"
  using assms by (intro resolve_target_plain) (auto simp: no_parent_refs_snoc dirs_above_snoc)

lemma acf_new_open:
  "open_for_write dest fs = (Inr fd, fs1) \<Longrightarrow> acf_new held rnd dest fs = Some (reserve held rnd dest fd fs1)"
  by (simp add: acf_new.simps)

lemma acf_new_refused:
  "open_for_write dest fs = (Inl e, fs1) \<Longrightarrow> e \<noteq> NotFound \<Longrightarrow> acf_new held rnd dest fs = Some (Inl e, fs1)"
  by (subst acf_new.simps) simp

lemma acf_new_retry:
  "open_for_write dest fs = (Inl NotFound, fs1) \<Longrightarrow> create_dir_all (butlast dest) fs1 = (Inr (), fs2) \<Longrightarrow>
     acf_new held rnd dest fs = acf_new held rnd dest fs2"
  by (subst acf_new.simps) simp

lemma acf_new_in_dir:
  assumes "dirs_to fs d" "no_parent_refs d" "name \<noteq> ''..''" "\<And>t. fs_get fs (d @ [name]) \<noteq> Some (LinkNode t)"
  shows "\<exists>r. acf_new held rnd (d @ [name]) fs = Some r"
proof (cases "open_for_write (d @ [name]) fs")
  case (Pair r fs1)
  show ?thesis
  proof (cases r)
    case (Inl e)
    have "e \<noteq> NotFound"
      using Pair Inl open_plain [OF assms] open_for_write_NotFound [of "d @ [name]" fs fs1] by auto
    with acf_new_refused Pair Inl show ?thesis by blast
  next
    case (Inr fd)
    with acf_new_open Pair show ?thesis by blast
  qed
qed

text \<open>After the parent directories are made there is at most one more attempt.\<close>

lemma acf_new_makes_parent:
  assumes "fs_wf fs" "no_parent_refs d" "name \<noteq> ''..''" "dirs_or_missing fs d"
  shows "\<exists>fs1. acf_new held rnd (d @ [name]) fs = acf_new held rnd (d @ [name]) fs1 \<and> fs_wf fs1 \<and>
    (\<forall>q. fs_get fs1 q = (if prefix q d then Some DirNode else fs_get fs q))"
proof (cases "fs_get fs d")
  case None
  from resolve_target_missing [OF assms None]
  have open1: "open_for_write (d @ [name]) fs = (Inl NotFound, fs)" by (simp add: open_for_write_NotFound)
  obtain fs1 where fs1: "create_dir_all d fs = (Inr (), fs1)" "fs_wf fs1"
      "\<forall>q. fs_get fs1 q = (if prefix q d then Some DirNode else fs_get fs q)"
    using create_dir_all_ok [OF assms(1,2,4)] by blast
  from acf_new_retry [OF open1] fs1 show ?thesis by auto
next
  case (Some n)
  with assms(4) have "fs_get fs d = Some DirNode" by (auto simp: dirs_or_missing_def)
  then have "dirs_to fs d" using dirs_to_get [OF assms(1)] by simp
  with assms(1) show ?thesis by (intro exI [of _ fs]) (auto simp: dirs_to_def)
qed

lemma parent_dirs:
  "\<forall>q. fs_get fs1 q = (if prefix q d then Some DirNode else fs_get fs q) \<Longrightarrow>
     dirs_to fs1 d \<and> fs_get fs1 (d @ [c]) = fs_get fs (d @ [c])"
  by (auto simp: dirs_to_def dest: prefix_length_le)

lemma acf_new_None_iff:
  assumes "fs_wf fs" "no_parent_refs d" "name \<noteq> ''..''" "dirs_or_missing fs d"
  shows "acf_new held rnd (d @ [name]) fs = None \<longleftrightarrow>
    (\<exists>t. fs_get fs (d @ [name]) = Some (LinkNode t)) \<and> resolve_target fs (d @ [name]) = Inl NotFound"
proof (cases "\<exists>t. fs_get fs (d @ [name]) = Some (LinkNode t)")
  case False
  obtain fs1 where fs1: "acf_new held rnd (d @ [name]) fs = acf_new held rnd (d @ [name]) fs1"
      "\<forall>q. fs_get fs1 q = (if prefix q d then Some DirNode else fs_get fs q)"
    using acf_new_makes_parent [OF assms] by blast
  have "\<exists>r. acf_new held rnd (d @ [name]) fs1 = Some r"
    using parent_dirs [OF fs1(2), of name] False assms(2,3) by (intro acf_new_in_dir) auto
  with fs1(1) False show ?thesis by auto
next
  case True
  then have "fs_get fs d = Some DirNode" using fs_wf_parent [OF assms(1), of d name] by auto
  then have to: "dirs_to fs d" using dirs_to_get [OF assms(1)] by simp
  show ?thesis
  proof (cases "resolve_target fs (d @ [name]) = Inl NotFound")
    case True
    with acf_new_never_returns [of fs "d @ [name]"] create_dir_all_exists [OF to assms(2)]
      \<open>\<exists>t. fs_get fs (d @ [name]) = Some (LinkNode t)\<close> show ?thesis by simp
  next
    case False
    obtain r fs1 where o: "open_for_write (d @ [name]) fs = (r, fs1)" by fastforce
    have "acf_new held rnd (d @ [name]) fs \<noteq> None"
    proof (cases r)
      case (Inl e)
      with o False open_for_write_NotFound [of "d @ [name]" fs fs1] have "e \<noteq> NotFound" by auto
      with acf_new_refused o Inl show ?thesis by blast
    next
      case (Inr fd)
      with acf_new_open o show ?thesis by blast
    qed
    with False show ?thesis by simp
  qed
qed

subsection \<open>Reserving and publishing\<close>

definition acf_handle :: "path \<Rightarrow> bytes \<Rightarrow> bytes \<Rightarrow> atomic_create_file" where
  "acf_handle d name rnd =
     \<lparr>acf_path = d @ [name], acf_temp = acf_temp_path d rnd, acf_temp_file = acf_temp_path d rnd\<rparr>"

definition no_link_at :: "fs \<Rightarrow> path \<Rightarrow> bool" where
  "no_link_at fs p \<longleftrightarrow> (\<forall>t. fs_get fs p \<noteq> Some (LinkNode t))"

text \<open>A destination that can be reserved: absent, or an empty file that may be written.\<close>

definition reservable :: "fs \<Rightarrow> path \<Rightarrow> bool" where
  "reservable fs p \<longleftrightarrow>
     fs_get fs p = None \<or> (\<exists>m. fs_get fs p = Some (FileNode [] m) \<and> and m owner_write \<noteq> 0)"

lemma temp_name: "''.elfshakertmp_'' @ rnd \<noteq> ''..''"
  by simp

lemma open_create_new_ok:
  assumes "dirs_to fs d" "no_parent_refs d" "c \<noteq> ''..''" "fs_get fs (d @ [c]) = None"
  shows "open_create_new (d @ [c]) fs = (Inr (d @ [c]), fs_put (d @ [c]) (FileNode [] created_mode) fs)"
  using dirs_to_snoc [OF assms(1-3)] assms(4) by (simp add: open_create_new_def)

lemma file_metadata:
  assumes "dirs_to fs d" "no_parent_refs d" "name \<noteq> ''..''" "fs_get fs (d @ [name]) = Some (FileNode b m)"
  shows "metadata fs (d @ [name]) = Inr (FileNode b m)" "resolve_target fs (d @ [name]) = Inr (d @ [name])"
  using open_plain [OF assms(1-3)] assms(4) by (auto simp: metadata_def)

lemma reserve_file:
  assumes "dirs_to fs d" "no_parent_refs d" "name \<noteq> ''..''" "fs_get fs (d @ [name]) = Some (FileNode b m)"
    and "fs_get fs (acf_temp_path d rnd) = None"
  shows "reserve held rnd (d @ [name]) (d @ [name]) fs =
    (if held (d @ [name]) then (Inl WouldBlock, fs)
     else if b \<noteq> [] then (Inl AlreadyExists, fs)
     else (Inr (acf_handle d name rnd), fs_put (acf_temp_path d rnd) (FileNode [] created_mode) fs))"
  using file_metadata [OF assms(1-4)] open_create_new_ok [OF assms(1,2) temp_name] assms(4,5)
  by (simp add: reserve_def lock_name_def andThen_def query_def ret_def file_len_def create_temp_def
      acf_temp_path_def acf_handle_def)

lemma acf_new_existing:
  assumes "dirs_to fs d" "no_parent_refs d" "name \<noteq> ''..''"
    and "fs_get fs (d @ [name]) = Some (FileNode b m)" "and m owner_write \<noteq> 0"
    and "fs_get fs (acf_temp_path d rnd) = None"
  shows "acf_new held rnd (d @ [name]) fs =
    Some (if held (d @ [name]) then (Inl WouldBlock, fs)
     else if b \<noteq> [] then (Inl AlreadyExists, fs)
     else (Inr (acf_handle d name rnd), fs_put (acf_temp_path d rnd) (FileNode [] created_mode) fs))"
proof -
  have "open_for_write (d @ [name]) fs = (Inr (d @ [name]), fs)"
    using file_metadata(2) [OF assms(1-4)] assms(4,5) by (simp add: open_for_write_def)
  from acf_new_open [OF this] show ?thesis using reserve_file [OF assms(1-4,6)] by simp
qed

lemma acf_new_absent:
  assumes "dirs_to fs d" "no_parent_refs d" "name \<noteq> ''..''" "fs_get fs (d @ [name]) = None"
    and "fs_get fs (acf_temp_path d rnd) = None" "\<not> held (d @ [name])" "name \<noteq> ''.elfshakertmp_'' @ rnd"
  shows "acf_new held rnd (d @ [name]) fs =
    Some (Inr (acf_handle d name rnd),
      fs_put (acf_temp_path d rnd) (FileNode [] created_mode)
        (fs_put (d @ [name]) (FileNode [] created_mode) fs))"
proof -
  let ?fs = "fs_put (d @ [name]) (FileNode [] created_mode) fs"
  have "resolve_target fs (d @ [name]) = Inr (d @ [name])" using assms(4) by (intro open_plain assms) simp
  then have "open_for_write (d @ [name]) fs = (Inr (d @ [name]), ?fs)"
    using assms(4) by (simp add: open_for_write_def)
  from acf_new_open [OF this, of held rnd] have
    "acf_new held rnd (d @ [name]) fs = Some (reserve held rnd (d @ [name]) (d @ [name]) ?fs)" .
  also have "dirs_to ?fs d" using assms(1) by (auto simp: dirs_to_def fs_get_put dest: prefix_length_le)
  then have "reserve held rnd (d @ [name]) (d @ [name]) ?fs =
      (Inr (acf_handle d name rnd), fs_put (acf_temp_path d rnd) (FileNode [] created_mode) ?fs)"
    using reserve_file [of ?fs d name "[]" created_mode rnd held] assms
    by (simp add: fs_get_put acf_temp_path_def)
  finally show ?thesis .
qed

lemma commit_content_ok:
  assumes "fs_wf fs" "dirs_to fs d" "no_parent_refs d" "name \<noteq> ''..''" "name \<noteq> ''.elfshakertmp_'' @ rnd"
    and temp: "fs_get fs (acf_temp_path d rnd) = Some (FileNode [] m)" and dest: "fs_get fs (d @ [name]) \<noteq> Some DirNode"
    and "data \<noteq> []"
  shows "\<exists>fs'. commit_content (acf_handle d name rnd) (data, None) fs = (Inr (), fs') \<and> fs_wf fs' \<and>
    (\<forall>q. fs_get fs' q = (if q = d @ [name] then Some (FileNode data m)
       else if q = acf_temp_path d rnd then None else fs_get fs q))"
proof -
  let ?t = "''.elfshakertmp_'' @ rnd"
  let ?fs = "fs_put (d @ [?t]) (FileNode data m) fs"
  have wf: "fs_wf ?fs"
    using assms(1,2) temp children_need_dir [OF assms(1), of "d @ [?t]"]
    by (intro fs_wf_put) (auto simp: dirs_to_def acf_temp_path_def)
  have to: "dirs_to ?fs d" using assms(2) by (auto simp: dirs_to_def fs_get_put dest: prefix_length_le)
  have get: "fs_get ?fs (d @ [?t]) = Some (FileNode data m)" "fs_get ?fs (d @ [name]) \<noteq> Some DirNode"
    using dest by (simp_all add: fs_get_put)
  have "fs_rename (d @ [?t]) (d @ [name]) ?fs =
      (Inr (), fs_put (d @ [name]) (FileNode data m) (fs_del (d @ [?t]) ?fs))"
    using fs_rename_file [OF to assms(3) temp_name assms(4) assms(5) [symmetric] get(1) _ get(2)] by simp
  then have "commit_content (acf_handle d name rnd) (data, None) fs =
      (Inr (), fs_put (d @ [name]) (FileNode data m) (fs_del (d @ [?t]) ?fs))"
    using assms(8) temp
    by (simp add: commit_content_def acf_handle_def acf_temp_path_def io_copy_def andThen_def lift_err_def
        fs_append_def ret_def liftr_def)
  moreover note fs_put_del_facts [OF wf to assms(5) [symmetric] _ _ get(2), of "FileNode data m"]
  ultimately show ?thesis using get(1) by (auto simp: fs_get_put acf_temp_path_def)
qed

text \<open>A reader that fails: the destination stays as it was reserved.\<close>

lemma commit_content_error:
  "commit_content a (data, Some e) fs = (Inl (Fail e), snd (fs_append (acf_temp_file a) data fs))"
  by (simp add: commit_content_def io_copy_def andThen_def lift_err_def err_def fs_append_def)

text \<open>Reserving a free destination and publishing the data.\<close>

lemma acf_publish:
  assumes "fs_wf fs" "no_parent_refs d" "name \<noteq> ''..''" "dirs_or_missing fs d"
    and "reservable fs (d @ [name])" "\<not> held (d @ [name])"
    and "fs_get fs (acf_temp_path d rnd) = None" "name \<noteq> ''.elfshakertmp_'' @ rnd" "data \<noteq> []"
  shows "\<exists>fs1 fs2. acf_new held rnd (d @ [name]) fs = Some (Inr (acf_handle d name rnd), fs1) \<and> fs_wf fs1 \<and>
    (\<exists>m. fs_get fs1 (d @ [name]) = Some (FileNode [] m)) \<and>
    commit_content (acf_handle d name rnd) (data, None) fs1 = (Inr (), fs2) \<and> fs_wf fs2 \<and>
    (\<forall>q. fs_get fs2 q = (if q = d @ [name] then Some (FileNode data created_mode)
       else if prefix q d then Some DirNode else fs_get fs q))"
proof -
  let ?p = "d @ [name]" and ?t = "acf_temp_path d rnd"
  obtain fs0 where fs0: "acf_new held rnd ?p fs = acf_new held rnd ?p fs0" "fs_wf fs0"
      "\<forall>q. fs_get fs0 q = (if prefix q d then Some DirNode else fs_get fs q)"
    using acf_new_makes_parent [OF assms(1-4)] by blast
  have pd: "dirs_to fs0 d" "fs_get fs0 ?p = fs_get fs ?p" "fs_get fs0 ?t = None"
    using parent_dirs [OF fs0(3)] assms(7) by (simp_all add: acf_temp_path_def)
  define fs0' where "fs0' = (if fs_get fs ?p = None then fs_put ?p (FileNode [] created_mode) fs0 else fs0)"
  define fs1 where "fs1 = fs_put ?t (FileNode [] created_mode) fs0'"
  have new: "acf_new held rnd ?p fs0 = Some (Inr (acf_handle d name rnd), fs1)"
  proof (cases "fs_get fs ?p")
    case None
    with acf_new_absent [of fs0 d name rnd held, OF pd(1) assms(2,3) _ pd(3) assms(6,8)] pd(2) show ?thesis
      by (simp add: fs1_def fs0'_def)
  next
    case (Some n)
    with assms(5) obtain m where m: "fs_get fs0 ?p = Some (FileNode [] m)" "and m owner_write \<noteq> 0"
      by (auto simp: reservable_def pd(2))
    from acf_new_existing [OF pd(1) assms(2,3) m pd(3), of held] assms(6) Some show ?thesis
      by (simp add: fs1_def fs0'_def)
  qed
  have wf0: "fs_wf fs0'"
    using fs0(2) pd fs_wf_same_domain [of fs0 d name "FileNode [] created_mode"] by (simp add: fs0'_def)
  have to0: "dirs_to fs0' d"
    using pd(1) by (auto simp: fs0'_def dirs_to_def fs_get_put dest: prefix_length_le)
  have free0: "fs_get fs0' (d @ [''.elfshakertmp_'' @ rnd]) = None"
    using pd(3) assms(8) by (auto simp: fs0'_def fs_get_put acf_temp_path_def)
  have wf1: "fs_wf fs1"
    unfolding fs1_def acf_temp_path_def using fs_wf_same_domain [OF wf0 to0 free0] by simp
  have to1: "dirs_to fs1 d"
    using to0 by (auto simp: fs1_def acf_temp_path_def dirs_to_def fs_get_put dest: prefix_length_le)
  have get1: "fs_get fs1 q = (if q = ?t then Some (FileNode [] created_mode) else fs_get fs0' q)" for q
    by (simp add: fs1_def acf_temp_path_def fs_get_put)
  have dest1: "\<exists>m. fs_get fs1 ?p = Some (FileNode [] m)"
    using assms(5,8) pd(2) by (auto simp: get1 acf_temp_path_def fs0'_def fs_get_put reservable_def)
  obtain fs2 where fs2: "commit_content (acf_handle d name rnd) (data, None) fs1 = (Inr (), fs2)" "fs_wf fs2"
      "\<forall>q. fs_get fs2 q = (if q = ?p then Some (FileNode data created_mode) else if q = ?t then None else fs_get fs1 q)"
    using commit_content_ok [OF wf1 to1 assms(2,3,8) _ _ assms(9), of created_mode] dest1 get1 by fastforce
  have t: "\<not> prefix ?t d" by (auto simp: acf_temp_path_def dest: prefix_length_le)
  have "fs_get fs2 q = (if q = ?p then Some (FileNode data created_mode)
       else if prefix q d then Some DirNode else fs_get fs q)" for q
    using fs2(3) fs0(3) assms(7) t by (auto simp: get1 fs0'_def fs_get_put)
  with new fs0(1) wf1 dest1 fs2(1,2) show ?thesis by auto
qed

subsection \<open>Properties\<close>

text \<open>C28: \<^verbatim>\<open>AtomicCreateFile::new\<close> returns for every destination below real or missing directories,
  except one: when the destination is a link into a missing directory, opening it reports
  \<^verbatim>\<open>NotFound\<close>, the parent directories exist already, and \<^verbatim>\<open>new\<close> calls itself for ever.\<close>

theorem acf_new_returns:
  assumes "fs_wf fs" "no_parent_refs d" "name \<noteq> ''..''" "dirs_or_missing fs d"
  shows "acf_new held rnd (d @ [name]) fs = None \<longleftrightarrow>
    (\<exists>t. fs_get fs (d @ [name]) = Some (LinkNode t)) \<and> resolve_target fs (d @ [name]) = Inl NotFound"
  using assms by (rule acf_new_None_iff)

definition dangling_fs :: fs where
  "dangling_fs = [([''x''], LinkNode ''/no/x'')]"

theorem acf_new_returns_witness:
  "acf_new (\<lambda>_. False) ''r'' [''x''] dangling_fs = None \<and>
   acf_new (\<lambda>_. False) ''r'' [''y''] dangling_fs \<noteq> None"
proof -
  have wf: "fs_wf dangling_fs" "dirs_or_missing dangling_fs []" "no_parent_refs []"
    by (auto simp: fs_wf_def dangling_fs_def dirs_or_missing_def no_parent_refs_def fs_get_def)
  have link: "fs_get dangling_fs [''x''] = Some (LinkNode ''/no/x'')" "fs_get dangling_fs [''y''] = None"
    by (simp_all add: dangling_fs_def fs_get_def)
  have "resolve_target dangling_fs [''x''] = Inl NotFound"
    by (simp add: resolve_target_def max_links_def dangling_fs_def fs_get_def link_start_def
        target_components_def)
  with acf_new_returns [OF wf(1,3) _ wf(2), of "''x''" "\<lambda>_. False" "''r''"]
    acf_new_returns [OF wf(1,3) _ wf(2), of "''y''" "\<lambda>_. False" "''r''"] link
  show ?thesis by simp
qed

text \<open>C29: Reserving an absent or empty destination that no other process has locked succeeds and
  leaves it empty until the commit, which replaces it with exactly the data; the directories
  above it are made, the temporary file is gone and every other path is as before.  A
  destination with content, or one that is locked, is refused with nothing changed.\<close>

theorem atomic_create_publishes:
  assumes "fs_wf fs" "no_parent_refs d" "name \<noteq> ''..''" "dirs_or_missing fs d"
    and "fs_get fs (acf_temp_path d rnd) = None" "name \<noteq> ''.elfshakertmp_'' @ rnd" "data \<noteq> []"
  shows "(reservable fs (d @ [name]) \<and> \<not> held (d @ [name]) \<longrightarrow>
      (\<exists>fs1 fs2. acf_new held rnd (d @ [name]) fs = Some (Inr (acf_handle d name rnd), fs1) \<and>
        (\<exists>m. fs_get fs1 (d @ [name]) = Some (FileNode [] m)) \<and>
        commit_content (acf_handle d name rnd) (data, None) fs1 = (Inr (), fs2) \<and>
        (\<forall>q. fs_get fs2 q = (if q = d @ [name] then Some (FileNode data created_mode)
           else if prefix q d then Some DirNode else fs_get fs q)))) \<and>
    (\<forall>b m. fs_get fs (d @ [name]) = Some (FileNode b m) \<and> and m owner_write \<noteq> 0 \<and>
        (held (d @ [name]) \<or> b \<noteq> []) \<longrightarrow>
      acf_new held rnd (d @ [name]) fs =
        Some (Inl (if held (d @ [name]) then WouldBlock else AlreadyExists), fs))"
proof (intro conjI impI allI)
  assume "reservable fs (d @ [name]) \<and> \<not> held (d @ [name])"
  then obtain fs1 fs2 where "acf_new held rnd (d @ [name]) fs = Some (Inr (acf_handle d name rnd), fs1)"
    "\<exists>m. fs_get fs1 (d @ [name]) = Some (FileNode [] m)"
    "commit_content (acf_handle d name rnd) (data, None) fs1 = (Inr (), fs2)"
    "\<forall>q. fs_get fs2 q = (if q = d @ [name] then Some (FileNode data created_mode)
       else if prefix q d then Some DirNode else fs_get fs q)"
    using acf_publish [of fs d name held rnd data] assms by blast
  then show "\<exists>fs1 fs2. acf_new held rnd (d @ [name]) fs = Some (Inr (acf_handle d name rnd), fs1) \<and>
        (\<exists>m. fs_get fs1 (d @ [name]) = Some (FileNode [] m)) \<and>
        commit_content (acf_handle d name rnd) (data, None) fs1 = (Inr (), fs2) \<and>
        (\<forall>q. fs_get fs2 q = (if q = d @ [name] then Some (FileNode data created_mode)
           else if prefix q d then Some DirNode else fs_get fs q))"
    by (intro exI [of _ fs1] exI [of _ fs2] conjI)
next
  fix b m
  assume a: "fs_get fs (d @ [name]) = Some (FileNode b m) \<and> and m owner_write \<noteq> 0 \<and>
      (held (d @ [name]) \<or> b \<noteq> [])"
  then have "fs_get fs d = Some DirNode" using fs_wf_parent [OF assms(1), of d name] by auto
  then have "dirs_to fs d" using dirs_to_get [OF assms(1)] by simp
  from acf_new_existing [OF this assms(2,3) _ _ assms(5), of b m held] a
  show "acf_new held rnd (d @ [name]) fs =
      Some (Inl (if held (d @ [name]) then WouldBlock else AlreadyExists), fs)" by auto
qed

theorem atomic_create_publishes_witness:
  "(\<exists>fs1 fs2. acf_new (\<lambda>_. False) ''r'' [''d'', ''f''] [] = Some (Inr (acf_handle [''d''] ''f'' ''r''), fs1) \<and>
     commit_content (acf_handle [''d''] ''f'' ''r'') (''ab'', None) fs1 = (Inr (), fs2) \<and>
     fs_get fs2 [''d'', ''f''] = Some (FileNode ''ab'' created_mode)) \<and>
   acf_new (\<lambda>_. False) ''r'' [''f''] [([''f''], FileNode ''old'' created_mode)] =
     Some (Inl AlreadyExists, [([''f''], FileNode ''old'' created_mode)])"
proof
  have wf: "fs_wf []" "dirs_or_missing [] [''d'']" "no_parent_refs [''d'']"
    "fs_get [] (acf_temp_path [''d''] ''r'') = None" "fs_get [] [''d'', ''f''] = None"
    by (auto simp: fs_wf_def dirs_or_missing_def no_parent_refs_def fs_get_def acf_temp_path_def)
  then have "reservable [] [''d'', ''f'']" by (simp add: reservable_def)
  with atomic_create_publishes [OF wf(1,3) _ wf(2,4), of "''f''" "''ab''" "\<lambda>_. False"]
  show "\<exists>fs1 fs2. acf_new (\<lambda>_. False) ''r'' [''d'', ''f''] [] = Some (Inr (acf_handle [''d''] ''f'' ''r''), fs1) \<and>
     commit_content (acf_handle [''d''] ''f'' ''r'') (''ab'', None) fs1 = (Inr (), fs2) \<and>
     fs_get fs2 [''d'', ''f''] = Some (FileNode ''ab'' created_mode)" by auto
next
  let ?fs = "[([''f''], FileNode ''old'' created_mode)]"
  have wf: "fs_wf ?fs" "dirs_or_missing ?fs []" "no_parent_refs []"
    "fs_get ?fs (acf_temp_path [] ''r'') = None" "fs_get ?fs [''f''] = Some (FileNode ''old'' created_mode)"
    by (auto simp: fs_wf_def dirs_or_missing_def no_parent_refs_def fs_get_def acf_temp_path_def)
  have "and created_mode owner_write \<noteq> 0" by (simp add: created_mode_def owner_write_def)
  with atomic_create_publishes [OF wf(1,3) _ wf(2,4), of "''f''" "''ab''" "\<lambda>_. False"] wf(5)
  show "acf_new (\<lambda>_. False) ''r'' [''f''] ?fs = Some (Inl AlreadyExists, ?fs)" by auto
qed

end
