(* ===== verification/RepoBase.thy ===== *)
theory RepoBase
  imports Remote AtomicFile
begin

text \<open>
  The repository (\<^verbatim>\<open>src/repo/repository.rs\<close>): its state and lock, its paths, HEAD, the packs it
  holds and the search for a snapshot.
\<close>

subsection \<open>State\<close>

text \<open>
  \<^verbatim>\<open>rp_lock\<close> is the lock on the open mutex file, \<^verbatim>\<open>None\<close> in a read-only repository;
  \<^verbatim>\<open>rp_exclusive\<close> is the flag \<^verbatim>\<open>is_locked_exclusively\<close>.
\<close>

datatype lock_mode = Unlocked | SharedLock | ExclusiveLock

record repository =
  rp_path :: path
  rp_data_dir :: path
  rp_lock :: "lock_mode option"
  rp_exclusive :: bool

record extract_options =
  xo_verify :: bool
  xo_reset :: bool
  xo_force :: bool
  xo_num_workers :: u32

definition default_extract_options :: extract_options where
  "default_extract_options =
     \<lparr>xo_verify = True, xo_reset = False, xo_force = False, xo_num_workers = 1\<rparr>"

record extract_result =
  xr_modified :: u32
  xr_added :: u32
  xr_removed :: u32

subsection \<open>Opening and locking\<close>

definition canonicalize :: "fs \<Rightarrow> path \<Rightarrow> io_error + path" where
  "canonicalize fs p = rbind (metadata fs p) (\<lambda>_. resolve_target fs p)"

definition open_rw :: "path \<Rightarrow> (io_error, path) fs_op" where
  "open_rw p = andThen (open_for_write p) (\<lambda>q. andThen (query (\<lambda>fs. fs_read fs p)) (\<lambda>_. ret q))"

definition open_with_data_dir :: "env \<Rightarrow> path \<Rightarrow> path \<Rightarrow> repository op" where
  "open_with_data_dir E p data_dir fs =
     (if \<not> path_exists fs data_dir then (Inl (Fail (RepositoryNotFound data_dir)), fs)
      else case canonicalize fs data_dir of
        Inl e \<Rightarrow> (Inl Panicked, fs)
      | Inr dd \<Rightarrow>
          (case open_rw (dd @ [''mutex'']) fs of
             (Inr _, fs) \<Rightarrow>
               (let r = \<lparr>rp_path = p, rp_data_dir = dd, rp_lock = Some SharedLock, rp_exclusive = False\<rparr>
                in case la_try_shared (e_locks E) of
                     Granted \<Rightarrow> (Inr r, fs)
                   | Contended \<Rightarrow> (map_err (\<lambda>e. Fail (IOError e)) (rbind (la_shared (e_locks E)) (\<lambda>_. Inr r)), fs)
                   | LockFailed e \<Rightarrow> (Inl (Fail (IOError e)), fs))
           | (Inl e, fs) \<Rightarrow>
               if e = PermissionDenied \<or> e = ReadOnlyFilesystem
               then (Inr \<lparr>rp_path = p, rp_data_dir = dd, rp_lock = None, rp_exclusive = False\<rparr>, fs)
               else (Inl (Fail (IOError e)), fs)))"

definition repo_open :: "env \<Rightarrow> path \<Rightarrow> path \<Rightarrow> repository op" where
  "repo_open E cwd p =
     andThen (io (query (\<lambda>fs. canonicalize fs p))) (\<lambda>p.
     andThen (io (query (\<lambda>fs. canonicalize fs (cwd @ [repo_dir])))) (\<lambda>dd.
     open_with_data_dir E p dd))"

definition restore_shared_lock_on_error :: "io_error + unit \<Rightarrow> io_error + unit \<Rightarrow> io_error + unit" where
  "restore_shared_lock_on_error restore lock_result =
     (case lock_result of
        Inr _ \<Rightarrow> Inr ()
      | Inl lock_error \<Rightarrow> (case restore of Inl e \<Rightarrow> Inl e | Inr _ \<Rightarrow> Inl lock_error))"

definition lock_exclusive :: "env \<Rightarrow> repository \<Rightarrow> (io_error + unit) \<times> repository" where
  "lock_exclusive E r =
     (let a = e_locks E in
      if rp_exclusive r then (Inr (), r)
      else if rp_lock r = None then (Inl PermissionDenied, r)
      else case la_unlock a of
        Inl e \<Rightarrow> (Inl e, r)
      | Inr _ \<Rightarrow>
          (let lock_result = (case la_try_exclusive a of
                 Granted \<Rightarrow> Inr () | Contended \<Rightarrow> la_exclusive a | LockFailed e \<Rightarrow> Inl e)
           in case restore_shared_lock_on_error (la_restore a) lock_result of
                Inr _ \<Rightarrow> (Inr (), r\<lparr>rp_lock := Some ExclusiveLock, rp_exclusive := True\<rparr>)
              | Inl e \<Rightarrow> (Inl e, r\<lparr>rp_lock := Some (if is_ok (la_restore a) then SharedLock else Unlocked)\<rparr>)))"

text \<open>Running an operation after taking the exclusive lock; \<^verbatim>\<open>g\<close> converts a failure of the lock.\<close>

definition with_lock ::
    "env \<Rightarrow> repository \<Rightarrow> (io_error \<Rightarrow> 'e) \<Rightarrow> ('e, 'a) fs_op \<Rightarrow> fs \<Rightarrow> ('e + 'a) \<times> repository \<times> fs" where
  "with_lock E r g m fs =
     (case lock_exclusive E r of
        (Inl e, r) \<Rightarrow> (Inl (g e), r, fs)
      | (Inr _, r) \<Rightarrow> (case m fs of (x, fs) \<Rightarrow> (x, r, fs)))"

subsection \<open>Paths\<close>

definition packs_root :: "repository \<Rightarrow> path" where
  "packs_root r = rp_data_dir r @ [packs_name]"

definition loose_root :: "repository \<Rightarrow> path" where
  "loose_root r = rp_data_dir r @ [loose_name]"

definition temp_dir :: "repository \<Rightarrow> path" where
  "temp_dir r = rp_data_dir r @ [temp_name]"

definition get_pack_path :: "repository \<Rightarrow> pack_id \<Rightarrow> path" where
  "get_pack_path r pack =
     append_path_suffix (path_push (packs_root r) (pack_name pack)) (CHR ''.'' # pack_extension)"

definition get_pack_index_path :: "repository \<Rightarrow> pack_id \<Rightarrow> path" where
  "get_pack_index_path r pack =
     append_path_suffix (path_push (packs_root r) (pack_name pack)) dot_pack_index_extension"

definition loose_object_path :: "env \<Rightarrow> repository \<Rightarrow> checksum \<Rightarrow> path" where
  "loose_object_path E r c =
     (let s = hex_encode (e_hex E) c
      in loose_root r @ [take 2 s, take 2 (drop 2 s), drop 4 s])"

text \<open>
  The root directory counts as one component; with too few components the index wraps around
  and \<^verbatim>\<open>nth\<close> finds nothing.
\<close>

definition loose_object_checksum :: "env \<Rightarrow> path \<Rightarrow> error + checksum" where
  "loose_object_checksum E p =
     (let comps = ''/'' # p; n = length comps; bad = BadLooseObject (path_display p)
      in if n < 3 then Inl bad
         else
           rbind (ok_or bad (hex_decode (e_hex E) (utf8_lossy (comps ! (n - 3))))) (\<lambda>a.
           rbind (ok_or bad (hex_decode (e_hex E) (utf8_lossy (comps ! (n - 2))))) (\<lambda>b.
           rbind (ok_or bad (hex_decode (e_hex E) (utf8_lossy (comps ! (n - 1))))) (\<lambda>c.
           if length a + length b + length c \<noteq> 20 then Inl bad else Inr (a @ b @ c)))))"

fun logical_components :: "path \<Rightarrow> error + path" where
  "logical_components p = collect (\<lambda>c. if is_utf8 c then Inr c else Inl (Utf8Error c)) p"

definition logical_pack_id_path :: "path \<Rightarrow> error + bytes" where
  "logical_pack_id_path p = rbind (logical_components p) (\<lambda>cs. Inr (join_with (CHR ''/'') cs))"

subsection \<open>HEAD\<close>

definition head_path :: "repository \<Rightarrow> path" where
  "head_path r = rp_data_dir r @ [head_file]"

definition strip_eol :: "byte \<Rightarrow> bytes \<Rightarrow> bytes" where
  "strip_eol c s = (case strip_suffix [c] s of Some t \<Rightarrow> t | None \<Rightarrow> s)"

definition parse_head :: "env \<Rightarrow> bytes \<Rightarrow> error + snapshot_id" where
  "parse_head E buf =
     (if \<not> is_utf8 buf then Inl CorruptHead
      else map_err (\<lambda>_. CorruptHead)
        (snapshot_id_from_str (e_cat E) (strip_eol (CHR 0x0D) (strip_eol (CHR 0x0A) buf))))"

definition last_modified_at :: "env \<Rightarrow> fs \<Rightarrow> path \<Rightarrow> nat option" where
  "last_modified_at E fs q = (case e_times E fs q of (created, modified) \<Rightarrow> get_last_modified created modified)"

definition read_head :: "env \<Rightarrow> repository \<Rightarrow> fs \<Rightarrow> error + snapshot_id option \<times> nat option" where
  "read_head E r fs =
     (case fs_read fs (head_path r) of
        Inl e \<Rightarrow> if e = NotFound then Inr (None, None) else Inl (IOError e)
      | Inr buf \<Rightarrow>
          rbind (parse_head E buf) (\<lambda>s.
          Inr (Some s, case resolve_target fs (head_path r) of Inl _ \<Rightarrow> None | Inr q \<Rightarrow> last_modified_at E fs q)))"

definition update_head :: "env \<Rightarrow> repository \<Rightarrow> snapshot_id \<Rightarrow> unit op" where
  "update_head E r s =
     (if rp_lock r = None then ret ()
      else andThen (io (ensure_dir (temp_dir r))) (\<lambda>_.
        io (write_file_atomic (snapshot_id_display s @ [CHR 0x0A], None) (temp_dir r)
          (e_tmp E (head_path r)) (head_path r))))"

end
