(* ===== verification/EsiCommit.thy ===== *)
theory EsiCommit
  imports RepoBase
begin

text \<open>
  Writing several documents at once (the second half of \<^verbatim>\<open>src/esi.rs\<close>): every output is staged in a
  file beside its target, then renamed over it; when a rename fails, what was published is
  restored.  A path is absolute: a relative one stands for its join with the current directory.
\<close>

subsection \<open>Data\<close>

record document_write =
  dw_path :: path
  dw_contents :: bytes
  dw_backup :: bool

record existing_file =
  ef_bytes :: bytes
  ef_permissions :: u32

text \<open>A staged file has the path \<^verbatim>\<open>[]\<close> once it is published (\<^verbatim>\<open>self.path.clear()\<close>).\<close>

record staged_file =
  sf_path :: path

text \<open>The fields of \<^verbatim>\<open>PendingBackup\<close>, which \<^verbatim>\<open>PendingWrite\<close> has as well, beside its backup.\<close>

record pending_backup =
  pb_path :: path
  pb_replacement :: staged_file
  pb_restore :: "staged_file option"
  pb_existed :: bool
  pb_published :: bool

record pending_write = pending_backup +
  pw_backup :: "pending_backup option"

text \<open>
  The state: how many random names and calls of \<^verbatim>\<open>replace\<close> there were, and the file system.
  \<^verbatim>\<open>replace\<close> is a closure, so its answer may differ from call to call.
\<close>

type_synonym 'a commit_op = "nat \<times> fs \<Rightarrow> (io_error + 'a) \<times> nat \<times> fs"

record commit_env =
  ce_random :: "nat \<Rightarrow> bytes"
  ce_replace :: "nat \<Rightarrow> path \<Rightarrow> path \<Rightarrow> (io_error, unit) fs_op"

text \<open>\<^verbatim>\<open>RollbackFailed\<close> stands for the error whose text holds both errors.\<close>

datatype commit_error = CommitFailed io_error | RollbackFailed io_error io_error

definition cret :: "'a \<Rightarrow> 'a commit_op" where "cret x s = (Inr x, s)"

definition cbind :: "'a commit_op \<Rightarrow> ('a \<Rightarrow> 'b commit_op) \<Rightarrow> 'b commit_op" where
  "cbind m f s = (case m s of (Inl e, s) \<Rightarrow> (Inl e, s) | (Inr x, s) \<Rightarrow> f x s)"

definition on_fs :: "(io_error, 'a) fs_op \<Rightarrow> 'a commit_op" where
  "on_fs m s = (case s of (n, fs) \<Rightarrow> (case m fs of (x, fs) \<Rightarrow> (x, n, fs)))"

subsection \<open>Staging\<close>

definition backup_path :: "path \<Rightarrow> path" where
  "backup_path p = append_path_suffix p ''.bak''"

definition stage_name :: "commit_env \<Rightarrow> nat \<Rightarrow> bytes" where
  "stage_name C n = ''.elfshaker-esi-'' @ ce_random C n"

fun create_staging_file :: "commit_env \<Rightarrow> nat \<Rightarrow> path \<Rightarrow> (path \<times> path) commit_op" where
  "create_staging_file C 0 parent s = (Inl AlreadyExists, s)"
| "create_staging_file C (Suc tries) parent (n, fs) =
     (let p = parent @ [stage_name C n] in
      case open_create_new p fs of
        (Inr q, fs) \<Rightarrow> (Inr (p, q), Suc n, fs)
      | (Inl e, fs) \<Rightarrow>
          if e = AlreadyExists then create_staging_file C tries parent (Suc n, fs)
          else (Inl e, Suc n, fs))"

definition staged_file_new :: "commit_env \<Rightarrow> path \<Rightarrow> bytes \<Rightarrow> u32 option \<Rightarrow> staged_file commit_op" where
  "staged_file_new C target contents permissions =
     cbind (create_staging_file C 100 (butlast target)) (\<lambda>(p, q).
     cbind (on_fs (fs_append q contents)) (\<lambda>_.
     cbind (case permissions of Some m \<Rightarrow> on_fs (fs_set_mode q m) | None \<Rightarrow> cret ()) (\<lambda>_.
     cret \<lparr>sf_path = p\<rparr>)))"

definition staged_drop :: "staged_file \<Rightarrow> nat \<times> fs \<Rightarrow> nat \<times> fs" where
  "staged_drop f s = (if sf_path f = [] then s else snd (on_fs (remove_file (sf_path f)) s))"

definition drop_all :: "staged_file list \<Rightarrow> nat \<times> fs \<Rightarrow> nat \<times> fs" where
  "drop_all = fold staged_drop"

text \<open>An operation while \<^verbatim>\<open>files\<close> are owned: on an error they are dropped.\<close>

definition owning :: "staged_file list \<Rightarrow> 'a commit_op \<Rightarrow> 'a commit_op" where
  "owning files m s = (case m s of (Inl e, s) \<Rightarrow> (Inl e, drop_all files s) | (Inr x, s) \<Rightarrow> (Inr x, s))"

definition read_existing :: "fs \<Rightarrow> path \<Rightarrow> io_error + existing_file option" where
  "read_existing fs p =
     (case fs_read fs p of
        Inr data \<Rightarrow> rbind (metadata fs p) (\<lambda>n.
          Inr (Some \<lparr>ef_bytes = data,
            ef_permissions = (case n of FileNode d m \<Rightarrow> m | _ \<Rightarrow> 0)\<rparr>))
      | Inl e \<Rightarrow> if e = NotFound then Inr None else Inl e)"

definition stage_restore :: "commit_env \<Rightarrow> path \<Rightarrow> existing_file option \<Rightarrow> staged_file option commit_op" where
  "stage_restore C p state =
     (case state of
        None \<Rightarrow> cret None
      | Some ef \<Rightarrow>
          cbind (staged_file_new C p (ef_bytes ef) (Some (ef_permissions ef))) (\<lambda>f. cret (Some f)))"

definition stage_backup :: "commit_env \<Rightarrow> path \<Rightarrow> existing_file \<Rightarrow> pending_backup commit_op" where
  "stage_backup C p original =
     cbind (on_fs (query (\<lambda>fs. read_existing fs p))) (\<lambda>previous.
     cbind (staged_file_new C p (ef_bytes original)
         (Some (ef_permissions (case previous of Some ef \<Rightarrow> ef | None \<Rightarrow> original)))) (\<lambda>f.
     owning [f] (
     cbind (stage_restore C p previous) (\<lambda>r.
     cret \<lparr>pb_path = p, pb_replacement = f, pb_restore = r, pb_existed = (previous \<noteq> None),
       pb_published = False\<rparr>))))"

definition stage_write :: "commit_env \<Rightarrow> document_write \<Rightarrow> pending_write commit_op" where
  "stage_write C w =
     (let p = dw_path w in
     cbind (on_fs (query (\<lambda>fs. read_existing fs p))) (\<lambda>original.
     cbind (staged_file_new C p (dw_contents w) (map_option ef_permissions original)) (\<lambda>f.
     owning [f] (
     cbind (stage_restore C p original) (\<lambda>r.
     owning (case r of None \<Rightarrow> [] | Some f \<Rightarrow> [f]) (
     cbind (case original of
         Some ef \<Rightarrow> if dw_backup w
           then cbind (stage_backup C (backup_path p) ef) (\<lambda>b. cret (Some b)) else cret None
       | None \<Rightarrow> cret None) (\<lambda>b.
     cret \<lparr>pb_path = p, pb_replacement = f, pb_restore = r, pb_existed = (original \<noteq> None),
       pb_published = False, pw_backup = b\<rparr>)))))))"

definition file_staged :: "'a pending_backup_scheme \<Rightarrow> staged_file list" where
  "file_staged p = pb_replacement p # (case pb_restore p of None \<Rightarrow> [] | Some f \<Rightarrow> [f])"

definition write_staged :: "pending_write \<Rightarrow> staged_file list" where
  "write_staged p = file_staged p @ (case pw_backup p of None \<Rightarrow> [] | Some b \<Rightarrow> file_staged b)"

fun stage_all :: "commit_env \<Rightarrow> document_write list \<Rightarrow> pending_write list commit_op" where
  "stage_all C [] = cret []"
| "stage_all C (w # ws) =
     cbind (stage_write C w) (\<lambda>p.
     owning (write_staged p) (cbind (stage_all C ws) (\<lambda>ps. cret (p # ps))))"

subsection \<open>Publishing and rolling back\<close>

definition staged_publish :: "commit_env \<Rightarrow> staged_file \<Rightarrow> path \<Rightarrow> staged_file commit_op" where
  "staged_publish C f target s =
     (case s of (n, fs) \<Rightarrow>
        (case ce_replace C n (sf_path f) target fs of
           (Inl e, fs) \<Rightarrow> (Inl e, Suc n, fs)
         | (Inr _, fs) \<Rightarrow> (Inr (f\<lparr>sf_path := []\<rparr>), Suc n, fs)))"

definition publish_file ::
    "commit_env \<Rightarrow> 'a pending_backup_scheme \<Rightarrow> 'a pending_backup_scheme commit_op" where
  "publish_file C p =
     cbind (staged_publish C (pb_replacement p) (pb_path p)) (\<lambda>f.
     cret (p\<lparr>pb_replacement := f, pb_published := True\<rparr>))"

text \<open>The item as it is left, with the error if there was one.\<close>

definition publish_item ::
    "commit_env \<Rightarrow> pending_write \<Rightarrow> nat \<times> fs \<Rightarrow> io_error option \<times> pending_write \<times> nat \<times> fs" where
  "publish_item C p s =
     (let main = (\<lambda>p s. case publish_file C p s of
        (Inl e, s) \<Rightarrow> (Some e, p, s) | (Inr p, s) \<Rightarrow> (None, p, s))
      in case pw_backup p of
           None \<Rightarrow> main p s
         | Some b \<Rightarrow> (case publish_file C b s of
             (Inl e, s) \<Rightarrow> (Some e, p, s)
           | (Inr b, s) \<Rightarrow> main (p\<lparr>pw_backup := Some b\<rparr>) s))"

fun publish_all ::
    "commit_env \<Rightarrow> pending_write list \<Rightarrow> nat \<times> fs \<Rightarrow> io_error option \<times> pending_write list \<times> nat \<times> fs" where
  "publish_all C [] s = (None, [], s)"
| "publish_all C (p # ps) s =
     (case publish_item C p s of
        (Some e, p, s) \<Rightarrow> (Some e, p # ps, s)
      | (None, p, s) \<Rightarrow> (case publish_all C ps s of (e, ps, s) \<Rightarrow> (e, p # ps, s)))"

definition remove_if_exists :: "path \<Rightarrow> (io_error, unit) fs_op" where
  "remove_if_exists p fs =
     (case remove_file p fs of
        (Inr _, fs) \<Rightarrow> (Inr (), fs)
      | (Inl e, fs) \<Rightarrow> if e = NotFound then (Inr (), fs) else (Inl e, fs))"

text \<open>Undoing one file: the error, if any, and the file as it is left.\<close>

definition restore_file ::
    "commit_env \<Rightarrow> 'a pending_backup_scheme \<Rightarrow> nat \<times> fs \<Rightarrow>
     io_error option \<times> 'a pending_backup_scheme \<times> nat \<times> fs" where
  "restore_file C p s =
     (if \<not> pb_published p then (None, p, s)
      else case pb_restore p of
        Some r \<Rightarrow> (case staged_publish C r (pb_path p) s of
            (Inl e, s) \<Rightarrow> (Some e, p, s)
          | (Inr r, s) \<Rightarrow> (None, p\<lparr>pb_restore := Some r\<rparr>, s))
      | None \<Rightarrow>
          if pb_existed p then (None, p, s)
          else (case on_fs (remove_if_exists (pb_path p)) s of
              (Inl e, s) \<Rightarrow> (Some e, p, s) | (Inr _, s) \<Rightarrow> (None, p, s)))"

definition first_error :: "io_error option \<Rightarrow> io_error option \<Rightarrow> io_error option" where
  "first_error a b = (case a of None \<Rightarrow> b | Some e \<Rightarrow> Some e)"

definition rollback_item ::
    "commit_env \<Rightarrow> pending_write \<Rightarrow> nat \<times> fs \<Rightarrow> io_error option \<times> pending_write \<times> nat \<times> fs" where
  "rollback_item C p s =
     (case restore_file C p s of (e, p, s) \<Rightarrow>
        (case pw_backup p of
           None \<Rightarrow> (e, p, s)
         | Some b \<Rightarrow> (case restore_file C b s of (e', b, s) \<Rightarrow>
             (first_error e e', p\<lparr>pw_backup := Some b\<rparr>, s))))"

text \<open>The list is that of the pending writes in reverse.\<close>

fun rollback ::
    "commit_env \<Rightarrow> pending_write list \<Rightarrow> nat \<times> fs \<Rightarrow> io_error option \<times> pending_write list \<times> nat \<times> fs" where
  "rollback C [] s = (None, [], s)"
| "rollback C (p # ps) s =
     (case rollback_item C p s of (e, p, s) \<Rightarrow>
        (case rollback C ps s of (e', ps, s) \<Rightarrow> (first_error e e', p # ps, s)))"

subsection \<open>Committing\<close>

definition path_identity :: "fs \<Rightarrow> path \<Rightarrow> io_error + path" where
  "path_identity fs p =
     (case canonicalize fs p of Inr q \<Rightarrow> Inr q | Inl e \<Rightarrow> if e = NotFound then Inr p else Inl e)"

fun insert_identities :: "fs \<Rightarrow> path set \<Rightarrow> path list \<Rightarrow> io_error + path set" where
  "insert_identities fs seen [] = Inr seen"
| "insert_identities fs seen (p # ps) =
     rbind (path_identity fs p) (\<lambda>q.
     if q \<in> seen then Inl InvalidInput else insert_identities fs (insert q seen) ps)"

definition validate_document_writes :: "fs \<Rightarrow> document_write list \<Rightarrow> io_error + unit" where
  "validate_document_writes fs ws =
     rbind (insert_identities fs {} (map dw_path ws)) (\<lambda>seen.
     rbind (insert_identities fs seen (map (\<lambda>w. backup_path (dw_path w)) (filter dw_backup ws))) (\<lambda>_.
     Inr ()))"

definition commit_documents_with ::
    "commit_env \<Rightarrow> document_write list \<Rightarrow> nat \<times> fs \<Rightarrow> (commit_error + unit) \<times> nat \<times> fs" where
  "commit_documents_with C ws s =
     (case validate_document_writes (snd s) ws of
        Inl e \<Rightarrow> (Inl (CommitFailed e), s)
      | Inr _ \<Rightarrow>
          (case stage_all C ws s of
             (Inl e, s) \<Rightarrow> (Inl (CommitFailed e), s)
           | (Inr pending, s) \<Rightarrow>
               (case publish_all C pending s of
                  (None, pending, s) \<Rightarrow> (Inr (), drop_all (concat (map write_staged pending)) s)
                | (Some e, pending, s) \<Rightarrow>
                    (case rollback C (rev pending) s of
                       (None, pending, s) \<Rightarrow>
                         (Inl (CommitFailed e), drop_all (concat (map write_staged (rev pending))) s)
                     | (Some e', pending, s) \<Rightarrow>
                         (Inl (RollbackFailed e e'), drop_all (concat (map write_staged (rev pending))) s)))))"

text \<open>\<^verbatim>\<open>replace_file\<close> on Unix is \<^verbatim>\<open>fs::rename\<close>.\<close>

definition replace_file :: "path \<Rightarrow> path \<Rightarrow> (io_error, unit) fs_op" where
  "replace_file source target = fs_rename source target"

definition commit_documents ::
    "(nat \<Rightarrow> bytes) \<Rightarrow> document_write list \<Rightarrow> nat \<times> fs \<Rightarrow> (commit_error + unit) \<times> nat \<times> fs" where
  "commit_documents random ws =
     commit_documents_with \<lparr>ce_random = random, ce_replace = (\<lambda>n. replace_file)\<rparr> ws"

end
