(* ===== verification/EsiCommitFacts.thy ===== *)
theory EsiCommitFacts
  imports EsiCommit
begin

text \<open>
  Staging, publishing and rolling back, over the pending files of a commit: which paths each file
  owns, what stands there at every moment, and that nothing else changes.
\<close>

subsection \<open>Single steps\<close>

definition plain_at :: "fs \<Rightarrow> path \<Rightarrow> bool" where
  "plain_at fs p \<longleftrightarrow> p \<noteq> [] \<and> no_parent_refs p \<and> fs_get fs (butlast p) = Some DirNode"

lemma plain_at_parts:
  assumes "fs_wf fs" "plain_at fs p"
  shows "p = butlast p @ [last p]" "dirs_to fs (butlast p)" "no_parent_refs (butlast p)" "last p \<noteq> ''..''"
proof -
  show s: "p = butlast p @ [last p]" using assms(2) by (simp add: plain_at_def)
  show "dirs_to fs (butlast p)" using assms dirs_to_get [OF assms(1)] by (simp add: plain_at_def)
  have "no_parent_refs (butlast p @ [last p])" using assms(2) s by (simp add: plain_at_def)
  then show "no_parent_refs (butlast p)" "last p \<noteq> ''..''" by (simp_all add: no_parent_refs_snoc)
qed

lemma plain_at_resolve:
  assumes "fs_wf fs" "plain_at fs p"
  shows "resolve_entry fs p = Inr p" and "(\<And>t. fs_get fs p \<noteq> Some (LinkNode t)) \<Longrightarrow> resolve_target fs p = Inr p"
  using plain_at_parts [OF assms] dirs_to_snoc [of fs "butlast p" "last p"] open_plain [of fs "butlast p" "last p"]
  by auto

lemma plain_at_same:
  "plain_at fs p \<Longrightarrow> (\<And>q. fs_get fs q = Some DirNode \<Longrightarrow> fs_get fs' q = Some DirNode) \<Longrightarrow> plain_at fs' p"
  by (auto simp: plain_at_def)

lemma no_children_leaf: "fs_wf fs \<Longrightarrow> fs_get fs p \<noteq> Some DirNode \<Longrightarrow> \<not> has_children fs p"
  using children_need_dir by blast

lemma move_file:
  assumes "fs_wf fs" "plain_at fs a" "plain_at fs b" "a \<noteq> b"
    and "fs_get fs a = Some (FileNode d m)" "fs_get fs b \<noteq> Some DirNode"
  shows "\<exists>fs'. fs_rename a b fs = (Inr (), fs') \<and> fs_wf fs' \<and>
    (\<forall>q. fs_get fs' q = (if q = b then Some (FileNode d m) else if q = a then None else fs_get fs q))"
proof -
  note pa = plain_at_parts [OF assms(1,2)] and pb = plain_at_parts [OF assms(1,3)]
  have ne: "butlast a @ [last a] \<noteq> butlast b @ [last b]" using assms(4) pa(1) pb(1) by simp
  have ga: "fs_get fs (butlast a @ [last a]) = Some (FileNode d m)" using assms(5) pa(1) by simp
  have gb: "fs_get fs (butlast b @ [last b]) \<noteq> Some DirNode" using assms(6) pb(1) by simp
  have nd: "\<not> is_dir_node (FileNode d m)" by simp
  note r = fs_rename_leaf [OF pa(2,3) pb(2,3) pa(4) pb(4) ne ga nd gb]
  have ga': "fs_get fs (butlast a @ [last a]) \<noteq> Some DirNode" using ga by simp
  note f = fs_move_facts [OF assms(1) pb(2) ne ga' nd gb]
  from r f show ?thesis using pa(1) pb(1) by auto
qed

lemma remove_file_plain:
  assumes "fs_wf fs" "plain_at fs p" "fs_get fs p \<noteq> Some DirNode"
  shows "\<exists>x fs'. remove_file p fs = (x, fs') \<and> fs_wf fs' \<and> (x = Inr () \<or> x = Inl NotFound) \<and>
    (\<forall>q. fs_get fs' q = (if q = p then None else fs_get fs q))"
proof (cases "fs_get fs p")
  case None
  then show ?thesis using plain_at_resolve(1) [OF assms(1,2)] assms(1) by (auto simp: remove_file_def)
next
  case (Some n)
  have p: "p \<noteq> []" using assms(2) by (simp add: plain_at_def)
  have "\<not> is_dir_node n" using Some assms(3) by (cases n) auto
  then show ?thesis
    using Some plain_at_resolve(1) [OF assms(1,2)] fs_wf_del [OF assms(1) p no_children_leaf [OF assms(1,3)]]
    by (auto simp: remove_file_def fs_get_del [OF p])
qed

lemma put_file_facts:
  assumes "fs_wf fs" "plain_at fs p" "fs_get fs p \<noteq> Some DirNode"
  shows "fs_wf (fs_put p (FileNode d m) fs)"
    and "fs_get (fs_put p (FileNode d m) fs) q = (if q = p then Some (FileNode d m) else fs_get fs q)"
  using fs_wf_put [of fs p "FileNode d m"] no_children_leaf [OF assms(1,3)] assms fs_get_put [of p]
  by (auto simp: plain_at_def)

text \<open>The names of staging files are new.\<close>

definition fresh_names :: "commit_env \<Rightarrow> fs \<Rightarrow> nat \<Rightarrow> bool" where
  "fresh_names C fs n \<longleftrightarrow> inj (ce_random C) \<and> (\<forall>d i. n \<le> i \<longrightarrow> fs_get fs (d @ [stage_name C i]) = None)"

lemma stage_name_facts: "stage_name C n \<noteq> ''..''" "inj (ce_random C) \<Longrightarrow> stage_name C i = stage_name C j \<longleftrightarrow> i = j"
  by (auto simp: stage_name_def inj_eq)

definition stage_path :: "commit_env \<Rightarrow> nat \<Rightarrow> path \<Rightarrow> path" where
  "stage_path C n p = butlast p @ [stage_name C n]"

definition stage_mode :: "u32 option \<Rightarrow> u32" where
  "stage_mode m = (case m of Some m \<Rightarrow> and m permission_bits | None \<Rightarrow> created_mode)"

lemma plain_stage_path: "fs_wf fs \<Longrightarrow> plain_at fs p \<Longrightarrow> plain_at fs (stage_path C n p)"
  using plain_at_parts(3) stage_name_facts(1)
  by (simp add: plain_at_def stage_path_def no_parent_refs_snoc)

lemma staged_file_new_ok:
  assumes "fs_wf fs" "plain_at fs p" "fresh_names C fs n"
  shows "\<exists>fs'. staged_file_new C p data m (n, fs) = (Inr \<lparr>sf_path = stage_path C n p\<rparr>, Suc n, fs') \<and> fs_wf fs' \<and>
    (\<forall>q. fs_get fs' q = (if q = stage_path C n p then Some (FileNode data (stage_mode m)) else fs_get fs q)) \<and>
    fresh_names C fs' (Suc n)"
proof -
  let ?q = "stage_path C n p"
  note parts = plain_at_parts [OF assms(1,2)]
  have none: "fs_get fs ?q = None" using assms(3) by (simp add: fresh_names_def stage_path_def)
  have ne: "?q \<noteq> []" by (simp add: stage_path_def)
  have pl: "plain_at fs ?q" by (rule plain_stage_path [OF assms(1,2)])
  let ?f1 = "fs_put ?q (FileNode [] created_mode) fs"
  have o: "open_create_new ?q fs = (Inr ?q, ?f1)"
    using open_create_new_ok [OF parts(2,3), of "stage_name C n"] stage_name_facts(1) [of C n] none by (simp add: stage_path_def)
  have c: "create_staging_file C 100 (butlast p) (n, fs) = (Inr (?q, ?q), Suc n, ?f1)"
    using o by (simp add: numeral_eq_Suc stage_path_def Let_def)
  have nd: "fs_get fs ?q \<noteq> Some DirNode" using none by simp
  let ?f2 = "fs_put ?q (FileNode data created_mode) ?f1"
  have pl1: "plain_at ?f1 ?q" using pl fs_get_put [OF ne] none by (auto simp: plain_at_def)
  have w1: "fs_wf ?f1" by (rule put_file_facts(1) [OF assms(1) pl nd])
  have g1: "fs_get ?f1 ?q \<noteq> Some DirNode" by (simp add: fs_get_put [OF ne])
  have w2: "fs_wf ?f2" by (rule put_file_facts(1) [OF w1 pl1 g1])
  have pl2: "plain_at ?f2 ?q" using pl1 fs_get_put [OF ne] none by (auto simp: plain_at_def)
  have g2: "fs_get ?f2 ?q \<noteq> Some DirNode" by (simp add: fs_get_put [OF ne])
  let ?f3 = "case m of Some m \<Rightarrow> fs_put ?q (FileNode data (and m permission_bits)) ?f2 | None \<Rightarrow> ?f2"
  have w3: "fs_wf ?f3" using w2 put_file_facts(1) [OF w2 pl2 g2] by (simp split: option.split)
  have get: "fs_get ?f3 r = (if r = ?q then Some (FileNode data (stage_mode m)) else fs_get fs r)" for r
    by (simp add: fs_get_put [OF ne] stage_mode_def split: option.split)
  have run: "staged_file_new C p data m (n, fs) = (Inr \<lparr>sf_path = ?q\<rparr>, Suc n, ?f3)"
    by (simp add: staged_file_new_def cbind_def c on_fs_def fs_append_def fs_set_mode_def cret_def fs_get_put [OF ne]
        split: option.split)
  have "fresh_names C ?f3 (Suc n)"
    unfolding fresh_names_def
  proof (intro conjI allI impI)
    show inj: "inj (ce_random C)" using assms(3) by (simp add: fresh_names_def)
    fix d i assume i: "Suc n \<le> i"
    then have "stage_name C i \<noteq> stage_name C n" using stage_name_facts(2) [OF inj] by simp
    then show "fs_get ?f3 (d @ [stage_name C i]) = None"
      using i assms(3) get by (simp add: stage_path_def fresh_names_def)
  qed
  with run w3 get show ?thesis by blast
qed

subsection \<open>The pending files\<close>

abbreviation slot :: "'a pending_backup_scheme \<Rightarrow> pending_backup" where
  "slot p \<equiv> pending_backup.truncate p"

lemma slot_simps [simp]:
  "pb_path (slot p) = pb_path p" "pb_replacement (slot p) = pb_replacement p" "pb_restore (slot p) = pb_restore p"
  "pb_existed (slot p) = pb_existed p" "pb_published (slot p) = pb_published p"
  by (simp_all add: pending_backup.truncate_def)

lemma slot_id [simp]: "slot (p :: pending_backup) = p"
  by (simp add: pending_backup.truncate_def)

definition slots :: "pending_write \<Rightarrow> pending_backup list" where
  "slots p = (case pw_backup p of None \<Rightarrow> [] | Some b \<Rightarrow> [b]) @ [slot p]"

definition staged_paths :: "pending_backup \<Rightarrow> path list" where
  "staged_paths p = filter (\<lambda>q. q \<noteq> []) (map sf_path (file_staged p))"

definition owned :: "pending_backup \<Rightarrow> path list" where
  "owned p = pb_path p # staged_paths p"

definition all_owned :: "pending_backup list \<Rightarrow> path list" where
  "all_owned ps = concat (map owned ps)"

lemma all_owned_simps [simp]:
  "all_owned [] = []" "all_owned (p # ps) = owned p @ all_owned ps" "all_owned (ps @ qs) = all_owned ps @ all_owned qs"
  by (simp_all add: all_owned_def)

lemma all_owned_mset: "mset ps = mset qs \<Longrightarrow> mset (all_owned ps) = mset (all_owned qs)"
proof -
  assume e: "mset ps = mset qs"
  have "mset (all_owned xs) = sum_mset (image_mset (\<lambda>p. mset (owned p)) (mset xs))" for xs
    by (induction xs) simp_all
  with e show ?thesis by simp
qed

text \<open>What holds at every moment of the pending files \<^verbatim>\<open>ps\<close>, \<^verbatim>\<open>fs0\<close> being the state before.\<close>

definition commit_base :: "fs \<Rightarrow> fs \<Rightarrow> pending_backup list \<Rightarrow> bool" where
  "commit_base fs0 fs ps \<longleftrightarrow> fs_wf fs0 \<and> fs_wf fs \<and> distinct (all_owned ps) \<and>
     (\<forall>q. q \<notin> set (all_owned ps) \<longrightarrow> fs_get fs q = fs_get fs0 q) \<and>
     (\<forall>q \<in> set (all_owned ps). plain_at fs0 q \<and> fs_get fs0 q \<noteq> Some DirNode \<and> fs_get fs q \<noteq> Some DirNode) \<and>
     (\<forall>p \<in> set ps. \<forall>q \<in> set (staged_paths p). fs_get fs0 q = None)"

lemma commit_base_perm: "mset ps = mset qs \<Longrightarrow> commit_base fs0 fs ps \<Longrightarrow> commit_base fs0 fs qs"
  using all_owned_mset [of ps qs] mset_eq_imp_distinct_iff [of "all_owned ps" "all_owned qs"]
    mset_eq_setD [of ps qs] mset_eq_setD [of "all_owned ps" "all_owned qs"]
  by (simp add: commit_base_def)

lemma commit_base_dirs: "commit_base fs0 fs ps \<Longrightarrow> fs_get fs q = Some DirNode \<longleftrightarrow> fs_get fs0 q = Some DirNode"
  unfolding commit_base_def by metis

lemma commit_base_plain:
  assumes "commit_base fs0 fs ps" "q \<in> set (all_owned ps)"
  shows "plain_at fs q" "fs_get fs q \<noteq> Some DirNode" "fs_wf fs"
  using assms commit_base_dirs [OF assms(1)] by (auto simp: commit_base_def plain_at_def)

text \<open>One file of them is changed: its paths and the state there.\<close>

lemma commit_base_step:
  assumes "commit_base fs0 fs (as @ p # bs)" "fs_wf fs'"
    and "set (owned p') \<subseteq> set (owned p)" "distinct (owned p')" "set (staged_paths p') \<subseteq> set (staged_paths p)"
    and "\<And>q. q \<notin> set (owned p) \<Longrightarrow> fs_get fs' q = fs_get fs q"
    and "\<And>q. q \<in> set (owned p) \<Longrightarrow> fs_get fs' q \<noteq> Some DirNode"
    and "\<And>q. q \<in> set (owned p) \<Longrightarrow> q \<notin> set (owned p') \<Longrightarrow> fs_get fs' q = fs_get fs0 q"
  shows "commit_base fs0 fs' (as @ p' # bs)"
proof -
  from assms(1) have d: "distinct (all_owned (as @ p # bs))" by (simp add: commit_base_def)
  have "distinct (all_owned (as @ p' # bs))" using d assms(3,4) by (auto simp: distinct_append)
  moreover have "fs_get fs' q = fs_get fs0 q" if q: "q \<notin> set (all_owned (as @ p' # bs))" for q
  proof (cases "q \<in> set (owned p)")
    case True
    with assms(8) q show ?thesis by simp
  next
    case False
    with assms(6) have "fs_get fs' q = fs_get fs q" by blast
    moreover have "q \<notin> set (all_owned (as @ p # bs))" using q False by simp
    ultimately show ?thesis using assms(1) unfolding commit_base_def by metis
  qed
  moreover have "plain_at fs0 q \<and> fs_get fs0 q \<noteq> Some DirNode \<and> fs_get fs' q \<noteq> Some DirNode"
    if q: "q \<in> set (all_owned (as @ p' # bs))" for q
  proof -
    have o: "q \<in> set (all_owned (as @ p # bs))" using q assms(3) by auto
    moreover have "fs_get fs' q \<noteq> Some DirNode"
      using assms(6,7) o assms(1) unfolding commit_base_def by metis
    ultimately show ?thesis using assms(1) by (simp add: commit_base_def)
  qed
  moreover have "fs_get fs0 q = None" if "r \<in> set (as @ p' # bs)" "q \<in> set (staged_paths r)" for r q
    using that assms(1,5) by (auto simp: commit_base_def)
  ultimately show ?thesis using assms(1,2) by (simp add: commit_base_def)
qed

text \<open>
  What stands at one pending file: staged but not published, or published; and its restore, a
  copy of what was there.  \<^verbatim>\<open>W\<close> gives what is to be written.
\<close>

definition restorable :: "fs \<Rightarrow> fs \<Rightarrow> pending_backup \<Rightarrow> bool" where
  "restorable fs0 fs p \<longleftrightarrow> (case pb_restore p of
      None \<Rightarrow> \<not> pb_existed p \<and> fs_get fs0 (pb_path p) = None
    | Some r \<Rightarrow> sf_path r \<noteq> [] \<and> (\<exists>d m. fs_get fs0 (pb_path p) = Some (FileNode d m) \<and>
        fs_get fs (sf_path r) = Some (FileNode d m)))"

definition unpublished :: "(path \<rightharpoonup> node) \<Rightarrow> fs \<Rightarrow> fs \<Rightarrow> pending_backup \<Rightarrow> bool" where
  "unpublished W fs0 fs p \<longleftrightarrow> \<not> pb_published p \<and> fs_get fs (pb_path p) = fs_get fs0 (pb_path p) \<and>
     sf_path (pb_replacement p) \<noteq> [] \<and> (\<exists>d m. W (pb_path p) = Some (FileNode d m) \<and>
       fs_get fs (sf_path (pb_replacement p)) = Some (FileNode d m)) \<and> restorable fs0 fs p"

definition published :: "(path \<rightharpoonup> node) \<Rightarrow> fs \<Rightarrow> fs \<Rightarrow> pending_backup \<Rightarrow> bool" where
  "published W fs0 fs p \<longleftrightarrow> pb_published p \<and> fs_get fs (pb_path p) = W (pb_path p) \<and>
     sf_path (pb_replacement p) = [] \<and> (\<exists>d m. W (pb_path p) = Some (FileNode d m)) \<and> restorable fs0 fs p"

definition restored :: "fs \<Rightarrow> fs \<Rightarrow> pending_backup \<Rightarrow> bool" where
  "restored fs0 fs p \<longleftrightarrow> fs_get fs (pb_path p) = fs_get fs0 (pb_path p)"

lemma staged_owned:
  "sf_path (pb_replacement p) \<noteq> [] \<Longrightarrow> sf_path (pb_replacement p) \<in> set (owned p)"
  "pb_restore p = Some r \<Longrightarrow> sf_path r \<noteq> [] \<Longrightarrow> sf_path r \<in> set (owned p)"
  "pb_path p \<in> set (owned p)"
  by (auto simp: owned_def staged_paths_def file_staged_def)

lemma slot_frame:
  assumes "\<And>q. q \<in> set (owned p) \<Longrightarrow> fs_get fs' q = fs_get fs q"
  shows "unpublished W fs0 fs' p \<longleftrightarrow> unpublished W fs0 fs p" "published W fs0 fs' p \<longleftrightarrow> published W fs0 fs p"
    and "restored fs0 fs' p \<longleftrightarrow> restored fs0 fs p"
proof -
  have r: "restorable fs0 fs' p \<longleftrightarrow> restorable fs0 fs p"
    using assms staged_owned(2) by (auto simp: restorable_def split: option.split)
  show "unpublished W fs0 fs' p \<longleftrightarrow> unpublished W fs0 fs p"
    using assms staged_owned(1) [of p] staged_owned(3) [of p] r by (auto simp: unpublished_def)
  show "published W fs0 fs' p \<longleftrightarrow> published W fs0 fs p" "restored fs0 fs' p \<longleftrightarrow> restored fs0 fs p"
    using assms staged_owned(3) [of p] r by (auto simp: published_def restored_def)
qed

subsection \<open>Publishing and restoring one file\<close>

text \<open>A call of \<^verbatim>\<open>replace\<close> renames, or fails with nothing changed.\<close>

definition atomic_replace :: "commit_env \<Rightarrow> bool" where
  "atomic_replace C \<longleftrightarrow> (\<forall>n a b fs. ce_replace C n a b fs = fs_rename a b fs \<or> (\<exists>e. ce_replace C n a b fs = (Inl e, fs)))"

definition renames :: "commit_env \<Rightarrow> bool" where
  "renames C \<longleftrightarrow> (\<forall>n a b fs. ce_replace C n a b fs = fs_rename a b fs)"

lemma owned_distinct: "commit_base fs0 fs (as @ p # bs) \<Longrightarrow> distinct (owned p)"
  by (simp add: commit_base_def)

lemma replace_step:
  assumes "atomic_replace C" "commit_base fs0 fs ps" "a \<in> set (all_owned ps)" "b \<in> set (all_owned ps)" "a \<noteq> b"
    and "fs_get fs a = Some (FileNode d m)"
  shows "(\<exists>e. ce_replace C n a b fs = (Inl e, fs) \<and> \<not> renames C) \<or>
    (\<exists>fs'. ce_replace C n a b fs = (Inr (), fs') \<and> fs_wf fs' \<and>
      (\<forall>q. fs_get fs' q = (if q = b then Some (FileNode d m) else if q = a then None else fs_get fs q)))"
proof -
  obtain fs' where "fs_rename a b fs = (Inr (), fs')" "fs_wf fs'"
      "\<forall>q. fs_get fs' q = (if q = b then Some (FileNode d m) else if q = a then None else fs_get fs q)"
    using move_file [OF commit_base_plain(3) [OF assms(2,3)] commit_base_plain(1) [OF assms(2,3)]
        commit_base_plain(1) [OF assms(2,4)] assms(5,6) commit_base_plain(2) [OF assms(2,4)]] by blast
  with assms(1) show ?thesis unfolding atomic_replace_def renames_def by (metis Inl_Inr_False prod.inject)
qed

lemma replacement_facts:
  assumes "distinct (owned p)" "sf_path (pb_replacement p) \<noteq> []"
  shows "sf_path (pb_replacement p) \<noteq> pb_path p"
    and "pb_restore p = Some r \<Longrightarrow> sf_path r \<noteq> sf_path (pb_replacement p)"
  using assms by (auto simp: owned_def staged_paths_def file_staged_def split: if_splits)

lemma restore_facts:
  assumes "distinct (owned p)" "pb_restore p = Some r" "sf_path r \<noteq> []"
  shows "sf_path r \<noteq> pb_path p"
  using assms by (auto simp: owned_def staged_paths_def file_staged_def split: if_splits)

definition cleared :: "'a pending_backup_scheme \<Rightarrow> 'a pending_backup_scheme" where
  "cleared p = p\<lparr>pb_replacement := \<lparr>sf_path = []\<rparr>, pb_published := True\<rparr>"

lemma cleared_slot:
  "pb_path (cleared p) = pb_path p" "sf_path (pb_replacement (cleared p)) = []" "pb_restore (cleared p) = pb_restore p"
  "pb_existed (cleared p) = pb_existed p" "pb_published (cleared p)"
  by (simp_all add: cleared_def)

lemma owned_cleared:
  assumes "distinct (owned (slot p))"
  shows "set (owned (slot (cleared p))) = set (owned (slot p)) - {sf_path (pb_replacement p)} \<union> {pb_path p}"
    and "distinct (owned (slot (cleared p)))"
    and "set (staged_paths (slot (cleared p))) \<subseteq> set (staged_paths (slot p))"
  using assms by (auto simp: owned_def staged_paths_def file_staged_def cleared_slot split: option.splits if_splits)

lemma publish_file_step:
  assumes "atomic_replace C" "commit_base fs0 fs (as @ slot p # bs)" "unpublished W fs0 fs (slot p)"
  shows "\<exists>x n' fs'. publish_file C p (n, fs) = (x, n', fs') \<and>
    (\<forall>q. q \<notin> set (owned (slot p)) \<longrightarrow> fs_get fs' q = fs_get fs q) \<and>
    (case x of Inl e \<Rightarrow> fs' = fs \<and> \<not> renames C
     | Inr p' \<Rightarrow> p' = cleared p \<and> commit_base fs0 fs' (as @ slot p' # bs) \<and> published W fs0 fs' (slot p'))"
proof -
  let ?a = "sf_path (pb_replacement p)" and ?b = "pb_path p"
  note dist = owned_distinct [OF assms(2)]
  obtain d m where a: "?a \<noteq> []" "W ?b = Some (FileNode d m)" "fs_get fs ?a = Some (FileNode d m)"
      and r: "restorable fs0 fs (slot p)"
    using assms(3) by (auto simp: unpublished_def)
  have own: "?a \<in> set (owned (slot p))" "?b \<in> set (owned (slot p))"
    using staged_owned(1) [of "slot p"] staged_owned(3) [of "slot p"] a(1) by simp_all
  then have all: "?a \<in> set (all_owned (as @ slot p # bs))" "?b \<in> set (all_owned (as @ slot p # bs))" by simp_all
  have ab: "?a \<noteq> ?b" using replacement_facts(1) [OF dist] a(1) by simp
  from replace_step [OF assms(1,2) all ab a(3), of n] show ?thesis
  proof (elim disjE exE conjE)
    fix e assume "ce_replace C n ?a ?b fs = (Inl e, fs)" "\<not> renames C"
    then show ?thesis by (simp add: publish_file_def cbind_def staged_publish_def)
  next
    fix fs' assume fs': "ce_replace C n ?a ?b fs = (Inr (), fs')" "fs_wf fs'"
      "\<forall>q. fs_get fs' q = (if q = ?b then Some (FileNode d m) else if q = ?a then None else fs_get fs q)"
    have run: "publish_file C p (n, fs) = (Inr (cleared p), Suc n, fs')"
      using fs'(1) by (simp add: publish_file_def cbind_def staged_publish_def cret_def cleared_def)
    have frame: "fs_get fs' q = fs_get fs q" if "q \<notin> set (owned (slot p))" for q
      using that own fs'(3) by auto
    have a0: "fs_get fs0 ?a = None"
      using assms(2) a(1) by (auto simp: commit_base_def staged_paths_def file_staged_def)
    have base: "commit_base fs0 fs' (as @ slot (cleared p) # bs)"
    proof (rule commit_base_step [OF assms(2) fs'(2)])
      show "set (owned (slot (cleared p))) \<subseteq> set (owned (slot p))" using owned_cleared(1) [OF dist] own(2) by auto
      show "fs_get fs' q \<noteq> Some DirNode" if "q \<in> set (owned (slot p))" for q
        using that fs'(3) commit_base_plain(2) [OF assms(2), of q] by auto
      show "fs_get fs' q = fs_get fs0 q" if "q \<in> set (owned (slot p))" "q \<notin> set (owned (slot (cleared p)))" for q
        using that owned_cleared(1) [OF dist] ab a0 fs'(3) by auto
    qed (use owned_cleared [OF dist] frame in auto)
    have "restorable fs0 fs' (slot (cleared p))"
      using r fs'(3) restore_facts [OF dist] replacement_facts(2) [OF dist] a(1)
      by (auto simp: restorable_def cleared_slot split: option.splits)
    then have "published W fs0 fs' (slot (cleared p))" using a(2) fs'(3) by (simp add: published_def cleared_slot)
    with run frame base show ?thesis by simp
  qed
qed

text \<open>A restored file: its restore is used up, or there was none.\<close>

definition undone :: "'a pending_backup_scheme \<Rightarrow> 'a pending_backup_scheme" where
  "undone p = (case pb_restore p of None \<Rightarrow> p | Some r \<Rightarrow> p\<lparr>pb_restore := Some \<lparr>sf_path = []\<rparr>\<rparr>)"

lemma owned_undone:
  assumes "distinct (owned (slot p))" "pb_restore p = Some r"
  shows "set (owned (slot (undone p))) = set (owned (slot p)) - {sf_path r} \<union> {pb_path p}"
    and "distinct (owned (slot (undone p)))" "set (staged_paths (slot (undone p))) \<subseteq> set (staged_paths (slot p))"
  using assms by (auto simp: owned_def staged_paths_def file_staged_def undone_def split: if_splits)

lemma restore_file_step:
  assumes "atomic_replace C" "commit_base fs0 fs (as @ slot p # bs)"
    and "unpublished W fs0 fs (slot p) \<or> published W fs0 fs (slot p)"
  shows "\<exists>e p' n' fs'. restore_file C p (n, fs) = (e, p', n', fs') \<and> (p' = p \<or> p' = undone p) \<and>
    (\<forall>q. q \<notin> set (owned (slot p)) \<longrightarrow> fs_get fs' q = fs_get fs q) \<and>
    commit_base fs0 fs' (as @ slot p' # bs) \<and> (e = None \<longrightarrow> restored fs0 fs' (slot p'))"
proof (cases "pb_published p")
  case False
  with assms(2,3) show ?thesis by (auto simp: restore_file_def published_def unpublished_def restored_def)
next
  case True
  with assms(3) have pub: "published W fs0 fs (slot p)" by (simp add: unpublished_def)
  note dist = owned_distinct [OF assms(2)]
  have own: "pb_path p \<in> set (owned (slot p))" using staged_owned(3) [of "slot p"] by simp
  then have all: "pb_path p \<in> set (all_owned (as @ slot p # bs))" by simp
  show ?thesis
  proof (cases "pb_restore p")
    case None
    with pub have ex: "\<not> pb_existed p" "fs_get fs0 (pb_path p) = None" by (auto simp: published_def restorable_def)
    obtain x fs' where fs': "remove_file (pb_path p) fs = (x, fs')" "fs_wf fs'" "x = Inr () \<or> x = Inl NotFound"
        "\<forall>q. fs_get fs' q = (if q = pb_path p then None else fs_get fs q)"
      using remove_file_plain [OF commit_base_plain(3,1,2) [OF assms(2) all]] by blast
    have run: "restore_file C p (n, fs) = (None, p, n, fs')"
      using True None ex fs'(1,3) by (auto simp: restore_file_def on_fs_def remove_if_exists_def)
    have base: "commit_base fs0 fs' (as @ slot p # bs)"
      by (rule commit_base_step [OF assms(2) fs'(2)])
        (use dist own fs'(4) commit_base_plain(2) [OF assms(2)] in auto)
    show ?thesis using run base fs'(4) own ex(2) by (auto simp: restored_def)
  next
    case (Some r)
    let ?a = "sf_path r" and ?b = "pb_path p"
    obtain d m where a: "?a \<noteq> []" "fs_get fs0 ?b = Some (FileNode d m)" "fs_get fs ?a = Some (FileNode d m)"
      using pub Some by (auto simp: published_def restorable_def)
    have own2: "?a \<in> set (owned (slot p))" using staged_owned(2) [of "slot p" r] Some a(1) by simp
    then have all2: "?a \<in> set (all_owned (as @ slot p # bs))" by simp
    have ab: "?a \<noteq> ?b" using restore_facts [OF dist] Some a(1) by simp
    from replace_step [OF assms(1,2) all2 all ab a(3), of n] show ?thesis
    proof (elim disjE exE conjE)
      fix e assume "ce_replace C n ?a ?b fs = (Inl e, fs)" "\<not> renames C"
      then show ?thesis using True Some assms(2) by (simp add: restore_file_def staged_publish_def)
    next
      fix fs' assume fs': "ce_replace C n ?a ?b fs = (Inr (), fs')" "fs_wf fs'"
        "\<forall>q. fs_get fs' q = (if q = ?b then Some (FileNode d m) else if q = ?a then None else fs_get fs q)"
      have run: "restore_file C p (n, fs) = (None, undone p, Suc n, fs')"
        using True Some fs'(1) by (simp add: restore_file_def staged_publish_def undone_def)
      have a0: "fs_get fs0 ?a = None"
        using assms(2) a(1) Some by (auto simp: commit_base_def staged_paths_def file_staged_def)
      have frame: "fs_get fs' q = fs_get fs q" if "q \<notin> set (owned (slot p))" for q
        using that own own2 fs'(3) by auto
      have base: "commit_base fs0 fs' (as @ slot (undone p) # bs)"
      proof (rule commit_base_step [OF assms(2) fs'(2)])
        show "set (owned (slot (undone p))) \<subseteq> set (owned (slot p))" using owned_undone(1) [OF dist Some] own by auto
        show "fs_get fs' q \<noteq> Some DirNode" if "q \<in> set (owned (slot p))" for q
          using that fs'(3) commit_base_plain(2) [OF assms(2), of q] by auto
        show "fs_get fs' q = fs_get fs0 q" if "q \<in> set (owned (slot p))" "q \<notin> set (owned (slot (undone p)))" for q
          using that owned_undone(1) [OF dist Some] ab a0 fs'(3) by auto
      qed (use owned_undone [OF dist Some] frame in auto)
      show ?thesis using run base frame fs'(3) a(2) Some by (auto simp: restored_def undone_def)
    qed
  qed
qed

subsection \<open>Publishing all\<close>

definition backup_slots :: "pending_write \<Rightarrow> pending_backup list" where
  "backup_slots p = (case pw_backup p of None \<Rightarrow> [] | Some b \<Rightarrow> [b])"

lemma slots_split: "slots p = backup_slots p @ [slot p]"
  by (simp add: slots_def backup_slots_def)

lemma backup_slots_simps [simp]:
  "backup_slots (cleared p) = backup_slots p" "backup_slots (undone p) = backup_slots p"
  "backup_slots (p\<lparr>pw_backup := Some b\<rparr>) = [b]" "slot (p\<lparr>pw_backup := Some b\<rparr>) = slot p"
  by (auto simp: backup_slots_def cleared_def undone_def pending_backup.truncate_def split: option.split)

lemma slot_path [simp]: "pb_path (cleared p) = pb_path p" "pb_path (undone p) = pb_path p"
  by (simp_all add: cleared_def undone_def split: option.split)

lemma base_frame:
  assumes "commit_base fs0 fs (as @ ps @ bs)" "\<And>q. q \<notin> set (all_owned ps) \<Longrightarrow> fs_get fs' q = fs_get fs q"
    and "s \<in> set as \<union> set bs" "q \<in> set (owned s)"
  shows "fs_get fs' q = fs_get fs q"
proof -
  have "q \<in> set (all_owned as) \<or> q \<in> set (all_owned bs)" using assms(3,4) by (auto simp: all_owned_def)
  moreover have "distinct (all_owned as @ all_owned ps @ all_owned bs)" using assms(1) by (simp add: commit_base_def)
  ultimately have "q \<notin> set (all_owned ps)" by auto
  with assms(2) show ?thesis by blast
qed

lemma base_frame1:
  assumes "commit_base fs0 fs (as @ p # bs)" "\<And>q. q \<notin> set (owned p) \<Longrightarrow> fs_get fs' q = fs_get fs q"
    and "s \<in> set as \<union> set bs" "q \<in> set (owned s)"
  shows "fs_get fs' q = fs_get fs q"
  using base_frame [of fs0 fs as "[p]" bs fs' s q] assms by simp

lemma publish_main:
  assumes "atomic_replace C" "commit_base fs0 fs (as @ slots p @ bs)" "unpublished W fs0 fs (slot p)"
    and "\<forall>b \<in> set (backup_slots p). published W fs0 fs b"
  shows "\<exists>x n' fs'. publish_file C p (n, fs) = (x, n', fs') \<and>
    (\<forall>q. q \<notin> set (owned (slot p)) \<longrightarrow> fs_get fs' q = fs_get fs q) \<and>
    (case x of Inl e \<Rightarrow> fs' = fs \<and> \<not> renames C
     | Inr p' \<Rightarrow> p' = cleared p \<and> commit_base fs0 fs' (as @ slots p' @ bs) \<and>
         (\<forall>s \<in> set (slots p'). published W fs0 fs' s))"
proof -
  have base: "commit_base fs0 fs ((as @ backup_slots p) @ slot p # bs)" using assms(2) by (simp add: slots_split)
  obtain x n' fs' where r: "publish_file C p (n, fs) = (x, n', fs')"
      and frame: "\<forall>q. q \<notin> set (owned (slot p)) \<longrightarrow> fs_get fs' q = fs_get fs q"
      and c: "case x of Inl e \<Rightarrow> fs' = fs \<and> \<not> renames C
        | Inr p' \<Rightarrow> p' = cleared p \<and> commit_base fs0 fs' ((as @ backup_slots p) @ slot p' # bs) \<and> published W fs0 fs' (slot p')"
    using publish_file_step [OF assms(1) base assms(3)] by blast
  have b: "published W fs0 fs' s" if "s \<in> set (backup_slots p)" for s
  proof -
    have "fs_get fs' q = fs_get fs q" if "q \<in> set (owned s)" for q
      using base_frame1 [OF base, of fs' s q] frame that \<open>s \<in> set (backup_slots p)\<close> by auto
    from slot_frame(2) [OF this] assms(4) that show ?thesis by blast
  qed
  show ?thesis using r frame c b by (auto simp: slots_split split: sum.splits)
qed

lemma publish_item_step:
  assumes "atomic_replace C" "commit_base fs0 fs (as @ slots p @ bs)" "\<forall>s \<in> set (slots p). unpublished W fs0 fs s"
  shows "\<exists>e p' n' fs'. publish_item C p (n, fs) = (e, p', n', fs') \<and> commit_base fs0 fs' (as @ slots p' @ bs) \<and>
    (\<forall>q. q \<notin> set (all_owned (slots p)) \<longrightarrow> fs_get fs' q = fs_get fs q) \<and>
    (\<forall>s \<in> set (slots p'). unpublished W fs0 fs' s \<or> published W fs0 fs' s) \<and>
    (e = None \<longrightarrow> (\<forall>s \<in> set (slots p'). published W fs0 fs' s)) \<and> (e \<noteq> None \<longrightarrow> \<not> renames C) \<and>
    map pb_path (slots p') = map pb_path (slots p)"
proof (cases "pw_backup p")
  case None
  have bs: "backup_slots p = []" using None by (simp add: backup_slots_def)
  have un: "unpublished W fs0 fs (slot p)" using assms(3) by (simp add: slots_split)
  obtain x n' fs' where r: "publish_file C p (n, fs) = (x, n', fs')"
      and frame: "\<forall>q. q \<notin> set (owned (slot p)) \<longrightarrow> fs_get fs' q = fs_get fs q"
      and c: "case x of Inl e \<Rightarrow> fs' = fs \<and> \<not> renames C
        | Inr p' \<Rightarrow> p' = cleared p \<and> commit_base fs0 fs' (as @ slots p' @ bs) \<and> (\<forall>s \<in> set (slots p'). published W fs0 fs' s)"
    using publish_main [OF assms(1,2) un, of n] bs by auto
  show ?thesis
  proof (cases x)
    case (Inl e)
    then show ?thesis using r c assms(2,3) None by (simp add: publish_item_def Let_def)
  next
    case (Inr p')
    then show ?thesis using r c frame None bs by (auto simp add: publish_item_def Let_def slots_split)
  qed
next
  case (Some b)
  have bs: "backup_slots p = [b]" using Some by (simp add: backup_slots_def)
  have un: "unpublished W fs0 fs b" "unpublished W fs0 fs (slot p)" using assms(3) bs by (simp_all add: slots_split)
  have base: "commit_base fs0 fs (as @ slot b # slot p # bs)" using assms(2) bs by (simp add: slots_split)
  have un': "unpublished W fs0 fs (slot b)" using un(1) by simp
  obtain x n1 fs1 where r: "publish_file C b (n, fs) = (x, n1, fs1)"
      and frame: "\<forall>q. q \<notin> set (owned b) \<longrightarrow> fs_get fs1 q = fs_get fs q"
      and c: "case x of Inl e \<Rightarrow> fs1 = fs \<and> \<not> renames C
        | Inr p' \<Rightarrow> p' = cleared b \<and> commit_base fs0 fs1 (as @ p' # slot p # bs) \<and> published W fs0 fs1 p'"
    using publish_file_step [OF assms(1) base un', of n] unfolding slot_id by blast
  show ?thesis
  proof (cases x)
    case (Inl e)
    with r c assms(2,3) Some show ?thesis by (simp add: publish_item_def Let_def)
  next
    case (Inr b')
    let ?p = "p\<lparr>pw_backup := Some b'\<rparr>"
    have base1: "commit_base fs0 fs1 (as @ slots ?p @ bs)" using Inr c by (auto simp: slots_split)
    have "fs_get fs1 q = fs_get fs q" if "q \<in> set (owned (slot p))" for q
      using base_frame1 [of fs0 fs as b "slot p # bs" fs1 "slot p" q] base frame that by simp
    then have "unpublished W fs0 fs1 (slot ?p)" using slot_frame(1) [of "slot p" fs1 fs W fs0] un(2) by simp
    moreover have "\<forall>b \<in> set (backup_slots ?p). published W fs0 fs1 b" using Inr c by auto
    ultimately obtain y n2 fs2 where r2: "publish_file C ?p (n1, fs1) = (y, n2, fs2)"
        and frame2: "\<forall>q. q \<notin> set (owned (slot ?p)) \<longrightarrow> fs_get fs2 q = fs_get fs1 q"
        and c2: "case y of Inl e \<Rightarrow> fs2 = fs1 \<and> \<not> renames C
          | Inr p' \<Rightarrow> p' = cleared ?p \<and> commit_base fs0 fs2 (as @ slots p' @ bs) \<and> (\<forall>s \<in> set (slots p'). published W fs0 fs2 s)"
      using publish_main [OF assms(1) base1, of W n1] by blast
    have fr: "\<forall>q. q \<notin> set (all_owned (slots p)) \<longrightarrow> fs_get fs2 q = fs_get fs q"
      using frame frame2 bs by (simp add: slots_split)
    show ?thesis
    proof (cases y)
      case (Inl e)
      have run: "publish_item C p (n, fs) = (Some e, ?p, n2, fs1)"
        using Some r \<open>x = Inr b'\<close> r2 Inl c2 by (simp add: publish_item_def Let_def)
      have "unpublished W fs0 fs1 (slot p)" using \<open>unpublished W fs0 fs1 (slot ?p)\<close> by simp
      then show ?thesis using run base1 fr Inl c2 \<open>x = Inr b'\<close> c bs
        by (auto simp: slots_split)
    next
      case (Inr p')
      have run: "publish_item C p (n, fs) = (None, p', n2, fs2)"
        using Some r \<open>x = Inr b'\<close> r2 Inr by (simp add: publish_item_def Let_def)
      show ?thesis using run fr Inr c2 \<open>x = Inr b'\<close> c bs by (auto simp: slots_split)
    qed
  qed
qed

definition all_slots :: "pending_write list \<Rightarrow> pending_backup list" where
  "all_slots ps = concat (map slots ps)"

lemma all_slots_simps [simp]:
  "all_slots [] = []" "all_slots (p # ps) = slots p @ all_slots ps" "all_slots (ps @ qs) = all_slots ps @ all_slots qs"
  by (simp_all add: all_slots_def)

lemma publish_all_step:
  assumes "atomic_replace C" "commit_base fs0 fs (as @ all_slots ps)" "\<forall>s \<in> set (all_slots ps). unpublished W fs0 fs s"
  shows "\<exists>e ps' n' fs'. publish_all C ps (n, fs) = (e, ps', n', fs') \<and> commit_base fs0 fs' (as @ all_slots ps') \<and>
    (\<forall>q. q \<notin> set (all_owned (all_slots ps)) \<longrightarrow> fs_get fs' q = fs_get fs q) \<and>
    (\<forall>s \<in> set (all_slots ps'). unpublished W fs0 fs' s \<or> published W fs0 fs' s) \<and>
    (e = None \<longrightarrow> (\<forall>s \<in> set (all_slots ps'). published W fs0 fs' s)) \<and> (e \<noteq> None \<longrightarrow> \<not> renames C) \<and>
    map pb_path (all_slots ps') = map pb_path (all_slots ps)"
  using assms(2,3)
proof (induction ps arbitrary: as n fs)
  case Nil
  then show ?case by simp
next
  case (Cons p ps)
  have base: "commit_base fs0 fs (as @ slots p @ all_slots ps)" using Cons.prems(1) by simp
  have un: "\<forall>s \<in> set (slots p). unpublished W fs0 fs s" using Cons.prems(2) by simp
  obtain e p' n1 fs1 where r: "publish_item C p (n, fs) = (e, p', n1, fs1)"
      and base1: "commit_base fs0 fs1 (as @ slots p' @ all_slots ps)"
      and fr: "\<forall>q. q \<notin> set (all_owned (slots p)) \<longrightarrow> fs_get fs1 q = fs_get fs q"
      and st: "\<forall>s \<in> set (slots p'). unpublished W fs0 fs1 s \<or> published W fs0 fs1 s"
      and ok: "e = None \<longrightarrow> (\<forall>s \<in> set (slots p'). published W fs0 fs1 s)" and en: "e \<noteq> None \<longrightarrow> \<not> renames C"
      and paths: "map pb_path (slots p') = map pb_path (slots p)"
    using publish_item_step [OF assms(1) base un, of n] by blast
  have rest: "\<forall>s \<in> set (all_slots ps). unpublished W fs0 fs1 s"
  proof
    fix s assume s: "s \<in> set (all_slots ps)"
    have "fs_get fs1 q = fs_get fs q" if "q \<in> set (owned s)" for q
      using base_frame [OF base, of fs1 s q] fr s that by blast
    from slot_frame(1) [OF this] Cons.prems(2) s show "unpublished W fs0 fs1 s" by simp
  qed
  show ?case
  proof (cases e)
    case (Some e')
    with r base1 fr st rest paths en show ?thesis by auto
  next
    case None
    have base2: "commit_base fs0 fs1 ((as @ slots p') @ all_slots ps)" using base1 by simp
    obtain e2 ps' n2 fs2 where r2: "publish_all C ps (n1, fs1) = (e2, ps', n2, fs2)"
        and base3: "commit_base fs0 fs2 ((as @ slots p') @ all_slots ps')"
        and fr2: "\<forall>q. q \<notin> set (all_owned (all_slots ps)) \<longrightarrow> fs_get fs2 q = fs_get fs1 q"
        and st2: "\<forall>s \<in> set (all_slots ps'). unpublished W fs0 fs2 s \<or> published W fs0 fs2 s"
        and ok2: "e2 = None \<longrightarrow> (\<forall>s \<in> set (all_slots ps'). published W fs0 fs2 s)" and en2: "e2 \<noteq> None \<longrightarrow> \<not> renames C"
        and paths2: "map pb_path (all_slots ps') = map pb_path (all_slots ps)"
      using Cons.IH [OF base2 rest, of n1] by blast
    have pub: "published W fs0 fs2 s" if s: "s \<in> set (slots p')" for s
    proof -
      have "fs_get fs2 q = fs_get fs1 q" if "q \<in> set (owned s)" for q
        using base_frame [of fs0 fs1 "as @ slots p'" "all_slots ps" "[]" fs2 s q] base2 fr2 s that by simp
      from slot_frame(2) [OF this] ok None s show ?thesis by blast
    qed
    have run: "publish_all C (p # ps) (n, fs) = (e2, p' # ps', n2, fs2)" using r r2 None by simp
    show ?thesis using run base3 fr fr2 st2 ok2 en2 pub paths paths2 by auto
  qed
qed

subsection \<open>Rolling back all\<close>

lemma first_error_None [simp]: "first_error a b = None \<longleftrightarrow> a = None \<and> b = None"
  by (simp add: first_error_def split: option.split)

lemma rollback_item_step:
  assumes "atomic_replace C" "commit_base fs0 fs (as @ slots p @ bs)"
    and "\<forall>s \<in> set (slots p). unpublished W fs0 fs s \<or> published W fs0 fs s"
  shows "\<exists>e p' n' fs'. rollback_item C p (n, fs) = (e, p', n', fs') \<and> commit_base fs0 fs' (as @ slots p' @ bs) \<and>
    (\<forall>q. q \<notin> set (all_owned (slots p)) \<longrightarrow> fs_get fs' q = fs_get fs q) \<and>
    (e = None \<longrightarrow> (\<forall>s \<in> set (slots p'). restored fs0 fs' s)) \<and> map pb_path (slots p') = map pb_path (slots p)"
proof -
  have base: "commit_base fs0 fs ((as @ backup_slots p) @ slot p # bs)" using assms(2) by (simp add: slots_split)
  have st: "unpublished W fs0 fs (slot p) \<or> published W fs0 fs (slot p)" using assms(3) by (simp add: slots_split)
  obtain e p1 n1 fs1 where r: "restore_file C p (n, fs) = (e, p1, n1, fs1)" and p1: "p1 = p \<or> p1 = undone p"
      and fr: "\<forall>q. q \<notin> set (owned (slot p)) \<longrightarrow> fs_get fs1 q = fs_get fs q"
      and base1: "commit_base fs0 fs1 ((as @ backup_slots p) @ slot p1 # bs)"
      and ok: "e = None \<longrightarrow> restored fs0 fs1 (slot p1)"
    using restore_file_step [OF assms(1) base st, of n] by blast
  have bk: "pw_backup p1 = pw_backup p" using p1 by (auto simp: undone_def split: option.split)
  have path1: "pb_path (slot p1) = pb_path (slot p)" using p1 by auto
  show ?thesis
  proof (cases "pw_backup p")
    case None
    have bs: "backup_slots p1 = []" "backup_slots p = []" using None bk by (simp_all add: backup_slots_def)
    have run: "rollback_item C p (n, fs) = (e, p1, n1, fs1)" using r None bk by (simp add: rollback_item_def)
    show ?thesis using run base1 fr ok path1 bs by (simp add: slots_split)
  next
    case (Some b)
    have bs: "backup_slots p1 = [b]" "backup_slots p = [b]" using Some bk by (simp_all add: backup_slots_def)
    have "fs_get fs1 q = fs_get fs q" if "q \<in> set (owned b)" for q
      using base_frame1 [OF base, of fs1 b q] fr that bs by simp
    then have st2: "unpublished W fs0 fs1 (slot b) \<or> published W fs0 fs1 (slot b)"
      using slot_frame(1,2) [of b fs1 fs W fs0] assms(3) bs by (auto simp: slots_split)
    have base2: "commit_base fs0 fs1 (as @ slot b # slot p1 # bs)" using base1 bs by simp
    obtain e2 b' n2 fs2 where r2: "restore_file C b (n1, fs1) = (e2, b', n2, fs2)" and b': "b' = b \<or> b' = undone b"
        and fr2: "\<forall>q. q \<notin> set (owned b) \<longrightarrow> fs_get fs2 q = fs_get fs1 q"
        and base3: "commit_base fs0 fs2 (as @ b' # slot p1 # bs)"
        and ok2: "e2 = None \<longrightarrow> restored fs0 fs2 b'"
      using restore_file_step [OF assms(1) base2 st2, of n1] unfolding slot_id by blast
    have "fs_get fs2 q = fs_get fs1 q" if "q \<in> set (owned (slot p1))" for q
      using base_frame1 [of fs0 fs1 as b "slot p1 # bs" fs2 "slot p1" q] base2 fr2 that by simp
    then have ok1: "e = None \<longrightarrow> restored fs0 fs2 (slot p1)" using slot_frame(3) [of "slot p1" fs2 fs1 fs0] ok by simp
    let ?p = "p1\<lparr>pw_backup := Some b'\<rparr>"
    have run: "rollback_item C p (n, fs) = (first_error e e2, ?p, n2, fs2)"
      using r r2 Some bk by (simp add: rollback_item_def)
    have path2: "pb_path b' = pb_path b" using b' by auto
    show ?thesis using run base3 fr fr2 ok1 ok2 path1 path2 bs by (simp add: slots_split)
  qed
qed

lemma rollback_step:
  assumes "atomic_replace C" "commit_base fs0 fs (as @ all_slots ps)"
    and "\<forall>s \<in> set (all_slots ps). unpublished W fs0 fs s \<or> published W fs0 fs s"
  shows "\<exists>e ps' n' fs'. rollback C ps (n, fs) = (e, ps', n', fs') \<and> commit_base fs0 fs' (as @ all_slots ps') \<and>
    (\<forall>q. q \<notin> set (all_owned (all_slots ps)) \<longrightarrow> fs_get fs' q = fs_get fs q) \<and>
    (e = None \<longrightarrow> (\<forall>s \<in> set (all_slots ps'). restored fs0 fs' s)) \<and>
    map pb_path (all_slots ps') = map pb_path (all_slots ps)"
  using assms(2,3)
proof (induction ps arbitrary: as n fs)
  case Nil
  then show ?case by simp
next
  case (Cons p ps)
  have base: "commit_base fs0 fs (as @ slots p @ all_slots ps)" using Cons.prems(1) by simp
  have un: "\<forall>s \<in> set (slots p). unpublished W fs0 fs s \<or> published W fs0 fs s" using Cons.prems(2) by simp
  obtain e p' n1 fs1 where r: "rollback_item C p (n, fs) = (e, p', n1, fs1)"
      and base1: "commit_base fs0 fs1 (as @ slots p' @ all_slots ps)"
      and fr: "\<forall>q. q \<notin> set (all_owned (slots p)) \<longrightarrow> fs_get fs1 q = fs_get fs q"
      and ok: "e = None \<longrightarrow> (\<forall>s \<in> set (slots p'). restored fs0 fs1 s)"
      and paths: "map pb_path (slots p') = map pb_path (slots p)"
    using rollback_item_step [OF assms(1) base un, of n] by blast
  have rest: "\<forall>s \<in> set (all_slots ps). unpublished W fs0 fs1 s \<or> published W fs0 fs1 s"
  proof
    fix s assume s: "s \<in> set (all_slots ps)"
    have "fs_get fs1 q = fs_get fs q" if "q \<in> set (owned s)" for q
      using base_frame [OF base, of fs1 s q] fr s that by blast
    from slot_frame(1,2) [OF this] Cons.prems(2) s show "unpublished W fs0 fs1 s \<or> published W fs0 fs1 s" by simp
  qed
  have base2: "commit_base fs0 fs1 ((as @ slots p') @ all_slots ps)" using base1 by simp
  obtain e2 ps' n2 fs2 where r2: "rollback C ps (n1, fs1) = (e2, ps', n2, fs2)"
      and base3: "commit_base fs0 fs2 ((as @ slots p') @ all_slots ps')"
      and fr2: "\<forall>q. q \<notin> set (all_owned (all_slots ps)) \<longrightarrow> fs_get fs2 q = fs_get fs1 q"
      and ok2: "e2 = None \<longrightarrow> (\<forall>s \<in> set (all_slots ps'). restored fs0 fs2 s)"
      and paths2: "map pb_path (all_slots ps') = map pb_path (all_slots ps)"
    using Cons.IH [OF base2 rest, of n1] by blast
  have rb: "e = None \<longrightarrow> restored fs0 fs2 s" if s: "s \<in> set (slots p')" for s
  proof -
    have "fs_get fs2 q = fs_get fs1 q" if "q \<in> set (owned s)" for q
      using base_frame [of fs0 fs1 "as @ slots p'" "all_slots ps" "[]" fs2 s q] base2 fr2 s that by simp
    from slot_frame(3) [OF this] ok s show ?thesis by blast
  qed
  have run: "rollback C (p # ps) (n, fs) = (first_error e e2, p' # ps', n2, fs2)" using r r2 by simp
  show ?case using run base3 fr fr2 ok2 rb paths paths2 by auto
qed

subsection \<open>Dropping the staged files\<close>

lemma staged_drop_step:
  assumes "fs_wf fs" "sf_path f \<noteq> [] \<Longrightarrow> plain_at fs (sf_path f) \<and> fs_get fs (sf_path f) \<noteq> Some DirNode"
  shows "\<exists>fs'. staged_drop f (n, fs) = (n, fs') \<and> fs_wf fs' \<and>
    (\<forall>q. fs_get fs' q = (if q = sf_path f \<and> q \<noteq> [] then None else fs_get fs q))"
proof (cases "sf_path f = []")
  case True
  with assms(1) show ?thesis by (simp add: staged_drop_def)
next
  case False
  with remove_file_plain [OF assms(1), of "sf_path f"] assms(2) show ?thesis
    by (force simp: staged_drop_def on_fs_def)
qed

lemma drop_all_step:
  assumes "fs_wf fs" "\<forall>f \<in> set files. sf_path f \<noteq> [] \<longrightarrow> plain_at fs (sf_path f) \<and> fs_get fs (sf_path f) \<noteq> Some DirNode"
  shows "\<exists>fs'. drop_all files (n, fs) = (n, fs') \<and> fs_wf fs' \<and>
    (\<forall>q. fs_get fs' q = (if q \<noteq> [] \<and> q \<in> sf_path ` set files then None else fs_get fs q))"
  using assms
proof (induction files arbitrary: fs)
  case Nil
  then show ?case by (simp add: drop_all_def)
next
  case (Cons f files)
  obtain fs1 where d1: "staged_drop f (n, fs) = (n, fs1)" "fs_wf fs1"
      "\<forall>q. fs_get fs1 q = (if q = sf_path f \<and> q \<noteq> [] then None else fs_get fs q)"
    using staged_drop_step [OF Cons.prems(1), of f n] Cons.prems(2) by auto
  have dirs: "fs_get fs1 q = Some DirNode" if "fs_get fs q = Some DirNode" for q
    using that d1(3) Cons.prems(2) by auto
  have "\<forall>g \<in> set files. sf_path g \<noteq> [] \<longrightarrow> plain_at fs1 (sf_path g) \<and> fs_get fs1 (sf_path g) \<noteq> Some DirNode"
    using Cons.prems(2) plain_at_same [of fs _ fs1, OF _ dirs] d1(3) by auto
  from Cons.IH [OF d1(2) this] obtain fs2 where d2: "drop_all files (n, fs1) = (n, fs2)" "fs_wf fs2"
      "\<forall>q. fs_get fs2 q = (if q \<noteq> [] \<and> q \<in> sf_path ` set files then None else fs_get fs1 q)"
    by blast
  have "drop_all (f # files) (n, fs) = (n, fs2)" using d1(1) d2(1) by (simp add: drop_all_def)
  with d1(3) d2(2,3) show ?case by auto
qed

end
