(* ===== verification/EsiCommitStage.thy ===== *)
theory EsiCommitStage
  imports EsiCommitFacts
begin

text \<open>
  The staging of a commit: every file it makes has a new name, a failure leaves nothing behind, and
  a success leaves the pending files ready to publish.
\<close>

subsection \<open>What a commit is to write\<close>

definition old_mode :: "fs \<Rightarrow> path \<Rightarrow> u32 option" where
  "old_mode fs p = (case fs_get fs p of Some (FileNode d m) \<Rightarrow> Some m | _ \<Rightarrow> None)"

definition or_mode :: "u32 \<Rightarrow> u32 option \<Rightarrow> u32" where
  "or_mode d m = (case m of Some m \<Rightarrow> m | None \<Rightarrow> d)"

text \<open>The target, with the mode it had, and the backup: the old content, with the mode of the old backup.\<close>

definition outputs :: "fs \<Rightarrow> document_write \<Rightarrow> (path \<times> node) list" where
  "outputs fs w =
     (let p = dw_path w; b = backup_path p in
      (p, FileNode (dw_contents w) (or_mode created_mode (old_mode fs p))) #
      (case fs_get fs p of
         Some (FileNode d m) \<Rightarrow> if dw_backup w then [(b, FileNode d (or_mode m (old_mode fs b)))] else []
       | _ \<Rightarrow> []))"

definition commit_target :: "commit_env \<Rightarrow> fs \<Rightarrow> path \<Rightarrow> bool" where
  "commit_target C fs p \<longleftrightarrow> plain_at fs p \<and> (\<forall>t. fs_get fs p \<noteq> Some (LinkNode t)) \<and>
     (\<forall>d m. fs_get fs p = Some (FileNode d m) \<longrightarrow> and m permission_bits = m) \<and> (\<forall>n. last p \<noteq> stage_name C n)"

definition names_below :: "commit_env \<Rightarrow> nat \<Rightarrow> pending_backup list \<Rightarrow> bool" where
  "names_below C n ss \<longleftrightarrow> (\<forall>q \<in> set (all_owned ss). \<forall>i \<ge> n. last q \<noteq> stage_name C i)"

lemma read_existing_cases:
  assumes "fs_wf fs" "plain_at fs p" "\<forall>t. fs_get fs p \<noteq> Some (LinkNode t)"
  shows "(\<exists>e. read_existing fs p = Inl e) \<or> (read_existing fs p = Inr None \<and> fs_get fs p = None) \<or>
    (\<exists>d m. read_existing fs p = Inr (Some \<lparr>ef_bytes = d, ef_permissions = m\<rparr>) \<and> fs_get fs p = Some (FileNode d m))"
proof -
  have t: "resolve_target fs p = Inr p" using plain_at_resolve(2) [OF assms(1,2)] assms(3) by blast
  have m: "metadata fs p = ok_or NotFound (fs_get fs p)" by (simp add: metadata_def t)
  show ?thesis
  proof (cases "fs_get fs p")
    case None
    then show ?thesis by (simp add: read_existing_def fs_read_def m)
  next
    case (Some n)
    then show ?thesis using assms(3) by (cases n) (simp_all add: read_existing_def fs_read_def m)
  qed
qed

definition existing_at :: "fs \<Rightarrow> path \<Rightarrow> existing_file option" where
  "existing_at fs p = (case fs_get fs p of Some (FileNode d m) \<Rightarrow> Some \<lparr>ef_bytes = d, ef_permissions = m\<rparr> | _ \<Rightarrow> None)"

lemma existing_mode: "map_option ef_permissions (existing_at fs p) = old_mode fs p"
  by (simp add: existing_at_def old_mode_def split: option.split node.split)

subsection \<open>One pending file\<close>

definition new_slot :: "path \<Rightarrow> path \<Rightarrow> staged_file option \<Rightarrow> pending_backup" where
  "new_slot p q r = \<lparr>pb_path = p, pb_replacement = \<lparr>sf_path = q\<rparr>, pb_restore = r, pb_existed = (r \<noteq> None), pb_published = False\<rparr>"

text \<open>Staging went from \<^verbatim>\<open>fs\<close> to \<^verbatim>\<open>fs'\<close>: the files \<^verbatim>\<open>qs\<close> are new, nothing else is changed.\<close>

definition only_staged :: "fs \<Rightarrow> fs \<Rightarrow> path set \<Rightarrow> bool" where
  "only_staged fs fs' qs \<longleftrightarrow> fs_wf fs' \<and> (\<forall>q. q \<notin> qs \<longrightarrow> fs_get fs' q = fs_get fs q) \<and>
     (\<forall>q \<in> qs. plain_at fs q \<and> fs_get fs q = None \<and> (\<exists>d m. fs_get fs' q = Some (FileNode d m)))"

lemma only_staged_trans:
  assumes "only_staged fs fs1 A" "only_staged fs1 fs2 B"
  shows "only_staged fs fs2 (A \<union> B)"
proof -
  have s1: "fs_get fs1 q = fs_get fs q" if "q \<notin> A" for q using assms(1) that by (simp add: only_staged_def)
  have s2: "fs_get fs2 q = fs_get fs1 q" if "q \<notin> B" for q using assms(2) that by (simp add: only_staged_def)
  have a: "plain_at fs q \<and> fs_get fs q = None \<and> (\<exists>d m. fs_get fs1 q = Some (FileNode d m))" if "q \<in> A" for q
    using assms(1) that by (simp add: only_staged_def)
  have b: "plain_at fs1 q \<and> fs_get fs1 q = None \<and> (\<exists>d m. fs_get fs2 q = Some (FileNode d m))" if "q \<in> B" for q
    using assms(2) that by (simp add: only_staged_def)
  have dirs: "fs_get fs q = Some DirNode" if "fs_get fs1 q = Some DirNode" for q
    using a [of q] s1 [of q] that by (cases "q \<in> A") auto
  have nb: "q \<notin> A" if "q \<in> B" for q using a [of q] b [OF that] by auto
  have "plain_at fs q \<and> fs_get fs q = None \<and> (\<exists>d m. fs_get fs2 q = Some (FileNode d m))" if q: "q \<in> A \<union> B" for q
  proof (cases "q \<in> B")
    case True
    with b [OF True] nb [OF True] s1 [of q] dirs show ?thesis by (auto simp: plain_at_def)
  next
    case False
    with q a [of q] s2 [of q] show ?thesis by auto
  qed
  moreover have "fs_wf fs2" using assms(2) by (simp add: only_staged_def)
  ultimately show ?thesis using s1 s2 by (simp add: only_staged_def)
qed

lemma stage_new:
  assumes "fs_wf fs" "plain_at fs p" "fresh_names C fs n"
  shows "\<exists>fs'. staged_file_new C p data m (n, fs) = (Inr \<lparr>sf_path = stage_path C n p\<rparr>, Suc n, fs') \<and>
    only_staged fs fs' {stage_path C n p} \<and> fs_get fs' (stage_path C n p) = Some (FileNode data (stage_mode m)) \<and>
    fresh_names C fs' (Suc n)"
proof -
  have "fs_get fs (stage_path C n p) = None" using assms(3) by (simp add: fresh_names_def stage_path_def)
  with staged_file_new_ok [OF assms, of data m] plain_stage_path [OF assms(1,2)] show ?thesis
    unfolding only_staged_def by auto
qed

lemma only_staged_plain: "only_staged fs fs' qs \<Longrightarrow> fs_wf fs' \<and> (plain_at fs p \<longrightarrow> plain_at fs' p)"
  by (auto simp: only_staged_def plain_at_def) (metis option.distinct(1))

lemma stage_slot:
  assumes "fs_wf fs" "commit_target C fs p" "fresh_names C fs n"
  shows "\<exists>fs1 n2 fs2 r. staged_file_new C p data m (n, fs) = (Inr \<lparr>sf_path = stage_path C n p\<rparr>, Suc n, fs1) \<and>
    stage_restore C p (existing_at fs p) (Suc n, fs1) = (Inr r, n2, fs2) \<and> (r = None \<longleftrightarrow> existing_at fs p = None) \<and>
    n < n2 \<and> fresh_names C fs2 n2 \<and> only_staged fs fs2 (set (staged_paths (new_slot p (stage_path C n p) r))) \<and>
    (\<forall>q \<in> set (staged_paths (new_slot p (stage_path C n p) r)). \<exists>i. n \<le> i \<and> i < n2 \<and> q = stage_path C i p) \<and>
    distinct (owned (new_slot p (stage_path C n p) r)) \<and>
    fs_get fs2 (stage_path C n p) = Some (FileNode data (stage_mode m)) \<and>
    (fs_get fs p \<noteq> Some DirNode \<longrightarrow> restorable fs fs2 (new_slot p (stage_path C n p) r))"
proof -
  let ?q = "stage_path C n p" and ?q2 = "stage_path C (Suc n) p"
  have pl: "plain_at fs p" and nm: "last p \<noteq> stage_name C i" for i using assms(2) by (simp_all add: commit_target_def)
  have inj: "inj (ce_random C)" using assms(3) by (simp add: fresh_names_def)
  obtain fs1 where s1: "staged_file_new C p data m (n, fs) = (Inr \<lparr>sf_path = ?q\<rparr>, Suc n, fs1)"
      "only_staged fs fs1 {?q}" "fs_get fs1 ?q = Some (FileNode data (stage_mode m))" "fresh_names C fs1 (Suc n)"
    using stage_new [OF assms(1) pl assms(3)] by blast
  have pq: "p \<noteq> stage_path C i p" for i
    using nm [of i] by (metis stage_path_def last_snoc)
  have qne: "stage_path C i p \<noteq> []" for i by (simp add: stage_path_def)
  show ?thesis
  proof (cases "existing_at fs p")
    case None
    have r: "stage_restore C p (existing_at fs p) (Suc n, fs1) = (Inr None, Suc n, fs1)"
      using None by (simp add: stage_restore_def cret_def)
    have st: "staged_paths (new_slot p ?q None) = [?q]" using qne by (simp add: staged_paths_def file_staged_def new_slot_def)
    have res: "fs_get fs p \<noteq> Some DirNode \<longrightarrow> restorable fs fs1 (new_slot p ?q None)"
      using None assms(2) by (auto simp: restorable_def new_slot_def existing_at_def commit_target_def split: option.splits node.splits)
    have own: "distinct (owned (new_slot p ?q None))" using st pq by (simp add: owned_def new_slot_def)
    show ?thesis
      by (intro exI [of _ fs1] exI [of _ "Suc n"] exI [of _ None])
        (use s1 r st res own None in auto)
  next
    case (Some ef)
    then obtain d md where ef: "fs_get fs p = Some (FileNode d md)" "ef = \<lparr>ef_bytes = d, ef_permissions = md\<rparr>"
      by (auto simp: existing_at_def split: option.splits node.splits)
    have md: "and md permission_bits = md" using assms(2) ef(1) by (simp add: commit_target_def)
    from only_staged_plain [OF s1(2)] pl have w1: "fs_wf fs1" "plain_at fs1 p" by blast+
    obtain fs2 where s2: "staged_file_new C p d (Some md) (Suc n, fs1) = (Inr \<lparr>sf_path = ?q2\<rparr>, Suc (Suc n), fs2)"
        "only_staged fs1 fs2 {?q2}" "fs_get fs2 ?q2 = Some (FileNode d (stage_mode (Some md)))" "fresh_names C fs2 (Suc (Suc n))"
      using stage_new [OF w1 s1(4)] by blast
    let ?r = "Some \<lparr>sf_path = ?q2\<rparr>"
    have r: "stage_restore C p (existing_at fs p) (Suc n, fs1) = (Inr ?r, Suc (Suc n), fs2)"
      using Some ef(2) s2(1) by (simp add: stage_restore_def cbind_def cret_def)
    have ne: "?q \<noteq> ?q2" using stage_name_facts(2) [OF inj, of n "Suc n"] by (simp add: stage_path_def)
    have st: "staged_paths (new_slot p ?q ?r) = [?q, ?q2]" using qne by (simp add: staged_paths_def file_staged_def new_slot_def)
    have os: "only_staged fs fs2 {?q, ?q2}" using only_staged_trans [OF s1(2) s2(2)] by (simp add: insert_commute)
    have g: "fs_get fs2 ?q = Some (FileNode data (stage_mode m))"
      using s2(2) s1(3) ne by (simp add: only_staged_def)
    have res: "restorable fs fs2 (new_slot p ?q ?r)"
      using ef(1) s2(3) md qne by (simp add: restorable_def new_slot_def stage_mode_def)
    have own: "distinct (owned (new_slot p ?q ?r))" using st pq ne by (simp add: owned_def new_slot_def)
    have ix: "\<forall>q \<in> set (staged_paths (new_slot p ?q ?r)). \<exists>i. n \<le> i \<and> i < Suc (Suc n) \<and> q = stage_path C i p"
      unfolding st by (auto intro: exI [of _ n] exI [of _ "Suc n"])
    show ?thesis
      by (intro exI [of _ fs1] exI [of _ "Suc (Suc n)"] exI [of _ fs2] exI [of _ ?r])
        (use s1(1) r st res own Some s2(4) g os ix in simp_all)
  qed
qed

subsection \<open>Adding a pending file\<close>

lemma base_target:
  assumes "commit_base fs0 fs ss" "p \<notin> set (all_owned ss)"
  shows "fs_get fs p = fs_get fs0 p" "commit_target C fs p \<longleftrightarrow> commit_target C fs0 p"
    "existing_at fs p = existing_at fs0 p" "old_mode fs p = old_mode fs0 p"
proof -
  show g: "fs_get fs p = fs_get fs0 p" using assms by (simp add: commit_base_def)
  show "commit_target C fs p \<longleftrightarrow> commit_target C fs0 p"
    using g commit_base_dirs [OF assms(1)] by (simp add: commit_target_def plain_at_def)
  show "existing_at fs p = existing_at fs0 p" "old_mode fs p = old_mode fs0 p"
    using g by (simp_all add: existing_at_def old_mode_def)
qed

lemma base_extend:
  assumes "commit_base fs0 fs ss" "names_below C n ss" "inj (ce_random C)" "commit_target C fs0 p"
    and "p \<notin> set (all_owned ss)" "fs_get fs0 p \<noteq> Some DirNode" "pb_path s = p"
    and "only_staged fs fs' (set (staged_paths s))" "distinct (owned s)" "n < n2"
    and "\<forall>q \<in> set (staged_paths s). \<exists>i. n \<le> i \<and> i < n2 \<and> q = stage_path C i p"
  shows "commit_base fs0 fs' (ss @ [s])" "names_below C n2 (ss @ [s])"
    "\<And>t. t \<in> set ss \<Longrightarrow> (\<And>q. q \<in> set (owned t) \<Longrightarrow> fs_get fs' q = fs_get fs q)"
    "fs_get fs' p = fs_get fs0 p"
proof -
  have nm: "last p \<noteq> stage_name C i" and pl: "plain_at fs0 p" for i using assms(4) by (simp_all add: commit_target_def)
  have lasts: "\<exists>i. n \<le> i \<and> i < n2 \<and> last q = stage_name C i" if "q \<in> set (staged_paths s)" for q
    using assms(11) that by (fastforce simp: stage_path_def)
  have new: "q \<notin> set (all_owned ss)" "q \<noteq> p" if q: "q \<in> set (staged_paths s)" for q
    using lasts [OF q] assms(2) nm by (auto simp: names_below_def)
  have os: "plain_at fs q" "fs_get fs q = None" "\<exists>d m. fs_get fs' q = Some (FileNode d m)" if "q \<in> set (staged_paths s)" for q
    using assms(8) that by (simp_all add: only_staged_def)
  have fr: "fs_get fs' q = fs_get fs q" if "q \<notin> set (staged_paths s)" for q using assms(8) that by (simp add: only_staged_def)
  have own: "set (owned s) = insert p (set (staged_paths s))" using assms(7) by (simp add: owned_def)
  have p: "p \<notin> set (staged_paths s)" using new(2) by blast
  show g: "fs_get fs' p = fs_get fs0 p" using fr [OF p] base_target(1) [OF assms(1,5)] by simp
  show "fs_get fs' q = fs_get fs q" if "t \<in> set ss" "q \<in> set (owned t)" for t q
  proof (rule fr)
    show "q \<notin> set (staged_paths s)" using new(1) [of q] that by (auto simp: all_owned_def)
  qed
  have none: "fs_get fs0 q = None" if q: "q \<in> set (staged_paths s)" for q
    using base_target(1) [OF assms(1) new(1) [OF q]] os(2) [OF q] by simp
  have plain0: "plain_at fs0 q" if "q \<in> set (staged_paths s)" for q
    using os(1) [OF that] commit_base_dirs [OF assms(1)] by (simp add: plain_at_def)
  have "distinct (all_owned (ss @ [s]))"
    using assms(1,5,9) own new(1) by (auto simp: commit_base_def)
  moreover have "fs_get fs' q = fs_get fs0 q" if "q \<notin> set (all_owned (ss @ [s]))" for q
    using that fr [of q] own base_target(1) [OF assms(1), of q] by auto
  moreover have "plain_at fs0 q \<and> fs_get fs0 q \<noteq> Some DirNode \<and> fs_get fs' q \<noteq> Some DirNode"
    if q: "q \<in> set (all_owned (ss @ [s]))" for q
  proof (cases "q \<in> set (all_owned ss)")
    case True
    then have "q \<notin> set (staged_paths s)" using new(1) by blast
    with fr True assms(1) show ?thesis by (simp add: commit_base_def)
  next
    case False
    with q own have "q = p \<or> q \<in> set (staged_paths s)" by auto
    then show ?thesis using plain0 none os(3) g pl assms(6) by (cases "q = p") fastforce+
  qed
  moreover have "fs_wf fs'" using assms(8) by (simp add: only_staged_def)
  ultimately show "commit_base fs0 fs' (ss @ [s])"
    using assms(1) none by (auto simp: commit_base_def)
  show "names_below C n2 (ss @ [s])"
    unfolding names_below_def
  proof (intro ballI allI impI)
    fix q i assume q: "q \<in> set (all_owned (ss @ [s]))" and i: "n2 \<le> i"
    then consider "q \<in> set (all_owned ss)" | "q = p" | "q \<in> set (staged_paths s)" using own by auto
    then show "last q \<noteq> stage_name C i"
    proof cases
      case 1
      with assms(2,10) i show ?thesis by (simp add: names_below_def)
    next
      case 2
      with nm show ?thesis by simp
    next
      case 3
      from lasts [OF this] i show ?thesis using stage_name_facts(2) [OF assms(3)] by auto
    qed
  qed
qed

text \<open>The state of a stage: what is pending, and the names that are still to come.\<close>

definition stage_inv :: "commit_env \<Rightarrow> (path \<rightharpoonup> node) \<Rightarrow> fs \<Rightarrow> nat \<Rightarrow> fs \<Rightarrow> pending_backup list \<Rightarrow> bool" where
  "stage_inv C W fs0 n fs ss \<longleftrightarrow> commit_base fs0 fs ss \<and> names_below C n ss \<and> fresh_names C fs n \<and>
     (\<forall>s \<in> set ss. unpublished W fs0 fs s)"

lemma stage_inv_perm: "mset ss = mset ts \<Longrightarrow> stage_inv C W fs0 n fs ss \<Longrightarrow> stage_inv C W fs0 n fs ts"
  using commit_base_perm [of ss ts] mset_eq_setD [of ss ts] all_owned_mset [of ss ts] mset_eq_setD [of "all_owned ss" "all_owned ts"]
  by (simp add: stage_inv_def names_below_def)

lemma stage_inv_slot:
  assumes "stage_inv C W fs0 n fs ss" "commit_target C fs0 p" "p \<notin> set (all_owned ss)" "fs_get fs0 p \<noteq> Some DirNode"
    and "W p = Some (FileNode data (stage_mode m))"
  shows "\<exists>fs1 n2 fs2 r. staged_file_new C p data m (n, fs) = (Inr \<lparr>sf_path = stage_path C n p\<rparr>, Suc n, fs1) \<and>
    stage_restore C p (existing_at fs p) (Suc n, fs1) = (Inr r, n2, fs2) \<and> (r = None \<longleftrightarrow> existing_at fs p = None) \<and>
    stage_inv C W fs0 n2 fs2 (ss @ [new_slot p (stage_path C n p) r]) \<and>
    only_staged fs fs2 (set (staged_paths (new_slot p (stage_path C n p) r))) \<and>
    (\<forall>q \<in> set (staged_paths (new_slot p (stage_path C n p) r)). \<exists>i. last q = stage_name C i)"
proof -
  have base: "commit_base fs0 fs ss" and nb: "names_below C n ss" and fn: "fresh_names C fs n"
      and un: "\<forall>s \<in> set ss. unpublished W fs0 fs s"
    using assms(1) by (simp_all add: stage_inv_def)
  have wf: "fs_wf fs" and inj: "inj (ce_random C)" using base fn by (simp_all add: commit_base_def fresh_names_def)
  note bt = base_target [OF base assms(3)]
  have ct: "commit_target C fs p" using assms(2) bt(2) by simp
  obtain fs1 n2 fs2 r where s: "staged_file_new C p data m (n, fs) = (Inr \<lparr>sf_path = stage_path C n p\<rparr>, Suc n, fs1)"
      "stage_restore C p (existing_at fs p) (Suc n, fs1) = (Inr r, n2, fs2)" "r = None \<longleftrightarrow> existing_at fs p = None"
      "n < n2" "fresh_names C fs2 n2" "only_staged fs fs2 (set (staged_paths (new_slot p (stage_path C n p) r)))"
      "\<forall>q \<in> set (staged_paths (new_slot p (stage_path C n p) r)). \<exists>i. n \<le> i \<and> i < n2 \<and> q = stage_path C i p"
      "distinct (owned (new_slot p (stage_path C n p) r))"
      "fs_get fs2 (stage_path C n p) = Some (FileNode data (stage_mode m))"
      "fs_get fs p \<noteq> Some DirNode \<longrightarrow> restorable fs fs2 (new_slot p (stage_path C n p) r)"
    using stage_slot [OF wf ct fn, of data m] by (elim exE conjE) (rule that; assumption)
  let ?s = "new_slot p (stage_path C n p) r"
  have pp: "pb_path ?s = p" by (simp add: new_slot_def)
  note ext = base_extend [OF base nb inj assms(2,3,4) pp s(6,8,4,7)]
  have "restorable fs0 fs2 ?s"
    using s(10) bt(1) assms(4) pp by (auto simp: restorable_def new_slot_def split: option.splits)
  then have "unpublished W fs0 fs2 ?s"
    using ext(4) s(9) assms(5) by (simp add: unpublished_def new_slot_def stage_path_def)
  moreover have "unpublished W fs0 fs2 t" if t: "t \<in> set ss" for t
    using slot_frame(1) [of t fs2 fs, OF ext(3) [OF t]] un t by blast
  ultimately have "stage_inv C W fs0 n2 fs2 (ss @ [?s])"
    using ext(1,2) s(5) by (simp add: stage_inv_def)
  moreover have "\<forall>q \<in> set (staged_paths ?s). \<exists>i. last q = stage_name C i"
    using s(7) by (fastforce simp: stage_path_def)
  ultimately show ?thesis using s(1-3,6) by (intro exI [of _ fs1] exI [of _ n2] exI [of _ fs2] exI [of _ r] conjI)
qed

subsection \<open>Undoing a stage\<close>

definition same_fs :: "fs \<Rightarrow> fs \<Rightarrow> bool" where
  "same_fs fs fs' \<longleftrightarrow> fs_wf fs' \<and> (\<forall>q. fs_get fs' q = fs_get fs q)"

lemma drop_undo:
  assumes "only_staged fs fs1 qs" "same_fs fs1 fs2" "qs = {q \<in> sf_path ` set files. q \<noteq> []}"
  shows "\<exists>fs3. drop_all files (n, fs2) = (n, fs3) \<and> same_fs fs fs3"
proof -
  have wf: "fs_wf fs2" using assms(2) by (simp add: same_fs_def)
  have q: "plain_at fs q" "fs_get fs q = None" "\<exists>d m. fs_get fs1 q = Some (FileNode d m)" if "q \<in> qs" for q
    using assms(1) that by (simp_all add: only_staged_def)
  have r: "fs_get fs1 q = fs_get fs q" if "q \<notin> qs" for q using assms(1) that by (simp add: only_staged_def)
  have dirs: "fs_get fs2 q = Some DirNode" if "fs_get fs q = Some DirNode" for q
    using assms(2) q(2) [of q] r [of q] that by (cases "q \<in> qs") (auto simp: same_fs_def)
  have "plain_at fs2 (sf_path f) \<and> fs_get fs2 (sf_path f) \<noteq> Some DirNode" if "f \<in> set files" "sf_path f \<noteq> []" for f
  proof -
    have "sf_path f \<in> qs" using assms(3) that by simp
    from plain_at_same [OF q(1) [OF this] dirs] q(3) [OF this] assms(2) show ?thesis by (auto simp: same_fs_def)
  qed
  with drop_all_step [OF wf, of files n] obtain fs3 where d: "drop_all files (n, fs2) = (n, fs3)" "fs_wf fs3"
      "\<forall>q. fs_get fs3 q = (if q \<noteq> [] \<and> q \<in> sf_path ` set files then None else fs_get fs2 q)"
    by blast
  have "fs_get fs3 p = fs_get fs p" for p
  proof (cases "p \<in> qs")
    case True
    with d(3) assms(3) q(2) show ?thesis by simp
  next
    case False
    then have "fs_get fs3 p = fs_get fs2 p" using d(3) assms(3) by auto
    with r [OF False] assms(2) show ?thesis by (simp add: same_fs_def)
  qed
  with d(1,2) show ?thesis by (auto simp: same_fs_def)
qed

lemma drop_all_append: "drop_all (xs @ ys) s = drop_all ys (drop_all xs s)"
  by (simp add: drop_all_def)

lemma same_refl: "fs_wf fs \<Longrightarrow> same_fs fs fs"
  by (simp add: same_fs_def)

lemma staged_set: "set (staged_paths (slot p)) = {q \<in> sf_path ` set (file_staged p). q \<noteq> []}"
  by (auto simp: staged_paths_def file_staged_def)

lemma write_staged_set: "{q \<in> sf_path ` set (write_staged p). q \<noteq> []} = set (concat (map staged_paths (slots p)))"
proof -
  have "set (staged_paths b) = {q \<in> sf_path ` set (file_staged b). q \<noteq> []}" for b :: pending_backup
    using staged_set [of b] by simp
  then show ?thesis
    using staged_set [of p] by (auto simp: write_staged_def slots_def split: option.splits)
qed

subsection \<open>Staging a backup and a document\<close>

lemma stage_inv_wf: "stage_inv C W fs0 n fs ss \<Longrightarrow> fs_wf fs"
  by (simp add: stage_inv_def commit_base_def)

lemma read_existing_at:
  assumes "fs_wf fs" "commit_target C fs p" "read_existing fs p = Inr st"
  shows "st = existing_at fs p \<and> fs_get fs p \<noteq> Some DirNode"
proof -
  have "plain_at fs p" "\<forall>t. fs_get fs p \<noteq> Some (LinkNode t)" using assms(2) by (simp_all add: commit_target_def)
  from read_existing_cases [OF assms(1) this] assms(3) show ?thesis by (auto simp: existing_at_def)
qed

lemma base_read:
  assumes "commit_base fs0 fs ss" "p \<notin> set (all_owned ss)" "commit_target C fs0 p"
  shows "read_existing fs p = read_existing fs0 p"
proof -
  have t: "resolve_target f p = Inr p" if "fs_wf f" "commit_target C f p" for f
    using plain_at_resolve(2) [OF that(1)] that(2) by (simp add: commit_target_def)
  have wf: "fs_wf fs0" "fs_wf fs" using assms(1) by (simp_all add: commit_base_def)
  have m: "metadata fs p = metadata fs0 p"
    using t [OF wf(1) assms(3)] t [OF wf(2)] assms(3) base_target(1) [OF assms(1,2)] base_target(2) [OF assms(1,2), of C]
    by (simp add: metadata_def)
  show ?thesis by (simp only: read_existing_def fs_read_def m)
qed

lemma stage_backup_step:
  assumes "stage_inv C W fs0 n fs ss" "commit_target C fs0 b" "b \<notin> set (all_owned ss)"
    and "and (ef_permissions orig) permission_bits = ef_permissions orig"
    and "W b = Some (FileNode (ef_bytes orig) (or_mode (ef_permissions orig) (old_mode fs0 b)))"
  shows "(\<exists>e. stage_backup C b orig (n, fs) = (Inl e, n, fs) \<and> read_existing fs0 b = Inl e) \<or>
    (\<exists>x n' fs'. stage_backup C b orig (n, fs) = (Inr x, n', fs') \<and> pb_path x = b \<and>
      stage_inv C W fs0 n' fs' (ss @ [x]) \<and> only_staged fs fs' (set (staged_paths x)) \<and>
      (\<forall>q \<in> set (staged_paths x). \<exists>i. last q = stage_name C i))"
proof (cases "read_existing fs b")
  case (Inl e)
  moreover have "commit_base fs0 fs ss" using assms(1) by (simp add: stage_inv_def)
  ultimately show ?thesis using base_read [OF _ assms(3,2), of fs]
    by (simp add: stage_backup_def cbind_def on_fs_def query_def)
next
  case (Inr st)
  have base: "commit_base fs0 fs ss" using assms(1) by (simp add: stage_inv_def)
  note bt = base_target [OF base assms(3)]
  have ct: "commit_target C fs b" using bt(2) assms(2) by simp
  have st: "st = existing_at fs b" "fs_get fs b \<noteq> Some DirNode"
    using read_existing_at [OF stage_inv_wf [OF assms(1)] ct Inr] by blast+
  let ?m = "ef_permissions (case st of Some ef \<Rightarrow> ef | None \<Rightarrow> orig)"
  have mode: "stage_mode (Some ?m) = or_mode (ef_permissions orig) (old_mode fs0 b)"
    using assms(2,4) st(1) bt(3) by (auto simp: stage_mode_def or_mode_def existing_at_def old_mode_def commit_target_def
        split: option.split node.split)
  have Wb: "W b = Some (FileNode (ef_bytes orig) (stage_mode (Some ?m)))" using assms(5) mode by simp
  have nd: "fs_get fs0 b \<noteq> Some DirNode" using st(2) bt(1) by simp
  obtain fs1 n2 fs2 r where s: "staged_file_new C b (ef_bytes orig) (Some ?m) (n, fs) = (Inr \<lparr>sf_path = stage_path C n b\<rparr>, Suc n, fs1)"
      "stage_restore C b (existing_at fs b) (Suc n, fs1) = (Inr r, n2, fs2)" "r = None \<longleftrightarrow> existing_at fs b = None"
      "stage_inv C W fs0 n2 fs2 (ss @ [new_slot b (stage_path C n b) r])"
      "only_staged fs fs2 (set (staged_paths (new_slot b (stage_path C n b) r)))"
      "\<forall>q \<in> set (staged_paths (new_slot b (stage_path C n b) r)). \<exists>i. last q = stage_name C i"
    using stage_inv_slot [OF assms(1-3) nd Wb] by (elim exE conjE) (rule that; assumption)
  have "stage_backup C b orig (n, fs) = (Inr (new_slot b (stage_path C n b) r), n2, fs2)"
    using Inr s(1-3) st(1) by (simp add: stage_backup_def cbind_def on_fs_def query_def owning_def cret_def new_slot_def)
  with s(4-6) show ?thesis by (intro disjI2 exI [of _ "new_slot b (stage_path C n b) r"] exI [of _ n2] exI [of _ fs2])
      (simp add: new_slot_def)
qed

definition targets :: "document_write \<Rightarrow> path list" where
  "targets w = dw_path w # (if dw_backup w then [backup_path (dw_path w)] else [])"

text \<open>The slot of a pending write, as \<^verbatim>\<open>stage_write\<close> builds it.\<close>

definition new_write :: "path \<Rightarrow> path \<Rightarrow> staged_file option \<Rightarrow> pending_backup option \<Rightarrow> pending_write" where
  "new_write p q r b = \<lparr>pb_path = p, pb_replacement = \<lparr>sf_path = q\<rparr>, pb_restore = r, pb_existed = (r \<noteq> None),
     pb_published = False, pw_backup = b\<rparr>"

lemma new_write_slots: "slots (new_write p q r b) = (case b of None \<Rightarrow> [] | Some b \<Rightarrow> [b]) @ [new_slot p q r]"
  by (simp add: slots_def new_write_def new_slot_def pending_backup.truncate_def)

lemma stage_write_plain:
  assumes "stage_inv C W fs0 n fs ss" "commit_target C fs0 (dw_path w)"
    and "dw_path w \<notin> set (all_owned ss)" "\<forall>(q, nd) \<in> set (outputs fs0 w). W q = Some nd"
  shows "(\<exists>e. read_existing fs (dw_path w) = Inl e \<and> read_existing fs0 (dw_path w) = Inl e) \<or>
    (read_existing fs (dw_path w) = Inr (existing_at fs0 (dw_path w)) \<and>
     (\<exists>fs1 n2 fs2 r. staged_file_new C (dw_path w) (dw_contents w) (map_option ef_permissions (existing_at fs0 (dw_path w))) (n, fs) =
         (Inr \<lparr>sf_path = stage_path C n (dw_path w)\<rparr>, Suc n, fs1) \<and>
       stage_restore C (dw_path w) (existing_at fs0 (dw_path w)) (Suc n, fs1) = (Inr r, n2, fs2) \<and>
       (r = None \<longleftrightarrow> existing_at fs0 (dw_path w) = None) \<and>
       stage_inv C W fs0 n2 fs2 (ss @ [new_slot (dw_path w) (stage_path C n (dw_path w)) r]) \<and>
       only_staged fs fs2 (set (staged_paths (new_slot (dw_path w) (stage_path C n (dw_path w)) r))) \<and>
       (\<forall>q \<in> set (staged_paths (new_slot (dw_path w) (stage_path C n (dw_path w)) r)). \<exists>i. last q = stage_name C i)))"
proof (cases "read_existing fs (dw_path w)")
  case (Inl e)
  moreover have "commit_base fs0 fs ss" using assms(1) by (simp add: stage_inv_def)
  ultimately show ?thesis using base_read [OF _ assms(3,2), of fs] by simp
next
  case (Inr st)
  let ?p = "dw_path w"
  have base: "commit_base fs0 fs ss" using assms(1) by (simp add: stage_inv_def)
  note bt = base_target [OF base assms(3)]
  have ct: "commit_target C fs ?p" using bt(2) assms(2) by simp
  have st: "st = existing_at fs0 ?p" "fs_get fs0 ?p \<noteq> Some DirNode"
    using read_existing_at [OF stage_inv_wf [OF assms(1)] ct Inr] bt(1,3) by simp_all
  have "stage_mode (map_option ef_permissions (existing_at fs0 ?p)) = or_mode created_mode (old_mode fs0 ?p)"
    using assms(2) by (auto simp: existing_mode stage_mode_def or_mode_def old_mode_def commit_target_def
        split: option.split node.split)
  then have W: "W ?p = Some (FileNode (dw_contents w) (stage_mode (map_option ef_permissions (existing_at fs0 ?p))))"
    using assms(4) by (simp add: outputs_def Let_def)
  from stage_inv_slot [OF assms(1-3) st(2) W] Inr st(1) bt(3) show ?thesis by simp
qed

lemma stage_write_step:
  assumes "stage_inv C W fs0 n fs ss" "\<forall>p \<in> set (targets w). commit_target C fs0 p \<and> p \<notin> set (all_owned ss)"
    and "distinct (targets w)" "\<forall>(q, nd) \<in> set (outputs fs0 w). W q = Some nd"
  shows "(\<exists>e n' fs'. stage_write C w (n, fs) = (Inl e, n', fs') \<and> same_fs fs fs' \<and>
      (\<exists>p \<in> set (targets w). read_existing fs0 p = Inl e)) \<or>
    (\<exists>x n' fs'. stage_write C w (n, fs) = (Inr x, n', fs') \<and> stage_inv C W fs0 n' fs' (ss @ slots x) \<and>
      only_staged fs fs' (set (concat (map staged_paths (slots x)))) \<and>
      (\<forall>q \<in> set (all_owned (slots x)). q \<in> set (targets w) \<or> (\<exists>i. last q = stage_name C i)) \<and>
      set (map pb_path (slots x)) = fst ` set (outputs fs0 w))"
proof -
  let ?p = "dw_path w" and ?st = "existing_at fs0 (dw_path w)" and ?b = "backup_path (dw_path w)"
  have tp: "commit_target C fs0 ?p" "?p \<notin> set (all_owned ss)" using assms(2) by (simp_all add: targets_def)
  from stage_write_plain [OF assms(1) tp assms(4)] show ?thesis
  proof (elim disjE exE conjE)
    fix e assume e: "read_existing fs ?p = Inl e" "read_existing fs0 ?p = Inl e"
    then have "stage_write C w (n, fs) = (Inl e, n, fs)" by (simp add: stage_write_def cbind_def on_fs_def query_def Let_def)
    with same_refl [OF stage_inv_wf [OF assms(1)]] e(2) show ?thesis by (auto simp: targets_def)
  next
    fix fs1 n2 fs2 r
    let ?s = "new_slot ?p (stage_path C n ?p) r"
    assume rd: "read_existing fs ?p = Inr ?st"
      and s1: "staged_file_new C ?p (dw_contents w) (map_option ef_permissions ?st) (n, fs) = (Inr \<lparr>sf_path = stage_path C n ?p\<rparr>, Suc n, fs1)"
      and s2: "stage_restore C ?p ?st (Suc n, fs1) = (Inr r, n2, fs2)" and rn: "(r = None) = (?st = None)"
      and inv: "stage_inv C W fs0 n2 fs2 (ss @ [?s])" and os: "only_staged fs fs2 (set (staged_paths ?s))"
      and nm: "\<forall>q \<in> set (staged_paths ?s). \<exists>i. last q = stage_name C i"
    have own: "\<forall>q \<in> set (owned ?s). q = ?p \<or> (\<exists>i. last q = stage_name C i)" using nm by (auto simp: owned_def new_slot_def)
    show ?thesis
    proof (cases "dw_backup w \<and> ?st \<noteq> None")
      case False
      then have run: "stage_write C w (n, fs) = (Inr (new_write ?p (stage_path C n ?p) r None), n2, fs2)"
        using rd s1 s2 rn by (cases ?st) (auto simp: stage_write_def cbind_def on_fs_def query_def Let_def owning_def cret_def new_write_def)
      have "fst ` set (outputs fs0 w) = {?p}"
        using False by (auto simp: outputs_def existing_at_def Let_def split: option.splits node.splits)
      then have path: "set (map pb_path (slots (new_write ?p (stage_path C n ?p) r None))) = fst ` set (outputs fs0 w)"
        by (simp add: new_write_slots) (simp add: new_slot_def)
      show ?thesis
        by (intro disjI2 exI [of _ "new_write ?p (stage_path C n ?p) r None"] exI [of _ n2] exI [of _ fs2])
          (use run inv os own path in \<open>auto simp: new_write_slots targets_def\<close>)
    next
      case True
      then obtain orig where orig: "?st = Some orig" and bk: "dw_backup w" by auto
      obtain d m where dm: "fs_get fs0 ?p = Some (FileNode d m)" "orig = \<lparr>ef_bytes = d, ef_permissions = m\<rparr>"
        using orig by (auto simp: existing_at_def split: option.splits node.splits)
      have tb: "commit_target C fs0 ?b" "?b \<notin> set (all_owned ss)" "?b \<noteq> ?p"
        using assms(2,3) bk by (auto simp: targets_def)
      have "?b \<notin> set (owned ?s)" using own tb(1,3) by (auto simp: commit_target_def)
      then have nb: "?b \<notin> set (all_owned (ss @ [?s]))" using tb(2) by simp
      have mo: "and (ef_permissions orig) permission_bits = ef_permissions orig"
        using tp(1) dm by (simp add: commit_target_def)
      have Wb: "W ?b = Some (FileNode (ef_bytes orig) (or_mode (ef_permissions orig) (old_mode fs0 ?b)))"
        using assms(4) dm bk by (simp add: outputs_def Let_def)
      from stage_backup_step [OF inv tb(1) nb mo Wb] show ?thesis
      proof (elim disjE exE conjE)
        fix e assume e: "stage_backup C ?b orig (n2, fs2) = (Inl e, n2, fs2)" "read_existing fs0 ?b = Inl e"
        let ?files = "(case r of None \<Rightarrow> [] | Some f \<Rightarrow> [f]) @ [\<lparr>sf_path = stage_path C n ?p\<rparr>]"
        have run: "stage_write C w (n, fs) = (Inl e, drop_all ?files (n2, fs2))"
          using rd s1 s2 e(1) orig bk
          by (simp add: stage_write_def cbind_def on_fs_def query_def Let_def owning_def drop_all_append)
        have "set (staged_paths ?s) = {q \<in> sf_path ` set ?files. q \<noteq> []}"
          by (auto simp: staged_paths_def file_staged_def new_slot_def split: option.splits)
        with drop_undo [OF os same_refl [OF stage_inv_wf [OF inv]]] obtain fs3 where
          "drop_all ?files (n2, fs2) = (n2, fs3)" "same_fs fs fs3" by blast
        with run e(2) bk show ?thesis by (auto simp: targets_def)
      next
        fix x n3 fs3
        assume x: "stage_backup C ?b orig (n2, fs2) = (Inr x, n3, fs3)" "pb_path x = ?b"
          and inv3: "stage_inv C W fs0 n3 fs3 ((ss @ [?s]) @ [x])" and os3: "only_staged fs2 fs3 (set (staged_paths x))"
          and nm3: "\<forall>q \<in> set (staged_paths x). \<exists>i. last q = stage_name C i"
        let ?w = "new_write ?p (stage_path C n ?p) r (Some x)"
        have run: "stage_write C w (n, fs) = (Inr ?w, n3, fs3)"
          using rd s1 s2 x(1) orig bk rn
          by (simp add: stage_write_def cbind_def on_fs_def query_def Let_def owning_def cret_def new_write_def)
        have sl: "slots ?w = [x, ?s]" by (simp add: new_write_slots)
        have "mset ((ss @ [?s]) @ [x]) = mset (ss @ slots ?w)" by (simp add: sl)
        from stage_inv_perm [OF this inv3] have inv4: "stage_inv C W fs0 n3 fs3 (ss @ slots ?w)" .
        have os4: "only_staged fs fs3 (set (concat (map staged_paths (slots ?w))))"
          using only_staged_trans [OF os os3] by (simp add: sl Un_commute)
        have own4: "\<forall>q \<in> set (all_owned (slots ?w)). q \<in> set (targets w) \<or> (\<exists>i. last q = stage_name C i)"
          using own nm3 x(2) bk by (auto simp: sl owned_def targets_def new_slot_def)
        have paths: "set (map pb_path (slots ?w)) = fst ` set (outputs fs0 w)"
          using x(2) dm bk by (simp add: sl outputs_def Let_def new_slot_def insert_commute)
        show ?thesis
          by (intro disjI2 exI [of _ ?w] exI [of _ n3] exI [of _ fs3] conjI run inv4 os4 own4 paths)
      qed
    qed
  qed
qed

lemma stage_all_step:
  assumes "stage_inv C W fs0 n fs ss" "distinct (concat (map targets ws))"
    and "\<forall>w \<in> set ws. \<forall>p \<in> set (targets w). commit_target C fs0 p \<and> p \<notin> set (all_owned ss)"
    and "\<forall>w \<in> set ws. \<forall>(q, nd) \<in> set (outputs fs0 w). W q = Some nd"
  shows "(\<exists>e n' fs'. stage_all C ws (n, fs) = (Inl e, n', fs') \<and> same_fs fs fs' \<and>
      (\<exists>w \<in> set ws. \<exists>p \<in> set (targets w). read_existing fs0 p = Inl e)) \<or>
    (\<exists>ps n' fs'. stage_all C ws (n, fs) = (Inr ps, n', fs') \<and> stage_inv C W fs0 n' fs' (ss @ all_slots ps) \<and>
      set (map pb_path (all_slots ps)) = (\<Union>w \<in> set ws. fst ` set (outputs fs0 w)))"
  using assms
proof (induction ws arbitrary: n fs ss)
  case Nil
  then show ?case by (simp add: cret_def)
next
  case (Cons w ws)
  have t: "\<forall>p \<in> set (targets w). commit_target C fs0 p \<and> p \<notin> set (all_owned ss)" using Cons.prems(3) by simp
  have d: "distinct (targets w)" "distinct (concat (map targets ws))"
      "set (targets w) \<inter> set (concat (map targets ws)) = {}" using Cons.prems(2) by auto
  have o: "\<forall>(q, nd) \<in> set (outputs fs0 w). W q = Some nd" using Cons.prems(4) by simp
  from stage_write_step [OF Cons.prems(1) t d(1) o] show ?case
  proof (elim disjE exE conjE)
    fix e n' fs' assume "stage_write C w (n, fs) = (Inl e, n', fs')" "same_fs fs fs'"
      "\<exists>p \<in> set (targets w). read_existing fs0 p = Inl e"
    then show ?thesis by (simp add: cbind_def)
  next
    fix x n1 fs1
    assume x: "stage_write C w (n, fs) = (Inr x, n1, fs1)" and inv: "stage_inv C W fs0 n1 fs1 (ss @ slots x)"
      and os: "only_staged fs fs1 (set (concat (map staged_paths (slots x))))"
      and own: "\<forall>q \<in> set (all_owned (slots x)). q \<in> set (targets w) \<or> (\<exists>i. last q = stage_name C i)"
      and paths: "set (map pb_path (slots x)) = fst ` set (outputs fs0 w)"
    have t2: "\<forall>v \<in> set ws. \<forall>p \<in> set (targets v). commit_target C fs0 p \<and> p \<notin> set (all_owned (ss @ slots x))"
    proof (intro ballI conjI)
      fix v p assume v: "v \<in> set ws" "p \<in> set (targets v)"
      then have c: "commit_target C fs0 p" "p \<notin> set (all_owned ss)" using Cons.prems(3) by simp_all
      then show "commit_target C fs0 p" by simp
      have "p \<notin> set (targets w)" using d(3) v by auto
      with own c show "p \<notin> set (all_owned (ss @ slots x))" by (auto simp: commit_target_def)
    qed
    have o2: "\<forall>v \<in> set ws. \<forall>(q, nd) \<in> set (outputs fs0 v). W q = Some nd" using Cons.prems(4) by simp
    from Cons.IH [OF inv d(2) t2 o2] show ?thesis
    proof (elim disjE exE conjE)
      fix e n' fs' assume r: "stage_all C ws (n1, fs1) = (Inl e, n', fs')" "same_fs fs1 fs'"
        and rd: "\<exists>w \<in> set ws. \<exists>p \<in> set (targets w). read_existing fs0 p = Inl e"
      obtain fs3 where "drop_all (write_staged x) (n', fs') = (n', fs3)" "same_fs fs fs3"
        using drop_undo [OF os r(2) write_staged_set [symmetric]] by blast
      then show ?thesis using x r(1) rd by (simp add: cbind_def owning_def)
    next
      fix ps n' fs'
      assume "stage_all C ws (n1, fs1) = (Inr ps, n', fs')" "stage_inv C W fs0 n' fs' ((ss @ slots x) @ all_slots ps)"
        "set (map pb_path (all_slots ps)) = (\<Union>w \<in> set ws. fst ` set (outputs fs0 w))"
      then show ?thesis using x paths
        by (intro disjI2 exI [of _ "x # ps"] exI [of _ n'] exI [of _ fs']) (simp add: cbind_def owning_def cret_def)
    qed
  qed
qed

end
