(* ===== verification/EsiCommitProps.thy ===== *)
theory EsiCommitProps
  imports EsiCommitStage
begin

text \<open>
  Committing documents: it succeeds with every output written, or fails with nothing changed, unless
  the restoring fails as well.
\<close>

subsection \<open>Validation\<close>

lemma identity_plain:
  assumes "fs_wf fs" "commit_target C fs p"
  shows "path_identity fs p = Inr p"
proof -
  have "resolve_target fs p = Inr p" using plain_at_resolve(2) [OF assms(1)] assms(2) by (simp add: commit_target_def)
  then show ?thesis by (simp add: path_identity_def canonicalize_def metadata_def split: option.split) (cases "fs_get fs p"; simp)
qed

lemma insert_identities_plain:
  assumes "\<forall>p \<in> set ps. path_identity fs p = Inr p"
  shows "insert_identities fs seen ps =
    (if distinct ps \<and> set ps \<inter> seen = {} then Inr (seen \<union> set ps) else Inl InvalidInput)"
  using assms by (induction ps arbitrary: seen) auto

lemma targets_mset:
  "mset (concat (map targets ws)) = mset (map dw_path ws @ map (\<lambda>w. backup_path (dw_path w)) (filter dw_backup ws))"
  by (induction ws) (simp_all add: targets_def)

lemma validate_plain:
  assumes "fs_wf fs" "\<forall>w \<in> set ws. \<forall>p \<in> set (targets w). commit_target C fs p"
  shows "validate_document_writes fs ws = (if distinct (concat (map targets ws)) then Inr () else Inl InvalidInput)"
proof -
  let ?a = "map dw_path ws" and ?b = "map (\<lambda>w. backup_path (dw_path w)) (filter dw_backup ws)"
  have "\<forall>p \<in> set ?a. path_identity fs p = Inr p" "\<forall>p \<in> set ?b. path_identity fs p = Inr p"
    using assms identity_plain [OF assms(1)] by (auto simp: targets_def)
  moreover have "distinct (concat (map targets ws)) \<longleftrightarrow> distinct (?a @ ?b)"
    using mset_eq_imp_distinct_iff [OF targets_mset] by blast
  ultimately show ?thesis by (auto simp: validate_document_writes_def insert_identities_plain)
qed

subsection \<open>Outputs\<close>

lemma outputs_keys: "map fst (outputs fs w) = targets w \<or> map fst (outputs fs w) = [dw_path w]"
  by (auto simp: outputs_def targets_def Let_def split: option.split node.split)

lemma outputs_distinct:
  assumes "distinct (concat (map targets ws))"
  shows "distinct (map fst (concat (map (outputs fs) ws)))"
proof -
  have "set (map fst (outputs fs w)) \<subseteq> set (targets w) \<and> (distinct (targets w) \<longrightarrow> distinct (map fst (outputs fs w)))" for w
    using outputs_keys [of fs w] by (auto simp: targets_def)
  with assms show ?thesis
  proof (induction ws)
    case (Cons w ws)
    have "set (map fst (concat (map (outputs fs) ws))) \<subseteq> set (concat (map targets ws))"
      using Cons.prems(2) by fastforce
    with Cons show ?case by fastforce
  qed simp
qed

definition commit_outputs :: "fs \<Rightarrow> document_write list \<Rightarrow> path \<rightharpoonup> node" where
  "commit_outputs fs ws = map_of (concat (map (outputs fs) ws))"

lemma commit_outputs_in:
  assumes "distinct (concat (map targets ws))" "w \<in> set ws" "(q, nd) \<in> set (outputs fs w)"
  shows "commit_outputs fs ws q = Some nd"
  unfolding commit_outputs_def using assms outputs_distinct [OF assms(1), of fs] by (intro map_of_is_SomeI) auto

lemma commit_outputs_dom: "dom (commit_outputs fs ws) = (\<Union>w \<in> set ws. fst ` set (outputs fs w))"
  by (auto simp: commit_outputs_def dom_map_of_conv_image_fst)

subsection \<open>Committing\<close>

definition commit_ready :: "commit_env \<Rightarrow> nat \<Rightarrow> fs \<Rightarrow> document_write list \<Rightarrow> bool" where
  "commit_ready C n fs ws \<longleftrightarrow> fs_wf fs \<and> fresh_names C fs n \<and> atomic_replace C \<and>
     (\<forall>w \<in> set ws. \<forall>p \<in> set (targets w). commit_target C fs p)"

definition targets_readable :: "fs \<Rightarrow> document_write list \<Rightarrow> bool" where
  "targets_readable fs ws \<longleftrightarrow> (\<forall>w \<in> set ws. \<forall>p \<in> set (targets w). is_ok (read_existing fs p))"

lemma stage_inv_start: "commit_ready C n fs ws \<Longrightarrow> stage_inv C W fs n fs []"
  by (simp add: commit_ready_def stage_inv_def commit_base_def names_below_def)

lemma distinct_concat_owner:
  "distinct (concat (map f xs)) \<Longrightarrow> s \<in> set xs \<Longrightarrow> t \<in> set xs \<Longrightarrow> q \<in> set (f s) \<Longrightarrow> q \<in> set (f t) \<Longrightarrow>
     s = t \<and> distinct (f s)"
  by (induction xs) fastforce+

text \<open>Dropping what is left: the paths that are not targets are as before.\<close>

lemma drop_pending:
  assumes "commit_base fs0 fs (all_slots ps)"
  shows "\<exists>fs'. drop_all (concat (map write_staged ps)) (n, fs) = (n, fs') \<and> fs_wf fs' \<and>
    (\<forall>q. fs_get fs' q = (if q \<in> set (map pb_path (all_slots ps)) then fs_get fs q else fs_get fs0 q))"
proof -
  let ?files = "concat (map write_staged ps)"
  have staged: "{q \<in> sf_path ` set ?files. q \<noteq> []} = set (concat (map staged_paths (all_slots ps)))"
  proof -
    have "{q \<in> sf_path ` set ?files. q \<noteq> []} = (\<Union>p \<in> set ps. {q \<in> sf_path ` set (write_staged p). q \<noteq> []})" by auto
    also have "\<dots> = (\<Union>p \<in> set ps. set (concat (map staged_paths (slots p))))" by (simp only: write_staged_set)
    also have "\<dots> = set (concat (map staged_paths (all_slots ps)))" by (auto simp: all_slots_def)
    finally show ?thesis .
  qed
  have own: "q \<in> set (all_owned (all_slots ps)) \<longleftrightarrow>
      q \<in> set (map pb_path (all_slots ps)) \<or> q \<in> set (concat (map staged_paths (all_slots ps)))" for q
    by (auto simp: all_owned_def owned_def)
  have so: "s \<in> set (all_slots ps) \<Longrightarrow> q \<in> set (staged_paths s) \<Longrightarrow> q \<in> set (all_owned (all_slots ps))" for s q
    by (auto simp: all_owned_def owned_def)
  have st: "plain_at fs (sf_path f) \<and> fs_get fs (sf_path f) \<noteq> Some DirNode" if "f \<in> set ?files" "sf_path f \<noteq> []" for f
  proof -
    have "sf_path f \<in> set (concat (map staged_paths (all_slots ps)))" using staged that by blast
    then have "sf_path f \<in> set (all_owned (all_slots ps))" using own by blast
    then show ?thesis using commit_base_plain [OF assms] by blast
  qed
  have wf: "fs_wf fs" using assms by (simp add: commit_base_def)
  obtain fs' where d: "drop_all ?files (n, fs) = (n, fs')" "fs_wf fs'"
      "\<forall>q. fs_get fs' q = (if q \<noteq> [] \<and> q \<in> sf_path ` set ?files then None else fs_get fs q)"
    using drop_all_step [OF wf] st by blast
  have dist: "q \<notin> set (concat (map staged_paths (all_slots ps)))" if q: "q \<in> set (map pb_path (all_slots ps))" for q
  proof
    assume "q \<in> set (concat (map staged_paths (all_slots ps)))"
    then obtain s t where s: "s \<in> set (all_slots ps)" "q = pb_path s" and t: "t \<in> set (all_slots ps)" "q \<in> set (staged_paths t)"
      using q by auto
    have "distinct (concat (map owned (all_slots ps)))" using assms by (simp add: commit_base_def all_owned_def)
    moreover have "q \<in> set (owned s)" "q \<in> set (owned t)" using s t by (simp_all add: owned_def)
    ultimately have "s = t \<and> distinct (owned s)" using s(1) t(1) by (intro distinct_concat_owner)
    with s t show False by (auto simp: owned_def)
  qed
  have "fs_get fs' q = (if q \<in> set (map pb_path (all_slots ps)) then fs_get fs q else fs_get fs0 q)" for q
  proof (cases "q \<in> set (concat (map staged_paths (all_slots ps)))")
    case True
    then have "q \<noteq> [] \<and> q \<in> sf_path ` set ?files" using staged by blast
    then have "fs_get fs' q = None" using d(3) by simp
    moreover have "fs_get fs0 q = None" using True assms by (auto simp: commit_base_def)
    ultimately show ?thesis using dist True by auto
  next
    case False
    then have "\<not> (q \<noteq> [] \<and> q \<in> sf_path ` set ?files)" using staged by blast
    then have "fs_get fs' q = fs_get fs q" using d(3) by auto
    moreover have "fs_get fs q = fs_get fs0 q" if "q \<notin> set (map pb_path (all_slots ps))"
      using False that own assms by (simp add: commit_base_def)
    ultimately show ?thesis by simp
  qed
  with d show ?thesis by blast
qed

lemma commit_pending:
  assumes "atomic_replace C" "stage_inv C W fs n fs1 (all_slots ps)"
    and "set (map pb_path (all_slots ps)) = dom W"
  shows "\<exists>x n' fs'. (case publish_all C ps (n1, fs1) of
        (None, pending, s) \<Rightarrow> (Inr (), drop_all (concat (map write_staged pending)) s)
      | (Some e, pending, s) \<Rightarrow>
          (case rollback C (rev pending) s of
             (None, pending, s) \<Rightarrow> (Inl (CommitFailed e), drop_all (concat (map write_staged (rev pending))) s)
           | (Some e', pending, s) \<Rightarrow> (Inl (RollbackFailed e e'), drop_all (concat (map write_staged (rev pending))) s)))
      = (x, n', fs') \<and>
    (case x of Inr _ \<Rightarrow> \<forall>q. fs_get fs' q = (case W q of Some nd \<Rightarrow> Some nd | None \<Rightarrow> fs_get fs q)
     | Inl (CommitFailed e) \<Rightarrow> \<not> renames C \<and> (\<forall>q. fs_get fs' q = fs_get fs q)
     | Inl (RollbackFailed e e') \<Rightarrow> \<not> renames C \<and> (\<forall>q. q \<notin> dom W \<longrightarrow> fs_get fs' q = fs_get fs q))"
proof -
  have base: "commit_base fs fs1 ([] @ all_slots ps)" and un: "\<forall>s \<in> set (all_slots ps). unpublished W fs fs1 s"
    using assms(2) by (simp_all add: stage_inv_def)
  obtain e ps1 n2 fs2 where r: "publish_all C ps (n1, fs1) = (e, ps1, n2, fs2)"
      and base2: "commit_base fs fs2 ([] @ all_slots ps1)"
      and st: "\<forall>s \<in> set (all_slots ps1). unpublished W fs fs2 s \<or> published W fs fs2 s"
      and ok: "e = None \<longrightarrow> (\<forall>s \<in> set (all_slots ps1). published W fs fs2 s)" and en: "e \<noteq> None \<longrightarrow> \<not> renames C"
      and paths: "map pb_path (all_slots ps1) = map pb_path (all_slots ps)"
    using publish_all_step [OF assms(1) base un, of n1] by blast
  have dom1: "set (map pb_path (all_slots ps1)) = dom W" using paths assms(3) by simp
  show ?thesis
  proof (cases e)
    case None
    have b: "commit_base fs fs2 (all_slots ps1)" using base2 by simp
    obtain fs' where d: "drop_all (concat (map write_staged ps1)) (n2, fs2) = (n2, fs')"
        "\<forall>q. fs_get fs' q = (if q \<in> set (map pb_path (all_slots ps1)) then fs_get fs2 q else fs_get fs q)"
      using drop_pending [OF b, of n2] by blast
    have pub: "fs_get fs2 q = W q" if "q \<in> set (map pb_path (all_slots ps1))" for q
      using ok None that by (auto simp: published_def)
    have fin: "fs_get fs' q = (case W q of Some nd \<Rightarrow> Some nd | None \<Rightarrow> fs_get fs q)" for q
    proof (cases "q \<in> dom W")
      case True
      then have "fs_get fs' q = W q" using d(2) pub dom1 by simp
      with True show ?thesis by auto
    next
      case False
      then have "W q = None" by auto
      moreover have "fs_get fs' q = fs_get fs q" using False d(2) dom1 by simp
      ultimately show ?thesis by simp
    qed
    then show ?thesis using r None d(1) by simp
  next
    case (Some err)
    have "mset ([] @ all_slots ps1) = mset ([] @ all_slots (rev ps1))"
      by (simp add: all_slots_def mset_concat rev_map [symmetric] sum_list_rev)
    from commit_base_perm [OF this base2] have base3: "commit_base fs fs2 ([] @ all_slots (rev ps1))" .
    have st3: "\<forall>s \<in> set (all_slots (rev ps1)). unpublished W fs fs2 s \<or> published W fs fs2 s"
      using st by (simp add: all_slots_def)
    obtain e' ps2 n3 fs3 where r2: "rollback C (rev ps1) (n2, fs2) = (e', ps2, n3, fs3)"
        and base4: "commit_base fs fs3 ([] @ all_slots ps2)"
        and ok2: "e' = None \<longrightarrow> (\<forall>s \<in> set (all_slots ps2). restored fs fs3 s)"
        and paths2: "map pb_path (all_slots ps2) = map pb_path (all_slots (rev ps1))"
      using rollback_step [OF assms(1) base3 st3, of n2] by blast
    have "mset ([] @ all_slots ps2) = mset (all_slots (rev ps2))"
      by (simp add: all_slots_def mset_concat rev_map [symmetric] sum_list_rev)
    from commit_base_perm [OF this base4] have b: "commit_base fs fs3 (all_slots (rev ps2))" .
    obtain fs' where d: "drop_all (concat (map write_staged (rev ps2))) (n3, fs3) = (n3, fs')"
        "\<forall>q. fs_get fs' q = (if q \<in> set (map pb_path (all_slots (rev ps2))) then fs_get fs3 q else fs_get fs q)"
      using drop_pending [OF b, of n3] by blast
    have "set (map pb_path (all_slots (rev ps2))) = set (map pb_path (all_slots ps2))" by (simp add: all_slots_def)
    also have "\<dots> = set (map pb_path (all_slots (rev ps1)))" using paths2 by simp
    also have "\<dots> = dom W" using dom1 by (simp add: all_slots_def)
    finally have dom2: "set (map pb_path (all_slots (rev ps2))) = dom W" .
    show ?thesis
    proof (cases e')
      case None
      have "fs_get fs3 q = fs_get fs q" if "q \<in> set (map pb_path (all_slots (rev ps2)))" for q
        using ok2 None that by (auto simp: restored_def all_slots_def)
      then have "fs_get fs' q = fs_get fs q" for q using d(2) by simp
      then show ?thesis using r Some r2 None d(1) en by simp
    next
      case (Some e2)
      have "fs_get fs' q = fs_get fs q" if "q \<notin> dom W" for q using d(2) that dom2 by simp
      then show ?thesis using r \<open>e = Some err\<close> r2 Some d(1) en by simp
    qed
  qed
qed

lemma commit_spec:
  assumes "commit_ready C n fs ws"
  shows "\<exists>x n' fs'. commit_documents_with C ws (n, fs) = (x, n', fs') \<and>
    (case x of Inr _ \<Rightarrow> \<forall>q. fs_get fs' q = (case commit_outputs fs ws q of Some nd \<Rightarrow> Some nd | None \<Rightarrow> fs_get fs q)
     | Inl (CommitFailed e) \<Rightarrow> \<forall>q. fs_get fs' q = fs_get fs q
     | Inl (RollbackFailed e e') \<Rightarrow> \<forall>q. q \<notin> dom (commit_outputs fs ws) \<longrightarrow> fs_get fs' q = fs_get fs q) \<and>
    (\<not> distinct (concat (map targets ws)) \<longrightarrow> x = Inl (CommitFailed InvalidInput)) \<and>
    (renames C \<and> distinct (concat (map targets ws)) \<and> targets_readable fs ws \<longrightarrow> x = Inr ())"
proof -
  have at: "atomic_replace C" and wf: "fs_wf fs" and tg: "\<forall>w \<in> set ws. \<forall>p \<in> set (targets w). commit_target C fs p"
    using assms by (simp_all add: commit_ready_def)
  note v = validate_plain [OF wf tg]
  let ?W = "commit_outputs fs ws"
  show ?thesis
  proof (cases "distinct (concat (map targets ws))")
    case False
    then have "commit_documents_with C ws (n, fs) = (Inl (CommitFailed InvalidInput), n, fs)"
      by (simp add: commit_documents_with_def v)
    with False show ?thesis by simp
  next
    case True
    have t: "\<forall>w \<in> set ws. \<forall>p \<in> set (targets w). commit_target C fs p \<and> p \<notin> set (all_owned [])" using tg by simp
    have o: "\<forall>w \<in> set ws. \<forall>(q, nd) \<in> set (outputs fs w). ?W q = Some nd" using commit_outputs_in [OF True] by blast
    from stage_all_step [OF stage_inv_start [OF assms] True t o] show ?thesis
    proof (elim disjE exE conjE)
      fix e n' fs' assume st: "stage_all C ws (n, fs) = (Inl e, n', fs')" "same_fs fs fs'"
        and rd: "\<exists>w \<in> set ws. \<exists>p \<in> set (targets w). read_existing fs p = Inl e"
      have "commit_documents_with C ws (n, fs) = (Inl (CommitFailed e), n', fs')"
        using True st(1) by (simp add: commit_documents_with_def v)
      moreover have "\<not> targets_readable fs ws" using rd by (force simp: targets_readable_def)
      ultimately show ?thesis using True st(2) by (simp add: same_fs_def)
    next
      fix ps n1 fs1
      assume st: "stage_all C ws (n, fs) = (Inr ps, n1, fs1)" and inv: "stage_inv C ?W fs n1 fs1 ([] @ all_slots ps)"
        and paths: "set (map pb_path (all_slots ps)) = (\<Union>w \<in> set ws. fst ` set (outputs fs w))"
      have inv': "stage_inv C ?W fs n1 fs1 (all_slots ps)" using inv by simp
      have dm: "set (map pb_path (all_slots ps)) = dom ?W" using paths commit_outputs_dom by simp
      obtain x n' fs' where c: "(case publish_all C ps (n1, fs1) of
          (None, pending, s) \<Rightarrow> (Inr (), drop_all (concat (map write_staged pending)) s)
        | (Some e, pending, s) \<Rightarrow>
            (case rollback C (rev pending) s of
               (None, pending, s) \<Rightarrow> (Inl (CommitFailed e), drop_all (concat (map write_staged (rev pending))) s)
             | (Some e', pending, s) \<Rightarrow> (Inl (RollbackFailed e e'), drop_all (concat (map write_staged (rev pending))) s)))
        = (x, n', fs')"
        and x: "case x of Inr _ \<Rightarrow> \<forall>q. fs_get fs' q = (case ?W q of Some nd \<Rightarrow> Some nd | None \<Rightarrow> fs_get fs q)
     | Inl (CommitFailed e) \<Rightarrow> \<not> renames C \<and> (\<forall>q. fs_get fs' q = fs_get fs q)
     | Inl (RollbackFailed e e') \<Rightarrow> \<not> renames C \<and> (\<forall>q. q \<notin> dom ?W \<longrightarrow> fs_get fs' q = fs_get fs q)"
        using commit_pending [OF at inv' dm] by blast
      have run: "commit_documents_with C ws (n, fs) = (x, n', fs')"
        using True st c by (simp add: commit_documents_with_def v)
      have "renames C \<Longrightarrow> x = Inr ()" using x by (auto split: sum.splits commit_error.splits)
      with run x True show ?thesis by (auto split: sum.splits commit_error.splits)
    qed
  qed
qed

subsection \<open>The property\<close>

text \<open>C34: A commit of documents is all or nothing.  When it succeeds every target holds the new contents, with
  the mode it had, every backup that was asked for holds the old contents, and nothing else is
  changed: no staging file is left.  When it fails because an output could not be read or a
  rename failed, every path is as before; only when the restoring fails as well may the targets
  and backups differ.  Outputs that are named twice are refused, and when renaming works and every
  target can be read it succeeds.\<close>

theorem commit_documents_spec:
  assumes "commit_ready C n fs ws"
  shows "\<exists>x n' fs'. commit_documents_with C ws (n, fs) = (x, n', fs') \<and>
    (case x of Inr _ \<Rightarrow> \<forall>q. fs_get fs' q = (case commit_outputs fs ws q of Some nd \<Rightarrow> Some nd | None \<Rightarrow> fs_get fs q)
     | Inl (CommitFailed e) \<Rightarrow> \<forall>q. fs_get fs' q = fs_get fs q
     | Inl (RollbackFailed e e') \<Rightarrow> \<forall>q. q \<notin> dom (commit_outputs fs ws) \<longrightarrow> fs_get fs' q = fs_get fs q) \<and>
    (\<not> distinct (concat (map targets ws)) \<longrightarrow> x = Inl (CommitFailed InvalidInput)) \<and>
    (renames C \<and> distinct (concat (map targets ws)) \<and> targets_readable fs ws \<longrightarrow> x = Inr ())"
  using assms by (rule commit_spec)

definition commit_fs :: fs where
  "commit_fs = [([''d''], DirNode), ([''d'', ''a''], FileNode ''old'' 0x180)]"

definition commit_sample :: commit_env where
  "commit_sample = \<lparr>ce_random = (\<lambda>n. replicate n (CHR ''x'')), ce_replace = (\<lambda>n. fs_rename)\<rparr>"

definition commit_writes :: "document_write list" where
  "commit_writes = [\<lparr>dw_path = [''d'', ''a''], dw_contents = ''new'', dw_backup = True\<rparr>,
     \<lparr>dw_path = [''d'', ''b''], dw_contents = ''more'', dw_backup = True\<rparr>]"

lemma commit_fs_get:
  "fs_get commit_fs p = (if p = [] \<or> p = [''d''] then Some DirNode
     else if p = [''d'', ''a''] then Some (FileNode ''old'' 0x180) else None)"
  by (simp add: fs_get_def commit_fs_def)

lemma commit_sample_targets:
  "map targets commit_writes = [[[''d'', ''a''], [''d'', ''a.bak'']], [[''d'', ''b''], [''d'', ''b.bak'']]]"
  by (simp add: commit_writes_def targets_def backup_path_def append_path_suffix_def)

lemma commit_sample_target:
  assumes "c \<in> {''a'', ''a.bak'', ''b'', ''b.bak''}"
  shows "commit_target commit_sample commit_fs [''d'', c]" "is_ok (read_existing commit_fs [''d'', c])"
proof -
  have wf: "fs_wf commit_fs" by (simp add: fs_wf_def commit_fs_def fs_get_def)
  show t: "commit_target commit_sample commit_fs [''d'', c]"
    using assms by (auto simp: commit_target_def plain_at_def no_parent_refs_def commit_fs_get permission_bits_def stage_name_def)
  then have r: "resolve_target commit_fs [''d'', c] = Inr [''d'', c]"
    using plain_at_resolve(2) [OF wf] by (simp add: commit_target_def)
  have m: "metadata commit_fs [''d'', c] = ok_or NotFound (fs_get commit_fs [''d'', c])" by (simp add: metadata_def r)
  show "is_ok (read_existing commit_fs [''d'', c])"
    unfolding read_existing_def fs_read_def m by (simp add: commit_fs_get owner_read_def)
qed

lemma commit_sample_paths:
  assumes "w \<in> set commit_writes" "p \<in> set (targets w)"
  shows "commit_target commit_sample commit_fs p" "is_ok (read_existing commit_fs p)"
proof -
  have "p \<in> {[''d'', ''a''], [''d'', ''a.bak''], [''d'', ''b''], [''d'', ''b.bak'']}"
    using assms by (auto simp: commit_writes_def targets_def backup_path_def append_path_suffix_def)
  then show "commit_target commit_sample commit_fs p" "is_ok (read_existing commit_fs p)"
    using commit_sample_target by blast+
qed

lemma commit_sample_ready: "commit_ready commit_sample 0 commit_fs commit_writes"
  "targets_readable commit_fs commit_writes" "renames commit_sample"
proof -
  have "fs_get commit_fs (d @ [stage_name commit_sample i]) = None" for d i
    by (auto simp: commit_fs_get stage_name_def append_eq_Cons_conv)
  moreover have "inj (\<lambda>n. replicate n (CHR ''x''))" by (rule injI) (metis length_replicate)
  ultimately have "fresh_names commit_sample commit_fs 0" by (simp add: fresh_names_def commit_sample_def)
  moreover have "fs_wf commit_fs" by (simp add: fs_wf_def commit_fs_def fs_get_def)
  moreover have "atomic_replace commit_sample" by (simp add: atomic_replace_def commit_sample_def)
  ultimately show "commit_ready commit_sample 0 commit_fs commit_writes"
    using commit_sample_paths(1) by (simp add: commit_ready_def)
  show "targets_readable commit_fs commit_writes"
    using commit_sample_paths(2) by (simp add: targets_readable_def)
  show "renames commit_sample" by (simp add: renames_def commit_sample_def)
qed

lemma commit_sample_outputs:
  "commit_outputs commit_fs commit_writes = [[''d'', ''a''] \<mapsto> FileNode ''new'' 0x180,
     [''d'', ''a.bak''] \<mapsto> FileNode ''old'' 0x180, [''d'', ''b''] \<mapsto> FileNode ''more'' created_mode]"
  by (auto simp: commit_outputs_def commit_writes_def outputs_def Let_def commit_fs_get backup_path_def
      append_path_suffix_def or_mode_def old_mode_def)

theorem commit_documents_spec_witness:
  "\<exists>n' fs'. commit_documents_with commit_sample commit_writes (0, commit_fs) = (Inr (), n', fs') \<and>
     fs_get fs' [''d'', ''a''] = Some (FileNode ''new'' 0x180) \<and> fs_get fs' [''d'', ''a.bak''] = Some (FileNode ''old'' 0x180) \<and>
     fs_get fs' [''d'', ''b''] = Some (FileNode ''more'' created_mode) \<and> fs_get fs' [''d'', ''b.bak''] = None"
proof -
  have "distinct (concat (map targets commit_writes))" by (simp add: commit_sample_targets)
  then obtain n' fs' where "commit_documents_with commit_sample commit_writes (0, commit_fs) = (Inr (), n', fs')"
      "\<forall>q. fs_get fs' q = (case commit_outputs commit_fs commit_writes q of Some nd \<Rightarrow> Some nd | None \<Rightarrow> fs_get commit_fs q)"
    using commit_documents_spec [OF commit_sample_ready(1)] commit_sample_ready(2,3) by auto
  then show ?thesis by (simp add: commit_sample_outputs commit_fs_get)
qed

subsection \<open>A target that is a symbolic link\<close>

text \<open>
  The staged file replaces the link itself, and so does the restored one: a commit that is rolled
  back leaves a regular file where the link was.
\<close>

definition link_fs :: fs where
  "link_fs = [([''a''], FileNode ''old'' 0x180), ([''l''], LinkNode ''a'')]"

text \<open>The first rename works, the second fails, those of the rollback work.\<close>

definition link_env :: commit_env where
  "link_env = \<lparr>ce_random = (\<lambda>n. replicate n (CHR ''x'')),
     ce_replace = (\<lambda>n a b. if b = [''b''] then err PermissionDenied else fs_rename a b)\<rparr>"

definition link_writes :: "document_write list" where
  "link_writes = [\<lparr>dw_path = [''l''], dw_contents = ''new'', dw_backup = False\<rparr>,
     \<lparr>dw_path = [''b''], dw_contents = ''more'', dw_backup = False\<rparr>]"

lemma commit_link_replaced:
  "(case commit_documents_with link_env link_writes (0, link_fs) of (x, n, fs') \<Rightarrow>
     x = Inl (CommitFailed PermissionDenied) \<and> fs_get fs' [''l''] = Some (FileNode ''old'' 0x180) \<and>
     fs_get fs' [''a''] = Some (FileNode ''old'' 0x180))"
  by code_simp

end
