(* ===== verification/EsiCommands.thy ===== *)
theory EsiCommands
  imports EsiCommitProps EsiStore
begin

text \<open>
  The commands on remote indexes (\<^verbatim>\<open>src/bin/elfshaker/esi.rs\<close>), after the parsing of their arguments
  by \<^verbatim>\<open>clap\<close>: the values of the arguments are parameters.
\<close>

datatype esi_error =
    DataDirGiven
  | EsiExists path
  | PackUrlNeedsOnePack
  | PackUnreadable path io_error
  | IndexUnreadable path io_error
  | PackNameNotUtf8 path
  | EsiUnreadable path io_error
  | InvalidEsi path format_error
  | EsiFormat format_error
  | EsiIo io_error
  | EsiCommit commit_error

type_synonym 'a esi_op = "nat \<times> fs \<Rightarrow> (esi_error + 'a) \<times> nat \<times> fs"

record esi_env =
  ee_url :: url_crate
  ee_hex :: hex_crate
  ee_sha1 :: "bytes \<Rightarrow> checksum"
  ee_commit :: commit_env

subsection \<open>Digests and names\<close>

record file_digest =
  fd_checksum :: checksum
  fd_size :: u64

definition buffer_size :: nat where "buffer_size = 64 * 1024"

text \<open>The loop of \<^verbatim>\<open>digest_file\<close>: the bytes hashed so far, and their number with a checked addition.\<close>

function digest_loop :: "bytes \<Rightarrow> u64 \<Rightarrow> bytes \<Rightarrow> io_error + bytes \<times> u64" where
  "digest_loop hashed sofar rest =
     (let buffer = take buffer_size rest in
      if buffer = [] then Inr (hashed, sofar)
      else if unat sofar + length buffer \<ge> 2 ^ 64 then Inl OtherIo
      else digest_loop (hashed @ buffer) (sofar + of_nat (length buffer)) (drop buffer_size rest))"
  by pat_completeness auto
termination by (relation "measure (\<lambda>(h, s, r). length r)") (auto simp: buffer_size_def)

declare digest_loop.simps [simp del]

definition digest_file :: "(bytes \<Rightarrow> checksum) \<Rightarrow> fs \<Rightarrow> path \<Rightarrow> io_error + file_digest" where
  "digest_file sha1 fs p =
     rbind (fs_read fs p) (\<lambda>data.
     rbind (digest_loop [] 0 data) (\<lambda>(hashed, sofar).
     Inr \<lparr>fd_checksum = sha1 hashed, fd_size = sofar\<rparr>))"

definition adjacent_index_path :: "path \<Rightarrow> path" where
  "adjacent_index_path pack = append_path_suffix pack ''.idx''"

definition upper_hex :: "nat \<Rightarrow> byte" where
  "upper_hex n = (''0123456789ABCDEF'' ! n)"

definition url_unreserved :: "byte \<Rightarrow> bool" where
  "url_unreserved b \<longleftrightarrow> is_ascii_alphanumeric b \<or> b \<in> {CHR ''-'', CHR ''.'', CHR ''_'', CHR ''~''}"

fun encode_url_path_segment :: "bytes \<Rightarrow> bytes" where
  "encode_url_path_segment [] = []"
| "encode_url_path_segment (b # bs) =
     (if url_unreserved b then b # encode_url_path_segment bs
      else CHR ''%'' # upper_hex (byte_val b div 16) # upper_hex (byte_val b mod 16) #
        encode_url_path_segment bs)"

definition default_pack_url :: "path \<Rightarrow> esi_error + bytes" where
  "default_pack_url pack =
     (if pack = [] \<or> last pack = ''..'' \<or> \<not> is_utf8 (last pack) then Inl (PackNameNotUtf8 pack)
      else Inr (encode_url_path_segment (last pack)))"

subsection \<open>Loading and publishing\<close>

record loaded_document =
  ld_path :: path
  ld_document :: document
  ld_original :: bytes

definition load_document :: "esi_env \<Rightarrow> fs \<Rightarrow> path \<Rightarrow> esi_error + bytes \<times> document" where
  "load_document E fs p =
     rbind (map_err (EsiUnreadable p) (fs_read fs p)) (\<lambda>data.
     rbind (map_err (InvalidEsi p) (document_parse (ee_url E) (ee_hex E) data)) (\<lambda>d.
     Inr (data, d)))"

definition load_documents :: "esi_env \<Rightarrow> fs \<Rightarrow> path list \<Rightarrow> esi_error + loaded_document list" where
  "load_documents E fs =
     collect (\<lambda>p. rbind (load_document E fs p) (\<lambda>(data, d).
       Inr \<lparr>ld_path = p, ld_document = d, ld_original = data\<rparr>))"

definition document_writes :: "loaded_document list \<Rightarrow> bool \<Rightarrow> document_write list" where
  "document_writes docs backup =
     map (\<lambda>l. \<lparr>dw_path = ld_path l, dw_contents = to_bytes (ld_document l), dw_backup = backup\<rparr>) docs"

definition documents_changed :: "loaded_document list \<Rightarrow> bool list" where
  "documents_changed = map (\<lambda>l. to_bytes (ld_document l) \<noteq> ld_original l)"

definition publish_documents :: "esi_env \<Rightarrow> loaded_document list \<Rightarrow> bool \<Rightarrow> unit esi_op" where
  "publish_documents E docs backup s =
     (let writes = document_writes docs backup in
      case validate_document_writes (snd s) writes of
        Inl e \<Rightarrow> (Inl (EsiIo e), s)
      | Inr _ \<Rightarrow>
          (case commit_documents_with (ee_commit E) (map fst (filter snd (zip writes (documents_changed docs)))) s of
             (x, s) \<Rightarrow> (map_err EsiCommit x, s)))"

subsection \<open>The commands\<close>

definition esi_create :: "esi_env \<Rightarrow> path \<Rightarrow> bool \<Rightarrow> bytes \<Rightarrow> bytes \<Rightarrow> bool \<Rightarrow> unit esi_op" where
  "esi_create E p force meta url no_backup s =
     (if path_exists (snd s) p \<and> \<not> force then (Inl (EsiExists p), s)
      else case rbind (meta_from_str meta) (\<lambda>m. document_create (ee_url E) m url) of
        Inl e \<Rightarrow> (Inl (EsiFormat e), s)
      | Inr d \<Rightarrow>
          (case commit_documents_with (ee_commit E)
             [\<lparr>dw_path = p, dw_contents = to_bytes d, dw_backup = \<not> no_backup\<rparr>] s of
             (x, s) \<Rightarrow> (map_err EsiCommit x, s)))"

text \<open>The line printed for an entry; \<^verbatim>\<open>expect\<close> panics on a missing size.\<close>

definition list_entry :: "hex_crate \<Rightarrow> meta_version \<Rightarrow> esi_entry \<Rightarrow> esi_error failure + bytes" where
  "list_entry H meta e =
     (let line = hex_encode H (en_index_checksum e) @ tab # hex_encode H (en_pack_checksum e) @ tab # en_url e in
      if meta = V2
      then rbind (ok_or Panicked (en_pack_size e)) (\<lambda>p.
           rbind (ok_or Panicked (en_index_size e)) (\<lambda>i.
           Inr (line @ tab # show_nat (unat p) @ tab # show_nat (unat i) @ [newline])))
      else Inr (line @ [newline]))"

definition esi_list :: "esi_env \<Rightarrow> fs \<Rightarrow> path \<Rightarrow> esi_error failure + bytes" where
  "esi_list E fs p =
     rbind (map_err Fail (load_document E fs p)) (\<lambda>(_, d).
     rbind (collect (list_entry (ee_hex E) (doc_meta d)) (document_entries d)) (\<lambda>ls. Inr (concat ls)))"

definition pack_entry :: "esi_env \<Rightarrow> fs \<Rightarrow> bytes option \<Rightarrow> path \<Rightarrow> esi_error + esi_entry" where
  "pack_entry E fs pack_url pack =
     (let index = adjacent_index_path pack in
      rbind (map_err (PackUnreadable pack) (digest_file (ee_sha1 E) fs pack)) (\<lambda>pd.
      rbind (map_err (IndexUnreadable index) (digest_file (ee_sha1 E) fs index)) (\<lambda>xd.
      rbind (case pack_url of Some url \<Rightarrow> Inr url | None \<Rightarrow> default_pack_url pack) (\<lambda>url.
      Inr \<lparr>en_index_checksum = fd_checksum xd, en_pack_checksum = fd_checksum pd, en_url = url,
        en_pack_size = Some (fd_size pd), en_index_size = Some (fd_size xd)\<rparr>))))"

text \<open>Editing every loaded document in the same way.\<close>

definition edit_documents ::
    "(document \<Rightarrow> 'e \<Rightarrow> format_error + document) \<Rightarrow> 'e list \<Rightarrow> loaded_document list \<Rightarrow>
     esi_error + loaded_document list" where
  "edit_documents f es docs =
     collect (\<lambda>l. rbind (map_err EsiFormat (edit_all f (ld_document l) es)) (\<lambda>d.
       Inr (l\<lparr>ld_document := d\<rparr>))) docs"

definition add_documents ::
    "esi_env \<Rightarrow> fs \<Rightarrow> path list \<Rightarrow> path list \<Rightarrow> bytes option \<Rightarrow> bool \<Rightarrow> esi_error + loaded_document list" where
  "add_documents E fs paths packs pack_url force =
     rbind (load_documents E fs paths) (\<lambda>docs.
     if pack_url \<noteq> None \<and> length packs \<noteq> 1 then Inl PackUrlNeedsOnePack
     else rbind (collect (pack_entry E fs pack_url) packs) (\<lambda>es.
       edit_documents (\<lambda>d e. document_add (ee_url E) (ee_hex E) d e force) es docs))"

definition esi_add ::
    "esi_env \<Rightarrow> path list \<Rightarrow> path list \<Rightarrow> bytes option \<Rightarrow> bool \<Rightarrow> bool \<Rightarrow> unit esi_op" where
  "esi_add E paths packs pack_url force no_backup s =
     (case add_documents E (snd s) paths packs pack_url force of
        Inl e \<Rightarrow> (Inl e, s)
      | Inr docs \<Rightarrow> publish_documents E docs (\<not> no_backup) s)"

definition remove_documents ::
    "esi_env \<Rightarrow> fs \<Rightarrow> path list \<Rightarrow> bytes list \<Rightarrow> bool \<Rightarrow> esi_error + loaded_document list" where
  "remove_documents E fs paths urls force =
     rbind (load_documents E fs paths) (edit_documents (\<lambda>d url. document_remove d url force) urls)"

definition esi_remove :: "esi_env \<Rightarrow> path list \<Rightarrow> bytes list \<Rightarrow> bool \<Rightarrow> bool \<Rightarrow> unit esi_op" where
  "esi_remove E paths urls force no_backup s =
     (case remove_documents E (snd s) paths urls force of
        Inl e \<Rightarrow> (Inl e, s)
      | Inr docs \<Rightarrow> publish_documents E docs (\<not> no_backup) s)"

definition target_paths :: "path \<Rightarrow> path list option \<Rightarrow> path list" where
  "target_paths esi_file also = esi_file # (case also of Some ps \<Rightarrow> ps | None \<Rightarrow> [])"

text \<open>What \<^verbatim>\<open>run\<close> is called with: the subcommand and its arguments.\<close>

datatype esi_command =
    EsiCreate path bool bytes bytes bool
  | EsiList path
  | EsiAdd path "path list option" "path list" "bytes option" bool bool
  | EsiRemove path "path list option" "bytes list" bool bool

text \<open>The result with what is printed.\<close>

definition esi_run :: "esi_env \<Rightarrow> bool \<Rightarrow> esi_command \<Rightarrow> nat \<times> fs \<Rightarrow> (esi_error failure + bytes) \<times> nat \<times> fs" where
  "esi_run E data_dir_given c s =
     (let quiet = (\<lambda>(x, s). (map_err Fail (rbind x (\<lambda>_. Inr [])), s))
      in if data_dir_given then (Inl (Fail DataDirGiven), s)
         else case c of
           EsiCreate p force meta url no_backup \<Rightarrow> quiet (esi_create E p force meta url no_backup s)
         | EsiList p \<Rightarrow> (esi_list E (snd s) p, s)
         | EsiAdd p also packs pack_url force no_backup \<Rightarrow>
             quiet (esi_add E (target_paths p also) packs pack_url force no_backup s)
         | EsiRemove p also urls force no_backup \<Rightarrow>
             quiet (esi_remove E (target_paths p also) urls force no_backup s))"

end
