(* ===== verification/EsiCommandProps.thy ===== *)
theory EsiCommandProps
  imports EsiCommands
begin

text \<open>
  The commands that edit remote indexes, from the files they read to the files they write.
\<close>

subsection \<open>Digests\<close>

lemma digest_loop_whole:
  "unat sofar + length rest < 2 ^ 64 \<Longrightarrow> digest_loop hashed sofar rest = Inr (hashed @ rest, sofar + of_nat (length rest))"
proof (induction hashed sofar rest rule: digest_loop.induct)
  case (1 hashed sofar rest)
  show ?case
  proof (cases "rest = []")
    case True
    then show ?thesis by (subst digest_loop.simps) (simp add: Let_def)
  next
    case False
    let ?b = "take buffer_size rest" and ?r = "drop buffer_size rest"
    have ne: "?b \<noteq> []" using False by (simp add: buffer_size_def)
    have len: "length ?b + length ?r = length rest" by simp
    have fits: "unat sofar + length ?b < 2 ^ 64" using 1(2) len by linarith
    have lb: "length ?b < 2 ^ 64" using fits by linarith
    have ul: "unat (of_nat (length ?b) :: u64) = length ?b" using lb by (simp add: unat_of_nat take_bit_nat_eq_self)
    have un: "unat (sofar + of_nat (length ?b)) = unat sofar + length ?b"
      using fits ul by (simp add: unat_plus_if_size word_size)
    have small: "unat (sofar + of_nat (length ?b)) + length ?r < 2 ^ 64" using un len 1(2) by linarith
    have ih: "digest_loop (hashed @ ?b) (sofar + of_nat (length ?b)) ?r =
        Inr ((hashed @ ?b) @ ?r, sofar + of_nat (length ?b) + of_nat (length ?r))"
      using 1(1) [OF refl ne _ small] fits by simp
    have sum: "of_nat (length ?b) + of_nat (length ?r) = (of_nat (length rest) :: u64)"
      by (metis len of_nat_add)
    have "digest_loop hashed sofar rest = digest_loop (hashed @ ?b) (sofar + of_nat (length ?b)) ?r"
      using ne fits by (subst digest_loop.simps) (simp add: Let_def)
    also have "\<dots> = Inr (hashed @ rest, sofar + of_nat (length rest))"
      unfolding ih using sum by (simp add: add.assoc)
    finally show ?thesis .
  qed
qed

text \<open>The digest of a file is the checksum and the size of its content.\<close>

lemma digest_file_whole:
  assumes "fs_read fs p = Inr data" "length data < 2 ^ 64"
  shows "digest_file sha1 fs p = Inr \<lparr>fd_checksum = sha1 data, fd_size = of_nat (length data)\<rparr>"
  using digest_loop_whole [of 0 data "[]"] assms by (simp add: digest_file_def)

subsection \<open>Pack URLs\<close>

fun percent_decode :: "bytes \<Rightarrow> bytes" where
  "percent_decode [] = []"
| "percent_decode (c # cs) =
     (if c = CHR ''%'' then
        (case cs of a # b # r \<Rightarrow> byte_of (16 * the (position (\<lambda>x. x = a) ''0123456789ABCDEF'') +
             the (position (\<lambda>x. x = b) ''0123456789ABCDEF'')) # percent_decode r
         | _ \<Rightarrow> cs)
      else c # percent_decode cs)"

lemma position_nth: "distinct xs \<Longrightarrow> n < length xs \<Longrightarrow> position (\<lambda>x. x = xs ! n) xs = Some n"
proof (induction xs arbitrary: n)
  case Nil
  then show ?case by simp
next
  case (Cons x xs)
  then show ?case by (cases n) auto
qed

lemma upper_hex_facts:
  assumes "n < 16"
  shows "position (\<lambda>x. x = upper_hex n) ''0123456789ABCDEF'' = Some n" "is_ascii_alphanumeric (upper_hex n)"
proof -
  have "distinct ''0123456789ABCDEF''" by simp
  then show "position (\<lambda>x. x = upper_hex n) ''0123456789ABCDEF'' = Some n"
    unfolding upper_hex_def using assms by (intro position_nth) simp_all
  have "list_all is_ascii_alphanumeric ''0123456789ABCDEF''"
    by (simp add: is_ascii_alphanumeric_def is_ascii_alphabetic_def is_ascii_digit_def ascii_upper_def ascii_lower_def byte_val_def)
  then have "\<forall>k < 16. is_ascii_alphanumeric (''0123456789ABCDEF'' ! k)" by (simp add: list_all_length)
  with assms show "is_ascii_alphanumeric (upper_hex n)" by (simp only: upper_hex_def)
qed

lemma percent_not_unreserved: "\<not> url_unreserved (CHR ''%'')"
  by (simp add: url_unreserved_def is_ascii_alphanumeric_def is_ascii_alphabetic_def is_ascii_digit_def
      ascii_upper_def ascii_lower_def byte_val_def)

lemma encode_url_decodes: "percent_decode (encode_url_path_segment s) = s"
proof (induction s)
  case Nil
  then show ?case by simp
next
  case (Cons b bs)
  have "byte_val b div 16 < 16" "byte_val b mod 16 < 16" using byte_val_less [of b] by (simp_all add: div_less_iff_less_mult)
  with Cons upper_hex_facts(1) percent_not_unreserved show ?case by auto
qed

lemma encode_url_chars: "b \<in> set (encode_url_path_segment s) \<Longrightarrow> url_unreserved b \<or> b = CHR ''%''"
proof (induction s)
  case Nil
  then show ?case by simp
next
  case (Cons c s)
  have "byte_val c div 16 < 16" "byte_val c mod 16 < 16" using byte_val_less [of c] by (simp_all add: div_less_iff_less_mult)
  with Cons upper_hex_facts(2) show ?case by (auto simp: url_unreserved_def split: if_splits)
qed

subsection \<open>Publishing loaded documents\<close>

definition rollback_failed :: "esi_error + unit \<Rightarrow> bool" where
  "rollback_failed x \<longleftrightarrow> (\<exists>e e'. x = Inl (EsiCommit (RollbackFailed e e')))"

text \<open>Only the changed documents are committed; the checks are made on all of them.\<close>

definition changed_writes :: "loaded_document list \<Rightarrow> bool \<Rightarrow> document_write list" where
  "changed_writes docs backup = map fst (filter snd (zip (document_writes docs backup) (documents_changed docs)))"

lemma changed_writes_filter:
  "changed_writes docs backup = document_writes (filter (\<lambda>l. to_bytes (ld_document l) \<noteq> ld_original l) docs) backup"
  by (induction docs) (simp_all add: changed_writes_def document_writes_def documents_changed_def)

lemma document_writes_simps [simp]:
  "document_writes [] backup = []"
  "document_writes (l # docs) backup =
     \<lparr>dw_path = ld_path l, dw_contents = to_bytes (ld_document l), dw_backup = backup\<rparr> # document_writes docs backup"
  by (simp_all add: document_writes_def)

lemma commit_ready_subset:
  "commit_ready C n fs ws \<Longrightarrow> set vs \<subseteq> set ws \<Longrightarrow> commit_ready C n fs vs"
  by (auto simp: commit_ready_def)

lemma distinct_targets_filter:
  "distinct (concat (map targets (document_writes docs b))) \<Longrightarrow>
     distinct (concat (map targets (document_writes (filter P docs) b)))"
proof (induction docs)
  case Nil
  then show ?case by simp
next
  case (Cons l docs)
  have "set (concat (map targets (document_writes (filter P docs) b))) \<subseteq> set (concat (map targets (document_writes docs b)))"
    by (auto simp: document_writes_def)
  with Cons show ?case by auto
qed

definition loaded_from :: "fs \<Rightarrow> loaded_document \<Rightarrow> bool" where
  "loaded_from fs l \<longleftrightarrow> (\<exists>m. fs_get fs (ld_path l) = Some (FileNode (ld_original l) m) \<and> and m owner_read \<noteq> 0)"

text \<open>After publishing: the document is written with the mode it had, and its old bytes are saved.\<close>

definition written_to :: "fs \<Rightarrow> fs \<Rightarrow> bool \<Rightarrow> loaded_document \<Rightarrow> bool" where
  "written_to fs fs' backup l \<longleftrightarrow>
     (\<exists>m. fs_get fs (ld_path l) = Some (FileNode (ld_original l) m) \<and>
       fs_get fs' (ld_path l) = Some (FileNode (to_bytes (ld_document l)) m)) \<and>
     (backup \<and> to_bytes (ld_document l) \<noteq> ld_original l \<longrightarrow>
       (\<exists>m. fs_get fs' (backup_path (ld_path l)) = Some (FileNode (ld_original l) m)))"

lemma document_outputs:
  assumes "loaded_from fs l"
  shows "\<exists>m m'. fs_get fs (ld_path l) = Some (FileNode (ld_original l) m) \<and>
    outputs fs \<lparr>dw_path = ld_path l, dw_contents = to_bytes (ld_document l), dw_backup = backup\<rparr> =
      (ld_path l, FileNode (to_bytes (ld_document l)) m) #
      (if backup then [(backup_path (ld_path l), FileNode (ld_original l) m')] else [])"
  using assms by (auto simp: loaded_from_def outputs_def Let_def old_mode_def or_mode_def)

lemma outputs_subset: "set (map fst (outputs fs w)) \<subseteq> set (targets w)"
  by (auto simp: outputs_def targets_def Let_def split: option.splits node.splits if_splits)

lemma publish_spec:
  assumes "commit_ready (ee_commit E) n fs (document_writes docs backup)" "\<forall>l \<in> set docs. loaded_from fs l"
  shows "\<exists>x n' fs'. publish_documents E docs backup (n, fs) = (x, n', fs') \<and>
    (x = Inr () \<longrightarrow> (\<forall>l \<in> set docs. written_to fs fs' backup l) \<and>
       (\<forall>q. q \<notin> set (concat (map targets (document_writes docs backup))) \<longrightarrow> fs_get fs' q = fs_get fs q)) \<and>
    (x \<noteq> Inr () \<and> \<not> rollback_failed x \<longrightarrow> (\<forall>q. fs_get fs' q = fs_get fs q)) \<and>
    (renames (ee_commit E) \<and> distinct (concat (map targets (document_writes docs backup))) \<and>
       targets_readable fs (document_writes docs backup) \<longrightarrow> x = Inr ())"
proof -
  let ?ws = "document_writes docs backup" and ?ch = "\<lambda>l. to_bytes (ld_document l) \<noteq> ld_original l"
  let ?vs = "document_writes (filter ?ch docs) backup"
  have wf: "fs_wf fs" and tg: "\<forall>w \<in> set ?ws. \<forall>p \<in> set (targets w). commit_target (ee_commit E) fs p"
    using assms(1) by (simp_all add: commit_ready_def)
  note v = validate_plain [OF wf tg]
  have sub: "set ?vs \<subseteq> set ?ws" by (auto simp: document_writes_def)
  note ready = commit_ready_subset [OF assms(1) sub]
  show ?thesis
  proof (cases "distinct (concat (map targets ?ws))")
    case False
    then have "publish_documents E docs backup (n, fs) = (Inl (EsiIo InvalidInput), n, fs)"
      by (simp add: publish_documents_def Let_def v)
    with False show ?thesis by simp
  next
    case True
    have dv: "distinct (concat (map targets ?vs))" by (rule distinct_targets_filter [OF True])
    obtain x n' fs' where c: "commit_documents_with (ee_commit E) ?vs (n, fs) = (x, n', fs')"
        and spec: "case x of Inr _ \<Rightarrow> \<forall>q. fs_get fs' q = (case commit_outputs fs ?vs q of Some nd \<Rightarrow> Some nd | None \<Rightarrow> fs_get fs q)
          | Inl (CommitFailed e) \<Rightarrow> \<forall>q. fs_get fs' q = fs_get fs q
          | Inl (RollbackFailed e e') \<Rightarrow> \<forall>q. q \<notin> dom (commit_outputs fs ?vs) \<longrightarrow> fs_get fs' q = fs_get fs q"
        and ok: "renames (ee_commit E) \<and> distinct (concat (map targets ?vs)) \<and> targets_readable fs ?vs \<longrightarrow> x = Inr ()"
      using commit_spec [OF ready] by blast
    have run: "publish_documents E docs backup (n, fs) = (map_err EsiCommit x, n', fs')"
      using True c by (simp add: publish_documents_def Let_def v changed_writes_filter [unfolded changed_writes_def])
    have dom: "dom (commit_outputs fs ?vs) \<subseteq> set (concat (map targets ?ws))"
    proof
      fix q assume "q \<in> dom (commit_outputs fs ?vs)"
      then obtain w where w: "w \<in> set ?vs" "q \<in> set (map fst (outputs fs w))" by (auto simp: commit_outputs_dom)
      then have "q \<in> set (targets w)" using outputs_subset by blast
      with w(1) sub show "q \<in> set (concat (map targets ?ws))" by auto
    qed
    have suc: "(\<forall>l \<in> set docs. written_to fs fs' backup l) \<and>
       (\<forall>q. q \<notin> set (concat (map targets ?ws)) \<longrightarrow> fs_get fs' q = fs_get fs q)" if "x = Inr ()"
    proof -
      have get: "fs_get fs' q = (case commit_outputs fs ?vs q of Some nd \<Rightarrow> Some nd | None \<Rightarrow> fs_get fs q)" for q
        using spec that by simp
      have "written_to fs fs' backup l" if l: "l \<in> set docs" for l
      proof -
        let ?w = "\<lparr>dw_path = ld_path l, dw_contents = to_bytes (ld_document l), dw_backup = backup\<rparr>"
        obtain m m' where o: "fs_get fs (ld_path l) = Some (FileNode (ld_original l) m)" "outputs fs ?w =
            (ld_path l, FileNode (to_bytes (ld_document l)) m) #
            (if backup then [(backup_path (ld_path l), FileNode (ld_original l) m')] else [])"
          using document_outputs assms(2) l by blast
        show ?thesis
        proof (cases "?ch l")
          case True
          then have "?w \<in> set ?vs" using l by (auto simp: document_writes_def)
          note wr = commit_outputs_in [OF dv this, of _ _ fs]
          have "commit_outputs fs ?vs (ld_path l) = Some (FileNode (to_bytes (ld_document l)) m)"
            by (rule wr) (simp add: o(2))
          moreover have "backup \<Longrightarrow> commit_outputs fs ?vs (backup_path (ld_path l)) = Some (FileNode (ld_original l) m')"
            by (rule wr) (unfold o(2), simp)
          ultimately show ?thesis using o(1) get by (simp add: written_to_def)
        next
          case False
          have "ld_path l \<notin> set (targets v)" if v: "v \<in> set ?vs" for v
          proof
            assume a: "ld_path l \<in> set (targets v)"
            have wv: "?w \<in> set ?ws" "v \<in> set ?ws" using l v sub by (auto simp: document_writes_def)
            have "?w = v \<and> distinct (targets ?w)"
              by (rule distinct_concat_owner [OF True wv _ a]) (simp add: targets_def)
            then obtain k where k: "k \<in> set docs" "?ch k" "ld_path k = ld_path l" "to_bytes (ld_document k) = to_bytes (ld_document l)"
              using v by (auto simp: document_writes_def)
            with assms(2) o(1) False show False by (auto simp: loaded_from_def)
          qed
          then have "\<forall>v \<in> set ?vs. ld_path l \<notin> set (map fst (outputs fs v))" using outputs_subset by blast
          then have "ld_path l \<notin> dom (commit_outputs fs ?vs)" by (simp add: commit_outputs_dom)
          then have "fs_get fs' (ld_path l) = fs_get fs (ld_path l)" using get by (auto simp: dom_def)
          with False o(1) show ?thesis by (simp add: written_to_def)
        qed
      qed
      moreover have "fs_get fs' q = fs_get fs q" if "q \<notin> set (concat (map targets ?ws))" for q
        using get [of q] that dom by (auto split: option.split)
      ultimately show ?thesis by blast
    qed
    have fl: "\<forall>q. fs_get fs' q = fs_get fs q" if "map_err EsiCommit x \<noteq> Inr ()" "\<not> rollback_failed (map_err EsiCommit x)"
      using spec that by (cases x) (auto simp: rollback_failed_def split: commit_error.splits)
    have rd: "targets_readable fs ?ws \<Longrightarrow> targets_readable fs ?vs" using sub by (auto simp: targets_readable_def)
    have inr: "map_err EsiCommit x = Inr () \<longleftrightarrow> x = Inr ()" by (cases x) auto
    show ?thesis using run suc fl ok dv rd inr by auto
  qed
qed

subsection \<open>Editing files\<close>

definition edit_ready :: "esi_env \<Rightarrow> nat \<Rightarrow> fs \<Rightarrow> path list \<Rightarrow> bool \<Rightarrow> bool" where
  "edit_ready E n fs paths backup \<longleftrightarrow> hex_ok (ee_hex E) \<and>
     commit_ready (ee_commit E) n fs (map (\<lambda>p. \<lparr>dw_path = p, dw_contents = [], dw_backup = backup\<rparr>) paths)"

text \<open>The index at \<^verbatim>\<open>p\<close> was rewritten with the table \<^verbatim>\<open>f\<close> gives, its old bytes are saved.\<close>

definition index_edited ::
    "esi_env \<Rightarrow> fs \<Rightarrow> fs \<Rightarrow> bool \<Rightarrow> (meta_version \<Rightarrow> (bytes \<rightharpoonup> esi_entry) \<Rightarrow> bytes \<rightharpoonup> esi_entry) \<Rightarrow> path \<Rightarrow> bool" where
  "index_edited E fs fs' backup f p \<longleftrightarrow>
     (\<exists>bs d bs' r m. fs_get fs p = Some (FileNode bs m) \<and> document_parse (ee_url E) (ee_hex E) bs = Inr d \<and>
       fs_get fs' p = Some (FileNode bs' m) \<and> document_parse (ee_url E) (ee_hex E) bs' = Inr r \<and>
       keymap en_url (document_entries r) = f (doc_meta d) (keymap en_url (document_entries d)) \<and>
       (backup \<and> bs' \<noteq> bs \<longrightarrow> (\<exists>m'. fs_get fs' (backup_path p) = Some (FileNode bs m'))))"

lemma fs_read_get:
  assumes "fs_wf fs" "commit_target C fs p" "fs_read fs p = Inr data"
  shows "\<exists>m. fs_get fs p = Some (FileNode data m) \<and> and m owner_read \<noteq> 0"
proof -
  have t: "resolve_target fs p = Inr p" using plain_at_resolve(2) [OF assms(1)] assms(2) by (simp add: commit_target_def)
  have m: "metadata fs p = ok_or NotFound (fs_get fs p)" by (simp add: metadata_def t)
  show ?thesis
  proof (cases "fs_get fs p")
    case None
    with assms(3) show ?thesis by (simp add: fs_read_def m)
  next
    case (Some n)
    with assms(3) show ?thesis by (cases n) (auto simp: fs_read_def m split: if_splits)
  qed
qed

lemma load_edit:
  assumes "load_documents E fs paths = Inr docs" "edit_documents f es docs = Inr docs'"
  shows "list_all2 (\<lambda>p l. ld_path l = p \<and> fs_read fs p = Inr (ld_original l) \<and>
    (\<exists>d. document_parse (ee_url E) (ee_hex E) (ld_original l) = Inr d \<and> edit_all f d es = Inr (ld_document l))) paths docs'"
proof -
  have a: "list_all2 (\<lambda>p l. rbind (load_document E fs p) (\<lambda>(data, d). Inr \<lparr>ld_path = p, ld_document = d, ld_original = data\<rparr>) = Inr l) paths docs"
    using assms(1) by (simp add: load_documents_def collect_Inr_iff)
  have b: "list_all2 (\<lambda>l l'. rbind (map_err EsiFormat (edit_all f (ld_document l) es)) (\<lambda>d. Inr (l\<lparr>ld_document := d\<rparr>)) = Inr l') docs docs'"
    using assms(2) by (simp add: edit_documents_def collect_Inr_iff)
  show ?thesis
    by (rule list_all2_trans [OF _ a b]) (auto simp: load_document_def rbind_Inr_iff)
qed

text \<open>When a command that could edit the documents is sure to publish them.\<close>

definition publishable :: "esi_env \<Rightarrow> fs \<Rightarrow> path list \<Rightarrow> bool \<Rightarrow> bool" where
  "publishable E fs paths backup \<longleftrightarrow> renames (ee_commit E) \<and>
     distinct (paths @ (if backup then map backup_path paths else [])) \<and>
     (\<forall>p \<in> set paths. backup \<longrightarrow> is_ok (read_existing fs (backup_path p)))"

lemma edit_command:
  assumes "edit_ready E n fs paths backup" "load_documents E fs paths = Inr docs" "edit_documents f es docs = Inr docs'"
    and "\<forall>bs d d'. document_parse (ee_url E) (ee_hex E) bs = Inr d \<and> edit_all f d es = Inr d' \<longrightarrow>
      (\<exists>r. document_parse (ee_url E) (ee_hex E) (to_bytes d') = Inr r \<and>
        keymap en_url (document_entries r) = g (doc_meta d) (keymap en_url (document_entries d)))"
  shows "\<exists>x n' fs'. publish_documents E docs' backup (n, fs) = (x, n', fs') \<and>
    (x = Inr () \<longrightarrow> (\<forall>p \<in> set paths. index_edited E fs fs' backup g p) \<and>
       (\<forall>q. q \<notin> set paths \<and> (backup \<longrightarrow> q \<notin> backup_path ` set paths) \<longrightarrow> fs_get fs' q = fs_get fs q)) \<and>
    (x \<noteq> Inr () \<and> \<not> rollback_failed x \<longrightarrow> (\<forall>q. fs_get fs' q = fs_get fs q)) \<and>
    (publishable E fs paths backup \<longrightarrow> x = Inr ())"
proof -
  let ?ws = "map (\<lambda>p. \<lparr>dw_path = p, dw_contents = [], dw_backup = backup\<rparr>) paths"
  have cr: "commit_ready (ee_commit E) n fs ?ws" using assms(1) by (simp add: edit_ready_def)
  note l2 = load_edit [OF assms(2,3)]
  have ps: "map ld_path docs' = paths" using l2 by (induction rule: list_all2_induct) auto
  have tgs: "map targets (document_writes docs' backup) = map targets ?ws"
    using ps by (auto simp: document_writes_def targets_def)
  have tset: "set (concat (map targets ?ws)) = set paths \<union> (if backup then backup_path ` set paths else {})"
    by (auto simp: targets_def)
  have ready: "commit_ready (ee_commit E) n fs (document_writes docs' backup)"
  proof -
    have "\<forall>w \<in> set ?ws. \<forall>p \<in> set (targets w). commit_target (ee_commit E) fs p" using cr by (simp add: commit_ready_def)
    then have "\<forall>ts \<in> set (map targets ?ws). \<forall>p \<in> set ts. commit_target (ee_commit E) fs p" by simp
    then have "\<forall>ts \<in> set (map targets (document_writes docs' backup)). \<forall>p \<in> set ts. commit_target (ee_commit E) fs p"
      by (simp only: tgs)
    with cr show ?thesis by (simp add: commit_ready_def)
  qed
  have wf: "fs_wf fs" using cr by (simp add: commit_ready_def)
  have ct: "commit_target (ee_commit E) fs p" if "p \<in> set paths" for p
    using cr that by (simp add: commit_ready_def targets_def)
  have each_doc: "\<exists>p \<in> set paths. ld_path l = p \<and> fs_read fs p = Inr (ld_original l)" if "l \<in> set docs'" for l
    using l2 that by (auto simp: list_all2_conv_all_nth in_set_conv_nth)
  have each_path: "\<exists>l \<in> set docs'. ld_path l = p \<and> fs_read fs p = Inr (ld_original l) \<and>
    (\<exists>d. document_parse (ee_url E) (ee_hex E) (ld_original l) = Inr d \<and> edit_all f d es = Inr (ld_document l))"
    if "p \<in> set paths" for p
    using l2 that by (fastforce simp: list_all2_conv_all_nth in_set_conv_nth)
  have lf: "\<forall>l \<in> set docs'. loaded_from fs l"
    using each_doc fs_read_get [OF wf ct] by (fastforce simp: loaded_from_def)
  obtain x n' fs' where run: "publish_documents E docs' backup (n, fs) = (x, n', fs')"
      and suc: "x = Inr () \<longrightarrow> (\<forall>l \<in> set docs'. written_to fs fs' backup l) \<and>
        (\<forall>q. q \<notin> set (concat (map targets (document_writes docs' backup))) \<longrightarrow> fs_get fs' q = fs_get fs q)"
      and fl: "x \<noteq> Inr () \<and> \<not> rollback_failed x \<longrightarrow> (\<forall>q. fs_get fs' q = fs_get fs q)"
      and ok: "renames (ee_commit E) \<and> distinct (concat (map targets (document_writes docs' backup))) \<and>
        targets_readable fs (document_writes docs' backup) \<longrightarrow> x = Inr ()"
    using publish_spec [OF ready lf] by blast
  have edited: "index_edited E fs fs' backup g p" if x0: "x = Inr ()" and pp: "p \<in> set paths" for p
  proof -
    obtain l d where l: "l \<in> set docs'" "ld_path l = p" "document_parse (ee_url E) (ee_hex E) (ld_original l) = Inr d"
        "edit_all f d es = Inr (ld_document l)"
      using each_path [OF pp] by blast
    from assms(4) l(3,4) obtain r where r: "document_parse (ee_url E) (ee_hex E) (to_bytes (ld_document l)) = Inr r"
        "keymap en_url (document_entries r) = g (doc_meta d) (keymap en_url (document_entries d))" by blast
    have "written_to fs fs' backup l" using suc x0 l(1) by blast
    with l r show ?thesis unfolding index_edited_def written_to_def by blast
  qed
  have frame: "fs_get fs' q = fs_get fs q"
    if "x = Inr ()" "q \<notin> set paths" "backup \<longrightarrow> q \<notin> backup_path ` set paths" for q
  proof -
    have "q \<notin> set (concat (map targets (document_writes docs' backup)))" unfolding tgs tset using that by simp
    with suc that(1) show ?thesis by blast
  qed
  have ok': "x = Inr ()" if rn: "renames (ee_commit E)" and dist: "distinct (paths @ (if backup then map backup_path paths else []))"
      and rdb: "\<forall>p \<in> set paths. backup \<longrightarrow> is_ok (read_existing fs (backup_path p))"
  proof -
    have "mset (concat (map targets ?ws)) = mset (paths @ (if backup then map backup_path paths else []))"
      by (cases backup) (induction paths; simp add: targets_def)+
    then have "distinct (concat (map targets ?ws))" using dist mset_eq_imp_distinct_iff by blast
    moreover have "targets_readable fs (document_writes docs' backup)"
    proof -
      have "is_ok (read_existing fs p)" if pp: "p \<in> set paths" for p
      proof -
        obtain data where "fs_read fs p = Inr data" using each_path [OF pp] by auto
        moreover from \<open>fs_read fs p = Inr data\<close> have "\<exists>n. metadata fs p = Inr n" by (cases "metadata fs p") (auto simp: fs_read_def)
        ultimately show ?thesis by (auto simp: read_existing_def)
      qed
      with rdb have "\<forall>ts \<in> set (map targets ?ws). \<forall>p \<in> set ts. is_ok (read_existing fs p)" by (auto simp: targets_def)
      then have "\<forall>ts \<in> set (map targets (document_writes docs' backup)). \<forall>p \<in> set ts. is_ok (read_existing fs p)"
        by (simp only: tgs)
      then show ?thesis by (simp add: targets_readable_def)
    qed
    ultimately show ?thesis using ok rn by (simp only: tgs)
  qed
  have pok: "publishable E fs paths backup \<longrightarrow> x = Inr ()" unfolding publishable_def using ok' by blast
  show ?thesis using run edited frame fl pok by blast
qed

subsection \<open>The commands\<close>

definition entries_ok :: "esi_env \<Rightarrow> bytes option \<Rightarrow> bool" where
  "entries_ok E pack_url \<longleftrightarrow> (\<forall>b. length (ee_sha1 E b) = 20) \<and> (\<forall>u. pack_url = Some u \<longrightarrow> is_utf8 u)"

lemma encode_url_utf8: "is_utf8 (encode_url_path_segment s)"
proof -
  have "byte_val b < 128" if "b \<in> set (encode_url_path_segment s)" for b
    using encode_url_chars [OF that]
    by (auto simp: url_unreserved_def is_ascii_alphanumeric_def is_ascii_alphabetic_def is_ascii_digit_def
        ascii_upper_def ascii_lower_def byte_val_def)
  then show ?thesis using ascii_string(1) [of "encode_url_path_segment s"] by (simp add: list_all_iff)
qed

lemma pack_entry_fits:
  assumes "entries_ok E pack_url" "pack_entry E fs pack_url pack = Inr e"
  shows "esi_fits d e"
proof -
  have "is_utf8 (en_url e)" "length (en_index_checksum e) = 20" "length (en_pack_checksum e) = 20"
    using assms encode_url_utf8
    by (auto simp: pack_entry_def Let_def rbind_Inr_iff entries_ok_def digest_file_def default_pack_url_def
        split: option.splits if_splits)
  then show ?thesis by (simp add: esi_fits_def entry_fits_def norm_entry_def)
qed

lemma add_command:
  assumes "edit_ready E n fs paths (\<not> no_backup)" "entries_ok E pack_url"
  shows "\<exists>x n' fs'. esi_add E paths packs pack_url force no_backup (n, fs) = (x, n', fs') \<and>
    (x = Inr () \<longrightarrow> (\<exists>es. collect (pack_entry E fs pack_url) packs = Inr es \<and>
       (\<forall>p \<in> set paths. index_edited E fs fs' (\<not> no_backup)
          (\<lambda>meta t. foldl (\<lambda>t e. t(en_url e \<mapsto> norm_entry meta e)) t es) p)) \<and>
       (\<forall>q. q \<notin> set paths \<and> (\<not> no_backup \<longrightarrow> q \<notin> backup_path ` set paths) \<longrightarrow> fs_get fs' q = fs_get fs q)) \<and>
    (x \<noteq> Inr () \<and> \<not> rollback_failed x \<longrightarrow> (\<forall>q. fs_get fs' q = fs_get fs q)) \<and>
    (publishable E fs paths (\<not> no_backup) \<and> is_ok (add_documents E fs paths packs pack_url force) \<longrightarrow> x = Inr ())"
proof (cases "add_documents E fs paths packs pack_url force")
  case (Inl e)
  then have "esi_add E paths packs pack_url force no_backup (n, fs) = (Inl e, n, fs)" by (simp add: esi_add_def)
  with Inl show ?thesis by simp
next
  case (Inr docs')
  then obtain docs es where docs: "load_documents E fs paths = Inr docs" and es: "collect (pack_entry E fs pack_url) packs = Inr es"
      and ed: "edit_documents (\<lambda>d e. document_add (ee_url E) (ee_hex E) d e force) es docs = Inr docs'"
    by (auto simp: add_documents_def rbind_Inr_iff split: if_splits)
  have "list_all2 (\<lambda>p e. pack_entry E fs pack_url p = Inr e) packs es" using es by (simp add: collect_Inr_iff)
  then have fits: "list_all (esi_fits d) es" for d
    using pack_entry_fits [OF assms(2)] by (induction rule: list_all2_induct) auto
  have hx: "hex_ok (ee_hex E)" using assms(1) by (simp add: edit_ready_def)
  have run: "esi_add E paths packs pack_url force no_backup (n, fs) = publish_documents E docs' (\<not> no_backup) (n, fs)"
    using Inr by (simp add: esi_add_def)
  have reads: "\<forall>bs d d'. document_parse (ee_url E) (ee_hex E) bs = Inr d \<and>
      edit_all (\<lambda>d e. document_add (ee_url E) (ee_hex E) d e force) d es = Inr d' \<longrightarrow>
      (\<exists>r. document_parse (ee_url E) (ee_hex E) (to_bytes d') = Inr r \<and> keymap en_url (document_entries r) =
        (\<lambda>meta t. foldl (\<lambda>t e. t(en_url e \<mapsto> norm_entry meta e)) t es) (doc_meta d) (keymap en_url (document_entries d)))"
    using esi_add_reads_back [OF hx _ fits] by blast
  from edit_command [where g = "\<lambda>meta t. foldl (\<lambda>t e. t(en_url e \<mapsto> norm_entry meta e)) t es", OF assms(1) docs ed reads]
  show ?thesis unfolding run using es by blast
qed

lemma remove_command:
  assumes "edit_ready E n fs paths (\<not> no_backup)"
  shows "\<exists>x n' fs'. esi_remove E paths urls force no_backup (n, fs) = (x, n', fs') \<and>
    (x = Inr () \<longrightarrow> (\<forall>p \<in> set paths. index_edited E fs fs' (\<not> no_backup) (\<lambda>meta t. t |` (- set urls)) p) \<and>
       (\<forall>q. q \<notin> set paths \<and> (\<not> no_backup \<longrightarrow> q \<notin> backup_path ` set paths) \<longrightarrow> fs_get fs' q = fs_get fs q)) \<and>
    (x \<noteq> Inr () \<and> \<not> rollback_failed x \<longrightarrow> (\<forall>q. fs_get fs' q = fs_get fs q)) \<and>
    (publishable E fs paths (\<not> no_backup) \<and> is_ok (remove_documents E fs paths urls force) \<longrightarrow> x = Inr ())"
proof (cases "remove_documents E fs paths urls force")
  case (Inl e)
  then have "esi_remove E paths urls force no_backup (n, fs) = (Inl e, n, fs)" by (simp add: esi_remove_def)
  with Inl show ?thesis by simp
next
  case (Inr docs')
  then obtain docs where docs: "load_documents E fs paths = Inr docs"
      and ed: "edit_documents (\<lambda>d url. document_remove d url force) urls docs = Inr docs'"
    by (auto simp: remove_documents_def rbind_Inr_iff)
  have hx: "hex_ok (ee_hex E)" using assms(1) by (simp add: edit_ready_def)
  have run: "esi_remove E paths urls force no_backup (n, fs) = publish_documents E docs' (\<not> no_backup) (n, fs)"
    using Inr by (simp add: esi_remove_def)
  have reads: "\<forall>bs d d'. document_parse (ee_url E) (ee_hex E) bs = Inr d \<and>
      edit_all (\<lambda>d url. document_remove d url force) d urls = Inr d' \<longrightarrow>
      (\<exists>r. document_parse (ee_url E) (ee_hex E) (to_bytes d') = Inr r \<and> keymap en_url (document_entries r) =
        (\<lambda>meta t. t |` (- set urls)) (doc_meta d) (keymap en_url (document_entries d)))"
    using esi_remove_reads_back [OF hx] by blast
  from edit_command [where g = "\<lambda>meta t. t |` (- set urls)", OF assms(1) docs ed reads]
  show ?thesis unfolding run by blast
qed

lemma index_edited_at:
  assumes "index_edited E fs fs' backup f p" "fs_get fs p = Some (FileNode bs m)"
  shows "\<exists>bs' r meta t. fs_get fs' p = Some (FileNode bs' m) \<and> document_parse (ee_url E) (ee_hex E) bs' = Inr r \<and>
    keymap en_url (document_entries r) k = f meta t k"
proof -
  obtain d bs' r where "fs_get fs' p = Some (FileNode bs' m)" "document_parse (ee_url E) (ee_hex E) bs' = Inr r"
      "keymap en_url (document_entries r) = f (doc_meta d) (keymap en_url (document_entries d))"
    using assms by (auto simp: index_edited_def)
  then show ?thesis
    by (intro exI [of _ bs'] exI [of _ r] exI [of _ "doc_meta d"] exI [of _ "keymap en_url (document_entries d)"]) simp
qed

subsection \<open>The sample\<close>

definition cmd_env :: esi_env where
  "cmd_env = \<lparr>ee_url = plain_url_crate, ee_hex = plain_hex, ee_sha1 = (\<lambda>b. take 20 (b @ replicate 20 (CHR 0x00))),
     ee_commit = commit_sample\<rparr>"

definition cmd_fs :: "bytes \<Rightarrow> fs" where
  "cmd_fs bs = [([''d''], DirNode), ([''d'', ''i''], FileNode bs 0x1A4), ([''d'', ''p''], FileNode ''pack'' 0x1A4),
     ([''d'', ''p.idx''], FileNode ''idx'' 0x1A4)]"

lemma cmd_fs_get:
  "fs_get (cmd_fs bs) p = (if p = [] \<or> p = [''d''] then Some DirNode
     else if p = [''d'', ''i''] then Some (FileNode bs 0x1A4) else if p = [''d'', ''p''] then Some (FileNode ''pack'' 0x1A4)
     else if p = [''d'', ''p.idx''] then Some (FileNode ''idx'' 0x1A4) else None)"
  by (simp add: fs_get_def cmd_fs_def)

lemma cmd_fs_wf: "fs_wf (cmd_fs bs)"
  by (simp add: fs_wf_def cmd_fs_def fs_get_def)

lemma cmd_target: "c \<in> {''i'', ''i.bak''} \<Longrightarrow> commit_target commit_sample (cmd_fs bs) [''d'', c]"
  by (auto simp: commit_target_def plain_at_def no_parent_refs_def cmd_fs_get permission_bits_def stage_name_def)

lemma cmd_meta: "c \<noteq> ''..'' \<Longrightarrow> metadata (cmd_fs bs) [''d'', c] = ok_or NotFound (fs_get (cmd_fs bs) [''d'', c])"
proof -
  assume "c \<noteq> ''..''"
  then have "plain_at (cmd_fs bs) [''d'', c]" by (simp add: plain_at_def no_parent_refs_def cmd_fs_get)
  then have "resolve_target (cmd_fs bs) [''d'', c] = Inr [''d'', c]"
    using plain_at_resolve(2) [OF cmd_fs_wf] by (simp add: cmd_fs_get)
  then show ?thesis by (simp add: metadata_def)
qed

lemma cmd_reads:
  "fs_read (cmd_fs bs) [''d'', ''i''] = Inr bs" "fs_read (cmd_fs bs) [''d'', ''p''] = Inr ''pack''"
  "fs_read (cmd_fs bs) [''d'', ''p.idx''] = Inr ''idx''" "read_existing (cmd_fs bs) [''d'', ''i.bak''] = Inr None"
  using cmd_meta [of "''i''" bs] cmd_meta [of "''p''" bs] cmd_meta [of "''p.idx''" bs] cmd_meta [of "''i.bak''" bs]
  by (simp_all add: fs_read_def read_existing_def cmd_fs_get owner_read_def)

lemma cmd_ready: "edit_ready cmd_env 0 (cmd_fs bs) [[''d'', ''i'']] True" "publishable cmd_env (cmd_fs bs) [[''d'', ''i'']] True"
  "entries_ok cmd_env None"
proof -
  have "fs_get (cmd_fs bs) (d @ [stage_name commit_sample i]) = None" for d i
    by (auto simp: cmd_fs_get stage_name_def append_eq_Cons_conv)
  moreover have "inj (ce_random commit_sample)" using commit_sample_ready(1) by (simp add: commit_ready_def fresh_names_def)
  ultimately have "fresh_names commit_sample (cmd_fs bs) 0" by (simp add: fresh_names_def)
  moreover have "atomic_replace commit_sample" using commit_sample_ready(1) by (simp add: commit_ready_def)
  ultimately show "edit_ready cmd_env 0 (cmd_fs bs) [[''d'', ''i'']] True"
    using cmd_target plain_hex_ok cmd_fs_wf
    by (simp add: edit_ready_def cmd_env_def commit_ready_def targets_def backup_path_def append_path_suffix_def)
  show "publishable cmd_env (cmd_fs bs) [[''d'', ''i'']] True"
    using commit_sample_ready(3) cmd_reads(4) by (simp add: publishable_def cmd_env_def backup_path_def append_path_suffix_def)
  show "entries_ok cmd_env None" by (simp add: entries_ok_def cmd_env_def min_def)
qed

lemma cmd_pack_entry: "\<exists>e. pack_entry cmd_env (cmd_fs bs) None [''d'', ''p''] = Inr e \<and> en_url e = ''p''"
proof -
  have "is_utf8 ''p''" using plain_words(5) by (simp add: plain_piece_def)
  moreover have "url_unreserved (CHR ''p'')"
    by (simp add: url_unreserved_def is_ascii_alphanumeric_def is_ascii_alphabetic_def ascii_lower_def byte_val_def)
  ultimately show ?thesis
    using digest_file_whole [OF cmd_reads(2)] digest_file_whole [OF cmd_reads(3)]
    by (simp add: pack_entry_def Let_def adjacent_index_path_def append_path_suffix_def default_pack_url_def)
qed

lemma cmd_load: "load_documents cmd_env (cmd_fs (to_bytes sample_esi)) [[''d'', ''i'']] =
  Inr [\<lparr>ld_path = [''d'', ''i''], ld_document = sample_esi, ld_original = to_bytes sample_esi\<rparr>]"
  using parse_wf [OF sample_esi_wf] by (simp add: load_documents_def load_document_def cmd_reads cmd_env_def)

lemma cmd_add_ok: "is_ok (add_documents cmd_env (cmd_fs (to_bytes sample_esi)) [[''d'', ''i'']] [[''d'', ''p'']] None False)"
proof -
  obtain e where e: "pack_entry cmd_env (cmd_fs (to_bytes sample_esi)) None [''d'', ''p''] = Inr e" "en_url e = ''p''"
    using cmd_pack_entry by blast
  obtain d' where "document_add plain_url_crate plain_hex sample_esi e False = Inr d'" using add_to_sample e(2) by blast
  then show ?thesis using e(1) cmd_load by (simp add: add_documents_def edit_documents_def) (simp add: cmd_env_def)
qed

subsection \<open>The properties\<close>

text \<open>C35: The add command on remote indexes is all or nothing over all of them.  When it succeeds every named
  index is rewritten with its mode kept; the bytes written parse, and their table is the old one
  updated with the digests of the packs; the old bytes are saved in the backup when they changed,
  and no other path is touched.  When it fails nothing is changed, unless restoring failed too.
  It succeeds when the entries can be added, renaming works and no output is named twice.\<close>

theorem esi_add_command:
  assumes "edit_ready E n fs paths (\<not> no_backup)" "entries_ok E pack_url"
  shows "\<exists>x n' fs'. esi_add E paths packs pack_url force no_backup (n, fs) = (x, n', fs') \<and>
    (x = Inr () \<longrightarrow> (\<exists>es. collect (pack_entry E fs pack_url) packs = Inr es \<and>
       (\<forall>p \<in> set paths. index_edited E fs fs' (\<not> no_backup)
          (\<lambda>meta t. foldl (\<lambda>t e. t(en_url e \<mapsto> norm_entry meta e)) t es) p)) \<and>
       (\<forall>q. q \<notin> set paths \<and> (\<not> no_backup \<longrightarrow> q \<notin> backup_path ` set paths) \<longrightarrow> fs_get fs' q = fs_get fs q)) \<and>
    (x \<noteq> Inr () \<and> \<not> rollback_failed x \<longrightarrow> (\<forall>q. fs_get fs' q = fs_get fs q)) \<and>
    (publishable E fs paths (\<not> no_backup) \<and> is_ok (add_documents E fs paths packs pack_url force) \<longrightarrow> x = Inr ())"
  using assms by (rule add_command)

theorem esi_add_command_witness:
  "\<exists>n' fs' bs' r. esi_add cmd_env [[''d'', ''i'']] [[''d'', ''p'']] None False False (0, cmd_fs (to_bytes sample_esi)) = (Inr (), n', fs') \<and>
     fs_get fs' [''d'', ''i''] = Some (FileNode bs' 0x1A4) \<and> document_parse plain_url_crate plain_hex bs' = Inr r \<and>
     keymap en_url (document_entries r) ''p'' \<noteq> None \<and> fs_get fs' [''d'', ''p''] = Some (FileNode ''pack'' 0x1A4)"
proof -
  let ?fs = "cmd_fs (to_bytes sample_esi)"
  have ready: "edit_ready cmd_env 0 ?fs [[''d'', ''i'']] (\<not> False)" using cmd_ready(1) by simp
  obtain x n' fs' where run: "esi_add cmd_env [[''d'', ''i'']] [[''d'', ''p'']] None False False (0, ?fs) = (x, n', fs')"
      and suc: "x = Inr () \<longrightarrow> (\<exists>es. collect (pack_entry cmd_env ?fs None) [[''d'', ''p'']] = Inr es \<and>
         (\<forall>p \<in> set [[''d'', ''i'']]. index_edited cmd_env ?fs fs' (\<not> False)
            (\<lambda>meta t. foldl (\<lambda>t e. t(en_url e \<mapsto> norm_entry meta e)) t es) p)) \<and>
         (\<forall>q. q \<notin> set [[''d'', ''i'']] \<and> (\<not> False \<longrightarrow> q \<notin> backup_path ` set [[''d'', ''i'']]) \<longrightarrow> fs_get fs' q = fs_get ?fs q)"
      and ok: "publishable cmd_env ?fs [[''d'', ''i'']] (\<not> False) \<and>
        is_ok (add_documents cmd_env ?fs [[''d'', ''i'']] [[''d'', ''p'']] None False) \<longrightarrow> x = Inr ()"
    using esi_add_command [OF ready cmd_ready(3), of "[[''d'', ''p'']]" False] by blast
  have x: "x = Inr ()" using ok cmd_ready(2) cmd_add_ok by simp
  obtain e where e: "pack_entry cmd_env ?fs None [''d'', ''p''] = Inr e" "en_url e = ''p''" using cmd_pack_entry by blast
  have ed: "index_edited cmd_env ?fs fs' True (\<lambda>meta t. t(''p'' \<mapsto> norm_entry meta e)) [''d'', ''i'']"
    using suc x e by simp
  have "fs_get fs' [''d'', ''p''] = fs_get ?fs [''d'', ''p'']"
    using suc x by (simp add: backup_path_def append_path_suffix_def)
  then have pk: "fs_get fs' [''d'', ''p''] = Some (FileNode ''pack'' 0x1A4)" by (simp add: cmd_fs_get)
  have "fs_get ?fs [''d'', ''i''] = Some (FileNode (to_bytes sample_esi) 0x1A4)" by (simp add: cmd_fs_get)
  from index_edited_at [OF ed this, of "''p''"] obtain bs' r where b: "fs_get fs' [''d'', ''i''] = Some (FileNode bs' 0x1A4)"
      "document_parse (ee_url cmd_env) (ee_hex cmd_env) bs' = Inr r" "keymap en_url (document_entries r) ''p'' \<noteq> None"
    by auto
  then have "document_parse plain_url_crate plain_hex bs' = Inr r" by (simp add: cmd_env_def)
  with run x pk b(1,3) show ?thesis by blast
qed

text \<open>C36: The remove command on remote indexes is all or nothing over all of them: when it succeeds every
  named index reads back as the old table without the URLs, its mode is kept and its old bytes
  are saved when they changed; when it fails nothing is changed, unless restoring failed too.\<close>

theorem esi_remove_command:
  assumes "edit_ready E n fs paths (\<not> no_backup)"
  shows "\<exists>x n' fs'. esi_remove E paths urls force no_backup (n, fs) = (x, n', fs') \<and>
    (x = Inr () \<longrightarrow> (\<forall>p \<in> set paths. index_edited E fs fs' (\<not> no_backup) (\<lambda>meta t. t |` (- set urls)) p) \<and>
       (\<forall>q. q \<notin> set paths \<and> (\<not> no_backup \<longrightarrow> q \<notin> backup_path ` set paths) \<longrightarrow> fs_get fs' q = fs_get fs q)) \<and>
    (x \<noteq> Inr () \<and> \<not> rollback_failed x \<longrightarrow> (\<forall>q. fs_get fs' q = fs_get fs q)) \<and>
    (publishable E fs paths (\<not> no_backup) \<and> is_ok (remove_documents E fs paths urls force) \<longrightarrow> x = Inr ())"
  using assms by (rule remove_command)

lemma cmd_added_document:
  "\<exists>d' r. document_parse plain_url_crate plain_hex (to_bytes d') = Inr r \<and> keymap en_url (document_entries r) ''p'' \<noteq> None"
proof -
  obtain d' where d': "edit_all (\<lambda>d e. document_add plain_url_crate plain_hex d e False) sample_esi [sample_entry] = Inr d'"
    using sample_add by blast
  have "is_utf8 ''p''" using plain_words(5) by (simp add: plain_piece_def)
  then have "list_all (esi_fits sample_esi) [sample_entry]"
    by (simp add: esi_fits_def entry_fits_def sample_entry_def norm_entry_def sample_esi_def)
  from esi_add_reads_back [OF plain_hex_ok parse_wf [OF sample_esi_wf] this d'] obtain r where
    "document_parse plain_url_crate plain_hex (to_bytes d') = Inr r"
    "keymap en_url (document_entries r) = (keymap en_url (document_entries sample_esi))(''p'' \<mapsto> norm_entry (doc_meta sample_esi) sample_entry)"
    by (auto simp: sample_entry_def)
  then show ?thesis by (intro exI [of _ d'] exI [of _ r]) simp
qed

theorem esi_remove_command_witness:
  "\<exists>fs n' fs' bs r bs' r'. esi_remove cmd_env [[''d'', ''i'']] [''p''] True False (0, fs) = (Inr (), n', fs') \<and>
     fs_get fs [''d'', ''i''] = Some (FileNode bs 0x1A4) \<and> document_parse plain_url_crate plain_hex bs = Inr r \<and>
     keymap en_url (document_entries r) ''p'' \<noteq> None \<and>
     fs_get fs' [''d'', ''i''] = Some (FileNode bs' 0x1A4) \<and> document_parse plain_url_crate plain_hex bs' = Inr r' \<and>
     keymap en_url (document_entries r') ''p'' = None"
proof -
  obtain d r where d: "document_parse plain_url_crate plain_hex (to_bytes d) = Inr r" "keymap en_url (document_entries r) ''p'' \<noteq> None"
    using cmd_added_document by blast
  let ?fs = "cmd_fs (to_bytes d)"
  have ready: "edit_ready cmd_env 0 ?fs [[''d'', ''i'']] (\<not> False)" using cmd_ready(1) by simp
  obtain x n' fs' where run: "esi_remove cmd_env [[''d'', ''i'']] [''p''] True False (0, ?fs) = (x, n', fs')"
      and suc: "x = Inr () \<longrightarrow> (\<forall>p \<in> set [[''d'', ''i'']]. index_edited cmd_env ?fs fs' (\<not> False) (\<lambda>meta t. t |` (- set [''p''])) p)"
      and ok: "publishable cmd_env ?fs [[''d'', ''i'']] (\<not> False) \<and>
        is_ok (remove_documents cmd_env ?fs [[''d'', ''i'']] [''p''] True) \<longrightarrow> x = Inr ()"
    using esi_remove_command [OF ready, of "[''p'']" True] by blast
  have "is_ok (remove_documents cmd_env ?fs [[''d'', ''i'']] [''p''] True)"
    using d(1) by (simp add: remove_documents_def load_documents_def load_document_def cmd_reads edit_documents_def
        document_remove_def cmd_env_def split: option.split)
  then have x: "x = Inr ()" using ok cmd_ready(2) by simp
  then have "index_edited cmd_env ?fs fs' True (\<lambda>meta t. t |` (- {''p''})) [''d'', ''i'']" using suc by simp
  moreover have get: "fs_get ?fs [''d'', ''i''] = Some (FileNode (to_bytes d) 0x1A4)" by (simp add: cmd_fs_get)
  ultimately obtain bs' r' where b: "fs_get fs' [''d'', ''i''] = Some (FileNode bs' 0x1A4)"
      "document_parse (ee_url cmd_env) (ee_hex cmd_env) bs' = Inr r'" "keymap en_url (document_entries r') ''p'' = None"
    using index_edited_at [of cmd_env ?fs fs' True "\<lambda>meta t. t |` (- {''p''})" "[''d'', ''i'']" "to_bytes d" "0x1A4" "''p''"] by auto
  then have "document_parse plain_url_crate plain_hex bs' = Inr r'" by (simp add: cmd_env_def)
  with run x d get b(1,3) show ?thesis by blast
qed

end
