(* ===== verification/AtomicProtocol.thy ===== *)
theory AtomicProtocol
  imports Prelude
begin

text \<open>
  Several processes that create the same file with \<^verbatim>\<open>AtomicCreateFile\<close> (\<^verbatim>\<open>src/atomicfile.rs\<close>, Unix),
  one system call at a time.  A process can be killed between two calls; the system then
  releases its locks.  Inodes are numbers, \<^verbatim>\<open>content\<close> says what each process wants to write.
\<close>

type_synonym ino = nat
type_synonym proc = nat

datatype phase =
    Starting | Opened ino | Locked ino | Checked ino | Live ino ino | Filled ino ino
  | Published ino ino | Done | Refused | Crashed

record world =
  dest_ino :: "ino option"
  ino_data :: "ino \<Rightarrow> bytes"
  lock_holder :: "ino \<Rightarrow> proc option"
  next_ino :: ino
  phase_of :: "proc \<Rightarrow> phase"

text \<open>\<^verbatim>\<open>n\<close> processes are about to create a file that is absent or has the content \<^verbatim>\<open>d\<close>.\<close>

definition start_world :: "nat \<Rightarrow> bytes option \<Rightarrow> world" where
  "start_world n d =
     \<lparr>dest_ino = (case d of None \<Rightarrow> None | Some _ \<Rightarrow> Some 0),
      ino_data = (\<lambda>i. case d of None \<Rightarrow> [] | Some b \<Rightarrow> if i = 0 then b else []),
      lock_holder = (\<lambda>_. None), next_ino = 1, phase_of = (\<lambda>p. if p < n then Starting else Done)\<rparr>"

definition enter :: "proc \<Rightarrow> phase \<Rightarrow> world \<Rightarrow> world" where
  "enter p ph w = w\<lparr>phase_of := (phase_of w)(p := ph)\<rparr>"

text \<open>Closing its files releases every lock of a process.\<close>

definition release :: "proc \<Rightarrow> world \<Rightarrow> world" where
  "release p w = w\<lparr>lock_holder := \<lambda>i. if lock_holder w i = Some p then None else lock_holder w i\<rparr>"

definition new_ino :: "(ino \<Rightarrow> world \<Rightarrow> world) \<Rightarrow> world \<Rightarrow> world" where
  "new_ino f w = f (next_ino w)
     (w\<lparr>ino_data := (ino_data w)(next_ino w := []), next_ino := Suc (next_ino w)\<rparr>)"

text \<open>
  The next call of a process: open the destination, try the lock, compare the name with the
  locked file, check the length and make a locked temporary file, write \<^verbatim>\<open>k\<close> bytes more, rename,
  close.  Writing nothing at all is a panic.
\<close>

fun acf_next :: "(proc \<Rightarrow> bytes) \<Rightarrow> nat \<Rightarrow> proc \<Rightarrow> world \<Rightarrow> world option" where
  "acf_next content k p w =
     (case phase_of w p of
        Starting \<Rightarrow> Some (case dest_ino w of
            Some i \<Rightarrow> enter p (Opened i) w
          | None \<Rightarrow> new_ino (\<lambda>i w. enter p (Opened i) (w\<lparr>dest_ino := Some i\<rparr>)) w)
      | Opened i \<Rightarrow> Some (
          if lock_holder w i \<noteq> None then enter p Refused w
          else enter p (Locked i) (w\<lparr>lock_holder := (lock_holder w)(i \<mapsto> p)\<rparr>))
      | Locked i \<Rightarrow> Some (
          if dest_ino w = Some i then enter p (Checked i) w
          else enter p Refused (release p w))
      | Checked i \<Rightarrow> Some (
          if ino_data w i \<noteq> [] then enter p Refused (release p w)
          else new_ino (\<lambda>t w. enter p (Live i t) (w\<lparr>lock_holder := (lock_holder w)(t \<mapsto> p)\<rparr>)) w)
      | Live i t \<Rightarrow> Some (
          if ino_data w t = content p
          then if content p = [] then enter p Crashed (release p w) else enter p (Filled i t) w
          else w\<lparr>ino_data := (ino_data w)(t := take (length (ino_data w t) + Suc k) (content p))\<rparr>)
      | Filled i t \<Rightarrow> Some (enter p (Published i t) (w\<lparr>dest_ino := Some t\<rparr>))
      | Published i t \<Rightarrow> Some (enter p Done (release p w))
      | Done \<Rightarrow> None | Refused \<Rightarrow> None | Crashed \<Rightarrow> None)"

fun stopped :: "phase \<Rightarrow> bool" where
  "stopped Done = True"
| "stopped Refused = True"
| "stopped Crashed = True"
| "stopped Starting = False"
| "stopped (Opened i) = False"
| "stopped (Locked i) = False"
| "stopped (Checked i) = False"
| "stopped (Live i t) = False"
| "stopped (Filled i t) = False"
| "stopped (Published i t) = False"

inductive acf_step :: "(proc \<Rightarrow> bytes) \<Rightarrow> world \<Rightarrow> world \<Rightarrow> bool" for content where
  call: "acf_next content k p w = Some w' \<Longrightarrow> acf_step content w w'"
| crash: "\<not> stopped (phase_of w p) \<Longrightarrow> acf_step content w (enter p Crashed (release p w))"

inductive acf_reachable :: "(proc \<Rightarrow> bytes) \<Rightarrow> bytes option \<Rightarrow> world \<Rightarrow> bool" for content d where
  start: "acf_reachable content d (start_world n d)"
| step: "acf_reachable content d w \<Longrightarrow> acf_step content w w' \<Longrightarrow> acf_reachable content d w'"

inductive_cases acf_step_cases: "acf_step content w w'"

subsection \<open>The invariant\<close>

text \<open>The file a process has open, the temporary file it fills, and the one it has reserved.\<close>

fun opened_ino :: "phase \<Rightarrow> ino option" where
  "opened_ino (Opened i) = Some i"
| "opened_ino (Locked i) = Some i"
| "opened_ino (Checked i) = Some i"
| "opened_ino (Live i t) = Some i"
| "opened_ino (Filled i t) = Some i"
| "opened_ino (Published i t) = Some i"
| "opened_ino Starting = None"
| "opened_ino Done = None"
| "opened_ino Refused = None"
| "opened_ino Crashed = None"

fun temp_ino :: "phase \<Rightarrow> ino option" where
  "temp_ino (Live i t) = Some t"
| "temp_ino (Filled i t) = Some t"
| "temp_ino Starting = None"
| "temp_ino (Opened i) = None"
| "temp_ino (Locked i) = None"
| "temp_ino (Checked i) = None"
| "temp_ino (Published i t) = None"
| "temp_ino Done = None"
| "temp_ino Refused = None"
| "temp_ino Crashed = None"

fun locked_inos :: "phase \<Rightarrow> ino set" where
  "locked_inos (Locked i) = {i}"
| "locked_inos (Checked i) = {i}"
| "locked_inos (Live i t) = {i, t}"
| "locked_inos (Filled i t) = {i, t}"
| "locked_inos (Published i t) = {i, t}"
| "locked_inos Starting = {}"
| "locked_inos (Opened i) = {}"
| "locked_inos Done = {}"
| "locked_inos Refused = {}"
| "locked_inos Crashed = {}"

text \<open>A process that owns the creation: from the comparison of the name to the rename.\<close>

fun owned_ino :: "phase \<Rightarrow> ino option" where
  "owned_ino (Checked i) = Some i"
| "owned_ino (Live i t) = Some i"
| "owned_ino (Filled i t) = Some i"
| "owned_ino Starting = None"
| "owned_ino (Opened i) = None"
| "owned_ino (Locked i) = None"
| "owned_ino (Published i t) = None"
| "owned_ino Done = None"
| "owned_ino Refused = None"
| "owned_ino Crashed = None"

definition complete_data :: "(proc \<Rightarrow> bytes) \<Rightarrow> bytes option \<Rightarrow> bytes \<Rightarrow> bool" where
  "complete_data content d b \<longleftrightarrow> b = [] \<or> (\<exists>p. b = content p) \<or> d = Some b"

definition acf_inv :: "(proc \<Rightarrow> bytes) \<Rightarrow> bytes option \<Rightarrow> world \<Rightarrow> bool" where
  "acf_inv content d w \<longleftrightarrow>
     (\<forall>i. dest_ino w = Some i \<longrightarrow> i < next_ino w \<and> complete_data content d (ino_data w i)) \<and>
     (\<forall>p i. opened_ino (phase_of w p) = Some i \<longrightarrow> i < next_ino w) \<and>
     (\<forall>p t. temp_ino (phase_of w p) = Some t \<longrightarrow> t < next_ino w \<and> dest_ino w \<noteq> Some t \<and>
        (\<forall>q. opened_ino (phase_of w q) \<noteq> Some t) \<and> (\<forall>q. temp_ino (phase_of w q) = Some t \<longrightarrow> q = p)) \<and>
     (\<forall>p i. i \<in> locked_inos (phase_of w p) \<longleftrightarrow> lock_holder w i = Some p) \<and>
     (\<forall>p i. lock_holder w i = Some p \<longrightarrow> i < next_ino w) \<and>
     (\<forall>p i. owned_ino (phase_of w p) = Some i \<longrightarrow> dest_ino w = Some i) \<and>
     (\<forall>p i t. phase_of w p = Live i t \<longrightarrow> ino_data w i = [] \<and> prefix (ino_data w t) (content p)) \<and>
     (\<forall>p i t. phase_of w p = Filled i t \<longrightarrow>
        ino_data w i = [] \<and> ino_data w t = content p \<and> content p \<noteq> [])"

lemma inv_start: "acf_inv content d (start_world n d)"
  by (auto simp: acf_inv_def start_world_def complete_data_def split: option.splits)

lemma inv_release:
  assumes "acf_inv content d w" "stopped ph"
  shows "acf_inv content d (enter p ph (release p w))"
  using assms by (cases ph) (auto simp: acf_inv_def enter_def release_def)

lemma inv_bounds:
  assumes "acf_inv content d w"
  shows "phase_of w q = Live i t \<Longrightarrow> i < next_ino w \<and> t < next_ino w"
    and "phase_of w q = Filled i t \<Longrightarrow> i < next_ino w \<and> t < next_ino w"
    and "dest_ino w = Some i \<Longrightarrow> i < next_ino w"
    and "opened_ino (phase_of w q) = Some i \<Longrightarrow> i < next_ino w"
    and "temp_ino (phase_of w q) = Some t \<Longrightarrow> t < next_ino w"
    and "i \<in> locked_inos (phase_of w q) \<Longrightarrow> i < next_ino w"
  using assms unfolding acf_inv_def by (metis opened_ino.simps temp_ino.simps)+

lemma inv_locks:
  "acf_inv content d w \<Longrightarrow> lock_holder w i = Some q \<longleftrightarrow> i \<in> locked_inos (phase_of w q)"
  by (simp add: acf_inv_def)

lemma inv_temp:
  assumes "acf_inv content d w" "temp_ino (phase_of w q) = Some t"
  shows "t < next_ino w" "dest_ino w \<noteq> Some t" "opened_ino (phase_of w r) \<noteq> Some t"
    and "temp_ino (phase_of w r) = Some t \<Longrightarrow> r = q"
  using assms by (auto simp: acf_inv_def)

lemma inv_owned: "acf_inv content d w \<Longrightarrow> owned_ino (phase_of w q) = Some i \<Longrightarrow> dest_ino w = Some i"
  by (simp add: acf_inv_def)

lemma inv_starting:
  assumes inv: "acf_inv content d w" and ph: "phase_of w p = Starting"
  shows "acf_inv content d (case dest_ino w of
            Some i \<Rightarrow> enter p (Opened i) w
          | None \<Rightarrow> new_ino (\<lambda>i w. enter p (Opened i) (w\<lparr>dest_ino := Some i\<rparr>)) w)"
proof -
  have none: "lock_holder w i \<noteq> Some p" for i using inv_locks [OF inv] ph by simp
  show ?thesis
  proof (cases "dest_ino w")
    case None
    then show ?thesis using inv ph none inv_bounds(2) [OF inv]
      by (fastforce simp: acf_inv_def enter_def new_ino_def complete_data_def less_Suc_eq)
  next
    case (Some i)
    then show ?thesis using inv ph none by (auto simp: acf_inv_def enter_def)
  qed
qed

lemma inv_opened:
  assumes inv: "acf_inv content d w" and ph: "phase_of w p = Opened i"
  shows "acf_inv content d (if lock_holder w i \<noteq> None then enter p Refused w
          else enter p (Locked i) (w\<lparr>lock_holder := (lock_holder w)(i \<mapsto> p)\<rparr>))"
proof -
  have none: "lock_holder w j \<noteq> Some p" for j using inv_locks [OF inv] ph by simp
  show ?thesis
  proof (cases "lock_holder w i")
    case None
    have "i \<notin> locked_inos (phase_of w q)" for q using inv_locks [OF inv, of i q] None by simp
    moreover have "i < next_ino w" using inv_bounds(4) [OF inv, of p i] ph by simp
    moreover have "temp_ino (phase_of w q) \<noteq> Some i" for q
      using inv_temp(3) [OF inv, of q i p] ph by auto
    ultimately show ?thesis using inv ph none None by (auto simp: acf_inv_def enter_def)
  next
    case (Some q)
    then show ?thesis using inv ph none by (auto simp: acf_inv_def enter_def)
  qed
qed

lemma inv_locked:
  assumes inv: "acf_inv content d w" and ph: "phase_of w p = Locked i"
  shows "acf_inv content d (if dest_ino w = Some i then enter p (Checked i) w
          else enter p Refused (release p w))"
proof -
  have mine: "lock_holder w j = Some p \<longleftrightarrow> j = i" for j using inv_locks [OF inv] ph by auto
  have "acf_inv content d (enter p (Checked i) w)" if "dest_ino w = Some i"
    using inv ph that mine by (auto simp: acf_inv_def enter_def)
  with inv_release [OF inv] show ?thesis by simp
qed

lemma inv_checked:
  assumes inv: "acf_inv content d w" and ph: "phase_of w p = Checked i"
  shows "acf_inv content d (if ino_data w i \<noteq> [] then enter p Refused (release p w)
          else new_ino (\<lambda>t w. enter p (Live i t) (w\<lparr>lock_holder := (lock_holder w)(t \<mapsto> p)\<rparr>)) w)"
proof -
  let ?t = "next_ino w"
  have mine: "lock_holder w j = Some p \<longleftrightarrow> j = i" for j using inv_locks [OF inv] ph by auto
  have dest: "dest_ino w = Some i" "i < ?t" using inv_owned [OF inv, of p i] inv_bounds(3) [OF inv, of i] ph by simp_all
  have fresh: "?t \<notin> locked_inos (phase_of w q)" "opened_ino (phase_of w q) \<noteq> Some ?t"
    "temp_ino (phase_of w q) \<noteq> Some ?t" for q
    using inv_bounds(4,5) [OF inv, of q] inv_bounds(6) [OF inv, of ?t q] by auto
  have "acf_inv content d (new_ino (\<lambda>t w. enter p (Live i t) (w\<lparr>lock_holder := (lock_holder w)(t \<mapsto> p)\<rparr>)) w)"
    if "ino_data w i = []"
    using inv ph mine dest fresh that inv_bounds(1,2) [OF inv]
    by (fastforce simp: acf_inv_def enter_def new_ino_def less_Suc_eq)
  with inv_release [OF inv] show ?thesis by simp
qed

lemma inv_live:
  assumes inv: "acf_inv content d w" and ph: "phase_of w p = Live i t"
  shows "acf_inv content d (if ino_data w t = content p
          then if content p = [] then enter p Crashed (release p w) else enter p (Filled i t) w
          else w\<lparr>ino_data := (ino_data w)(t := take (length (ino_data w t) + Suc k) (content p))\<rparr>)"
proof -
  have mine: "lock_holder w j = Some p \<longleftrightarrow> j = i \<or> j = t" for j using inv_locks [OF inv] ph by auto
  have t: "dest_ino w = Some i" "i \<noteq> t" "ino_data w i = []"
    using inv ph unfolding acf_inv_def by (metis opened_ino.simps(4) temp_ino.simps(1) owned_ino.simps(2))+
  have own: "opened_ino (phase_of w q) \<noteq> Some t" "temp_ino (phase_of w q) = Some t \<Longrightarrow> q = p" for q
    using inv ph unfolding acf_inv_def by (metis temp_ino.simps(1))+
  have filled: "acf_inv content d (enter p (Filled i t) w)" if "ino_data w t = content p" "content p \<noteq> []"
    using inv ph that mine t own inv_temp(1) [OF inv, of p t] by (auto simp: acf_inv_def enter_def)
  have other: "phase_of w q = Live j u \<Longrightarrow> j \<noteq> t \<and> (u = t \<longrightarrow> q = p)"
    "phase_of w q = Filled j u \<Longrightarrow> j \<noteq> t \<and> u \<noteq> t" for q j u
    using own [of q] ph by auto
  have "acf_inv content d (w\<lparr>ino_data := (ino_data w)(t := take n (content p))\<rparr>)" for n
  proof -
    let ?d = "(ino_data w)(t := take n (content p))"
    have "?d j = [] \<and> prefix (?d u) (content q)" if "phase_of w q = Live j u" for q j u
      using other(1) [OF that] that inv by (auto simp: acf_inv_def take_is_prefix)
    moreover have "?d j = [] \<and> ?d u = content q \<and> content q \<noteq> []" if "phase_of w q = Filled j u" for q j u
      using other(2) [OF that] that inv by (auto simp: acf_inv_def)
    ultimately show ?thesis using inv t(1,2) by (simp add: acf_inv_def)
  qed
  with filled inv_release [OF inv] show ?thesis by simp
qed

lemma inv_filled:
  assumes inv: "acf_inv content d w" and ph: "phase_of w p = Filled i t"
  shows "acf_inv content d (enter p (Published i t) (w\<lparr>dest_ino := Some t\<rparr>))"
proof -
  have mine: "lock_holder w j = Some p \<longleftrightarrow> j = i \<or> j = t" for j using inv_locks [OF inv] ph by auto
  have t: "dest_ino w = Some i" "ino_data w t = content p" "t < next_ino w"
    using inv ph unfolding acf_inv_def by (metis temp_ino.simps(2) owned_ino.simps(3))+
  have own: "temp_ino (phase_of w q) = Some t \<Longrightarrow> q = p" for q
    using inv ph unfolding acf_inv_def by (metis temp_ino.simps(2))
  have sole: "q = p" if "owned_ino (phase_of w q) = Some j" for q j
  proof -
    have "j = i" using inv_owned [OF inv that] t(1) by simp
    moreover have "j \<in> locked_inos (phase_of w q)" using that by (cases "phase_of w q") auto
    ultimately have "lock_holder w i = Some q" using inv_locks [OF inv, of i q] by simp
    with mine [of i] show ?thesis by simp
  qed
  show ?thesis using inv ph t mine own sole
    by (auto simp: acf_inv_def enter_def complete_data_def)
qed

lemma inv_next:
  assumes inv: "acf_inv content d w" and next_w: "acf_next content k p w = Some w'"
  shows "acf_inv content d w'"
proof (cases "phase_of w p")
  case Starting
  with inv_starting [OF inv Starting] next_w show ?thesis by simp
next
  case (Opened i)
  with inv_opened [OF inv] next_w show ?thesis by auto
next
  case (Locked i)
  with inv_locked [OF inv] next_w show ?thesis by auto
next
  case (Checked i)
  with inv_checked [OF inv] next_w show ?thesis by auto
next
  case (Live i t)
  with inv_live [OF inv Live, of k] next_w show ?thesis by auto
next
  case (Filled i t)
  with inv_filled [OF inv] next_w show ?thesis by auto
next
  case (Published i t)
  with inv_release [OF inv, of Done p] next_w show ?thesis by auto
qed (use next_w in auto)

lemma inv_step: "acf_inv content d w \<Longrightarrow> acf_step content w w' \<Longrightarrow> acf_inv content d w'"
  by (auto elim!: acf_step_cases intro: inv_next inv_release)

lemma inv_reachable: "acf_reachable content d w \<Longrightarrow> acf_inv content d w"
  by (induction rule: acf_reachable.induct) (auto intro: inv_start inv_step)

lemma one_owner:
  assumes inv: "acf_inv content d w" and p: "owned_ino (phase_of w p) = Some i"
    and q: "owned_ino (phase_of w q) = Some j"
  shows "p = q"
proof -
  have "i = j" using inv_owned [OF inv p] inv_owned [OF inv q] by simp
  moreover have "i \<in> locked_inos (phase_of w p)" using p by (cases "phase_of w p") auto
  moreover have "j \<in> locked_inos (phase_of w q)" using q by (cases "phase_of w q") auto
  ultimately have "lock_holder w i = Some p" "lock_holder w i = Some q"
    using inv_locks [OF inv] by simp_all
  then show ?thesis by simp
qed

text \<open>Content that was published is never replaced.\<close>

lemma dest_stable_next:
  assumes inv: "acf_inv content d w" and next_w: "acf_next content k p w = Some w'"
    and dest: "dest_ino w = Some i" "ino_data w i \<noteq> []"
  shows "dest_ino w' = Some i \<and> ino_data w' i = ino_data w i"
proof (cases "phase_of w p")
  case (Checked j)
  have "i \<noteq> next_ino w" using inv_bounds(3) [OF inv dest(1)] by simp
  with Checked next_w dest show ?thesis by (auto simp: enter_def release_def new_ino_def split: if_splits)
next
  case (Live j t)
  then have "t \<noteq> i" using inv_temp(2) [OF inv, of p t] dest by auto
  with Live next_w dest show ?thesis by (auto simp: enter_def release_def split: if_splits)
next
  case (Filled j t)
  then have "j = i" "ino_data w j = []"
    using inv_owned [OF inv, of p j] dest inv by (auto simp: acf_inv_def)
  with dest show ?thesis by simp
qed (use next_w dest in \<open>auto simp: enter_def release_def split: if_splits\<close>)

lemma dest_stable:
  assumes "acf_inv content d w" "acf_step content w w'" "dest_ino w = Some i" "ino_data w i \<noteq> []"
  shows "dest_ino w' = Some i \<and> ino_data w' i = ino_data w i"
  using assms(2)
proof cases
  case (call k p)
  with dest_stable_next [OF assms(1)] assms(3,4) show ?thesis by blast
next
  case (crash p)
  with assms(3,4) show ?thesis by (simp add: enter_def release_def)
qed

subsection \<open>A process on its own finishes\<close>

definition solo :: "(proc \<Rightarrow> bytes) \<Rightarrow> proc \<Rightarrow> world \<Rightarrow> world \<Rightarrow> bool" where
  "solo content p w w' \<longleftrightarrow> (\<exists>k. acf_next content k p w = Some w')"

lemma solo_writes:
  "phase_of w p = Live i t \<Longrightarrow> prefix (ino_data w t) (content p) \<Longrightarrow> content p \<noteq> [] \<Longrightarrow>
     \<exists>w'. (solo content p)\<^sup>*\<^sup>* w w' \<and> phase_of w' p = Filled i t \<and> ino_data w' t = content p"
proof -
  assume live: "phase_of w p = Live i t" and pre: "prefix (ino_data w t) (content p)" and ne: "content p \<noteq> []"
  define w1 where "w1 = w\<lparr>ino_data := (ino_data w)(t := content p)\<rparr>"
  have "(solo content p)\<^sup>*\<^sup>* w w1"
  proof (cases "ino_data w t = content p")
    case True
    then have "w1 = w" by (cases w) (auto simp: w1_def)
    then show ?thesis by simp
  next
    case False
    then have "acf_next content (length (content p)) p w = Some w1"
      using live by (simp add: w1_def)
    then have "solo content p w w1" unfolding solo_def by blast
    then show ?thesis by (rule r_into_rtranclp)
  qed
  moreover have "solo content p w1 (enter p (Filled i t) w1)"
    using live ne by (simp add: solo_def w1_def)
  ultimately show ?thesis
    by (intro exI [of _ "enter p (Filled i t) w1"]) (auto simp: enter_def w1_def)
qed

lemma solo_step: "(solo content p)\<^sup>*\<^sup>* w w1 \<Longrightarrow> acf_next content k p w1 = Some w2 \<Longrightarrow> (solo content p)\<^sup>*\<^sup>* w w2"
  by (rule rtranclp.rtrancl_into_rtrancl) (auto simp: solo_def)

lemma solo_open:
  assumes "phase_of w p = Starting" "\<forall>i. dest_ino w = Some i \<longrightarrow> ino_data w i = []"
  shows "\<exists>w1 i. solo content p w w1 \<and> phase_of w1 p = Opened i \<and> dest_ino w1 = Some i \<and>
    ino_data w1 i = [] \<and> (\<forall>q. q \<noteq> p \<longrightarrow> phase_of w1 q = phase_of w q)"
proof (cases "dest_ino w")
  case None
  define w1 where "w1 = new_ino (\<lambda>i w. enter p (Opened i) (w\<lparr>dest_ino := Some i\<rparr>)) w"
  have "acf_next content 0 p w = Some w1" using assms(1) None by (simp add: w1_def)
  then have "solo content p w w1" unfolding solo_def by blast
  then show ?thesis by (intro exI [of _ w1]) (auto simp: w1_def enter_def new_ino_def)
next
  case (Some i)
  define w1 where "w1 = enter p (Opened i) w"
  have "acf_next content 0 p w = Some w1" using assms(1) Some by (simp add: w1_def)
  then have "solo content p w w1" unfolding solo_def by blast
  with Some assms(2) show ?thesis by (intro exI [of _ w1]) (auto simp: w1_def enter_def)
qed

text \<open>From an open empty destination that no other process has locked, up to the reservation.\<close>

lemma solo_reserve:
  assumes "phase_of w p = Opened i" "dest_ino w = Some i" "ino_data w i = []" "lock_holder w i = None"
    and "i < next_ino w"
  shows "\<exists>w' t. (solo content p)\<^sup>*\<^sup>* w w' \<and> phase_of w' p = Live i t \<and> ino_data w' t = []"
proof -
  define w1 where "w1 = enter p (Locked i) (w\<lparr>lock_holder := (lock_holder w)(i \<mapsto> p)\<rparr>)"
  define w2 where "w2 = enter p (Checked i) w1"
  define w3 where "w3 = new_ino (\<lambda>t w. enter p (Live i t) (w\<lparr>lock_holder := (lock_holder w)(t \<mapsto> p)\<rparr>)) w2"
  have "acf_next content 0 p w = Some w1" using assms by (simp add: w1_def)
  moreover have "acf_next content 0 p w1 = Some w2"
    using assms by (simp add: w1_def w2_def enter_def)
  moreover have "acf_next content 0 p w2 = Some w3"
    using assms by (simp add: w1_def w2_def w3_def enter_def)
  ultimately have "(solo content p)\<^sup>*\<^sup>* w w3"
    by (meson solo_step rtranclp.rtrancl_refl)
  then show ?thesis
    by (intro exI [of _ w3] exI [of _ "next_ino w2"]) (auto simp: w3_def new_ino_def enter_def)
qed

lemma solo_publish:
  assumes "phase_of w p = Filled i t"
  shows "\<exists>w'. (solo content p)\<^sup>*\<^sup>* w w' \<and> phase_of w' p = Done \<and> dest_ino w' = Some t \<and> ino_data w' = ino_data w"
proof -
  define w1 where "w1 = enter p (Published i t) (w\<lparr>dest_ino := Some t\<rparr>)"
  define w2 where "w2 = enter p Done (release p w1)"
  have "acf_next content 0 p w = Some w1" using assms by (simp add: w1_def)
  moreover have "acf_next content 0 p w1 = Some w2" by (simp add: w1_def w2_def enter_def)
  ultimately have "(solo content p)\<^sup>*\<^sup>* w w2"
    by (meson solo_step rtranclp.rtrancl_refl)
  then show ?thesis by (intro exI [of _ w2]) (auto simp: w1_def w2_def enter_def release_def)
qed

lemma solo_finishes:
  assumes inv: "acf_inv content d w" and p: "phase_of w p = Starting" "content p \<noteq> []"
    and others: "\<forall>q. q \<noteq> p \<longrightarrow> stopped (phase_of w q)"
    and free: "\<forall>i. dest_ino w = Some i \<longrightarrow> ino_data w i = []"
  shows "\<exists>w' t. (solo content p)\<^sup>*\<^sup>* w w' \<and> phase_of w' p = Done \<and>
    dest_ino w' = Some t \<and> ino_data w' t = content p"
proof -
  obtain w1 i where w1: "solo content p w w1" "phase_of w1 p = Opened i" "dest_ino w1 = Some i"
      "ino_data w1 i = []" "\<forall>q. q \<noteq> p \<longrightarrow> phase_of w1 q = phase_of w q"
    using solo_open [OF p(1) free, of content] by blast
  have inv1: "acf_inv content d w1" using w1(1) inv_next [OF inv] by (auto simp only: solo_def)
  have "locked_inos (phase_of w1 q) = {}" for q
    using w1(2,5) others by (cases "q = p"; cases "phase_of w q") auto
  then have "lock_holder w1 i = None" using inv_locks [OF inv1] by (cases "lock_holder w1 i") auto
  from solo_reserve [OF w1(2,3,4) this inv_bounds(3) [OF inv1 w1(3)], of content] obtain w2 t where
    w2: "(solo content p)\<^sup>*\<^sup>* w1 w2" "phase_of w2 p = Live i t" "ino_data w2 t = []" by blast
  obtain w3 where w3: "(solo content p)\<^sup>*\<^sup>* w2 w3" "phase_of w3 p = Filled i t" "ino_data w3 t = content p"
    using solo_writes [of w2 p i t content, OF w2(2) _ p(2)] w2(3) by auto
  obtain w4 where "(solo content p)\<^sup>*\<^sup>* w3 w4" "phase_of w4 p = Done" "dest_ino w4 = Some t"
      "ino_data w4 = ino_data w3"
    using solo_publish [OF w3(2), of content] by blast
  moreover have "(solo content p)\<^sup>*\<^sup>* w w4"
    using w1(1) w2(1) w3(1) calculation(1)
    by (meson converse_rtranclp_into_rtranclp rtranclp_trans)
  ultimately show ?thesis using w3(3) by auto
qed

subsection \<open>Properties\<close>

text \<open>C26: Whatever the interleaving and wherever processes are killed: at most one process owns the
  creation of the file; the destination is absent, empty, as it was before or exactly the
  complete content of one process, never a part of it; and once it has content, no step
  changes it.\<close>

theorem atomic_protocol_safe:
  assumes "acf_reachable content d w"
  shows "(\<forall>p q i j. owned_ino (phase_of w p) = Some i \<and> owned_ino (phase_of w q) = Some j \<longrightarrow> p = q) \<and>
    (\<forall>i. dest_ino w = Some i \<longrightarrow> complete_data content d (ino_data w i)) \<and>
    (\<forall>w' i. acf_step content w w' \<and> dest_ino w = Some i \<and> ino_data w i \<noteq> [] \<longrightarrow>
      dest_ino w' = Some i \<and> ino_data w' i = ino_data w i)"
proof -
  note inv = inv_reachable [OF assms]
  have "complete_data content d (ino_data w i)" if "dest_ino w = Some i" for i
    using inv that by (simp add: acf_inv_def)
  with one_owner [OF inv] dest_stable [OF inv] show ?thesis by blast
qed

definition two_writers :: "proc \<Rightarrow> bytes" where
  "two_writers p = (if p = 0 then ''ab'' else ''xyz'')"

theorem atomic_protocol_safe_witness:
  "\<exists>w i. acf_reachable two_writers None w \<and> dest_ino w = Some i \<and> owned_ino (phase_of w 0) = Some i \<and>
     owned_ino (phase_of w 1) = None \<and> complete_data two_writers None (ino_data w i)"
proof -
  obtain w1 i where w1: "solo two_writers 0 (start_world 2 None) w1" "phase_of w1 0 = Opened i" "dest_ino w1 = Some i"
      "ino_data w1 i = []" "\<forall>q. q \<noteq> 0 \<longrightarrow> phase_of w1 q = phase_of (start_world 2 None) q"
    using solo_open [of "start_world 2 None" 0 two_writers] by (auto simp: start_world_def)
  have step1: "acf_step two_writers (start_world 2 None) w1"
    using w1(1) by (auto simp only: solo_def intro: acf_step.call)
  then have r1: "acf_reachable two_writers None w1" by (rule acf_reachable.step [OF acf_reachable.start])
  have "locked_inos (phase_of w1 q) = {}" for q
    using w1(2,5) by (cases "q = 0") (auto simp: start_world_def)
  then have free: "lock_holder w1 i = None"
    using inv_locks [OF inv_reachable [OF r1]] by (cases "lock_holder w1 i") auto
  define w2 where "w2 = enter 0 (Locked i) (w1\<lparr>lock_holder := (lock_holder w1)(i \<mapsto> 0)\<rparr>)"
  define w3 where "w3 = enter 0 (Checked i) w2"
  have "acf_next two_writers 0 0 w1 = Some w2" using w1(2) free by (simp add: w2_def)
  then have r2: "acf_reachable two_writers None w2"
    using r1 by (blast intro: acf_reachable.step acf_step.call)
  have "acf_next two_writers 0 0 w2 = Some w3" using w1(3) by (simp add: w2_def w3_def enter_def)
  then have r3: "acf_reachable two_writers None w3"
    using r2 by (blast intro: acf_reachable.step acf_step.call)
  have p0: "owned_ino (phase_of w3 0) = Some i" "dest_ino w3 = Some i"
    using w1(3) by (simp_all add: w3_def w2_def enter_def)
  from atomic_protocol_safe [OF r3] have
    "\<forall>q j. owned_ino (phase_of w3 q) = Some j \<longrightarrow> q = 0" "complete_data two_writers None (ino_data w3 i)"
    using p0 by blast+
  then have "owned_ino (phase_of w3 1) = None" by (cases "owned_ino (phase_of w3 1)") auto
  with r3 p0 \<open>complete_data two_writers None (ino_data w3 i)\<close> show ?thesis by blast
qed

text \<open>C27: A crash never blocks the file: in any reachable state in which the destination is absent or
  empty and every other process has stopped, killed at whatever point, a process that starts
  now finishes on its own and publishes its content.\<close>

theorem atomic_protocol_recovers:
  assumes "acf_reachable content d w" "phase_of w p = Starting" "content p \<noteq> []"
    and "\<forall>q. q \<noteq> p \<longrightarrow> stopped (phase_of w q)"
    and "\<forall>i. dest_ino w = Some i \<longrightarrow> ino_data w i = []"
  shows "\<exists>w' t. (solo content p)\<^sup>*\<^sup>* w w' \<and> phase_of w' p = Done \<and>
    dest_ino w' = Some t \<and> ino_data w' t = content p"
  using solo_finishes [OF inv_reachable [OF assms(1)]] assms(2-5) by blast

text \<open>The second of two processes, after the first was killed just after it made the empty file.\<close>

theorem atomic_protocol_recovers_witness:
  "\<exists>w w' t. acf_reachable two_writers None w \<and> phase_of w 0 = Crashed \<and> dest_ino w \<noteq> None \<and>
     (solo two_writers 1)\<^sup>*\<^sup>* w w' \<and> dest_ino w' = Some t \<and> ino_data w' t = ''xyz''"
proof -
  let ?s = "start_world 2 None"
  obtain w1 i where w1: "solo two_writers 0 ?s w1" "phase_of w1 0 = Opened i" "dest_ino w1 = Some i"
      "ino_data w1 i = []" "\<forall>q. q \<noteq> 0 \<longrightarrow> phase_of w1 q = phase_of ?s q"
    using solo_open [of ?s 0 two_writers] by (auto simp: start_world_def)
  have "acf_step two_writers ?s w1"
    using w1(1) by (auto simp only: solo_def intro: acf_step.call)
  then have r1: "acf_reachable two_writers None w1" by (rule acf_reachable.step [OF acf_reachable.start])
  define w2 where "w2 = enter 0 Crashed (release 0 w1)"
  have "acf_step two_writers w1 w2" unfolding w2_def using w1(2) by (intro acf_step.crash) simp
  with r1 have r2: "acf_reachable two_writers None w2" by (rule acf_reachable.step)
  have "phase_of w2 1 = Starting" "\<forall>q. q \<noteq> 1 \<longrightarrow> stopped (phase_of w2 q)"
    "dest_ino w2 = Some i" "ino_data w2 i = []" "phase_of w2 0 = Crashed"
    using w1(3-5) by (auto simp: w2_def enter_def release_def start_world_def)
  with atomic_protocol_recovers [OF r2, of 1] r2 show ?thesis by (auto simp: two_writers_def)
qed

end
