(* ===== verification/EnvPlain.thy ===== *)
theory EnvPlain
  imports Env EsiStore
begin

text \<open>
  The laws of the environment that lemmas rely on (each the documented behaviour of a crate or of
  the system) and a concrete environment that has them, for the instances of theorems.
\<close>

text \<open>Zstandard: the frames of a stream decompress one after the other.\<close>

definition zstd_ok :: "env \<Rightarrow> bool" where
  "zstd_ok E \<longleftrightarrow> e_unzstd E [] = ([], None) \<and>
     (\<forall>opts data z rest. e_zstd E opts data = Inr z \<longrightarrow>
        e_unzstd E (z @ rest) = (data @ fst (e_unzstd E rest), snd (e_unzstd E rest)))"

definition header_ok :: "env \<Rightarrow> bool" where
  "header_ok E \<longleftrightarrow> (\<forall>h. e_dec_header E (e_enc_header E h) = Inr h)"

text \<open>\<^verbatim>\<open>WalkDir\<close> yields everything at or below its root once, without following links.\<close>

definition walk_ok :: "env \<Rightarrow> fs \<Rightarrow> path \<Rightarrow> bool" where
  "walk_ok E fs root \<longleftrightarrow>
     (\<forall>r. r \<in> set (e_walk E fs root) \<longleftrightarrow>
        (\<exists>p n. r = Inr (p, is_file_node n) \<and> prefix root p \<and> fs_get fs p = Some n))"

text \<open>SHA-1 gives 20 bytes.\<close>

definition sha1_ok :: "env \<Rightarrow> bool" where
  "sha1_ok E \<longleftrightarrow> (\<forall>b. length (e_sha1 E b) = 20)"

text \<open>Iterating a hash map visits every entry once.\<close>

definition order_ok :: "env \<Rightarrow> bool" where
  "order_ok E \<longleftrightarrow> (\<forall>xs. mset (e_order E xs) = mset xs)"

text \<open>A carriage return is a control character.\<close>

definition cat_ok :: "env \<Rightarrow> bool" where
  "cat_ok E \<longleftrightarrow> e_cat E 0x0D = CHR ''C''"

subsection \<open>A concrete environment\<close>

definition plain_hash :: "bytes \<Rightarrow> checksum" where
  "plain_hash b = take 20 (b @ replicate 20 (CHR 0x00))"

definition plain_cat :: "nat \<Rightarrow> byte" where
  "plain_cat c = (if c < 0x20 then CHR ''C'' else CHR ''L'')"

definition plain_zstd :: "bytes \<Rightarrow> bytes" where
  "plain_zstd data = concat (map (\<lambda>c. [CHR ''='', c]) data)"

fun plain_unzstd :: "bytes \<Rightarrow> bytes" where
  "plain_unzstd (a # c # r) = c # plain_unzstd r"
| "plain_unzstd [] = []"
| "plain_unzstd [a] = []"

definition header_nats :: "pack_header \<Rightarrow> nat list" where
  "header_nats h = unat (header_magic h) #
     concat (map (\<lambda>f. [unat (frame_size f), unat (decompressed_size f)]) (header_frames h))"

fun nats_frames :: "nat list \<Rightarrow> pack_frame list" where
  "nats_frames (a # b # r) = \<lparr>frame_size = of_nat a, decompressed_size = of_nat b\<rparr> # nats_frames r"
| "nats_frames [] = []"
| "nats_frames [a] = []"

definition nats_header :: "nat list \<Rightarrow> pack_header" where
  "nats_header ns = \<lparr>header_magic = of_nat (hd ns), header_frames = nats_frames (tl ns)\<rparr>"

definition nats_text :: "nat list \<Rightarrow> bytes" where
  "nats_text ns = join_with (CHR '','') (map show_nat ns)"

definition text_nat :: "bytes \<Rightarrow> nat" where
  "text_nat b = (case parse_u64 b of None \<Rightarrow> 0 | Some w \<Rightarrow> unat w)"

definition plain_walk :: "fs \<Rightarrow> path \<Rightarrow> (error + path \<times> bool) list" where
  "plain_walk fs root =
     (case fs_get fs root of
        None \<Rightarrow> [Inl (WalkDirError [])]
      | Some n \<Rightarrow>
          (if root = [] then [Inr ([], False)] else []) @
          map (\<lambda>(p, n). Inr (p, is_file_node n)) (filter (\<lambda>(p, n). prefix root p) fs))"

definition plain_env :: env where
  "plain_env =
     \<lparr>e_sha1 = plain_hash, e_hex = plain_hex, e_url = plain_url_crate, e_codec = unary_sample,
      e_cat = plain_cat, e_unicode = plain_unicode,
      e_unzstd = (\<lambda>b. (plain_unzstd b, None)), e_zstd = (\<lambda>opts b. Inr (plain_zstd b)),
      e_enc_header = (\<lambda>h. nats_text (header_nats h)),
      e_dec_header = (\<lambda>b. Inr (nats_header (map text_nat (split_on (CHR '','') b)))),
      e_walk = plain_walk, e_tree = (\<lambda>fs p. Inr (WalkLeaf p)),
      e_agent = (\<lambda>url timeout since. Inr \<lparr>hr_status = 404, hr_length = None, hr_body = ([], None)\<rparr>),
      e_times = (\<lambda>fs p. (None, Some 0)),
      e_locks = \<lparr>la_try_shared = Granted, la_shared = Inr (), la_unlock = Inr (), la_try_exclusive = Granted,
        la_exclusive = Inr (), la_restore = Inr ()\<rparr>,
      e_held = (\<lambda>p. False), e_tmp = (\<lambda>p. ''tmp''),
      e_probes = [''p0'', ''p1'', ''p2''], e_order = (\<lambda>xs. xs)\<rparr>"

lemma plain_env_fields [simp]:
  "e_sha1 plain_env = plain_hash" "e_hex plain_env = plain_hex" "e_url plain_env = plain_url_crate"
  "e_codec plain_env = unary_sample" "e_cat plain_env = plain_cat" "e_unicode plain_env = plain_unicode"
  "e_unzstd plain_env = (\<lambda>b. (plain_unzstd b, None))" "e_zstd plain_env = (\<lambda>opts b. Inr (plain_zstd b))"
  "e_walk plain_env = plain_walk" "e_times plain_env = (\<lambda>fs p. (None, Some 0))"
  "e_held plain_env = (\<lambda>p. False)" "e_tmp plain_env = (\<lambda>p. ''tmp'')"
  "e_probes plain_env = [''p0'', ''p1'', ''p2'']" "e_order plain_env = (\<lambda>xs. xs)"
  by (simp_all add: plain_env_def)

lemma plain_zstd_ok: "zstd_ok plain_env"
proof -
  have "plain_unzstd (plain_zstd data @ rest) = data @ plain_unzstd rest" for data rest
    by (induction data) (simp_all add: plain_zstd_def)
  then show ?thesis by (auto simp: zstd_ok_def)
qed

lemma nats_frames_inverse:
  "nats_frames (concat (map (\<lambda>f. [unat (frame_size f), unat (decompressed_size f)]) fs)) = fs"
  by (induction fs) auto

lemma show_nat_no_comma: "CHR '','' \<notin> set (show_nat (unat (w :: u64)))"
  using show_nat_digits [of "unat w"] by (auto simp: list_all_iff is_ascii_digit_def byte_val_def)

lemma plain_header_ok: "header_ok plain_env"
proof -
  have words: "\<exists>ws :: u64 list. header_nats h = map unat ws \<and> ws \<noteq> []" for h
    by (intro exI [of _ "header_magic h # concat (map (\<lambda>f. [frame_size f, decompressed_size f]) (header_frames h))"])
      (simp add: header_nats_def map_concat comp_def)
  have "map text_nat (split_on (CHR '','') (nats_text (map unat ws))) = map unat ws"
    if "ws \<noteq> []" for ws :: "u64 list"
    using that unfolding nats_text_def
    by (subst split_on_join_with) (auto simp: show_nat_no_comma text_nat_def parse_show_u64)
  then have "map text_nat (split_on (CHR '','') (nats_text (header_nats h))) = header_nats h" for h
    using words [of h] by auto
  then show ?thesis
    by (simp add: header_ok_def plain_env_def nats_header_def header_nats_def nats_frames_inverse)
qed

lemma plain_walk_ok:
  assumes "distinct (map fst fs)" "[] \<notin> fst ` set fs" "fs_get fs root \<noteq> None"
  shows "walk_ok plain_env fs root"
proof -
  have mem: "(p, n) \<in> set fs \<longleftrightarrow> p \<noteq> [] \<and> fs_get fs p = Some n" for p n
    using assms(1,2) by (cases "p = []") (force simp: fs_get_def dest: map_of_SomeD)+
  from assms(3) obtain n0 where "fs_get fs root = Some n0" by blast
  then show ?thesis
    unfolding walk_ok_def by (auto simp: plain_walk_def mem) (force simp: mem image_iff)+
qed

lemma plain_sha1_ok: "sha1_ok plain_env"
  by (auto simp: sha1_ok_def plain_hash_def min_def)

lemma plain_order_ok: "order_ok plain_env"
  by (simp add: order_ok_def)

end
