(* ===== verification/RemoteFacts.thy ===== *)
theory RemoteFacts
  imports Remote EnvPlain
begin

text \<open>
  What fetching from a remote can write: only verified packs, only well-formed indexes, and
  remote indexes of the version that their endpoint names.
\<close>

subsection \<open>Writing one file\<close>

text \<open>At most the file that the path resolves to changes, and then it holds exactly the data.\<close>

definition only_writes :: "fs \<Rightarrow> path \<Rightarrow> bytes \<Rightarrow> fs \<Rightarrow> bool" where
  "only_writes fs p data fs' \<longleftrightarrow>
     (\<forall>q. fs_get fs' q \<noteq> fs_get fs q \<longrightarrow>
        resolve_target fs p = Inr q \<and> (\<exists>m. fs_get fs' q = Some (FileNode data m)))"

lemma only_writes_refl: "only_writes fs p data fs"
  by (simp add: only_writes_def)

lemma create_append:
  assumes "andThen (fs_create mode p) (\<lambda>q. fs_append q data) fs = (r, fs')"
  shows "only_writes fs p data fs'"
proof (cases "resolve_target fs p")
  case (Inl e)
  with assms show ?thesis by (auto simp: andThen_def fs_create_def only_writes_refl)
next
  case (Inr q)
  show ?thesis
  proof (cases "fs_get fs q")
    case None
    then have "q \<noteq> []" by (auto simp: fs_get_def)
    with None Inr assms show ?thesis
      by (auto simp: andThen_def fs_create_def fs_append_def only_writes_def fs_get_put split: if_splits)
  next
    case (Some n)
    show ?thesis
    proof (cases n)
      case (FileNode b m)
      then have "q \<noteq> []" using Some by (auto simp: fs_get_def)
      with FileNode Some Inr assms show ?thesis
        by (auto simp: andThen_def fs_create_def fs_append_def only_writes_def fs_get_put split: if_splits)
    qed (use Some Inr assms in \<open>auto simp: andThen_def fs_create_def only_writes_refl\<close>)
  qed
qed

lemma fs_write_only: "fs_write p data fs = (r, fs') \<Longrightarrow> only_writes fs p data fs'"
  unfolding fs_write_def by (rule create_append)

lemma create_file_None: "create_file p None = fs_create created_mode p"
  by (rule ext) (simp add: create_file_def andThen_def ret_def split: prod.split sum.split)

lemma write_created_only: "write_created p data fs = (r, fs') \<Longrightarrow> only_writes fs p data fs'"
  unfolding write_created_def create_file_None by (rule create_append)

lemma write_created_file:
  assumes "dirs_to fs d" "no_parent_refs d" "name \<noteq> ''..''"
    and "fs_get fs (d @ [name]) = None \<or> (\<exists>b m. fs_get fs (d @ [name]) = Some (FileNode b m) \<and> and m owner_write \<noteq> 0)"
  shows "\<exists>fs' m. write_created (d @ [name]) data fs = (Inr (), fs') \<and>
    (\<forall>q. fs_get fs' q = (if q = d @ [name] then Some (FileNode data m) else fs_get fs q)) \<and>
    (m = created_mode \<or> (\<exists>b. fs_get fs (d @ [name]) = Some (FileNode b m)))"
proof -
  have t: "resolve_target fs (d @ [name]) = Inr (d @ [name])"
    using assms by (intro resolve_target_plain) (auto simp: no_parent_refs_snoc dirs_above_snoc)
  show ?thesis
  proof (cases "fs_get fs (d @ [name])")
    case None
    with t show ?thesis
      by (auto simp: write_created_def create_file_None andThen_def fs_create_def fs_append_def fs_get_put)
  next
    case (Some n)
    with assms(4) obtain b m where "n = FileNode b m" "and m owner_write \<noteq> 0" by auto
    with t Some show ?thesis
      by (auto simp: write_created_def create_file_None andThen_def fs_create_def fs_append_def fs_get_put)
  qed
qed

subsection \<open>Fetched packs and indexes\<close>

lemma query_eq [simp]: "query f fs = (f fs, fs)"
  by (simp add: query_def)

definition pack_verified :: "env \<Rightarrow> remote_pack \<Rightarrow> bytes \<Rightarrow> bool" where
  "pack_verified E rp data \<longleftrightarrow> e_sha1 E data = rp_pack_checksum rp \<and>
     (\<forall>s. rp_pack_size rp = Some s \<longrightarrow> s = of_nat (length data))"

lemma fetch_remote_pack_cases:
  assumes "fetch_remote_pack E rp p fs = (r, fs')"
  shows "fs' = fs \<or> (\<exists>data r'. pack_verified E rp data \<and> write_created p data fs = (r', fs'))"
  using assms unfolding fetch_remote_pack_def pack_verified_def io_def lift_err_def
  by (auto simp: andThen_def liftr_def err_def ret_def split: sum.splits remote_resource.splits
      option.splits if_splits prod.splits)

lemma fetch_pack_verified:
  assumes "fetch_remote_pack E rp p fs = (r, fs')" "fs_get fs' q \<noteq> fs_get fs q"
  shows "resolve_target fs p = Inr q \<and> (\<exists>data m. fs_get fs' q = Some (FileNode data m) \<and> pack_verified E rp data)"
  using fetch_remote_pack_cases [OF assms(1)] assms(2) write_created_only
  unfolding only_writes_def by metis

lemma update_pack_index_cases:
  assumes "update_pack_index E url p expected fs = (r, fs')"
  shows "fs' = fs \<or> (\<exists>data idx r'. parse (e_codec E) data = Inr idx \<and>
     (\<forall>s. expected = Some s \<longrightarrow> s = of_nat (length data)) \<and> fs_write p data fs = (r', fs'))"
  using assms unfolding update_pack_index_def io_def lift_err_def
  by (auto simp: andThen_def liftr_def err_def ret_def split: sum.splits remote_resource.splits
      option.splits if_splits prod.splits failure.splits)

lemma update_index_parses:
  assumes "update_pack_index E url p expected fs = (r, fs')" "fs_get fs' q \<noteq> fs_get fs q"
  shows "resolve_target fs p = Inr q \<and> (\<exists>data m idx. fs_get fs' q = Some (FileNode data m) \<and>
    parse (e_codec E) data = Inr idx \<and> (\<forall>s. expected = Some s \<longrightarrow> s = of_nat (length data)))"
  using update_pack_index_cases [OF assms(1)] assms(2) fs_write_only
  unfolding only_writes_def by metis

subsection \<open>Installing a remote index\<close>

lemma install_remote_ok:
  assumes "install_remote E p u data fs = (Inr r, fs')"
  shows "\<exists>r0. remote_read E data = Inr r0 \<and> r = r0\<lparr>ri_path := Some p\<rparr> \<and>
    validate_endpoint_version E u (ri_meta r) = Inr () \<and> write_created p data fs = (Inr (), fs')"
  using assms unfolding install_remote_def io_def lift_err_def reify_def
  by (auto simp: andThen_def liftr_def ret_def split: sum.splits prod.splits error.splits)

definition replaceable_file :: "fs \<Rightarrow> path \<Rightarrow> bool" where
  "replaceable_file fs p \<longleftrightarrow>
     fs_get fs p = None \<or>
     (\<exists>b m. fs_get fs p = Some (FileNode b m) \<and> and m owner_write \<noteq> 0 \<and> and m owner_read \<noteq> 0)"

lemma created_readable: "and created_mode owner_read \<noteq> 0"
  by (simp add: created_mode_def owner_read_def)

lemma write_created_reads_back:
  assumes "dirs_to fs d" "no_parent_refs d" "name \<noteq> ''..''" "replaceable_file fs (d @ [name])"
    and "write_created (d @ [name]) data fs = (r, fs')"
  shows "r = Inr () \<and> fs_read fs' (d @ [name]) = Inr data \<and>
    (\<forall>q. q \<noteq> d @ [name] \<longrightarrow> fs_get fs' q = fs_get fs q)"
proof -
  have free: "fs_get fs (d @ [name]) = None \<or>
      (\<exists>b m. fs_get fs (d @ [name]) = Some (FileNode b m) \<and> and m owner_write \<noteq> 0)"
    using assms(4) by (auto simp: replaceable_file_def)
  obtain fs1 m where fs1: "write_created (d @ [name]) data fs = (Inr (), fs1)"
      "\<forall>q. fs_get fs1 q = (if q = d @ [name] then Some (FileNode data m) else fs_get fs q)"
      "m = created_mode \<or> (\<exists>b. fs_get fs (d @ [name]) = Some (FileNode b m))"
    using write_created_file [OF assms(1-3) free, of data] by blast
  have "dirs_to fs1 d" using assms(1) fs1(2) by (auto simp: dirs_to_def dest: prefix_length_le)
  then have "metadata fs1 (d @ [name]) = Inr (FileNode data m)"
    using fs1(2) assms(2,3) by (intro metadata_plain) (auto simp: no_parent_refs_snoc dirs_above_snoc)
  moreover have "and m owner_read \<noteq> 0"
    using fs1(3) assms(4) created_readable by (auto simp: replaceable_file_def)
  ultimately show ?thesis using fs1(1,2) assms(5) by (simp add: fs_read_def)
qed

text \<open>The endpoint that was used: the version 2 sibling unless the server does not have it.\<close>

definition endpoint_used :: "env \<Rightarrow> url \<Rightarrow> url \<Rightarrow> bytes \<Rightarrow> bool" where
  "endpoint_used E supplied u body \<longleftrightarrow>
     (\<exists>n. read_remote_resource E u 15 None = Inr (Found n body)) \<and>
     (v2_sibling_url E supplied = Some u \<or>
      u = supplied \<and> (\<forall>v. v2_sibling_url E supplied = Some v \<longrightarrow>
         read_remote_resource E v 15 None = Inr ResourceNotFound))"

lemma fetch_supplied_ok:
  "fetch_supplied E url = Inr (u, body) \<longleftrightarrow>
     u = url \<and> (\<exists>n. read_remote_resource E url 15 None = Inr (Found n body))"
proof (cases "read_remote_resource E url 15 None")
  case (Inl e)
  then show ?thesis by (simp add: fetch_supplied_def)
next
  case (Inr r)
  then show ?thesis by (cases r) (auto simp: fetch_supplied_def require_found_def)
qed

lemma fetch_endpoint_ok:
  assumes "fetch_endpoint E supplied = Inr (u, body)"
  shows "endpoint_used E supplied u body"
proof (cases "v2_sibling_url E supplied")
  case None
  with assms show ?thesis by (auto simp: fetch_endpoint_def endpoint_used_def fetch_supplied_ok)
next
  case (Some v)
  show ?thesis
  proof (cases "read_remote_resource E v 15 None")
    case (Inl e)
    with Some assms show ?thesis by (simp add: fetch_endpoint_def)
  next
    case (Inr r)
    with Some assms show ?thesis
      by (cases r) (auto simp: fetch_endpoint_def endpoint_used_def fetch_supplied_ok)
  qed
qed

lemma fetch_remote_ok:
  assumes "fetch_remote E url p fs = (Inr r, fs')"
  shows "\<exists>supplied u body. url_parse (e_url E) url = Some supplied \<and> endpoint_used E supplied u body \<and>
    install_remote E p u body fs = (Inr r, fs')"
  using assms unfolding fetch_remote_def
  by (auto simp: andThen_def liftr_def result_simps split: sum.splits prod.splits
      dest!: fetch_endpoint_ok)

subsection \<open>Properties\<close>

text \<open>Whatever the server answers, fetching a pack changes nothing but the pack file, and only to
  data whose SHA-1 and, where the index gives it, size are those of the remote index; fetching
  a pack index changes nothing but the index file, and only to data that parses and has the
  given size.\<close>

theorem fetched_files_checked:
  "(fetch_remote_pack E rp p fs = (r, fs') \<and> fs_get fs' q \<noteq> fs_get fs q \<longrightarrow>
      resolve_target fs p = Inr q \<and>
      (\<exists>data m. fs_get fs' q = Some (FileNode data m) \<and> pack_verified E rp data)) \<and>
   (update_pack_index E url p expected fs = (r, fs') \<and> fs_get fs' q \<noteq> fs_get fs q \<longrightarrow>
      resolve_target fs p = Inr q \<and>
      (\<exists>data m idx. fs_get fs' q = Some (FileNode data m) \<and> parse (e_codec E) data = Inr idx \<and>
        (\<forall>s. expected = Some s \<longrightarrow> s = of_nat (length data))))"
  using fetch_pack_verified [of E rp p fs r fs' q] update_index_parses [of E url p expected fs r fs' q]
  by (intro conjI impI) auto

definition sample_rp :: remote_pack where
  "sample_rp = \<lparr>rp_index_checksum = [], rp_pack_checksum = plain_hash ''abc'', rp_url = ''h/a.pack'',
     rp_index_size = None, rp_pack_size = Some 3\<rparr>"

definition answering :: "bytes \<Rightarrow> env" where
  "answering body = plain_env\<lparr>e_agent := (\<lambda>url timeout since.
     Inr \<lparr>hr_status = 200, hr_length = None, hr_body = (body, None)\<rparr>)\<rparr>"

lemma answering_fields [simp]:
  "e_url (answering b) = plain_url_crate" "e_sha1 (answering b) = plain_hash"
  "e_hex (answering b) = plain_hex" "e_codec (answering b) = unary_sample"
  "open_remote_resource (answering b) url t since = Inr (Found 0 (b, None))"
  by (simp_all add: answering_def open_remote_resource_def content_length_def)

theorem fetched_files_checked_witness:
  "\<exists>fs'. fetch_remote_pack (answering ''abc'') sample_rp [''a''] [] = (Inr (), fs') \<and>
     (\<exists>data m. fs_get fs' [''a''] = Some (FileNode data m) \<and> pack_verified (answering ''abc'') sample_rp data) \<and>
   fetch_remote_pack (answering ''abd'') sample_rp [''a''] [] = (Inl (Fail CorruptPack), [])"
proof -
  have dirs: "dirs_to [] []" "no_parent_refs []" by (simp_all add: dirs_to_def no_parent_refs_def)
  obtain fs' m where fs': "write_created ([] @ [''a'']) ''abc'' [] = (Inr (), fs')"
      "fs_get fs' [''a''] = Some (FileNode ''abc'' m)"
  proof -
    have "\<exists>fs' m. write_created ([] @ [''a'']) ''abc'' [] = (Inr (), fs') \<and>
      fs_get fs' [''a''] = Some (FileNode ''abc'' m)"
      using write_created_file [OF dirs, of "''a''" "''abc''"] by (fastforce simp: fs_get_def [of "[]"])
    then show thesis using that by blast
  qed
  have ok: "fetch_remote_pack (answering ''abc'') sample_rp [''a''] [] = (Inr (), fs')"
    using fs'(1) by (simp add: fetch_remote_pack_def sample_rp_def plain_url_crate_def andThen_def
        liftr_def io_def lift_err_def)
  have "fs_get fs' [''a''] \<noteq> fs_get [] [''a'']" using fs'(2) by (simp add: fs_get_def)
  with ok fetched_files_checked [of "answering ''abc''" sample_rp "[''a'']" "[]" "Inr ()" fs' "[''a'']"]
  have "\<exists>data m. fs_get fs' [''a''] = Some (FileNode data m) \<and> pack_verified (answering ''abc'') sample_rp data"
    by blast
  moreover have "fetch_remote_pack (answering ''abd'') sample_rp [''a''] [] = (Inl (Fail CorruptPack), [])"
    by (simp add: fetch_remote_pack_def sample_rp_def plain_url_crate_def andThen_def liftr_def err_def
        plain_hash_def)
  ultimately show ?thesis using ok by blast
qed

text \<open>Adding a remote stores exactly the bytes of the endpoint used (the version 2 sibling of the
  URL, or the URL itself when the server has no sibling), at the version that a versioned
  endpoint names and version 1 for an unversioned \<^verbatim>\<open>.esi\<close>; the stored file loads as the remote
  returned, and no other path changes.\<close>

theorem fetched_remote_loads:
  assumes "fetch_remote E url (d @ [name]) fs = (Inr r, fs')"
    and "dirs_to fs d" "no_parent_refs d" "name \<noteq> ''..''" "replaceable_file fs (d @ [name])"
  shows "remote_load E fs' (d @ [name]) = Inr r \<and> (\<forall>q. q \<noteq> d @ [name] \<longrightarrow> fs_get fs' q = fs_get fs q) \<and>
    (\<exists>supplied u body. url_parse (e_url E) url = Some supplied \<and> endpoint_used E supplied u body \<and>
      fs_read fs' (d @ [name]) = Inr body \<and>
      (if is_versioned_endpoint E u then endpoint_version E u = Some (ri_meta r)
       else strip_suffix ''.esi'' (url_path (e_url E) u) \<noteq> None \<longrightarrow> ri_meta r = V1))"
proof -
  obtain supplied u body where u: "url_parse (e_url E) url = Some supplied" "endpoint_used E supplied u body"
      "install_remote E (d @ [name]) u body fs = (Inr r, fs')"
    using fetch_remote_ok [OF assms(1)] by blast
  obtain r0 where r0: "remote_read E body = Inr r0" "r = r0\<lparr>ri_path := Some (d @ [name])\<rparr>"
      "validate_endpoint_version E u (ri_meta r) = Inr ()" "write_created (d @ [name]) body fs = (Inr (), fs')"
    using install_remote_ok [OF u(3)] by blast
  note stored = write_created_reads_back [OF assms(2-5) r0(4)]
  then have "remote_load E fs' (d @ [name]) = Inr r"
    using r0(1,2) by (simp add: remote_load_def reify_def)
  moreover have "if is_versioned_endpoint E u then endpoint_version E u = Some (ri_meta r)
       else strip_suffix ''.esi'' (url_path (e_url E) u) \<noteq> None \<longrightarrow> ri_meta r = V1"
    using r0(3) by (auto simp: validate_endpoint_version_def split: if_splits option.splits)
  ultimately show ?thesis using stored u(1,2) by blast
qed

theorem fetched_remote_loads_witness:
  "\<exists>r fs'. fetch_remote (answering (to_bytes sample_esi)) ''x'' [''r.esi''] [] = (Inr r, fs') \<and>
     remote_load (answering (to_bytes sample_esi)) fs' [''r.esi''] = Inr r \<and> ri_url r = ''h/''"
proof -
  let ?E = "answering (to_bytes sample_esi)"
  have dirs: "dirs_to [] []" "no_parent_refs []" "replaceable_file [] ([] @ [''r.esi''])"
    by (simp_all add: dirs_to_def no_parent_refs_def replaceable_file_def fs_get_def)
  define r where "r = \<lparr>ri_path = Some [''r.esi''], ri_meta = V1, ri_url = ''h/'', ri_packs = []\<rparr>"
  have parsed: "remote_read ?E (to_bytes sample_esi) = Inr (r\<lparr>ri_path := None\<rparr>)"
    using parse_wf [OF sample_esi_wf]
    by (simp add: remote_read_def from_document_def sample_esi_def document_entries_def r_def
        List.map_filter_def)
  have endpoint: "v2_sibling_url ?E ''x'' = None" "is_versioned_endpoint ?E ''x'' = False"
    by (simp_all add: v2_sibling_url_def is_versioned_endpoint_def versioned_stem_def url_file_name_def
        plain_url_crate_def strip_suffix_def)
  obtain fs' where fs': "write_created ([] @ [''r.esi'']) (to_bytes sample_esi) [] = (Inr (), fs')"
    using write_created_file [OF dirs(1,2), of "''r.esi''" "to_bytes sample_esi"] by (auto simp: fs_get_def)
  have "url_path (e_url ?E) ''x'' = ''x''" by (simp add: plain_url_crate_def)
  then have valid: "validate_endpoint_version ?E ''x'' V1 = Inr ()"
    using endpoint(2) by (simp add: validate_endpoint_version_def)
  have "fetch_remote ?E ''x'' ([] @ [''r.esi'']) [] = (Inr r, fs')"
    using fs' parsed endpoint(1) valid
    by (simp add: fetch_remote_def fetch_endpoint_def fetch_supplied_def read_remote_resource_def
        read_remote_body_def require_found_def install_remote_def andThen_def liftr_def ret_def io_def
        lift_err_def reify_def plain_url_crate_def r_def)
  with fetched_remote_loads [OF this dirs(1,2) _ dirs(3)] show ?thesis by (auto simp: r_def)
qed

end
