(* ===== verification/RepoFind.thy ===== *)
theory RepoFind
  imports RepoBase
begin

text \<open>
  The packs of a repository and the search for a snapshot (\<^verbatim>\<open>src/repo/repository.rs\<close>): the walk
  over the index files, loading indexes, equality of snapshots and disambiguation.
\<close>

definition load_index_file :: "env \<Rightarrow> fs \<Rightarrow> path \<Rightarrow> error failure + pack_index" where
  "load_index_file E fs p =
     rbind (map_err (\<lambda>e. Fail (PackErr (PackIOError e))) (fs_read fs p)) (\<lambda>data.
     map_err pack_failure (parse (e_codec E) data))"

definition load_tags_file :: "env \<Rightarrow> fs \<Rightarrow> path \<Rightarrow> error failure + bytes list" where
  "load_tags_file E fs p =
     rbind (map_err (\<lambda>e. Fail (PackErr (PackIOError e))) (fs_read fs p)) (\<lambda>data.
     map_err pack_failure (load_only_snapshots (e_codec E) data))"

text \<open>The pack of an index file below the root; other files are not packs.\<close>

definition discover_pack :: "env \<Rightarrow> fs \<Rightarrow> path \<Rightarrow> path \<Rightarrow> error failure + pack_id option" where
  "discover_pack E fs root p =
     rbind (unwrap (strip_prefix root p)) (\<lambda>relative.
     rbind (map_err Fail (logical_pack_id_path relative)) (\<lambda>name.
     case from_index_path name of
       None \<Rightarrow> Inr None
     | Some (Pack n) \<Rightarrow>
         if strip_prefix loose_prefix n = None then Inr (Some (Pack n))
         else rbind (load_tags_file E fs p) (\<lambda>tags. case tags of
             [tag] \<Rightarrow> rbind (map_err (\<lambda>e. Fail (IdError e)) (for_loose_snapshot (e_cat E) tag)) (\<lambda>i. Inr (Some i))
           | _ \<Rightarrow> Inl (Fail CorruptPackIndex))))"

fun discover_packs ::
    "env \<Rightarrow> fs \<Rightarrow> path \<Rightarrow> (error + path \<times> bool) list \<Rightarrow> error failure + pack_id list" where
  "discover_packs E fs root [] = Inr []"
| "discover_packs E fs root (Inl e # es) = Inl (Fail e)"
| "discover_packs E fs root (Inr (p, is_file) # es) =
     (if \<not> is_file then discover_packs E fs root es
      else rbind (discover_pack E fs root p) (\<lambda>found.
           rbind (discover_packs E fs root es) (\<lambda>rest.
           Inr (case found of None \<Rightarrow> rest | Some i \<Rightarrow> i # rest))))"

definition packs :: "env \<Rightarrow> repository \<Rightarrow> pack_id list op" where
  "packs E r =
     andThen (io (create_dir_all (packs_root r))) (\<lambda>_.
     andThen (query (\<lambda>fs. discover_packs E fs (packs_root r) (e_walk E fs (packs_root r)))) (\<lambda>ids.
     ret (sort_key pack_name ids)))"

definition is_pack_loose :: "env \<Rightarrow> repository \<Rightarrow> fs \<Rightarrow> pack_id \<Rightarrow> bool" where
  "is_pack_loose E r fs pack =
     (if \<not> is_ok (validate_pack_id (e_cat E) pack) then False
      else if strip_prefix loose_prefix (pack_name pack) = None then False
      else path_exists fs (get_pack_index_path r pack))"

definition is_pack :: "env \<Rightarrow> repository \<Rightarrow> fs \<Rightarrow> bytes \<Rightarrow> id_error + pack_id option" where
  "is_pack E r fs s =
     rbind (pack_id_from_str (e_cat E) s) (\<lambda>pack.
     Inr (if path_exists fs (get_pack_index_path r pack) then Some pack else None))"

definition pack_index_mtime :: "env \<Rightarrow> repository \<Rightarrow> fs \<Rightarrow> pack_id \<Rightarrow> nat option" where
  "pack_index_mtime E r fs pack = modified_at E fs (get_pack_index_path r pack)"

definition loose_key :: "env \<Rightarrow> repository \<Rightarrow> fs \<Rightarrow> pack_id \<Rightarrow> nat \<times> bytes" where
  "loose_key E r fs pack =
     ((case pack_index_mtime E r fs pack of None \<Rightarrow> 0 | Some t \<Rightarrow> t), pack_name pack)"

definition loose_packs :: "env \<Rightarrow> repository \<Rightarrow> pack_id list op" where
  "loose_packs E r =
     andThen (packs E r) (\<lambda>ids fs.
     ret (sort_key (loose_key E r fs) (filter (is_pack_loose E r fs) ids)) fs)"

definition load_index :: "env \<Rightarrow> repository \<Rightarrow> fs \<Rightarrow> pack_id \<Rightarrow> error failure + pack_index" where
  "load_index E r fs pack =
     rbind (map_err (\<lambda>e. Fail (IdError e)) (validate_pack_id (e_cat E) pack)) (\<lambda>_.
     load_index_file E fs (get_pack_index_path r pack))"

definition load_index_snapshots :: "env \<Rightarrow> repository \<Rightarrow> fs \<Rightarrow> pack_id \<Rightarrow> error failure + bytes list" where
  "load_index_snapshots E r fs pack =
     rbind (map_err (\<lambda>e. Fail (IdError e)) (validate_pack_id (e_cat E) pack)) (\<lambda>_.
     load_tags_file E fs (get_pack_index_path r pack))"

subsection \<open>Finding a snapshot\<close>

text \<open>\<^verbatim>\<open>expect\<close> turns a failure to load an index into a panic.\<close>

definition snapshot_checksum_in :: "env \<Rightarrow> repository \<Rightarrow> fs \<Rightarrow> bytes \<Rightarrow> pack_id \<Rightarrow> error failure + checksum option" where
  "snapshot_checksum_in E r fs tag pack =
     (case load_index E r fs pack of
        Inl _ \<Rightarrow> Inl Panicked
      | Inr idx \<Rightarrow> compute_snapshot_checksum (e_sha1 E) idx tag)"

fun all_same_checksum ::
    "env \<Rightarrow> repository \<Rightarrow> fs \<Rightarrow> bytes \<Rightarrow> checksum option \<Rightarrow> pack_id list \<Rightarrow> error failure + bool" where
  "all_same_checksum E r fs tag first [] = Inr True"
| "all_same_checksum E r fs tag first (p # ps) =
     rbind (snapshot_checksum_in E r fs tag p) (\<lambda>c.
     if c = first then all_same_checksum E r fs tag first ps else Inr False)"

fun are_snapshots_equal :: "env \<Rightarrow> repository \<Rightarrow> fs \<Rightarrow> pack_id list \<Rightarrow> bytes \<Rightarrow> error failure + bool" where
  "are_snapshots_equal E r fs [] tag = Inl Panicked"
| "are_snapshots_equal E r fs (p # ps) tag =
     rbind (snapshot_checksum_in E r fs tag p) (\<lambda>first. all_same_checksum E r fs tag first ps)"

definition disambiguate_snapshot :: "env \<Rightarrow> repository \<Rightarrow> fs \<Rightarrow> pack_id list \<Rightarrow> bytes \<Rightarrow> error failure + pack_id" where
  "disambiguate_snapshot E r fs ps tag =
     rbind (are_snapshots_equal E r fs ps tag) (\<lambda>equal.
     if equal
     then (case List.find (is_pack_loose E r fs) ps of
             Some p \<Rightarrow> Inr p
           | None \<Rightarrow> if ps = [] then Inl Panicked else Inr (hd ps))
     else Inl (Fail (AmbiguousSnapshotMatch tag ps)))"

fun packs_with_tag :: "env \<Rightarrow> repository \<Rightarrow> fs \<Rightarrow> bytes \<Rightarrow> pack_id list \<Rightarrow> error failure + pack_id list" where
  "packs_with_tag E r fs tag [] = Inr []"
| "packs_with_tag E r fs tag (p # ps) =
     rbind (load_index_snapshots E r fs p) (\<lambda>tags.
     rbind (packs_with_tag E r fs tag ps) (\<lambda>rest.
     Inr (if tag \<in> set tags then p # rest else rest)))"

definition find_pack_with_snapshot :: "env \<Rightarrow> repository \<Rightarrow> bytes \<Rightarrow> pack_id op" where
  "find_pack_with_snapshot E r tag =
     andThen (packs E r) (\<lambda>ids.
     query (\<lambda>fs. rbind (packs_with_tag E r fs tag ids) (\<lambda>found. case found of
         [] \<Rightarrow> Inl (Fail (PackErr (SnapshotNotFound tag)))
       | [p] \<Rightarrow> Inr p
       | _ \<Rightarrow> disambiguate_snapshot E r fs found tag)))"

definition find_snapshot :: "env \<Rightarrow> repository \<Rightarrow> bytes \<Rightarrow> snapshot_id op" where
  "find_snapshot E r s =
     (case snapshot_id_from_str (e_cat E) s of
        Inr sid \<Rightarrow> ret sid
      | Inl _ \<Rightarrow>
          andThen (find_pack_with_snapshot E r s) (\<lambda>pack.
          liftr (map_err (\<lambda>e. Fail (IdError e)) (snapshot_id_new (e_cat E) pack s))))"

end
