(* ===== verification/RepoGc.thy ===== *)
theory RepoGc
  imports RepoFind
begin

text \<open>
  Garbage collection: duplicate snapshots, redundant loose packs and unreferenced objects
  (\<^verbatim>\<open>src/repo/repository.rs\<close>), deletion and disk statistics, and the \<^verbatim>\<open>gc\<close> command
  (\<^verbatim>\<open>src/bin/elfshaker/gc.rs\<close>).  A hash map is an association list; the tasks of
  \<^verbatim>\<open>run_in_parallel\<close> run in order, and its first error is returned.
\<close>

definition tag_checksum ::
    "env \<Rightarrow> pack_index \<Rightarrow> pack_id \<Rightarrow> bytes \<Rightarrow> error failure + checksum \<times> snapshot_id" where
  "tag_checksum E idx pack tag =
     rbind (compute_snapshot_checksum (e_sha1 E) idx tag) (\<lambda>c.
     rbind (unwrap c) (\<lambda>c.
     rbind (map_err (\<lambda>_. Panicked) (snapshot_id_new (e_cat E) pack tag)) (\<lambda>sid. Inr (c, sid))))"

definition pack_checksums :: "env \<Rightarrow> repository \<Rightarrow> fs \<Rightarrow> pack_id \<Rightarrow> error failure + (checksum \<times> snapshot_id) list" where
  "pack_checksums E r fs pack =
     rbind (load_index E r fs pack) (\<lambda>idx.
     collect (tag_checksum E idx pack) (remdups (snapshot_tags idx)))"

definition group_by_checksum :: "(checksum \<times> snapshot_id) list \<Rightarrow> (checksum \<times> snapshot_id list) list" where
  "group_by_checksum xs =
     map (\<lambda>c. (c, map snd (filter (\<lambda>(c', _). c' = c) xs))) (remdups (map fst xs))"

definition find_duplicate_snapshots ::
    "env \<Rightarrow> repository \<Rightarrow> fs \<Rightarrow> pack_id list \<Rightarrow> error failure + (checksum \<times> snapshot_id list) list" where
  "find_duplicate_snapshots E r fs ps =
     rbind (collect (pack_checksums E r fs) ps) (\<lambda>css. Inr (group_by_checksum (concat css)))"

definition loose_of :: "env \<Rightarrow> repository \<Rightarrow> fs \<Rightarrow> snapshot_id list \<Rightarrow> snapshot_id list" where
  "loose_of E r fs sids = filter (\<lambda>s. is_pack_loose E r fs (sid_pack s)) sids"

definition redundant_group :: "env \<Rightarrow> repository \<Rightarrow> fs \<Rightarrow> snapshot_id list \<Rightarrow> bool" where
  "redundant_group E r fs sids \<longleftrightarrow>
     length sids > 1 \<and> list_ex (\<lambda>s. \<not> is_pack_loose E r fs (sid_pack s)) sids"

definition redundant_pack :: "snapshot_id \<Rightarrow> error failure + pack_id" where
  "redundant_pack s =
     (if pack_name (sid_pack s) = loose_name @ CHR ''/'' # sid_tag s then Inr (sid_pack s) else Inl Panicked)"

definition find_redundant_loose_packs :: "env \<Rightarrow> repository \<Rightarrow> pack_id list op" where
  "find_redundant_loose_packs E r =
     andThen (packs E r) (\<lambda>ids.
     query (\<lambda>fs. rbind (find_duplicate_snapshots E r fs ids) (\<lambda>groups.
       collect redundant_pack
         (concat (map (\<lambda>(_, sids). loose_of E r fs sids)
           (filter (\<lambda>(_, sids). redundant_group E r fs sids) groups))))))"

text \<open>Errors of the walk are skipped (\<^verbatim>\<open>filter_map(|e| e.ok())\<close>).\<close>

definition walked_files :: "(error + path \<times> bool) list \<Rightarrow> path list" where
  "walked_files es =
     map fst (filter snd (List.map_filter (\<lambda>x. case x of Inl _ \<Rightarrow> None | Inr y \<Rightarrow> Some y) es))"

definition objects_on_disk :: "env \<Rightarrow> repository \<Rightarrow> fs \<Rightarrow> error + checksum list" where
  "objects_on_disk E r fs =
     rbind (collect (loose_object_checksum E) (walked_files (e_walk E fs (loose_root r)))) (\<lambda>cs.
     Inr (remdups cs))"

definition root_checksums :: "env \<Rightarrow> repository \<Rightarrow> fs \<Rightarrow> pack_id \<Rightarrow> error failure + checksum list" where
  "root_checksums E r fs pack =
     rbind (load_index E r fs pack) (\<lambda>idx. Inr (object_checksums idx))"

definition find_unreferenced_objects ::
    "env \<Rightarrow> repository \<Rightarrow> fs \<Rightarrow> pack_id list \<Rightarrow> error failure + checksum list" where
  "find_unreferenced_objects E r fs roots =
     rbind (map_err Fail (objects_on_disk E r fs)) (\<lambda>found.
     rbind (collect (root_checksums E r fs) roots) (\<lambda>used.
     Inr (filter (\<lambda>c. c \<notin> set (concat used)) found)))"

subsection \<open>Deletion\<close>

definition fail_io :: "(io_error, 'a) fs_op \<Rightarrow> (io_error failure, 'a) fs_op" where
  "fail_io m = lift_err Fail m"

definition delete_pack_files :: "env \<Rightarrow> repository \<Rightarrow> pack_id \<Rightarrow> (io_error failure, unit) fs_op" where
  "delete_pack_files E r pack fs =
     (if \<not> is_ok (validate_pack_id (e_cat E) pack) then (Inl (Fail InvalidInput), fs)
      else
        let pack_path = get_pack_path r pack; idx_path = get_pack_index_path r pack;
            is_loose = is_pack_loose E r fs pack; pack_exists = path_exists fs pack_path
        in if is_loose \<and> pack_exists then (Inl (Fail OtherIo), fs)
           else if \<not> is_loose \<and> \<not> pack_exists then (Inl (Fail NotFound), fs)
           else andThen (fail_io (remove_file idx_path)) (\<lambda>_.
             if \<not> is_loose then fail_io (remove_file pack_path)
             else remove_empty_dirs (butlast idx_path) (packs_root r @ [loose_name])) fs)"

definition delete_pack ::
    "env \<Rightarrow> repository \<Rightarrow> pack_id \<Rightarrow> fs \<Rightarrow> (io_error failure + unit) \<times> repository \<times> fs" where
  "delete_pack E r pack = with_lock E r Fail (delete_pack_files E r pack)"

definition delete_object ::
    "env \<Rightarrow> repository \<Rightarrow> checksum \<Rightarrow> fs \<Rightarrow> (io_error failure + unit) \<times> repository \<times> fs" where
  "delete_object E r c = with_lock E r Fail (fail_io (remove_file (loose_object_path E r c)))"

definition remove_loose_all :: "repository \<Rightarrow> unit op" where
  "remove_loose_all r fs =
     (case remove_dir_all (loose_root r) fs of
        (Inl e, fs) \<Rightarrow> if e = NotFound then (Inr (), fs) else (Inl (Fail (IOError e)), fs)
      | (Inr _, fs) \<Rightarrow> (Inr (), fs))"

definition node_len :: "node \<Rightarrow> u64" where
  "node_len n = (case n of FileNode d m \<Rightarrow> of_nat (length d) | DirNode \<Rightarrow> 0 | LinkNode t \<Rightarrow> 0)"

definition disk_len :: "fs \<Rightarrow> path \<Rightarrow> io_error + u64" where
  "disk_len fs p = rbind (metadata fs p) (\<lambda>n. Inr (node_len n))"

definition get_pack_disk_stats :: "env \<Rightarrow> repository \<Rightarrow> fs \<Rightarrow> pack_id \<Rightarrow> io_error + u64" where
  "get_pack_disk_stats E r fs pack =
     (if \<not> is_ok (validate_pack_id (e_cat E) pack) then Inl InvalidInput
      else rbind (disk_len fs (get_pack_index_path r pack)) (\<lambda>idx_len.
        let pack_len = (if is_pack_loose E r fs pack then 0
              else case disk_len fs (get_pack_path r pack) of Inr n \<Rightarrow> n | Inl _ \<Rightarrow> 0)
        in Inr (pack_len + idx_len)))"

definition get_object_disk_stats :: "env \<Rightarrow> repository \<Rightarrow> fs \<Rightarrow> checksum \<Rightarrow> io_error + u64" where
  "get_object_disk_stats E r fs c = disk_len fs (loose_object_path E r c)"

subsection \<open>The command\<close>

text \<open>
  The loops of \<^verbatim>\<open>gc\<close>: the lock is held already (or nothing is deleted), so a deletion changes
  only the file system.  The result is the number of bytes freed.
\<close>

fun gc_packs ::
    "env \<Rightarrow> repository \<Rightarrow> bool \<Rightarrow> pack_id list \<Rightarrow> pack_id list \<Rightarrow> u64 \<Rightarrow> (pack_id list \<times> u64) op" where
  "gc_packs E r dry [] roots freed = ret (roots, freed)"
| "gc_packs E r dry (p # ps) roots freed =
     andThen (liftr (ensure (p \<in> set roots))) (\<lambda>_.
     andThen (io (query (\<lambda>fs. get_pack_disk_stats E r fs p))) (\<lambda>n.
     andThen (if dry then ret () else lift_err (\<lambda>e. case e of Fail e \<Rightarrow> Fail (IOError e) | Panicked \<Rightarrow> Panicked)
       (\<lambda>fs. case delete_pack E r p fs of (x, _, fs) \<Rightarrow> (x, fs))) (\<lambda>_.
     gc_packs E r dry ps (remove1 p roots) (freed + n))))"

fun gc_objects :: "env \<Rightarrow> repository \<Rightarrow> bool \<Rightarrow> checksum list \<Rightarrow> u64 \<Rightarrow> u64 op" where
  "gc_objects E r dry [] freed = ret freed"
| "gc_objects E r dry (c # cs) freed =
     andThen (io (query (\<lambda>fs. get_object_disk_stats E r fs c))) (\<lambda>n.
     andThen (if dry then ret () else lift_err (\<lambda>e. case e of Fail e \<Rightarrow> Fail (IOError e) | Panicked \<Rightarrow> Panicked)
       (\<lambda>fs. case delete_object E r c fs of (x, _, fs) \<Rightarrow> (x, fs))) (\<lambda>_.
     gc_objects E r dry cs (freed + n)))"

definition gc_sweep :: "env \<Rightarrow> repository \<Rightarrow> bool \<Rightarrow> bool \<Rightarrow> bool \<Rightarrow> u64 op" where
  "gc_sweep E r dry loose_snapshots loose_objects =
     andThen (loose_packs E r) (\<lambda>roots.
     andThen (if loose_snapshots
       then andThen (find_redundant_loose_packs E r) (\<lambda>redundant. gc_packs E r dry redundant roots 0)
       else ret (roots, 0)) (\<lambda>(roots, freed).
     if loose_objects
     then andThen (query (\<lambda>fs. find_unreferenced_objects E r fs roots)) (\<lambda>cs. gc_objects E r dry cs freed)
     else ret freed))"

datatype cli_error = LibraryError error | UsageError bytes

definition gc_run ::
    "env \<Rightarrow> repository \<Rightarrow> bool \<Rightarrow> bool \<Rightarrow> bool \<Rightarrow> fs \<Rightarrow> (cli_error failure + u64) \<times> repository \<times> fs" where
  "gc_run E r dry loose_snapshots loose_objects fs =
     (let lib = lift_err (\<lambda>e. case e of Fail e \<Rightarrow> Fail (LibraryError e) | Panicked \<Rightarrow> Panicked) in
      if \<not> loose_snapshots \<and> \<not> loose_objects then (Inl (Fail (UsageError ''Invalid options!'')), r, fs)
      else if dry then (case lib (gc_sweep E r dry loose_snapshots loose_objects) fs of (x, fs) \<Rightarrow> (x, r, fs))
      else (case lock_exclusive E r of
          (Inl e, r) \<Rightarrow> (Inl (Fail (LibraryError (IOError e))), r, fs)
        | (Inr _, r) \<Rightarrow>
            (case lib (gc_sweep E r dry loose_snapshots loose_objects) fs of (x, fs) \<Rightarrow> (x, r, fs))))"

end
