(* ===== verification/RepoFacts.thy ===== *)
theory RepoFacts
  imports RepoFind EnvPlain IndexInv
begin

text \<open>
  Facts about the repository's paths, its lock, HEAD and the search for a snapshot.
\<close>

subsection \<open>The lock\<close>

text \<open>The flag says whether the mutex file is locked exclusively.\<close>

definition lock_inv :: "repository \<Rightarrow> bool" where
  "lock_inv r \<longleftrightarrow> (rp_exclusive r \<longleftrightarrow> rp_lock r = Some ExclusiveLock)"

lemma lock_exclusive_inv: "lock_inv r \<Longrightarrow> lock_exclusive E r = (x, r') \<Longrightarrow> lock_inv r'"
  by (auto simp: lock_inv_def lock_exclusive_def Let_def restore_shared_lock_on_error_def
      split: if_splits sum.splits lock_answer.splits)

lemma lock_exclusive_held:
  "lock_exclusive E r = (Inr (), r') \<Longrightarrow> lock_inv r \<Longrightarrow>
     rp_lock r' = Some ExclusiveLock \<and> rp_exclusive r' \<and> rp_path r' = rp_path r \<and> rp_data_dir r' = rp_data_dir r"
  by (auto simp: lock_inv_def lock_exclusive_def Let_def restore_shared_lock_on_error_def
      split: if_splits sum.splits lock_answer.splits)

subsection \<open>Paths of loose objects\<close>

lemma hex_lower_ascii: "is_hex_lower c \<Longrightarrow> byte_val c < 128"
  by (auto simp: is_hex_lower_def is_ascii_digit_def)

lemma hex_utf8: "hex_ok H \<Longrightarrow> utf8_lossy (hex_encode H b) = hex_encode H b"
  using hex_okD(3) [of H b] by (intro utf8_lossy_valid ascii_string(1)) (auto simp: list_all_iff hex_lower_ascii)

lemma loose_object_parts:
  assumes "hex_ok (e_hex E)" "length c = 20"
  shows "loose_object_path E r c =
    loose_root r @ [hex_encode (e_hex E) (take 1 c), hex_encode (e_hex E) (take 1 (drop 1 c)),
      hex_encode (e_hex E) (drop 2 c)]"
proof -
  let ?h = "hex_encode (e_hex E)"
  obtain x y z where c: "c = [x] @ [y] @ z" using assms(2) by (cases c; cases "tl c") auto
  have len: "length (?h [a]) = 2" for a using hex_okD(2) [OF assms(1), of "[a]"] by simp
  have "?h c = ?h [x] @ ?h [y] @ ?h z" by (simp only: c hex_okD(6) [OF assms(1)])
  then show ?thesis using len by (simp add: loose_object_path_def c)
qed

lemma loose_object_round_trip:
  assumes "hex_ok (e_hex E)" "length c = 20"
  shows "loose_object_checksum E (loose_object_path E r c) = Inr c"
proof -
  let ?h = "hex_encode (e_hex E)"
  let ?p = "loose_object_path E r c"
  obtain n where n: "length (''/'' # ?p) = n + 3" "n = length (''/'' # loose_root r)"
    using loose_object_parts [OF assms] by simp
  have nth: "(''/'' # ?p) ! n = ?h (take 1 c)" "(''/'' # ?p) ! (n + 1) = ?h (take 1 (drop 1 c))"
    "(''/'' # ?p) ! (n + 2) = ?h (drop 2 c)"
    using loose_object_parts [OF assms] n(2) by (simp_all add: nth_append)
  have "take 1 c @ take 1 (drop 1 c) @ drop 2 c = c"
    using assms(2) by (cases c; cases "tl c") auto
  then show ?thesis
    using n(1) nth assms(2) hex_utf8 [OF assms(1)] hex_okD(1) [OF assms(1)]
    by (simp add: loose_object_checksum_def Let_def)
qed

lemma loose_object_path_inj:
  "hex_ok (e_hex E) \<Longrightarrow> length c = 20 \<Longrightarrow> length c' = 20 \<Longrightarrow>
     loose_object_path E r c = loose_object_path E r c' \<Longrightarrow> c = c'"
  by (metis loose_object_round_trip sum.inject(2))

lemma loose_object_checksum_length: "loose_object_checksum E p = Inr c \<Longrightarrow> length c = 20"
  by (auto simp: loose_object_checksum_def Let_def result_simps split: if_splits)

subsection \<open>HEAD\<close>

lemma tag_no_cr:
  assumes "cat_ok E" "is_utf8 tag" "snapshot_tag_valid (e_cat E) tag"
  shows "CHR 0x0D \<notin> set tag"
proof
  assume b: "CHR 0x0D \<in> set tag"
  have comps: "check_tag_components (e_cat E) (split_on (CHR ''/'') tag)"
    using assms(3) by (simp add: snapshot_tag_valid_def split: if_splits)
  from b obtain c where c: "c \<in> set (split_on (CHR ''/'') tag)" "CHR 0x0D \<in> set c"
    using set_join_with [of "CHR ''/''" "split_on (CHR ''/'') tag"] by auto
  have "\<forall>c \<in> set (split_on (CHR ''/'') tag). list_all (snapshot_char_ok (e_cat E)) (str_chars c)"
    using check_tag_components_all [OF comps] by blast
  from utf8_components [OF assms(2) this] c
  have "byte_val (CHR 0x0D) < 128 \<longrightarrow> snapshot_char_ok (e_cat E) (byte_val (CHR 0x0D))" by blast
  then have "snapshot_char_ok (e_cat E) (byte_val (CHR 0x0D))" by (simp add: byte_val_def)
  with assms(1) show False by (simp add: snapshot_char_ok_def cat_ok_def byte_val_def split: if_splits)
qed

definition sid_ok :: "env \<Rightarrow> snapshot_id \<Rightarrow> bool" where
  "sid_ok E s \<longleftrightarrow> is_utf8 (sid_tag s) \<and> snapshot_tag_valid (e_cat E) (sid_tag s) \<and>
     is_utf8 (pack_name (sid_pack s)) \<and> validate_pack_id (e_cat E) (sid_pack s) = Inr ()"

lemma parse_head_display:
  assumes "cat_ok E" "sid_ok E s"
  shows "parse_head E (snapshot_id_display s @ [CHR 0x0A]) = Inr s"
proof -
  obtain name where name: "sid_pack s = Pack name" by (cases "sid_pack s")
  have ascii: "is_utf8 '':''" "is_utf8 [CHR 0x0A]"
    by (rule ascii_string(1); simp add: byte_val_def)+
  have "is_utf8 (name @ '':'' @ sid_tag s @ [CHR 0x0A])"
    using assms(2) name by (intro is_utf8_append ascii) (auto simp: sid_ok_def)
  then have utf: "is_utf8 (snapshot_id_display s @ [CHR 0x0A])" using name by (simp add: snapshot_id_display_def)
  have "CHR 0x0D \<notin> set (sid_tag s)" using tag_no_cr assms by (simp add: sid_ok_def)
  then have cr: "CHR 0x0D \<notin> set (CHR '':'' # sid_tag s)" by simp
  have "strip_suffix [CHR 0x0D] (snapshot_id_display s) = None"
  proof (rule ccontr)
    assume "strip_suffix [CHR 0x0D] (snapshot_id_display s) \<noteq> None"
    then obtain t where "snapshot_id_display s = t @ [CHR 0x0D]" by (auto simp: strip_suffix_iff)
    then have "last (pack_id_display (sid_pack s) @ CHR '':'' # sid_tag s) = CHR 0x0D"
      by (simp add: snapshot_id_display_def)
    then have "last (CHR '':'' # sid_tag s) = CHR 0x0D" by (simp del: last.simps)
    then show False using cr last_in_set [of "CHR '':'' # sid_tag s"] by (metis list.distinct(1))
  qed
  then have "strip_eol (CHR 0x0D) (strip_eol (CHR 0x0A) (snapshot_id_display s @ [CHR 0x0A])) = snapshot_id_display s"
    by (simp add: strip_eol_def)
  with utf assms(2) snapshot_id_parses [of s "e_cat E"] show ?thesis
    by (simp add: parse_head_def sid_ok_def)
qed

text \<open>A data directory that can be written: real directories, HEAD no directory and no link.\<close>

definition data_dir_ok :: "env \<Rightarrow> repository \<Rightarrow> fs \<Rightarrow> bool" where
  "data_dir_ok E r fs \<longleftrightarrow> fs_wf fs \<and> no_parent_refs (rp_data_dir r) \<and> dirs_to fs (rp_data_dir r) \<and>
     (fs_get fs (temp_dir r) = None \<or> fs_get fs (temp_dir r) = Some DirNode)"

definition tmp_ok :: "env \<Rightarrow> repository \<Rightarrow> fs \<Rightarrow> path \<Rightarrow> bool" where
  "tmp_ok E r fs dest \<longleftrightarrow> e_tmp E dest \<noteq> ''..'' \<and> fs_get fs (temp_dir r @ [e_tmp E dest]) = None"

text \<open>The temporary directory is made if it is missing; then an atomic write of a file outside it.\<close>

lemma temp_dir_ready:
  assumes "data_dir_ok E r fs"
  shows "\<exists>fs'. ensure_dir (temp_dir r) fs = (Inr (), fs') \<and> fs_wf fs' \<and> dirs_to fs' (temp_dir r) \<and>
    (\<forall>q. fs_get fs' q = (if q = temp_dir r then Some DirNode else fs_get fs q))"
proof -
  have np: "no_parent_refs (temp_dir r)"
    using assms by (simp add: data_dir_ok_def temp_dir_def no_parent_refs_snoc temp_name_def)
  have dirs: "dirs_to fs (rp_data_dir r)" using assms by (simp add: data_dir_ok_def)
  have "dirs_or_missing fs (temp_dir r)"
    using assms by (auto simp: dirs_or_missing_def data_dir_ok_def temp_dir_def prefix_snoc_iff dirs_to_def)
  then obtain fs' where fs': "create_dir_all (temp_dir r) fs = (Inr (), fs')" "fs_wf fs'"
      "\<forall>q. fs_get fs' q = (if prefix q (temp_dir r) then Some DirNode else fs_get fs q)"
    using create_dir_all_ok [OF _ np] assms by (auto simp: data_dir_ok_def)
  moreover have "fs_get fs q = Some DirNode" if "prefix q (temp_dir r)" "q \<noteq> temp_dir r" for q
    using that dirs by (auto simp: temp_dir_def prefix_snoc_iff dirs_to_def)
  ultimately show ?thesis by (intro exI [of _ fs']) (auto simp: ensure_dir_def dirs_to_def)
qed

lemma update_head_ok:
  assumes "data_dir_ok E r fs" "tmp_ok E r fs (head_path r)" "fs_get fs (head_path r) \<noteq> Some DirNode"
    and "rp_lock r \<noteq> None"
  shows "\<exists>fs'. update_head E r s fs = (Inr (), fs') \<and> fs_wf fs' \<and>
    (\<forall>q. fs_get fs' q =
      (if q = head_path r then Some (FileNode (snapshot_id_display s @ [CHR 0x0A]) created_mode)
       else if q = temp_dir r then Some DirNode else fs_get fs q))"
proof -
  obtain fs1 where fs1: "ensure_dir (temp_dir r) fs = (Inr (), fs1)" "fs_wf fs1" "dirs_to fs1 (temp_dir r)"
      "\<forall>q. fs_get fs1 q = (if q = temp_dir r then Some DirNode else fs_get fs q)"
    using temp_dir_ready [OF assms(1)] by blast
  let ?t = "e_tmp E (head_path r)" and ?b = "snapshot_id_display s @ [CHR 0x0A]"
  have np: "no_parent_refs (temp_dir r)" "no_parent_refs (rp_data_dir r)"
    using assms(1) by (simp_all add: data_dir_ok_def temp_dir_def no_parent_refs_snoc temp_name_def)
  have dd: "dirs_to fs1 (rp_data_dir r)"
    using fs1(4) assms(1) by (auto simp: dirs_to_def data_dir_ok_def)
  have ne: "temp_dir r @ [?t] \<noteq> rp_data_dir r @ [head_file]" "head_path r \<noteq> temp_dir r"
    by (auto simp: temp_dir_def head_path_def temp_name_def head_file_def)
  have tmp: "?t \<noteq> ''..''" "fs_get fs1 (temp_dir r @ [?t]) = None"
    using assms(2) fs1(4) by (simp_all add: tmp_ok_def)
  have dest: "fs_get fs1 (rp_data_dir r @ [head_file]) \<noteq> Some DirNode"
    using assms(3) fs1(4) ne by (simp add: head_path_def)
  have hn: "head_file \<noteq> ''..''" by (simp add: head_file_def)
  from write_file_atomic_to [OF fs1(2,3) np(1) dd np(2) tmp(1) hn ne(1) tmp(2) dest, of "(?b, None)"]
  obtain fs2 where w: "write_file_atomic (?b, None) (temp_dir r) ?t (rp_data_dir r @ [head_file]) fs1 = (Inr (), fs2)"
      "fs_wf fs2" "\<forall>q. q \<noteq> temp_dir r @ [?t] \<longrightarrow> fs_get fs2 q =
        (if q = rp_data_dir r @ [head_file] then Some (FileNode ?b created_mode) else fs_get fs1 q)"
      "fs_get fs2 (temp_dir r @ [?t]) = None"
    by auto
  have "update_head E r s fs = (Inr (), fs2)"
    using assms(4) fs1(1) w(1)
    by (auto simp: update_head_def io_def lift_err_def andThen_def head_path_def)
  moreover have "fs_get fs2 q =
      (if q = head_path r then Some (FileNode ?b created_mode)
       else if q = temp_dir r then Some DirNode else fs_get fs q)" for q
    using w(3,4) fs1(4) assms(2) ne by (cases "q = temp_dir r @ [?t]") (auto simp: head_path_def tmp_ok_def)
  ultimately show ?thesis using w(2) by blast
qed

lemma read_head_file:
  assumes "fs_wf fs" "no_parent_refs (rp_data_dir r)" "fs_get fs (head_path r) = Some (FileNode b created_mode)"
  shows "fs_read fs (head_path r) = Inr b"
proof -
  have "dirs_above fs (head_path r)"
    using fs_wf_prefix [OF assms(1), of "head_path r"] assms(3) by (auto simp: dirs_above_def)
  moreover have "no_parent_refs (head_path r)"
    using assms(2) by (simp add: head_path_def no_parent_refs_snoc head_file_def)
  ultimately have "metadata fs (head_path r) = Inr (FileNode b created_mode)"
    using assms(3) by (intro metadata_plain) auto
  then show ?thesis by (simp add: fs_read_def created_mode_def owner_read_def)
qed

lemma head_round_trip:
  assumes "data_dir_ok E r fs" "tmp_ok E r fs (head_path r)" "fs_get fs (head_path r) \<noteq> Some DirNode"
    and "rp_lock r \<noteq> None" "cat_ok E" "sid_ok E s"
  shows "\<exists>fs' t. update_head E r s fs = (Inr (), fs') \<and> read_head E r fs' = Inr (Some s, t) \<and>
    (\<forall>q. q \<noteq> head_path r \<and> q \<noteq> temp_dir r \<longrightarrow> fs_get fs' q = fs_get fs q)"
proof -
  obtain fs' where fs': "update_head E r s fs = (Inr (), fs')" "fs_wf fs'"
      "\<forall>q. fs_get fs' q =
      (if q = head_path r then Some (FileNode (snapshot_id_display s @ [CHR 0x0A]) created_mode)
       else if q = temp_dir r then Some DirNode else fs_get fs q)"
    using update_head_ok [OF assms(1-4)] by blast
  have "no_parent_refs (rp_data_dir r)" using assms(1) by (simp add: data_dir_ok_def)
  then have "fs_read fs' (head_path r) = Inr (snapshot_id_display s @ [CHR 0x0A])"
    using fs' by (intro read_head_file) auto
  then have "\<exists>t. read_head E r fs' = Inr (Some s, t)"
    using parse_head_display [OF assms(5,6)] by (simp add: read_head_def)
  with fs'(1,3) show ?thesis by auto
qed

subsection \<open>Finding a snapshot\<close>

definition has_tag :: "env \<Rightarrow> repository \<Rightarrow> fs \<Rightarrow> bytes \<Rightarrow> pack_id \<Rightarrow> bool" where
  "has_tag E r fs tag p \<longleftrightarrow> (\<exists>tags. load_index_snapshots E r fs p = Inr tags \<and> tag \<in> set tags)"

lemma packs_with_tag_filter:
  "packs_with_tag E r fs tag ps = Inr found \<Longrightarrow> found = filter (has_tag E r fs tag) ps"
  by (induction ps arbitrary: found) (auto simp: result_simps has_tag_def)

lemma all_same_checksum_True:
  "all_same_checksum E r fs tag first ps = Inr True \<longleftrightarrow>
     (\<forall>p \<in> set ps. snapshot_checksum_in E r fs tag p = Inr first)"
  by (induction ps) (auto simp: result_simps)

lemma disambiguate_ok:
  assumes "disambiguate_snapshot E r fs ps tag = Inr p"
  shows "p \<in> set ps \<and> (\<exists>c. \<forall>q \<in> set ps. snapshot_checksum_in E r fs tag q = Inr c) \<and>
    ((\<exists>q \<in> set ps. is_pack_loose E r fs q) \<longrightarrow> is_pack_loose E r fs p)"
proof (cases ps)
  case Nil
  with assms show ?thesis by (simp add: disambiguate_snapshot_def)
next
  case (Cons q qs)
  with assms have equal: "are_snapshots_equal E r fs ps tag = Inr True"
    by (auto simp: disambiguate_snapshot_def result_simps split: if_splits)
  then have "\<exists>c. \<forall>q \<in> set ps. snapshot_checksum_in E r fs tag q = Inr c"
    using Cons by (auto simp: result_simps all_same_checksum_True)
  moreover have "p = (case List.find (is_pack_loose E r fs) ps of Some p \<Rightarrow> p | None \<Rightarrow> hd ps)"
    using assms equal Cons
    by (cases "List.find (is_pack_loose E r fs) ps") (simp_all add: disambiguate_snapshot_def del: List.find.simps)
  ultimately show ?thesis
    using Cons by (auto simp: find_Some_iff find_None_iff split: option.splits)
qed

lemma find_pack_ok:
  assumes "find_pack_with_snapshot E r tag fs = (Inr p, fs')"
  shows "\<exists>ids. packs E r fs = (Inr ids, fs') \<and> p \<in> set ids \<and> has_tag E r fs' tag p \<and>
    (\<forall>q \<in> set ids. has_tag E r fs' tag q \<longrightarrow> q = p \<or>
       (\<exists>c. snapshot_checksum_in E r fs' tag p = Inr c \<and> snapshot_checksum_in E r fs' tag q = Inr c)) \<and>
    ((\<exists>q \<in> set ids. has_tag E r fs' tag q \<and> is_pack_loose E r fs' q) \<longrightarrow> is_pack_loose E r fs' p)"
proof -
  from assms obtain ids found where ids: "packs E r fs = (Inr ids, fs')"
      "packs_with_tag E r fs' tag ids = Inr found"
      "(case found of [] \<Rightarrow> Inl (Fail (PackErr (SnapshotNotFound tag))) | [p] \<Rightarrow> Inr p
         | _ \<Rightarrow> disambiguate_snapshot E r fs' found tag) = Inr p"
    by (auto simp: find_pack_with_snapshot_def andThen_def query_def result_simps split: prod.splits sum.splits)
  have f: "set found = {q \<in> set ids. has_tag E r fs' tag q}"
    using packs_with_tag_filter [OF ids(2)] by auto
  show ?thesis
  proof (cases found)
    case Nil
    with ids(3) show ?thesis by simp
  next
    case (Cons a rest)
    show ?thesis
    proof (cases rest)
      case Nil
      then have "p = a" using ids(3) Cons by simp
      moreover have "set found = {a}" using Cons Nil by simp
      ultimately have "q \<in> set ids \<and> has_tag E r fs' tag q \<longleftrightarrow> q = p" for q using f by auto
      with ids(1) show ?thesis by (intro exI [of _ ids]) metis
    next
      case (Cons b more)
      then have "disambiguate_snapshot E r fs' found tag = Inr p" using ids(3) \<open>found = a # rest\<close> by simp
      from disambiguate_ok [OF this] obtain c where c: "p \<in> set found"
        "\<forall>q \<in> set found. snapshot_checksum_in E r fs' tag q = Inr c"
        "(\<exists>q \<in> set found. is_pack_loose E r fs' q) \<longrightarrow> is_pack_loose E r fs' p" by blast
      with f have "\<forall>q \<in> set ids. has_tag E r fs' tag q \<longrightarrow>
          (\<exists>c. snapshot_checksum_in E r fs' tag p = Inr c \<and> snapshot_checksum_in E r fs' tag q = Inr c)"
        by blast
      with ids(1) c f show ?thesis by (intro exI [of _ ids]) auto
    qed
  qed
qed

text \<open>The checksum of a snapshot of a well-formed index is the hash of the tagged set.\<close>

lemma snapshot_checksum_known:
  assumes "index_wf idx" "map_of (snapshots_of idx) tag = Some C"
  shows "\<exists>es. entry_content ` set es = C \<and> distinct (map entry_content es) \<and>
    compute_snapshot_checksum sha1 idx tag = (Inr (Some (sha1 (identity_stream es))) :: 'e failure + _)"
  using resolve_snapshot_replayed [OF assms(1), of tag, where 'e = 'e] assms(2)
  by (fastforce simp: compute_snapshot_checksum_def entry_refs_from_handles_def entries_from_handles_def
      handle_to_entry_ref_eq)

text \<open>
  Equal as \<^verbatim>\<open>are_snapshots_equal\<close> sees it: the checksums agree, and for a well-formed index the
  checksum is the one of its tagged set.  (Two snapshots whose entries cannot be looked up are equal, too.)
\<close>

definition same_content :: "env \<Rightarrow> repository \<Rightarrow> fs \<Rightarrow> bytes \<Rightarrow> pack_id \<Rightarrow> pack_id \<Rightarrow> bool" where
  "same_content E r fs tag p q \<longleftrightarrow>
     (\<exists>c. snapshot_checksum_in E r fs tag p = Inr c \<and> snapshot_checksum_in E r fs tag q = Inr c \<and>
       (\<forall>k idx C. k \<in> {p, q} \<and> load_index E r fs k = Inr idx \<and> index_wf idx \<and>
          map_of (snapshots_of idx) tag = Some C \<longrightarrow>
          (\<exists>es. entry_content ` set es = C \<and> distinct (map entry_content es) \<and>
            c = Some (e_sha1 E (identity_stream es)))))"

lemma same_contentI:
  assumes "snapshot_checksum_in E r fs tag p = Inr c" "snapshot_checksum_in E r fs tag q = Inr c"
  shows "same_content E r fs tag p q"
proof -
  have "\<exists>es. entry_content ` set es = C \<and> distinct (map entry_content es) \<and> c = Some (e_sha1 E (identity_stream es))"
    if "k \<in> {p, q}" "load_index E r fs k = Inr idx" "index_wf idx" "map_of (snapshots_of idx) tag = Some C" for k idx C
  proof -
    have "compute_snapshot_checksum (e_sha1 E) idx tag = (Inr c :: error failure + _)"
      using assms that(1,2) by (auto simp: snapshot_checksum_in_def)
    with snapshot_checksum_known [OF that(3,4), of "e_sha1 E", where 'e = error] show ?thesis by auto
  qed
  with assms show ?thesis unfolding same_content_def by blast
qed

lemma find_snapshot_ok:
  assumes "find_snapshot E r s fs = (Inr sid, fs')" "snapshot_id_from_str (e_cat E) s = Inl e"
  shows "sid_tag sid = s \<and> (\<exists>ids. packs E r fs = (Inr ids, fs') \<and> sid_pack sid \<in> set ids \<and>
    has_tag E r fs' s (sid_pack sid) \<and>
    (\<forall>q \<in> set ids. has_tag E r fs' s q \<longrightarrow> q = sid_pack sid \<or> same_content E r fs' s (sid_pack sid) q) \<and>
    ((\<exists>q \<in> set ids. has_tag E r fs' s q \<and> is_pack_loose E r fs' q) \<longrightarrow> is_pack_loose E r fs' (sid_pack sid)))"
proof -
  obtain p where p: "find_pack_with_snapshot E r s fs = (Inr p, fs')" "sid = \<lparr>sid_pack = p, sid_tag = s\<rparr>"
    using assms by (auto simp: find_snapshot_def andThen_def liftr_def snapshot_id_new_def result_simps
        split: prod.splits sum.splits if_splits)
  from find_pack_ok [OF p(1)] obtain ids where ids: "packs E r fs = (Inr ids, fs')" "p \<in> set ids" "has_tag E r fs' s p"
      "\<forall>q \<in> set ids. has_tag E r fs' s q \<longrightarrow> q = p \<or>
         (\<exists>c. snapshot_checksum_in E r fs' s p = Inr c \<and> snapshot_checksum_in E r fs' s q = Inr c)"
      "(\<exists>q \<in> set ids. has_tag E r fs' s q \<and> is_pack_loose E r fs' q) \<longrightarrow> is_pack_loose E r fs' p" by blast
  with p(2) same_contentI [of E r fs' s p] show ?thesis by auto
qed

end
