(* ===== verification/GcFacts.thy ===== *)
theory GcFacts
  imports RepoGc RepoFacts
begin

text \<open>
  Safety of garbage collection: what \<^verbatim>\<open>find_unreferenced_objects\<close> and
  \<^verbatim>\<open>find_redundant_loose_packs\<close> select, and what the deletions change.
\<close>

subsection \<open>Unreferenced objects\<close>

definition referenced :: "env \<Rightarrow> repository \<Rightarrow> fs \<Rightarrow> pack_id list \<Rightarrow> checksum \<Rightarrow> bool" where
  "referenced E r fs roots c \<longleftrightarrow>
     (\<exists>p \<in> set roots. \<exists>idx. load_index E r fs p = Inr idx \<and> c \<in> set (object_checksums idx))"

lemma unreferenced_ok:
  assumes "find_unreferenced_objects E r fs roots = Inr cs"
  shows "(\<exists>found. objects_on_disk E r fs = Inr found \<and>
      set cs = {c \<in> set found. \<not> referenced E r fs roots c}) \<and> distinct cs \<and>
    (\<forall>c \<in> set cs. length c = 20) \<and> (\<forall>p \<in> set roots. \<exists>idx. load_index E r fs p = Inr idx)"
proof -
  from assms obtain found used where f: "objects_on_disk E r fs = Inr found"
      "collect (root_checksums E r fs) roots = Inr used" "cs = filter (\<lambda>c. c \<notin> set (concat used)) found"
    by (auto simp: find_unreferenced_objects_def result_simps)
  have used: "list_all2 (\<lambda>p u. \<exists>idx. load_index E r fs p = Inr idx \<and> u = object_checksums idx) roots used"
    using f(2) by (auto simp: collect_Inr_iff root_checksums_def result_simps elim: list_all2_mono)
  then have ref: "c \<in> set (concat used) \<longleftrightarrow> referenced E r fs roots c" for c
    by (induction rule: list_all2_induct) (auto simp: referenced_def)
  obtain raw where raw: "collect (loose_object_checksum E) (walked_files (e_walk E fs (loose_root r))) = Inr raw"
      "found = remdups raw"
    using f(1) by (auto simp: objects_on_disk_def result_simps)
  have "\<forall>c \<in> set raw. length c = 20"
    using raw(1) by (auto simp: collect_Inr_iff list_all2_conv_all_nth in_set_conv_nth
        dest!: loose_object_checksum_length)
  moreover have "\<forall>p \<in> set roots. \<exists>idx. load_index E r fs p = Inr idx"
    using used by (induction rule: list_all2_induct) auto
  ultimately show ?thesis using f(1,3) raw(2) ref by auto
qed

subsection \<open>Deleting objects\<close>

text \<open>No link on the way to a loose object.\<close>

definition store_plain :: "env \<Rightarrow> repository \<Rightarrow> fs \<Rightarrow> bool" where
  "store_plain E r fs \<longleftrightarrow> fs_wf fs \<and> no_parent_refs (rp_data_dir r) \<and>
     (\<forall>c q t. length c = 20 \<and> strict_prefix q (loose_object_path E r c) \<longrightarrow> fs_get fs q \<noteq> Some (LinkNode t))"

lemma loose_object_no_parent:
  assumes "hex_ok (e_hex E)" "length c = 20" "no_parent_refs (rp_data_dir r)"
  shows "no_parent_refs (loose_object_path E r c)" "loose_object_path E r c \<noteq> []"
proof -
  have dot: "\<not> is_hex_lower (CHR ''.'')"
    by (simp add: is_hex_lower_def is_ascii_digit_def) (simp add: byte_val_def)
  have "hex_encode (e_hex E) b \<noteq> ''..''" for b
    using hex_okD(3) [OF assms(1), of b] dot by auto
  then have "''..'' \<noteq> hex_encode (e_hex E) b" for b by metis
  with loose_object_parts [OF assms(1,2)] assms(3)
  show "no_parent_refs (loose_object_path E r c)" "loose_object_path E r c \<noteq> []"
    by (auto simp: no_parent_refs_def loose_root_def loose_name_def)
qed

text \<open>With real directories above, or something missing, a path resolves to itself or not at all.\<close>

lemma walk_no_links:
  "''..'' \<notin> set cs \<Longrightarrow> (\<And>q t. strict_prefix q cs \<Longrightarrow> fs_get fs (cur @ q) \<noteq> Some (LinkNode t)) \<Longrightarrow>
     walk links fs False cur cs = Inr p \<Longrightarrow> p = cur @ cs"
proof (induction cs arbitrary: cur)
  case Nil
  then show ?case by simp
next
  case (Cons c cs)
  have c: "c \<noteq> ''..''" using Cons.prems(1) by auto
  have step: "p = (cur @ [c]) @ cs" if "walk links fs False (cur @ [c]) cs = Inr p"
  proof (rule Cons.IH [OF _ _ that])
    show "''..'' \<notin> set cs" using Cons.prems(1) by simp
    show "fs_get fs ((cur @ [c]) @ q) \<noteq> Some (LinkNode t)" if "strict_prefix q cs" for q t
      using Cons.prems(2) [of "c # q" t] that by (simp add: strict_prefix_def)
  qed
  show ?case
  proof (cases "fs_get fs (cur @ [c])")
    case None
    then show ?thesis using Cons.prems(3) c by (auto split: if_splits)
  next
    case (Some n)
    show ?thesis
    proof (cases n)
      case (FileNode d m)
      then show ?thesis using Some Cons.prems(3) c by (auto split: if_splits)
    next
      case DirNode
      then show ?thesis using Some Cons.prems(3) c step by simp
    next
      case (LinkNode t)
      have "cs = []"
      proof (rule ccontr)
        assume "cs \<noteq> []"
        then have "strict_prefix [c] (c # cs)" by (simp add: strict_prefix_def)
        from Cons.prems(2) [OF this, of t] LinkNode Some show False by simp
      qed
      then show ?thesis using LinkNode Some Cons.prems(3) c by simp
    qed
  qed
qed

lemma remove_object:
  assumes "hex_ok (e_hex E)" "store_plain E r fs" "length c = 20"
    and "remove_file (loose_object_path E r c) fs = (x, fs')"
  shows "fs' = fs \<or> fs' = fs_del (loose_object_path E r c) fs \<and>
    (\<exists>n. fs_get fs (loose_object_path E r c) = Some n \<and> \<not> is_dir_node n)"
proof (cases "resolve_entry fs (loose_object_path E r c)")
  case (Inl e)
  with assms(4) show ?thesis by (simp add: remove_file_def)
next
  case (Inr q)
  have "q = [] @ loose_object_path E r c"
    using Inr assms(2,3) loose_object_no_parent [OF assms(1,3), of r]
    by (intro walk_no_links [of "loose_object_path E r c" fs "[]" max_links])
      (auto simp: resolve_entry_def no_parent_refs_def store_plain_def)
  with Inr assms(4) show ?thesis by (auto simp: remove_file_def split: option.splits if_splits)
qed

lemma store_plain_del:
  assumes "hex_ok (e_hex E)" "store_plain E r fs" "length c = 20"
    and "\<exists>n. fs_get fs (loose_object_path E r c) = Some n \<and> \<not> is_dir_node n"
  shows "store_plain E r (fs_del (loose_object_path E r c) fs)"
proof -
  let ?p = "loose_object_path E r c"
  have ne: "?p \<noteq> []" using loose_object_no_parent [OF assms(1,3)] assms(2) by (simp add: store_plain_def)
  have "fs_get fs ?p \<noteq> Some DirNode" using assms(4) by auto
  then have "\<not> has_children fs ?p" using children_need_dir [of fs ?p] assms(2) by (auto simp: store_plain_def)
  then have "fs_wf (fs_del ?p fs)" using assms(2) ne by (intro fs_wf_del) (auto simp: store_plain_def)
  then show ?thesis using assms(2) by (auto simp: store_plain_def fs_get_del [OF ne])
qed

lemma delete_object_effect:
  assumes "hex_ok (e_hex E)" "store_plain E r fs" "length c = 20"
    and "delete_object E r c fs = (x, r', fs')"
  shows "fs' = fs \<or> fs' = fs_del (loose_object_path E r c) fs \<and> store_plain E r fs'"
proof -
  have "fs' = fs \<or> (\<exists>y. remove_file (loose_object_path E r c) fs = (y, fs'))"
    using assms(4) by (auto simp: delete_object_def with_lock_def fail_io_def lift_err_def
        split: prod.splits sum.splits)
  then show ?thesis using remove_object [OF assms(1-3)] store_plain_del [OF assms(1-3)] by metis
qed

text \<open>The sweep over the objects removes at most those selected.\<close>

lemma gc_objects_effect:
  "hex_ok (e_hex E) \<Longrightarrow> store_plain E r fs \<Longrightarrow> \<forall>c \<in> set cs. length c = 20 \<Longrightarrow>
     gc_objects E r dry cs freed fs = (x, fs') \<Longrightarrow>
     (\<forall>q. fs_get fs' q \<noteq> fs_get fs q \<longrightarrow> \<not> dry \<and> (\<exists>c \<in> set cs. q = loose_object_path E r c))"
proof (induction cs arbitrary: fs freed)
  case Nil
  then show ?case by (simp add: ret_def)
next
  case (Cons c cs)
  let ?p = "loose_object_path E r c"
  have ne: "?p \<noteq> []"
    using loose_object_no_parent(2) [of E c r] Cons.prems(1-3) by (simp add: store_plain_def)
  from Cons.prems(4) consider "fs' = fs"
    | (dry) n where "dry" "gc_objects E r dry cs (freed + n) fs = (x, fs')"
    | (deleted) y r' fs1 n where "\<not> dry" "delete_object E r c fs = (y, r', fs1)"
        "fs' = fs1 \<or> gc_objects E r dry cs (freed + n) fs1 = (x, fs')"
    by (auto simp: andThen_def query_def io_def lift_err_def ret_def split: if_splits prod.splits sum.splits) 
  then show ?case
  proof cases
    case 1
    then show ?thesis by simp
  next
    case dry
    with Cons.IH [OF Cons.prems(1,2) _ dry(2)] Cons.prems(3) show ?thesis by auto
  next
    case deleted
    have step: "fs1 = fs \<or> fs1 = fs_del ?p fs \<and> store_plain E r fs1"
      using delete_object_effect [OF Cons.prems(1,2) _ deleted(2)] Cons.prems(3) by simp
    then have plain: "store_plain E r fs1" using Cons.prems(2) by auto
    have one: "fs_get fs1 q \<noteq> fs_get fs q \<Longrightarrow> q = ?p" for q
      using step by (auto simp: fs_get_del [OF ne] split: if_splits)
    have rest: "fs_get fs' q \<noteq> fs_get fs1 q \<Longrightarrow> \<exists>c \<in> set cs. q = loose_object_path E r c" for q
      using deleted(3) Cons.IH [OF Cons.prems(1) plain] Cons.prems(3) by auto
    show ?thesis using one rest deleted(1) by (metis list.set_intros(1,2))
  qed
qed

text \<open>A sweep that succeeds without \<^verbatim>\<open>--dry-run\<close> has removed every object selected.\<close>

lemma delete_object_removes:
  assumes "hex_ok (e_hex E)" "store_plain E r fs" "length c = 20"
    and "delete_object E r c fs = (Inr y, r', fs')"
  shows "fs' = fs_del (loose_object_path E r c) fs"
proof -
  have run: "remove_file (loose_object_path E r c) fs = (Inr (), fs')"
    using assms(4) by (auto simp: delete_object_def with_lock_def fail_io_def lift_err_def
        split: prod.splits sum.splits)
  then obtain q where q: "resolve_entry fs (loose_object_path E r c) = Inr q" "fs' = fs_del q fs"
    by (auto simp: remove_file_def split: sum.splits option.splits if_splits)
  have "q = [] @ loose_object_path E r c"
    using q(1) assms(2,3) loose_object_no_parent [OF assms(1,3), of r]
    by (intro walk_no_links [of "loose_object_path E r c" fs "[]" max_links])
      (auto simp: resolve_entry_def no_parent_refs_def store_plain_def)
  with q(2) show ?thesis by simp
qed

lemma gc_objects_removes:
  "hex_ok (e_hex E) \<Longrightarrow> store_plain E r fs \<Longrightarrow> \<forall>c \<in> set cs. length c = 20 \<Longrightarrow>
     gc_objects E r False cs freed fs = (Inr n, fs') \<Longrightarrow>
     c \<in> set cs \<or> fs_get fs (loose_object_path E r c) = None \<and> length c = 20 \<Longrightarrow>
     fs_get fs' (loose_object_path E r c) = None"
proof (induction cs arbitrary: fs freed)
  case Nil
  then show ?case by (simp add: ret_def)
next
  case (Cons d cs)
  from Cons.prems(4) obtain y r' fs1 m where del: "delete_object E r d fs = (Inr y, r', fs1)"
      and rest: "gc_objects E r False cs (freed + m) fs1 = (Inr n, fs')"
    by (auto simp: andThen_def query_def io_def lift_err_def split: prod.splits sum.splits)
  have d: "length d = 20" using Cons.prems(3) by simp
  have ne: "loose_object_path E r d \<noteq> []"
    using loose_object_no_parent(2) [OF Cons.prems(1) d, of r] Cons.prems(2) by (simp add: store_plain_def)
  have fs1: "fs1 = fs_del (loose_object_path E r d) fs"
    by (rule delete_object_removes [OF Cons.prems(1,2) d del])
  have plain: "store_plain E r fs1"
    using delete_object_effect [OF Cons.prems(1,2) d del] Cons.prems(2) by auto
  have gone: "c \<in> set cs \<or> fs_get fs1 (loose_object_path E r c) = None \<and> length c = 20"
    using Cons.prems(3,5) by (auto simp: fs1 fs_get_del [OF ne])
  show ?case by (rule Cons.IH [OF Cons.prems(1) plain _ rest gone]) (use Cons.prems(3) in simp)
qed

text \<open>The sweep is exact: what is referenced stays, and what is not is gone after a success.\<close>

lemma sweep_exact:
  assumes "hex_ok (e_hex E)" "store_plain E r fs"
    and "find_unreferenced_objects E r fs roots = Inr cs" "gc_objects E r dry cs freed fs = (x, fs')"
  shows "(\<forall>q. fs_get fs' q \<noteq> fs_get fs q \<longrightarrow> \<not> dry \<and> (\<exists>c \<in> set cs. q = loose_object_path E r c)) \<and>
    (\<forall>c. length c = 20 \<and> referenced E r fs roots c \<longrightarrow>
      fs_get fs' (loose_object_path E r c) = fs_get fs (loose_object_path E r c)) \<and>
    (\<forall>n found c. x = Inr n \<and> \<not> dry \<and> objects_on_disk E r fs = Inr found \<and> c \<in> set found \<and>
      \<not> referenced E r fs roots c \<longrightarrow> fs_get fs' (loose_object_path E r c) = None)"
proof -
  note un = unreferenced_ok [OF assms(3)]
  have changed: "\<forall>q. fs_get fs' q \<noteq> fs_get fs q \<longrightarrow> \<not> dry \<and> (\<exists>c \<in> set cs. q = loose_object_path E r c)"
    using gc_objects_effect [OF assms(1,2) _ assms(4)] un by blast
  have "fs_get fs' (loose_object_path E r c) = fs_get fs (loose_object_path E r c)"
    if c: "length c = 20" "referenced E r fs roots c" for c
  proof (rule ccontr)
    assume "fs_get fs' (loose_object_path E r c) \<noteq> fs_get fs (loose_object_path E r c)"
    with changed obtain c' where c': "c' \<in> set cs" "loose_object_path E r c = loose_object_path E r c'" by blast
    then have "c = c'" using loose_object_path_inj [OF assms(1) c(1)] un by blast
    with c'(1) un c(2) show False by auto
  qed
  moreover have "fs_get fs' (loose_object_path E r c) = None"
    if "x = Inr n" "\<not> dry" "objects_on_disk E r fs = Inr found" "c \<in> set found" "\<not> referenced E r fs roots c"
    for n found c
    using gc_objects_removes [OF assms(1,2), of cs freed n fs' c] assms(4) un that by auto
  ultimately show ?thesis using changed by blast
qed

subsection \<open>Redundant loose packs\<close>

definition holds_snapshot :: "env \<Rightarrow> repository \<Rightarrow> fs \<Rightarrow> pack_id \<Rightarrow> bytes \<Rightarrow> checksum \<Rightarrow> bool" where
  "holds_snapshot E r fs p tag c \<longleftrightarrow>
     (\<exists>idx. load_index E r fs p = Inr idx \<and> tag \<in> set (snapshot_tags idx) \<and>
        compute_snapshot_checksum (e_sha1 E) idx tag = (Inr (Some c) :: error failure + checksum option))"

lemma collect_member: "collect f xs = Inr ys \<Longrightarrow> y \<in> set ys \<Longrightarrow> \<exists>x \<in> set xs. f x = Inr y"
  by (induction xs arbitrary: ys) (auto split: sum.splits)

lemma pack_checksums_ok:
  assumes "pack_checksums E r fs p = Inr cs" "(c, s) \<in> set cs"
  shows "sid_pack s = p \<and> holds_snapshot E r fs p (sid_tag s) c"
proof -
  obtain idx where idx: "load_index E r fs p = Inr idx"
      "collect (tag_checksum E idx p) (remdups (snapshot_tags idx)) = Inr cs"
    using assms(1) by (auto simp: pack_checksums_def result_simps)
  obtain tag where "tag \<in> set (remdups (snapshot_tags idx))" "tag_checksum E idx p tag = Inr (c, s)"
    using collect_member [OF idx(2) assms(2)] by blast
  with idx(1) show ?thesis
    by (auto simp: tag_checksum_def result_simps snapshot_id_new_def holds_snapshot_def split: if_splits)
qed

lemma duplicate_groups_ok:
  assumes "find_duplicate_snapshots E r fs ids = Inr groups" "(c, sids) \<in> set groups" "s \<in> set sids"
  shows "sid_pack s \<in> set ids \<and> holds_snapshot E r fs (sid_pack s) (sid_tag s) c"
proof -
  obtain css where css: "collect (pack_checksums E r fs) ids = Inr css" "groups = group_by_checksum (concat css)"
    using assms(1) by (auto simp: find_duplicate_snapshots_def result_simps)
  from assms(2,3) css(2) have "(c, s) \<in> set (concat css)"
    by (force simp: group_by_checksum_def)
  then obtain cs where cs: "cs \<in> set css" "(c, s) \<in> set cs" by auto
  then obtain p where "p \<in> set ids" "pack_checksums E r fs p = Inr cs"
    using collect_member [OF css(1)] by blast
  with pack_checksums_ok [OF this(2) cs(2)] show ?thesis by auto
qed

lemma redundant_ok:
  assumes "find_redundant_loose_packs E r fs = (Inr ps, fs')"
  shows "\<exists>ids. packs E r fs = (Inr ids, fs') \<and>
    (\<forall>p \<in> set ps. p \<in> set ids \<and> is_pack_loose E r fs' p \<and>
      (\<exists>tag c q qtag. p = Pack (loose_name @ CHR ''/'' # tag) \<and> holds_snapshot E r fs' p tag c \<and>
        q \<in> set ids \<and> \<not> is_pack_loose E r fs' q \<and> holds_snapshot E r fs' q qtag c))"
proof -
  obtain ids groups where ids: "packs E r fs = (Inr ids, fs')" "find_duplicate_snapshots E r fs' ids = Inr groups"
      "collect redundant_pack (concat (map (\<lambda>(_, sids). loose_of E r fs' sids)
           (filter (\<lambda>(_, sids). redundant_group E r fs' sids) groups))) = Inr ps"
    using assms by (auto simp: find_redundant_loose_packs_def andThen_def query_def result_simps
        split: prod.splits sum.splits)
  have "p \<in> set ids \<and> is_pack_loose E r fs' p \<and>
      (\<exists>tag c q qtag. p = Pack (loose_name @ CHR ''/'' # tag) \<and> holds_snapshot E r fs' p tag c \<and>
        q \<in> set ids \<and> \<not> is_pack_loose E r fs' q \<and> holds_snapshot E r fs' q qtag c)" if mem: "p \<in> set ps" for p
  proof -
    obtain s where "s \<in> set (concat (map (\<lambda>(_, sids). loose_of E r fs' sids)
           (filter (\<lambda>(_, sids). redundant_group E r fs' sids) groups)))" and p: "redundant_pack s = Inr p"
      using collect_member [OF ids(3) mem] by blast
    then obtain c sids where g: "(c, sids) \<in> set groups" "redundant_group E r fs' sids" "s \<in> set (loose_of E r fs' sids)"
      by auto
    then have s: "s \<in> set sids" "is_pack_loose E r fs' (sid_pack s)" by (auto simp: loose_of_def)
    obtain s' where s': "s' \<in> set sids" "\<not> is_pack_loose E r fs' (sid_pack s')"
      using g(2) by (auto simp: redundant_group_def list_ex_iff)
    have "p = sid_pack s" "p = Pack (loose_name @ CHR ''/'' # sid_tag s)"
      using p by (cases "sid_pack s"; auto simp: redundant_pack_def split: if_splits)+
    with s(2) s'(2) duplicate_groups_ok [OF ids(2) g(1) s(1)] duplicate_groups_ok [OF ids(2) g(1) s'(1)]
    show ?thesis by metis
  qed
  with ids(1) show ?thesis by blast
qed

end
