(* ===== verification/RepoSample.thy ===== *)
theory RepoSample
  imports GcFacts
begin

text \<open>
  A small repository for the instances of theorems: a pack with the tag \<^verbatim>\<open>t\<close> and a loose pack with
  the tag \<^verbatim>\<open>s\<close>, both of the same (empty) set of files, and one loose object.
\<close>

definition tag_index :: "bytes \<Rightarrow> pack_index" where
  "tag_index tag = index_new\<lparr>snapshot_tags := [tag], snapshot_deltas := [\<lparr>cs_added = [], cs_removed = []\<rparr>]\<rparr>"

definition tag_bytes :: "bytes \<Rightarrow> bytes" where
  "tag_bytes tag = write_index unary_sample (tag_index tag)"

definition sample_object :: checksum where
  "sample_object = replicate 20 (CHR 0x00)"

definition sample_repo :: repository where
  "sample_repo = \<lparr>rp_path = [''w''], rp_data_dir = [''d''], rp_lock = Some ExclusiveLock, rp_exclusive = True\<rparr>"

definition sample_fs :: "bytes \<Rightarrow> bytes \<Rightarrow> fs" where
  "sample_fs t s = [
     ([''w''], DirNode), ([''d''], DirNode), ([''d'', ''packs''], DirNode), ([''d'', ''packs'', ''loose''], DirNode),
     ([''d'', ''packs'', ''p.pack.idx''], FileNode (tag_bytes t) 420),
     ([''d'', ''packs'', ''p.pack''], FileNode ''x'' 420),
     ([''d'', ''packs'', ''loose'', ''s.pack.idx''], FileNode (tag_bytes s) 420),
     ([''d'', ''loose''], DirNode), ([''d'', ''loose'', ''00''], DirNode), ([''d'', ''loose'', ''00'', ''00''], DirNode),
     ([''d'', ''loose'', ''00'', ''00'', replicate 36 (CHR ''0'')], FileNode ''o'' 420)]"

lemma sample_fs_wf: "fs_wf (sample_fs t s)"
  by (simp add: fs_wf_def sample_fs_def fs_get_def)

lemma tag_index_parsed:
  "parse unary_sample (tag_bytes tag) = Inr (tag_index tag)"
  "load_only_snapshots unary_sample (tag_bytes tag) = Inr [tag]"
proof -
  have "index_tables_wf (tag_index tag)" "current (tag_index tag) = []"
    by (simp_all add: index_tables_wf_def tag_index_def index_new_def pool_new_def pool_wf_def)
  then show "parse unary_sample (tag_bytes tag) = Inr (tag_index tag)"
    unfolding tag_bytes_def
    by (subst parse_write_index [OF unary_sample_ok]) (simp_all add: tag_index_def index_new_def pool_new_def)
  show "load_only_snapshots unary_sample (tag_bytes tag) = Inr [tag]"
    using load_only_snapshots_prefix [OF unary_sample_ok, of 7]
    by (simp add: tag_bytes_def write_index_def v3_serialize_def tag_index_def)
qed

lemma sample_reads:
  "fs_read (sample_fs t s) [''d'', ''packs'', ''p.pack.idx''] = Inr (tag_bytes t)"
  "fs_read (sample_fs t s) [''d'', ''packs'', ''loose'', ''s.pack.idx''] = Inr (tag_bytes s)"
  "path_exists (sample_fs t s) [''d'', ''packs'', ''loose'', ''s.pack.idx'']"
  by (simp_all add: fs_read_def metadata_def resolve_target_def max_links_def sample_fs_def fs_get_def
      owner_read_def path_exists_def)

lemma sample_create_packs: "create_dir_all [''d'', ''packs''] (sample_fs t s) = (Inr (), sample_fs t s)"
proof (rule create_dir_all_exists)
  show "dirs_to (sample_fs t s) [''d'', ''packs'']"
    using dirs_to_get [OF sample_fs_wf] by (simp add: sample_fs_def fs_get_def)
qed (simp add: no_parent_refs_def)

lemma sample_utf8 [simp]:
  "is_utf8 ''p.pack.idx''" "is_utf8 ''p.pack''" "is_utf8 ''loose''" "is_utf8 ''s.pack.idx''" "is_utf8 ''s''"
  "is_utf8 ''p''" "is_utf8 ''loose/s''" "is_utf8 ''t''"
  by (rule ascii_string(1); simp add: byte_val_def)+

lemma sample_ids [simp]:
  "for_loose_snapshot plain_cat ''s'' = Inr (Pack ''loose/s'')"
  "validate_pack_id plain_cat (Pack ''loose/s'') = Inr ()" "validate_pack_id plain_cat (Pack ''p'') = Inr ()"
  "snapshot_tag_valid plain_cat ''s''" "snapshot_tag_valid plain_cat ''t''"
  by code_simp+

lemma sample_discover:
  "discover_packs plain_env (sample_fs t ''s'') [''d'', ''packs'']
     (plain_walk (sample_fs t ''s'') [''d'', ''packs'']) = Inr [Pack ''p'', Pack ''loose/s'']"
proof -
  have walk: "plain_walk (sample_fs t ''s'') [''d'', ''packs''] =
      [Inr ([''d'', ''packs''], False), Inr ([''d'', ''packs'', ''loose''], False),
       Inr ([''d'', ''packs'', ''p.pack.idx''], True), Inr ([''d'', ''packs'', ''p.pack''], True),
       Inr ([''d'', ''packs'', ''loose'', ''s.pack.idx''], True)]"
    by (simp add: plain_walk_def sample_fs_def fs_get_def)
  have names: "strip_suffix dot_pack_index_extension ''p.pack.idx'' = Some ''p''"
    "strip_suffix dot_pack_index_extension ''p.pack'' = None"
    "strip_suffix dot_pack_index_extension ''loose/s.pack.idx'' = Some ''loose/s''"
    by (simp_all add: strip_suffix_def dot_pack_index_extension_def)
  have loose: "strip_prefix loose_prefix ''p'' = None" "strip_prefix loose_prefix ''loose/s'' = Some ''s''"
    by (simp_all add: loose_prefix_def)
  have tags: "load_tags_file plain_env (sample_fs t ''s'') [''d'', ''packs'', ''loose'', ''s.pack.idx''] = Inr [''s'']"
    by (simp add: load_tags_file_def sample_reads tag_index_parsed)
  show ?thesis
    by (simp add: walk discover_pack_def logical_pack_id_path_def from_index_path_def names loose tags)
qed

lemma sample_packs:
  "packs plain_env sample_repo (sample_fs t ''s'') = (Inr [Pack ''loose/s'', Pack ''p''], sample_fs t ''s'')"
proof -
  have "''loose/s'' \<le> ''p''" by (simp add: List_Lexorder.list_le_def less_char_def)
  then show ?thesis
    by (simp add: packs_def io_def lift_err_def packs_root_def sample_repo_def packs_name_def andThen_def
        sample_create_packs query_def sample_discover ret_def)
qed

lemma sample_paths [simp]:
  "get_pack_index_path sample_repo (Pack ''p'') = [''d'', ''packs'', ''p.pack.idx'']"
  "get_pack_index_path sample_repo (Pack ''loose/s'') = [''d'', ''packs'', ''loose'', ''s.pack.idx'']"
  by (simp_all add: get_pack_index_path_def append_path_suffix_def path_push_def link_start_def
      target_components_def packs_root_def sample_repo_def packs_name_def dot_pack_index_extension_def)

lemma sample_loads [simp]:
  "load_index plain_env sample_repo (sample_fs t s) (Pack ''p'') = Inr (tag_index t)"
  "load_index plain_env sample_repo (sample_fs t s) (Pack ''loose/s'') = Inr (tag_index s)"
  "load_index_snapshots plain_env sample_repo (sample_fs t s) (Pack ''p'') = Inr [t]"
  "load_index_snapshots plain_env sample_repo (sample_fs t s) (Pack ''loose/s'') = Inr [s]"
  by (simp_all add: load_index_def load_index_file_def load_index_snapshots_def load_tags_file_def
      sample_reads tag_index_parsed del: validate_pack_id.simps)

lemma sample_loose [simp]:
  "\<not> is_pack_loose plain_env sample_repo (sample_fs t s) (Pack ''p'')"
  "is_pack_loose plain_env sample_repo (sample_fs t s) (Pack ''loose/s'')"
  by (simp_all add: is_pack_loose_def loose_prefix_def sample_reads del: validate_pack_id.simps)

lemma tag_index_checksum [simp]:
  "compute_snapshot_checksum sha1 (tag_index tag) tag = Inr (Some (sha1 (identity_stream [])))"
  "snapshot_tags (tag_index tag) = [tag]" "object_checksums (tag_index tag) = []"
  by (simp_all add: compute_snapshot_checksum_def resolve_snapshot_def tag_index_def index_new_def
      apply_changes_def entry_refs_from_handles_def object_checksums_def pool_new_def)

lemma sample_find:
  "find_pack_with_snapshot plain_env sample_repo ''s'' (sample_fs ''s'' ''s'') =
     (Inr (Pack ''loose/s''), sample_fs ''s'' ''s'')"
  by (simp add: find_pack_with_snapshot_def andThen_def query_def sample_packs disambiguate_snapshot_def
      snapshot_checksum_in_def)

lemma sample_redundant:
  "find_redundant_loose_packs plain_env sample_repo (sample_fs ''t'' ''s'') =
     (Inr [Pack ''loose/s''], sample_fs ''t'' ''s'')"
  by (simp add: find_redundant_loose_packs_def andThen_def query_def sample_packs find_duplicate_snapshots_def
      pack_checksums_def tag_checksum_def snapshot_id_new_def group_by_checksum_def redundant_group_def
      loose_of_def redundant_pack_def loose_name_def)

lemma sample_object_path:
  "loose_object_path plain_env sample_repo sample_object =
     [''d'', ''loose'', ''00'', ''00'', replicate 36 (CHR ''0'')]"
proof -
  have two: "replicate 2 (CHR ''0'') = ''00''" by (simp add: numeral_2_eq_2)
  have zero: "hex_char 0 = CHR ''0''"
    using byte_of_val [of "CHR ''0''"] by (simp add: hex_char_def byte_val_def del: byte_of_val)
  have "plain_encode (replicate n (CHR 0x00)) = replicate (2 * n) (CHR ''0'')" for n
    by (induction n) (simp_all add: plain_encode_def zero byte_val_def)
  from this [of 20] have h: "plain_encode sample_object = replicate 40 (CHR ''0'')"
    by (simp add: sample_object_def)
  have enc: "hex_encode (e_hex plain_env) sample_object = replicate 40 (CHR ''0'')"
    by (simp only: plain_env_fields plain_hex_def hex_crate.simps h)
  have parts: "take 2 (replicate 40 (CHR ''0'')) = ''00''" "take 2 (drop 2 (replicate 40 (CHR ''0''))) = ''00''"
    "drop 4 (replicate 40 (CHR ''0'')) = replicate 36 (CHR ''0'')"
    by (simp_all only: take_replicate drop_replicate min_def two [symmetric]) simp_all
  have "loose_root sample_repo = [''d'', ''loose'']"
    by (simp add: loose_root_def sample_repo_def loose_name_def)
  then show ?thesis
    by (simp only: loose_object_path_def enc Let_def parts append_Cons append_Nil)
qed

lemma sample_store_plain: "store_plain plain_env sample_repo (sample_fs t s)"
  using sample_fs_wf [of t s]
  by (auto simp: store_plain_def no_parent_refs_def sample_repo_def sample_fs_def fs_get_def split: if_splits)

lemma sample_on_disk: "objects_on_disk plain_env sample_repo (sample_fs t s) = Inr [sample_object]"
proof -
  have walk: "walked_files (plain_walk (sample_fs t s) [''d'', ''loose'']) =
      [[''d'', ''loose'', ''00'', ''00'', replicate 36 (CHR ''0'')]]"
  proof -
    have "plain_walk (sample_fs t s) [''d'', ''loose''] =
        [Inr ([''d'', ''loose''], False), Inr ([''d'', ''loose'', ''00''], False),
         Inr ([''d'', ''loose'', ''00'', ''00''], False),
         Inr ([''d'', ''loose'', ''00'', ''00'', replicate 36 (CHR ''0'')], True)]"
      by (simp add: plain_walk_def sample_fs_def fs_get_def)
    then show ?thesis by (simp only: walked_files_def List.map_filter_simps sum.case option.case filter.simps snd_conv if_True if_False list.map fst_conv)
  qed
  have "loose_root sample_repo = [''d'', ''loose'']" by (simp add: loose_root_def sample_repo_def loose_name_def)
  moreover have "loose_object_checksum plain_env [''d'', ''loose'', ''00'', ''00'', replicate 36 (CHR ''0'')] =
      Inr sample_object"
    using loose_object_round_trip [of plain_env sample_object sample_repo] plain_hex_ok sample_object_path
    by (simp add: sample_object_def)
  ultimately show ?thesis
    by (simp add: objects_on_disk_def walk)
qed

lemma sample_unreferenced:
  "find_unreferenced_objects plain_env sample_repo (sample_fs t s) [Pack ''loose/s''] = Inr [sample_object]"
  by (simp add: find_unreferenced_objects_def sample_on_disk root_checksums_def)

lemma sample_unreferenced_root:
  "\<not> referenced plain_env sample_repo (sample_fs t s) [Pack ''loose/s''] sample_object"
  by (simp add: referenced_def)

lemma sample_gc_run:
  "\<exists>fs'. gc_objects plain_env sample_repo False [sample_object] 0 (sample_fs t s) = (Inr 1, fs')"
proof -
  let ?fs = "sample_fs t s" and ?p = "[''d'', ''loose'', ''00'', ''00'', replicate 36 (CHR ''0'')]"
  have "replicate 36 (CHR ''0'') \<noteq> ''..''" by (simp add: eval_nat_numeral)
  then have "fs_get ?fs ?p = Some (FileNode ''o'' 420)" "resolve_entry ?fs ?p = Inr ?p" "metadata ?fs ?p = Inr (FileNode ''o'' 420)"
    by (simp_all add: metadata_def resolve_target_def resolve_entry_def max_links_def sample_fs_def fs_get_def)
  then have "get_object_disk_stats plain_env sample_repo ?fs sample_object = Inr 1"
    "remove_file ?p ?fs = (Inr (), fs_del ?p ?fs)"
    by (simp_all add: get_object_disk_stats_def disk_len_def node_len_def sample_object_path remove_file_def)
  moreover have "lock_exclusive plain_env sample_repo = (Inr (), sample_repo)"
    by (simp add: lock_exclusive_def sample_repo_def)
  ultimately show ?thesis
    by (simp add: andThen_def query_def io_def lift_err_def ret_def delete_object_def with_lock_def fail_io_def
        sample_object_path)
qed

end
