(* ===== verification/RepoProps.thy ===== *)
theory RepoProps
  imports RepoSample
begin

text \<open>
  Properties of the repository operations on HEAD, loose objects, the search for a snapshot and
  garbage collection, with their instances on the sample repository.
\<close>

text \<open>HEAD reads back as the snapshot it was set to, and setting it changes nothing but HEAD and the
  temporary directory.\<close>

theorem head_reads_back:
  assumes "data_dir_ok E r fs" "tmp_ok E r fs (head_path r)" "fs_get fs (head_path r) \<noteq> Some DirNode"
    and "rp_lock r \<noteq> None" "cat_ok E" "sid_ok E s"
  shows "\<exists>fs' t. update_head E r s fs = (Inr (), fs') \<and> read_head E r fs' = Inr (Some s, t) \<and>
    (\<forall>q. q \<noteq> head_path r \<and> q \<noteq> temp_dir r \<longrightarrow> fs_get fs' q = fs_get fs q)"
  using assms by (rule head_round_trip)

definition sample_sid :: snapshot_id where
  "sample_sid = \<lparr>sid_pack = Pack ''p'', sid_tag = ''t''\<rparr>"

lemma plain_cat_ok: "cat_ok plain_env"
  by (simp add: cat_ok_def plain_cat_def)

lemma sample_dir_ok: "data_dir_ok plain_env sample_repo (sample_fs t s)"
proof -
  have "dirs_to (sample_fs t s) [''d'']"
    using dirs_to_get [OF sample_fs_wf] by (simp add: sample_fs_def fs_get_def)
  moreover have "fs_get (sample_fs t s) [''d'', ''trash''] = None" by (simp add: sample_fs_def fs_get_def)
  ultimately show ?thesis
    using sample_fs_wf by (simp add: data_dir_ok_def sample_repo_def temp_dir_def temp_name_def no_parent_refs_def)
qed

theorem head_reads_back_witness:
  "\<exists>fs' t. update_head plain_env sample_repo sample_sid (sample_fs ''t'' ''s'') = (Inr (), fs') \<and>
     read_head plain_env sample_repo fs' = Inr (Some sample_sid, t)"
proof -
  have "tmp_ok plain_env sample_repo (sample_fs ''t'' ''s'') (head_path sample_repo)"
    "fs_get (sample_fs ''t'' ''s'') (head_path sample_repo) \<noteq> Some DirNode" "rp_lock sample_repo \<noteq> None"
    by (simp_all add: tmp_ok_def temp_dir_def head_path_def sample_repo_def temp_name_def head_file_def
        sample_fs_def fs_get_def)
  moreover have "sid_ok plain_env sample_sid"
    by (simp add: sid_ok_def sample_sid_def del: validate_pack_id.simps)
  ultimately show ?thesis
    using head_reads_back [OF sample_dir_ok _ _ _ plain_cat_ok] by blast
qed

text \<open>The path of a loose object determines its checksum: it reads back from the path, so distinct
  objects have distinct paths, and every path that is accepted gives a checksum of 20 bytes.\<close>

theorem loose_object_names:
  assumes "hex_ok (e_hex E)" "length c = 20"
  shows "loose_object_checksum E (loose_object_path E r c) = Inr c \<and>
    (\<forall>c'. length c' = 20 \<and> loose_object_path E r c' = loose_object_path E r c \<longrightarrow> c' = c) \<and>
    (\<forall>p c'. loose_object_checksum E p = Inr c' \<longrightarrow> length c' = 20)"
  using loose_object_round_trip [OF assms] loose_object_path_inj [OF assms(1) _ assms(2)]
    loose_object_checksum_length by blast

theorem loose_object_names_witness:
  "loose_object_checksum plain_env [''d'', ''loose'', ''00'', ''00'', replicate 36 (CHR ''0'')] = Inr sample_object"
  using loose_object_names [of plain_env sample_object sample_repo] plain_hex_ok sample_object_path
  by (simp add: sample_object_def)



text \<open>C30: Sweeping the unreferenced objects is exact.  Only a run without \<^verbatim>\<open>--dry-run\<close> changes anything,
  and only objects that no root pack references: every object of a root, and every path that is not a
  loose object, is as before.  When such a run succeeds, no object on disk that is not referenced is left.\<close>

theorem gc_sweep_exact:
  assumes "hex_ok (e_hex E)" "store_plain E r fs"
    and "find_unreferenced_objects E r fs roots = Inr cs" "gc_objects E r dry cs freed fs = (x, fs')"
  shows "(\<forall>q. fs_get fs' q \<noteq> fs_get fs q \<longrightarrow> \<not> dry \<and> (\<exists>c \<in> set cs. q = loose_object_path E r c)) \<and>
    (\<forall>c. length c = 20 \<and> referenced E r fs roots c \<longrightarrow>
      fs_get fs' (loose_object_path E r c) = fs_get fs (loose_object_path E r c)) \<and>
    (\<forall>n found c. x = Inr n \<and> \<not> dry \<and> objects_on_disk E r fs = Inr found \<and> c \<in> set found \<and>
      \<not> referenced E r fs roots c \<longrightarrow> fs_get fs' (loose_object_path E r c) = None)"
  using assms by (rule sweep_exact)

text \<open>The one object of the sample is unreferenced: the run frees its byte and removes it.\<close>

theorem gc_sweep_exact_witness:
  "\<exists>fs'. gc_objects plain_env sample_repo False [sample_object] 0 (sample_fs ''t'' ''s'') = (Inr 1, fs') \<and>
     fs_get fs' [''d'', ''loose'', ''00'', ''00'', replicate 36 (CHR ''0'')] = None \<and>
     fs_get fs' [''d'', ''packs'', ''p.pack''] = Some (FileNode ''x'' 420)"
proof -
  let ?fs = "sample_fs ''t'' ''s''" and ?p = "[''d'', ''loose'', ''00'', ''00'', replicate 36 (CHR ''0'')]"
  obtain fs' where run: "gc_objects plain_env sample_repo False [sample_object] 0 ?fs = (Inr 1, fs')"
    using sample_gc_run by blast
  note exact = gc_sweep_exact [OF _ sample_store_plain sample_unreferenced run]
  have "fs_get fs' q = fs_get ?fs q" if "q \<noteq> ?p" for q
    using exact plain_hex_ok that by (auto simp: sample_object_path)
  then have kept: "fs_get fs' [''d'', ''packs'', ''p.pack''] = fs_get ?fs [''d'', ''packs'', ''p.pack'']" by simp
  have "fs_get fs' ?p = None"
    using exact plain_hex_ok sample_on_disk sample_unreferenced_root by (simp add: sample_object_path)
  with run kept show ?thesis by (simp add: sample_fs_def fs_get_def)
qed

text \<open>C31: A loose pack that is selected as redundant has its snapshot, by content checksum, also in a
  pack that is not loose (not necessarily under the same tag).\<close>

theorem redundant_packs_packed:
  assumes "find_redundant_loose_packs E r fs = (Inr ps, fs')"
  shows "\<exists>ids. packs E r fs = (Inr ids, fs') \<and>
    (\<forall>p \<in> set ps. p \<in> set ids \<and> is_pack_loose E r fs' p \<and>
      (\<exists>tag c q qtag. p = Pack (loose_name @ CHR ''/'' # tag) \<and> holds_snapshot E r fs' p tag c \<and>
        q \<in> set ids \<and> \<not> is_pack_loose E r fs' q \<and> holds_snapshot E r fs' q qtag c))"
  using assms by (rule redundant_ok)

text \<open>The tag \<^verbatim>\<open>s\<close> is in the loose pack only, and that pack is selected.\<close>

theorem redundant_packs_packed_witness:
  "(\<exists>tag c q qtag. Pack ''loose/s'' = Pack (loose_name @ CHR ''/'' # tag) \<and>
     \<not> is_pack_loose plain_env sample_repo (sample_fs ''t'' ''s'') q \<and>
     holds_snapshot plain_env sample_repo (sample_fs ''t'' ''s'') q qtag c) \<and>
   \<not> has_tag plain_env sample_repo (sample_fs ''t'' ''s'') ''s'' (Pack ''p'')"
  using redundant_packs_packed [OF sample_redundant] by (auto simp: has_tag_def)

end
