(* ===== verification/RepoExtract.thy ===== *)
theory RepoExtract
  imports RepoFind RepoFs
begin

text \<open>
  Extraction (\<^verbatim>\<open>src/repo/repository.rs\<close>): the difference of two snapshots, the checks of the
  working directory, copying loose objects, fetching a pack that is only remote, and
  \<^verbatim>\<open>extract_snapshot\<close>.  The tasks of \<^verbatim>\<open>run_in_parallel\<close> run one after the other, all of them even
  when one fails.
\<close>

definition pack_io :: "(pack_error, 'a) fs_op \<Rightarrow> 'a op" where
  "pack_io m = lift_err (\<lambda>e. Fail (PackErr e)) m"

definition plain_fail :: "(error, 'a) fs_op \<Rightarrow> 'a op" where
  "plain_fail m = lift_err Fail m"

fun io_failure :: "io_error failure \<Rightarrow> error failure" where
  "io_failure (Fail e) = Fail (IOError e)"
| "io_failure Panicked = Panicked"

fun run_all :: "('a \<Rightarrow> ('e, 'b) fs_op) \<Rightarrow> 'a list \<Rightarrow> ('e, 'b list) fs_op" where
  "run_all f [] fs = (Inr [], fs)"
| "run_all f (t # ts) fs =
     (case f t fs of (r, fs) \<Rightarrow>
        (case run_all f ts fs of (rs, fs) \<Rightarrow> (rbind r (\<lambda>x. rbind rs (\<lambda>xs. Inr (x # xs))), fs)))"

subsection \<open>The difference of two snapshots\<close>

text \<open>A hash map built from a list keeps the last entry of each key.\<close>

fun entry_lookup :: "file_entry list \<Rightarrow> file_entry list" where
  "entry_lookup [] = []"
| "entry_lookup (e # es) =
     (if entry_content e \<in> entry_content ` set es then entry_lookup es else e # entry_lookup es)"

definition missing_from :: "env \<Rightarrow> file_entry list \<Rightarrow> file_entry list \<Rightarrow> file_entry list" where
  "missing_from E others es =
     filter (\<lambda>e. entry_content e \<notin> set (map entry_content others)) (e_order E (entry_lookup es))"

definition compute_entry_diff ::
    "env \<Rightarrow> file_entry list \<Rightarrow> file_entry list \<Rightarrow> file_entry list \<times> file_entry list" where
  "compute_entry_diff E from_entries to_entries =
     (missing_from E from_entries to_entries, missing_from E to_entries from_entries)"

definition kind_matches :: "env \<Rightarrow> fs \<Rightarrow> file_entry \<Rightarrow> path \<Rightarrow> node \<Rightarrow> bool" where
  "kind_matches E fs e p n =
     (case fe_metadata e of
        Regular mode \<Rightarrow> is_file_node n
      | Symlink enc kind \<Rightarrow>
          is_link_node n \<and> is_ok (verify_materialized (e_sha1 E) (fe_path e) p enc kind (fe_checksum e) fs))"

definition check_entry_unchanged_since :: "env \<Rightarrow> fs \<Rightarrow> file_entry \<Rightarrow> nat \<Rightarrow> path \<Rightarrow> error + unit" where
  "check_entry_unchanged_since E fs e head_time p =
     rbind (map_err (\<lambda>_. DirtyWorkDir) (rbind (resolve_entry fs p) (\<lambda>q.
       rbind (ok_or NotFound (fs_get fs q)) (\<lambda>n. Inr (q, n))))) (\<lambda>(q, n).
     if \<not> kind_matches E fs e p n then Inl DirtyWorkDir
     else rbind (ok_or DirtyWorkDir (last_modified_at E fs q)) (\<lambda>last_modified.
       if head_time < last_modified then Inl DirtyWorkDir else Inr ()))"

fun check_all_unchanged ::
    "env \<Rightarrow> fs \<Rightarrow> path \<Rightarrow> nat option \<Rightarrow> file_entry list \<Rightarrow> error failure + unit" where
  "check_all_unchanged E fs root head_time [] = Inr ()"
| "check_all_unchanged E fs root head_time (e # es) =
     rbind (packerr (native_path (fe_path e))) (\<lambda>native.
     rbind (unwrap head_time) (\<lambda>t.
     rbind (map_err Fail (check_entry_unchanged_since E fs e t (root @ native))) (\<lambda>_.
     check_all_unchanged E fs root head_time es)))"

subsection \<open>Packs and loose objects\<close>

definition open_reader :: "env \<Rightarrow> repository \<Rightarrow> fs \<Rightarrow> pack_id \<Rightarrow> error + pack" where
  "open_reader E r fs pack = pack_open (e_unzstd E) (e_dec_header E) fs (rp_data_dir r) pack"

text \<open>The name of a temporary file next to an output.\<close>

definition output_tmp :: "env \<Rightarrow> path \<Rightarrow> file_entry \<Rightarrow> bytes" where
  "output_tmp E out e = e_tmp E (out @ components (fe_path e))"

definition copy_loose_link ::
    "env \<Rightarrow> path \<Rightarrow> bool \<Rightarrow> bytes \<Rightarrow> path \<Rightarrow> file_entry \<Rightarrow> symlink_target_encoding \<Rightarrow>
     symlink_target_kind \<Rightarrow> (error, (path \<times> checksum) option) fs_op" where
  "copy_loose_link E object_path verify tmp dest e enc kind =
     andThen (lift_err IOError (query (\<lambda>fs. fs_read fs object_path))) (\<lambda>target.
     andThen (liftr (if verify then verify_object (e_sha1 E) target (fe_checksum e) else Inr ())) (\<lambda>_.
     andThen (lift_err PackErr (materialize (fe_path e) target enc kind tmp dest)) (\<lambda>_.
     andThen (if verify
       then query (\<lambda>fs. map_err PackErr (verify_materialized (e_sha1 E) (fe_path e) dest enc kind (fe_checksum e) fs))
       else ret ()) (\<lambda>_. ret None))))"

definition copy_loose_entry ::
    "env \<Rightarrow> repository \<Rightarrow> path \<Rightarrow> bool \<Rightarrow> file_entry \<Rightarrow> (error, (path \<times> checksum) option) fs_op" where
  "copy_loose_entry E r out verify e =
     andThen (lift_err PackErr (liftr (native_path (fe_path e)))) (\<lambda>native.
     let dest = out @ native; object_path = loose_object_path E r (fe_checksum e); tmp = output_tmp E out e in
     andThen (lift_err IOError (create_dir_all (butlast dest))) (\<lambda>_.
     case fe_metadata e of
       Symlink enc kind \<Rightarrow> copy_loose_link E object_path verify tmp dest e enc kind
     | Regular mode \<Rightarrow>
         andThen (if entry_size e = 0 then ret []
           else lift_err IOError (query (\<lambda>fs. fs_read fs object_path))) (\<lambda>data.
         andThen (lift_err IOError (materialize_regular (data, None) tmp dest mode)) (\<lambda>_.
         ret (Some (dest, fe_checksum e))))))"

text \<open>\<^verbatim>\<open>batch::compute_checksums\<close>\<close>

definition compute_checksums :: "env \<Rightarrow> fs \<Rightarrow> path list \<Rightarrow> io_error + checksum list" where
  "compute_checksums E fs paths = collect (\<lambda>p. rbind (fs_read fs p) (\<lambda>buf. Inr (e_sha1 E buf))) paths"

fun match_checksums :: "checksum list \<Rightarrow> checksum list \<Rightarrow> error + unit" where
  "match_checksums (expected # es) (actual # as) =
     (if expected \<noteq> actual then Inl (PackErr (ChecksumMismatch expected actual)) else match_checksums es as)"
| "match_checksums _ _ = Inr ()"

definition verify_copied :: "env \<Rightarrow> (path \<times> checksum) list \<Rightarrow> (error, unit) fs_op" where
  "verify_copied E regular =
     query (\<lambda>fs. rbind (map_err IOError (compute_checksums E fs (map fst regular))) (\<lambda>actual.
       match_checksums (map snd regular) actual))"

definition copy_loose_entries ::
    "env \<Rightarrow> repository \<Rightarrow> file_entry list \<Rightarrow> path \<Rightarrow> bool \<Rightarrow> u32 \<Rightarrow> unit op" where
  "copy_loose_entries E r entries out verify nthread =
     (if nthread = 0 then err Panicked
      else plain_fail (andThen (run_all (copy_loose_entry E r out verify) entries) (\<lambda>copied.
        if verify then verify_copied E (List.map_filter (\<lambda>x. x) copied) else ret ())))"

subsection \<open>Packs that are only remote\<close>

fun update_from_remotes ::
    "env \<Rightarrow> repository \<Rightarrow> bytes \<Rightarrow> remote_index list \<Rightarrow> unit op" where
  "update_from_remotes E r pack [] = err (Fail (PackNotFound pack))"
| "update_from_remotes E r pack (remote # remotes) =
     andThen (liftr (find_pack remote pack)) (\<lambda>found. case found of
       None \<Rightarrow> update_from_remotes E r pack remotes
     | Some rp \<Rightarrow>
         andThen (liftr (unwrap (remote_name remote))) (\<lambda>name.
         fetch_remote_pack E rp
           (path_push (path_push (packs_root r) name) (pack @ CHR ''.'' # pack_extension))))"

definition update_remote_pack :: "env \<Rightarrow> repository \<Rightarrow> pack_id \<Rightarrow> unit op" where
  "update_remote_pack E r pack =
     andThen (query (\<lambda>fs. map_err Fail (load_remotes E fs (rp_data_dir r @ [remotes_name])))) (\<lambda>remotes.
     update_from_remotes E r
       (case rsplit_once (CHR ''/'') (pack_name pack) of Some (_, name) \<Rightarrow> name | None \<Rightarrow> pack_name pack)
       remotes)"

text \<open>\<^verbatim>\<open>open_pack\<close>, after a download when that fails.\<close>

definition open_or_fetch :: "env \<Rightarrow> repository \<Rightarrow> pack_id \<Rightarrow> pack op" where
  "open_or_fetch E r pack fs =
     (case open_reader E r fs pack of
        Inr p \<Rightarrow> (Inr p, fs)
      | Inl _ \<Rightarrow>
          andThen (update_remote_pack E r pack) (\<lambda>_.
          query (\<lambda>fs. map_err Fail (open_reader E r fs pack))) fs)"

subsection \<open>Reading objects\<close>

definition read_loose_object :: "env \<Rightarrow> repository \<Rightarrow> fs \<Rightarrow> file_entry \<Rightarrow> io_error + file_entry \<times> bytes" where
  "read_loose_object E r fs e =
     (if entry_size e = 0 \<and> \<not> is_symlink (fe_metadata e) then Inr (e, [])
      else rbind (fs_read fs (loose_object_path E r (fe_checksum e))) (\<lambda>b. Inr (e, b)))"

definition check_object :: "env \<Rightarrow> file_entry \<times> bytes \<Rightarrow> pack_error + (content \<times> bytes)" where
  "check_object E = (\<lambda>(e, object).
     if (entry_size e \<noteq> 0 \<or> is_symlink (fe_metadata e)) \<and> e_sha1 E object \<noteq> fe_checksum e
     then Inl (ChecksumMismatch (fe_checksum e) (e_sha1 E object))
     else Inr (entry_content e, object))"

definition repo_read_entry_objects :: "env \<Rightarrow> repository \<Rightarrow> pack_id \<Rightarrow> file_entry list \<Rightarrow> bytes list op" where
  "repo_read_entry_objects E r pack entries fs =
     andThen (if is_pack_loose E r fs pack
       then io (query (\<lambda>fs. collect (read_loose_object E r fs) entries))
       else andThen (open_or_fetch E r pack) (\<lambda>p. liftr (map_err Fail (read_entry_objects p entries))))
     (\<lambda>objects. liftr (packerr
        (rbind (collect (check_object E) objects) (\<lambda>pairs.
         collect (\<lambda>e. ok_or ObjectNotFound (map_of (rev pairs) (entry_content e))) entries)))) fs"

definition decode_link :: "file_entry \<times> bytes \<Rightarrow> pack_error + unit" where
  "decode_link = (\<lambda>(e, target). case fe_metadata e of
     Regular mode \<Rightarrow> Inr ()
   | Symlink enc kind \<Rightarrow> rbind (decode_target Unix (fe_path e) target enc) (\<lambda>_. Inr ()))"

definition read_loose_target :: "env \<Rightarrow> repository \<Rightarrow> fs \<Rightarrow> file_entry \<Rightarrow> io_error + file_entry \<times> bytes" where
  "read_loose_target E r fs e =
     rbind (fs_read fs (loose_object_path E r (fe_checksum e))) (\<lambda>b. Inr (e, b))"

definition preflight_symlink_targets :: "env \<Rightarrow> repository \<Rightarrow> pack_id \<Rightarrow> file_entry list \<Rightarrow> unit op" where
  "preflight_symlink_targets E r pack entries fs =
     (let links = filter (\<lambda>e. is_symlink (fe_metadata e)) entries in
      if links = [] then (Inr (), fs)
      else andThen (if is_pack_loose E r fs pack
          then io (query (\<lambda>fs. collect (read_loose_target E r fs) links))
          else andThen (open_or_fetch E r pack) (\<lambda>p. liftr (map_err Fail (read_entry_objects p links))))
        (\<lambda>targets. andThen (liftr (packerr (collect decode_link targets))) (\<lambda>_. ret ())) fs)"

subsection \<open>Extracting entries\<close>

definition extract_entries_preflighted ::
    "env \<Rightarrow> repository \<Rightarrow> pack_id \<Rightarrow> file_entry list \<Rightarrow> path \<Rightarrow> extract_options \<Rightarrow> unit op" where
  "extract_entries_preflighted E r pack entries out opts fs =
     (if is_pack_loose E r fs pack
      then copy_loose_entries E r entries out (xo_verify opts) (xo_num_workers opts) fs
      else andThen (open_or_fetch E r pack) (\<lambda>p.
        PackFile.extract_entries (e_sha1 E) p entries out (xo_verify opts) (xo_num_workers opts)
          (output_tmp E out)) fs)"

definition link_kinds :: "file_entry list \<Rightarrow> symlink_target_kind list" where
  "link_kinds es =
     List.map_filter (\<lambda>e. case fe_metadata e of Symlink enc kind \<Rightarrow> Some kind | Regular mode \<Rightarrow> None) es"

definition repo_extract_entries ::
    "env \<Rightarrow> repository \<Rightarrow> pack_id \<Rightarrow> file_entry list \<Rightarrow> path \<Rightarrow> extract_options \<Rightarrow> unit op" where
  "repo_extract_entries E r pack entries out opts =
     andThen (liftr (packerr (preflight_path_policy (e_unicode E) (map fe_path entries) Unix))) (\<lambda>_.
     andThen (query (\<lambda>fs. packerr (preflight_destination_ancestors fs out (map fe_path entries) []))) (\<lambda>_.
     andThen (pack_io (probe out (link_kinds entries) (e_probes E))) (\<lambda>_.
     andThen (preflight_symlink_targets E r pack entries) (\<lambda>_.
     extract_entries_preflighted E r pack entries out opts))))"

subsection \<open>Extracting a snapshot\<close>

definition snapshot_entries :: "pack_index \<Rightarrow> file_handle list \<Rightarrow> error failure + file_entry list" where
  "snapshot_entries idx handles = map_err pack_failure (entries_from_handles idx handles)"

fun broken_head :: "error failure \<Rightarrow> error failure" where
  "broken_head (Fail e) = Fail (BrokenHeadRef e)"
| "broken_head Panicked = Panicked"

definition head_index ::
    "env \<Rightarrow> repository \<Rightarrow> fs \<Rightarrow> snapshot_id \<Rightarrow> pack_index \<Rightarrow> snapshot_id \<Rightarrow> error failure + pack_index" where
  "head_index E r fs sid source_index head =
     (if sid_pack sid = sid_pack head then Inr source_index
      else map_err broken_head (load_index E r fs (sid_pack head)))"

definition head_entries ::
    "env \<Rightarrow> repository \<Rightarrow> fs \<Rightarrow> extract_options \<Rightarrow> snapshot_id \<Rightarrow> pack_index \<Rightarrow> snapshot_id option \<Rightarrow>
     error failure + file_entry list" where
  "head_entries E r fs opts sid source_index head =
     (if xo_reset opts \<and> xo_force opts then Inr []
      else case head of
        None \<Rightarrow> Inr []
      | Some h \<Rightarrow>
          rbind (head_index E r fs sid source_index h) (\<lambda>idx.
          rbind (resolve_snapshot idx (sid_tag h)) (\<lambda>handles. case handles of
            None \<Rightarrow> Inl (Fail (BrokenHeadRef (PackErr (SnapshotNotFound (sid_tag h)))))
          | Some hs \<Rightarrow> snapshot_entries idx hs)))"

text \<open>Removing one output that the new snapshot does not have.\<close>

definition remove_output :: "path \<Rightarrow> (io_error, unit) fs_op" where
  "remove_output p fs =
     (let is_link = (case symlink_metadata fs p of Inr n \<Rightarrow> is_link_node n | Inl _ \<Rightarrow> False) in
      case (if is_link then remove_leaf p fs else remove_file p fs) of
        (Inr _, fs) \<Rightarrow> (Inr (), fs)
      | (Inl e, fs) \<Rightarrow>
          if e = NotFound then (Inr (), fs)
          else if e = IsADirectory then remove_dir_all p fs
          else (Inl e, fs))"

text \<open>Leaving the loop with an error drops the queue, which processes it and panics if that fails.\<close>

definition queue_drop :: "cleanup_queue \<Rightarrow> error failure \<Rightarrow> 'a op" where
  "queue_drop q e fs =
     (case queue_process q fs of (Inr _, fs) \<Rightarrow> (Inl e, fs) | (Inl _, fs) \<Rightarrow> (Inl Panicked, fs))"

fun remove_tracked :: "path \<Rightarrow> path list \<Rightarrow> cleanup_queue \<Rightarrow> cleanup_queue op" where
  "remove_tracked root [] q fs = (Inr q, fs)"
| "remove_tracked root (p # ps) q fs =
     (case io (remove_output (root @ p)) fs of
        (Inl e, fs) \<Rightarrow> queue_drop q e fs
      | (Inr _, fs) \<Rightarrow>
          (case queue_enqueue (butlast (root @ p)) root q fs of
             (Inl e, fs) \<Rightarrow> queue_drop q (io_failure e) fs
           | (Inr q, fs) \<Rightarrow> remove_tracked root ps q fs))"

definition remove_paths :: "path \<Rightarrow> path list \<Rightarrow> unit op" where
  "remove_paths root ps =
     andThen (remove_tracked root ps None) (\<lambda>q.
     andThen (lift_err io_failure (queue_process q)) (\<lambda>_. ret ()))"

text \<open>The entries to write and those to remove, and the paths only in the old snapshot.\<close>

definition checkout_diff ::
    "env \<Rightarrow> extract_options \<Rightarrow> snapshot_id option \<Rightarrow> file_entry list \<Rightarrow> file_entry list \<Rightarrow>
     file_entry list \<times> file_entry list" where
  "checkout_diff E opts head old entries =
     (if xo_reset opts \<or> head = None then (entries, []) else compute_entry_diff E old entries)"

definition updated_paths :: "file_entry list \<Rightarrow> file_entry list \<Rightarrow> pack_path list" where
  "updated_paths new old = remdups (filter (\<lambda>p. p \<in> fe_path ` set old) (map fe_path new))"

definition removed_paths :: "file_entry list \<Rightarrow> file_entry list \<Rightarrow> pack_path list" where
  "removed_paths new old = sort (remdups (filter (\<lambda>p. p \<notin> fe_path ` set new) (map fe_path old)))"

text \<open>Everything that is read and decided before the checks of the destination.\<close>

definition plan_checkout ::
    "env \<Rightarrow> repository \<Rightarrow> fs \<Rightarrow> snapshot_id \<Rightarrow> extract_options \<Rightarrow>
     error failure + (nat option \<times> file_entry list \<times> file_entry list \<times> file_entry list)" where
  "plan_checkout E r fs sid opts =
     rbind (map_err Fail (read_head E r fs)) (\<lambda>(head, head_time).
     if head \<noteq> None \<and> head_time = None \<and> \<not> xo_force opts then Inl (Fail DirtyWorkDir)
     else
       rbind (load_index E r fs (sid_pack sid)) (\<lambda>source_index.
       rbind (resolve_snapshot source_index (sid_tag sid)) (\<lambda>handles.
       rbind (unwrap handles) (\<lambda>hs.
       rbind (snapshot_entries source_index hs) (\<lambda>entries.
       rbind (packerr (preflight_path_policy (e_unicode E) (map fe_path entries) Unix)) (\<lambda>_.
       rbind (head_entries E r fs opts sid source_index head) (\<lambda>old.
       Inr (head_time, old, checkout_diff E opts head old entries))))))))"

text \<open>The checks of the destination; only the probe and a download write anything.\<close>

definition check_checkout ::
    "env \<Rightarrow> repository \<Rightarrow> snapshot_id \<Rightarrow> extract_options \<Rightarrow> nat option \<Rightarrow> file_entry list \<Rightarrow>
     file_entry list \<Rightarrow> file_entry list \<Rightarrow> path list op" where
  "check_checkout E r sid opts head_time old new_entries old_entries =
     (let root = rp_path r; removed = removed_paths new_entries old_entries in
     andThen (liftr (packerr (collect native_path removed))) (\<lambda>removable.
     andThen (query (\<lambda>fs. packerr (preflight_destination_ancestors fs root
       (map fe_path new_entries @ removed) removable))) (\<lambda>_.
     andThen (pack_io (probe root (link_kinds new_entries) (e_probes E))) (\<lambda>_.
     andThen (preflight_symlink_targets E r (sid_pack sid) new_entries) (\<lambda>_.
     andThen (query (\<lambda>fs. if xo_force opts then Inr ()
       else check_all_unchanged E fs root head_time old_entries)) (\<lambda>_.
     andThen (query (\<lambda>fs. if xo_force opts then Inr ()
       else preflight_untracked_collisions (e_unicode E) Unix (e_tree E) fs root
         (map fe_path new_entries) (map fe_path old) removable)) (\<lambda>_.
     ret removable)))))))"

definition extract_snapshot ::
    "env \<Rightarrow> repository \<Rightarrow> snapshot_id \<Rightarrow> extract_options \<Rightarrow> extract_result op" where
  "extract_snapshot E r sid opts =
     andThen (query (\<lambda>fs. plan_checkout E r fs sid opts)) (\<lambda>(head_time, old, new_entries, old_entries).
     andThen (check_checkout E r sid opts head_time old new_entries old_entries) (\<lambda>removable.
     andThen (remove_paths (rp_path r) removable) (\<lambda>_.
     andThen (extract_entries_preflighted E r (sid_pack sid) new_entries (rp_path r) opts) (\<lambda>_.
     andThen (update_head E r sid) (\<lambda>_.
     let updated = length (updated_paths new_entries old_entries) in
     ret \<lparr>xr_modified = of_nat updated,
       xr_added = of_nat (length new_entries) - of_nat updated,
       xr_removed = of_nat (length removable)\<rparr>)))))"

end
