(* ===== verification/RepoStore.thy ===== *)
theory RepoStore
  imports RepoExtract RepoGc
begin

text \<open>
  Storing, packing and exploding (\<^verbatim>\<open>src/repo/repository.rs\<close>), the batch compression it uses
  (\<^verbatim>\<open>src/batch.rs\<close>) and the operations on remotes.  An operation that reserves a file with
  \<^verbatim>\<open>AtomicCreateFile::new\<close> may not return; it then has the value \<^verbatim>\<open>None\<close>.
\<close>

subsection \<open>Storing a snapshot\<close>

definition write_loose_object :: "env \<Rightarrow> repository \<Rightarrow> bytes \<Rightarrow> checksum \<Rightarrow> (io_error, unit) fs_op" where
  "write_loose_object E r data c =
     (let p = loose_object_path E r c in
      andThen (create_dir_all (butlast p)) (\<lambda>_.
      write_file_atomic_or_existing (data, None) (temp_dir r) (e_tmp E p) p))"

definition loose_metadata :: "bytes \<Rightarrow> object_metadata" where
  "loose_metadata buf = \<lparr>om_offset = loose_object_offset, om_size = of_nat (length buf)\<rparr>"

definition loose_entry :: "env \<Rightarrow> pack_path \<Rightarrow> bytes \<Rightarrow> entry_metadata \<Rightarrow> file_entry" where
  "loose_entry E p buf m =
     \<lparr>fe_path = p, fe_checksum = e_sha1 E buf, fe_object = loose_metadata buf, fe_metadata = m\<rparr>"

definition store_link :: "env \<Rightarrow> repository \<Rightarrow> path \<Rightarrow> pack_path \<Rightarrow> (io_error, file_entry) fs_op" where
  "store_link E r source p =
     andThen (query (\<lambda>fs. read_link fs source)) (\<lambda>target.
     case encode_target (UnixNative target) of (buf, enc) \<Rightarrow>
       andThen (query (\<lambda>fs. Inr (target_kind fs source))) (\<lambda>kind.
       andThen (write_loose_object E r buf (e_sha1 E buf)) (\<lambda>_.
       ret (loose_entry E p buf (Symlink enc kind)))))"

definition zero_checksum :: checksum where
  "zero_checksum = replicate 20 (CHR 0x00)"

definition unreadable_entry :: "pack_path \<Rightarrow> u32 \<Rightarrow> file_entry" where
  "unreadable_entry p mode =
     \<lparr>fe_path = p, fe_checksum = zero_checksum, fe_object = loose_metadata [], fe_metadata = Regular mode\<rparr>"

text \<open>\<^verbatim>\<open>st_mode\<close> of a node, with its file type.\<close>

definition file_mode :: "node \<Rightarrow> u32" where
  "file_mode n = (case n of FileNode d m \<Rightarrow> or m regular_type | DirNode \<Rightarrow> 0x41ED | LinkNode t \<Rightarrow> 0xA1FF)"

definition store_regular :: "env \<Rightarrow> repository \<Rightarrow> path \<Rightarrow> pack_path \<Rightarrow> (io_error, file_entry) fs_op" where
  "store_regular E r source p fs =
     (case fs_read fs source of
        Inl e \<Rightarrow>
          if e \<noteq> PermissionDenied then (Inl e, fs)
          else (rbind (metadata fs source) (\<lambda>n.
            if node_len n \<noteq> 0 then Inl e else Inr (unreadable_entry p (file_mode n))), fs)
      | Inr buf \<Rightarrow>
          andThen (query (\<lambda>fs. metadata fs source)) (\<lambda>n.
          andThen (write_loose_object E r buf (e_sha1 E buf)) (\<lambda>_.
          ret (loose_entry E p buf (Regular (file_mode n))))) fs)"

definition store_file :: "env \<Rightarrow> repository \<Rightarrow> path \<times> pack_path \<Rightarrow> (io_error, file_entry) fs_op" where
  "store_file E r = (\<lambda>(file_path, p).
     let source = rp_path r @ file_path in
     andThen (query (\<lambda>fs. symlink_metadata fs source)) (\<lambda>n.
     if is_link_node n then store_link E r source p else store_regular E r source p))"

definition logical_files :: "repository \<Rightarrow> fs \<Rightarrow> bytes list \<Rightarrow> io_error + (path \<times> pack_path) list" where
  "logical_files r fs files =
     rbind (clean_file_list fs (rp_path r) (rp_data_dir r) files) (\<lambda>natives.
     collect (\<lambda>native. rbind (map_err (\<lambda>_. InvalidInput)
       (from_native_components Unix (map Normal native))) (\<lambda>p. Inr (native, p))) natives)"

definition snapshot_index_path :: "repository \<Rightarrow> bytes \<Rightarrow> path" where
  "snapshot_index_path r tag =
     append_path_suffix (path_push (packs_root r @ [loose_name]) tag) dot_pack_index_extension"

text \<open>The index that is in the way must be of the same tag (tags may differ only in their spelling).\<close>

definition check_tag_collision :: "env \<Rightarrow> repository \<Rightarrow> bytes \<Rightarrow> fs \<Rightarrow> error failure + unit" where
  "check_tag_collision E r tag fs =
     (let p = snapshot_index_path r tag in
      case metadata fs p of
        Inl _ \<Rightarrow> Inr ()
      | Inr n \<Rightarrow>
          if node_len n = 0 then Inr ()
          else rbind (load_tags_file E fs p) (\<lambda>tags. case tags of
              [existing] \<Rightarrow>
                if existing = tag then Inr () else Inl (Fail (LooseSnapshotPathCollision p tag existing))
            | _ \<Rightarrow> Inl (Fail CorruptPackIndex)))"

definition reserve_output ::
    "env \<Rightarrow> bool \<Rightarrow> path \<Rightarrow> fs \<Rightarrow> ((error failure + atomic_create_file option) \<times> fs) option" where
  "reserve_output E force dest fs =
     (if force then Some (Inr None, fs)
      else case acf_new (e_held E) (e_tmp E dest) dest fs of
        None \<Rightarrow> None
      | Some (Inl e, fs) \<Rightarrow> Some (Inl (Fail (IOError e)), fs)
      | Some (Inr a, fs) \<Rightarrow> Some (Inr (Some a), fs))"

definition publish :: "env \<Rightarrow> repository \<Rightarrow> atomic_create_file option \<Rightarrow> bytes \<Rightarrow> path \<Rightarrow> unit op" where
  "publish E r output data dest =
     (case output of
        Some a \<Rightarrow> lift_err io_failure (commit_content a (data, None))
      | None \<Rightarrow> io (write_file_atomic (data, None) (temp_dir r) (e_tmp E dest) dest))"

definition write_snapshot ::
    "env \<Rightarrow> repository \<Rightarrow> snapshot_id \<Rightarrow> (path \<times> pack_path) list \<Rightarrow> atomic_create_file option \<Rightarrow> unit op" where
  "write_snapshot E r sid files output =
     andThen (io (ensure_dir (temp_dir r))) (\<lambda>_.
     andThen (io (run_all (store_file E r) files)) (\<lambda>entries.
     andThen (liftr (map_err pack_failure (push_snapshot index_new (sid_tag sid) entries))) (\<lambda>idx.
     andThen (publish E r output (write_index (e_codec E) idx) (snapshot_index_path r (sid_tag sid))) (\<lambda>_.
     update_head E r sid))))"

definition store_locked ::
    "env \<Rightarrow> repository \<Rightarrow> snapshot_id \<Rightarrow> (path \<times> pack_path) list \<Rightarrow> bool \<Rightarrow> fs \<Rightarrow>
     ((error failure + unit) \<times> fs) option" where
  "store_locked E r sid files force fs =
     (let dest = snapshot_index_path r (sid_tag sid) in
      case andThen (io (ensure_dir (butlast dest))) (\<lambda>_. query (check_tag_collision E r (sid_tag sid))) fs of
        (Inl e, fs) \<Rightarrow> Some (Inl e, fs)
      | (Inr _, fs) \<Rightarrow>
          (case reserve_output E force dest fs of
             None \<Rightarrow> None
           | Some (Inl e, fs) \<Rightarrow> Some (Inl e, fs)
           | Some (Inr output, fs) \<Rightarrow> Some (write_snapshot E r sid files output fs)))"

definition create_snapshot_impl ::
    "env \<Rightarrow> repository \<Rightarrow> snapshot_id \<Rightarrow> bytes list \<Rightarrow> bool \<Rightarrow> fs \<Rightarrow>
     ((error failure + unit) \<times> repository \<times> fs) option" where
  "create_snapshot_impl E r sid files force fs =
     (case logical_files r fs files of
        Inl e \<Rightarrow> Some (Inl (Fail (IOError e)), r, fs)
      | Inr files \<Rightarrow>
          (case lock_exclusive E r of
             (Inl e, r) \<Rightarrow> Some (Inl (Fail (IOError e)), r, fs)
           | (Inr _, r) \<Rightarrow> map_option (\<lambda>(x, fs). (x, r, fs)) (store_locked E r sid files force fs)))"

definition create_snapshot ::
    "env \<Rightarrow> repository \<Rightarrow> snapshot_id \<Rightarrow> bytes list \<Rightarrow> fs \<Rightarrow> ((error failure + unit) \<times> repository \<times> fs) option" where
  "create_snapshot E r sid files fs = create_snapshot_impl E r sid files False fs"

definition create_snapshot_force ::
    "env \<Rightarrow> repository \<Rightarrow> snapshot_id \<Rightarrow> bytes list \<Rightarrow> fs \<Rightarrow> ((error failure + unit) \<times> repository \<times> fs) option" where
  "create_snapshot_force E r sid files fs = create_snapshot_impl E r sid files True fs"

subsection \<open>Packing\<close>

record pack_options =
  po_window_log :: u32
  po_level :: int
  po_num_workers :: u32
  po_num_frames :: u32

text \<open>
  \<^verbatim>\<open>compress_files\<close>: the encoder refuses bad options before it reads; the objects are read and
  compressed one after the other.
\<close>

definition compress_files ::
    "env \<Rightarrow> compression_options \<Rightarrow> ('a \<Rightarrow> io_error failure + bytes) \<Rightarrow> 'a list \<Rightarrow>
     io_error failure + u64 \<times> bytes" where
  "compress_files E opts read objects =
     (if co_num_workers opts = 0 then Inl Panicked
      else rbind (map_err Fail (e_zstd E opts [])) (\<lambda>_.
        rbind (collect read objects) (\<lambda>datas.
        rbind (map_err Fail (e_zstd E opts (concat datas))) (\<lambda>z.
        Inr (of_nat (length (concat datas)), z)))))"

definition read_packed_object ::
    "env \<Rightarrow> repository \<Rightarrow> fs \<Rightarrow> pack_index \<Rightarrow> handle \<Rightarrow> io_error failure + bytes" where
  "read_packed_object E r fs idx h =
     rbind (handle_to_checksum idx h) (\<lambda>c.
     if list_all (\<lambda>b. b = CHR 0x00) c then Inr []
     else map_err Fail (fs_read fs (loose_object_path E r c)))"

definition workers_per_task :: "u32 \<Rightarrow> nat \<Rightarrow> u32" where
  "workers_per_task num_workers n = (num_workers + of_nat n - 1) div of_nat (max 1 n)"

text \<open>A panic in any task is a panic of the whole; otherwise the first error in order is returned.\<close>

definition join_results :: "('e failure + 'a) list \<Rightarrow> 'e failure + 'a list" where
  "join_results rs = (if Inl Panicked \<in> set rs then Inl Panicked else collect (\<lambda>x. x) rs)"

definition compress_frames ::
    "env \<Rightarrow> repository \<Rightarrow> pack_index \<Rightarrow> pack_options \<Rightarrow> handle list list \<Rightarrow> fs \<Rightarrow>
     error failure + (u64 \<times> bytes) list" where
  "compress_frames E r idx opts parts fs =
     (let task_opts = \<lparr>co_level = po_level opts, co_window_log = po_window_log opts,
            co_num_workers = workers_per_task (po_num_workers opts) (length parts)\<rparr>
      in if po_num_workers opts = 0 then Inl Panicked
         else map_err io_failure
           (join_results (map (compress_files E task_opts (read_packed_object E r fs idx)) parts)))"

definition frame_record :: "u64 \<times> bytes \<Rightarrow> pack_frame" where
  "frame_record f = \<lparr>frame_size = of_nat (length (snd f)), decompressed_size = fst f\<rparr>"

definition pack_bytes :: "env \<Rightarrow> (u64 \<times> bytes) list \<Rightarrow> bytes" where
  "pack_bytes E frames =
     fst (write_skippable_frame (e_enc_header E (header_new (map frame_record frames)))) @
     concat (map snd frames)"

text \<open>The layout, the compressed frames and the finished temporary file; the result is the index.\<close>

definition build_pack ::
    "env \<Rightarrow> repository \<Rightarrow> pack_index \<Rightarrow> pack_options \<Rightarrow> path \<Rightarrow> pack_index op" where
  "build_pack E r idx opts temp_path =
     andThen (io (ensure_dir (temp_dir r))) (\<lambda>_.
     case compute_object_offsets_and_ordering idx of (idx, handles) \<Rightarrow>
       andThen (liftr (objects_partitioned_by_size idx (po_num_frames opts) handles)) (\<lambda>parts.
       andThen (query (compress_frames E r idx opts parts)) (\<lambda>frames.
       andThen (io (create_file temp_path None)) (\<lambda>q.
       andThen (fs_append q (pack_bytes E frames)) (\<lambda>_.
       ret idx)))))"

definition publish_pack ::
    "env \<Rightarrow> bool \<Rightarrow> path \<Rightarrow> path \<Rightarrow> fs \<Rightarrow> ((error failure + unit) \<times> fs) option" where
  "publish_pack E force temp_path pack_path fs =
     (if force then Some (io (fs_rename temp_path pack_path) fs)
      else case acf_new (e_held E) (e_tmp E pack_path) pack_path fs of
        None \<Rightarrow> None
      | Some (Inl e, fs) \<Rightarrow> Some (Inl (Fail (IOError e)), fs)
      | Some (Inr a, fs) \<Rightarrow>
          Some (andThen (io (query (\<lambda>fs. fs_read fs temp_path))) (\<lambda>data.
            andThen (lift_err io_failure (commit_content a (data, None))) (\<lambda>_.
            io (remove_file temp_path))) fs))"

definition pack_file_path :: "repository \<Rightarrow> pack_id \<Rightarrow> path" where
  "pack_file_path r pack = path_push (packs_root r) (pack_name pack @ CHR ''.'' # pack_extension)"

definition pack_in_the_way :: "fs \<Rightarrow> path \<Rightarrow> bool" where
  "pack_in_the_way fs p = (case metadata fs p of Inr n \<Rightarrow> node_len n > 0 | Inl _ \<Rightarrow> False)"

definition create_pack_impl ::
    "env \<Rightarrow> repository \<Rightarrow> pack_id \<Rightarrow> pack_index \<Rightarrow> pack_options \<Rightarrow> bool \<Rightarrow> fs \<Rightarrow>
     ((error failure + unit) \<times> fs) option" where
  "create_pack_impl E r pack idx opts force fs =
     (let pack_path = pack_file_path r pack; index_path = append_path_suffix pack_path ''.idx'';
          temp_path = temp_dir r @ [e_tmp E (temp_dir r)] in
      case andThen (liftr (map_err (\<lambda>e. Fail (IdError e)) (validate_regular pack))) (\<lambda>_.
           io (ensure_dir (packs_root r))) fs of
        (Inl e, fs) \<Rightarrow> Some (Inl e, fs)
      | (Inr _, fs) \<Rightarrow>
          if \<not> force \<and> pack_in_the_way fs pack_path then Some (Inl (Fail (IOError AlreadyExists)), fs)
          else (case reserve_output E force index_path fs of
             None \<Rightarrow> None
           | Some (Inl e, fs) \<Rightarrow> Some (Inl e, fs)
           | Some (Inr output, fs) \<Rightarrow>
               (case build_pack E r idx opts temp_path fs of
                  (Inl e, fs) \<Rightarrow> Some (Inl e, fs)
                | (Inr idx, fs) \<Rightarrow>
                    (case publish_pack E force temp_path pack_path fs of
                       None \<Rightarrow> None
                     | Some (Inl e, fs) \<Rightarrow> Some (Inl e, fs)
                     | Some (Inr _, fs) \<Rightarrow>
                         Some (publish E r output (write_index (e_codec E) idx) index_path fs)))))"

definition create_pack ::
    "env \<Rightarrow> repository \<Rightarrow> pack_id \<Rightarrow> pack_index \<Rightarrow> pack_options \<Rightarrow> fs \<Rightarrow> ((error failure + unit) \<times> fs) option" where
  "create_pack E r pack idx opts fs = create_pack_impl E r pack idx opts False fs"

definition create_pack_force ::
    "env \<Rightarrow> repository \<Rightarrow> pack_id \<Rightarrow> pack_index \<Rightarrow> pack_options \<Rightarrow> fs \<Rightarrow> ((error failure + unit) \<times> fs) option" where
  "create_pack_force E r pack idx opts fs = create_pack_impl E r pack idx opts True fs"

subsection \<open>Exploding\<close>

definition explode_entry :: "env \<Rightarrow> pack_index \<Rightarrow> checksum \<Rightarrow> error failure + file_entry" where
  "explode_entry E idx c =
     rbind (get_object_metadata idx c) (\<lambda>om.
     let s = hex_encode (e_hex E) c in
     rbind (map_err (\<lambda>_. Panicked)
       (pack_path_new (take 2 s @ CHR ''/'' # take 2 (drop 2 s) @ CHR ''/'' # drop 4 s))) (\<lambda>p.
     Inr \<lparr>fe_path = p, fe_checksum = c, fe_object = om, fe_metadata = Regular 0x1A4\<rparr>))"

definition explode_pack :: "env \<Rightarrow> repository \<Rightarrow> pack_id \<Rightarrow> unit op" where
  "explode_pack E r pack =
     andThen (query (\<lambda>fs. rbind (load_index E r fs pack) (\<lambda>idx.
       collect (explode_entry E idx) (object_checksums idx)))) (\<lambda>entries.
     repo_extract_entries E r pack entries (loose_root r)
       (default_extract_options\<lparr>xo_verify := False, xo_num_workers := 8\<rparr>))"

subsection \<open>Remotes\<close>

definition add_remote :: "env \<Rightarrow> repository \<Rightarrow> bytes \<Rightarrow> bytes \<Rightarrow> unit op" where
  "add_remote E r name url =
     (let dir = rp_data_dir r @ [remotes_name] in
      andThen (io (create_dir_all dir)) (\<lambda>_.
      andThen (fetch_remote E url (set_extension (path_push dir name) remote_index_extension)) (\<lambda>_.
      ret ())))"

definition update_one_remote :: "env \<Rightarrow> repository \<Rightarrow> remote_index \<Rightarrow> unit op" where
  "update_one_remote E r remote =
     andThen (liftr (unwrap (ri_path remote))) (\<lambda>p.
     let dir = path_push (packs_root r) (file_stem (last p)) in
     andThen (update_remote E remote) (\<lambda>remote.
     andThen (io (create_dir_all dir)) (\<lambda>_.
     update_remote_pack_indexes E remote dir)))"

definition update_remotes :: "env \<Rightarrow> repository \<Rightarrow> unit op" where
  "update_remotes E r =
     andThen (query (\<lambda>fs. map_err Fail (load_remotes E fs (rp_data_dir r @ [remotes_name])))) (\<lambda>remotes.
     each (update_one_remote E r) remotes)"

end
