(* ===== verification/ExtractFacts.thy ===== *)
theory ExtractFacts
  imports RepoExtract PackFrames EnvPlain
begin

text \<open>
  Facts about extraction: the difference of two snapshots, the checks that stop a checkout, and
  the copy of loose objects into the working directory.
\<close>

subsection \<open>The difference of two snapshots\<close>

lemma entry_lookup_contents: "entry_content ` set (entry_lookup es) = entry_content ` set es"
  by (induction es) auto

lemma entry_lookup_subset: "set (entry_lookup es) \<subseteq> set es"
  by (induction es) auto

lemma entry_lookup_distinct: "distinct (map entry_content (entry_lookup es))"
proof (induction es)
  case Nil
  then show ?case by simp
next
  case (Cons e es)
  then show ?case using entry_lookup_contents [of es] by simp
qed

lemma image_filter_diff: "f ` {e \<in> A. f e \<notin> f ` B} = f ` A - f ` B"
  by auto

lemma missing_from_spec:
  assumes "order_ok E"
  shows "entry_content ` set (missing_from E others es) = entry_content ` set es - entry_content ` set others"
    and "set (missing_from E others es) \<subseteq> set es"
    and "distinct (map entry_content (missing_from E others es))"
proof -
  have m: "mset (e_order E (entry_lookup es)) = mset (entry_lookup es)"
    using assms by (simp add: order_ok_def)
  then have s: "set (e_order E (entry_lookup es)) = set (entry_lookup es)" by (metis set_mset_mset)
  have "set (missing_from E others es) =
      {e \<in> set (entry_lookup es). entry_content e \<notin> entry_content ` set others}"
    by (simp add: missing_from_def s)
  then have "entry_content ` set (missing_from E others es) =
      entry_content ` set (entry_lookup es) - entry_content ` set others"
    and sub: "set (missing_from E others es) \<subseteq> set (entry_lookup es)"
    by (simp_all only: image_filter_diff Collect_subset)
  then show "entry_content ` set (missing_from E others es) = entry_content ` set es - entry_content ` set others"
    by (simp only: entry_lookup_contents)
  from sub entry_lookup_subset show "set (missing_from E others es) \<subseteq> set es" by (rule subset_trans)
  have "mset (map entry_content (e_order E (entry_lookup es))) = mset (map entry_content (entry_lookup es))"
    using m by (simp add: mset_map)
  then have "distinct (map entry_content (e_order E (entry_lookup es)))"
    using entry_lookup_distinct mset_eq_imp_distinct_iff by blast
  then show "distinct (map entry_content (missing_from E others es))"
    unfolding missing_from_def by (rule distinct_map_filter)
qed

lemma compute_entry_diff_ok:
  assumes "order_ok E" "compute_entry_diff E old new = (added, removed)"
  shows "entry_content ` set added = entry_content ` set new - entry_content ` set old"
    and "entry_content ` set removed = entry_content ` set old - entry_content ` set new"
    and "set added \<subseteq> set new" "set removed \<subseteq> set old"
    and "distinct (map entry_content added)" "distinct (map entry_content removed)"
proof -
  have "added = missing_from E old new" "removed = missing_from E new old"
    using assms(2) by (simp_all add: compute_entry_diff_def)
  then show "entry_content ` set added = entry_content ` set new - entry_content ` set old"
    and "entry_content ` set removed = entry_content ` set old - entry_content ` set new"
    and "set added \<subseteq> set new" "set removed \<subseteq> set old"
    and "distinct (map entry_content added)" "distinct (map entry_content removed)"
    using missing_from_spec [OF assms(1)] by simp_all
qed

subsection \<open>The checks before a checkout\<close>

lemma check_all_unchanged_iff:
  "check_all_unchanged E fs root t es = Inr () \<longleftrightarrow>
     (\<forall>e \<in> set es. \<exists>native t'. native_path (fe_path e) = Inr native \<and> t = Some t' \<and>
        check_entry_unchanged_since E fs e t' (root @ native) = Inr ())"
  by (induction es) (auto simp: result_simps packerr_def)

lemma andThen_query: "andThen (query q) f fs = (case q fs of Inl e \<Rightarrow> (Inl e, fs) | Inr x \<Rightarrow> f x fs)"
  by (simp add: andThen_def query_def split: sum.split)

lemma andThen_liftr: "andThen (liftr q) f fs = (case q of Inl e \<Rightarrow> (Inl e, fs) | Inr x \<Rightarrow> f x fs)"
  by (simp add: andThen_def liftr_def split: sum.split)

lemma no_links_no_probe:
  assumes "link_kinds es = []"
  shows "pack_io (probe out (link_kinds es) tmps) fs = (Inr (), fs)"
    and "preflight_symlink_targets E r pack es fs = (Inr (), fs)"
proof -
  show "pack_io (probe out (link_kinds es) tmps) fs = (Inr (), fs)"
    using assms by (simp add: pack_io_def lift_err_def probe_def ret_def)
  have "\<not> is_symlink (fe_metadata e)" if "e \<in> set es" for e
    using assms that
  proof (induction es)
    case Nil
    then show ?case by simp
  next
    case (Cons a es)
    then show ?case
      by (cases "fe_metadata a") (auto simp: link_kinds_def List.map_filter_simps)
  qed
  then have "filter (\<lambda>e. is_symlink (fe_metadata e)) es = []" by (simp add: filter_empty_conv)
  then show "preflight_symlink_targets E r pack es fs = (Inr (), fs)"
    by (simp add: preflight_symlink_targets_def Let_def)
qed

definition checkout_clean ::
    "env \<Rightarrow> repository \<Rightarrow> fs \<Rightarrow> nat option \<Rightarrow> file_entry list \<Rightarrow> file_entry list \<Rightarrow> file_entry list \<Rightarrow>
     path list \<Rightarrow> bool" where
  "checkout_clean E r fs t old new gone removable \<longleftrightarrow>
     (\<forall>e \<in> set gone. \<exists>native t'. native_path (fe_path e) = Inr native \<and> t = Some t' \<and>
        check_entry_unchanged_since E fs e t' (rp_path r @ native) = Inr ()) \<and>
     preflight_untracked_collisions (e_unicode E) Unix (e_tree E) fs (rp_path r)
       (map fe_path new) (map fe_path old) removable = Inr () \<and>
     preflight_destination_ancestors fs (rp_path r) (map fe_path new @ removed_paths new gone) removable = Inr ()"

lemma check_checkout_clean:
  assumes "link_kinds new = []" "\<not> xo_force opts"
  shows "(\<exists>e. check_checkout E r sid opts t old new gone fs = (Inl e, fs)) \<or>
    (\<exists>removable. check_checkout E r sid opts t old new gone fs = (Inr removable, fs) \<and>
       collect native_path (removed_paths new gone) = Inr removable \<and>
       checkout_clean E r fs t old new gone removable)"
proof -
  have stop: "check_checkout E r sid opts t old new gone fs =
      (rbind (packerr (collect native_path (removed_paths new gone))) (\<lambda>removable.
       rbind (packerr (preflight_destination_ancestors fs (rp_path r)
         (map fe_path new @ removed_paths new gone) removable)) (\<lambda>_.
       rbind (check_all_unchanged E fs (rp_path r) t gone) (\<lambda>_.
       rbind (preflight_untracked_collisions (e_unicode E) Unix (e_tree E) fs (rp_path r)
         (map fe_path new) (map fe_path old) removable) (\<lambda>_. Inr removable)))), fs)"
    using assms(2) no_links_no_probe [OF assms(1)]
    by (simp add: check_checkout_def Let_def andThen_query andThen_liftr ret_def andThen_Inr split: sum.split)
  show ?thesis
  proof (cases "fst (check_checkout E r sid opts t old new gone fs)")
    case (Inl e)
    with stop show ?thesis by auto
  next
    case (Inr removable)
    with stop have "check_checkout E r sid opts t old new gone fs = (Inr removable, fs)" by simp
    moreover from Inr stop have "collect native_path (removed_paths new gone) = Inr removable \<and>
        checkout_clean E r fs t old new gone removable"
      by (auto simp: result_simps packerr_def checkout_clean_def check_all_unchanged_iff)
    ultimately show ?thesis by blast
  qed
qed

lemma extract_snapshot_guard:
  assumes "extract_snapshot E r sid opts fs = (x, fs')" "\<not> xo_force opts"
    and "plan_checkout E r fs sid opts = Inr (t, old, new, gone)" "link_kinds new = []"
  shows "(\<exists>e. x = Inl e) \<and> fs' = fs \<or>
    (\<exists>removable. collect native_path (removed_paths new gone) = Inr removable \<and>
       checkout_clean E r fs t old new gone removable)"
proof -
  from check_checkout_clean [OF assms(4,2), of E r sid t old gone fs] show ?thesis
  proof
    assume "\<exists>e. check_checkout E r sid opts t old new gone fs = (Inl e, fs)"
    with assms(1,3) show ?thesis by (auto simp: extract_snapshot_def andThen_query andThen_Inl)
  qed blast
qed

lemma extract_snapshot_no_plan:
  "plan_checkout E r fs sid opts = Inl e \<Longrightarrow> extract_snapshot E r sid opts fs = (Inl e, fs)"
  by (simp add: extract_snapshot_def andThen_query)

subsection \<open>Copying loose objects\<close>

text \<open>A readable file that is reached through real directories.\<close>

definition object_stored :: "fs \<Rightarrow> path \<Rightarrow> bytes \<Rightarrow> bool" where
  "object_stored fs p b \<longleftrightarrow> no_parent_refs p \<and> dirs_above fs p \<and>
     (\<exists>m. fs_get fs p = Some (FileNode b m) \<and> and m owner_read \<noteq> 0)"

lemma object_stored_read: "object_stored fs p b \<Longrightarrow> fs_read fs p = Inr b"
  using metadata_plain [of p fs] by (auto simp: object_stored_def fs_read_def)

lemma object_stored_frame:
  assumes "object_stored fs p b" "\<And>q. prefix q p \<Longrightarrow> fs_get fs' q = fs_get fs q"
  shows "object_stored fs' p b"
  using assms by (auto simp: object_stored_def dirs_above_def strict_prefix_def)

lemma object_not_above:
  assumes "object_stored fs p b" "dirs_or_missing fs d"
  shows "\<not> prefix p d"
  using assms by (auto simp: object_stored_def dirs_or_missing_def)

text \<open>Only directories were made, and outputs written elsewhere.\<close>

lemma object_stored_dirs:
  assumes "object_stored fs p b" "dirs_or_missing fs d"
    and "\<And>q. fs_get fs' q = (if prefix q d then Some DirNode else fs_get fs q)"
  shows "object_stored fs' p b"
proof (rule object_stored_frame [OF assms(1)])
  fix q assume "prefix q p"
  then show "fs_get fs' q = fs_get fs q"
    using assms object_not_above [OF assms(1,2)]
    by (cases "q = p") (auto simp: object_stored_def dirs_above_def strict_prefix_def)
qed

lemma object_stored_placed:
  assumes "object_stored fs p b" "placed fs q n fs'" "writable_at fs q" "p \<noteq> q"
  shows "object_stored fs' p b"
proof (rule object_stored_frame [OF assms(1)])
  fix x assume x: "prefix x p"
  have "\<not> prefix p (butlast q)"
    using object_not_above [OF assms(1)] assms(3) by (simp add: writable_at_def)
  moreover have "x \<noteq> q"
    using assms x by (auto simp: object_stored_def dirs_above_def strict_prefix_def writable_at_def)
  moreover have "fs_get fs x = Some DirNode" if "x \<noteq> p"
    using assms(1) x that by (auto simp: object_stored_def dirs_above_def strict_prefix_def)
  ultimately show "fs_get fs' x = fs_get fs x"
    using assms(2) by (cases "x = p") (auto simp: placed_def)
qed

text \<open>An entry whose object is in the loose store.\<close>

definition loose_ready :: "env \<Rightarrow> repository \<Rightarrow> fs \<Rightarrow> bool \<Rightarrow> bytes \<Rightarrow> file_entry \<Rightarrow> bool" where
  "loose_ready E r fs verify b e \<longleftrightarrow>
     pack_path_ok (fe_path e) \<and> (verify \<longrightarrow> e_sha1 E b = fe_checksum e) \<and>
     (case fe_metadata e of
        Regular mode \<Rightarrow>
          (if entry_size e = 0 then b = [] else object_stored fs (loose_object_path E r (fe_checksum e)) b) \<and>
          (verify \<longrightarrow> and mode owner_read \<noteq> 0)
      | Symlink enc kind \<Rightarrow>
          object_stored fs (loose_object_path E r (fe_checksum e)) b \<and> b \<noteq> [] \<and>
          (\<exists>t. decode_target Unix (fe_path e) b enc = Inr t))"

definition copied :: "path \<Rightarrow> file_entry \<Rightarrow> (path \<times> checksum) option" where
  "copied out e =
     (if is_symlink (fe_metadata e) then None else Some (output_path out e, fe_checksum e))"

lemma output_tmp_path: "output_tmp E out e = e_tmp E (output_path out e)"
  by (simp add: output_tmp_def output_path_def)

lemma placed_after_dirs:
  assumes "\<And>q. fs_get fs1 q = (if prefix q (butlast p) then Some DirNode else fs_get fs q)"
    and "placed fs1 p n fs'"
  shows "placed fs p n fs'"
  using assms by (auto simp: placed_def)

lemma ready_after_dirs:
  assumes "\<And>q. fs_get fs1 q = (if prefix q (butlast p) then Some DirNode else fs_get fs q)"
    and "writable_at fs p" "temp_free fs p tmp"
  shows "writable_at fs1 p" and "temp_free fs1 p tmp"
proof -
  have "p \<noteq> []" using assms(2) by (simp add: writable_at_def)
  then have "\<not> prefix p (butlast p)" by (cases p rule: rev_cases) (auto dest: prefix_length_le)
  with assms(1,2) show "writable_at fs1 p" by (auto simp: writable_at_def dirs_or_missing_def)
  have "\<not> prefix (butlast p @ [tmp]) (butlast p)" by (auto dest: prefix_length_le)
  with assms(1,3) show "temp_free fs1 p tmp" by (simp add: temp_free_def)
qed

lemma verify_placed:
  assumes "placed fs p (LinkNode b) fs'" "writable_at fs p" "decode_target Unix entry b enc = Inr t"
    and "e_sha1 E b = c"
  shows "verify_materialized (e_sha1 E) entry p enc kind c fs' = Inr ()"
  using read_link_placed [OF assms(1,2)] encode_target_as_decoded [OF assms(3)] assms(4)
  by (auto simp: verify_materialized_def)

lemma copy_loose_link_ok:
  assumes stored: "object_stored fs o_path b" and t: "decode_target Unix (fe_path e) b enc = Inr t"
    and b: "b \<noteq> []" "verify \<longrightarrow> e_sha1 E b = fe_checksum e"
    and fs: "fs_wf fs" "writable_at fs p" "temp_free fs p tmp"
  shows "\<exists>fs'. copy_loose_link E o_path verify tmp p e enc kind fs = (Inr None, fs') \<and>
    placed fs p (LinkNode b) fs'"
proof -
  have tb: "native_bytes t = b" using encode_target_as_decoded [OF t] by auto
  obtain fs' where m: "materialize (fe_path e) b enc kind tmp p fs = (Inr (), fs')"
      "placed fs p (LinkNode b) fs'"
    using materialize_ok [OF fs t, of kind] tb b(1) by auto
  have "verify \<Longrightarrow> verify_object (e_sha1 E) b (fe_checksum e) = Inr ()"
    using b(2) by (simp add: verify_object_def)
  moreover have "verify \<Longrightarrow> verify_materialized (e_sha1 E) (fe_path e) p enc kind (fe_checksum e) fs' = Inr ()"
    using verify_placed [OF m(2) fs(2) t] b(2) by blast
  ultimately show ?thesis
    using m object_stored_read [OF stored]
    by (intro exI [of _ fs']) (simp add: copy_loose_link_def lift_err_def liftr_def andThen_def query_def ret_def)
qed

lemma copy_loose_entry_ok:
  assumes ready: "loose_ready E r fs verify b e"
    and fs: "fs_wf fs" "writable_at fs (output_path out e)"
      "temp_free fs (output_path out e) (e_tmp E (output_path out e))"
  shows "\<exists>fs'. copy_loose_entry E r out verify e fs = (Inr (copied out e), fs') \<and>
    placed fs (output_path out e) (entry_node b e) fs'"
proof -
  let ?p = "output_path out e" and ?o = "loose_object_path E r (fe_checksum e)"
  have native: "native_path (fe_path e) = Inr (components (fe_path e))"
    using ready by (simp add: native_path_ok loose_ready_def)
  have nd: "no_parent_refs (butlast ?p)" and dm: "dirs_or_missing fs (butlast ?p)"
    using fs(2) no_parent_refs_butlast [of ?p] by (auto simp: writable_at_def)
  obtain fs1 where c: "create_dir_all (butlast ?p) fs = (Inr (), fs1)" "fs_wf fs1"
      "\<And>q. fs_get fs1 q = (if prefix q (butlast ?p) then Some DirNode else fs_get fs q)"
    using create_dir_all_ok [OF fs(1) nd dm] by blast
  note w1 = ready_after_dirs [OF c(3) fs(2,3)]
  have stored: "object_stored fs1 ?o b" if "object_stored fs ?o b"
    using that dm c(3) by (rule object_stored_dirs)
  have start: "copy_loose_entry E r out verify e fs = (case fe_metadata e of
       Symlink enc kind \<Rightarrow> copy_loose_link E ?o verify (e_tmp E ?p) ?p e enc kind
     | Regular mode \<Rightarrow>
         andThen (if entry_size e = 0 then ret []
           else lift_err IOError (query (\<lambda>fs. fs_read fs ?o))) (\<lambda>data.
         andThen (lift_err IOError (materialize_regular (data, None) (e_tmp E ?p) ?p mode)) (\<lambda>_.
         ret (Some (?p, fe_checksum e))))) fs1"
    using native c(1)
    by (simp add: copy_loose_entry_def andThen_def lift_err_def liftr_def Let_def output_tmp_path
        output_path_def split: entry_metadata.split)
  show ?thesis
  proof (cases "fe_metadata e")
    case (Regular mode)
    have "(if entry_size e = 0 then ret [] else lift_err IOError (query (\<lambda>fs. fs_read fs ?o))) fs1 = (Inr b, fs1)"
      using ready stored object_stored_read
      by (auto simp: loose_ready_def Regular ret_def lift_err_def query_def split: if_splits)
    moreover obtain fs' where "materialize_regular (b, None) (e_tmp E ?p) ?p mode fs1 = (Inr (), fs')"
        "placed fs1 ?p (FileNode b (and mode permission_bits)) fs'"
      using materialize_regular_ok [OF c(2) w1] by blast
    ultimately have "copy_loose_entry E r out verify e fs = (Inr (copied out e), fs')"
      by (simp add: start Regular copied_def andThen_def ret_def lift_err_def)
    with placed_after_dirs [OF c(3) \<open>placed fs1 ?p (FileNode b (and mode permission_bits)) fs'\<close>]
    show ?thesis by (auto simp: Regular entry_node_def)
  next
    case (Symlink enc kind)
    then obtain t where s: "object_stored fs ?o b" "b \<noteq> []" "verify \<longrightarrow> e_sha1 E b = fe_checksum e"
        "decode_target Unix (fe_path e) b enc = Inr t"
      using ready by (auto simp: loose_ready_def)
    obtain fs' where l: "copy_loose_link E ?o verify (e_tmp E ?p) ?p e enc kind fs1 = (Inr None, fs')"
        "placed fs1 ?p (LinkNode b) fs'"
      using copy_loose_link_ok [OF stored [OF s(1)] s(4,2,3) c(2) w1] by blast
    with placed_after_dirs [OF c(3) l(2)] show ?thesis
      by (intro exI [of _ fs']) (simp add: start Symlink copied_def entry_node_def)
  qed
qed

definition loose_writes :: "path \<Rightarrow> (file_entry \<Rightarrow> bytes) \<Rightarrow> file_entry list \<Rightarrow> (path \<times> node) list" where
  "loose_writes out D es = map (\<lambda>e. (output_path out e, entry_node (D e) e)) es"

lemma dom_loose_writes [simp]: "fst ` set (loose_writes out D es) = output_path out ` set es"
  by (force simp: loose_writes_def)

lemma loose_ready_placed:
  assumes "loose_ready E r fs verify b e" "placed fs q n fs'" "writable_at fs q"
    and "loose_object_path E r (fe_checksum e) \<noteq> q"
  shows "loose_ready E r fs' verify b e"
proof -
  let ?o = "loose_object_path E r (fe_checksum e)"
  have "object_stored fs ?o b \<Longrightarrow> object_stored fs' ?o b"
    using object_stored_placed assms(2-4) by blast
  with assms(1) show ?thesis by (auto simp: loose_ready_def split: entry_metadata.splits if_splits)
qed

text \<open>The entries, their outputs and objects: disjoint, and every output can be written.\<close>

definition outputs_ready ::
    "env \<Rightarrow> repository \<Rightarrow> fs \<Rightarrow> bool \<Rightarrow> path \<Rightarrow> (file_entry \<Rightarrow> bytes) \<Rightarrow> file_entry list \<Rightarrow> bool" where
  "outputs_ready E r fs verify out D es \<longleftrightarrow> fs_wf fs \<and>
     distinct (map (output_path out) es) \<and> antichain (output_path out ` set es) \<and>
     targets_free fs (output_path out ` set es) (e_tmp E) \<and>
     (\<forall>e \<in> set es. loose_ready E r fs verify (D e) e \<and>
        loose_object_path E r (fe_checksum e) \<notin> output_path out ` set es)"

lemma run_all_copy_ok:
  "outputs_ready E r fs verify out D es \<Longrightarrow>
   \<exists>fs'. run_all (copy_loose_entry E r out verify) es fs = (Inr (map (copied out) es), fs') \<and>
     all_written fs (loose_writes out D es) fs'"
proof (induction es arbitrary: fs)
  case Nil
  then show ?case by (simp add: all_written_Nil loose_writes_def outputs_ready_def)
next
  case (Cons e es)
  let ?p = "output_path out e" and ?T = "output_path out ` set (e # es)"
  have free: "targets_free fs ?T (e_tmp E)" and anti: "antichain ?T" and dist: "distinct (map (output_path out) (e # es))"
    and wf: "fs_wf fs" and ready: "\<And>e'. e' \<in> set (e # es) \<Longrightarrow> loose_ready E r fs verify (D e') e'"
    and apart: "\<And>e'. e' \<in> set (e # es) \<Longrightarrow> loose_object_path E r (fe_checksum e') \<notin> ?T"
    using Cons.prems by (auto simp: outputs_ready_def)
  have p: "writable_at fs ?p" "temp_free fs ?p (e_tmp E ?p)"
    using free by (auto simp: targets_free_def)
  obtain fs1 where fs1: "copy_loose_entry E r out verify e fs = (Inr (copied out e), fs1)"
      "placed fs ?p (entry_node (D e) e) fs1"
    using copy_loose_entry_ok [OF ready wf p] by auto
  have "targets_free fs1 (?T - {?p}) (e_tmp E)"
    using all_written_keeps_free [OF free anti _ fs1(2) [unfolded placed_all_written]] by simp
  moreover have "?T - {?p} = output_path out ` set es" using dist by auto
  ultimately have free1: "targets_free fs1 (output_path out ` set es) (e_tmp E)" by simp
  have "outputs_ready E r fs1 verify out D es"
    unfolding outputs_ready_def
  proof (intro conjI ballI free1)
    show "fs_wf fs1" using fs1(2) by (simp add: placed_def)
    show "distinct (map (output_path out) es)" using dist by simp
    show "antichain (output_path out ` set es)" using anti by (auto simp: antichain_def)
    fix e' assume e': "e' \<in> set es"
    then have "loose_object_path E r (fe_checksum e') \<notin> ?T" using apart by simp
    then have "loose_object_path E r (fe_checksum e') \<noteq> ?p"
      "loose_object_path E r (fe_checksum e') \<notin> output_path out ` set es" by auto
    with loose_ready_placed [OF ready fs1(2) p(1)] e'
    show "loose_ready E r fs1 verify (D e') e'"
      "loose_object_path E r (fe_checksum e') \<notin> output_path out ` set es" by auto
  qed
  from Cons.IH [OF this] obtain fs' where fs':
    "run_all (copy_loose_entry E r out verify) es fs1 = (Inr (map (copied out) es), fs')"
    "all_written fs1 (loose_writes out D es) fs'" by blast
  have ne: "\<forall>q \<in> ?T. q \<noteq> []" using free by (auto simp: targets_free_def writable_at_def)
  have "all_written fs ((?p, entry_node (D e) e) # loose_writes out D es) fs'"
    using all_written_Cons [OF fs1(2) fs'(2)] dist anti ne by auto
  with fs1(1) fs'(1) show ?case by (intro exI [of _ fs']) (simp add: loose_writes_def)
qed

lemma owner_read_permission: "and (and m permission_bits) owner_read = and m owner_read"
proof -
  have "and permission_bits owner_read = owner_read" by (simp add: permission_bits_def owner_read_def)
  then show ?thesis by (simp add: and.assoc)
qed

lemma regular_copies:
  "List.map_filter (\<lambda>x. x) (map (copied out) es) =
     map (\<lambda>e. (output_path out e, fe_checksum e)) (filter (\<lambda>e. \<not> is_symlink (fe_metadata e)) es)"
  by (induction es) (auto simp: copied_def List.map_filter_simps)

lemma match_checksums_refl [simp]: "match_checksums cs cs = Inr ()"
  by (induction cs) auto

lemma written_file_read:
  assumes w: "all_written fs (loose_writes out D es) fs'" and e: "e \<in> set es" "\<not> is_symlink (fe_metadata e)"
    and ready: "outputs_ready E r fs True out D es"
  shows "fs_read fs' (output_path out e) = Inr (D e)"
proof -
  let ?p = "output_path out e"
  from e(2) obtain mode where m: "fe_metadata e = Regular mode" by (cases "fe_metadata e") auto
  have "distinct (map fst (loose_writes out D es))"
    using ready by (simp add: outputs_ready_def loose_writes_def comp_def)
  then have "map_of (loose_writes out D es) ?p = Some (entry_node (D e) e)"
    using e(1) by (intro map_of_is_SomeI) (auto simp: loose_writes_def)
  then have get: "fs_get fs' ?p = Some (FileNode (D e) (and mode permission_bits))"
    using w m by (simp add: all_written_def entry_node_def)
  have "loose_ready E r fs True (D e) e" "writable_at fs ?p"
    using ready e(1) by (auto simp: outputs_ready_def targets_free_def)
  then have "and mode owner_read \<noteq> 0" "no_parent_refs ?p"
    by (auto simp: loose_ready_def m writable_at_def)
  moreover have "dirs_above fs' ?p"
    using w get fs_wf_prefix [of fs' ?p] by (auto simp: dirs_above_def all_written_def)
  ultimately show ?thesis
    using get by (intro object_stored_read) (simp add: object_stored_def owner_read_permission)
qed

lemma copy_loose_entries_ok:
  assumes ready: "outputs_ready E r fs verify out D es" and "nthread \<noteq> 0"
  shows "\<exists>fs'. copy_loose_entries E r es out verify nthread fs = (Inr (), fs') \<and>
    all_written fs (loose_writes out D es) fs'"
proof -
  obtain fs' where fs': "run_all (copy_loose_entry E r out verify) es fs = (Inr (map (copied out) es), fs')"
      "all_written fs (loose_writes out D es) fs'"
    using run_all_copy_ok [OF ready] by blast
  have "verify_copied E (List.map_filter (\<lambda>x. x) (map (copied out) es)) fs' = (Inr (), fs')" if v: "verify"
  proof -
    let ?rs = "filter (\<lambda>e. \<not> is_symlink (fe_metadata e)) es"
    have "compute_checksums E fs' (map (output_path out) ?rs) = Inr (map (\<lambda>e. fe_checksum e) ?rs)"
    proof -
      have "rbind (fs_read fs' (output_path out e)) (\<lambda>buf. Inr (e_sha1 E buf)) = Inr (fe_checksum e)"
        if "e \<in> set ?rs" for e
      proof -
        have e: "e \<in> set es" "\<not> is_symlink (fe_metadata e)" using that by auto
        have r: "outputs_ready E r fs True out D es" using ready v by simp
        then have "e_sha1 E (D e) = fe_checksum e" using e(1) by (auto simp: outputs_ready_def loose_ready_def)
        with written_file_read [OF fs'(2) e r] show ?thesis by simp
      qed
      then have "list_all2 (\<lambda>p c. rbind (fs_read fs' p) (\<lambda>buf. Inr (e_sha1 E buf)) = Inr c)
          (map (output_path out) ?rs) (map (\<lambda>e. fe_checksum e) ?rs)"
        unfolding list_all2_map1 list_all2_map2 by (rule list.rel_refl_strong)
      then show ?thesis by (simp add: compute_checksums_def collect_Inr_iff)
    qed
    then show ?thesis
      by (simp add: verify_copied_def query_def regular_copies comp_def)
  qed
  with fs' assms(2) show ?thesis
    by (auto simp: copy_loose_entries_def plain_fail_def lift_err_def andThen_def ret_def)
qed

end
