(* ===== verification/StoreFacts.thy ===== *)
theory StoreFacts
  imports RepoStore ExtractFacts RepoFacts
begin

text \<open>
  Storing a snapshot: writing loose objects, reading the files of the working directory, and the
  index that names them.
\<close>

subsection \<open>Loose objects\<close>

text \<open>
  The place of the object with bytes \<^verbatim>\<open>b\<close>: free or already holding them, real or missing
  directories above it, and a free temporary name.
\<close>

definition object_slot :: "env \<Rightarrow> repository \<Rightarrow> fs \<Rightarrow> bytes \<Rightarrow> bool" where
  "object_slot E r fs b \<longleftrightarrow>
     (let p = loose_object_path E r (e_sha1 E b) in
      (\<forall>q. prefix (loose_root r) q \<and> prefix q (butlast p) \<longrightarrow> fs_get fs q = None \<or> fs_get fs q = Some DirNode) \<and>
      (fs_get fs p = None \<or> (\<exists>m. fs_get fs p = Some (FileNode b m) \<and> and m owner_read \<noteq> 0)) \<and>
      e_tmp E p \<noteq> ''..'' \<and> fs_get fs (temp_dir r @ [e_tmp E p]) = None)"

definition crates_ok :: "env \<Rightarrow> bool" where
  "crates_ok E \<longleftrightarrow> hex_ok (e_hex E) \<and> sha1_ok E"

definition store_inv :: "env \<Rightarrow> repository \<Rightarrow> bytes set \<Rightarrow> fs \<Rightarrow> bool" where
  "store_inv E r S fs \<longleftrightarrow> crates_ok E \<and> inj_on (e_sha1 E) S \<and> fs_wf fs \<and>
     no_parent_refs (rp_data_dir r) \<and> dirs_to fs (temp_dir r) \<and> (\<forall>b \<in> S. object_slot E r fs b)"

text \<open>Nothing but the loose directory changes.\<close>

definition only_loose :: "repository \<Rightarrow> fs \<Rightarrow> fs \<Rightarrow> bool" where
  "only_loose r fs fs' \<longleftrightarrow> (\<forall>q. \<not> prefix (loose_root r) q \<longrightarrow> fs_get fs' q = fs_get fs q)"

lemma only_loose_refl [simp]: "only_loose r fs fs"
  by (simp add: only_loose_def)

lemma only_loose_trans: "only_loose r fs fs1 \<Longrightarrow> only_loose r fs1 fs2 \<Longrightarrow> only_loose r fs fs2"
  by (simp add: only_loose_def)

lemma loose_not_temp: "\<not> prefix (loose_root r) (temp_dir r @ q)" "\<not> prefix (temp_dir r) (loose_root r @ q)"
  by (auto simp: loose_root_def temp_dir_def loose_name_def temp_name_def prefix_def)

lemma above_loose:
  assumes "prefix q (loose_root r @ x)" "\<not> prefix (loose_root r) q"
  shows "prefix q (rp_data_dir r)"
proof -
  have "prefix q (loose_root r)"
    using assms prefix_same_cases [of q "loose_root r @ x" "loose_root r"] by auto
  with assms(2) show ?thesis by (auto simp: loose_root_def prefix_snoc_iff)
qed

lemma object_path_parts:
  assumes "crates_ok E"
  obtains a c d where "loose_object_path E r (e_sha1 E b) = (loose_root r @ [a, c]) @ [d]"
    "a \<noteq> ''..''" "c \<noteq> ''..''" "d \<noteq> ''..''"
proof -
  let ?h = "hex_encode (e_hex E)" and ?c = "e_sha1 E b"
  have H: "hex_ok (e_hex E)" and len: "length ?c = 20" using assms by (auto simp: crates_ok_def sha1_ok_def)
  have dot: "\<not> is_hex_lower (CHR ''.'')"
    by (simp add: is_hex_lower_def is_ascii_digit_def byte_val_def)
  have "?h y \<noteq> ''..''" for y
    using hex_okD(3) [OF H, of y] dot by auto
  with loose_object_parts [OF H len, of r] that show ?thesis by simp
qed

lemma object_path_length: "crates_ok E \<Longrightarrow>
    length (loose_object_path E r (e_sha1 E b)) = length (loose_root r) + 3"
  by (rule object_path_parts [of E r b]) simp_all

lemma object_path_loose: "crates_ok E \<Longrightarrow> prefix (loose_root r) (loose_object_path E r (e_sha1 E b))"
  by (rule object_path_parts [of E r b]) simp_all

lemma object_path_eq:
  assumes "crates_ok E" "inj_on (e_sha1 E) S" "b \<in> S" "b' \<in> S"
    and "loose_object_path E r (e_sha1 E b) = loose_object_path E r (e_sha1 E b')"
  shows "b = b'"
proof -
  have "e_sha1 E b = e_sha1 E b'"
    using assms(1,5) by (intro loose_object_path_inj [of E]) (auto simp: crates_ok_def sha1_ok_def)
  with assms show ?thesis by (auto dest: inj_onD)
qed

lemma or_existing_as_atomic:
  assumes "\<not> path_is_file fs dest" "write_file_atomic rd tmp_dir tmp dest fs = (Inr (), fs')"
  shows "write_file_atomic_or_existing rd tmp_dir tmp dest fs = (Inr (), fs')"
  using assms by (auto simp: write_file_atomic_or_existing_def write_file_atomic_def andThen_def
      split: prod.splits sum.splits)

text \<open>What writing an object does: directories, and the file unless it is there.\<close>

definition object_put :: "env \<Rightarrow> repository \<Rightarrow> bytes \<Rightarrow> fs \<Rightarrow> fs \<Rightarrow> bool" where
  "object_put E r b fs fs' \<longleftrightarrow> fs_wf fs' \<and>
     (let p = loose_object_path E r (e_sha1 E b) in
      \<forall>q. fs_get fs' q =
        (if q = p \<and> fs_get fs p = None then Some (FileNode b created_mode)
         else if prefix q (butlast p) then Some DirNode else fs_get fs q))"

lemma store_invD:
  assumes "store_inv E r S fs"
  shows "crates_ok E" "inj_on (e_sha1 E) S" "fs_wf fs" "no_parent_refs (rp_data_dir r)"
    "dirs_to fs (temp_dir r)" "dirs_to fs (rp_data_dir r)" "\<And>b. b \<in> S \<Longrightarrow> object_slot E r fs b"
  using assms by (auto simp: store_inv_def dirs_to_def temp_dir_def)

lemma object_dirs_or_missing:
  assumes "store_inv E r S fs" "b \<in> S"
  shows "dirs_or_missing fs (butlast (loose_object_path E r (e_sha1 E b)))"
  unfolding dirs_or_missing_def
proof (intro allI impI)
  let ?p = "loose_object_path E r (e_sha1 E b)"
  note inv = store_invD [OF assms(1)]
  obtain a c d where p: "?p = (loose_root r @ [a, c]) @ [d]" using object_path_parts [OF inv(1)] by blast
  fix q assume q: "prefix q (butlast ?p)"
  show "fs_get fs q = None \<or> fs_get fs q = Some DirNode"
  proof (cases "prefix (loose_root r) q")
    case True
    with q inv(7) [OF assms(2)] show ?thesis by (auto simp: object_slot_def Let_def)
  next
    case False
    with q have "prefix q (rp_data_dir r)"
      by (intro above_loose [of q r "[a, c]"]) (simp_all add: p butlast_append)
    with inv(6) show ?thesis by (auto simp: dirs_to_def)
  qed
qed

lemma or_existing_ok:
  assumes fs: "fs_wf fs" "dirs_to fs t" "no_parent_refs t" "dirs_to fs d" "no_parent_refs d"
    and names: "tmp \<noteq> ''..''" "name \<noteq> ''..''" "t @ [tmp] \<noteq> d @ [name]" "fs_get fs (t @ [tmp]) = None"
    and place: "fs_get fs (d @ [name]) = None \<or> (\<exists>m. fs_get fs (d @ [name]) = Some (FileNode b m))"
  shows "\<exists>fs'. write_file_atomic_or_existing (b, None) t tmp (d @ [name]) fs = (Inr (), fs') \<and> fs_wf fs' \<and>
    (\<forall>q. fs_get fs' q =
      (if q = d @ [name] \<and> fs_get fs (d @ [name]) = None then Some (FileNode b created_mode) else fs_get fs q))"
proof (cases "fs_get fs (d @ [name])")
  case None
  have "resolve_target fs (d @ [name]) = Inr (d @ [name])"
    using None by (intro open_plain fs names) simp
  then have "\<not> path_is_file fs (d @ [name])"
    using None by (simp add: path_is_file_def metadata_def)
  moreover obtain fs' where fs': "write_file_atomic (b, None) t tmp (d @ [name]) fs = (Inr (), fs')" "fs_wf fs'"
      "\<forall>q. q \<noteq> t @ [tmp] \<longrightarrow> fs_get fs' q = (if q = d @ [name] then Some (FileNode b created_mode) else fs_get fs q)"
      "fs_get fs' (t @ [tmp]) = None"
    using write_file_atomic_to [OF fs names(1,2,3,4), of "(b, None)"] None by auto
  ultimately have "write_file_atomic_or_existing (b, None) t tmp (d @ [name]) fs = (Inr (), fs')"
    by (intro or_existing_as_atomic)
  moreover have "fs_get fs' q = (if q = d @ [name] then Some (FileNode b created_mode) else fs_get fs q)" for q
    using fs'(3,4) names(3,4) by (cases "q = t @ [tmp]") simp_all
  ultimately show ?thesis using fs'(2) None by auto
next
  case (Some n)
  with place obtain m where m: "fs_get fs (d @ [name]) = Some (FileNode b m)" by auto
  from file_metadata(1) [OF fs(4,5) names(2) m] have "path_is_file fs (d @ [name])"
    by (simp add: path_is_file_def)
  with Some fs(1) show ?thesis by (intro exI [of _ fs]) (simp add: write_file_atomic_or_existing_def)
qed

lemma write_object_put:
  assumes "store_inv E r S fs" "b \<in> S"
  shows "\<exists>fs'. write_loose_object E r b (e_sha1 E b) fs = (Inr (), fs') \<and> object_put E r b fs fs'"
proof -
  let ?p = "loose_object_path E r (e_sha1 E b)" and ?t = "temp_dir r"
  let ?n = "e_tmp E ?p"
  note inv = store_invD [OF assms(1)]
  obtain a c d where p: "?p = (loose_root r @ [a, c]) @ [d]" "a \<noteq> ''..''" "c \<noteq> ''..''" "d \<noteq> ''..''"
    using object_path_parts [OF inv(1)] by blast
  let ?d = "loose_root r @ [a, c]"
  have bl: "butlast ?p = ?d" by (simp add: p(1) butlast_append)
  have np: "no_parent_refs ?d" "no_parent_refs ?t"
    using inv(4) p(2,3) by (auto simp: no_parent_refs_def loose_root_def loose_name_def temp_dir_def temp_name_def)
  note slot = inv(7) [OF assms(2), unfolded object_slot_def Let_def]
  obtain fs1 where c1: "create_dir_all ?d fs = (Inr (), fs1)" "fs_wf fs1"
      "\<And>q. fs_get fs1 q = (if prefix q ?d then Some DirNode else fs_get fs q)"
    using create_dir_all_ok [OF inv(3) np(1)] object_dirs_or_missing [OF assms] by (auto simp: bl)
  have d1: "dirs_to fs1 ?d" using c1(3) by (simp add: dirs_to_def)
  have t1: "dirs_to fs1 ?t" using inv(5) c1(3) by (auto simp: dirs_to_def)
  have "\<not> prefix (?t @ [?n]) ?d" using loose_not_temp(2) [of r "[a, c]"] by (auto simp: prefix_def)
  then have tmp1: "fs_get fs1 (?t @ [?n]) = None" using c1(3) slot by simp
  have long: "\<not> prefix (?d @ [d]) ?d" by (auto dest: prefix_length_le)
  then have p1: "fs_get fs1 (?d @ [d]) = fs_get fs ?p" using c1(3) p(1) by simp
  have ne: "?t @ [?n] \<noteq> ?d @ [d]" using loose_not_temp(2) [of r "[a, c, d]"] by (auto simp: prefix_def)
  have place: "fs_get fs1 (?d @ [d]) = None \<or> (\<exists>m. fs_get fs1 (?d @ [d]) = Some (FileNode b m))"
    using slot p1 by metis
  have tn: "?n \<noteq> ''..''" using slot by blast
  obtain fs2 where w: "write_file_atomic_or_existing (b, None) ?t ?n ?p fs1 = (Inr (), fs2)" "fs_wf fs2"
      "\<forall>q. fs_get fs2 q = (if q = ?p \<and> fs_get fs ?p = None then Some (FileNode b created_mode) else fs_get fs1 q)"
    using or_existing_ok [OF c1(2) t1 np(2) d1 np(1) tn p(4) ne tmp1 place] unfolding p1 unfolding p(1) by blast
  have "write_loose_object E r b (e_sha1 E b) fs = (Inr (), fs2)"
    using c1(1) w(1) by (simp add: write_loose_object_def Let_def andThen_def bl)
  moreover have "object_put E r b fs fs2"
    using w(2,3) c1(3) by (simp add: object_put_def Let_def bl)
  ultimately show ?thesis by blast
qed

subsection \<open>What stays when an object is written\<close>

lemma object_put_get:
  assumes "store_inv E r S fs" "object_put E r b fs fs'"
  shows "length q = length (loose_root r) + 3 \<Longrightarrow> q \<noteq> loose_object_path E r (e_sha1 E b) \<Longrightarrow> fs_get fs' q = fs_get fs q"
    and "length q < length (loose_root r) + 3 \<Longrightarrow> fs_get fs' q = Some DirNode \<or> fs_get fs' q = fs_get fs q"
    and "\<not> prefix (loose_root r) q \<Longrightarrow> fs_get fs' q = fs_get fs q"
proof -
  let ?p = "loose_object_path E r (e_sha1 E b)"
  note inv = store_invD [OF assms(1)]
  have len: "length ?p = length (loose_root r) + 3" by (rule object_path_length [OF inv(1)])
  have get: "fs_get fs' q = (if q = ?p \<and> fs_get fs ?p = None then Some (FileNode b created_mode)
       else if prefix q (butlast ?p) then Some DirNode else fs_get fs q)" for q
    using assms(2) by (simp add: object_put_def Let_def)
  show "fs_get fs' q = fs_get fs q" if "length q = length (loose_root r) + 3" "q \<noteq> ?p"
  proof -
    have "\<not> prefix q (butlast ?p)" using that(1) len by (auto dest: prefix_length_le)
    with get that(2) show ?thesis by simp
  qed
  show "fs_get fs' q = Some DirNode \<or> fs_get fs' q = fs_get fs q" if "length q < length (loose_root r) + 3"
    using get that len by auto
  show "fs_get fs' q = fs_get fs q" if q: "\<not> prefix (loose_root r) q"
  proof -
    obtain a c d where p: "?p = (loose_root r @ [a, c]) @ [d]" using object_path_parts [OF inv(1)] by blast
    have "q \<noteq> ?p" using q object_path_loose [OF inv(1)] by metis
    moreover have "fs_get fs q = Some DirNode" if "prefix q (butlast ?p)"
      using above_loose [of q r "[a, c]"] that q inv(6) by (simp add: p butlast_append dirs_to_def)
    ultimately show ?thesis using get by auto
  qed
qed

lemma object_put_stored:
  assumes "store_inv E r S fs" "b \<in> S" "object_put E r b fs fs'"
  shows "object_stored fs' (loose_object_path E r (e_sha1 E b)) b"
proof -
  let ?p = "loose_object_path E r (e_sha1 E b)"
  note inv = store_invD [OF assms(1)]
  have "?p \<noteq> []" and len: "length ?p = length (loose_root r) + 3"
    using object_path_length [OF inv(1), of r b] by auto
  have get: "fs_get fs' q = (if q = ?p \<and> fs_get fs ?p = None then Some (FileNode b created_mode)
       else if prefix q (butlast ?p) then Some DirNode else fs_get fs q)" for q
    using assms(3) by (simp add: object_put_def Let_def)
  have "\<not> prefix ?p (butlast ?p)" using len by (auto dest: prefix_length_le)
  then have "\<exists>m. fs_get fs' ?p = Some (FileNode b m) \<and> and m owner_read \<noteq> 0"
    using get inv(7) [OF assms(2)] by (auto simp: object_slot_def Let_def created_mode_def owner_read_def)
  moreover have "no_parent_refs ?p"
  proof -
    obtain a c d where "?p = (loose_root r @ [a, c]) @ [d]" "a \<noteq> ''..''" "c \<noteq> ''..''" "d \<noteq> ''..''"
      using object_path_parts [OF inv(1)] by blast
    with inv(4) show ?thesis by (auto simp: no_parent_refs_def loose_root_def loose_name_def)
  qed
  moreover have "dirs_above fs' ?p"
    using get \<open>?p \<noteq> []\<close> by (auto simp: dirs_above_def prefix_butlast)
  ultimately show ?thesis by (simp add: object_stored_def)
qed

lemma object_put_slot:
  assumes inv: "store_inv E r S fs" and put: "object_put E r b fs fs'" and b: "b \<in> S" "b' \<in> S"
  shows "object_slot E r fs' b'"
proof -
  let ?p = "loose_object_path E r (e_sha1 E b)" and ?p' = "loose_object_path E r (e_sha1 E b')"
  note inv' = store_invD [OF inv] and get = object_put_get [OF inv put]
  note slot = inv'(7) [OF b(2), unfolded object_slot_def Let_def]
  have len: "length ?p' = length (loose_root r) + 3" by (rule object_path_length [OF inv'(1)])
  have "fs_get fs' q = None \<or> fs_get fs' q = Some DirNode"
    if q: "prefix (loose_root r) q" "prefix q (butlast ?p')" for q
  proof -
    have "length q < length (loose_root r) + 3" using prefix_length_le [OF q(2)] len by simp
    with get(2) [of q] slot q show ?thesis by auto
  qed
  moreover have "fs_get fs' ?p' = None \<or> (\<exists>m. fs_get fs' ?p' = Some (FileNode b' m) \<and> and m owner_read \<noteq> 0)"
  proof (cases "?p' = ?p")
    case True
    with object_path_eq [OF inv'(1,2) b(2,1)] object_put_stored [OF inv b(1) put] show ?thesis
      by (auto simp: object_stored_def)
  next
    case False
    with get(1) [OF len] slot show ?thesis by simp
  qed
  moreover have "fs_get fs' (temp_dir r @ [e_tmp E ?p']) = None"
    using get(3) slot loose_not_temp(1) by metis
  ultimately show ?thesis using slot by (simp add: object_slot_def Let_def)
qed

lemma object_put_keeps:
  assumes inv: "store_inv E r S fs" and put: "object_put E r b fs fs'" and b: "b \<in> S" "b' \<in> S"
    and old: "object_stored fs (loose_object_path E r (e_sha1 E b')) b'"
  shows "object_stored fs' (loose_object_path E r (e_sha1 E b')) b'"
proof (cases "b' = b")
  case True
  with object_put_stored [OF inv b(1) put] show ?thesis by simp
next
  case False
  let ?p' = "loose_object_path E r (e_sha1 E b')"
  note inv' = store_invD [OF inv] and get = object_put_get [OF inv put]
  have len: "length ?p' = length (loose_root r) + 3" by (rule object_path_length [OF inv'(1)])
  have ne: "?p' \<noteq> loose_object_path E r (e_sha1 E b)"
    using object_path_eq [OF inv'(1,2) b(2,1)] False by blast
  show ?thesis
  proof (rule object_stored_frame [OF old])
    fix q assume q: "prefix q ?p'"
    show "fs_get fs' q = fs_get fs q"
    proof (cases "q = ?p'")
      case True
      with get(1) [OF len ne] show ?thesis by simp
    next
      case False
      with q have s: "strict_prefix q ?p'" by (simp add: strict_prefix_def)
      then have "fs_get fs q = Some DirNode" using old by (auto simp: object_stored_def dirs_above_def)
      with get(2) [of q] prefix_length_less [OF s] len show ?thesis by auto
    qed
  qed
qed

lemma object_put_inv:
  assumes inv: "store_inv E r S fs" and put: "object_put E r b fs fs'" and b: "b \<in> S"
  shows "store_inv E r S fs'"
proof -
  note inv' = store_invD [OF inv]
  have "fs_get fs' q = Some DirNode" if q: "prefix q (temp_dir r)" for q
  proof -
    have "\<not> prefix (loose_root r) q"
    proof
      assume "prefix (loose_root r) q"
      then have "prefix (loose_root r) (temp_dir r)" using q by (rule prefix_order.trans)
      then show False using loose_not_temp(1) [of r "[]"] by simp
    qed
    with object_put_get(3) [OF inv put] inv'(5) q show ?thesis by (simp add: dirs_to_def)
  qed
  then show ?thesis
    using inv' put object_put_slot [OF inv put b]
    by (simp add: store_inv_def dirs_to_def object_put_def Let_def)
qed

text \<open>The objects of a list of contents are in the store.\<close>

definition objects_stored :: "env \<Rightarrow> repository \<Rightarrow> bytes set \<Rightarrow> fs \<Rightarrow> bool" where
  "objects_stored E r B fs \<longleftrightarrow> (\<forall>b \<in> B. object_stored fs (loose_object_path E r (e_sha1 E b)) b)"

lemma write_loose_object_ok:
  assumes "store_inv E r S fs" "b \<in> S" "objects_stored E r B fs" "B \<subseteq> S"
  shows "\<exists>fs'. write_loose_object E r b (e_sha1 E b) fs = (Inr (), fs') \<and> store_inv E r S fs' \<and>
    objects_stored E r (insert b B) fs' \<and> only_loose r fs fs'"
proof -
  obtain fs' where fs': "write_loose_object E r b (e_sha1 E b) fs = (Inr (), fs')" "object_put E r b fs fs'"
    using write_object_put [OF assms(1,2)] by blast
  have "objects_stored E r (insert b B) fs'"
    using object_put_stored [OF assms(1,2) fs'(2)] object_put_keeps [OF assms(1) fs'(2) assms(2)] assms(3,4)
    by (auto simp: objects_stored_def)
  with fs'(1) object_put_inv [OF assms(1) fs'(2) assms(2)] object_put_get(3) [OF assms(1) fs'(2)]
  show ?thesis by (auto simp: only_loose_def)
qed

subsection \<open>Reading the working directory\<close>

text \<open>The bytes that stand for a file or link, and a source that can be read.\<close>

fun node_bytes :: "node \<Rightarrow> bytes" where
  "node_bytes (FileNode b m) = b"
| "node_bytes (LinkNode t) = fst (encode_target (UnixNative t))"
| "node_bytes DirNode = []"

fun storable :: "node \<Rightarrow> bool" where
  "storable (FileNode b m) = (and m owner_read \<noteq> 0)"
| "storable (LinkNode t) = (t \<noteq> [] \<and> CHR 0x00 \<notin> set t)"
| "storable DirNode = False"

definition source_ok :: "repository \<Rightarrow> fs \<Rightarrow> path \<Rightarrow> node \<Rightarrow> bool" where
  "source_ok r fs p n \<longleftrightarrow> no_parent_refs p \<and> dirs_above fs p \<and> fs_get fs p = Some n \<and> storable n \<and>
     \<not> prefix (rp_data_dir r) p"

fun metadata_for :: "node \<Rightarrow> entry_metadata \<Rightarrow> bool" where
  "metadata_for (FileNode b m) md = (md = Regular (or m regular_type))"
| "metadata_for (LinkNode t) md = (\<exists>kind. md = Symlink (snd (encode_target (UnixNative t))) kind)"
| "metadata_for DirNode md = False"

definition entry_for :: "env \<Rightarrow> pack_path \<Rightarrow> node \<Rightarrow> file_entry \<Rightarrow> bool" where
  "entry_for E p n e \<longleftrightarrow> fe_path e = p \<and> fe_checksum e = e_sha1 E (node_bytes n) \<and>
     fe_object e = loose_metadata (node_bytes n) \<and> metadata_for n (fe_metadata e)"

lemma source_ok_only_loose:
  assumes "source_ok r fs p n" "only_loose r fs fs'"
  shows "source_ok r fs' p n"
proof -
  have "fs_get fs' q = fs_get fs q" if "prefix q p" for q
  proof -
    have "\<not> prefix (loose_root r) q"
    proof
      assume "prefix (loose_root r) q"
      then have "prefix (rp_data_dir r) q" by (auto simp: loose_root_def dest: append_prefixD)
      with that assms(1) show False by (auto simp: source_ok_def dest: prefix_order.trans)
    qed
    with assms(2) show ?thesis by (simp add: only_loose_def)
  qed
  with assms(1) show ?thesis by (auto simp: source_ok_def dirs_above_def strict_prefix_def)
qed

lemma source_ok_reads:
  assumes "source_ok r fs p n"
  shows "symlink_metadata fs p = Inr n"
    and "n = FileNode b m \<Longrightarrow> fs_read fs p = Inr b \<and> metadata fs p = Inr n"
    and "n = LinkNode t \<Longrightarrow> read_link fs p = Inr t"
proof -
  show s: "symlink_metadata fs p = Inr n"
    using assms symlink_metadata_plain [of p fs] by (simp add: source_ok_def)
  then show "read_link fs p = Inr t" if "n = LinkNode t" using that by (simp add: read_link_def)
  show "fs_read fs p = Inr b \<and> metadata fs p = Inr n" if "n = FileNode b m"
    using assms that metadata_plain [of p fs n] by (auto simp: source_ok_def fs_read_def)
qed

lemma store_file_ok:
  assumes inv: "store_inv E r S fs" and objs: "objects_stored E r B fs" "B \<subseteq> S"
    and src: "source_ok r fs (rp_path r @ fp) n" and n: "node_bytes n \<in> S"
  shows "\<exists>fs' e. store_file E r (fp, p) fs = (Inr e, fs') \<and> entry_for E p n e \<and> store_inv E r S fs' \<and>
    objects_stored E r (insert (node_bytes n) B) fs' \<and> only_loose r fs fs'"
proof -
  obtain fs' where w: "write_loose_object E r (node_bytes n) (e_sha1 E (node_bytes n)) fs = (Inr (), fs')"
      "store_inv E r S fs'" "objects_stored E r (insert (node_bytes n) B) fs'" "only_loose r fs fs'"
    using write_loose_object_ok [OF inv n objs] by blast
  note rd = source_ok_reads [OF src]
  have "\<exists>e. store_file E r (fp, p) fs = (Inr e, fs') \<and> entry_for E p n e"
  proof (cases n)
    case (FileNode b m)
    then show ?thesis
      using rd(1,2) w(1)
      by (simp add: store_file_def Let_def query_def store_regular_def andThen_def ret_def entry_for_def
          loose_entry_def file_mode_def)
  next
    case (LinkNode t)
    obtain buf enc where e: "encode_target (UnixNative t) = (buf, enc)" by fastforce
    with LinkNode show ?thesis
      using rd(1) rd(3) [OF LinkNode] w(1)
      by (simp add: store_file_def Let_def query_def store_link_def andThen_def ret_def entry_for_def
          loose_entry_def)
  next
    case DirNode
    with src show ?thesis by (simp add: source_ok_def)
  qed
  with w(2-4) show ?thesis by blast
qed

lemma store_files_ok:
  "store_inv E r S fs \<Longrightarrow> objects_stored E r B fs \<Longrightarrow> B \<subseteq> S \<Longrightarrow>
   (\<And>fp p. (fp, p) \<in> set files \<Longrightarrow> source_ok r fs (rp_path r @ fp) (nd fp) \<and> node_bytes (nd fp) \<in> S) \<Longrightarrow>
   \<exists>fs' es. run_all (store_file E r) files fs = (Inr es, fs') \<and>
     list_all2 (\<lambda>(fp, p) e. entry_for E p (nd fp) e) files es \<and> store_inv E r S fs' \<and>
     objects_stored E r ((\<lambda>(fp, p). node_bytes (nd fp)) ` set files \<union> B) fs' \<and> only_loose r fs fs'"
proof (induction files arbitrary: fs B)
  case Nil
  then show ?case by simp
next
  case (Cons f files)
  obtain fp p where f: "f = (fp, p)" by (cases f)
  have src: "source_ok r fs (rp_path r @ fp) (nd fp)" "node_bytes (nd fp) \<in> S"
    using Cons.prems(4) [of fp p] f by auto
  obtain fs1 e where s: "store_file E r (fp, p) fs = (Inr e, fs1)" "entry_for E p (nd fp) e" "store_inv E r S fs1"
      "objects_stored E r (insert (node_bytes (nd fp)) B) fs1" "only_loose r fs fs1"
    using store_file_ok [OF Cons.prems(1-3) src] by blast
  have "insert (node_bytes (nd fp)) B \<subseteq> S" using src(2) Cons.prems(3) by simp
  moreover have "source_ok r fs1 (rp_path r @ fp') (nd fp') \<and> node_bytes (nd fp') \<in> S"
    if "(fp', p') \<in> set files" for fp' p'
    using Cons.prems(4) [of fp' p'] that source_ok_only_loose [OF _ s(5)] by auto
  ultimately obtain fs2 es where i: "run_all (store_file E r) files fs1 = (Inr es, fs2)"
      "list_all2 (\<lambda>(fp, p) e. entry_for E p (nd fp) e) files es" "store_inv E r S fs2"
      "objects_stored E r ((\<lambda>(fp, p). node_bytes (nd fp)) ` set files \<union> insert (node_bytes (nd fp)) B) fs2"
      "only_loose r fs1 fs2"
    using Cons.IH [OF s(3,4)] by blast
  have "(\<lambda>(fp, p). node_bytes (nd fp)) ` set files \<union> insert (node_bytes (nd fp)) B =
      (\<lambda>(fp, p). node_bytes (nd fp)) ` set (f # files) \<union> B" by (simp add: f)
  with f s(1,2) i only_loose_trans [OF s(5) i(5)] show ?case by auto
qed

end
