(* ===== verification/StoredIndex.thy ===== *)
theory StoredIndex
  imports IndexWire SnapshotIdentity
begin

text \<open>
  The index of one new snapshot: it lists exactly the entries pushed, with their object metadata,
  also after it is written and loaded.
\<close>

text \<open>The table holds the object metadata that a function of the checksum gives.\<close>

definition table_by :: "(checksum \<Rightarrow> object_metadata) \<Rightarrow> pack_index \<Rightarrow> bool" where
  "table_by f idx \<longleftrightarrow>
     (\<forall>h c. pool_lookup (object_pool idx) h = Some c \<longrightarrow> map_of (object_table idx) h = Some (f c))"

lemma table_by_insert:
  assumes wf: "index_tables_wf idx" and room: "0 < index_room idx" and t: "table_by f idx"
    and e: "f (fe_checksum e) = fe_object e"
  shows "table_by f (snd (entry_to_handle idx e))"
proof -
  let ?p = "object_pool idx" and ?h = "fst (get_or_insert (object_pool idx) (fe_checksum e))"
  have pw: "pool_wf ?p" and len: "length (pool_entries ?p) < 2 ^ 32"
    using wf room by (auto simp: index_tables_wf_def index_room_def pool_room_def)
  have ins: "pool_lookup (snd (get_or_insert ?p (fe_checksum e))) ?h = Some (fe_checksum e)"
    by (rule pool_lookup_inserted [OF pw len])
  have tab: "map_of (bt_insert ?h (fe_object e) (object_table idx)) = (map_of (object_table idx))(?h \<mapsto> fe_object e)"
    by (rule map_of_bt_insert [OF table_sorted [OF wf]])
  have "map_of (object_table (snd (entry_to_handle idx e))) h = Some (f c)"
    if "pool_lookup (object_pool (snd (entry_to_handle idx e))) h = Some c" for h c
  proof (cases "h = ?h")
    case True
    with that ins have "c = fe_checksum e" by (simp add: entry_to_handle_simps)
    with True e show ?thesis by (simp only: entry_to_handle_simps tab fun_upd_same)
  next
    case False
    have "pool_lookup ?p h = Some c"
    proof (cases rule: get_or_insert_cases [OF pw len, of "fe_checksum e"])
      case 1
      with that show ?thesis by (simp add: entry_to_handle_simps)
    next
      case 2
      with False have "unat h \<noteq> length (pool_entries ?p)"
        by (auto dest: arg_cong [where f = "of_nat :: nat \<Rightarrow> handle"])
      with that 2 show ?thesis
        by (auto simp: entry_to_handle_simps pool_lookup_def nth_append split: if_splits)
    qed
    with t False show ?thesis by (simp add: entry_to_handle_simps tab table_by_def)
  qed
  then show ?thesis by (simp add: table_by_def)
qed

lemma table_by_intern_all:
  "index_tables_wf idx \<Longrightarrow> length es \<le> index_room idx \<Longrightarrow> table_by f idx \<Longrightarrow>
     \<forall>e \<in> set es. f (fe_checksum e) = fe_object e \<Longrightarrow> table_by f (snd (intern_all entry_to_handle idx es))"
proof (induction es arbitrary: idx)
  case Nil
  then show ?case by simp
next
  case (Cons e es)
  let ?idx = "snd (entry_to_handle idx e)"
  have room: "0 < index_room idx" using Cons.prems(2) by simp
  have "table_by f ?idx" using table_by_insert [OF Cons.prems(1) room Cons.prems(3)] Cons.prems(4) by simp
  moreover have "length es \<le> index_room ?idx"
    using index_room_entry_to_handle [OF Cons.prems(1), of e] Cons.prems(2) by simp
  ultimately have "table_by f (snd (intern_all entry_to_handle ?idx es))"
    using index_tables_wf_entry_to_handle [OF Cons.prems(1) room] Cons.prems(4) by (intro Cons.IH) auto
  then show ?case by (simp add: case_prod_unfold Let_def)
qed

lemma paths_intern_all:
  "set (pool_entries (path_pool (snd (intern_all entry_to_handle idx es)))) \<subseteq>
     set (pool_entries (path_pool idx)) \<union> fe_path ` set es"
proof (induction es arbitrary: idx)
  case Nil
  then show ?case by simp
next
  case (Cons e es)
  have "set (pool_entries (path_pool (snd (entry_to_handle idx e)))) \<subseteq>
      insert (fe_path e) (set (pool_entries (path_pool idx)))"
    unfolding entry_to_handle_simps by (rule set_get_or_insert)
  with Cons.IH [of "snd (entry_to_handle idx e)"] show ?case
    by (auto simp: case_prod_unfold Let_def)
qed

lemma new_index_room: "index_room index_new = 2 ^ 32"
  by (simp add: index_room_def pool_room_def index_new_def)

lemma table_by_new: "table_by f index_new"
  by (simp add: table_by_def index_new_def pool_new_def pool_lookup_def)

text \<open>The index of a single snapshot.\<close>

definition single_index :: "bytes \<Rightarrow> file_entry list \<Rightarrow> pack_index \<Rightarrow> bool" where
  "single_index tag es idx \<longleftrightarrow> index_wf idx \<and> snapshots_of idx = [(tag, entry_content ` set es)] \<and>
     (\<forall>f. (\<forall>e \<in> set es. f (fe_checksum e) = fe_object e) \<longrightarrow> table_by f idx) \<and>
     set (pool_entries (path_pool idx)) \<subseteq> fe_path ` set es"

lemma push_single:
  assumes "length es \<le> 2 ^ 32"
  shows "\<exists>idx. push_snapshot index_new tag es = Inr idx \<and> single_index tag es idx"
proof -
  have room: "length es \<le> index_room index_new" using assms by (simp add: new_index_room)
  have tags: "tag \<notin> set (snapshot_tags index_new)" by (simp add: index_new_def)
  note new = index_wf_new
  obtain idx where idx: "push_snapshot index_new tag es = Inr idx" "index_wf idx"
      "snapshots_of idx = snapshots_of index_new @ [(tag, entry_content ` set es)]"
    using push_snapshot_correct [OF _ _ room tags] new by blast
  let ?i = "snd (intern_all entry_to_handle index_new es)"
  have eq: "object_pool idx = object_pool ?i" "object_table idx = object_table ?i" "path_pool idx = path_pool ?i"
    using idx(1) tags by (auto simp: push_snapshot_def Let_def case_prod_unfold result_simps)
  have t: "index_tables_wf index_new" using new by (simp add: index_wf_def)
  have "table_by f idx" if "\<forall>e \<in> set es. f (fe_checksum e) = fe_object e" for f
    using table_by_intern_all [OF t room table_by_new that] by (simp add: table_by_def eq)
  moreover have "set (pool_entries (path_pool idx)) \<subseteq> fe_path ` set es"
    using paths_intern_all [of index_new es] by (simp add: eq index_new_def)
  ultimately have "single_index tag es idx" using idx(2,3) new by (simp add: single_index_def)
  with idx(1) show ?thesis by blast
qed

lemma single_index_loaded: "single_index tag es (idx\<lparr>current := c\<rparr>) \<longleftrightarrow> single_index tag es idx"
proof -
  have h: "handle_content (idx\<lparr>current := c\<rparr>) = handle_content idx"
    by (simp add: fun_eq_iff handle_content_def)
  then have "contents_of (idx\<lparr>current := c\<rparr>) = contents_of idx" "handles_valid (idx\<lparr>current := c\<rparr>) = handles_valid idx"
    by (simp_all add: fun_eq_iff contents_of_def handles_valid_def)
  then show ?thesis
    by (simp add: single_index_def index_wf_def snapshots_of_def table_by_def index_tables_wf_def)
qed

lemma entry_equality: "entry_content e = entry_content e' \<Longrightarrow> fe_object e = fe_object e' \<Longrightarrow> e = (e' :: file_entry)"
  by (simp add: entry_content_def)

text \<open>Its snapshot resolves to exactly the entries pushed.\<close>

lemma single_index_entries:
  assumes single: "single_index tag es idx" and f: "\<forall>e \<in> set es. f (fe_checksum e) = fe_object e"
  shows "\<exists>hs es'. resolve_snapshot idx tag = (Inr (Some hs) :: pack_error failure + _) \<and>
    entries_from_handles idx hs = Inr es' \<and> distinct (map entry_content es') \<and> set es' = set es"
proof -
  have wf: "index_wf idx" and mo: "map_of (snapshots_of idx) tag = Some (entry_content ` set es)"
    and t: "table_by f idx"
    using single f by (auto simp: single_index_def)
  obtain hs es' where r: "resolve_snapshot idx tag = (Inr (Some hs) :: pack_error failure + _)"
      "entries_from_handles idx hs = Inr es'" "distinct (map entry_content es')"
      "entry_content ` set es' = entry_content ` set es"
    using resolve_snapshot_correct [OF wf, of tag] mo by auto
  have obj: "fe_object e = f (fe_checksum e)" if "e \<in> set es'" for e
  proof -
    from r(2) that obtain h where "handle_to_entry idx h = Inr e"
      by (auto simp: entries_from_handles_def collect_Inr_iff list_all2_conv_all_nth in_set_conv_nth)
    then have "pool_lookup (object_pool idx) (fh_object h) = Some (fe_checksum e)"
      "map_of (object_table idx) (fh_object h) = Some (fe_object e)"
      by (auto simp: handle_to_entry_def result_simps)
    with t show ?thesis by (auto simp: table_by_def)
  qed
  have same: "e = e'" if "e \<in> set es'" "e' \<in> set es" "entry_content e = entry_content e'" for e e'
  proof (rule entry_equality [OF that(3)])
    have "fe_checksum e = fe_checksum e'" using that(3) by (simp add: entry_content_def)
    with obj [OF that(1)] f that(2) show "fe_object e = fe_object e'" by simp
  qed
  have "set es' = set es"
  proof (intro equalityI subsetI)
    fix e assume e: "e \<in> set es'"
    then have "entry_content e \<in> entry_content ` set es" using r(4) by blast
    then obtain e' where "e' \<in> set es" "entry_content e = entry_content e'" by (rule imageE)
    with same [OF e] show "e \<in> set es" by metis
  next
    fix e' assume e': "e' \<in> set es"
    then have "entry_content e' \<in> entry_content ` set es'" using r(4) by blast
    then obtain e where "e \<in> set es'" "entry_content e' = entry_content e" by (rule imageE)
    with same [of e e'] e' show "e' \<in> set es'" by metis
  qed
  with r(1-3) show ?thesis by blast
qed

text \<open>Written and parsed again.\<close>

lemma single_index_parsed:
  assumes "codec_ok C" "single_index tag es idx" "\<forall>e \<in> set es. pack_path_ok (fe_path e)"
  shows "\<exists>idx'. parse C (write_index C idx) = Inr idx' \<and> single_index tag es idx'"
proof -
  have "index_tables_wf idx" "\<forall>p \<in> set (pool_entries (path_pool idx)). pack_path_ok p"
    using assms(2,3) by (auto simp: single_index_def index_wf_def)
  from parse_write_index [OF assms(1) this] assms(2) show ?thesis by (simp add: single_index_loaded)
qed

end
