(* ===== verification/StoreSnapshot.thy ===== *)
theory StoreSnapshot
  imports StoreFacts StoredIndex
begin

text \<open>
  Storing a snapshot as a whole: the reservation of the index file, the objects, the index and
  HEAD.
\<close>

subsection \<open>The path of the index\<close>

lemma valid_tag_parts:
  assumes "snapshot_tag_valid cat tag"
  shows "\<forall>c \<in> set (split_on (CHR ''/'') tag). c \<noteq> [] \<and> c \<noteq> ''.'' \<and> c \<noteq> ''..''"
    and "target_components tag = split_on (CHR ''/'') tag" and "link_start p tag = p"
proof -
  have "check_tag_components cat (split_on (CHR ''/'') tag)"
    using assms by (simp add: snapshot_tag_valid_def split: if_splits)
  then show parts: "\<forall>c \<in> set (split_on (CHR ''/'') tag). c \<noteq> [] \<and> c \<noteq> ''.'' \<and> c \<noteq> ''..''"
    using check_tag_components_all by blast
  then show "target_components tag = split_on (CHR ''/'') tag"
    by (simp add: target_components_def)
  have "hd tag \<noteq> CHR ''/''" if "tag \<noteq> []"
  proof
    assume "hd tag = CHR ''/''"
    with that have "[] \<in> set (split_on (CHR ''/'') tag)" by (cases tag) auto
    with parts show False by blast
  qed
  then show "link_start p tag = p" by (auto simp: link_start_def)
qed

lemma index_path_parts:
  assumes "snapshot_tag_valid (e_cat E) tag" "no_parent_refs (rp_data_dir r)"
  obtains cs name where "snapshot_index_path r tag = (packs_root r @ loose_name # cs) @ [name]"
    "no_parent_refs (packs_root r @ loose_name # cs)" "name \<noteq> ''..''"
proof -
  let ?cs = "split_on (CHR ''/'') tag"
  note tag = valid_tag_parts [OF assms(1)]
  have "snapshot_index_path r tag =
      (packs_root r @ loose_name # butlast ?cs) @ [last ?cs @ dot_pack_index_extension]"
    using tag(2,3) by (simp add: snapshot_index_path_def append_path_suffix_def path_push_def butlast_append)
  moreover have "no_parent_refs (packs_root r @ loose_name # butlast ?cs)"
    using assms(2) tag(1)
    by (auto simp: no_parent_refs_def packs_root_def packs_name_def loose_name_def dest: in_set_butlastD)
  moreover have "last ?cs @ dot_pack_index_extension \<noteq> ''..''"
    by (simp add: dot_pack_index_extension_def append_eq_Cons_conv)
  ultimately show thesis by (rule that)
qed

lemma loose_pack_index_path:
  assumes "snapshot_tag_valid cat tag"
  shows "get_pack_index_path r (Pack (loose_prefix @ tag)) = snapshot_index_path r tag"
proof -
  note tag = valid_tag_parts [OF assms]
  have "split_on (CHR ''/'') (loose_prefix @ tag) = ''loose'' # split_on (CHR ''/'') tag"
    by (simp add: loose_prefix_def)
  then have "target_components (loose_prefix @ tag) = ''loose'' # split_on (CHR ''/'') tag"
    using tag(1) by (simp add: target_components_def)
  moreover have "link_start p (loose_prefix @ tag) = p" for p by (simp add: link_start_def loose_prefix_def)
  ultimately show ?thesis
    using tag(2,3)
    by (simp add: get_pack_index_path_def snapshot_index_path_def path_push_def loose_name_def)
qed

text \<open>The packs, the loose objects and the temporary files are in different directories.\<close>

lemma packs_not_loose:
  "\<not> prefix (loose_root r) (packs_root r @ q)" "\<not> prefix (temp_dir r) (packs_root r @ q)"
  "\<not> prefix (loose_root r) (rp_data_dir r)" "\<not> prefix (temp_dir r) (rp_data_dir r)"
  by (auto simp: packs_root_def packs_name_def loose_root_def loose_name_def temp_dir_def temp_name_def prefix_def)

lemma prefix_of_packs:
  assumes "prefix q (packs_root r @ x)"
  shows "\<not> prefix (loose_root r) q" "\<not> prefix (temp_dir r) q"
  using assms packs_not_loose(1,2) [of r] by (blast dest: prefix_order.trans)+

subsection \<open>The reservation\<close>

record index_place =
  ip_dir :: path
  ip_name :: bytes
  ip_rnd :: bytes

definition ip_path :: "index_place \<Rightarrow> path" where
  "ip_path i = ip_dir i @ [ip_name i]"

text \<open>A free place below the packs directory.\<close>

definition place_free :: "env \<Rightarrow> repository \<Rightarrow> fs \<Rightarrow> index_place \<Rightarrow> bool" where
  "place_free E r fs i \<longleftrightarrow> fs_wf fs \<and> no_parent_refs (ip_dir i) \<and> ip_name i \<noteq> ''..'' \<and>
     (\<exists>cs. ip_dir i = packs_root r @ cs) \<and> dirs_or_missing fs (ip_dir i) \<and>
     fs_get fs (ip_path i) = None \<and> fs_get fs (acf_temp_path (ip_dir i) (ip_rnd i)) = None \<and>
     \<not> e_held E (ip_path i) \<and> e_tmp E (ip_path i) = ip_rnd i \<and> ip_name i \<noteq> ''.elfshakertmp_'' @ ip_rnd i"

text \<open>The file system after the reservation.\<close>

definition reserved :: "index_place \<Rightarrow> fs \<Rightarrow> fs \<Rightarrow> bool" where
  "reserved i fs fs' \<longleftrightarrow> fs_wf fs' \<and>
     (\<forall>q. fs_get fs' q =
        (if q = ip_path i \<or> q = acf_temp_path (ip_dir i) (ip_rnd i) then Some (FileNode [] created_mode)
         else if prefix q (ip_dir i) then Some DirNode else fs_get fs q))"

lemma reserve_place:
  assumes "place_free E r fs i"
  shows "\<exists>fs1 fs2. ensure_dir (ip_dir i) fs = (Inr (), fs1) \<and> metadata fs1 (ip_path i) = Inl NotFound \<and>
    reserve_output E False (ip_path i) fs1 = Some (Inr (Some (acf_handle (ip_dir i) (ip_name i) (ip_rnd i))), fs2) \<and>
    reserved i fs fs2"
proof -
  let ?d = "ip_dir i" and ?n = "ip_name i" and ?t = "acf_temp_path (ip_dir i) (ip_rnd i)"
  have a: "fs_wf fs" "no_parent_refs ?d" "?n \<noteq> ''..''" "dirs_or_missing fs ?d" "fs_get fs (?d @ [?n]) = None"
    "fs_get fs ?t = None" "\<not> e_held E (?d @ [?n])" "e_tmp E (?d @ [?n]) = ip_rnd i"
    "?n \<noteq> ''.elfshakertmp_'' @ ip_rnd i"
    using assms by (auto simp: place_free_def ip_path_def)
  obtain fs1 where fs1: "create_dir_all ?d fs = (Inr (), fs1)" "fs_wf fs1"
      "\<forall>q. fs_get fs1 q = (if prefix q ?d then Some DirNode else fs_get fs q)"
    using create_dir_all_ok [OF a(1,2,4)] by blast
  have p1: "dirs_to fs1 ?d" "fs_get fs1 (?d @ [?n]) = None" "fs_get fs1 ?t = None"
    using parent_dirs [OF fs1(3)] a(5,6) by (simp_all add: acf_temp_path_def)
  let ?f = "fs_put (?d @ [?n]) (FileNode [] created_mode) fs1"
  let ?fs2 = "fs_put ?t (FileNode [] created_mode) ?f"
  have new: "acf_new (e_held E) (ip_rnd i) (?d @ [?n]) fs1 = Some (Inr (acf_handle ?d ?n (ip_rnd i)), ?fs2)"
    using acf_new_absent [of fs1 ?d ?n "ip_rnd i" "e_held E"] p1 a(2,3,7,9) by blast
  have "resolve_target fs1 (?d @ [?n]) = Inr (?d @ [?n])"
    using p1(2) by (intro open_plain p1 a) simp
  then have md: "metadata fs1 (?d @ [?n]) = Inl NotFound" using p1(2) by (simp add: metadata_def)
  have wf1: "fs_wf ?f" by (rule fs_wf_same_domain [OF fs1(2) p1(1,2)]) simp
  have to1: "dirs_to ?f ?d" using p1(1) by (auto simp: dirs_to_def fs_get_put dest: prefix_length_le)
  have "fs_get ?f ?t = None" using p1(3) a(9) by (simp add: fs_get_put acf_temp_path_def)
  then have "fs_wf ?fs2"
    using fs_wf_same_domain [OF wf1 to1, of "''.elfshakertmp_'' @ ip_rnd i"] by (simp add: acf_temp_path_def)
  moreover have "fs_get ?fs2 q = (if q = ?d @ [?n] \<or> q = ?t then Some (FileNode [] created_mode)
      else if prefix q ?d then Some DirNode else fs_get fs q)" for q
    using fs1(3) by (simp add: fs_get_put acf_temp_path_def)
  ultimately have "reserved i fs ?fs2" by (simp add: reserved_def ip_path_def)
  with fs1(1) md new a(8) show ?thesis
    by (intro exI [of _ fs1] exI [of _ ?fs2]) (simp add: ensure_dir_def reserve_output_def ip_path_def)
qed

text \<open>What the reservation leaves alone.\<close>

lemma place_freeD:
  assumes "place_free E r fs i"
  obtains cs where "fs_wf fs" "no_parent_refs (ip_dir i)" "ip_name i \<noteq> ''..''" "ip_dir i = packs_root r @ cs"
    "dirs_or_missing fs (ip_dir i)" "ip_name i \<noteq> ''.elfshakertmp_'' @ ip_rnd i"
  using assms by (auto simp: place_free_def)

lemma reserved_get:
  assumes "place_free E r fs i" "reserved i fs fs'"
  shows "prefix (loose_root r) q \<or> prefix (temp_dir r) q \<Longrightarrow> fs_get fs' q = fs_get fs q"
    and "prefix q (ip_dir i) \<Longrightarrow> fs_get fs' q = Some DirNode"
    and "q \<noteq> ip_path i \<Longrightarrow> q \<noteq> acf_temp_path (ip_dir i) (ip_rnd i) \<Longrightarrow> \<not> prefix q (ip_dir i) \<Longrightarrow>
      fs_get fs' q = fs_get fs q"
proof -
  obtain cs where cs: "ip_dir i = packs_root r @ cs" using assms(1) by (rule place_freeD)
  have get: "fs_get fs' q = (if q = ip_path i \<or> q = acf_temp_path (ip_dir i) (ip_rnd i) then Some (FileNode [] created_mode)
         else if prefix q (ip_dir i) then Some DirNode else fs_get fs q)" for q
    using assms(2) by (simp add: reserved_def)
  have long: "\<not> prefix (ip_path i) (ip_dir i)" "\<not> prefix (acf_temp_path (ip_dir i) (ip_rnd i)) (ip_dir i)"
    by (auto simp: ip_path_def acf_temp_path_def dest: prefix_length_le)
  show "fs_get fs' q = Some DirNode" if "prefix q (ip_dir i)"
    using get [of q] that long by auto
  show "fs_get fs' q = fs_get fs q" if "q \<noteq> ip_path i" "q \<noteq> acf_temp_path (ip_dir i) (ip_rnd i)" "\<not> prefix q (ip_dir i)"
    using get [of q] that by simp
  show "fs_get fs' q = fs_get fs q" if q: "prefix (loose_root r) q \<or> prefix (temp_dir r) q"
  proof -
    have "\<not> prefix q (ip_dir i)" using q prefix_of_packs [of q r cs] cs prefix_order.trans by metis
    moreover have "q \<noteq> ip_path i" "q \<noteq> acf_temp_path (ip_dir i) (ip_rnd i)"
      using q packs_not_loose(1,2) [of r] by (auto simp: ip_path_def acf_temp_path_def cs)
    ultimately show ?thesis using get by simp
  qed
qed

subsection \<open>The snapshot\<close>

definition file_contents :: "(path \<Rightarrow> node) \<Rightarrow> (path \<times> pack_path) list \<Rightarrow> bytes set" where
  "file_contents nd files = (\<lambda>(fp, p). node_bytes (nd fp)) ` set files"

definition sources_ok :: "repository \<Rightarrow> fs \<Rightarrow> (path \<Rightarrow> node) \<Rightarrow> (path \<times> pack_path) list \<Rightarrow> bool" where
  "sources_ok r fs nd files \<longleftrightarrow> (\<forall>(fp, p) \<in> set files. source_ok r fs (rp_path r @ fp) (nd fp) \<and> pack_path_ok p)"

definition store_ready ::
    "env \<Rightarrow> repository \<Rightarrow> fs \<Rightarrow> index_place \<Rightarrow> (path \<Rightarrow> node) \<Rightarrow> (path \<times> pack_path) list \<Rightarrow> bool" where
  "store_ready E r fs i nd files \<longleftrightarrow>
     place_free E r fs i \<and> crates_ok E \<and> codec_ok (e_codec E) \<and> inj_on (e_sha1 E) (file_contents nd files) \<and>
     no_parent_refs (rp_data_dir r) \<and>
     (fs_get fs (temp_dir r) = None \<or> fs_get fs (temp_dir r) = Some DirNode) \<and>
     (\<forall>b \<in> file_contents nd files. object_slot E r fs b) \<and> tmp_ok E r fs (head_path r) \<and>
     fs_get fs (head_path r) \<noteq> Some DirNode \<and> rp_lock r \<noteq> None \<and>
     sources_ok r fs nd files \<and> length files \<le> 2 ^ 32"

lemma store_readyD:
  assumes "store_ready E r fs i nd files"
  shows "place_free E r fs i" "crates_ok E" "codec_ok (e_codec E)" "inj_on (e_sha1 E) (file_contents nd files)"
    "no_parent_refs (rp_data_dir r)" "fs_get fs (temp_dir r) = None \<or> fs_get fs (temp_dir r) = Some DirNode"
    "\<And>b. b \<in> file_contents nd files \<Longrightarrow> object_slot E r fs b" "tmp_ok E r fs (head_path r)"
    "fs_get fs (head_path r) \<noteq> Some DirNode" "rp_lock r \<noteq> None" "sources_ok r fs nd files" "length files \<le> 2 ^ 32"
  using assms by (auto simp: store_ready_def)

text \<open>A step that only touches the directories, index and HEAD: what it keeps.\<close>

lemma object_slot_cong:
  assumes "object_slot E r fs b" "crates_ok E"
    and "\<And>q. prefix (loose_root r) q \<or> strict_prefix (temp_dir r) q \<Longrightarrow> fs_get fs' q = fs_get fs q"
  shows "object_slot E r fs' b"
proof -
  have "fs_get fs' (loose_object_path E r (e_sha1 E b)) = fs_get fs (loose_object_path E r (e_sha1 E b))"
    using assms(3) object_path_loose [OF assms(2)] by blast
  moreover have "fs_get fs' (temp_dir r @ [x]) = fs_get fs (temp_dir r @ [x])" for x
    using assms(3) by (simp add: strict_prefix_def)
  ultimately show ?thesis using assms(1,3) by (simp add: object_slot_def Let_def)
qed

text \<open>The state in which the objects are written: the index reserved, the temporary directory made.\<close>

definition prepared :: "repository \<Rightarrow> index_place \<Rightarrow> fs \<Rightarrow> fs \<Rightarrow> bool" where
  "prepared r i fs fs' \<longleftrightarrow> fs_wf fs' \<and>
     (\<forall>q. fs_get fs' q =
        (if q = ip_path i \<or> q = acf_temp_path (ip_dir i) (ip_rnd i) then Some (FileNode [] created_mode)
         else if prefix q (ip_dir i) \<or> q = temp_dir r then Some DirNode else fs_get fs q))"

lemma temp_not_index:
  assumes "ip_dir i = packs_root r @ cs"
  shows "temp_dir r \<noteq> ip_path i" "temp_dir r \<noteq> acf_temp_path (ip_dir i) (ip_rnd i)" "\<not> prefix (temp_dir r) (ip_dir i)"
  using assms packs_not_loose(2) [of r]
  by (auto simp: ip_path_def acf_temp_path_def) (metis append_assoc prefix_order.order_refl)+

lemma data_dir_below: "ip_dir i = packs_root r @ cs \<Longrightarrow> prefix q (rp_data_dir r) \<Longrightarrow> prefix q (ip_dir i)"
  by (simp add: packs_root_def prefix_prefix)

lemma prepare_store:
  assumes ready: "store_ready E r fs i nd files" and res: "reserved i fs fs1"
  shows "\<exists>fs2. ensure_dir (temp_dir r) fs1 = (Inr (), fs2) \<and> prepared r i fs fs2"
proof -
  note rd = store_readyD [OF ready]
  obtain cs where cs: "ip_dir i = packs_root r @ cs" using rd(1) by (rule place_freeD)
  note get = reserved_get [OF rd(1) res]
  have "data_dir_ok E r fs1"
    using res rd(5,6) get(1) [of "temp_dir r"] get(2) data_dir_below [OF cs]
    by (auto simp: data_dir_ok_def reserved_def dirs_to_def)
  then obtain fs2 where fs2: "ensure_dir (temp_dir r) fs1 = (Inr (), fs2)" "fs_wf fs2"
      "\<forall>q. fs_get fs2 q = (if q = temp_dir r then Some DirNode else fs_get fs1 q)"
    using temp_dir_ready by blast
  moreover have "prepared r i fs fs2"
    using fs2(2,3) res temp_not_index [OF cs] by (simp add: prepared_def reserved_def)
  ultimately show ?thesis by blast
qed

lemma prepared_get:
  assumes "place_free E r fs i" "prepared r i fs fs'"
  shows "prefix (loose_root r) q \<or> strict_prefix (temp_dir r) q \<Longrightarrow> fs_get fs' q = fs_get fs q"
    and "prefix q (ip_dir i) \<or> q = temp_dir r \<Longrightarrow> fs_get fs' q = Some DirNode"
    and "fs_get fs' (ip_path i) = Some (FileNode [] created_mode)"
    and "fs_get fs' (acf_temp_path (ip_dir i) (ip_rnd i)) = Some (FileNode [] created_mode)"
    and "\<not> prefix (rp_data_dir r) q \<Longrightarrow> fs_get fs' q = fs_get fs q \<or> fs_get fs q = None \<and> fs_get fs' q = Some DirNode"
proof -
  obtain cs where cs: "ip_dir i = packs_root r @ cs" and dm: "dirs_or_missing fs (ip_dir i)"
    using assms(1) by (rule place_freeD)
  have get: "fs_get fs' q = (if q = ip_path i \<or> q = acf_temp_path (ip_dir i) (ip_rnd i) then Some (FileNode [] created_mode)
         else if prefix q (ip_dir i) \<or> q = temp_dir r then Some DirNode else fs_get fs q)" for q
    using assms(2) by (simp add: prepared_def)
  have long: "\<not> prefix (ip_path i) (ip_dir i)" "\<not> prefix (acf_temp_path (ip_dir i) (ip_rnd i)) (ip_dir i)"
    by (auto simp: ip_path_def acf_temp_path_def dest: prefix_length_le)
  show "fs_get fs' q = Some DirNode" if "prefix q (ip_dir i) \<or> q = temp_dir r"
    using get [of q] that long temp_not_index [OF cs] by auto
  show "fs_get fs' (ip_path i) = Some (FileNode [] created_mode)"
    "fs_get fs' (acf_temp_path (ip_dir i) (ip_rnd i)) = Some (FileNode [] created_mode)"
    using get by simp_all
  show "fs_get fs' q = fs_get fs q" if q: "prefix (loose_root r) q \<or> strict_prefix (temp_dir r) q"
  proof -
    have q': "prefix (loose_root r) q \<or> prefix (temp_dir r) q" using q by (auto simp: strict_prefix_def)
    then have "\<not> prefix q (ip_dir i)" using prefix_of_packs [of q r cs] cs prefix_order.trans by metis
    moreover have "q \<noteq> ip_path i" "q \<noteq> acf_temp_path (ip_dir i) (ip_rnd i)"
      using q' packs_not_loose(1,2) [of r] by (auto simp: ip_path_def acf_temp_path_def cs)
    moreover have "q \<noteq> temp_dir r" using q loose_not_temp(1) [of r "[]"] by auto
    ultimately show ?thesis using get by simp
  qed
  show "fs_get fs' q = fs_get fs q \<or> fs_get fs q = None \<and> fs_get fs' q = Some DirNode" if q: "\<not> prefix (rp_data_dir r) q"
  proof -
    have "q \<noteq> ip_path i" "q \<noteq> acf_temp_path (ip_dir i) (ip_rnd i)" "q \<noteq> temp_dir r"
      using q by (auto simp: ip_path_def acf_temp_path_def cs packs_root_def temp_dir_def)
    then show ?thesis using get [of q] dm by (auto simp: dirs_or_missing_def)
  qed
qed

lemma prepared_store_inv:
  assumes ready: "store_ready E r fs i nd files" and prep: "prepared r i fs fs'"
  shows "store_inv E r (file_contents nd files) fs'"
proof -
  note rd = store_readyD [OF ready]
  obtain cs where cs: "ip_dir i = packs_root r @ cs" using rd(1) by (rule place_freeD)
  note get = prepared_get [OF rd(1) prep]
  have "object_slot E r fs' b" if "b \<in> file_contents nd files" for b
    using rd(7) [OF that] rd(2) get(1) by (rule object_slot_cong)
  moreover have "dirs_to fs' (temp_dir r)"
    using get(2) data_dir_below [OF cs] by (auto simp: dirs_to_def temp_dir_def prefix_snoc_iff)
  ultimately show ?thesis using rd prep by (simp add: store_inv_def prepared_def)
qed

lemma prepared_source:
  assumes free: "place_free E r fs i" and prep: "prepared r i fs fs'" and src: "source_ok r fs p n"
  shows "source_ok r fs' p n"
proof -
  have "fs_get fs' q = fs_get fs q" if "prefix q p" for q
  proof -
    have "\<not> prefix (rp_data_dir r) q" using that src by (auto simp: source_ok_def dest: prefix_order.trans)
    moreover have "fs_get fs q \<noteq> None" using that src by (cases "q = p") (auto simp: source_ok_def dirs_above_def strict_prefix_def)
    ultimately show ?thesis using prepared_get(5) [OF free prep, of q] by auto
  qed
  with src show ?thesis by (auto simp: source_ok_def dirs_above_def strict_prefix_def)
qed

text \<open>The whole: the snapshot's index, its objects and HEAD; nothing else outside the loose directory changes.\<close>

definition stored ::
    "env \<Rightarrow> repository \<Rightarrow> index_place \<Rightarrow> snapshot_id \<Rightarrow> pack_index \<Rightarrow> fs \<Rightarrow> fs \<Rightarrow> bool" where
  "stored E r i sid idx fs fs' \<longleftrightarrow> fs_wf fs' \<and>
     (\<forall>q. \<not> prefix (loose_root r) q \<longrightarrow> fs_get fs' q =
        (if q = ip_path i then Some (FileNode (write_index (e_codec E) idx) created_mode)
         else if q = head_path r then Some (FileNode (snapshot_id_display sid @ [CHR 0x0A]) created_mode)
         else if prefix q (ip_dir i) \<or> q = temp_dir r then Some DirNode else fs_get fs q))"

lemma write_index_nonempty: "write_index C idx \<noteq> []"
  by (simp add: write_index_def write_magic_def)

lemma head_not_index:
  assumes "ip_dir i = packs_root r @ cs"
  shows "head_path r \<noteq> ip_path i" "head_path r \<noteq> acf_temp_path (ip_dir i) (ip_rnd i)" "head_path r \<noteq> temp_dir r"
    "\<not> prefix (head_path r) (ip_dir i)" "\<not> prefix (loose_root r) (head_path r)"
    "temp_dir r @ [x] \<noteq> ip_path i" "temp_dir r @ [x] \<noteq> acf_temp_path (ip_dir i) (ip_rnd i)"
    "\<not> prefix (temp_dir r @ [x]) (ip_dir i)" "\<not> prefix (loose_root r) (temp_dir r @ [x])"
    "\<not> prefix (loose_root r) (ip_path i)" "\<not> prefix (loose_root r) (acf_temp_path (ip_dir i) (ip_rnd i))"
    "\<not> prefix (loose_root r) (temp_dir r)"
  using assms
  by (auto simp: head_path_def head_file_def ip_path_def acf_temp_path_def packs_root_def packs_name_def
      temp_dir_def temp_name_def loose_root_def loose_name_def prefix_def append_eq_Cons_conv)

lemma publish_index:
  assumes ready: "store_ready E r fs i nd files" and prep: "prepared r i fs fs2" and only: "only_loose r fs2 fs3"
    and wf: "fs_wf fs3" and dest: "snapshot_index_path r (sid_tag sid) = ip_path i"
  shows "\<exists>fs4. publish E r (Some (acf_handle (ip_dir i) (ip_name i) (ip_rnd i))) (write_index (e_codec E) idx) (ip_path i) fs3 =
      (Inr (), fs4) \<and> fs_wf fs4 \<and>
    (\<forall>q. fs_get fs4 q = (if q = ip_path i then Some (FileNode (write_index (e_codec E) idx) created_mode)
       else if q = acf_temp_path (ip_dir i) (ip_rnd i) then None else fs_get fs3 q))"
proof -
  note rd = store_readyD [OF ready]
  obtain cs where cs: "ip_dir i = packs_root r @ cs" "no_parent_refs (ip_dir i)" "ip_name i \<noteq> ''..''"
      "ip_name i \<noteq> ''.elfshakertmp_'' @ ip_rnd i"
    using rd(1) by (rule place_freeD)
  note get = prepared_get [OF rd(1) prep] and apart = head_not_index [OF cs(1)]
  have dirs: "dirs_to fs3 (ip_dir i)"
    using only get(2) prefix_of_packs(1) [of _ r cs] by (simp add: dirs_to_def only_loose_def cs(1))
  have temp: "fs_get fs3 (acf_temp_path (ip_dir i) (ip_rnd i)) = Some (FileNode [] created_mode)"
    using only get(4) apart(11) by (simp add: only_loose_def)
  have "fs_get fs3 (ip_path i) \<noteq> Some DirNode"
    using only get(3) apart(10) by (simp add: only_loose_def)
  then obtain fs4 where "commit_content (acf_handle (ip_dir i) (ip_name i) (ip_rnd i)) (write_index (e_codec E) idx, None) fs3 = (Inr (), fs4)"
      "fs_wf fs4" "\<forall>q. fs_get fs4 q = (if q = ip_dir i @ [ip_name i] then Some (FileNode (write_index (e_codec E) idx) created_mode)
       else if q = acf_temp_path (ip_dir i) (ip_rnd i) then None else fs_get fs3 q)"
    using commit_content_ok [OF wf dirs cs(2,3,4) temp _ write_index_nonempty] unfolding ip_path_def by blast
  then show ?thesis by (intro exI [of _ fs4]) (simp add: publish_def lift_err_def ip_path_def)
qed

lemma write_snapshot_ok:
  assumes ready: "store_ready E r fs i nd files" and res: "reserved i fs fs1"
    and dest: "snapshot_index_path r (sid_tag sid) = ip_path i"
  shows "\<exists>fs' es idx. write_snapshot E r sid files (Some (acf_handle (ip_dir i) (ip_name i) (ip_rnd i))) fs1 = (Inr (), fs') \<and>
    list_all2 (\<lambda>(fp, p) e. entry_for E p (nd fp) e) files es \<and> single_index (sid_tag sid) es idx \<and>
    stored E r i sid idx fs fs' \<and> objects_stored E r (file_contents nd files) fs'"
proof -
  note rd = store_readyD [OF ready]
  obtain cs where cs: "ip_dir i = packs_root r @ cs" using rd(1) by (rule place_freeD)
  note apart = head_not_index [OF cs]
  obtain fs2 where fs2: "ensure_dir (temp_dir r) fs1 = (Inr (), fs2)" "prepared r i fs fs2"
    using prepare_store [OF ready res] by blast
  have inv: "store_inv E r (file_contents nd files) fs2" by (rule prepared_store_inv [OF ready fs2(2)])
  have src: "source_ok r fs2 (rp_path r @ fp) (nd fp) \<and> node_bytes (nd fp) \<in> file_contents nd files"
    if "(fp, p) \<in> set files" for fp p
    using that rd(11) prepared_source [OF rd(1) fs2(2)] by (fastforce simp: sources_ok_def file_contents_def)
  obtain fs3 es where fs3: "run_all (store_file E r) files fs2 = (Inr es, fs3)"
      "list_all2 (\<lambda>(fp, p) e. entry_for E p (nd fp) e) files es" "store_inv E r (file_contents nd files) fs3"
      "objects_stored E r (file_contents nd files) fs3" "only_loose r fs2 fs3"
    using store_files_ok [OF inv, of "{}" files nd] src by (auto simp: objects_stored_def file_contents_def)
  have "length es \<le> 2 ^ 32" using fs3(2) rd(12) by (simp add: list_all2_lengthD [symmetric])
  then obtain idx where idx: "push_snapshot index_new (sid_tag sid) es = Inr idx" "single_index (sid_tag sid) es idx"
    using push_single by blast
  obtain fs4 where fs4: "publish E r (Some (acf_handle (ip_dir i) (ip_name i) (ip_rnd i))) (write_index (e_codec E) idx) (ip_path i) fs3 =
      (Inr (), fs4)" "fs_wf fs4"
      "\<forall>q. fs_get fs4 q = (if q = ip_path i then Some (FileNode (write_index (e_codec E) idx) created_mode)
       else if q = acf_temp_path (ip_dir i) (ip_rnd i) then None else fs_get fs3 q)"
    using publish_index [OF ready fs2(2) fs3(5) store_invD(3) [OF fs3(3)] dest] by blast
  have loose: "fs_get fs4 q = fs_get fs3 q" if "prefix (loose_root r) q" for q
    using fs4(3) that apart(10,11) by metis
  have outside: "fs_get fs4 q = (if q = ip_path i then Some (FileNode (write_index (e_codec E) idx) created_mode)
       else if prefix q (ip_dir i) \<or> q = temp_dir r then Some DirNode else fs_get fs q)"
    if "\<not> prefix (loose_root r) q" for q
  proof -
    have free: "fs_get fs (acf_temp_path (ip_dir i) (ip_rnd i)) = None" using rd(1) by (simp add: place_free_def)
    have "\<not> prefix (acf_temp_path (ip_dir i) (ip_rnd i)) (ip_dir i)" by (auto simp: acf_temp_path_def dest: prefix_length_le)
    with fs4(3) fs3(5) fs2(2) that free temp_not_index(2) [OF cs] show ?thesis
      by (auto simp: only_loose_def prepared_def)
  qed
  have dirs: "fs_get fs4 q = Some DirNode" if "prefix q (temp_dir r)" for q
  proof -
    have "q = temp_dir r \<or> prefix q (ip_dir i)"
      using that data_dir_below [OF cs] by (auto simp: temp_dir_def prefix_snoc_iff)
    moreover have "\<not> prefix (loose_root r) q" using that apart(12) prefix_order.trans by metis
    moreover have "q \<noteq> ip_path i"
      using that packs_not_loose prefix_of_packs(2) temp_not_index(1) [OF cs] calculation(1)
      by (auto simp: ip_path_def dest: prefix_length_le)
    ultimately show ?thesis using outside by auto
  qed
  have "data_dir_ok E r fs4"
    using fs4(2) rd(5) dirs by (auto simp: data_dir_ok_def dirs_to_def temp_dir_def)
  moreover have "tmp_ok E r fs4 (head_path r)"
    using rd(8) outside [of "temp_dir r @ [e_tmp E (head_path r)]"] apart(6,8,9) by (simp add: tmp_ok_def)
  moreover have "fs_get fs4 (head_path r) \<noteq> Some DirNode"
    using rd(9) outside [of "head_path r"] apart(1,3,4,5) by simp
  ultimately obtain fs5 where fs5: "update_head E r sid fs4 = (Inr (), fs5)" "fs_wf fs5"
      "\<forall>q. fs_get fs5 q = (if q = head_path r then Some (FileNode (snapshot_id_display sid @ [CHR 0x0A]) created_mode)
         else if q = temp_dir r then Some DirNode else fs_get fs4 q)"
    using update_head_ok [of E r fs4 sid] rd(10) by blast
  have "write_snapshot E r sid files (Some (acf_handle (ip_dir i) (ip_name i) (ip_rnd i))) fs1 = (Inr (), fs5)"
    using fs2(1) fs3(1) idx(1) fs4(1) fs5(1)
    by (simp add: write_snapshot_def andThen_def io_def lift_err_def liftr_def dest)
  moreover have "stored E r i sid idx fs fs5"
    using fs5(2,3) outside apart(1) temp_not_index(1) [OF cs] by (auto simp: stored_def)
  moreover have "objects_stored E r (file_contents nd files) fs5"
  proof -
    have "fs_get fs5 q = fs_get fs3 q" if q: "prefix q (loose_object_path E r (e_sha1 E b))"
        and o: "object_stored fs3 (loose_object_path E r (e_sha1 E b)) b" for q b
    proof (cases "prefix (loose_root r) q")
      case True
      then have "q \<noteq> head_path r" "q \<noteq> temp_dir r" using apart(5,12) by auto
      with True fs5(3) loose show ?thesis by simp
    next
      case False
      have "prefix q (rp_data_dir r)"
      proof -
        obtain a c d where "loose_object_path E r (e_sha1 E b) = (loose_root r @ [a, c]) @ [d]"
          using object_path_parts [OF rd(2)] by blast
        with q False show ?thesis using above_loose [of q r "[a, c, d]"] by simp
      qed
      then have "fs_get fs4 q = Some DirNode" "fs_get fs3 q = Some DirNode" "q \<noteq> head_path r" "q \<noteq> temp_dir r"
        using dirs [of q] store_invD(6) [OF fs3(3)] prefix_length_le [of q "rp_data_dir r"]
        by (auto simp: temp_dir_def head_path_def dirs_to_def)
      with fs5(3) show ?thesis by simp
    qed
    then show ?thesis
      using fs3(4) unfolding objects_stored_def by (metis object_stored_frame)
  qed
  ultimately show ?thesis using fs3(2) idx(2) by blast
qed

lemma store_locked_ok:
  assumes ready: "store_ready E r fs i nd files" and dest: "snapshot_index_path r (sid_tag sid) = ip_path i"
  shows "\<exists>fs' es idx. store_locked E r sid files False fs = Some (Inr (), fs') \<and>
    list_all2 (\<lambda>(fp, p) e. entry_for E p (nd fp) e) files es \<and> single_index (sid_tag sid) es idx \<and>
    stored E r i sid idx fs fs' \<and> objects_stored E r (file_contents nd files) fs'"
proof -
  have free: "place_free E r fs i" using ready by (simp add: store_ready_def)
  obtain fs1 fs2 where r: "ensure_dir (ip_dir i) fs = (Inr (), fs1)" "metadata fs1 (ip_path i) = Inl NotFound"
      "reserve_output E False (ip_path i) fs1 = Some (Inr (Some (acf_handle (ip_dir i) (ip_name i) (ip_rnd i))), fs2)"
      "reserved i fs fs2"
    using reserve_place [OF free] by blast
  have "butlast (ip_path i) = ip_dir i" by (simp add: ip_path_def)
  with r(1-3) have "store_locked E r sid files False fs =
      Some (write_snapshot E r sid files (Some (acf_handle (ip_dir i) (ip_name i) (ip_rnd i))) fs2)"
    by (simp add: store_locked_def Let_def dest andThen_def io_def lift_err_def query_def check_tag_collision_def)
  with write_snapshot_ok [OF ready r(4) dest] show ?thesis by auto
qed

end
