(* ===== verification/StoreExtract.thy ===== *)
theory StoreExtract
  imports StoreSnapshot
begin

text \<open>
  Storing and extracting: the snapshot that was stored is found in its index, and extracting it
  into an empty directory restores every file and link.
\<close>

subsection \<open>The index reads back\<close>

lemma stored_index_read:
  assumes ready: "store_ready E r fs i nd files" and st: "stored E r i sid idx fs fs'"
  shows "fs_read fs' (ip_path i) = Inr (write_index (e_codec E) idx)"
    and "metadata fs' (ip_path i) = Inr (FileNode (write_index (e_codec E) idx) created_mode)"
proof -
  obtain cs where cs: "ip_dir i = packs_root r @ cs" "no_parent_refs (ip_dir i)" "ip_name i \<noteq> ''..''"
    using store_readyD(1) [OF ready] by (rule place_freeD)
  have get: "fs_get fs' (ip_path i) = Some (FileNode (write_index (e_codec E) idx) created_mode)"
    using st head_not_index(10) [OF cs(1)] by (simp add: stored_def)
  have "no_parent_refs (ip_path i)" using cs(2,3) by (simp add: ip_path_def no_parent_refs_snoc)
  moreover have "dirs_above fs' (ip_path i)"
    using st get fs_wf_prefix [of fs' "ip_path i"] by (auto simp: dirs_above_def stored_def)
  moreover have "and created_mode owner_read \<noteq> 0" by (simp add: created_mode_def owner_read_def)
  ultimately have "object_stored fs' (ip_path i) (write_index (e_codec E) idx)"
    using get by (simp add: object_stored_def)
  then show "fs_read fs' (ip_path i) = Inr (write_index (e_codec E) idx)" by (rule object_stored_read)
  show "metadata fs' (ip_path i) = Inr (FileNode (write_index (e_codec E) idx) created_mode)"
    using metadata_plain [OF \<open>no_parent_refs (ip_path i)\<close> \<open>dirs_above fs' (ip_path i)\<close> get] by simp
qed

lemma loose_pack_valid:
  "snapshot_tag_valid cat tag \<Longrightarrow> validate_pack_id cat (Pack (loose_prefix @ tag)) = Inr ()"
  by simp

lemma stored_index_loaded:
  assumes ready: "store_ready E r fs i nd files" and st: "stored E r i sid idx fs fs'"
    and tag: "snapshot_tag_valid (e_cat E) (sid_tag sid)" "snapshot_index_path r (sid_tag sid) = ip_path i"
    and idx: "single_index (sid_tag sid) es idx" "\<forall>e \<in> set es. pack_path_ok (fe_path e)"
  shows "\<exists>idx'. load_index E r fs' (Pack (loose_prefix @ sid_tag sid)) = Inr idx' \<and>
      single_index (sid_tag sid) es idx'"
    and "is_pack_loose E r fs' (Pack (loose_prefix @ sid_tag sid))"
proof -
  let ?p = "Pack (loose_prefix @ sid_tag sid)"
  have path: "get_pack_index_path r ?p = ip_path i" using loose_pack_index_path [OF tag(1)] tag(2) by simp
  note rd = stored_index_read [OF ready st] and valid = loose_pack_valid [OF tag(1)]
  from single_index_parsed [OF store_readyD(3) [OF ready] idx]
  show "\<exists>idx'. load_index E r fs' ?p = Inr idx' \<and> single_index (sid_tag sid) es idx'"
    using rd(1) path valid by (auto simp: load_index_def load_index_file_def simp del: validate_pack_id.simps)
  show "is_pack_loose E r fs' ?p"
    using rd(2) path valid by (simp add: is_pack_loose_def path_exists_def del: validate_pack_id.simps)
qed

text \<open>Nothing outside the data directory changes.\<close>

lemma stored_unchanged:
  assumes "place_free E r fs i" "stored E r i sid idx fs fs'" "\<not> prefix (rp_data_dir r) q" "\<not> prefix q (rp_data_dir r)"
  shows "fs_get fs' q = fs_get fs q"
proof -
  obtain cs where cs: "ip_dir i = packs_root r @ cs" using assms(1) by (rule place_freeD)
  have "q \<noteq> ip_path i" "q \<noteq> head_path r" "q \<noteq> temp_dir r" "\<not> prefix (loose_root r) q"
    using assms(3) by (auto simp: ip_path_def cs packs_root_def head_path_def temp_dir_def loose_root_def dest: append_prefixD)
  moreover have "\<not> prefix q (ip_dir i)"
  proof
    assume "prefix q (ip_dir i)"
    moreover have "prefix (rp_data_dir r) (ip_dir i)" by (simp add: cs packs_root_def)
    ultimately show False using assms(3,4) by (metis prefix_same_cases)
  qed
  ultimately show ?thesis using assms(2) by (simp add: stored_def)
qed

subsection \<open>Extracting the entries\<close>

text \<open>What a stored file or link becomes when it is extracted.\<close>

fun restored :: "node \<Rightarrow> node" where
  "restored (FileNode b m) = FileNode b (and m permission_bits)"
| "restored n = n"

lemma stored_link:
  assumes "encode_target (UnixNative t) = (bs, enc)" "CHR 0x00 \<notin> set t"
  shows "bs = t" and "decode_target Unix entry bs enc = Inr (UnixNative t)"
proof -
  have "bs = t \<and> decode_target Unix entry bs enc = Inr (UnixNative t)"
  proof (cases "portable_native_target (UnixNative t)")
    case None
    with assms show ?thesis by (auto simp: encode_target_def decode_unix_target_def)
  next
    case (Some p)
    with assms(1) have enc: "enc = PortableUtf8" "bs = p" by (auto simp: encode_target_def)
    moreover have "p = t" using Some portable_unix by simp
    moreover have "portable_bytes p" using portable_native_target_bytes [OF _ Some] by (simp add: units_ok_def)
    ultimately show ?thesis
      using decode_portable [of bs Unix entry] assms(2) by (simp add: native_of_str_def)
  qed
  then show "bs = t" and "decode_target Unix entry bs enc = Inr (UnixNative t)" by blast+
qed

lemma regular_mode_bits:
  "and (or m regular_type) permission_bits = and m permission_bits"
  "and (or m regular_type) owner_read = and m owner_read"
proof -
  have "and regular_type permission_bits = 0" "and regular_type owner_read = 0"
    by (simp_all add: regular_type_def permission_bits_def owner_read_def)
  then show "and (or m regular_type) permission_bits = and m permission_bits"
    "and (or m regular_type) owner_read = and m owner_read"
    by (simp_all add: bit.conj_disj_distrib2)
qed

lemma entry_for_node:
  assumes "entry_for E p n e" "storable n"
  shows "entry_node (node_bytes n) e = restored n"
proof (cases n)
  case (FileNode b m)
  with assms show ?thesis by (simp add: entry_for_def entry_node_def regular_mode_bits)
next
  case (LinkNode t)
  obtain bs enc where enc: "encode_target (UnixNative t) = (bs, enc)" by fastforce
  with LinkNode assms stored_link(1) [OF enc] show ?thesis
    by (auto simp: entry_for_def entry_node_def)
next
  case DirNode
  with assms show ?thesis by simp
qed

lemma entry_for_ready:
  assumes e: "entry_for E p n e" "storable n" and b: "length (node_bytes n) < 2 ^ 64"
    and obj: "object_stored fs (loose_object_path E r (e_sha1 E (node_bytes n))) (node_bytes n)" and p: "pack_path_ok p"
  shows "loose_ready E r fs verify (node_bytes n) e"
proof (cases n)
  case (FileNode d m)
  have "d = []" if "of_nat (length d) = (0 :: u64)"
  proof -
    have "2 ^ 64 dvd length d" using that by (simp add: word_of_nat_eq_0_iff)
    moreover have "length d < 2 ^ 64" using b FileNode by simp
    ultimately have "length d = 0" using nat_dvd_not_less [of "length d" "2 ^ 64"] by auto
    then show ?thesis by simp
  qed
  with FileNode e obj p show ?thesis
    by (auto simp: loose_ready_def entry_for_def entry_size_def loose_metadata_def regular_mode_bits)
next
  case (LinkNode t)
  obtain bs enc where enc: "encode_target (UnixNative t) = (bs, enc)" by fastforce
  with LinkNode e obj p stored_link [OF enc] show ?thesis
    by (auto simp: loose_ready_def entry_for_def)
next
  case DirNode
  with e show ?thesis by simp
qed

text \<open>An empty directory apart from the data directory, and outputs that can all be made in it.\<close>

definition empty_output :: "env \<Rightarrow> repository \<Rightarrow> fs \<Rightarrow> path \<Rightarrow> pack_path list \<Rightarrow> bool" where
  "empty_output E r fs out ps \<longleftrightarrow> dirs_to fs out \<and> no_parent_refs out \<and>
     (\<forall>q. strict_prefix out q \<longrightarrow> fs_get fs q = None) \<and>
     \<not> prefix out (rp_data_dir r) \<and> \<not> prefix (rp_data_dir r) out \<and>
     distinct ps \<and> antichain ((\<lambda>p. out @ components p) ` set ps) \<and>
     (\<forall>p \<in> set ps. \<forall>q \<in> set ps. e_tmp E (out @ components p) \<notin> set (out @ components q)) \<and>
     (\<forall>p \<in> set ps. e_tmp E (out @ components p) \<noteq> ''..'')"

lemma apart_from_data:
  assumes "\<not> prefix out dd" "\<not> prefix dd out" "prefix q out \<or> prefix out q"
  shows "\<not> prefix dd q"
  using assms by (metis prefix_order.trans prefix_same_cases)

lemma stored_outside:
  assumes st: "stored E r i sid idx fs fs'" and cs: "ip_dir i = packs_root r @ cs"
    and out: "\<not> prefix out (rp_data_dir r)" "\<not> prefix (rp_data_dir r) out" "prefix q out \<or> prefix out q"
  shows "fs_get fs q = Some DirNode \<Longrightarrow> fs_get fs' q = Some DirNode"
    and "prefix out q \<Longrightarrow> fs_get fs' q = fs_get fs q"
proof -
  have a: "\<not> prefix (rp_data_dir r) q" by (rule apart_from_data [OF out])
  then have ne: "q \<noteq> ip_path i" "q \<noteq> head_path r" "q \<noteq> temp_dir r" "\<not> prefix (loose_root r) q"
    by (auto simp: ip_path_def cs packs_root_def head_path_def temp_dir_def loose_root_def dest: append_prefixD)
  with st have get: "fs_get fs' q = (if prefix q (ip_dir i) then Some DirNode else fs_get fs q)"
    by (simp add: stored_def)
  then show "fs_get fs q = Some DirNode \<Longrightarrow> fs_get fs' q = Some DirNode" by simp
  show "fs_get fs' q = fs_get fs q" if "prefix out q"
  proof -
    have "\<not> prefix q (ip_dir i)"
    proof
      assume q: "prefix q (ip_dir i)"
      have "prefix (rp_data_dir r) (ip_dir i)" by (simp add: cs packs_root_def)
      with q a have "prefix q (rp_data_dir r)" by (metis prefix_same_cases)
      with that out(1) show False by (metis prefix_order.trans)
    qed
    with get show ?thesis by simp
  qed
qed

lemma prefix_below: "prefix q (out @ x) \<Longrightarrow> prefix q out \<or> strict_prefix out q"
  by (metis prefix_order.le_less prefixI prefix_same_cases)

lemma targets_free_stored:
  assumes st: "stored E r i sid idx fs fs'" and cs: "ip_dir i = packs_root r @ cs"
    and out: "empty_output E r fs out ps" and ok: "\<forall>p \<in> set ps. pack_path_ok p"
  shows "targets_free fs' ((\<lambda>p. out @ components p) ` set ps) (e_tmp E)"
proof -
  have o: "dirs_to fs out" "no_parent_refs out" "\<not> prefix out (rp_data_dir r)" "\<not> prefix (rp_data_dir r) out"
    and free: "\<And>q. strict_prefix out q \<Longrightarrow> fs_get fs q = None"
    and tmp: "\<And>p q. p \<in> set ps \<Longrightarrow> q \<in> set ps \<Longrightarrow> e_tmp E (out @ components p) \<notin> set (out @ components q)"
      "\<And>p. p \<in> set ps \<Longrightarrow> e_tmp E (out @ components p) \<noteq> ''..''"
    using out by (auto simp: empty_output_def)
  have below: "fs_get fs' q = None" if q: "strict_prefix out q" for q
    using stored_outside(2) [OF st cs o(3,4), of q] free [OF q] q by (simp add: strict_prefix_def)
  have above: "fs_get fs' q = Some DirNode" if q: "prefix q out" for q
    using stored_outside(1) [OF st cs o(3,4), of q] o(1) q by (simp add: dirs_to_def)
  have "writable_at fs' (out @ components p) \<and> temp_free fs' (out @ components p) (e_tmp E (out @ components p))"
    if p: "p \<in> set ps" for p
  proof -
    have "\<forall>c \<in> set (components p). c \<noteq> ''..''"
      using ok p by (auto simp: pack_path_ok_def list_all_iff component_ok_def)
    then have np: "no_parent_refs (out @ components p)" using o(2) by (auto simp: no_parent_refs_def)
    have sp: "strict_prefix out (out @ components p)" by (simp add: strict_prefix_def)
    have bl: "butlast (out @ components p) = out @ butlast (components p)" by (simp add: butlast_append)
    have "dirs_or_missing fs' (out @ butlast (components p))"
      unfolding dirs_or_missing_def using above below prefix_below by metis
    moreover have "fs_get fs' (out @ butlast (components p) @ [x]) = None" for x
      by (rule below) (simp add: strict_prefix_def)
    moreover have "e_tmp E (out @ components p) \<noteq> last (out @ components p)"
      using tmp(1) [OF p p] by (metis components_neq_Nil Nil_is_append_conv last_in_set)
    ultimately show ?thesis
      using np below [OF sp] tmp(2) [OF p] by (simp add: writable_at_def temp_free_def bl)
  qed
  with tmp(1) show ?thesis by (auto simp: targets_free_def)
qed

subsection \<open>Store, then extract\<close>

text \<open>The bytes stored for an entry.\<close>

definition content_of :: "(path \<Rightarrow> node) \<Rightarrow> (path \<times> pack_path) list \<Rightarrow> file_entry \<Rightarrow> bytes" where
  "content_of nd files e =
     (case map_of (map (\<lambda>(fp, p). (p, node_bytes (nd fp))) files) (fe_path e) of Some b \<Rightarrow> b | None \<Rightarrow> [])"

lemma content_of_file:
  assumes "distinct (map snd files)" "(fp, p) \<in> set files" "fe_path e = p"
  shows "content_of nd files e = node_bytes (nd fp)"
proof -
  have "map fst (map (\<lambda>(fp, p). (p, node_bytes (nd fp))) files) = map snd files"
    by (simp add: comp_def case_prod_unfold)
  then have "distinct (map fst (map (\<lambda>(fp, p). (p, node_bytes (nd fp))) files))"
    using assms(1) by (simp only:)
  moreover have "(p, node_bytes (nd fp)) \<in> set (map (\<lambda>(fp, p). (p, node_bytes (nd fp))) files)"
    using assms(2) by force
  ultimately show ?thesis using assms(3) by (simp add: content_of_def)
qed

lemma entries_of_files:
  assumes "list_all2 (\<lambda>(fp, p) e. entry_for E p (nd fp) e) files es"
  shows "e \<in> set es \<Longrightarrow> \<exists>fp p. (fp, p) \<in> set files \<and> entry_for E p (nd fp) e"
    and "(fp, p) \<in> set files \<Longrightarrow> \<exists>e \<in> set es. entry_for E p (nd fp) e"
    and "map fe_path es = map snd files"
  using assms
proof -
  show "e \<in> set es \<Longrightarrow> \<exists>fp p. (fp, p) \<in> set files \<and> entry_for E p (nd fp) e"
    using assms by (induction rule: list_all2_induct) auto
  show "(fp, p) \<in> set files \<Longrightarrow> \<exists>e \<in> set es. entry_for E p (nd fp) e"
    using assms by (induction rule: list_all2_induct) auto
  show "map fe_path es = map snd files"
    using assms by (induction rule: list_all2_induct) (auto simp: entry_for_def)
qed

lemma components_same: "components p = components q \<Longrightarrow> p = q"
  by (metis join_components pack_path.expand)

lemma output_paths_distinct:
  assumes files: "list_all2 (\<lambda>(fp, p) e. entry_for E p (nd fp) e) files es" and dist: "distinct (map snd files)"
    and es': "set es' = set es" "distinct (map entry_content es')"
  shows "distinct (map (output_path out) es')"
proof -
  have "distinct (map fe_path es)" using entries_of_files(3) [OF files] dist by simp
  then have "inj_on fe_path (set es')" using es'(1) by (simp add: distinct_map)
  then have "inj_on (output_path out) (set es')"
    by (auto simp: inj_on_def output_path_def dest: components_same)
  moreover have "distinct es'" using es'(2) by (simp add: distinct_map)
  ultimately show ?thesis by (simp add: distinct_map)
qed

definition extract_ready ::
    "env \<Rightarrow> repository \<Rightarrow> fs \<Rightarrow> path \<Rightarrow> (path \<Rightarrow> node) \<Rightarrow> (path \<times> pack_path) list \<Rightarrow> bool" where
  "extract_ready E r fs out nd files \<longleftrightarrow> empty_output E r fs out (map snd files) \<and>
     (\<forall>b \<in> file_contents nd files. length b < 2 ^ 64)"

lemma stored_outputs_ready:
  assumes ready: "store_ready E r fs i nd files" and out: "extract_ready E r fs out nd files"
    and st: "stored E r i sid idx fs fs'" "objects_stored E r (file_contents nd files) fs'"
    and files: "list_all2 (\<lambda>(fp, p) e. entry_for E p (nd fp) e) files es"
    and es': "set es' = set es" "distinct (map entry_content es')"
  shows "outputs_ready E r fs' verify out (content_of nd files) es'"
proof -
  note rd = store_readyD [OF ready]
  obtain cs where cs: "ip_dir i = packs_root r @ cs" using rd(1) by (rule place_freeD)
  have o: "empty_output E r fs out (map snd files)" "distinct (map snd files)"
      "\<not> prefix out (rp_data_dir r)" "\<not> prefix (rp_data_dir r) out"
    and small: "\<And>b. b \<in> file_contents nd files \<Longrightarrow> length b < 2 ^ 64"
    using out by (auto simp: extract_ready_def empty_output_def)
  have paths: "\<forall>p \<in> set (map snd files). pack_path_ok p" using rd(11) by (auto simp: sources_ok_def)
  have image: "output_path out ` set es' = (\<lambda>p. out @ components p) ` set (map snd files)"
    unfolding entries_of_files(3) [OF files, symmetric] es'(1) by (simp add: output_path_def image_image)
  have "loose_ready E r fs' verify (content_of nd files e) e \<and>
      loose_object_path E r (fe_checksum e) \<notin> output_path out ` set es'" if e: "e \<in> set es'" for e
  proof -
    obtain fp p where fp: "(fp, p) \<in> set files" "entry_for E p (nd fp) e"
      using entries_of_files(1) [OF files] e es'(1) by blast
    have mem: "node_bytes (nd fp) \<in> file_contents nd files" using fp(1) by (force simp: file_contents_def)
    have "storable (nd fp)" "pack_path_ok p"
      using fp(1) rd(11) by (auto simp: sources_ok_def source_ok_def)
    moreover have "content_of nd files e = node_bytes (nd fp)"
      using content_of_file [OF o(2) fp(1)] fp(2) by (simp add: entry_for_def)
    ultimately have "loose_ready E r fs' verify (content_of nd files e) e"
      using entry_for_ready [OF fp(2) _ small [OF mem], of fs' r verify] st(2) mem by (simp add: objects_stored_def)
    moreover have "loose_object_path E r (fe_checksum e) \<noteq> out @ x" for x
    proof
      assume eq: "loose_object_path E r (fe_checksum e) = out @ x"
      have "fe_checksum e = e_sha1 E (node_bytes (nd fp))" using fp(2) by (simp add: entry_for_def)
      then have "prefix (loose_root r) (out @ x)" using object_path_loose [OF rd(2)] eq by metis
      then have "prefix (rp_data_dir r) (out @ x)" by (auto simp: loose_root_def dest: append_prefixD)
      with o(3,4) show False by (metis prefixI prefix_same_cases)
    qed
    ultimately show ?thesis by (auto simp: output_path_def)
  qed
  then show ?thesis
    using st(1) output_paths_distinct [OF files o(2) es'] targets_free_stored [OF st(1) cs o(1) paths] o(1)
    by (simp add: outputs_ready_def image stored_def empty_output_def)
qed

lemma extracted_node:
  assumes w: "all_written fs (loose_writes out (content_of nd files) es') fs''"
    and ready: "outputs_ready E r fs verify out (content_of nd files) es'"
    and e: "e \<in> set es'" "(fp, p) \<in> set files" "entry_for E p (nd fp) e" "storable (nd fp)" "distinct (map snd files)"
  shows "fs_get fs'' (out @ components p) = Some (restored (nd fp))"
proof -
  have "distinct (map fst (loose_writes out (content_of nd files) es'))"
    using ready by (simp add: outputs_ready_def loose_writes_def comp_def)
  then have "map_of (loose_writes out (content_of nd files) es') (output_path out e) =
      Some (entry_node (content_of nd files e) e)"
    using e(1) by (intro map_of_is_SomeI) (auto simp: loose_writes_def)
  moreover have p: "fe_path e = p" using e(3) by (simp add: entry_for_def)
  moreover have "content_of nd files e = node_bytes (nd fp)" by (rule content_of_file [OF e(5,2) p])
  ultimately show ?thesis
    using w entry_for_node [OF e(3,4)] by (simp add: all_written_def output_path_def)
qed

lemma store_then_extract:
  assumes ready: "store_ready E r fs i nd files" and out: "extract_ready E r fs out nd files"
    and tag: "snapshot_tag_valid (e_cat E) tag" "snapshot_index_path r tag = ip_path i" and n: "xo_num_workers opts \<noteq> 0"
    and sid: "sid = \<lparr>sid_pack = Pack (loose_prefix @ tag), sid_tag = tag\<rparr>"
  shows "\<exists>fs' idx hs es fs''. store_locked E r sid files False fs = Some (Inr (), fs') \<and>
    load_index E r fs' (sid_pack sid) = Inr idx \<and>
    resolve_snapshot idx tag = (Inr (Some hs) :: pack_error failure + _) \<and> snapshot_entries idx hs = Inr es \<and>
    map_of (snapshots_of idx) tag = Some (entry_content ` set es) \<and>
    extract_entries_preflighted E r (sid_pack sid) es out opts fs' = (Inr (), fs'') \<and>
    (\<forall>(fp, p) \<in> set files. fs_get fs'' (out @ components p) = Some (restored (nd fp))) \<and>
    (\<forall>q. \<not> prefix (rp_data_dir r) q \<and> \<not> prefix q (rp_data_dir r) \<longrightarrow> fs_get fs' q = fs_get fs q)"
proof -
  note rd = store_readyD [OF ready]
  have st: "sid_tag sid = tag" "sid_pack sid = Pack (loose_prefix @ tag)" by (simp_all add: sid)
  obtain fs' es idx where s: "store_locked E r sid files False fs = Some (Inr (), fs')"
      "list_all2 (\<lambda>(fp, p) e. entry_for E p (nd fp) e) files es" "single_index tag es idx"
      "stored E r i sid idx fs fs'" "objects_stored E r (file_contents nd files) fs'"
    using store_locked_ok [OF ready, of sid] tag(2) st(1) by auto
  have paths: "\<forall>e \<in> set es. pack_path_ok (fe_path e)"
    using entries_of_files(1) [OF s(2)] rd(11) by (fastforce simp: sources_ok_def entry_for_def)
  have one: "\<exists>idx'. load_index E r fs' (sid_pack sid) = Inr idx' \<and> single_index tag es idx'"
    and loose: "is_pack_loose E r fs' (sid_pack sid)"
    using stored_index_loaded [OF ready s(4), of es] s(3) paths tag st by auto
  from one obtain idx' where idx': "load_index E r fs' (sid_pack sid) = Inr idx'" "single_index tag es idx'" by blast
  define f where "f = (\<lambda>c. loose_metadata (inv_into (file_contents nd files) (e_sha1 E) c))"
  have "f (fe_checksum e) = fe_object e" if e: "e \<in> set es" for e
  proof -
    obtain fp p where fp: "(fp, p) \<in> set files" "entry_for E p (nd fp) e" using entries_of_files(1) [OF s(2) e] by blast
    then have "node_bytes (nd fp) \<in> file_contents nd files" by (force simp: file_contents_def)
    with fp(2) rd(4) show ?thesis by (simp add: f_def entry_for_def)
  qed
  then obtain hs es' where r: "resolve_snapshot idx' tag = (Inr (Some hs) :: pack_error failure + _)"
      "entries_from_handles idx' hs = Inr es'" "distinct (map entry_content es')" "set es' = set es"
    using single_index_entries [OF idx'(2), of f] by blast
  have or: "outputs_ready E r fs' (xo_verify opts) out (content_of nd files) es'"
    by (rule stored_outputs_ready [OF ready out s(4,5,2) r(4,3)])
  obtain fs'' where x: "copy_loose_entries E r es' out (xo_verify opts) (xo_num_workers opts) fs' = (Inr (), fs'')"
      "all_written fs' (loose_writes out (content_of nd files) es') fs''"
    using copy_loose_entries_ok [OF or n] by blast
  have "extract_entries_preflighted E r (sid_pack sid) es' out opts fs' = (Inr (), fs'')"
    using x(1) loose by (simp add: extract_entries_preflighted_def)
  moreover have "\<forall>(fp, p) \<in> set files. fs_get fs'' (out @ components p) = Some (restored (nd fp))"
  proof safe
    fix fp p assume fp: "(fp, p) \<in> set files"
    then obtain e where e: "e \<in> set es'" "entry_for E p (nd fp) e"
      using entries_of_files(2) [OF s(2)] r(4) by blast
    have "storable (nd fp)" using fp rd(11) by (auto simp: sources_ok_def source_ok_def)
    moreover have "distinct (map snd files)" using out by (simp add: extract_ready_def empty_output_def)
    ultimately show "fs_get fs'' (out @ components p) = Some (restored (nd fp))"
      using extracted_node [OF x(2) or e(1) fp e(2)] by blast
  qed
  moreover have "map_of (snapshots_of idx') tag = Some (entry_content ` set es')"
    using idx'(2) r(4) by (simp add: single_index_def)
  moreover have "fs_get fs' q = fs_get fs q"
    if q: "\<not> prefix (rp_data_dir r) q" "\<not> prefix q (rp_data_dir r)" for q
    using rd(1) s(4) q by (rule stored_unchanged)
  ultimately show ?thesis
    using s(1) idx'(1) r(1,2) by (intro exI conjI) (auto simp: snapshot_entries_def)
qed

end
