(* ===== verification/StoreProps.thy ===== *)
theory StoreProps
  imports StoreExtract RepoProps
begin

text \<open>
  Properties of storing and extracting snapshots, with their instances on a small file system.
\<close>

subsection \<open>The sample\<close>

definition store_repo :: repository where
  "store_repo = \<lparr>rp_path = [''w''], rp_data_dir = [''d''], rp_lock = Some SharedLock, rp_exclusive = False\<rparr>"

definition store_fs :: fs where
  "store_fs = [([''w''], DirNode), ([''d''], DirNode), ([''out''], DirNode),
     ([''w'', ''f''], FileNode ''x'' 0x1ED), ([''w'', ''l''], LinkNode ''f'')]"

definition store_node :: "path \<Rightarrow> node" where
  "store_node p = (if p = [''f''] then FileNode ''x'' 0x1ED else LinkNode ''f'')"

definition store_names :: "(path \<times> pack_path) list" where
  "store_names = [([''f''], PackPath ''f''), ([''l''], PackPath ''l'')]"

definition store_place :: index_place where
  "store_place = \<lparr>ip_dir = [''d'', ''packs'', ''loose''], ip_name = ''s.pack.idx'', ip_rnd = ''tmp''\<rparr>"

definition locked_repo :: repository where
  "locked_repo = store_repo\<lparr>rp_lock := Some ExclusiveLock, rp_exclusive := True\<rparr>"

lemma store_paths [simp]:
  "rp_path store_repo = [''w'']" "rp_data_dir store_repo = [''d'']" "rp_path locked_repo = [''w'']"
  "rp_data_dir locked_repo = [''d'']" "rp_lock locked_repo = Some ExclusiveLock"
  "packs_root locked_repo = [''d'', ''packs'']" "loose_root locked_repo = [''d'', ''loose'']"
  "temp_dir locked_repo = [''d'', ''trash'']" "head_path locked_repo = [''d'', ''HEAD'']"
  "ip_path store_place = [''d'', ''packs'', ''loose'', ''s.pack.idx'']"
  by (simp_all add: store_repo_def locked_repo_def packs_root_def packs_name_def loose_root_def loose_name_def
      temp_dir_def temp_name_def head_path_def head_file_def ip_path_def store_place_def)

lemma store_fs_get:
  "fs_get store_fs p = (if p = [] \<or> p = [''w''] \<or> p = [''d''] \<or> p = [''out''] then Some DirNode
     else if p = [''w'', ''f''] then Some (FileNode ''x'' 0x1ED)
     else if p = [''w'', ''l''] then Some (LinkNode ''f'') else None)"
  by (simp add: fs_get_def store_fs_def)

lemma store_fs_wf: "fs_wf store_fs"
  by (auto simp: fs_wf_def store_fs_get) (auto simp: store_fs_def)

lemma store_link_bytes: "encode_target (UnixNative ''f'') = (''f'', PortableUtf8)"
proof -
  have asc: "list_all (\<lambda>b. byte_val b < 128) ''f''" by (simp add: byte_val_def)
  have "portable_bytes ''f''"
    using ascii_string(1) [OF asc] by (simp add: portable_bytes_def has_windows_prefix_def
        is_ascii_alphabetic_def ascii_upper_def ascii_lower_def byte_val_def)
  then show ?thesis by (simp add: encode_target_def portable_unix_bytes)
qed

lemma store_contents: "file_contents store_node store_names = {''x'', ''f''}"
  by (simp add: file_contents_def store_names_def store_node_def store_link_bytes)

lemma store_utf8 [simp]: "is_utf8 ''f''" "is_utf8 ''l''"
  by (rule ascii_string(1); simp add: byte_val_def)+

lemma store_path_ok: "pack_path_ok (PackPath ''f'')" "pack_path_ok (PackPath ''l'')"
  by (simp_all add: pack_path_ok_def components_def component_ok_def)

lemma store_sample_ready: "store_ready plain_env locked_repo store_fs store_place store_node store_names"
  unfolding store_ready_def
proof (intro conjI ballI)
  show "place_free plain_env locked_repo store_fs store_place"
    by (auto simp: place_free_def store_fs_wf store_place_def no_parent_refs_def dirs_or_missing_def store_fs_get
        ip_path_def acf_temp_path_def split: if_splits)
  show "crates_ok plain_env" by (simp add: crates_ok_def plain_hex_ok plain_sha1_ok)
  show "codec_ok (e_codec plain_env)" by (simp add: unary_sample_ok)
  show "inj_on (e_sha1 plain_env) (file_contents store_node store_names)"
    by (simp add: store_contents plain_hash_def)
  show "no_parent_refs (rp_data_dir locked_repo)" by (simp add: no_parent_refs_def)
  show "fs_get store_fs (temp_dir locked_repo) = None \<or> fs_get store_fs (temp_dir locked_repo) = Some DirNode"
    by (simp add: store_fs_get)
  show "object_slot plain_env locked_repo store_fs b" if "b \<in> file_contents store_node store_names" for b
  proof -
    have "fs_get store_fs q = None" if "prefix [''d'', ''loose''] q" for q
      using that by (auto simp: store_fs_get prefix_def)
    moreover have "prefix [''d'', ''loose''] (loose_object_path plain_env locked_repo c)" for c
      by (simp add: loose_object_path_def Let_def)
    ultimately show ?thesis by (simp add: object_slot_def Let_def store_fs_get)
  qed
  show "tmp_ok plain_env locked_repo store_fs (head_path locked_repo)" by (simp add: tmp_ok_def store_fs_get)
  show "fs_get store_fs (head_path locked_repo) \<noteq> Some DirNode" by (simp add: store_fs_get)
  show "rp_lock locked_repo \<noteq> None" by simp
  have above: "dirs_above store_fs [''w'', c]" for c
  proof -
    have "strict_prefix q [''w'', c] \<Longrightarrow> q = [] \<or> q = [''w'']" for q
      by (auto simp: strict_prefix_def prefix_Cons)
    then show ?thesis by (auto simp: dirs_above_def store_fs_get)
  qed
  show "sources_ok locked_repo store_fs store_node store_names"
    by (simp add: sources_ok_def store_names_def source_ok_def store_node_def no_parent_refs_def store_fs_get
        owner_read_def store_path_ok above)
  show "length store_names \<le> 2 ^ 32" by (simp add: store_names_def)
qed

lemma store_sample_out: "extract_ready plain_env locked_repo store_fs [''out''] store_node store_names"
proof -
  have "dirs_to store_fs [''out'']" using dirs_to_get [OF store_fs_wf] by (simp add: store_fs_get)
  moreover have "fs_get store_fs q = None" if "strict_prefix [''out''] q" for q
    using that by (auto simp: store_fs_get strict_prefix_def)
  moreover have "map snd store_names = [PackPath ''f'', PackPath ''l'']" by (simp add: store_names_def)
  ultimately show ?thesis
    by (simp add: extract_ready_def empty_output_def store_contents no_parent_refs_def antichain_def components_def)
qed

lemma store_sample_lock: "lock_exclusive plain_env store_repo = (Inr (), locked_repo)"
  by (simp add: lock_exclusive_def store_repo_def locked_repo_def plain_env_def restore_shared_lock_on_error_def Let_def)

lemma store_sample_files: "logical_files store_repo store_fs [''f'', ''l''] = Inr store_names"
proof -
  have "unix_components ''f'' = [Normal ''f'']" "unix_components ''l'' = [Normal ''l'']"
    by (simp_all add: unix_components_def part_component_def map_filter_simps)
  then have "clean_file_list store_fs [''w''] [''d''] [''f'', ''l''] = Inr [[''f''], [''l'']]"
    by (simp add: clean_file_list_def normalize_relative_path_def reject_symlink_ancestors_def)
  moreover have "from_native_components Unix [Normal ''f''] = Inr (PackPath ''f'')"
    "from_native_components Unix [Normal ''l''] = Inr (PackPath ''l'')"
    using pack_path_new_ok [OF store_path_ok(1)] pack_path_new_ok [OF store_path_ok(2)]
    by (simp_all add: from_native_components_def append_native_component_def native_component_def)
  ultimately show ?thesis by (simp add: logical_files_def store_names_def)
qed

subsection \<open>Properties\<close>

text \<open>C1: A snapshot made with \<^verbatim>\<open>create_snapshot\<close> reads back: its loose index loads and resolves the tag to
  the entries of the files, and extracting them into an empty directory restores every file with
  its bytes and permissions and every link with its target.  Storing changes nothing outside the
  data directory.\<close>

theorem store_extract_round_trip:
  assumes "logical_files r fs names = Inr files" "lock_exclusive E r = (Inr (), r')"
    and "store_ready E r' fs i nd files" "extract_ready E r' fs out nd files"
    and "snapshot_tag_valid (e_cat E) tag" "snapshot_index_path r' tag = ip_path i" "xo_num_workers opts \<noteq> 0"
    and "sid = \<lparr>sid_pack = Pack (loose_prefix @ tag), sid_tag = tag\<rparr>"
  shows "\<exists>fs' idx hs es fs''. create_snapshot E r sid names fs = Some (Inr (), r', fs') \<and>
    load_index E r' fs' (sid_pack sid) = Inr idx \<and>
    resolve_snapshot idx tag = (Inr (Some hs) :: pack_error failure + _) \<and> snapshot_entries idx hs = Inr es \<and>
    map_of (snapshots_of idx) tag = Some (entry_content ` set es) \<and>
    extract_entries_preflighted E r' (sid_pack sid) es out opts fs' = (Inr (), fs'') \<and>
    (\<forall>(fp, p) \<in> set files. fs_get fs'' (out @ components p) = Some (restored (nd fp))) \<and>
    (\<forall>q. \<not> prefix (rp_data_dir r') q \<and> \<not> prefix q (rp_data_dir r') \<longrightarrow> fs_get fs' q = fs_get fs q)"
proof -
  have "create_snapshot E r sid names fs = map_option (\<lambda>(x, fs). (x, r', fs)) (store_locked E r' sid files False fs)"
    using assms(1,2) by (simp add: create_snapshot_def create_snapshot_impl_def)
  with store_then_extract [OF assms(3-8)] show ?thesis by auto
qed

theorem store_extract_round_trip_witness:
  "\<exists>fs' es fs''. create_snapshot plain_env store_repo \<lparr>sid_pack = Pack ''loose/s'', sid_tag = ''s''\<rparr> [''f'', ''l''] store_fs =
      Some (Inr (), locked_repo, fs') \<and>
    extract_entries_preflighted plain_env locked_repo (Pack ''loose/s'') es [''out''] default_extract_options fs' = (Inr (), fs'') \<and>
    fs_get fs'' [''out'', ''f''] = Some (FileNode ''x'' 0x1ED) \<and> fs_get fs'' [''out'', ''l''] = Some (LinkNode ''f'')"
proof -
  have tag: "snapshot_tag_valid (e_cat plain_env) ''s''" "snapshot_index_path locked_repo ''s'' = ip_path store_place"
    "xo_num_workers default_extract_options \<noteq> 0"
    by (simp_all add: snapshot_index_path_def append_path_suffix_def path_push_def target_components_def link_start_def
        loose_name_def dot_pack_index_extension_def default_extract_options_def)
  have sid: "\<lparr>sid_pack = Pack ''loose/s'', sid_tag = ''s''\<rparr> = \<lparr>sid_pack = Pack (loose_prefix @ ''s''), sid_tag = ''s''\<rparr>"
    by (simp add: loose_prefix_def)
  have bits: "and (0x1ED :: u32) permission_bits = 0x1ED" by (simp add: permission_bits_def)
  from store_extract_round_trip [OF store_sample_files store_sample_lock store_sample_ready store_sample_out tag sid]
  show ?thesis by (auto simp: store_names_def store_node_def components_def bits)
qed

text \<open>C10: The difference of two snapshots is exact: the added entries are those of the new snapshot whose
  path, checksum or metadata the old one does not have, the removed ones the converse, each once.\<close>

theorem entry_diff_spec:
  assumes "order_ok E" "compute_entry_diff E old new = (added, removed)"
  shows "entry_content ` set added = entry_content ` set new - entry_content ` set old \<and>
    entry_content ` set removed = entry_content ` set old - entry_content ` set new \<and>
    set added \<subseteq> set new \<and> set removed \<subseteq> set old \<and>
    distinct (map entry_content added) \<and> distinct (map entry_content removed)"
  using compute_entry_diff_ok [OF assms] by simp

definition diff_entry :: "bytes \<Rightarrow> bytes \<Rightarrow> file_entry" where
  "diff_entry p b = loose_entry plain_env (PackPath p) b (Regular 420)"

theorem entry_diff_spec_witness:
  "entry_content ` set (fst (compute_entry_diff plain_env [diff_entry ''a'' ''1'', diff_entry ''b'' ''2'']
      [diff_entry ''a'' ''1'', diff_entry ''b'' ''3''])) = {entry_content (diff_entry ''b'' ''3'')}"
proof -
  let ?old = "[diff_entry ''a'' ''1'', diff_entry ''b'' ''2'']" and ?new = "[diff_entry ''a'' ''1'', diff_entry ''b'' ''3'']"
  have d: "compute_entry_diff plain_env ?old ?new =
      (fst (compute_entry_diff plain_env ?old ?new), snd (compute_entry_diff plain_env ?old ?new))" by simp
  from entry_diff_spec [OF plain_order_ok d] show ?thesis
    by (auto simp: diff_entry_def loose_entry_def entry_content_def plain_hash_def)
qed

end
