(* ===== verification/PackBuild.thy ===== *)
theory PackBuild
  imports StoreSnapshot PackFrames EnvPlain
begin

text \<open>
  The bytes of a pack: the frames that packing compresses, and what opening the finished file
  gives.
\<close>

subsection \<open>Frames\<close>

text \<open>Compressed frames with their decompressed contents.\<close>

definition frames_of :: "env \<Rightarrow> (u64 \<times> bytes) list \<Rightarrow> bytes list \<Rightarrow> bool" where
  "frames_of E fr Fs \<longleftrightarrow>
     list_all2 (\<lambda>f D. fst f = of_nat (length D) \<and> (\<exists>opts. e_zstd E opts D = Inr (snd f))) fr Fs"

lemma frames_of_drop: "frames_of E fr Fs \<Longrightarrow> frames_of E (drop i fr) (drop i Fs)"
  by (simp add: frames_of_def list_all2_dropI)

lemma unzstd_frames:
  assumes "zstd_ok E" "frames_of E fr Fs"
  shows "e_unzstd E (concat (map snd fr)) = (concat Fs, None)"
  using assms(2) unfolding frames_of_def
proof (induction rule: list_all2_induct)
  case Nil
  then show ?case using assms(1) by (simp add: zstd_ok_def)
next
  case (Cons f fr D Fs)
  then obtain opts where "e_zstd E opts D = Inr (snd f)" by blast
  with assms(1) have "e_unzstd E (snd f @ concat (map snd fr)) =
      (D @ fst (e_unzstd E (concat (map snd fr))), snd (e_unzstd E (concat (map snd fr))))"
    unfolding zstd_ok_def by blast
  with Cons.IH show ?case by simp
qed

lemma of_nat_length_concat:
  "(of_nat (length (concat xs)) :: u64) = sum_list (map (\<lambda>F. of_nat (length F)) xs)"
  by (induction xs) simp_all

lemma concat_after: "drop (length (concat (take i xs))) (concat xs) = concat (drop i xs)"
proof -
  have "concat xs = concat (take i xs) @ concat (drop i xs)" by (metis append_take_drop_id concat_append)
  then show ?thesis by (metis append_eq_conv_conj)
qed

lemma compressed_offsets:
  "compute_frame_offsets (map frame_record fr) =
     map (\<lambda>i. of_nat (length (concat (take i (map snd fr))))) [0..<length fr]"
proof -
  have "map frame_size (take i (map frame_record fr)) = map (\<lambda>F. of_nat (length F)) (take i (map snd fr))" for i
    by (simp add: take_map frame_record_def comp_def)
  then show ?thesis
    unfolding compute_frame_offsets_def offsets_from_map of_nat_length_concat by simp
qed

lemma reader_of_frame:
  assumes z: "zstd_ok E" and fr: "frames_of E fr Fs" and small: "length (h @ concat (map snd fr)) < 2 ^ 64"
    and hn: "hn = of_nat (length h)"
  shows "decoder_at (e_unzstd E) (h @ concat (map snd fr))
      (unat (hn + of_nat (length (concat (take i (map snd fr)))) :: u64)) =
    \<lparr>pr_data = concat (drop i Fs), pr_fail = None\<rparr>"
proof -
  let ?k = "length (concat (take i (map snd fr)))"
  have "concat (map snd fr) = concat (take i (map snd fr)) @ concat (drop i (map snd fr))"
    by (metis append_take_drop_id concat_append)
  then have "?k \<le> length (concat (map snd fr))" by (metis length_append le_add1)
  then have "length h + ?k < 2 ^ 64" using small by simp
  then have "unat (of_nat (length h + ?k) :: u64) = length h + ?k"
    by (simp only: unat_of_nat take_bit_nat_eq_self len_of_numeral_defs) simp
  then have "unat (hn + of_nat ?k) = length h + ?k" by (simp add: hn)
  moreover have "drop (length h + ?k) (h @ concat (map snd fr)) = concat (map snd (drop i fr))"
    using concat_after [of i "map snd fr"] by (simp add: drop_map)
  ultimately show ?thesis
    using unzstd_frames [OF z frames_of_drop [OF fr]] by (simp add: decoder_at_def)
qed

definition header_bytes :: "env \<Rightarrow> (u64 \<times> bytes) list \<Rightarrow> bytes" where
  "header_bytes E fr = e_enc_header E (header_new (map frame_record fr))"

lemma pack_opens:
  assumes z: "zstd_ok E" and h: "header_ok E" and fr: "frames_of E fr Fs" and ne: "Fs \<noteq> []"
    and sizes: "length (header_bytes E fr) < 2 ^ 32" "length (pack_bytes E fr) < 2 ^ 64"
  shows "\<exists>pk. open_pack (e_unzstd E) (e_dec_header E) (Inr (pack_bytes E fr)) = Inr pk \<and> frames_match pk Fs"
proof -
  let ?h = "header_bytes E fr" and ?hdr = "header_new (map frame_record fr)" and ?z = "concat (map snd fr)"
  let ?w = "fst (write_skippable_frame ?h)" and ?n = "snd (write_skippable_frame ?h)"
  have len: "length fr = length Fs" using fr by (simp add: frames_of_def list_all2_lengthD)
  have pb: "pack_bytes E fr = ?w @ ?z" by (simp add: pack_bytes_def header_bytes_def)
  have w: "?n = of_nat (length ?w)" by (simp add: write_skippable_frame_def u32_le_def)
  have rd: "read_skippable_frame (?w @ ?z) = Inr (?n, ?h, ?z)" using skippable_round_trip [OF sizes(1)] by blast
  have dec: "e_dec_header E ?h = Inr ?hdr" using h by (simp add: header_ok_def header_bytes_def)
  let ?readers = "map (\<lambda>off. decoder_at (e_unzstd E) (?w @ ?z) (unat (?n + off))) (compute_frame_offsets (map frame_record fr))"
  have readers: "?readers = map (\<lambda>i. \<lparr>pr_data = concat (drop i Fs), pr_fail = None\<rparr>) [0..<length Fs]"
    unfolding compressed_offsets map_map comp_def len
    using reader_of_frame [OF z fr _ w] sizes(2) pb by simp
  have open_ok: "open_pack (e_unzstd E) (e_dec_header E) (Inr (pack_bytes E fr)) =
      Inr \<lparr>pk_header = ?hdr, pk_readers = ?readers, pk_file_size = of_nat (length (?w @ ?z))\<rparr>"
    using rd dec by (simp add: open_pack_def pb header_is_valid_def header_new_def)
  have "decompressed_size (map frame_record fr ! i) = of_nat (length (Fs ! i))" if "i < length Fs" for i
    using fr that len by (auto simp: frames_of_def list_all2_conv_all_nth frame_record_def)
  then have "compute_frame_decompressed_offset (map frame_record fr) =
      map (\<lambda>i. of_nat (length (concat (take i Fs)))) [0..<length Fs]"
    using len by (intro frame_offsets_of_sizes) simp_all
  then have "frames_match \<lparr>pk_header = ?hdr, pk_readers = ?readers, pk_file_size = of_nat (length (?w @ ?z))\<rparr> Fs"
    using ne len readers by (simp add: frames_match_def header_new_def)
  with open_ok show ?thesis by blast
qed

subsection \<open>Compressing\<close>

text \<open>The encoder accepts the options of the tasks.\<close>

definition encoder_ok :: "env \<Rightarrow> pack_options \<Rightarrow> nat \<Rightarrow> bool" where
  "encoder_ok E opts n \<longleftrightarrow> po_num_workers opts \<noteq> 0 \<and> unat (po_num_workers opts) + n < 2 ^ 32 \<and>
     (\<forall>w D. \<exists>z. e_zstd E \<lparr>co_level = po_level opts, co_window_log = po_window_log opts, co_num_workers = w\<rparr> D = Inr z)"

lemma workers_nonzero:
  assumes "w \<noteq> 0" "unat w + n < 2 ^ 32" "n \<noteq> 0"
  shows "workers_per_task w n \<noteq> 0"
proof -
  have n: "unat (of_nat n :: u32) = n" using assms(2) by (simp add: unat_of_nat take_bit_nat_eq_self)
  have w: "0 < unat w" using assms(1) by (simp add: unat_gt_0)
  have s: "unat (w + of_nat n :: u32) = unat w + n" using assms(2) n by (simp add: unat_word_ariths(1))
  have "1 \<le> w + of_nat n" using s w by (simp add: word_le_nat_alt)
  then have "unat (w + of_nat n - 1) = unat w + n - 1" using s by (simp add: unat_sub)
  then have "unat (workers_per_task w n) = (unat w + n - 1) div n"
    using assms(3) n by (simp add: workers_per_task_def unat_div max_def)
  moreover have "n \<le> unat w + n - 1" using w by simp
  ultimately have "unat (workers_per_task w n) \<noteq> 0" using assms(3) by (simp add: div_greater_zero_iff)
  then show ?thesis by auto
qed

lemma join_results_Inr: "join_results (map (\<lambda>x. Inr (f x)) xs) = (Inr (map f xs) :: 'e failure + _)"
proof -
  have "collect (\<lambda>x. x) (map (\<lambda>x. Inr (f x)) xs) = (Inr (map f xs) :: 'e failure + _)" by (induction xs) simp_all
  then show ?thesis by (auto simp: join_results_def)
qed

text \<open>The objects of the handles can be read and have the recorded size.\<close>

definition objects_ready ::
    "env \<Rightarrow> repository \<Rightarrow> fs \<Rightarrow> pack_index \<Rightarrow> handle list \<Rightarrow> (handle \<Rightarrow> bytes) \<Rightarrow> bool" where
  "objects_ready E r fs idx hs obj \<longleftrightarrow>
     (\<forall>h \<in> set hs. read_packed_object E r fs idx h = Inr (obj h) \<and> length (obj h) = unat (handle_size idx h))"

lemma collect_objects:
  "\<forall>h \<in> set hs. read_packed_object E r fs idx h = Inr (obj h) \<Longrightarrow>
     collect (read_packed_object E r fs idx) hs = Inr (map obj hs)"
  by (simp add: collect_Inr_iff list_all2_map2 list_all2_same)

definition part_data :: "(handle \<Rightarrow> bytes) \<Rightarrow> handle list \<Rightarrow> bytes" where
  "part_data obj p = concat (map obj p)"

text \<open>What the frames of a pack hold: the objects in the order of the layout, cut into parts.\<close>

definition frame_contents :: "pack_index \<Rightarrow> pack_options \<Rightarrow> (handle \<Rightarrow> bytes) \<Rightarrow> bytes list" where
  "frame_contents idx opts obj = (case compute_object_offsets_and_ordering idx of (idx', hs) \<Rightarrow>
     map (part_data obj) (partition_by_u64 (handle_size idx') hs (po_num_frames opts)))"

lemma compress_frames_ok:
  assumes enc: "encoder_ok E opts (length parts)" and ne: "parts \<noteq> []"
    and obj: "\<forall>h \<in> set (concat parts). read_packed_object E r fs idx h = Inr (obj h)"
  shows "\<exists>fr. compress_frames E r idx opts parts fs = Inr fr \<and> frames_of E fr (map (part_data obj) parts)"
proof -
  let ?w = "workers_per_task (po_num_workers opts) (length parts)"
  let ?co = "\<lparr>co_level = po_level opts, co_window_log = po_window_log opts, co_num_workers = ?w\<rparr>"
  have w: "?w \<noteq> 0" and n: "po_num_workers opts \<noteq> 0"
    using workers_nonzero enc ne by (auto simp: encoder_ok_def)
  have "\<forall>D. \<exists>z. e_zstd E ?co D = Inr z" using enc by (simp add: encoder_ok_def)
  then obtain z where z: "\<And>D. e_zstd E ?co D = Inr (z D)" by metis
  let ?f = "\<lambda>p. (of_nat (length (part_data obj p)) :: u64, z (part_data obj p))"
  have "compress_files E ?co (read_packed_object E r fs idx) p = Inr (?f p)" if "p \<in> set parts" for p
    using collect_objects [of p E r fs idx obj] obj that w
    by (simp add: compress_files_def z part_data_def del: of_nat_length_concat)
  then have "map (compress_files E ?co (read_packed_object E r fs idx)) parts = map (\<lambda>p. Inr (?f p)) parts" by simp
  then have "join_results (map (compress_files E ?co (read_packed_object E r fs idx)) parts) = Inr (map ?f parts)"
    by (simp only: join_results_Inr)
  then have "compress_frames E r idx opts parts fs = Inr (map ?f parts)"
    using n by (simp add: compress_frames_def)
  moreover have "frames_of E (map ?f parts) (map (part_data obj) parts)"
    using z by (auto simp: frames_of_def list_all2_conv_all_nth)
  ultimately show ?thesis by blast
qed

subsection \<open>Building the file\<close>

text \<open>What building a pack needs: the layout, the objects and a free temporary file.\<close>

definition build_ready ::
    "env \<Rightarrow> repository \<Rightarrow> fs \<Rightarrow> pack_index \<Rightarrow> pack_options \<Rightarrow> bytes \<Rightarrow> (handle \<Rightarrow> bytes) \<Rightarrow> bool" where
  "build_ready E r fs idx opts tmp obj \<longleftrightarrow>
     fs_wf fs \<and> no_parent_refs (temp_dir r) \<and> dirs_to fs (temp_dir r) \<and> tmp \<noteq> ''..'' \<and>
     fs_get fs (temp_dir r @ [tmp]) = None \<and>
     index_tables_wf idx \<and> object_table idx \<noteq> [] \<and> layout_total idx < 2 ^ 64 \<and>
     objects_ready E r fs idx (map fst (object_table idx)) obj \<and>
     encoder_ok E opts (length (object_table idx))"

lemma frames_match_objects:
  "concat (map (part_data obj) parts) = concat (map obj (concat parts))"
  by (induction parts) (simp_all add: part_data_def)

lemma file_put_facts:
  assumes "fs_wf fs" "dirs_to fs d" "fs_get fs (d @ [c]) = None"
  shows "fs_wf (fs_put (d @ [c]) (FileNode b m) fs)" "dirs_to (fs_put (d @ [c]) (FileNode b m) fs) d"
    "fs_get (fs_put (d @ [c]) (FileNode b m) fs) q = (if q = d @ [c] then Some (FileNode b m) else fs_get fs q)"
  using fs_wf_same_domain [OF assms] assms(2)
  by (auto simp: fs_get_put dirs_to_def dest: prefix_length_le)

lemma put_put: "p \<noteq> [] \<Longrightarrow> fs_get (fs_put p n (fs_put p n' fs)) q = fs_get (fs_put p n fs) q"
  by (simp add: fs_get_put)

lemma read_packed_object_pool:
  "object_pool idx' = object_pool idx \<Longrightarrow> read_packed_object E r fs idx' = read_packed_object E r fs idx"
  by (simp add: fun_eq_iff read_packed_object_def handle_to_checksum_def)

lemma partition_length:
  "length xs < 2 ^ 32 \<Longrightarrow> xs \<noteq> [] \<Longrightarrow> length (partition_by_u64 f xs n) \<le> length xs"
  using length_partition_by_u64 [of xs f n] by (cases xs) auto

lemma create_append_ok:
  assumes "fs_wf fs" "dirs_to fs d" "no_parent_refs d" "c \<noteq> ''..''" "fs_get fs (d @ [c]) = None"
  shows "\<exists>fs'. andThen (io (create_file (d @ [c]) None)) (\<lambda>q. andThen (fs_append q data) (\<lambda>_. ret x)) fs = (Inr x, fs') \<and>
    fs_wf fs' \<and> (\<forall>q. fs_get fs' q = (if q = d @ [c] then Some (FileNode data created_mode) else fs_get fs q))"
proof -
  let ?p = "d @ [c]"
  let ?f1 = "fs_put ?p (FileNode [] created_mode) fs"
  let ?f2 = "fs_put ?p (FileNode data created_mode) ?f1"
  have "create_file ?p None fs = (Inr ?p, ?f1)"
    using fs_create_new [OF assms(2-5)] by (simp add: create_file_def andThen_def ret_def)
  then have "andThen (io (create_file ?p None)) (\<lambda>q. andThen (fs_append q data) (\<lambda>_. ret x)) fs = (Inr x, ?f2)"
    by (simp add: andThen_def io_def lift_err_def fs_append_def fs_get_put ret_def)
  moreover have "fs_wf ?f2"
  proof (rule fs_wf_put)
    show wf: "fs_wf ?f1" by (rule file_put_facts(1) [OF assms(1,2,5)])
    show "fs_get ?f1 (butlast ?p) = Some DirNode"
      using assms(2) by (simp add: fs_get_put dirs_to_def)
    show "FileNode data created_mode \<noteq> DirNode \<longrightarrow> \<not> has_children ?f1 ?p"
      using children_need_dir [OF wf, of ?p] by (auto simp: fs_get_put)
  qed simp
  ultimately show ?thesis by (auto simp: fs_get_put)
qed

lemma build_pack_ok:
  assumes ready: "build_ready E r fs idx opts tmp obj" and lay: "compute_object_offsets_and_ordering idx = (idx', hs)"
  shows "\<exists>fr fs' Fs. build_pack E r idx opts (temp_dir r @ [tmp]) fs = (Inr idx', fs') \<and> fs_wf fs' \<and>
    (\<forall>q. fs_get fs' q = (if q = temp_dir r @ [tmp] then Some (FileNode (pack_bytes E fr) created_mode) else fs_get fs q)) \<and>
    frames_of E fr Fs \<and> Fs \<noteq> [] \<and> concat Fs = concat (map obj hs) \<and> Fs = frame_contents idx opts obj"
proof -
  have rd: "fs_wf fs" "no_parent_refs (temp_dir r)" "dirs_to fs (temp_dir r)" "tmp \<noteq> ''..''"
      "fs_get fs (temp_dir r @ [tmp]) = None" "index_tables_wf idx" "object_table idx \<noteq> []"
      "objects_ready E r fs idx (map fst (object_table idx)) obj" "encoder_ok E opts (length (object_table idx))"
    using ready by (auto simp: build_ready_def)
  note lo = layout_order [OF rd(6) lay]
  let ?parts = "partition_by_u64 (handle_size idx') hs (po_num_frames opts)"
  have pool: "object_pool idx' = object_pool idx"
    using lay by (auto simp: compute_object_offsets_and_ordering_def Let_def)
  have hs: "hs \<noteq> []" using lo(2) rd(7) by auto
  have "card (set hs) = card (fst ` set (object_table idx))" using lo(2) by simp
  then have len: "length hs \<le> length (object_table idx)"
    using distinct_card [OF lo(1)] card_image_le [of "set (object_table idx)" fst] card_length [of "object_table idx"] by simp
  then have small: "length hs < 2 ^ 32" using rd(9) by (simp add: encoder_ok_def)
  have concat: "concat ?parts = hs" by (rule concat_partition_by_u64)
  have parts: "?parts \<noteq> []" using concat hs by auto
  have "length ?parts \<le> length (object_table idx)" using partition_length [OF small hs] len by (metis order_trans)
  then have enc: "encoder_ok E opts (length ?parts)" using rd(9) by (auto simp: encoder_ok_def)
  have "map_of (object_table idx') h \<noteq> None" if "h \<in> set hs" for h
    using that lo(2,4) by (metis map_of_eq_None_iff set_map)
  then have part: "objects_partitioned_by_size idx' (po_num_frames opts) hs = (Inr ?parts :: error failure + _)"
    by (simp add: objects_partitioned_by_size_def list_all_iff)
  have "\<forall>h \<in> set (concat ?parts). read_packed_object E r fs idx' h = Inr (obj h)"
    using rd(8) lo(2) concat read_packed_object_pool [OF pool] by (simp add: objects_ready_def)
  then obtain fr where fr: "compress_frames E r idx' opts ?parts fs = Inr fr" "frames_of E fr (map (part_data obj) ?parts)"
    using compress_frames_ok [OF enc parts] by blast
  have dir: "ensure_dir (temp_dir r) fs = (Inr (), fs)"
    using create_dir_all_exists [OF rd(3,2)] by (simp add: ensure_dir_def)
  obtain fs' where fs': "andThen (io (create_file (temp_dir r @ [tmp]) None))
        (\<lambda>q. andThen (fs_append q (pack_bytes E fr)) (\<lambda>_. ret idx')) fs = (Inr idx', fs')" "fs_wf fs'"
      "\<forall>q. fs_get fs' q = (if q = temp_dir r @ [tmp] then Some (FileNode (pack_bytes E fr) created_mode) else fs_get fs q)"
    using create_append_ok [OF rd(1,3,2,4,5), of "pack_bytes E fr" "idx'"] by auto
  have e: "io (ensure_dir (temp_dir r)) fs = (Inr (), fs)" using dir by (simp add: io_def lift_err_def)
  have "build_pack E r idx opts (temp_dir r @ [tmp]) fs = (Inr idx', fs')"
    unfolding build_pack_def andThen_Inr [of "io (ensure_dir (temp_dir r))" fs "()" fs, OF e]
    using lay part fr(1) fs'(1) by (simp add: andThen_liftr andThen_query)
  moreover have "concat (map (part_data obj) ?parts) = concat (map obj hs)"
    unfolding frames_match_objects concat ..
  moreover have "map (part_data obj) ?parts = frame_contents idx opts obj" by (simp add: frame_contents_def lay)
  ultimately show ?thesis using fs'(2,3) fr(2) parts by (metis list.map_disc_iff)
qed

subsection \<open>Reading the objects back\<close>

lemma slices_apart:
  assumes "i < j" "j < length xs"
  shows "length (concat (take i xs)) + length (xs ! i) \<le> length (concat (take j xs))"
proof -
  have "take j xs = take (Suc i) xs @ drop (Suc i) (take j xs)"
    using assms by (metis append_take_drop_id less_eq_Suc_le min.absorb1 take_take)
  then have "concat (take j xs) = concat (take (Suc i) xs) @ concat (drop (Suc i) (take j xs))" by (metis concat_append)
  moreover have "concat (take (Suc i) xs) = concat (take i xs) @ xs ! i"
    using assms by (simp add: take_Suc_conv_app_nth)
  ultimately show ?thesis by simp
qed

lemma slice_in_range:
  assumes "i < length xs"
  shows "length (concat (take i xs)) + length (xs ! i) \<le> length (concat xs)"
proof -
  have "concat xs = concat (take (Suc i) xs) @ concat (drop (Suc i) xs)" by (metis append_take_drop_id concat_append)
  then show ?thesis using assms by (simp add: take_Suc_conv_app_nth)
qed

lemma entries_layout:
  assumes wf: "index_tables_wf idx" and lay: "compute_object_offsets_and_ordering idx = (idx', hs)"
    and small: "layout_total idx < 2 ^ 64" and obj: "\<And>h. h \<in> set hs \<Longrightarrow> length (obj h) = unat (handle_size idx h)"
    and es: "\<And>e. e \<in> set es \<Longrightarrow> map_of (object_table idx') (hd_of e) = Some (fe_object e)"
  shows "layout_ok (concat (map obj hs)) es"
    and "e \<in> set es \<Longrightarrow> object_at (concat (map obj hs)) e = obj (hd_of e)"
proof -
  have pos: "\<exists>i<length hs. hs ! i = hd_of e \<and> unat (entry_offset e) = length (concat (take i (map obj hs))) \<and>
      unat (entry_size e) = length (map obj hs ! i)" if "e \<in> set es" for e
    using layout_positions [OF wf lay small obj es [OF that]] by (simp add: entry_offset_def entry_size_def)
  have total: "length (concat (map obj hs)) = layout_total idx"
  proof -
    have "length (concat (map obj hs)) = sum_list (map (\<lambda>h. unat (handle_size idx h)) hs)"
      unfolding length_concat map_map using obj by (intro arg_cong [where f = sum_list] map_cong) auto
    also have "\<dots> = nat_weight (\<lambda>x. x) (map (handle_size idx) hs)" by (simp add: nat_weight_def comp_def)
    also have "map (handle_size idx) hs = map fst (size_handles idx)"
    proof -
      have "handle_size idx (snd x) = fst x" if "x \<in> set (size_handles idx)" for x
        using that size_handles_set [OF table_sorted(2) [OF wf], of "fst x" "snd x"]
        by (auto simp: handle_size_def split: option.splits)
      moreover have "hs = map snd (size_handles idx)"
        using lay by (simp add: compute_object_offsets_and_ordering_def Let_def)
      ultimately show ?thesis by simp
    qed
    finally show ?thesis by (simp add: layout_total_size_handles)
  qed
  have "in_range (concat (map obj hs)) e" if e: "e \<in> set es" for e
  proof -
    obtain i where "i < length hs" "unat (entry_offset e) = length (concat (take i (map obj hs)))"
        "unat (entry_size e) = length (map obj hs ! i)"
      using pos [OF e] by blast
    with slice_in_range [of i "map obj hs"] show ?thesis by (simp add: in_range_def)
  qed
  moreover have "separate e e'" if e: "e \<in> set es" "e' \<in> set es" for e e'
  proof -
    obtain i j where i: "i < length hs" "unat (entry_offset e) = length (concat (take i (map obj hs)))"
        "unat (entry_size e) = length (map obj hs ! i)"
      and j: "j < length hs" "unat (entry_offset e') = length (concat (take j (map obj hs)))"
        "unat (entry_size e') = length (map obj hs ! j)"
      using pos [OF e(1)] pos [OF e(2)] by blast
    consider "i = j" | "i < j" | "j < i" by linarith
    then show ?thesis
    proof cases
      case 1
      with i j have "unat (entry_offset e) = unat (entry_offset e')" "unat (entry_size e) = unat (entry_size e')"
        by simp_all
      then have "entry_offset e = entry_offset e'" "entry_size e = entry_size e'"
        by (simp_all only: word_unat_eq_iff)
      then show ?thesis by (simp add: separate_def)
    next
      case 2
      with slices_apart [of i j "map obj hs"] i j show ?thesis by (simp add: separate_def)
    next
      case 3
      with slices_apart [of j i "map obj hs"] i j show ?thesis by (simp add: separate_def)
    qed
  qed
  ultimately show "layout_ok (concat (map obj hs)) es"
    using small total by (simp add: layout_ok_def list_all_iff)
  show "object_at (concat (map obj hs)) e = obj (hd_of e)" if "e \<in> set es"
    using layout_slices [OF wf lay small obj es [OF that]] by (simp add: object_at_def entry_offset_def entry_size_def)
qed

text \<open>Every object of the index is on disk with the size the index records.\<close>

definition objects_present :: "env \<Rightarrow> repository \<Rightarrow> fs \<Rightarrow> pack_index \<Rightarrow> (checksum \<Rightarrow> bytes) \<Rightarrow> bool" where
  "objects_present E r fs idx data \<longleftrightarrow>
     (\<forall>h \<in> fst ` set (object_table idx). \<exists>c. pool_lookup (object_pool idx) h = Some c \<and>
        read_packed_object E r fs idx h = Inr (data c) \<and> length (data c) = unat (handle_size idx h))"

definition handle_data :: "pack_index \<Rightarrow> (checksum \<Rightarrow> bytes) \<Rightarrow> handle \<Rightarrow> bytes" where
  "handle_data idx data h = (case pool_lookup (object_pool idx) h of Some c \<Rightarrow> data c | None \<Rightarrow> [])"

lemma objects_present_ready:
  "objects_present E r fs idx data \<Longrightarrow> objects_ready E r fs idx (map fst (object_table idx)) (handle_data idx data)"
  by (fastforce simp: objects_present_def objects_ready_def handle_data_def)

lemma entry_handles:
  assumes "entries_from_handles idx fhs = Inr es" "e \<in> set es"
  shows "\<exists>h. map_of (object_table idx) h = Some (fe_object e) \<and> pool_lookup (object_pool idx) h = Some (fe_checksum e)"
proof -
  from assms obtain fh where "handle_to_entry idx fh = Inr e"
    by (auto simp: entries_from_handles_def collect_Inr_iff list_all2_conv_all_nth in_set_conv_nth)
  then show ?thesis by (auto simp: handle_to_entry_def result_simps)
qed

lemma built_pack_layout:
  assumes wf: "index_tables_wf idx" and lay: "compute_object_offsets_and_ordering idx = (idx', hs)"
    and small: "layout_total idx < 2 ^ 64" and data: "objects_present E r fs idx data"
    and es: "\<And>e. e \<in> set es \<Longrightarrow> \<exists>h. map_of (object_table idx') h = Some (fe_object e) \<and>
      pool_lookup (object_pool idx') h = Some (fe_checksum e)"
  shows "layout_ok (concat (map (handle_data idx data) hs)) es"
    and "e \<in> set es \<Longrightarrow> object_at (concat (map (handle_data idx data) hs)) e = data (fe_checksum e)"
proof -
  let ?obj = "handle_data idx data"
  have pool: "object_pool idx' = object_pool idx"
    using lay by (auto simp: compute_object_offsets_and_ordering_def Let_def)
  obtain hd_of where h: "\<forall>e \<in> set es. map_of (object_table idx') (hd_of e) = Some (fe_object e) \<and>
      pool_lookup (object_pool idx') (hd_of e) = Some (fe_checksum e)"
    using es by (metis (no_types))
  have obj: "length (?obj h) = unat (handle_size idx h)" if "h \<in> set hs" for h
    using objects_present_ready [OF data] that layout_order(2) [OF wf lay] by (auto simp: objects_ready_def)
  show "layout_ok (concat (map ?obj hs)) es"
    by (rule entries_layout(1) [OF wf lay small obj]) (use h in auto)
  show "object_at (concat (map ?obj hs)) e = data (fe_checksum e)" if e: "e \<in> set es"
  proof -
    have "object_at (concat (map ?obj hs)) e = ?obj (hd_of e)"
      by (rule entries_layout(2) [OF wf lay small obj _ e]) (use h in auto)
    with h e pool show ?thesis by (simp add: handle_data_def)
  qed
qed

lemma built_pack_reads:
  assumes wf: "index_tables_wf idx" and lay: "compute_object_offsets_and_ordering idx = (idx', hs)"
    and small: "layout_total idx < 2 ^ 64" and data: "objects_present E r fs idx data"
    and m: "frames_match pk Fs" "concat Fs = concat (map (handle_data idx data) hs)"
    and es: "entries_from_handles idx' fhs = Inr es"
  shows "\<exists>rs. read_entry_objects pk es = Inr rs \<and>
    mset (map (\<lambda>(e, b). (entry_content e, b)) rs) = mset (map (\<lambda>e. (entry_content e, data (fe_checksum e))) es)"
proof -
  note layout = built_pack_layout [OF wf lay small data, of es, folded m(2), OF entry_handles [OF es]]
  have "map (\<lambda>e. (entry_content e, object_at (concat Fs) e)) es = map (\<lambda>e. (entry_content e, data (fe_checksum e))) es"
    using layout(2) by simp
  with read_entry_objects_ok [OF m(1) layout(1)] show ?thesis by (simp only:)
qed

end
