(* ===== verification/PackCreate.thy ===== *)
theory PackCreate
  imports PackBuild
begin

text \<open>
  Creating a pack as a whole: the reservation of the index, the frames, the pack file published
  before its index, and what both read back as.
\<close>

subsection \<open>Names\<close>

lemma regular_name:
  assumes "is_utf8 name" "is_valid_regular name" "CHR ''/'' \<notin> set name"
  shows "name \<noteq> []" "target_components name = [name]" "link_start p name = p" "CHR ''.'' \<notin> set name"
proof -
  have s: "split_on (CHR ''/'') name = [name]" using assms(3) by (simp add: split_on_no_sep)
  have c: "name \<noteq> [] \<and> (\<forall>b \<in> set name. byte_val b < 128 \<longrightarrow> pack_char_ok (byte_val b))"
    using regular_components [OF assms(1,2), of name] s by simp
  then show ne: "name \<noteq> []" by blast
  show dot: "CHR ''.'' \<notin> set name"
  proof
    assume "CHR ''.'' \<in> set name"
    moreover have "byte_val (CHR ''.'') < 128" by (simp add: byte_val_def)
    ultimately show False using c pack_char_ok_dot by blast
  qed
  then have "name \<noteq> ''.''" by auto
  with ne s show "target_components name = [name]" by (simp add: target_components_def)
  show "link_start p name = p" using ne assms(3) by (cases name) (auto simp: link_start_def)
qed

lemma pack_paths:
  assumes "is_utf8 name" "is_valid_regular name" "CHR ''/'' \<notin> set name"
  shows "pack_file_path r (Pack name) = packs_root r @ [name @ ''.pack'']"
    and "append_path_suffix (packs_root r @ [name @ ''.pack'']) ''.idx'' = packs_root r @ [name @ ''.pack.idx'']"
    and "get_pack_index_path r (Pack name) = packs_root r @ [name @ ''.pack.idx'']"
    and "append_path_suffix (rp_data_dir r @ packs_dir # target_components name) ''.pack'' = packs_root r @ [name @ ''.pack'']"
proof -
  note n = regular_name [OF assms]
  have "CHR ''/'' \<notin> set (name @ ''.pack'')" using assms(3) by simp
  then have "target_components (name @ ''.pack'') = [name @ ''.pack'']"
    by (simp add: target_components_def split_on_no_sep append_eq_Cons_conv)
  moreover have "link_start p (name @ ''.pack'') = p" for p
    using n(1) assms(3) by (cases name) (auto simp: link_start_def)
  ultimately show "pack_file_path r (Pack name) = packs_root r @ [name @ ''.pack'']"
    by (simp add: pack_file_path_def path_push_def pack_extension_def)
  show "append_path_suffix (packs_root r @ [name @ ''.pack'']) ''.idx'' = packs_root r @ [name @ ''.pack.idx'']"
    by (simp add: append_path_suffix_def)
  show "get_pack_index_path r (Pack name) = packs_root r @ [name @ ''.pack.idx'']"
    using n by (simp add: get_pack_index_path_def path_push_def append_path_suffix_def dot_pack_index_extension_def)
  show "append_path_suffix (rp_data_dir r @ packs_dir # target_components name) ''.pack'' = packs_root r @ [name @ ''.pack'']"
    using n by (simp add: append_path_suffix_def packs_root_def packs_name_def packs_dir_def butlast_append)
qed

subsection \<open>The whole\<close>

definition index_place_of :: "env \<Rightarrow> repository \<Rightarrow> bytes \<Rightarrow> index_place" where
  "index_place_of E r name =
     \<lparr>ip_dir = packs_root r, ip_name = name @ ''.pack.idx'', ip_rnd = e_tmp E (packs_root r @ [name @ ''.pack.idx''])\<rparr>"

definition pack_rnd :: "env \<Rightarrow> repository \<Rightarrow> bytes \<Rightarrow> bytes" where
  "pack_rnd E r name = e_tmp E (packs_root r @ [name @ ''.pack''])"

text \<open>Free places for the two files, the temporary ones included.\<close>

definition pack_place_free :: "env \<Rightarrow> repository \<Rightarrow> fs \<Rightarrow> bytes \<Rightarrow> bool" where
  "pack_place_free E r fs name \<longleftrightarrow>
     place_free E r fs (index_place_of E r name) \<and>
     fs_get fs (packs_root r @ [name @ ''.pack'']) = None \<and>
     fs_get fs (acf_temp_path (packs_root r) (pack_rnd E r name)) = None \<and>
     \<not> e_held E (packs_root r @ [name @ ''.pack'']) \<and>
     pack_rnd E r name \<noteq> e_tmp E (packs_root r @ [name @ ''.pack.idx''])"

text \<open>The objects of an index in the loose store.\<close>

definition objects_loose :: "env \<Rightarrow> repository \<Rightarrow> fs \<Rightarrow> pack_index \<Rightarrow> (checksum \<Rightarrow> bytes) \<Rightarrow> bool" where
  "objects_loose E r fs idx data \<longleftrightarrow>
     (\<forall>h \<in> fst ` set (object_table idx). \<exists>c. pool_lookup (object_pool idx) h = Some c \<and>
        length (data c) = unat (handle_size idx h) \<and>
        (if list_all (\<lambda>b. b = CHR 0x00) c then data c = []
         else object_stored fs (loose_object_path E r c) (data c)))"

lemma loose_path_below: "prefix (loose_root r) (loose_object_path E r c)"
  by (simp add: loose_object_path_def Let_def)

lemma objects_loose_present:
  assumes "objects_loose E r fs idx data"
    and "\<And>q. prefix (loose_root r) q \<Longrightarrow> fs_get fs' q = fs_get fs q"
    and "\<And>q. fs_get fs q = Some DirNode \<Longrightarrow> fs_get fs' q = Some DirNode"
  shows "objects_present E r fs' idx data"
proof -
  have "object_stored fs' (loose_object_path E r c) b" if st: "object_stored fs (loose_object_path E r c) b" for c b
  proof (rule object_stored_frame [OF st])
    fix q assume q: "prefix q (loose_object_path E r c)"
    show "fs_get fs' q = fs_get fs q"
    proof (cases "q = loose_object_path E r c")
      case True
      with assms(2) loose_path_below show ?thesis by blast
    next
      case False
      with q st have "fs_get fs q = Some DirNode" by (auto simp: object_stored_def dirs_above_def strict_prefix_def)
      with assms(3) show ?thesis by simp
    qed
  qed
  then have "read_packed_object E r fs' idx h = Inr (data c)"
    if "pool_lookup (object_pool idx) h = Some c"
      "if list_all (\<lambda>b. b = CHR 0x00) c then data c = [] else object_stored fs (loose_object_path E r c) (data c)" for h c
    using that object_stored_read
    by (auto simp: read_packed_object_def handle_to_checksum_def split: if_splits)
  then show ?thesis using assms(1) unfolding objects_loose_def objects_present_def by blast
qed

lemma remove_file_ok:
  assumes "fs_wf fs" "dirs_to fs d" "no_parent_refs d" "c \<noteq> ''..''" "fs_get fs (d @ [c]) = Some (FileNode b m)"
  shows "remove_file (d @ [c]) fs = (Inr (), fs_del (d @ [c]) fs)" "fs_wf (fs_del (d @ [c]) fs)"
proof -
  have "resolve_entry fs (d @ [c]) = Inr (d @ [c])"
    using assms(2-4) by (intro resolve_entry_plain) (simp_all add: no_parent_refs_snoc dirs_above_snoc)
  with assms(5) show "remove_file (d @ [c]) fs = (Inr (), fs_del (d @ [c]) fs)" by (simp add: remove_file_def)
  show "fs_wf (fs_del (d @ [c]) fs)"
    using children_need_dir [OF assms(1), of "d @ [c]"] assms(5) by (intro fs_wf_del [OF assms(1)]) auto
qed

lemma file_stored:
  assumes "fs_wf fs" "no_parent_refs p" "fs_get fs p = Some (FileNode b m)" "and m owner_read \<noteq> 0"
  shows "object_stored fs p b"
  using assms fs_wf_prefix [OF assms(1), of p] by (auto simp: object_stored_def dirs_above_def)

lemma pack_file_readable: "and created_mode owner_read \<noteq> 0"
  by (simp add: created_mode_def owner_read_def)

text \<open>The finished temporary file becomes the pack; nothing else changes.\<close>

lemma publish_pack_ok:
  assumes fs: "fs_wf fs" "dirs_to fs d" "no_parent_refs d" "dirs_to fs td" "no_parent_refs td" "td \<noteq> d"
    and names: "n \<noteq> ''..''" "t \<noteq> ''..''" "n \<noteq> ''.elfshakertmp_'' @ e_tmp E (d @ [n])"
    and temp: "fs_get fs (td @ [t]) = Some (FileNode data created_mode)" "data \<noteq> []"
    and free: "fs_get fs (d @ [n]) = None" "fs_get fs (acf_temp_path d (e_tmp E (d @ [n]))) = None" "\<not> e_held E (d @ [n])"
  shows "\<exists>fs'. publish_pack E False (td @ [t]) (d @ [n]) fs = Some (Inr (), fs') \<and> fs_wf fs' \<and>
    (\<forall>q. fs_get fs' q = (if q = d @ [n] then Some (FileNode data created_mode)
       else if q = td @ [t] then None else fs_get fs q))"
proof -
  let ?r = "e_tmp E (d @ [n])" let ?a = "acf_temp_path d ?r"
  let ?f1 = "fs_put (d @ [n]) (FileNode [] created_mode) fs"
  let ?f2 = "fs_put ?a (FileNode [] created_mode) ?f1"
  have new: "acf_new (e_held E) ?r (d @ [n]) fs = Some (Inr (acf_handle d n ?r), ?f2)"
    using acf_new_absent [of fs d n ?r "e_held E"] fs(2,3) names(1,3) free by blast
  note f1 = file_put_facts [OF fs(1,2) free(1), of "[]" created_mode]
  have a1: "fs_get ?f1 (d @ [''.elfshakertmp_'' @ ?r]) = None"
    using free(2) names(3) f1(3) by (simp add: acf_temp_path_def)
  note f2 = file_put_facts [OF f1(1,2) a1, of "[]" created_mode, folded acf_temp_path_def]
  have g2: "fs_get ?f2 q = (if q = ?a \<or> q = d @ [n] then Some (FileNode [] created_mode) else fs_get fs q)" for q
    using f2(3) f1(3) by simp
  have ne: "td @ [t] \<noteq> ?a" "td @ [t] \<noteq> d @ [n]" using fs(6) by (simp_all add: acf_temp_path_def)
  have t2: "fs_get ?f2 (td @ [t]) = Some (FileNode data created_mode)" using g2 temp(1) ne fs(6) by simp
  have rd: "fs_read ?f2 (td @ [t]) = Inr data"
    using file_stored [OF f2(1) _ t2 pack_file_readable] fs(5) names(2)
    by (intro object_stored_read) (simp add: no_parent_refs_snoc)
  obtain f3 where f3: "commit_content (acf_handle d n ?r) (data, None) ?f2 = (Inr (), f3)" "fs_wf f3"
      "\<forall>q. fs_get f3 q = (if q = d @ [n] then Some (FileNode data created_mode) else if q = ?a then None else fs_get ?f2 q)"
    using commit_content_ok [OF f2(1,2) fs(3) names(1,3) _ _ temp(2), of created_mode] g2 names(3) by auto
  have t3: "fs_get f3 (td @ [t]) = Some (FileNode data created_mode)" using f3(3) t2 ne fs(6) by simp
  have td3: "dirs_to f3 td"
    using fs_wf_parent [OF f3(2), of td t] t3 dirs_to_get [OF f3(2)] by simp
  note rm = remove_file_ok [OF f3(2) td3 fs(5) names(2) t3]
  let ?f4 = "fs_del (td @ [t]) f3"
  have "publish_pack E False (td @ [t]) (d @ [n]) fs = Some (Inr (), ?f4)"
    using new rd f3(1) rm(1) by (simp add: publish_pack_def andThen_def io_def lift_err_def query_def)
  moreover have "fs_get ?f4 q = (if q = d @ [n] then Some (FileNode data created_mode)
       else if q = td @ [t] then None else fs_get fs q)" for q
    using f3(3) g2 ne free(2) fs(6) by (simp add: fs_get_del)
  ultimately show ?thesis using rm(2) by blast
qed

definition pack_ready ::
    "env \<Rightarrow> repository \<Rightarrow> fs \<Rightarrow> bytes \<Rightarrow> pack_index \<Rightarrow> pack_options \<Rightarrow> (checksum \<Rightarrow> bytes) \<Rightarrow> bool" where
  "pack_ready E r fs name idx opts data \<longleftrightarrow>
     is_utf8 name \<and> is_valid_regular name \<and> CHR ''/'' \<notin> set name \<and> pack_place_free E r fs name \<and>
     zstd_ok E \<and> header_ok E \<and> codec_ok (e_codec E) \<and> encoder_ok E opts (length (object_table idx)) \<and>
     no_parent_refs (rp_data_dir r) \<and> dirs_to fs (temp_dir r) \<and> e_tmp E (temp_dir r) \<noteq> ''..'' \<and>
     fs_get fs (temp_dir r @ [e_tmp E (temp_dir r)]) = None \<and>
     index_tables_wf idx \<and> object_table idx \<noteq> [] \<and> layout_total idx < 2 ^ 64 \<and>
     (\<forall>p \<in> set (pool_entries (path_pool idx)). pack_path_ok p) \<and> objects_loose E r fs idx data"

lemma pack_readyD:
  assumes "pack_ready E r fs name idx opts data"
  shows "is_utf8 name" "is_valid_regular name" "CHR ''/'' \<notin> set name" "place_free E r fs (index_place_of E r name)"
    "fs_get fs (packs_root r @ [name @ ''.pack'']) = None"
    "fs_get fs (acf_temp_path (packs_root r) (pack_rnd E r name)) = None"
    "\<not> e_held E (packs_root r @ [name @ ''.pack''])" "pack_rnd E r name \<noteq> ip_rnd (index_place_of E r name)"
    "encoder_ok E opts (length (object_table idx))" "no_parent_refs (rp_data_dir r)" "dirs_to fs (temp_dir r)"
    "e_tmp E (temp_dir r) \<noteq> ''..''" "fs_get fs (temp_dir r @ [e_tmp E (temp_dir r)]) = None" "index_tables_wf idx"
    "object_table idx \<noteq> []" "layout_total idx < 2 ^ 64" "objects_loose E r fs idx data"
    "\<forall>p \<in> set (pool_entries (path_pool idx)). pack_path_ok p"
  using assms by (auto simp: pack_ready_def pack_place_free_def index_place_of_def)

lemma no_dot_head: "CHR ''.'' \<notin> set name \<Longrightarrow> name \<noteq> [] \<Longrightarrow> name @ s \<noteq> CHR ''.'' # t"
  by (cases name) auto

lemma index_place_fields [simp]:
  "ip_dir (index_place_of E r name) = packs_root r" "ip_name (index_place_of E r name) = name @ ''.pack.idx''"
  "ip_path (index_place_of E r name) = packs_root r @ [name @ ''.pack.idx'']"
  by (simp_all add: index_place_of_def ip_path_def)

lemma packs_not_temp [simp]:
  "\<not> prefix (temp_dir r) (packs_root r)" "temp_dir r \<noteq> packs_root r" "packs_root r \<noteq> temp_dir r"
  using packs_not_loose(2) [of r "[]"] by auto

lemma pack_built:
  assumes ready: "pack_ready E r fs name idx opts data" and res: "reserved (index_place_of E r name) fs fs2"
    and lay: "compute_object_offsets_and_ordering idx = (idx', hs)"
  shows "\<exists>fr fs' Fs. build_pack E r idx opts (temp_dir r @ [e_tmp E (temp_dir r)]) fs2 = (Inr idx', fs') \<and> fs_wf fs' \<and>
    (\<forall>q. fs_get fs' q = (if q = temp_dir r @ [e_tmp E (temp_dir r)] then Some (FileNode (pack_bytes E fr) created_mode)
       else fs_get fs2 q)) \<and>
    frames_of E fr Fs \<and> Fs \<noteq> [] \<and> concat Fs = concat (map (handle_data idx data) hs) \<and> objects_present E r fs2 idx data \<and>
    Fs = frame_contents idx opts (handle_data idx data)"
proof -
  note rd = pack_readyD [OF ready] and get = reserved_get [OF pack_readyD(4) [OF ready] res]
  have dirs: "fs_get fs2 q = Some DirNode" if "fs_get fs q = Some DirNode" for q
  proof (cases "prefix q (packs_root r)")
    case True
    with get(2) show ?thesis by simp
  next
    case False
    have "q \<noteq> packs_root r @ [name @ ''.pack.idx'']" "q \<noteq> acf_temp_path (packs_root r) (ip_rnd (index_place_of E r name))"
      using that rd(4) by (auto simp: place_free_def)
    with False get(3) that show ?thesis by simp
  qed
  have present: "objects_present E r fs2 idx data"
    using objects_loose_present [OF rd(17), of fs2] get(1) dirs by blast
  have "dirs_to fs2 (temp_dir r)" using rd(11) dirs by (simp add: dirs_to_def)
  moreover have "fs_get fs2 (temp_dir r @ [e_tmp E (temp_dir r)]) = None"
    using get(1) [of "temp_dir r @ [e_tmp E (temp_dir r)]"] rd(13) by simp
  moreover have "no_parent_refs (temp_dir r)"
    using rd(10) by (simp add: temp_dir_def no_parent_refs_snoc temp_name_def)
  ultimately have "build_ready E r fs2 idx opts (e_tmp E (temp_dir r)) (handle_data idx data)"
    using res rd objects_present_ready [OF present] by (simp add: build_ready_def reserved_def)
  from build_pack_ok [OF this lay] present show ?thesis by blast
qed

definition pack_files ::
    "env \<Rightarrow> repository \<Rightarrow> bytes \<Rightarrow> bytes \<Rightarrow> bytes \<Rightarrow> fs \<Rightarrow> fs \<Rightarrow> bool" where
  "pack_files E r name pack_data index_data fs fs' \<longleftrightarrow> fs_wf fs' \<and>
     (\<forall>q. fs_get fs' q =
        (if q = packs_root r @ [name @ ''.pack.idx''] then Some (FileNode index_data created_mode)
         else if q = packs_root r @ [name @ ''.pack''] then Some (FileNode pack_data created_mode)
         else if prefix q (packs_root r) then Some DirNode else fs_get fs q))"

lemma create_pack_ok:
  assumes ready: "pack_ready E r fs name idx opts data" and lay: "compute_object_offsets_and_ordering idx = (idx', hs)"
  shows "\<exists>fr Fs fs2 fs'. create_pack E r (Pack name) idx opts fs = Some (Inr (), fs') \<and>
    pack_files E r name (pack_bytes E fr) (write_index (e_codec E) idx') fs fs' \<and>
    frames_of E fr Fs \<and> Fs \<noteq> [] \<and> concat Fs = concat (map (handle_data idx data) hs) \<and> objects_present E r fs2 idx data \<and>
    Fs = frame_contents idx opts (handle_data idx data)"
proof -
  let ?i = "index_place_of E r name" and ?d = "packs_root r" and ?t = "e_tmp E (temp_dir r)"
  let ?pn = "name @ ''.pack''" and ?in = "name @ ''.pack.idx''"
  note rd = pack_readyD [OF ready]
  note paths = pack_paths [OF rd(1-3), of r] and n = regular_name [OF rd(1-3)]
  have npd: "no_parent_refs ?d" "no_parent_refs (temp_dir r)"
    using rd(10) by (auto simp: packs_root_def temp_dir_def no_parent_refs_snoc packs_name_def temp_name_def)
  obtain fs1 fs2 where r: "ensure_dir ?d fs = (Inr (), fs1)" "metadata fs1 (?d @ [?in]) = Inl NotFound"
      "reserve_output E False (?d @ [?in]) fs1 = Some (Inr (Some (acf_handle ?d ?in (ip_rnd ?i))), fs2)" "reserved ?i fs fs2"
    using reserve_place [OF rd(4)] by auto
  note get = reserved_get [OF rd(4) r(4)]
  obtain fr fs3 Fs where b: "build_pack E r idx opts (temp_dir r @ [?t]) fs2 = (Inr idx', fs3)" "fs_wf fs3"
      "\<forall>q. fs_get fs3 q = (if q = temp_dir r @ [?t] then Some (FileNode (pack_bytes E fr) created_mode) else fs_get fs2 q)"
      "frames_of E fr Fs" "Fs \<noteq> []" "concat Fs = concat (map (handle_data idx data) hs)" "objects_present E r fs2 idx data"
      "Fs = frame_contents idx opts (handle_data idx data)"
    using pack_built [OF ready r(4) lay] by blast
  have ne: "temp_dir r @ [?t] \<noteq> ?d @ [x]" for x using packs_not_temp(2) by simp
  have names: "?pn \<noteq> ''.elfshakertmp_'' @ s" "?in \<noteq> ''.elfshakertmp_'' @ s" "?pn \<noteq> ''..''" "?in \<noteq> ''..''" "?pn \<noteq> ?in" for s
    using no_dot_head [OF n(4,1)] by auto
  have d3: "dirs_to fs3 ?d"
    using get(2) b(3) ne packs_not_temp by (auto simp: dirs_to_def dest: append_prefixD)
  have td3: "dirs_to fs3 (temp_dir r)"
    using fs_wf_parent [OF b(2), of "temp_dir r" ?t] b(3) dirs_to_get [OF b(2)] by simp
  have pack3: "fs_get fs3 (?d @ [?pn]) = None" "fs_get fs3 (acf_temp_path ?d (pack_rnd E r name)) = None"
  proof -
    let ?a = "acf_temp_path ?d (pack_rnd E r name)"
    have "?d @ [?pn] \<noteq> acf_temp_path ?d (ip_rnd ?i)" "?a \<noteq> ?d @ [?in]" "?a \<noteq> acf_temp_path ?d (ip_rnd ?i)"
      using names(1,2) [of "ip_rnd ?i"] names(2) [of "pack_rnd E r name"] rd(8) by (auto simp: acf_temp_path_def)
    moreover have "\<not> prefix (?d @ [x]) ?d" for x by (auto dest: prefix_length_le)
    ultimately have "fs_get fs2 (?d @ [?pn]) = None" "fs_get fs2 ?a = None"
      using get(3) [of "?d @ [?pn]"] get(3) [of ?a] rd(5,6) names(5) by (simp_all add: acf_temp_path_def)
    with b(3) ne show "fs_get fs3 (?d @ [?pn]) = None" "fs_get fs3 ?a = None"
      by (simp_all add: acf_temp_path_def)
  qed
  have "4 \<le> length (pack_bytes E fr)" by (simp add: pack_bytes_def write_skippable_frame_def)
  then have data: "pack_bytes E fr \<noteq> []" by auto
  obtain fs4 where p: "publish_pack E False (temp_dir r @ [?t]) (?d @ [?pn]) fs3 = Some (Inr (), fs4)" "fs_wf fs4"
      "\<forall>q. fs_get fs4 q = (if q = ?d @ [?pn] then Some (FileNode (pack_bytes E fr) created_mode)
         else if q = temp_dir r @ [?t] then None else fs_get fs3 q)"
    using publish_pack_ok [OF b(2) d3 npd(1) td3 npd(2) packs_not_temp(2) names(3) rd(12) names(1) _ data, of E]
      b(3) pack3 rd(7) by (auto simp: pack_rnd_def)
  have d4: "dirs_to fs4 ?d" using fs_wf_parent [OF p(2), of ?d ?pn] p(3) dirs_to_get [OF p(2)] by simp
  have tmp4: "fs_get fs4 (acf_temp_path ?d (ip_rnd ?i)) = Some (FileNode [] created_mode)"
    using p(3) b(3) r(4) ne names(1) [of "ip_rnd ?i", THEN not_sym] by (auto simp: reserved_def acf_temp_path_def)
  have in4: "fs_get fs4 (?d @ [?in]) = Some (FileNode [] created_mode)"
    using p(3) b(3) r(4) ne names(5) by (auto simp: reserved_def)
  obtain fs5 where c: "commit_content (acf_handle ?d ?in (ip_rnd ?i)) (write_index (e_codec E) idx', None) fs4 = (Inr (), fs5)"
      "fs_wf fs5" "\<forall>q. fs_get fs5 q = (if q = ?d @ [?in] then Some (FileNode (write_index (e_codec E) idx') created_mode)
         else if q = acf_temp_path ?d (ip_rnd ?i) then None else fs_get fs4 q)"
    using commit_content_ok [OF p(2) d4 npd(1) names(4) names(2) tmp4 _ write_index_nonempty [of "e_codec E" idx']] in4 by auto
  have way: "\<not> pack_in_the_way fs1 (?d @ [?pn])"
  proof -
    obtain fs1' where f: "create_dir_all ?d fs = (Inr (), fs1')" "\<forall>q. fs_get fs1' q = (if prefix q ?d then Some DirNode else fs_get fs q)"
      using create_dir_all_ok [of fs ?d] rd(4) by (auto simp: place_free_def)
    then have "fs1' = fs1" using r(1) by (simp add: ensure_dir_def)
    then have "dirs_to fs1 ?d" "fs_get fs1 (?d @ [?pn]) = None"
      using parent_dirs [OF f(2), of ?pn] rd(5) by simp_all
    then have "metadata fs1 (?d @ [?pn]) = Inl NotFound"
      using open_plain [of fs1 ?d ?pn] npd(1) names(3) by (simp add: metadata_def)
    then show ?thesis by (simp add: pack_in_the_way_def)
  qed
  have pub: "publish E r (Some (acf_handle ?d ?in (ip_rnd ?i))) (write_index (e_codec E) idx') (?d @ [?in]) fs4 = (Inr (), fs5)"
    using c(1) by (simp add: publish_def lift_err_def)
  have start: "andThen (liftr (map_err (\<lambda>e. Fail (IdError e)) (validate_regular (Pack name)))) (\<lambda>_. io (ensure_dir ?d)) fs =
      (Inr (), fs1)"
    using rd(2) r(1) by (simp add: andThen_liftr io_def lift_err_def)
  have "create_pack E r (Pack name) idx opts fs = Some (Inr (), fs5)"
    unfolding create_pack_def create_pack_impl_def Let_def paths(1,2) start
    using way r(3) b(1) p(1) pub by simp
  moreover have "pack_files E r name (pack_bytes E fr) (write_index (e_codec E) idx') fs fs5"
  proof -
    have "fs_get fs5 q = (if q = ?d @ [?in] then Some (FileNode (write_index (e_codec E) idx') created_mode)
         else if q = ?d @ [?pn] then Some (FileNode (pack_bytes E fr) created_mode)
         else if prefix q ?d then Some DirNode else fs_get fs q)" for q
    proof -
      have "fs_get fs (acf_temp_path ?d (ip_rnd ?i)) = None" using rd(4) by (simp add: place_free_def)
      moreover have "\<not> prefix (acf_temp_path ?d (ip_rnd ?i)) ?d" "\<not> prefix (temp_dir r @ [?t]) ?d"
        using packs_not_temp(1) by (auto simp: acf_temp_path_def dest: prefix_length_le append_prefixD)
      moreover have "acf_temp_path ?d (ip_rnd ?i) \<noteq> ?d @ [?pn]"
        using names(1) [of "ip_rnd ?i", THEN not_sym] by (simp add: acf_temp_path_def)
      ultimately show ?thesis
        using c(3) p(3) b(3) r(4) rd(13) names(5) by (auto simp: reserved_def)
    qed
    with c(2) show ?thesis by (simp add: pack_files_def)
  qed
  ultimately show ?thesis using b(4-8) by blast
qed

subsection \<open>Reading the pack back\<close>

lemma layout_index:
  assumes "index_tables_wf idx" "compute_object_offsets_and_ordering idx = (idx', hs)"
  shows "index_tables_wf idx'" "path_pool idx' = path_pool idx" "snapshots_of (idx'\<lparr>current := []\<rparr>) = snapshots_of idx"
proof -
  have i: "idx' = idx\<lparr>object_table := object_table idx'\<rparr>"
    using assms(2) by (auto simp: compute_object_offsets_and_ordering_def Let_def)
  have f: "object_pool idx' = object_pool idx" "path_pool idx' = path_pool idx"
    "snapshot_tags idx' = snapshot_tags idx" "snapshot_deltas idx' = snapshot_deltas idx"
    by (subst i, simp)+
  then show "path_pool idx' = path_pool idx" by blast
  show "index_tables_wf idx'"
    using assms(1) layout_order(4) [OF assms] f by (simp add: index_tables_wf_def)
  have "handle_content (idx'\<lparr>current := []\<rparr>) = handle_content idx"
    using f by (simp add: fun_eq_iff handle_content_def)
  then have "contents_of (idx'\<lparr>current := []\<rparr>) = contents_of idx" by (simp add: fun_eq_iff contents_of_def)
  with f show "snapshots_of (idx'\<lparr>current := []\<rparr>) = snapshots_of idx" by (simp add: snapshots_of_def)
qed

lemma entries_current: "entries_from_handles (idx\<lparr>current := c\<rparr>) = entries_from_handles idx"
proof -
  have "handle_to_entry (idx\<lparr>current := c\<rparr>) = handle_to_entry idx" by (rule ext) (simp add: handle_to_entry_def)
  then show ?thesis by (intro ext) (simp only: entries_from_handles_def)
qed

text \<open>Reading an entry of the index gives the object with its checksum.\<close>

definition reads_objects :: "pack \<Rightarrow> pack_index \<Rightarrow> (checksum \<Rightarrow> bytes) \<Rightarrow> bool" where
  "reads_objects pk idx data \<longleftrightarrow>
     (\<forall>fhs es. entries_from_handles idx fhs = Inr es \<longrightarrow> (\<exists>rs. read_entry_objects pk es = Inr rs \<and>
        mset (map (\<lambda>(e, b). (entry_content e, b)) rs) = mset (map (\<lambda>e. (entry_content e, data (fe_checksum e))) es)))"

lemma pack_files_read:
  assumes "pack_files E r name pack_data index_data fs fs'" "no_parent_refs (rp_data_dir r)" "CHR ''.'' \<notin> set name" "name \<noteq> []"
  shows "fs_read fs' (packs_root r @ [name @ ''.pack.idx'']) = Inr index_data"
    and "fs_read fs' (packs_root r @ [name @ ''.pack'']) = Inr pack_data"
proof -
  have np: "no_parent_refs (packs_root r)" using assms(2) by (simp add: packs_root_def no_parent_refs_snoc packs_name_def)
  have n: "name @ ''.pack.idx'' \<noteq> ''..''" "name @ ''.pack'' \<noteq> ''..''" using no_dot_head [OF assms(3,4)] by auto
  have "object_stored fs' (packs_root r @ [name @ ''.pack.idx'']) index_data"
    "object_stored fs' (packs_root r @ [name @ ''.pack'']) pack_data"
    using assms(1) np n pack_file_readable by (auto intro!: file_stored simp: pack_files_def no_parent_refs_snoc)
  then show "fs_read fs' (packs_root r @ [name @ ''.pack.idx'']) = Inr index_data"
    and "fs_read fs' (packs_root r @ [name @ ''.pack'']) = Inr pack_data"
    by (simp_all add: object_stored_read)
qed

lemma packed_index_loads:
  assumes ready: "pack_ready E r fs name idx opts data" and lay: "compute_object_offsets_and_ordering idx = (idx', hs)"
    and written: "fs_read fs' (packs_root r @ [name @ ''.pack.idx'']) = Inr (write_index (e_codec E) idx')"
  shows "load_index E r fs' (Pack name) = Inr (idx'\<lparr>current := []\<rparr>)"
proof -
  note rd = pack_readyD [OF ready]
  note paths = pack_paths [OF rd(1-3)] and li = layout_index [OF rd(14) lay]
  have codec: "codec_ok (e_codec E)" using ready by (simp add: pack_ready_def)
  have "parse (e_codec E) (write_index (e_codec E) idx') = Inr (idx'\<lparr>current := []\<rparr>)"
    using parse_write_index [OF codec li(1)] li(2) rd(18) by simp
  moreover have "validate_pack_id (e_cat E) (Pack name) = Inr ()" using rd(2) by (simp add: is_valid_regular_def)
  ultimately show ?thesis
    using written paths(3) by (simp add: load_index_def load_index_file_def del: validate_pack_id.simps)
qed

lemma packed_frames_open:
  assumes ready: "pack_ready E r fs name idx opts data" and frames: "frames_of E fr Fs" "Fs \<noteq> []"
    and sizes: "length (header_bytes E fr) < 2 ^ 32" "length (pack_bytes E fr) < 2 ^ 64"
    and written: "fs_read fs' (packs_root r @ [name @ ''.pack'']) = Inr (pack_bytes E fr)"
  shows "\<exists>pk. open_reader E r fs' (Pack name) = Inr pk \<and> frames_match pk Fs"
proof -
  note rd = pack_readyD [OF ready]
  have zh: "zstd_ok E" "header_ok E" using ready by (auto simp: pack_ready_def)
  obtain pk where pk: "open_pack (e_unzstd E) (e_dec_header E) (Inr (pack_bytes E fr)) = Inr pk" "frames_match pk Fs"
    using pack_opens [OF zh frames sizes] by blast
  have "open_reader E r fs' (Pack name) = Inr pk"
    using pk(1) written rd(2) pack_paths(4) [OF rd(1-3)] by (simp add: open_reader_def pack_open_def Let_def)
  with pk(2) show ?thesis by blast
qed

lemma create_pack_reads:
  assumes ready: "pack_ready E r fs name idx opts data"
  shows "\<exists>fs' fr idx'. create_pack E r (Pack name) idx opts fs = Some (Inr (), fs') \<and>
    load_index E r fs' (Pack name) = Inr idx' \<and> snapshots_of idx' = snapshots_of idx \<and>
    fs_get fs' (packs_root r @ [name @ ''.pack'']) = Some (FileNode (pack_bytes E fr) created_mode) \<and>
    (length (header_bytes E fr) < 2 ^ 32 \<and> length (pack_bytes E fr) < 2 ^ 64 \<longrightarrow>
      (\<exists>pk. open_reader E r fs' (Pack name) = Inr pk \<and> reads_objects pk idx' data)) \<and>
    (\<forall>q. \<not> prefix (packs_root r) q \<and> \<not> prefix q (packs_root r) \<longrightarrow> fs_get fs' q = fs_get fs q)"
proof -
  note rd = pack_readyD [OF ready]
  obtain idx' hs where lay: "compute_object_offsets_and_ordering idx = (idx', hs)" by fastforce
  obtain fr Fs fs2 fs' where c: "create_pack E r (Pack name) idx opts fs = Some (Inr (), fs')"
      "pack_files E r name (pack_bytes E fr) (write_index (e_codec E) idx') fs fs'"
      "frames_of E fr Fs" "Fs \<noteq> []" "concat Fs = concat (map (handle_data idx data) hs)" "objects_present E r fs2 idx data"
    using create_pack_ok [OF ready lay] by blast
  note n = regular_name [OF rd(1-3)] and paths = pack_paths [OF rd(1-3)] and li = layout_index [OF rd(14) lay]
  note reads = pack_files_read [OF c(2) rd(10) n(4,1)]
  have load: "load_index E r fs' (Pack name) = Inr (idx'\<lparr>current := []\<rparr>)"
    by (rule packed_index_loads [OF ready lay reads(1)])
  have "\<exists>pk. open_reader E r fs' (Pack name) = Inr pk \<and> reads_objects pk (idx'\<lparr>current := []\<rparr>) data"
    if sizes: "length (header_bytes E fr) < 2 ^ 32" "length (pack_bytes E fr) < 2 ^ 64"
  proof -
    obtain pk where pk: "open_reader E r fs' (Pack name) = Inr pk" "frames_match pk Fs"
      using packed_frames_open [OF ready c(3,4) sizes reads(2)] by blast
    have "reads_objects pk (idx'\<lparr>current := []\<rparr>) data"
      using built_pack_reads [OF rd(14) lay rd(16) c(6) pk(2) c(5)] by (simp add: reads_objects_def entries_current)
    with pk(1) show ?thesis by blast
  qed
  moreover have "fs_get fs' q = fs_get fs q" if "\<not> prefix (packs_root r) q" "\<not> prefix q (packs_root r)" for q
    using c(2) that by (auto simp: pack_files_def)
  moreover have "fs_get fs' (packs_root r @ [name @ ''.pack'']) = Some (FileNode (pack_bytes E fr) created_mode)"
    using c(2) by (simp add: pack_files_def)
  ultimately show ?thesis using c(1) load li(3) by blast
qed

end
