(* ===== verification/PackProps.thy ===== *)
theory PackProps
  imports PackCreate RepoSample
begin

text \<open>
  Creating a pack and reading it back: the property, and its instance on an index with one object.
\<close>

subsection \<open>The sample\<close>

definition pack_env :: env where
  "pack_env = plain_env\<lparr>e_tmp := (\<lambda>p. CHR ''t'' # last p)\<rparr>"

lemma pack_env_fields [simp]:
  "e_hex pack_env = plain_hex" "e_codec pack_env = unary_sample" "e_cat pack_env = plain_cat" "e_tmp pack_env = (\<lambda>p. CHR ''t'' # last p)"
  "e_held pack_env = (\<lambda>p. False)" "e_zstd pack_env = (\<lambda>opts b. Inr (plain_zstd b))"
  "e_enc_header pack_env = e_enc_header plain_env"
  by (simp_all add: pack_env_def)

lemma pack_env_laws: "zstd_ok pack_env" "header_ok pack_env"
  using plain_zstd_ok plain_header_ok by (simp_all add: pack_env_def zstd_ok_def header_ok_def)

definition ones :: checksum where
  "ones = replicate 20 (CHR 0x11)"

definition ones_index :: pack_index where
  "ones_index = index_new\<lparr>path_pool := pool_from_iter [PackPath ''f''], object_pool := pool_from_iter [ones],
     object_table := [(0, \<lparr>om_offset = 0, om_size = 2\<rparr>)], snapshot_tags := [''t''],
     snapshot_deltas := [\<lparr>cs_added = [\<lparr>fh_path = 0, fh_object = 0, fh_metadata = Regular 420\<rparr>], cs_removed = []\<rparr>]\<rparr>"

definition ones_fs :: fs where
  "ones_fs = [([''d''], DirNode), ([''d'', ''trash''], DirNode), ([''d'', ''loose''], DirNode),
     ([''d'', ''loose'', ''11''], DirNode), ([''d'', ''loose'', ''11'', ''11''], DirNode),
     ([''d'', ''loose'', ''11'', ''11'', replicate 36 (CHR ''1'')], FileNode ''xy'' 420)]"

definition ones_options :: pack_options where
  "ones_options = \<lparr>po_window_log = 28, po_level = 3, po_num_workers = 2, po_num_frames = 4\<rparr>"

lemma ones_path: "loose_object_path pack_env sample_repo ones = [''d'', ''loose'', ''11'', ''11'', replicate 36 (CHR ''1'')]"
proof -
  have two: "replicate 2 (CHR ''1'') = ''11''" by (simp add: numeral_2_eq_2)
  have one: "hex_char (Suc 0) = CHR ''1''"
    using byte_of_val [of "CHR ''1''"] by (simp add: hex_char_def byte_val_def del: byte_of_val)
  have "plain_encode (replicate n (CHR 0x11)) = replicate (2 * n) (CHR ''1'')" for n
    by (induction n) (simp_all add: plain_encode_def one byte_val_def)
  from this [of 20] have h: "plain_encode ones = replicate 40 (CHR ''1'')" by (simp add: ones_def)
  have enc: "hex_encode (e_hex pack_env) ones = replicate 40 (CHR ''1'')"
    by (simp only: pack_env_fields plain_hex_def hex_crate.simps h)
  have parts: "take 2 (replicate 40 (CHR ''1'')) = ''11''" "take 2 (drop 2 (replicate 40 (CHR ''1''))) = ''11''"
    "drop 4 (replicate 40 (CHR ''1'')) = replicate 36 (CHR ''1'')"
    by (simp_all only: take_replicate drop_replicate min_def two [symmetric]) simp_all
  have "loose_root sample_repo = [''d'', ''loose'']" by (simp add: loose_root_def sample_repo_def loose_name_def)
  then show ?thesis by (simp only: loose_object_path_def enc Let_def parts append_Cons append_Nil)
qed

lemma ones_fs_wf: "fs_wf ones_fs"
  by (simp add: fs_wf_def ones_fs_def fs_get_def)

lemma ones_dirs: "dirs_to ones_fs [''d'', ''trash'']" "dirs_to ones_fs [''d'', ''loose'', ''11'', ''11'']"
  using dirs_to_get [OF ones_fs_wf] by (simp_all add: ones_fs_def fs_get_def)

lemma ones_paths [simp]:
  "packs_root sample_repo = [''d'', ''packs'']" "temp_dir sample_repo = [''d'', ''trash'']" "rp_data_dir sample_repo = [''d'']"
  by (simp_all add: packs_root_def packs_name_def temp_dir_def temp_name_def sample_repo_def)

lemma ones_pools: "pool_from_iter [PackPath ''f''] = pool_deserialize [PackPath ''f'']" "pool_from_iter [ones] = pool_deserialize [ones]"
  by (simp_all add: pool_from_iter_def pool_deserialize_def)

lemma ones_index_wf: "index_tables_wf (ones_index\<lparr>current := c\<rparr>)"
  using pool_deserialize_wf [of "[PackPath ''f'']"] pool_deserialize_wf [of "[ones]"]
  by (simp add: index_tables_wf_def ones_index_def index_new_def ones_pools)

lemma ones_lookup: "pool_lookup (object_pool ones_index) 0 = Some ones" "pool_lookup (path_pool ones_index) 0 = Some (PackPath ''f'')"
  using pool_deserialize_wf [of "[PackPath ''f'']"] pool_deserialize_wf [of "[ones]"]
  by (simp_all add: ones_index_def ones_pools pool_lookup_def)

text \<open>The index is ready to be packed in every store that has its object and room for the pack.\<close>

lemma ones_ready_at:
  assumes r: "rp_data_dir r = [''d'']" and wf: "fs_wf fs"
    and object: "fs_get fs [''d'', ''loose'', ''11'', ''11'', replicate 36 (CHR ''1'')] = Some (FileNode ''xy'' 420)"
    and trash: "fs_get fs [''d'', ''trash''] = Some DirNode" "fs_get fs [''d'', ''trash'', ''ttrash''] = None"
    and free: "pack_place_free pack_env r fs ''p''"
  shows "pack_ready pack_env r fs ''p'' (ones_index\<lparr>current := c\<rparr>) ones_options (\<lambda>c. ''xy'')"
  unfolding pack_ready_def
proof (intro conjI ballI)
  have tmp: "temp_dir r = [''d'', ''trash'']" by (simp add: temp_dir_def temp_name_def r)
  show "is_valid_regular ''p''" by code_simp
  show "pack_place_free pack_env r fs ''p''" by (rule free)
  show "encoder_ok pack_env ones_options (length (object_table (ones_index\<lparr>current := c\<rparr>)))"
    by (simp add: encoder_ok_def ones_options_def ones_index_def)
  show "objects_loose pack_env r fs (ones_index\<lparr>current := c\<rparr>) (\<lambda>c. ''xy'')"
  proof -
    have "loose_object_path pack_env r ones = [''d'', ''loose'', ''11'', ''11'', replicate 36 (CHR ''1'')]"
      using ones_path by (simp add: loose_object_path_def loose_root_def r)
    moreover have "''..'' \<noteq> replicate 36 (CHR ''1'')" by (auto dest: arg_cong [where f = length])
    moreover have readable: "and (420 :: u32) owner_read \<noteq> 0" by code_simp
    ultimately have "object_stored fs (loose_object_path pack_env r ones) ''xy''"
      using object by (intro file_stored [OF wf _ _ readable]) (simp_all add: no_parent_refs_def)
    moreover have "object_table ones_index = [(0, \<lparr>om_offset = 0, om_size = 2\<rparr>)]" by (simp add: ones_index_def)
    moreover have "\<not> list_all (\<lambda>b. b = CHR 0x00) ones" by (simp add: ones_def list_all_iff)
    ultimately show ?thesis using ones_lookup(1) by (simp add: objects_loose_def handle_size_def)
  qed
  show "layout_total (ones_index\<lparr>current := c\<rparr>) < 2 ^ 64" by (simp add: layout_total_def ones_index_def)
  show "pack_path_ok p" if "p \<in> set (pool_entries (path_pool (ones_index\<lparr>current := c\<rparr>)))" for p
    using that pool_deserialize_wf(2) [of "[PackPath ''f'']"]
    by (simp add: ones_index_def ones_pools pack_path_ok_def components_def component_ok_def)
  show "dirs_to fs (temp_dir r)" using dirs_to_get [OF wf] trash(1) by (simp add: tmp)
  show "fs_get fs (temp_dir r @ [e_tmp pack_env (temp_dir r)]) = None" using trash(2) by (simp add: tmp)
  show "e_tmp pack_env (temp_dir r) \<noteq> ''..''" by (simp add: tmp)
  show "index_tables_wf (ones_index\<lparr>current := c\<rparr>)" by (rule ones_index_wf)
qed (simp_all add: pack_env_laws unary_sample_ok no_parent_refs_def r ones_index_def)

lemma ones_ready: "pack_ready pack_env sample_repo ones_fs ''p'' ones_index ones_options (\<lambda>c. ''xy'')"
proof -
  have "pack_place_free pack_env sample_repo ones_fs ''p''"
    using ones_fs_wf
    by (auto simp: pack_place_free_def place_free_def index_place_of_def pack_rnd_def no_parent_refs_def
        dirs_or_missing_def ones_fs_def fs_get_def ip_path_def acf_temp_path_def split: if_splits)
  with ones_ready_at [OF ones_paths(3) ones_fs_wf, of "current ones_index"] show ?thesis
    by (simp add: ones_fs_def fs_get_def)
qed

subsection \<open>The property\<close>

text \<open>C2: A pack that is created reads back: the index loads with the same snapshots, and once the pack is
  opened, every entry of the index reads as the loose object with its checksum, however the
  objects were ordered by size and cut into compressed frames.  The pack is published, and
  nothing outside the packs directory changes.  The sizes are the limits of the format: a
  skippable frame has a length of 32 bits.\<close>

theorem create_pack_round_trip:
  assumes "pack_ready E r fs name idx opts data"
  shows "\<exists>fs' fr idx'. create_pack E r (Pack name) idx opts fs = Some (Inr (), fs') \<and>
    load_index E r fs' (Pack name) = Inr idx' \<and> snapshots_of idx' = snapshots_of idx \<and>
    fs_get fs' (packs_root r @ [name @ ''.pack'']) = Some (FileNode (pack_bytes E fr) created_mode) \<and>
    (length (header_bytes E fr) < 2 ^ 32 \<and> length (pack_bytes E fr) < 2 ^ 64 \<longrightarrow>
      (\<exists>pk. open_reader E r fs' (Pack name) = Inr pk \<and> reads_objects pk idx' data)) \<and>
    (\<forall>q. \<not> prefix (packs_root r) q \<and> \<not> prefix q (packs_root r) \<longrightarrow> fs_get fs' q = fs_get fs q)"
  using assms by (rule create_pack_reads)

theorem create_pack_round_trip_witness:
  "\<exists>fs' idx'. create_pack pack_env sample_repo (Pack ''p'') ones_index ones_options ones_fs = Some (Inr (), fs') \<and>
     load_index pack_env sample_repo fs' (Pack ''p'') = Inr idx' \<and> snapshots_of idx' = snapshots_of ones_index \<and>
     fs_get fs' [''d'', ''trash''] = Some DirNode"
proof -
  obtain fs' idx' where r: "create_pack pack_env sample_repo (Pack ''p'') ones_index ones_options ones_fs = Some (Inr (), fs')"
      "load_index pack_env sample_repo fs' (Pack ''p'') = Inr idx'" "snapshots_of idx' = snapshots_of ones_index"
      "\<forall>q. \<not> prefix (packs_root sample_repo) q \<and> \<not> prefix q (packs_root sample_repo) \<longrightarrow> fs_get fs' q = fs_get ones_fs q"
    using create_pack_round_trip [OF ones_ready] by blast
  from r(4) have "fs_get fs' [''d'', ''trash''] = fs_get ones_fs [''d'', ''trash'']" by simp
  with r(1-3) show ?thesis by (auto simp: ones_fs_def fs_get_def)
qed

end
