(* ===== verification/LockProps.thy ===== *)
theory LockProps
  imports StoreProps
begin

text \<open>
  The lock of a repository: its state over a sequence of attempts to upgrade it, and what
  \<^verbatim>\<open>create_snapshot\<close> and \<^verbatim>\<open>with_lock\<close> may rely on.
\<close>

text \<open>The flag is set exactly while the exclusive lock is held; a read-only repository has no lock.\<close>

definition lock_ok :: "repository \<Rightarrow> bool" where
  "lock_ok r \<longleftrightarrow> (rp_exclusive r \<longleftrightarrow> rp_lock r = Some ExclusiveLock)"

inductive lock_reachable :: "repository \<Rightarrow> repository \<Rightarrow> bool" where
  start: "lock_reachable r r"
| attempt: "lock_reachable r r' \<Longrightarrow> lock_exclusive E r' = (x, r'') \<Longrightarrow> lock_reachable r r''"

inductive_cases lock_reachableE: "lock_reachable r r'"

lemma lock_step:
  assumes "lock_ok r" "lock_exclusive E r = (x, r')"
  shows "lock_ok r'" and "rp_lock r = None \<Longrightarrow> x = Inl PermissionDenied \<and> r' = r"
    and "x = Inr () \<Longrightarrow> rp_lock r' = Some ExclusiveLock"
    and "rp_lock r = Some ExclusiveLock \<Longrightarrow> x = Inr () \<and> r' = r"
    and "rp_path r' = rp_path r" "rp_data_dir r' = rp_data_dir r"
    and "is_ok (la_restore (e_locks E)) \<Longrightarrow> rp_lock r \<in> {Some SharedLock, Some ExclusiveLock} \<Longrightarrow>
      rp_lock r' \<in> {Some SharedLock, Some ExclusiveLock}"
    and "x \<noteq> Inr () \<Longrightarrow> rp_lock r' \<noteq> Some ExclusiveLock"
    and "x \<noteq> Inr () \<Longrightarrow> rp_lock r = Some SharedLock \<Longrightarrow> rp_lock r' =
      Some (if la_unlock (e_locks E) = Inr () \<and> \<not> is_ok (la_restore (e_locks E)) then Unlocked else SharedLock)"
  using assms
  by (auto simp: lock_ok_def lock_exclusive_def Let_def restore_shared_lock_on_error_def split: if_splits sum.splits lock_answer.splits)

lemma lock_reachable_ok:
  "lock_reachable r r' \<Longrightarrow> lock_ok r \<Longrightarrow>
     lock_ok r' \<and> (rp_lock r = None \<longrightarrow> r' = r) \<and> (rp_lock r = Some ExclusiveLock \<longrightarrow> r' = r) \<and>
     rp_path r' = rp_path r \<and> rp_data_dir r' = rp_data_dir r"
proof (induction rule: lock_reachable.induct)
  case (start r)
  then show ?case by simp
next
  case (attempt r r' E x r'')
  from attempt.IH [OF attempt.prems] have ok: "lock_ok r'" by blast
  note s = lock_step [OF ok attempt.hyps(2)]
  from attempt.IH [OF attempt.prems] s(1,2,4,5,6) show ?case by auto
qed

lemma open_lock_ok:
  "open_with_data_dir E p dd fs = (Inr r, fs') \<Longrightarrow> lock_ok r \<and> rp_lock r \<in> {None, Some SharedLock}"
  by (auto simp: open_with_data_dir_def lock_ok_def Let_def result_simps
      split: if_splits sum.splits prod.splits lock_answer.splits)

text \<open>The states of one repository: a reachable one is open, at the same paths, and keeps its kind.\<close>

lemma lock_reachable_open:
  assumes "open_with_data_dir E p dd fs = (Inr r, fs')" "lock_reachable r r'"
  shows "lock_ok r'" "rp_lock r = None \<Longrightarrow> r' = r" "rp_path r' = rp_path r" "rp_data_dir r' = rp_data_dir r"
  using open_lock_ok [OF assms(1)] lock_reachable_ok [OF assms(2)] by auto

subsection \<open>The property\<close>

text \<open>C33: After a repository is opened, and any number of attempts to take the exclusive lock, the flag says
  whether the exclusive lock is held.  An attempt succeeds only with the exclusive lock held, is
  refused on a read-only repository, and is free on a locked one.  When it fails on the shared lock, that
  lock is held afterwards, unless it was released for the attempt and the system refuses to restore it:
  then, and only then, no lock is left.\<close>

theorem lock_state_ok:
  assumes "open_with_data_dir E p dd fs = (Inr r, fs')" "lock_reachable r r'"
    and "lock_exclusive E' r' = (x, r'')"
  shows "(rp_exclusive r'' \<longleftrightarrow> rp_lock r'' = Some ExclusiveLock) \<and>
    (x = Inr () \<longleftrightarrow> rp_lock r'' = Some ExclusiveLock) \<and>
    (rp_lock r = None \<longrightarrow> x = Inl PermissionDenied \<and> r'' = r) \<and>
    (rp_lock r' = Some ExclusiveLock \<longrightarrow> x = Inr () \<and> r'' = r') \<and>
    (rp_lock r' = Some SharedLock \<and> x \<noteq> Inr () \<longrightarrow> rp_lock r'' =
       Some (if la_unlock (e_locks E') = Inr () \<and> \<not> is_ok (la_restore (e_locks E')) then Unlocked else SharedLock)) \<and>
    rp_path r'' = rp_path r \<and> rp_data_dir r'' = rp_data_dir r"
proof -
  note o = lock_reachable_open [OF assms(1,2)]
  note s = lock_step [OF o(1) assms(3)]
  show ?thesis using o s by (auto simp: lock_ok_def)
qed

lemma lock_sample_open: "\<exists>fs'. open_with_data_dir plain_env [''w''] [''d''] store_fs = (Inr store_repo, fs')"
proof -
  let ?m = "[''d'', ''mutex'']"
  let ?fs = "fs_put ?m (FileNode [] created_mode) store_fs"
  have above: "dirs_above store_fs [''d'']" "dirs_above store_fs ?m" "dirs_above ?fs ?m"
    by (auto simp: dirs_above_def strict_prefix_def prefix_Cons fs_get_put store_fs_get)
  have names: "no_parent_refs [''d'']" "no_parent_refs ?m" by (simp_all add: no_parent_refs_def)
  have t: "resolve_target store_fs [''d''] = Inr [''d'']" "resolve_target store_fs ?m = Inr ?m" "resolve_target ?fs ?m = Inr ?m"
    using above names by (simp_all add: resolve_target_plain fs_get_put store_fs_get)
  have w: "open_for_write ?m store_fs = (Inr ?m, ?fs)" by (simp add: open_for_write_def t store_fs_get)
  have rd: "fs_read ?fs ?m = Inr []"
    using t(3) by (simp add: fs_read_def metadata_def fs_get_put created_mode_def owner_read_def)
  have "open_rw ?m store_fs = (Inr ?m, ?fs)"
    by (simp add: open_rw_def andThen_def w query_def rd ret_def)
  then show ?thesis
    by (simp add: open_with_data_dir_def path_exists_def canonicalize_def metadata_def t store_fs_get store_repo_def plain_env_def)
qed

text \<open>
  Three attempts after opening: the first is refused and restores the shared lock, the second is refused
  and cannot restore it, the third gets the exclusive lock.
\<close>

definition lock_env :: "io_error + unit \<Rightarrow> env" where
  "lock_env restore = plain_env\<lparr>e_locks := (e_locks plain_env)\<lparr>la_try_exclusive := Contended,
     la_exclusive := Inl OtherIo, la_restore := restore\<rparr>\<rparr>"

lemma lock_env_fields [simp]: "e_locks (lock_env x) =
  \<lparr>la_try_shared = Granted, la_shared = Inr (), la_unlock = Inr (), la_try_exclusive = Contended,
   la_exclusive = Inl OtherIo, la_restore = x\<rparr>"
  by (simp add: lock_env_def plain_env_def)

theorem lock_state_ok_witness:
  "\<exists>r1 r2 r3. lock_exclusive (lock_env (Inr ())) store_repo = (Inl OtherIo, r1) \<and> rp_lock r1 = Some SharedLock \<and>
     lock_exclusive (lock_env (Inl NotFound)) r1 = (Inl NotFound, r2) \<and> rp_lock r2 = Some Unlocked \<and>
     lock_exclusive plain_env r2 = (Inr (), r3) \<and> rp_lock r3 = Some ExclusiveLock \<and> rp_exclusive r3"
proof -
  obtain fs' where o: "open_with_data_dir plain_env [''w''] [''d''] store_fs = (Inr store_repo, fs')"
    using lock_sample_open by blast
  note ok = lock_state_ok [OF o]
  have fail: "\<exists>r1. lock_exclusive (lock_env restore) r = (Inl (case restore of Inl e \<Rightarrow> e | Inr _ \<Rightarrow> OtherIo), r1)"
    if "\<not> rp_exclusive r" "rp_lock r \<noteq> None" for r restore
    using that by (cases restore) (auto simp: lock_exclusive_def restore_shared_lock_on_error_def Let_def)
  have shared: "rp_lock store_repo = Some SharedLock" "\<not> rp_exclusive store_repo" by (simp_all add: store_repo_def)
  obtain r1 where r1: "lock_exclusive (lock_env (Inr ())) store_repo = (Inl OtherIo, r1)"
    using fail [of store_repo "Inr ()"] shared by auto
  have l1: "rp_lock r1 = Some SharedLock" "\<not> rp_exclusive r1"
    using ok [OF lock_reachable.start r1] shared by simp_all
  obtain r2 where r2: "lock_exclusive (lock_env (Inl NotFound)) r1 = (Inl NotFound, r2)"
    using fail [of r1 "Inl NotFound"] l1 by auto
  note reach1 = lock_reachable.attempt [OF lock_reachable.start r1]
  have l2: "rp_lock r2 = Some Unlocked" "\<not> rp_exclusive r2" using ok [OF reach1 r2] l1 by simp_all
  then obtain r3 where r3: "lock_exclusive plain_env r2 = (Inr (), r3)"
    by (simp add: lock_exclusive_def plain_env_def restore_shared_lock_on_error_def Let_def)
  from ok [OF lock_reachable.attempt [OF reach1 r2] r3] r1 r2 r3 l1 l2 show ?thesis by auto
qed

end
