(* ===== verification/RowFormat.thy ===== *)
theory RowFormat
  imports Ids PackIdx External "HOL-Library.Log_Nat"
begin

text \<open>
  The rows that the listing commands print (\<^verbatim>\<open>format_size\<close> of \<^verbatim>\<open>src/bin/elfshaker/utils.rs\<close> and the
  row functions of \<^verbatim>\<open>list.rs\<close>, \<^verbatim>\<open>list_files.rs\<close> and \<^verbatim>\<open>list_packs.rs\<close>), and the theorem that the chain
  of \<^verbatim>\<open>str::replace\<close> calls substitutes all placeholders of a format at once.
\<close>

subsection \<open>Strings\<close>

text \<open>\<^verbatim>\<open>str::replace\<close> of a two-byte pattern, from the left and without overlaps; \<^verbatim>\<open>str::contains\<close>.\<close>

fun str_replace2 :: "byte \<times> byte \<Rightarrow> bytes \<Rightarrow> bytes \<Rightarrow> bytes" where
  "str_replace2 p r (a # b # s) =
     (if (a, b) = p then r @ str_replace2 p r s else a # str_replace2 p r (b # s))"
| "str_replace2 p r [] = []"
| "str_replace2 p r [a] = [a]"

definition str_contains :: "bytes \<Rightarrow> bytes \<Rightarrow> bool" where
  "str_contains needle s \<longleftrightarrow> sublist needle s"

abbreviation fill :: "byte \<Rightarrow> bytes \<Rightarrow> bytes \<Rightarrow> bytes" where
  "fill c r s \<equiv> str_replace2 (CHR ''%'', c) r s"

subsection \<open>Sizes\<close>

text \<open>
  A natural number rounded to the 53 bits of an \<^verbatim>\<open>f64\<close> significand, ties to even.  Scaling by a
  power of two is exact, so the rounding of \<^verbatim>\<open>value * 1000.0\<close> is that of the unscaled product.
\<close>

definition f64_round :: "nat \<Rightarrow> nat" where
  "f64_round n =
     (let ulp = 2 ^ (floorlog 2 n - 53); q = n div ulp; r = n mod ulp
      in if 2 * r < ulp \<or> 2 * r = ulp \<and> even q then q * ulp else (q + 1) * ulp)"

definition size_units :: bytes where
  "size_units = ''BKMGT''"

text \<open>\<^verbatim>\<open>(value * 1000.0).round()\<close> for \<^verbatim>\<open>value = bytes / 1024^i\<close>.\<close>

definition size_thousandths :: "nat \<Rightarrow> nat \<Rightarrow> nat" where
  "size_thousandths i v = (2 * f64_round (v * 1000) + 1024 ^ i) div (2 * 1024 ^ i)"

text \<open>The shortest decimal of a number of thousandths: no trailing zeros, no bare point.\<close>

definition drop_zeros :: "bytes \<Rightarrow> bytes" where
  "drop_zeros s = rev (dropWhile (\<lambda>c. c = CHR ''0'') (rev s))"

definition show_thousandths :: "nat \<Rightarrow> bytes" where
  "show_thousandths k =
     (let frac = drop_zeros (tl (show_nat (1000 + k mod 1000)))
      in show_nat (k div 1000) @ (if frac = [] then [] else CHR ''.'' # frac))"

fun format_size_loop :: "nat \<Rightarrow> bytes \<Rightarrow> nat \<Rightarrow> 'e failure + bytes" where
  "format_size_loop i [] v = Inl Panicked"
| "format_size_loop i (u # us) v =
     (if v < 1024 * 1024 ^ i then Inr (show_thousandths (size_thousandths i v) @ [u])
      else format_size_loop (i + 1) us v)"

definition format_size :: "u64 \<Rightarrow> 'e failure + bytes" where
  "format_size b = format_size_loop 0 size_units (f64_round (unat b))"

subsection \<open>Rows\<close>

text \<open>The arguments of \<^verbatim>\<open>replace\<close> are evaluated whether the format has the placeholder or not.\<close>

definition format_snapshot_row :: "bytes \<Rightarrow> pack_id \<Rightarrow> bytes \<Rightarrow> u64 \<Rightarrow> nat \<Rightarrow> 'e failure + bytes" where
  "format_snapshot_row fmt pack tag n file_count =
     rbind (format_size n) (\<lambda>human.
     Inr (fill CHR ''n'' (show_nat file_count)
         (fill CHR ''b'' (show_nat (unat n))
         (fill CHR ''h'' human
         (fill CHR ''t'' tag
         (fill CHR ''s'' (pack_id_display pack @ CHR '':'' # tag) fmt))))))"

definition is_file_size_required :: "bytes \<Rightarrow> bool" where
  "is_file_size_required fmt \<longleftrightarrow> str_contains ''%h'' fmt \<or> str_contains ''%b'' fmt"

fun show_octal :: "nat \<Rightarrow> bytes" where
  "show_octal n =
     (if n < 8 then [byte_of (48 + n)] else show_octal (n div 8) @ [byte_of (48 + n mod 8)])"

declare show_octal.simps [simp del]

definition kind_and_permissions :: "entry_metadata \<Rightarrow> bytes \<times> bytes" where
  "kind_and_permissions m =
     (case m of Regular mode \<Rightarrow> (''file'', show_octal (unat mode)) | Symlink enc kind \<Rightarrow> (''symlink'', ''-''))"

definition format_file_row ::
    "hex_crate \<Rightarrow> bytes \<Rightarrow> checksum \<Rightarrow> pack_path \<Rightarrow> u64 \<Rightarrow> entry_metadata \<Rightarrow> 'e failure + bytes" where
  "format_file_row H fmt checksum p n m =
     (case kind_and_permissions m of (kind, permissions) \<Rightarrow>
      rbind (format_size n) (\<lambda>human.
      Inr (fill CHR ''k'' kind
          (fill CHR ''p'' permissions
          (fill CHR ''b'' (show_nat (unat n))
          (fill CHR ''h'' human
          (fill CHR ''f'' (escaped p)
          (fill CHR ''o'' (hex_encode H checksum) fmt))))))))"

definition format_pack_row :: "bytes \<Rightarrow> pack_id \<Rightarrow> nat \<Rightarrow> u64 \<Rightarrow> 'e failure + bytes" where
  "format_pack_row fmt pack snapshot_count n =
     rbind (format_size n) (\<lambda>human.
     Inr (fill CHR ''h'' human
         (fill CHR ''b'' (show_nat (unat n))
         (fill CHR ''c'' (show_nat snapshot_count)
         (fill CHR ''p'' (pack_id_display pack) fmt)))))"

subsection \<open>When a size has no text\<close>

lemma f64_round_small: "n < 2 ^ 53 \<Longrightarrow> f64_round n = n"
proof -
  assume n: "n < 2 ^ 53"
  have "floorlog 2 n \<le> 53"
  proof (cases "n = 0")
    case False
    with n show ?thesis by (simp add: floorlog_leI)
  qed (simp add: floorlog_def)
  then show "f64_round n = n" by (simp add: f64_round_def)
qed

lemma f64_round_large: "2 ^ 53 \<le> n \<Longrightarrow> 2 ^ 52 \<le> f64_round n"
proof -
  assume n: "2 ^ 53 \<le> n"
  let ?u = "2 ^ (floorlog 2 n - 53) :: nat"
  have "n div ?u * ?u \<le> f64_round n" by (simp add: f64_round_def Let_def)
  moreover have "n < n div ?u * ?u + ?u" by (metis dividend_less_div_times zero_less_power pos2 add.commute)
  moreover have "2 * ?u \<le> n"
  proof -
    have "n > 0" using n by (simp add: order.strict_trans2)
    then have "2 ^ (floorlog 2 n - 1) \<le> n" using floorlog_bounds [of n 2] by simp
    moreover have "53 < floorlog 2 n"
    proof (rule ccontr)
      assume "\<not> 53 < floorlog 2 n"
      then have "n < 2 ^ 53"
        using floorlog_bounds [of n 2] \<open>n > 0\<close> power_increasing [of "floorlog 2 n" 53 "2 :: nat"] by simp
      with n show False by simp
    qed
    then have "2 * ?u \<le> 2 ^ (floorlog 2 n - 1)"
      by (simp flip: power_Suc add: power_increasing)
    ultimately show ?thesis by simp
  qed
  ultimately show "2 ^ 52 \<le> f64_round n" using n by simp
qed

lemma format_size_loop_panics:
  "format_size_loop i us v = Inl Panicked \<longleftrightarrow> us = [] \<or> 1024 ^ (i + length us) \<le> v"
proof (induction us arbitrary: i)
  case Nil
  then show ?case by simp
next
  case (Cons u us)
  have "v < 1024 * 1024 ^ i \<Longrightarrow> \<not> 1024 ^ (i + Suc (length us)) \<le> v"
    using power_increasing [of "i + 1" "i + Suc (length us)" "1024 :: nat"] by (simp del: power_increasing_iff)
  moreover have "\<not> v < 1024 * 1024 ^ i \<Longrightarrow> us = [] \<Longrightarrow> 1024 ^ (i + Suc (length us)) \<le> v" by simp
  ultimately show ?case using Cons.IH [of "i + 1"] by auto
qed

lemma format_size_error: "format_size b = Inl e \<Longrightarrow> e = Panicked"
proof -
  have "format_size_loop i us v = Inl e \<Longrightarrow> e = Panicked" for i us v
    by (induction us arbitrary: i) (auto split: if_splits)
  then show "format_size b = Inl e \<Longrightarrow> e = Panicked" by (simp add: format_size_def)
qed

lemma format_size_panics: "format_size b = Inl Panicked \<longleftrightarrow> 2 ^ 50 \<le> unat b"
proof -
  have "format_size b = Inl Panicked \<longleftrightarrow> 2 ^ 50 \<le> f64_round (unat b)"
    by (simp add: format_size_def format_size_loop_panics size_units_def)
  also have "\<dots> \<longleftrightarrow> 2 ^ 50 \<le> unat b"
    using f64_round_small [of "unat b"] f64_round_large [of "unat b"] by (cases "unat b < 2 ^ 53") auto
  finally show ?thesis .
qed

subsection \<open>Formats as lists of placeholders\<close>

datatype token = Lit byte | Slot byte

fun token_text :: "token \<Rightarrow> bytes" where
  "token_text (Lit b) = [b]"
| "token_text (Slot c) = [CHR ''%'', c]"

fun token_ok :: "token \<Rightarrow> bool" where
  "token_ok (Lit b) \<longleftrightarrow> b \<noteq> CHR ''%''"
| "token_ok (Slot c) \<longleftrightarrow> c \<noteq> CHR ''%''"

definition tokens_text :: "token list \<Rightarrow> bytes" where
  "tokens_text ts = concat (map token_text ts)"

text \<open>The format as tokens, unless it has \<^verbatim>\<open>%%\<close> or ends in \<^verbatim>\<open>%\<close>.\<close>

fun parse_format :: "bytes \<Rightarrow> token list option" where
  "parse_format [] = Some []"
| "parse_format [a] = (if a = CHR ''%'' then None else Some [Lit a])"
| "parse_format (a # b # s) =
     (if a \<noteq> CHR ''%'' then map_option (Cons (Lit a)) (parse_format (b # s))
      else if b = CHR ''%'' then None
      else map_option (Cons (Slot b)) (parse_format s))"

fun render_token :: "(byte \<Rightarrow> bytes option) \<Rightarrow> token \<Rightarrow> bytes" where
  "render_token v (Lit b) = [b]"
| "render_token v (Slot c) = (case v c of Some r \<Rightarrow> r | None \<Rightarrow> [CHR ''%'', c])"

definition render :: "(byte \<Rightarrow> bytes option) \<Rightarrow> token list \<Rightarrow> bytes" where
  "render v ts = concat (map (render_token v) ts)"

definition token_fill :: "byte \<Rightarrow> token list \<Rightarrow> token list \<Rightarrow> token list" where
  "token_fill c rs ts = concat (map (\<lambda>t. if t = Slot c then rs else [t]) ts)"

lemma tokens_text_simps [simp]:
  "tokens_text [] = []" "tokens_text (t # ts) = token_text t @ tokens_text ts"
  "tokens_text (ts @ us) = tokens_text ts @ tokens_text us"
  by (simp_all add: tokens_text_def)

lemma render_simps [simp]:
  "render v [] = []" "render v (t # ts) = render_token v t @ render v ts"
  "render v (ts @ us) = render v ts @ render v us"
  by (simp_all add: render_def)

lemma token_fill_simps [simp]:
  "token_fill c rs [] = []"
  "token_fill c rs (t # ts) = (if t = Slot c then rs else [t]) @ token_fill c rs ts"
  by (simp_all add: token_fill_def)

lemma parse_format_text: "parse_format s = Some ts \<Longrightarrow> tokens_text ts = s \<and> list_all token_ok ts"
  by (induction s arbitrary: ts rule: parse_format.induct) (auto split: if_splits)

lemma parse_plain: "CHR ''%'' \<notin> set s \<Longrightarrow> parse_format s = Some (map Lit s)"
  by (induction s rule: parse_format.induct) auto

lemma parse_format_tokens: "list_all token_ok ts \<Longrightarrow> parse_format (tokens_text ts) = Some ts"
proof (induction ts)
  case (Cons t ts)
  then show ?case by (cases t; cases "tokens_text ts") auto
qed simp

lemma fill_skip: "a \<noteq> CHR ''%'' \<Longrightarrow> fill c r (a # s) = a # fill c r s"
  by (cases s) auto

lemma fill_tokens:
  "list_all token_ok ts \<Longrightarrow> fill c (tokens_text rs) (tokens_text ts) = tokens_text (token_fill c rs ts)"
proof (induction ts)
  case (Cons t ts)
  then show ?case by (cases t) (auto simp: fill_skip)
qed simp

text \<open>
  A chain of substitutions, the first pair first: if no text that is put in has one of the
  placeholders itself, the chain is the substitution of all of them at once.
\<close>

definition fills :: "(byte \<times> bytes) list \<Rightarrow> bytes \<Rightarrow> bytes" where
  "fills ps s = foldl (\<lambda>s (c, r). fill c r s) s ps"

lemma fills_simps [simp]: "fills [] s = s" "fills ((c, r) # ps) s = fills ps (fill c r s)"
  by (simp_all add: fills_def)

definition inert :: "byte set \<Rightarrow> bytes \<Rightarrow> bool" where
  "inert cs r \<longleftrightarrow> (\<exists>ts. parse_format r = Some ts \<and> (\<forall>c. Slot c \<in> set ts \<longrightarrow> c \<notin> cs))"

lemma inert_plain [intro]: "CHR ''%'' \<notin> set r \<Longrightarrow> inert cs r"
  using parse_plain by (auto simp: inert_def)

lemma render_inert:
  "(\<forall>c. Slot c \<in> set ts \<longrightarrow> v c = None) \<Longrightarrow> render v ts = tokens_text ts"
proof (induction ts)
  case (Cons t ts)
  then show ?case by (cases t) auto
qed simp

lemma fills_render:
  assumes "list_all token_ok ts" "distinct (map fst ps)" "\<forall>(c, r) \<in> set ps. inert (fst ` set ps) r"
  shows "fills ps (tokens_text ts) = render (map_of ps) ts"
  using assms
proof (induction ps arbitrary: ts)
  case Nil
  then show ?case by (simp add: render_inert)
next
  case (Cons p ps)
  obtain c r where p: "p = (c, r)" by fastforce
  obtain rs where rs: "parse_format r = Some rs" "\<forall>d. Slot d \<in> set rs \<longrightarrow> d \<notin> fst ` set (p # ps)"
    using Cons.prems(3) p by (auto simp: inert_def)
  have r: "tokens_text rs = r" "list_all token_ok rs" using parse_format_text [OF rs(1)] by auto
  have ok: "list_all token_ok (token_fill c rs ts)"
    using Cons.prems(1) r(2) by (induction ts) (auto simp: list_all_iff)
  have "\<forall>(c, r) \<in> set ps. inert (fst ` set ps) r"
    using Cons.prems(3) by (fastforce simp: inert_def)
  then have "fills ps (tokens_text (token_fill c rs ts)) = render (map_of ps) (token_fill c rs ts)"
    using Cons.IH [OF ok] Cons.prems(2) by simp
  also have "\<dots> = render (map_of (p # ps)) ts"
  proof -
    have no: "map_of ps d = None" if "Slot d \<in> set rs" for d
      using rs(2) that by (auto simp: map_of_eq_None_iff)
    have rsr: "render (map_of ps) rs = r" using render_inert [of rs "map_of ps"] no r(1) by auto
    have "render_token (map_of (p # ps)) t = (if t = Slot c then r else render_token (map_of ps) t)" for t
      by (cases t) (auto simp: p)
    then show ?thesis using rsr by (induction ts) auto
  qed
  finally show ?case using fill_tokens [OF Cons.prems(1), of c rs] r(1) p by (simp add: fun_upd_def)
qed

lemma fills_format:
  assumes "parse_format fmt = Some ts" "distinct (map fst ps)" "\<forall>(c, r) \<in> set ps. inert (fst ` set ps) r"
  shows "fills ps fmt = render (map_of ps) ts"
  using fills_render [OF _ assms(2,3), of ts] parse_format_text [OF assms(1)] by auto

subsection \<open>What the rows hold\<close>

lemma inert_append: "inert cs a \<Longrightarrow> inert cs b \<Longrightarrow> inert cs (a @ b)"
proof -
  assume "inert cs a" "inert cs b"
  then obtain as bs where "parse_format a = Some as" "parse_format b = Some bs"
      "\<forall>c. Slot c \<in> set as \<longrightarrow> c \<notin> cs" "\<forall>c. Slot c \<in> set bs \<longrightarrow> c \<notin> cs"
    by (auto simp: inert_def)
  then show ?thesis
    using parse_format_text [of a as] parse_format_text [of b bs] parse_format_tokens [of "as @ bs"]
    by (auto simp: inert_def intro!: exI [of _ "as @ bs"])
qed

lemma inert_concat: "(\<And>r. r \<in> set rs \<Longrightarrow> inert cs r) \<Longrightarrow> inert cs (concat rs)"
  by (induction rs) (auto intro: inert_append)

lemma inert_digits: "list_all is_ascii_digit s \<Longrightarrow> inert cs s"
  by (rule inert_plain) (auto simp: list_all_iff is_ascii_digit_def byte_val_def)

lemma inert_show_nat [simp]: "inert cs (show_nat n)"
  using show_nat_digits by (auto intro: inert_digits)

lemma inert_hex: "hex_ok H \<Longrightarrow> inert cs (hex_encode H b)"
  using hex_okD(3) by (intro inert_plain) (fastforce simp: list_all_iff is_hex_lower_def is_ascii_digit_def byte_val_def)

lemma show_octal_digits: "list_all is_ascii_digit (show_octal n)"
  by (induction n rule: show_octal.induct)
    (subst show_octal.simps, auto simp: is_ascii_digit_of)

lemma inert_permissions: "inert cs (snd (kind_and_permissions m))" "inert cs (fst (kind_and_permissions m))"
  by (auto simp: kind_and_permissions_def show_octal_digits intro: inert_digits inert_plain split: entry_metadata.split)

lemma inert_format_size: "format_size b = Inr s \<Longrightarrow> inert cs s"
proof -
  have zeros: "set (drop_zeros s) \<subseteq> set s" for s
    using set_dropWhileD by (fastforce simp: drop_zeros_def)
  have digits: "CHR ''%'' \<notin> set (show_nat n)" for n
    using show_nat_digits [of n] by (auto simp: list_all_iff is_ascii_digit_def byte_val_def)
  have "CHR ''%'' \<notin> set (drop_zeros (tl (show_nat n)))" for n
    using digits [of n] zeros [of "tl (show_nat n)"] by (cases "show_nat n") auto
  then have "CHR ''%'' \<notin> set (show_thousandths k)" for k
    using digits by (simp add: show_thousandths_def Let_def)
  then have "format_size_loop i us v = Inr s \<Longrightarrow> CHR ''%'' \<notin> set us \<Longrightarrow> CHR ''%'' \<notin> set s" for i us v
    by (induction us arbitrary: i) (auto split: if_splits)
  from this [of 0 size_units "f64_round (unat b)"]
  have "format_size b = Inr s \<Longrightarrow> CHR ''%'' \<notin> set s"
    by (simp only: format_size_def) (simp add: size_units_def)
  then show "format_size b = Inr s \<Longrightarrow> inert cs s" by (blast intro: inert_plain)
qed

definition snapshot_slots :: "pack_id \<Rightarrow> bytes \<Rightarrow> bytes \<Rightarrow> u64 \<Rightarrow> nat \<Rightarrow> (byte \<times> bytes) list" where
  "snapshot_slots pack tag human n file_count =
     [(CHR ''s'', pack_id_display pack @ CHR '':'' # tag), (CHR ''t'', tag), (CHR ''h'', human),
      (CHR ''b'', show_nat (unat n)), (CHR ''n'', show_nat file_count)]"

lemma format_snapshot_row_render:
  assumes "parse_format fmt = Some ts" "CHR ''%'' \<notin> set (pack_id_display pack)" "CHR ''%'' \<notin> set tag"
    "(format_size n :: 'e failure + bytes) = Inr human"
  shows "(format_snapshot_row fmt pack tag n file_count :: 'e failure + bytes) =
    Inr (render (map_of (snapshot_slots pack tag human n file_count)) ts)"
proof -
  let ?ps = "snapshot_slots pack tag human n file_count"
  have "distinct (map fst ?ps)" by (simp add: snapshot_slots_def)
  moreover have "\<forall>(c, r) \<in> set ?ps. inert (fst ` set ?ps) r"
    using assms(2-) by (auto simp: snapshot_slots_def intro: inert_plain inert_format_size)
  ultimately have "fills ?ps fmt = render (map_of ?ps) ts" using assms(1) fills_format by blast
  then show ?thesis using assms(4) by (simp add: format_snapshot_row_def snapshot_slots_def)
qed

definition file_slots :: "hex_crate \<Rightarrow> checksum \<Rightarrow> pack_path \<Rightarrow> bytes \<Rightarrow> u64 \<Rightarrow> entry_metadata \<Rightarrow> (byte \<times> bytes) list" where
  "file_slots H checksum p human n m =
     [(CHR ''o'', hex_encode H checksum), (CHR ''f'', escaped p), (CHR ''h'', human),
      (CHR ''b'', show_nat (unat n)), (CHR ''p'', snd (kind_and_permissions m)),
      (CHR ''k'', fst (kind_and_permissions m))]"

lemma hex_upper_cases: "d < 16 \<Longrightarrow> hex_upper d \<in> set ''0123456789ABCDEF''"
proof -
  have "\<forall>d \<in> set [0..<16]. hex_upper d \<in> set ''0123456789ABCDEF''" by code_simp
  then show "d < 16 \<Longrightarrow> hex_upper d \<in> set ''0123456789ABCDEF''" by simp
qed

lemma inert_percent_byte:
  assumes "cs \<inter> set ''%0123456789ABCDEF'' = {}"
  shows "inert cs (percent_byte b)"
proof -
  have a: "hex_upper (byte_val b div 16) \<in> set ''0123456789ABCDEF''" "hex_upper (byte_val b mod 16) \<in> set ''0123456789ABCDEF''"
  proof -
    have "byte_val b div 16 < 16" "byte_val b mod 16 < 16" using byte_val_less [of b] by linarith+
    then show "hex_upper (byte_val b div 16) \<in> set ''0123456789ABCDEF''"
      "hex_upper (byte_val b mod 16) \<in> set ''0123456789ABCDEF''" using hex_upper_cases by blast+
  qed
  then have "parse_format (percent_byte b) =
      Some [Slot (hex_upper (byte_val b div 16)), Lit (hex_upper (byte_val b mod 16))]"
    by (auto simp: percent_byte_def)
  with a(1) assms show ?thesis by (auto simp: inert_def)
qed

lemma inert_escaped:
  assumes "cs \<inter> set ''%0123456789ABCDEF'' = {}"
  shows "inert cs (escaped p)"
proof -
  have pct: "inert cs (concat (map percent_byte bs))" for bs
    by (rule inert_concat) (auto intro: inert_percent_byte [OF assms])
  have chars: "inert cs (push_escaped_str bs)" if "is_utf8 bs" for bs
    unfolding push_escaped_str_def
  proof (rule inert_concat)
    fix r assume "r \<in> set (map push_escaped_char (str_chars bs))"
    then obtain u where u: "u \<in> set (str_chars bs)" "r = push_escaped_char u" by auto
    show "inert cs r"
    proof (cases "u = 37 \<or> is_control u")
      case True
      then show ?thesis using u(2) pct by (auto simp: push_escaped_char_def)
    next
      case False
      have "is_scalar u"
        using u(1) that from_utf8_sound [of bs] by (auto simp: is_utf8_def is_ok_iff str_chars_def)
      from utf8_encode_ascii [OF this, of "CHR ''%''"] have "CHR ''%'' \<notin> set (utf8_encode u)"
        using False by (auto simp: byte_val_def)
      with u(2) False show ?thesis by (auto simp: push_escaped_char_def)
    qed
  qed
  have "inert cs (escape_bytes bs)" for bs
  proof (induction bs rule: escape_bytes.induct)
    case (1 bs)
    show ?case
    proof (cases "bs = []")
      case ne: False
      show ?thesis
      proof (cases "from_utf8 bs")
        case (Inr us)
        with ne chars [of bs] show ?thesis by (simp add: escape_bytes.simps [of bs] is_utf8_def)
      next
        case (Inl x)
        obtain v e where x: "x = (v, e)" by (cases x)
        have "is_utf8 (take v bs)" using from_utf8_error(2) Inl x by blast
        with ne Inl x chars pct "1.IH" [OF ne Inl] show ?thesis
          by (auto simp: escape_bytes.simps [of bs] Let_def intro!: inert_append)
      qed
    qed (auto simp: escape_bytes.simps intro: inert_plain)
  qed
  then show ?thesis by (simp add: escaped_def)
qed

lemma format_file_row_render:
  assumes "parse_format fmt = Some ts" "hex_ok H" "(format_size n :: 'e failure + bytes) = Inr human"
  shows "(format_file_row H fmt checksum p n m :: 'e failure + bytes) =
    Inr (render (map_of (file_slots H checksum p human n m)) ts)"
proof -
  let ?ps = "file_slots H checksum p human n m"
  have "distinct (map fst ?ps)" by (simp add: file_slots_def)
  moreover have "\<forall>(c, r) \<in> set ?ps. inert (fst ` set ?ps) r"
  proof -
    have keys: "fst ` set ?ps = set ''ofhbpk''" by (auto simp: file_slots_def)
    have "inert (set ''ofhbpk'') (escaped p)" by (rule inert_escaped) simp
    then show ?thesis
      unfolding keys using assms(2,3)
      by (auto simp: file_slots_def inert_permissions intro: inert_format_size inert_hex)
  qed
  ultimately have "fills ?ps fmt = render (map_of ?ps) ts" using assms(1) fills_format by blast
  then show ?thesis
    using assms(3) by (cases "kind_and_permissions m") (simp add: format_file_row_def file_slots_def)
qed

definition pack_slots :: "pack_id \<Rightarrow> nat \<Rightarrow> bytes \<Rightarrow> u64 \<Rightarrow> (byte \<times> bytes) list" where
  "pack_slots pack snapshot_count human n =
     [(CHR ''p'', pack_id_display pack), (CHR ''c'', show_nat snapshot_count),
      (CHR ''b'', show_nat (unat n)), (CHR ''h'', human)]"

lemma format_pack_row_render:
  assumes "parse_format fmt = Some ts" "CHR ''%'' \<notin> set (pack_id_display pack)"
    "(format_size n :: 'e failure + bytes) = Inr human"
  shows "(format_pack_row fmt pack k n :: 'e failure + bytes) =
    Inr (render (map_of (pack_slots pack k human n)) ts)"
proof -
  let ?ps = "pack_slots pack k human n"
  have "distinct (map fst ?ps)" by (simp add: pack_slots_def)
  moreover have "\<forall>(c, r) \<in> set ?ps. inert (fst ` set ?ps) r"
    using assms(2-) by (auto simp: pack_slots_def intro: inert_plain inert_format_size)
  ultimately have "fills ?ps fmt = render (map_of ?ps) ts" using assms(1) fills_format by blast
  then show ?thesis using assms(3) by (simp add: format_pack_row_def pack_slots_def)
qed

text \<open>A tag with a placeholder in it is not shown as it is: \<^verbatim>\<open>%n\<close> becomes the number of files.\<close>

lemma row_rewrites_tag:
  "(format_snapshot_row ''%t'' (Pack ''p'') ''v%n'' 0 3 :: unit failure + bytes) = Inr ''v3''"
  by code_simp

lemma digit_bytes:
  "byte_of 48 = CHR ''0''" "byte_of 49 = CHR ''1''" "byte_of 50 = CHR ''2''" "byte_of 51 = CHR ''3''"
  "byte_of 52 = CHR ''4''" "byte_of 53 = CHR ''5''"
  by code_simp+

lemma row_sizes:
  "(format_size 1536 :: unit failure + bytes) = Inr ''1.5K''"
  "(format_size 1023 :: unit failure + bytes) = Inr ''1023B''"
  "(format_size 1048576 :: unit failure + bytes) = Inr ''1M''"
  by (simp_all add: format_size_def size_units_def f64_round_small size_thousandths_def show_thousandths_def)
    (simp_all add: show_nat.simps digit_bytes drop_zeros_def)

end
