(* ===== verification/Commands.thy ===== *)
theory Commands
  imports RepoStore Algo RowFormat
begin

text \<open>
  The commands of \<^verbatim>\<open>src/bin/elfshaker/\<close> on repositories, after the parsing of their arguments by
  \<^verbatim>\<open>clap\<close>: the values of the arguments are parameters, what a command prints on standard output is
  its result.  The \<^verbatim>\<open>gc\<close> command is in \<^verbatim>\<open>RepoGc\<close>, the \<^verbatim>\<open>esi\<close> commands are in \<^verbatim>\<open>EsiCommands\<close>.
\<close>

type_synonym 'a cli = "(cli_error failure, 'a) fs_op"

text \<open>What a command reads of its process: the directory, the processors, standard input, the range of
  compression levels of the library and the random bytes of \<^verbatim>\<open>rand\<close>.\<close>

record process =
  ps_cwd :: path
  ps_cpus :: nat
  ps_physical :: nat
  ps_stdin :: "io_error + bytes"
  ps_levels :: "int \<times> int"
  ps_random :: bytes

fun lib_failure :: "error failure \<Rightarrow> cli_error failure" where
  "lib_failure (Fail e) = Fail (LibraryError e)"
| "lib_failure Panicked = Panicked"

definition lib :: "'a op \<Rightarrow> 'a cli" where
  "lib m = lift_err lib_failure m"

definition usage :: "bytes \<Rightarrow> cli_error failure" where
  "usage message = Fail (UsageError message)"

definition lines_text :: "bytes list \<Rightarrow> bytes" where
  "lines_text ls = concat (map (\<lambda>l. l @ [CHR 0x0A]) ls)"

definition open_repo_from_cwd :: "process \<Rightarrow> env \<Rightarrow> bytes \<Rightarrow> repository op" where
  "open_repo_from_cwd P E data_dir = open_with_data_dir E (ps_cwd P) (path_push (ps_cwd P) data_dir)"

text \<open>\<^verbatim>\<open>str::parse\<close> for \<^verbatim>\<open>u32\<close> and \<^verbatim>\<open>i32\<close>: the message of the error is the one the command prints.\<close>

definition invalid_digit :: bytes where "invalid_digit = ''invalid digit found in string''"

fun parse_digits :: "bytes \<Rightarrow> nat \<Rightarrow> nat \<Rightarrow> bytes \<Rightarrow> bytes + nat" where
  "parse_digits too_large bound acc [] = Inr acc"
| "parse_digits too_large bound acc (c # cs) =
     (if \<not> is_ascii_digit c then Inl invalid_digit
      else let acc = acc * 10 + (byte_val c - 48)
        in if acc > bound then Inl too_large else parse_digits too_large bound acc cs)"

definition parse_u32 :: "bytes \<Rightarrow> bytes + u32" where
  "parse_u32 s =
     (case s of [] \<Rightarrow> Inl ''cannot parse integer from empty string''
      | c # cs \<Rightarrow>
          if c \<in> {CHR ''+'', CHR ''-''} \<and> cs = [] then Inl invalid_digit
          else map_err id (rbind (parse_digits ''number too large to fit in target type'' (2 ^ 32 - 1) 0
            (if c = CHR ''+'' then cs else s)) (\<lambda>n. Inr (of_nat n))))"

definition parse_i32 :: "bytes \<Rightarrow> bytes + int" where
  "parse_i32 s =
     (case s of [] \<Rightarrow> Inl ''cannot parse integer from empty string''
      | c # cs \<Rightarrow>
          if c \<in> {CHR ''+'', CHR ''-''} \<and> cs = [] then Inl invalid_digit
          else if c = CHR ''-''
          then rbind (parse_digits ''number too small to fit in target type'' (2 ^ 31) 0 cs) (\<lambda>n. Inr (- int n))
          else rbind (parse_digits ''number too large to fit in target type'' (2 ^ 31 - 1) 0
            (if c = CHR ''+'' then cs else s)) (\<lambda>n. Inr (int n)))"

definition parse_threads :: "process \<Rightarrow> bytes \<Rightarrow> cli_error failure + u32" where
  "parse_threads P s =
     rbind (map_err usage (parse_u32 s)) (\<lambda>n. Inr (if n = 0 then of_nat (ps_physical P) else n))"

subsection \<open>Listing\<close>

text \<open>One row per snapshot; a panic in the closure ends the loop.\<close>

definition push_row ::
    "error failure + bytes \<Rightarrow> error failure + bytes list \<Rightarrow> unit option \<times> (error failure + bytes list)" where
  "push_row row rows =
     (case row of Inl e \<Rightarrow> (Some (), Inl e) | Inr l \<Rightarrow> (None, rbind rows (\<lambda>ls. Inr (ls @ [l]))))"

definition entries_size :: "file_entry list \<Rightarrow> u64" where
  "entries_size es = sum_list (map (\<lambda>e. om_size (fe_object e)) es)"

definition sized_rows :: "bytes \<Rightarrow> pack_id \<Rightarrow> pack_index \<Rightarrow> error failure + bytes list" where
  "sized_rows fmt pack idx =
     rbind (map_err pack_failure (for_each_snapshot idx
       (\<lambda>tag es. push_row (format_snapshot_row fmt pack tag (entries_size es) (length es))) (Inr [])))
     snd"

definition counted_rows :: "bytes \<Rightarrow> pack_id \<Rightarrow> pack_index \<Rightarrow> error failure + bytes list" where
  "counted_rows fmt pack idx =
     snd (for_each_snapshot_file_count idx
       (\<lambda>tag n. push_row (format_snapshot_row fmt pack tag 0 (unat n))) (Inr []))"

definition snapshot_rows :: "env \<Rightarrow> repository \<Rightarrow> fs \<Rightarrow> bytes \<Rightarrow> pack_id \<Rightarrow> error failure + bytes list" where
  "snapshot_rows E r fs fmt pack =
     rbind (load_index E r fs pack) (\<lambda>idx.
     if is_file_size_required fmt then sized_rows fmt pack idx else counted_rows fmt pack idx)"

text \<open>A worker that panics makes \<^verbatim>\<open>join\<close> panic; otherwise the first error is returned.\<close>

definition print_snapshots ::
    "process \<Rightarrow> env \<Rightarrow> repository \<Rightarrow> fs \<Rightarrow> pack_id list \<Rightarrow> bytes \<Rightarrow> error failure + bytes" where
  "print_snapshots P E r fs ps fmt =
     rbind (unwrap (run_in_parallel (ps_cpus P) ps (snapshot_rows E r fs fmt))) (\<lambda>results.
     rbind (join_results results) (\<lambda>rows. Inr (lines_text (sort (concat rows)))))"

definition list_run :: "process \<Rightarrow> env \<Rightarrow> bytes \<Rightarrow> bytes list option \<Rightarrow> bytes \<Rightarrow> bytes cli" where
  "list_run P E data_dir names fmt =
     lib (andThen (open_repo_from_cwd P E data_dir) (\<lambda>r.
     andThen (liftr (case names of None \<Rightarrow> Inr None
       | Some ns \<Rightarrow> map_err (\<lambda>e. Fail (IdError e))
           (rbind (collect (pack_id_from_str (e_cat E)) ns) (\<lambda>ps. Inr (Some ps))))) (\<lambda>chosen.
     andThen (packs E r) (\<lambda>known.
     query (\<lambda>fs. print_snapshots P E r fs (case chosen of Some ps \<Rightarrow> ps | None \<Rightarrow> known) fmt)))))"

definition file_rows :: "env \<Rightarrow> bytes \<Rightarrow> file_entry list \<Rightarrow> error failure + bytes list" where
  "file_rows E fmt es =
     collect (\<lambda>e. format_file_row (e_hex E) fmt (fe_checksum e) (fe_path e) (om_size (fe_object e))
       (fe_metadata e)) es"

text \<open>The entries of a snapshot; a tag that the index does not have is a panic (\<^verbatim>\<open>expect\<close>).\<close>

definition tagged_entries :: "pack_index \<Rightarrow> bytes \<Rightarrow> error failure + file_entry list" where
  "tagged_entries idx tag =
     rbind (map_err pack_failure (resolve_snapshot idx tag)) (\<lambda>found.
     rbind (unwrap found) (\<lambda>handles. snapshot_entries idx handles))"

definition print_files :: "env \<Rightarrow> repository \<Rightarrow> fs \<Rightarrow> snapshot_id \<Rightarrow> bytes \<Rightarrow> error failure + bytes" where
  "print_files E r fs sid fmt =
     rbind (load_index E r fs (sid_pack sid)) (\<lambda>idx.
     rbind (tagged_entries idx (sid_tag sid)) (\<lambda>es.
     rbind (file_rows E fmt es) (\<lambda>rows. Inr (lines_text (sort rows)))))"

definition list_files_run :: "process \<Rightarrow> env \<Rightarrow> bytes \<Rightarrow> bytes \<Rightarrow> bytes \<Rightarrow> bytes cli" where
  "list_files_run P E data_dir snapshot fmt =
     lib (andThen (open_repo_from_cwd P E data_dir) (\<lambda>r.
     andThen (find_snapshot E r snapshot) (\<lambda>sid.
     query (\<lambda>fs. print_files E r fs sid fmt))))"

text \<open>A pack that cannot be opened, a loose one for instance, has the size 0.\<close>

definition pack_row :: "env \<Rightarrow> repository \<Rightarrow> fs \<Rightarrow> bytes \<Rightarrow> pack_id \<Rightarrow> error failure + bytes" where
  "pack_row E r fs fmt pack =
     rbind (load_index_snapshots E r fs pack) (\<lambda>tags.
     format_pack_row fmt pack (length tags)
       (case open_reader E r fs pack of Inr p \<Rightarrow> pk_file_size p | Inl _ \<Rightarrow> 0))"

definition list_packs_run :: "process \<Rightarrow> env \<Rightarrow> bytes \<Rightarrow> bytes \<Rightarrow> bytes cli" where
  "list_packs_run P E data_dir fmt =
     lib (andThen (open_repo_from_cwd P E data_dir) (\<lambda>r.
     andThen (packs E r) (\<lambda>ids.
     query (\<lambda>fs. rbind (collect (pack_row E r fs fmt) ids) (\<lambda>rows. Inr (lines_text (sort rows)))))))"

subsection \<open>Finding\<close>

text \<open>
  \<^verbatim>\<open>print_table\<close>: the text for standard error (the header) and for standard output.  Every cell is
  followed by a space and the padding of its column; rows of other lengths are a panic.
\<close>

definition column_size :: "bytes list list \<Rightarrow> nat \<Rightarrow> nat" where
  "column_size rows i = foldr max (map (\<lambda>row. length (row ! i)) rows) 0"

definition padded_row :: "(nat \<Rightarrow> nat) \<Rightarrow> bytes list \<Rightarrow> bytes" where
  "padded_row width row =
     concat (map (\<lambda>(i, item). item @ CHR '' '' # replicate (width i - length item) (CHR '' '')) (enumerate 0 row))
     @ [CHR 0x0A]"

definition print_table :: "bytes list option \<Rightarrow> bytes list list \<Rightarrow> 'e failure + bytes \<times> bytes" where
  "print_table header rows =
     (let headers = (case header of None \<Rightarrow> [] | Some h \<Rightarrow> [h]) in
      case rows of
        [] \<Rightarrow> Inr (concat (map (\<lambda>h. concat (map (\<lambda>item. item @ '' '') h) @ [CHR 0x0A]) headers), [])
      | row # _ \<Rightarrow>
          let columns = length row; all = headers @ rows; width = column_size all
          in if \<exists>row \<in> set all. length row \<noteq> columns then Inl Panicked
             else Inr (concat (map (padded_row width) headers), concat (map (padded_row width) rows)))"

text \<open>The second pass over the packs skips an index that does not load; the first one has failed then.\<close>

definition find_rows :: "env \<Rightarrow> repository \<Rightarrow> fs \<Rightarrow> bytes \<Rightarrow> pack_id \<Rightarrow> bytes list list" where
  "find_rows E r fs term pack =
     (case load_index_snapshots E r fs pack of
        Inl _ \<Rightarrow> []
      | Inr tags \<Rightarrow> map (\<lambda>tag. [tag, pack_id_display pack]) (filter (str_contains term) tags))"

definition find_run :: "process \<Rightarrow> env \<Rightarrow> bytes \<Rightarrow> bytes \<Rightarrow> (bytes \<times> bytes) cli" where
  "find_run P E data_dir term =
     lib (andThen (open_repo_from_cwd P E data_dir) (\<lambda>r.
     andThen (packs E r) (\<lambda>ids.
     andThen (query (\<lambda>fs. collect (load_index_snapshots E r fs) ids)) (\<lambda>_.
     andThen (packs E r) (\<lambda>ids.
     query (\<lambda>fs. print_table (Some [''SNAPSHOT'', ''PACK'']) (concat (map (find_rows E r fs term) ids))))))))"

subsection \<open>Showing files\<close>

definition path_entry :: "file_entry list \<Rightarrow> bytes \<Rightarrow> file_entry option" where
  "path_entry es path =
     (case from_native path of
        Inl _ \<Rightarrow> None
      | Inr p \<Rightarrow> map_of (rev (map (\<lambda>e. (fe_path e, e)) es)) p)"

definition select_entries :: "file_entry list \<Rightarrow> bytes list \<Rightarrow> cli_error failure + file_entry list" where
  "select_entries es paths =
     collect (\<lambda>path. ok_or (usage ''Some of the paths did not match files in the snapshot!'')
       (path_entry es path)) paths"

definition show_files :: "env \<Rightarrow> repository \<Rightarrow> snapshot_id \<Rightarrow> bytes list \<Rightarrow> bytes cli" where
  "show_files E r sid paths =
     andThen (lib (query (\<lambda>fs. rbind (load_index E r fs (sid_pack sid)) (\<lambda>idx.
       tagged_entries idx (sid_tag sid))))) (\<lambda>es.
     andThen (liftr (select_entries es paths)) (\<lambda>selected.
     andThen (lib (repo_read_entry_objects E r (sid_pack sid) selected)) (\<lambda>objects.
     ret (concat objects))))"

definition show_run :: "process \<Rightarrow> env \<Rightarrow> bytes \<Rightarrow> bytes \<Rightarrow> bytes list \<Rightarrow> bytes cli" where
  "show_run P E data_dir snapshot paths =
     andThen (lib (open_repo_from_cwd P E data_dir)) (\<lambda>r.
     andThen (lib (find_snapshot E r snapshot)) (\<lambda>sid.
     show_files E r sid paths))"

subsection \<open>Updating, cloning and exploding\<close>

definition update_run :: "process \<Rightarrow> env \<Rightarrow> bytes \<Rightarrow> unit cli" where
  "update_run P E data_dir =
     lib (andThen (open_repo_from_cwd P E data_dir) (\<lambda>r. update_remotes E r))"

text \<open>\<^verbatim>\<open>Path::file_name\<close>: the last component, unless it is \<^verbatim>\<open>..\<close> or there is none.\<close>

definition native_file_name :: "bytes \<Rightarrow> bytes option" where
  "native_file_name p =
     (let cs = unix_components p in
      if cs = [] then None else case last cs of Normal name \<Rightarrow> Some name | _ \<Rightarrow> None)"

definition create_random_name :: "process \<Rightarrow> env \<Rightarrow> bytes" where
  "create_random_name P E = hex_encode (e_hex E) (ps_random P)"

definition temporary_directory :: "process \<Rightarrow> env \<Rightarrow> bytes \<Rightarrow> cli_error failure + path" where
  "temporary_directory P E directory =
     (case native_file_name directory of
        None \<Rightarrow> Inl (usage ''clone destination must have a directory name'')
      | Some name \<Rightarrow>
          Inr (butlast (path_push (ps_cwd P) directory)
            @ [CHR ''.'' # name @ CHR ''-'' # create_random_name P E]))"

definition do_clone :: "env \<Rightarrow> path \<Rightarrow> bytes \<Rightarrow> bytes \<Rightarrow> unit cli" where
  "do_clone E work_dir data_dir origin_url =
     (let data_path = path_push work_dir data_dir in
      lib (andThen (io (create_dir work_dir)) (\<lambda>_.
      andThen (io (create_dir_all data_path)) (\<lambda>_.
      andThen (open_with_data_dir E work_dir data_path) (\<lambda>r.
      andThen (add_remote E r ''origin'' origin_url) (\<lambda>_.
      update_remotes E r))))))"

text \<open>A panic in \<^verbatim>\<open>do_clone\<close> unwinds past the removal of the temporary directory.\<close>

definition clone_run :: "process \<Rightarrow> env \<Rightarrow> bytes \<Rightarrow> bytes \<Rightarrow> bytes \<Rightarrow> unit cli" where
  "clone_run P E data_dir origin_url directory fs =
     (let dest = path_push (ps_cwd P) directory in
      if directory \<noteq> [] \<and> path_exists fs dest
      then (Inl (usage (CHR 0x27 # directory @ CHR 0x27 # '' already exists!'')), fs)
      else case temporary_directory P E directory of
        Inl e \<Rightarrow> (Inl e, fs)
      | Inr temp \<Rightarrow>
          (case do_clone E temp data_dir origin_url fs of
             (Inl (Fail e), fs) \<Rightarrow> (Inl (Fail e), snd (remove_dir_all temp fs))
           | (Inl Panicked, fs) \<Rightarrow> (Inl Panicked, fs)
           | (Inr _, fs) \<Rightarrow> lib (io (fs_rename temp dest)) fs))"

definition explode_run :: "process \<Rightarrow> env \<Rightarrow> bytes \<Rightarrow> bytes \<Rightarrow> unit cli" where
  "explode_run P E data_dir name =
     lib (andThen (open_repo_from_cwd P E data_dir) (\<lambda>r.
     andThen (query (\<lambda>fs. map_err (\<lambda>e. Fail (IdError e)) (is_pack E r fs name))) (\<lambda>found.
     andThen (liftr (map_err Fail (ok_or (PackNotFound name) found))) (\<lambda>pack.
     explode_pack E r pack))))"

subsection \<open>Extracting\<close>

text \<open>Only a snapshot that is not found makes the command ask the remotes.\<close>

definition find_or_update :: "env \<Rightarrow> repository \<Rightarrow> bytes \<Rightarrow> snapshot_id op" where
  "find_or_update E r snapshot fs =
     (case find_snapshot E r snapshot fs of
        (Inl (Fail (PackErr (SnapshotNotFound t))), fs) \<Rightarrow>
          andThen (update_remotes E r) (\<lambda>_. find_snapshot E r snapshot) fs
      | found \<Rightarrow> found)"

text \<open>The result is \<^term>\<open>None\<close> when HEAD is at the snapshot already and nothing is done.\<close>

definition extract_run ::
    "process \<Rightarrow> env \<Rightarrow> bytes \<Rightarrow> bytes \<Rightarrow> bytes \<Rightarrow> bool \<Rightarrow> bool \<Rightarrow> bool \<Rightarrow> extract_result option cli" where
  "extract_run P E data_dir snapshot threads_arg is_reset is_verify is_force =
     andThen (liftr (parse_threads P threads_arg)) (\<lambda>threads.
     lib (andThen (open_repo_from_cwd P E data_dir) (\<lambda>r.
     andThen (find_or_update E r snapshot) (\<lambda>new_head.
     andThen (query (\<lambda>fs. map_err Fail (read_head E r fs))) (\<lambda>(head, _).
     if head = Some new_head \<and> \<not> is_reset then ret None
     else
       let opts = default_extract_options\<lparr>xo_verify := is_verify, xo_reset := is_reset,
             xo_force := is_force, xo_num_workers := threads\<rparr>
       in andThen (extract_snapshot E r new_head opts) (\<lambda>result. ret (Some result)))))))"

subsection \<open>Storing\<close>

definition read_files_list :: "byte \<Rightarrow> bytes \<Rightarrow> bytes list" where
  "read_files_list separator buf = filter (\<lambda>s. s \<noteq> []) (split_on separator buf)"

text \<open>
  \<^verbatim>\<open>WalkDir::new(".")\<close>: paths that start with \<^verbatim>\<open>./\<close>.  Everything below \<^verbatim>\<open>elfshaker_data\<close> is pruned,
  errors are skipped, and files and symbolic links are kept.
\<close>

definition found_file :: "path \<Rightarrow> fs \<Rightarrow> error + path \<times> bool \<Rightarrow> bytes option" where
  "found_file cwd fs entry =
     (case entry of
        Inl _ \<Rightarrow> None
      | Inr (p, is_file) \<Rightarrow>
          (case strip_prefix cwd p of
             None \<Rightarrow> None
           | Some relative \<Rightarrow>
               if relative \<noteq> [] \<and> hd relative = ''elfshaker_data'' then None
               else if is_file \<or> (case fs_get fs p of Some n \<Rightarrow> is_link_node n | None \<Rightarrow> False)
               then Some (join_with (CHR ''/'') (''.'' # relative)) else None))"

definition find_files :: "process \<Rightarrow> env \<Rightarrow> fs \<Rightarrow> bytes list" where
  "find_files P E fs = List.map_filter (found_file (ps_cwd P) fs) (e_walk E fs (ps_cwd P))"

definition read_argument :: "process \<Rightarrow> fs \<Rightarrow> bytes \<Rightarrow> io_error + bytes" where
  "read_argument P fs file = (if file = ''-'' then ps_stdin P else fs_read fs (path_push (ps_cwd P) file))"

definition select_files ::
    "process \<Rightarrow> env \<Rightarrow> bytes option \<Rightarrow> bytes option \<Rightarrow> fs \<Rightarrow> cli_error failure + bytes list" where
  "select_files P E files_from files0_from fs =
     (case (files_from, files0_from) of
        (Some _, Some _) \<Rightarrow> Inl (usage ''Invalid options!'')
      | (Some f, None) \<Rightarrow> map_err (\<lambda>e. Fail (LibraryError (IOError e)))
          (rbind (read_argument P fs f) (\<lambda>buf. Inr (read_files_list (CHR 0x0A) buf)))
      | (None, Some f) \<Rightarrow> map_err (\<lambda>e. Fail (LibraryError (IOError e)))
          (rbind (read_argument P fs f) (\<lambda>buf. Inr (read_files_list (CHR 0x00) buf)))
      | (None, None) \<Rightarrow> Inr (find_files P E fs))"

definition store_inputs ::
    "process \<Rightarrow> env \<Rightarrow> bytes \<Rightarrow> bytes \<Rightarrow> bytes option \<Rightarrow> bytes option \<Rightarrow>
     (snapshot_id \<times> bytes list \<times> repository) cli" where
  "store_inputs P E data_dir snapshot files_from files0_from =
     andThen (liftr (map_err (\<lambda>e. Fail (LibraryError (IdError e)))
       (rbind (for_loose_snapshot (e_cat E) snapshot) (\<lambda>pack. snapshot_id_new (e_cat E) pack snapshot)))) (\<lambda>sid.
     andThen (query (select_files P E files_from files0_from)) (\<lambda>files.
     andThen (lib (io (create_dir_all (path_push (ps_cwd P) data_dir)))) (\<lambda>_.
     andThen (lib (open_repo_from_cwd P E data_dir)) (\<lambda>r. ret (sid, files, r)))))"

definition store_run ::
    "process \<Rightarrow> env \<Rightarrow> bytes \<Rightarrow> bytes \<Rightarrow> bytes option \<Rightarrow> bytes option \<Rightarrow> bool \<Rightarrow> fs \<Rightarrow>
     ((cli_error failure + unit) \<times> fs) option" where
  "store_run P E data_dir snapshot files_from files0_from force fs =
     (case store_inputs P E data_dir snapshot files_from files0_from fs of
        (Inl e, fs) \<Rightarrow> Some (Inl e, fs)
      | (Inr (sid, files, r), fs) \<Rightarrow>
          map_option (\<lambda>(x, _, fs). (map_err lib_failure x, fs))
            (if force then create_snapshot_force E r sid files fs else create_snapshot E r sid files fs))"

subsection \<open>Packing\<close>

text \<open>
  The loop over the loose indexes.  An error of \<^verbatim>\<open>push_snapshot\<close> (a tag that the new index has) breaks the
  loop over one index with a value that \<^verbatim>\<open>run\<close> drops, and the next index is taken; a panic is carried by the
  state.
\<close>

definition push_entries ::
    "bytes \<Rightarrow> file_entry list \<Rightarrow> error failure + pack_index \<Rightarrow>
     unit option \<times> (error failure + pack_index)" where
  "push_entries tag es st =
     (case st of
        Inl e \<Rightarrow> (Some (), st)
      | Inr new_index \<Rightarrow>
          (case push_snapshot new_index tag es of
             Inl (Fail e) \<Rightarrow> (Some (), st)
           | Inl Panicked \<Rightarrow> (Some (), Inl Panicked)
           | Inr new_index \<Rightarrow> (None, Inr new_index)))"

definition merge_index :: "pack_index \<Rightarrow> pack_index \<Rightarrow> error failure + pack_index" where
  "merge_index new_index idx =
     rbind (map_err pack_failure (for_each_snapshot idx push_entries (Inr new_index))) snd"

fun merge_loose :: "env \<Rightarrow> repository \<Rightarrow> fs \<Rightarrow> pack_index \<Rightarrow> pack_id list \<Rightarrow> error failure + pack_index" where
  "merge_loose E r fs new_index [] = Inr new_index"
| "merge_loose E r fs new_index (p # ps) =
     rbind (ensure (is_pack_loose E r fs p)) (\<lambda>_.
     rbind (load_index E r fs p) (\<lambda>idx.
     rbind (merge_index new_index idx) (\<lambda>new_index. merge_loose E r fs new_index ps)))"

definition frame_per_data_size :: nat where "frame_per_data_size = 512 * 1024 * 1024"

definition get_frame_size_hint :: "u64 \<Rightarrow> u32" where
  "get_frame_size_hint n = of_nat ((unat n + frame_per_data_size - 1) div frame_per_data_size)"

text \<open>A list that cannot be opened is a panic (\<^verbatim>\<open>unwrap\<close>); a directory opens and fails when it is read.\<close>

definition read_list_argument :: "process \<Rightarrow> fs \<Rightarrow> bytes \<Rightarrow> error failure + bytes" where
  "read_list_argument P fs file =
     (if file = ''-'' then map_err (\<lambda>e. Fail (IOError e)) (ps_stdin P)
      else case fs_read fs (path_push (ps_cwd P) file) of
        Inr buf \<Rightarrow> Inr buf
      | Inl e \<Rightarrow> Inl (if e = IsADirectory then Fail (IOError e) else Panicked))"

fun listed_packs :: "env \<Rightarrow> repository \<Rightarrow> bytes list \<Rightarrow> pack_id list op" where
  "listed_packs E r [] = ret []"
| "listed_packs E r (s # ss) =
     (if \<not> is_utf8 s then err (Fail (IOError InvalidData))
      else andThen (find_snapshot E r s) (\<lambda>sid.
        andThen (listed_packs E r ss) (\<lambda>ps. ret (sid_pack sid # ps))))"

definition packs_from_list :: "process \<Rightarrow> env \<Rightarrow> repository \<Rightarrow> bytes \<Rightarrow> byte \<Rightarrow> pack_id list op" where
  "packs_from_list P E r file separator =
     andThen (query (\<lambda>fs. read_list_argument P fs file)) (\<lambda>buf.
     listed_packs E r (read_files_list separator buf))"

record pack_args =
  pa_pack :: bytes
  pa_from :: "bytes option"
  pa_from0 :: "bytes option"
  pa_indexes :: "bytes list option"
  pa_level :: bytes
  pa_threads :: bytes
  pa_frames :: bytes
  pa_force :: bool

definition chosen_packs ::
    "process \<Rightarrow> env \<Rightarrow> repository \<Rightarrow> bytes option \<Rightarrow> bytes option \<Rightarrow> pack_id list option \<Rightarrow> pack_id list cli" where
  "chosen_packs P E r from from0 indexes =
     (case (from, from0, indexes) of
        (Some f, None, None) \<Rightarrow> lib (packs_from_list P E r f (CHR 0x0A))
      | (None, Some f, None) \<Rightarrow> lib (packs_from_list P E r f (CHR 0x00))
      | (None, None, Some ps) \<Rightarrow> ret ps
      | (None, None, None) \<Rightarrow> lib (loose_packs E r)
      | _ \<Rightarrow> err (usage ''Invalid options!''))"

definition show_int :: "int \<Rightarrow> bytes" where
  "show_int i = (if i < 0 then CHR ''-'' # show_nat (nat (- i)) else show_nat (nat i))"

definition level_message :: "process \<Rightarrow> int \<Rightarrow> bytes" where
  "level_message P level =
     ''Invalid compression level '' @ show_int level @ '' (value must be between '' @
     show_int (fst (ps_levels P)) @ '' and '' @ show_int (snd (ps_levels P)) @ '')!''"

definition parse_level :: "process \<Rightarrow> bytes \<Rightarrow> cli_error failure + int" where
  "parse_level P s =
     rbind (map_err usage (parse_i32 s)) (\<lambda>level.
     if fst (ps_levels P) \<le> level \<and> level \<le> snd (ps_levels P) then Inr level
     else Inl (usage (level_message P level)))"

definition parse_pack_args ::
    "process \<Rightarrow> env \<Rightarrow> pack_args \<Rightarrow> cli_error failure + pack_id \<times> pack_id list option \<times> int \<times> u32" where
  "parse_pack_args P E a =
     (let pack_id = (\<lambda>s. map_err (\<lambda>e. Fail (LibraryError (IdError e))) (pack_id_from_str (e_cat E) s)) in
      rbind (pack_id (pa_pack a)) (\<lambda>pack.
      rbind (case pa_indexes a of None \<Rightarrow> Inr None
        | Some ns \<Rightarrow> rbind (collect pack_id ns) (\<lambda>ps. Inr (Some ps))) (\<lambda>indexes.
      rbind (parse_level P (pa_level a)) (\<lambda>level.
      rbind (parse_threads P (pa_threads a)) (\<lambda>threads. Inr (pack, indexes, level, threads))))))"

definition parse_frames :: "bytes \<Rightarrow> pack_index \<Rightarrow> cli_error failure + u32" where
  "parse_frames s new_index =
     rbind (map_err usage (parse_u32 s)) (\<lambda>n.
     Inr (if n = 0 then get_frame_size_hint (object_size_total new_index) else n))"

definition pack_inputs ::
    "process \<Rightarrow> env \<Rightarrow> bytes \<Rightarrow> pack_args \<Rightarrow>
     (repository \<times> pack_id \<times> pack_id list \<times> pack_index \<times> pack_options) cli" where
  "pack_inputs P E data_dir a =
     andThen (liftr (parse_pack_args P E a)) (\<lambda>(pack, indexes, level, threads).
     andThen (lib (open_repo_from_cwd P E data_dir)) (\<lambda>r.
     andThen (chosen_packs P E r (pa_from a) (pa_from0 a) indexes) (\<lambda>snapshots.
     andThen (liftr (if snapshots = [] then Inl (usage ''There are no loose snapshots!'') else Inr ())) (\<lambda>_.
     andThen (lib (query (\<lambda>fs. merge_loose E r fs index_new snapshots))) (\<lambda>new_index.
     andThen (liftr (parse_frames (pa_frames a) new_index)) (\<lambda>frames.
     ret (r, pack, snapshots, new_index,
       \<lparr>po_window_log = 28, po_level = level, po_num_workers = threads, po_num_frames = frames\<rparr>)))))))"

text \<open>HEAD moves into the new pack when it is at one of the packed snapshots.\<close>

definition move_head :: "env \<Rightarrow> repository \<Rightarrow> pack_id \<Rightarrow> pack_id list \<Rightarrow> unit op" where
  "move_head E r pack snapshots =
     andThen (query (\<lambda>fs. map_err Fail (read_head E r fs))) (\<lambda>(head, _).
     case head of
       Some h \<Rightarrow>
         if sid_pack h \<in> set snapshots
         then andThen (liftr (map_err (\<lambda>_. Panicked) (snapshot_id_new (e_cat E) pack (sid_tag h)))) (update_head E r)
         else ret ()
     | None \<Rightarrow> ret ())"

definition pack_run :: "process \<Rightarrow> env \<Rightarrow> bytes \<Rightarrow> pack_args \<Rightarrow> fs \<Rightarrow> ((cli_error failure + unit) \<times> fs) option" where
  "pack_run P E data_dir a fs =
     (case pack_inputs P E data_dir a fs of
        (Inl e, fs) \<Rightarrow> Some (Inl e, fs)
      | (Inr (r, pack, snapshots, new_index, opts), fs) \<Rightarrow>
          (case (if pa_force a then create_pack_force E r pack new_index opts fs
                 else create_pack E r pack new_index opts fs) of
             None \<Rightarrow> None
           | Some (Inl e, fs) \<Rightarrow> Some (Inl (lib_failure e), fs)
           | Some (Inr _, fs) \<Rightarrow> Some (lib (move_head E r pack snapshots) fs)))"

end
