(* ===== verification/CommandFacts.thy ===== *)
theory CommandFacts
  imports Commands StoreExtract PackCreate
begin

text \<open>
  What the commands print: the rows of \<^verbatim>\<open>list\<close>, \<^verbatim>\<open>list-files\<close> and \<^verbatim>\<open>list-packs\<close> in terms of the
  tagged sets of an index, the contents that \<^verbatim>\<open>show\<close> writes, and the index that \<^verbatim>\<open>pack\<close> builds from
  the loose indexes.
\<close>

subsection \<open>The rows of an index\<close>

definition size_text :: "u64 \<Rightarrow> bytes" where
  "size_text n = (case format_size n of Inr s \<Rightarrow> s | Inl (e :: unit failure) \<Rightarrow> [])"

definition set_size :: "file_entry set \<Rightarrow> u64" where
  "set_size es = (\<Sum>e\<in>es. om_size (fe_object e))"

definition snapshot_line :: "token list \<Rightarrow> pack_id \<Rightarrow> bytes \<times> file_entry set \<Rightarrow> bytes" where
  "snapshot_line ts pack = (\<lambda>(tag, es).
     render (map_of (snapshot_slots pack tag (size_text (set_size es)) (set_size es) (card es))) ts)"

text \<open>The sizes that \<^verbatim>\<open>format_size\<close> has a text for, when the format asks for sizes.\<close>

definition listable :: "bytes \<Rightarrow> pack_index \<Rightarrow> bool" where
  "listable fmt idx \<longleftrightarrow> index_wf idx \<and> (\<forall>(tag, es) \<in> set (entry_sets idx).
     CHR ''%'' \<notin> set tag \<and> card es < 2 ^ 64 \<and>
     (is_file_size_required fmt \<longrightarrow> unat (set_size es) < 2 ^ 50))"

lemma format_size_text: "unat n < 2 ^ 50 \<Longrightarrow> (format_size n :: 'e failure + bytes) = Inr (size_text n)"
proof -
  assume n: "unat n < 2 ^ 50"
  have same: "(format_size_loop i us v :: 'e failure + bytes) =
      (case (format_size_loop i us v :: unit failure + bytes) of Inr s \<Rightarrow> Inr s | Inl _ \<Rightarrow> Inl Panicked)" for i us v
    by (induction us arbitrary: i) auto
  obtain s where "(format_size n :: unit failure + bytes) = Inr s"
    using n format_size_panics [of n, where 'a = unit] format_size_error [of n, where 'a = unit]
    by (cases "format_size n :: unit failure + bytes") fastforce+
  then show ?thesis using same by (simp add: size_text_def format_size_def)
qed

lemma snapshot_line_eq:
  assumes "parse_format fmt = Some ts" "CHR ''%'' \<notin> set (pack_id_display pack)" "CHR ''%'' \<notin> set tag"
    "unat n < 2 ^ 50"
  shows "(format_snapshot_row fmt pack tag n k :: 'e failure + bytes) =
    Inr (render (map_of (snapshot_slots pack tag (size_text n) n k)) ts)"
  using format_snapshot_row_render [OF assms(1-3) format_size_text [OF assms(4)]] .

text \<open>A format without placeholders for sizes gives the same row for all sizes.\<close>

lemma slot_contained: "Slot c \<in> set ts \<Longrightarrow> str_contains [CHR ''%'', c] (tokens_text ts)"
  by (auto simp: str_contains_def dest!: split_list intro!: sublist_appendI [of "[_, _]", simplified])

lemma render_unsized:
  assumes "parse_format fmt = Some ts" "\<not> is_file_size_required fmt"
  shows "render (map_of (snapshot_slots pack tag h n k)) ts = render (map_of (snapshot_slots pack tag h' n' k)) ts"
proof -
  have "Slot CHR ''h'' \<notin> set ts" "Slot CHR ''b'' \<notin> set ts"
    using assms slot_contained parse_format_text [OF assms(1)] by (auto simp: is_file_size_required_def)
  then show ?thesis
  proof (induction ts)
    case (Cons t ts)
    then show ?case by (cases t) (auto simp: snapshot_slots_def)
  qed simp
qed

lemma visit_rows:
  "(\<And>tag es st. (tag, es) \<in> set xs \<Longrightarrow> f tag es st = push_row (Inr (row (tag, es))) st) \<Longrightarrow>
     visit f xs (Inr ls) = (None, Inr (ls @ map row xs))"
proof (induction xs arbitrary: ls)
  case (Cons x xs)
  have "visit f xs (Inr (ls @ [row x])) = (None, Inr ((ls @ [row x]) @ map row xs))"
    by (rule Cons.IH) (simp add: Cons.prems)
  with Cons.prems [of "fst x" "snd x"] show ?case by (cases x) (simp add: push_row_def)
qed simp

lemma sized_rows_eq:
  assumes fmt: "parse_format fmt = Some ts" and pack: "CHR ''%'' \<notin> set (pack_id_display pack)"
    and ok: "listable fmt idx" and req: "is_file_size_required fmt"
  shows "sized_rows fmt pack idx = Inr (map (snapshot_line ts pack) (entry_sets idx))"
proof -
  let ?g = "\<lambda>tag es. push_row (format_snapshot_row fmt pack tag (set_size es) (card es))"
  have "for_each_snapshot idx
      (\<lambda>tag es. push_row (format_snapshot_row fmt pack tag (entries_size es) (length es))) (Inr []) =
      Inr (visit ?g (entry_sets idx) (Inr []))"
    using ok by (intro for_each_snapshot_entries)
      (simp_all add: listable_def entries_size_def set_size_def sum_list_distinct_conv_sum_set distinct_card)
  moreover have "visit ?g (entry_sets idx) (Inr []) = (None, Inr ([] @ map (snapshot_line ts pack) (entry_sets idx)))"
    using ok req pack
    by (intro visit_rows) (fastforce simp: listable_def snapshot_line_def snapshot_line_eq [OF fmt])
  ultimately show ?thesis by (simp add: sized_rows_def)
qed

lemma entry_set_card:
  assumes "index_wf idx" "(tag, es) \<in> set (entry_sets idx)"
  shows "card (entry_content ` es) = card es"
proof -
  obtain S where S: "es = entry_of idx ` S" "handles_valid idx S" and t: "index_tables_wf idx"
    using assms by (auto simp: entry_sets_def index_wf_def dest!: set_zip_rightD)
  have "card (entry_content ` es) = card S"
    unfolding S(1) contents_of_entries [OF t S(2)]
    unfolding contents_of_def by (rule card_image [OF handles_inj [OF t S(2)]])
  moreover have "card es = card S" unfolding S(1) by (rule card_image [OF entry_of_inj [OF t S(2)]])
  ultimately show ?thesis by simp
qed

lemma counted_rows_eq:
  assumes fmt: "parse_format fmt = Some ts" and pack: "CHR ''%'' \<notin> set (pack_id_display pack)"
    and ok: "listable fmt idx" and req: "\<not> is_file_size_required fmt"
  shows "counted_rows fmt pack idx = Inr (map (snapshot_line ts pack) (entry_sets idx))"
proof -
  let ?f = "\<lambda>tag n. push_row (format_snapshot_row fmt pack tag 0 (unat (n :: u64)))"
  have wf: "index_wf idx" using ok by (simp add: listable_def)
  have "for_each_snapshot_file_count idx ?f (Inr []) =
      visit (\<lambda>tag es. ?f tag (of_nat (card (entry_content ` es)))) (entry_sets idx) (Inr [])"
    unfolding for_each_snapshot_file_count_visit [OF wf] snapshots_of_entries [OF wf] entry_sets_def
    by (rule visit_map [symmetric])
  also have "\<dots> = (None, Inr ([] @ map (snapshot_line ts pack) (entry_sets idx)))"
  proof (rule visit_rows)
    fix tag es st assume x: "(tag, es) \<in> set (entry_sets idx)"
    have c: "unat (of_nat (card (entry_content ` es)) :: u64) = card es" and tag: "CHR ''%'' \<notin> set tag"
      using ok x entry_set_card [OF wf x] by (auto simp: listable_def unat_of_nat)
    have "(format_snapshot_row fmt pack tag 0 (card es) :: error failure + bytes) =
        Inr (render (map_of (snapshot_slots pack tag (size_text 0) 0 (card es))) ts)"
      by (rule snapshot_line_eq [OF fmt pack tag]) simp
    also have "\<dots> = Inr (snapshot_line ts pack (tag, es))"
      unfolding snapshot_line_def prod.case by (rule arg_cong [OF render_unsized [OF fmt req]])
    finally show "?f tag (of_nat (card (entry_content ` es))) st = push_row (Inr (snapshot_line ts pack (tag, es))) st"
      unfolding c by simp
  qed
  finally show ?thesis by (simp add: counted_rows_def)
qed

lemma snapshot_rows_eq:
  assumes "parse_format fmt = Some ts" "CHR ''%'' \<notin> set (pack_id_display pack)"
    "load_index E r fs pack = Inr idx" "listable fmt idx"
  shows "snapshot_rows E r fs fmt pack = Inr (map (snapshot_line ts pack) (entry_sets idx))"
  using assms sized_rows_eq counted_rows_eq by (simp add: snapshot_rows_def)

lemma print_snapshots_eq:
  assumes "parse_format fmt = Some ts" "0 < ps_cpus P"
    and ok: "\<forall>p \<in> set ps. CHR ''%'' \<notin> set (pack_id_display p) \<and> load_index E r fs p = Inr (ix p) \<and> listable fmt (ix p)"
  shows "print_snapshots P E r fs ps fmt =
    Inr (lines_text (sort (concat (map (\<lambda>p. map (snapshot_line ts p) (entry_sets (ix p))) ps))))"
proof -
  let ?rows = "\<lambda>p. map (snapshot_line ts p) (entry_sets (ix p))"
  have rows: "map (snapshot_rows E r fs fmt) ps = map (\<lambda>p. Inr (?rows p)) ps"
    using ok snapshot_rows_eq [OF assms(1)] by simp
  have "join_results (map (\<lambda>p. Inr (?rows p)) ps) = (Inr (map ?rows ps) :: error failure + _)"
    by (induction ps) (auto simp: join_results_def)
  then show ?thesis
    by (simp add: print_snapshots_def run_in_parallel_eq_map [OF assms(2)] rows unwrap_def)
qed

subsection \<open>Showing what was stored\<close>

text \<open>Reading depends on the data directory only, not on the lock that is held.\<close>

lemma loose_reads_same:
  assumes "rp_data_dir r' = rp_data_dir r"
  shows "load_index E r' = load_index E r" "is_pack_loose E r' = is_pack_loose E r"
    "read_loose_object E r' = read_loose_object E r"
proof -
  have p: "packs_root r' = packs_root r" "loose_root r' = loose_root r"
    using assms by (simp_all add: packs_root_def loose_root_def)
  then show "load_index E r' = load_index E r" "is_pack_loose E r' = is_pack_loose E r"
    "read_loose_object E r' = read_loose_object E r"
    by (simp_all add: fun_eq_iff load_index_def is_pack_loose_def read_loose_object_def get_pack_index_path_def
        loose_object_path_def del: validate_pack_id.simps)
qed

lemma loose_entries_read:
  assumes loose: "is_pack_loose E r fs pack"
    and ok: "\<forall>e \<in> set sel. read_loose_object E r fs e = Inr (e, b (fe_path e)) \<and>
      check_object E (e, b (fe_path e)) = Inr (entry_content e, b (fe_path e))"
  shows "repo_read_entry_objects E r pack sel fs = (Inr (map (\<lambda>e. b (fe_path e)) sel), fs)"
proof -
  let ?pairs = "map (\<lambda>e. (entry_content e, b (fe_path e))) sel"
  have read: "collect (read_loose_object E r fs) sel = Inr (map (\<lambda>e. (e, b (fe_path e))) sel)"
    using ok by (simp add: collect_total)
  have check: "collect (check_object E) (map (\<lambda>e. (e, b (fe_path e))) sel) = Inr ?pairs"
    using ok by (induction sel) auto
  have one: "map_of (rev ?pairs) (entry_content e) = Some (b (fe_path e))" if e: "e \<in> set sel" for e
  proof -
    obtain x where x: "map_of (rev ?pairs) (entry_content e) = Some x"
      using e by (cases "map_of (rev ?pairs) (entry_content e)") (force simp: map_of_eq_None_iff)+
    then have "(entry_content e, x) \<in> set ?pairs" by (auto dest: map_of_SomeD)
    with x show ?thesis by (auto simp: entry_content_def)
  qed
  have "collect (\<lambda>e. ok_or ObjectNotFound (map_of (rev ?pairs) (entry_content e))) sel =
      Inr (map (\<lambda>e. b (fe_path e)) sel)"
    by (rule collect_total) (simp add: one)
  then show ?thesis
    by (simp add: repo_read_entry_objects_def loose io_def lift_err_def query_def andThen_def read check packerr_def
        liftr_def)
qed

lemma path_entry_unique:
  assumes "distinct es" "inj_on fe_path (set es)" "e \<in> set es" "from_native path = Inr (fe_path e)"
  shows "path_entry es path = Some e"
proof -
  have "distinct (map fst (rev (map (\<lambda>e. (fe_path e, e)) es)))"
    using assms(1,2) by (simp add: rev_map [symmetric] comp_def distinct_map)
  moreover have "(fe_path e, e) \<in> set (rev (map (\<lambda>e. (fe_path e, e)) es))" using assms(3) by auto
  ultimately show ?thesis using assms(4) by (simp add: path_entry_def map_of_is_SomeI)
qed

lemma entry_for_shown:
  assumes e: "entry_for E p n e" "storable n" and b: "length (node_bytes n) < 2 ^ 64"
    and obj: "object_stored fs (loose_object_path E r (e_sha1 E (node_bytes n))) (node_bytes n)"
  shows "read_loose_object E r fs e = Inr (e, node_bytes n)"
    and "check_object E (e, node_bytes n) = Inr (entry_content e, node_bytes n)"
proof -
  have empty: "node_bytes n = []" if "entry_size e = 0"
  proof -
    have "of_nat (length (node_bytes n)) = (0 :: u64)"
      using that e(1) by (simp add: entry_for_def entry_size_def loose_metadata_def)
    then have "2 ^ 64 dvd length (node_bytes n)" by (simp add: word_of_nat_eq_0_iff)
    with b have "length (node_bytes n) = 0" using nat_dvd_not_less [of "length (node_bytes n)" "2 ^ 64"] by auto
    then show ?thesis by simp
  qed
  show "read_loose_object E r fs e = Inr (e, node_bytes n)"
    using e(1) object_stored_read [OF obj] empty by (simp add: read_loose_object_def entry_for_def)
  show "check_object E (e, node_bytes n) = Inr (entry_content e, node_bytes n)"
    using e(1) by (simp add: check_object_def entry_for_def)
qed

lemma show_files_eq:
  assumes "load_index E r fs (sid_pack sid) = Inr idx" "tagged_entries idx (sid_tag sid) = Inr es"
    "select_entries es paths = Inr sel" "repo_read_entry_objects E r (sid_pack sid) sel fs = (Inr objects, fs)"
  shows "show_files E r sid paths fs = (Inr (concat objects), fs)"
  using assms by (simp add: show_files_def lib_def lift_err_def query_def andThen_def liftr_def ret_def)

lemma show_stored:
  assumes ready: "store_ready E r fs i nd files"
    and tag: "snapshot_tag_valid (e_cat E) tag" "snapshot_index_path r tag = ip_path i"
    and sid: "sid = \<lparr>sid_pack = Pack (loose_prefix @ tag), sid_tag = tag\<rparr>"
    and files: "distinct (map snd files)" "\<forall>b \<in> file_contents nd files. length b < 2 ^ 64"
  shows "\<exists>fs'. store_locked E r sid files False fs = Some (Inr (), fs') \<and>
    (\<forall>r' paths chosen. rp_data_dir r' = rp_data_dir r \<and> set chosen \<subseteq> set files \<and>
       map from_native paths = map (\<lambda>(fp, p). Inr p) chosen \<longrightarrow>
       show_files E r' sid paths fs' = (Inr (concat (map (\<lambda>(fp, p). node_bytes (nd fp)) chosen)), fs'))"
proof -
  note rd = store_readyD [OF ready]
  have st: "sid_tag sid = tag" "sid_pack sid = Pack (loose_prefix @ tag)" by (simp_all add: sid)
  obtain fs' es idx where s: "store_locked E r sid files False fs = Some (Inr (), fs')"
      "list_all2 (\<lambda>(fp, p) e. entry_for E p (nd fp) e) files es" "single_index tag es idx"
      "stored E r i sid idx fs fs'" "objects_stored E r (file_contents nd files) fs'"
    using store_locked_ok [OF ready, of sid] tag(2) st(1) by auto
  have paths: "\<forall>e \<in> set es. pack_path_ok (fe_path e)"
    using entries_of_files(1) [OF s(2)] rd(11) by (fastforce simp: sources_ok_def entry_for_def)
  obtain idx' where idx': "load_index E r fs' (sid_pack sid) = Inr idx'" "single_index tag es idx'"
    and loose: "is_pack_loose E r fs' (sid_pack sid)"
    using stored_index_loaded [OF ready s(4), of es] s(3) paths tag st by auto
  define b where "b = (\<lambda>p. node_bytes (nd (fst (the (find (\<lambda>x. snd x = p) files)))))"
  have bp: "b p = node_bytes (nd fp)" if "(fp, p) \<in> set files" for fp p
  proof -
    have "find (\<lambda>x. snd x = p) files \<noteq> None" using that by (auto simp: find_None_iff)
    then obtain x where x: "find (\<lambda>x. snd x = p) files = Some x" by blast
    then have "x \<in> set files" "snd x = p" by (auto simp: find_Some_iff)
    with files(1) that have "x = (fp, p)" by (auto dest: eq_key_imp_eq_value simp: distinct_map inj_on_def)
    with x show ?thesis by (simp add: b_def)
  qed
  have storable: "storable (nd fp) \<and> node_bytes (nd fp) \<in> file_contents nd files" if "(fp, p) \<in> set files" for fp p
    using that rd(11) by (fastforce simp: sources_ok_def source_ok_def file_contents_def)
  have entry: "read_loose_object E r fs' e = Inr (e, b (fe_path e)) \<and>
      check_object E (e, b (fe_path e)) = Inr (entry_content e, b (fe_path e)) \<and>
      fe_object e = loose_metadata (b (fe_path e)) \<and> fe_checksum e = e_sha1 E (b (fe_path e)) \<and>
      b (fe_path e) \<in> file_contents nd files" if e: "e \<in> set es" for e
  proof -
    obtain fp p where fp: "(fp, p) \<in> set files" "entry_for E p (nd fp) e" using entries_of_files(1) [OF s(2) e] by blast
    have "b (fe_path e) = node_bytes (nd fp)" using bp [OF fp(1)] fp(2) by (simp add: entry_for_def)
    moreover have "object_stored fs' (loose_object_path E r (e_sha1 E (node_bytes (nd fp)))) (node_bytes (nd fp))"
      using s(5) storable [OF fp(1)] by (simp add: objects_stored_def)
    ultimately show ?thesis
      using entry_for_shown [OF fp(2)] storable [OF fp(1)] files(2) fp(2) by (simp add: entry_for_def)
  qed
  have "\<forall>e \<in> set es. loose_metadata (inv_into (file_contents nd files) (e_sha1 E) (fe_checksum e)) = fe_object e"
    using entry rd(4) by (simp add: inv_into_f_f)
  from single_index_entries [OF idx'(2) this] obtain hs es' where r:
      "resolve_snapshot idx' tag = (Inr (Some hs) :: pack_error failure + _)"
      "entries_from_handles idx' hs = Inr es'" "distinct (map entry_content es')" "set es' = set es" by blast
  have tagged: "tagged_entries idx' tag = Inr es'"
    using r(1,2) by (simp add: tagged_entries_def unwrap_def snapshot_entries_def)
  have inj: "inj_on fe_path (set es')"
    using files(1) entries_of_files(3) [OF s(2)] r(4) by (metis distinct_map)
  have "show_files E r' sid paths fs' = (Inr (concat (map (\<lambda>(fp, p). node_bytes (nd fp)) chosen)), fs')"
    if q: "rp_data_dir r' = rp_data_dir r" "set chosen \<subseteq> set files" "map from_native paths = map (\<lambda>(fp, p). Inr p) chosen"
    for r' paths chosen
  proof -
    have "\<exists>sel. select_entries es' paths = Inr sel \<and> set sel \<subseteq> set es \<and> map fe_path sel = map snd chosen"
      using q(2,3)
    proof (induction chosen arbitrary: paths)
      case Nil
      then show ?case by (simp add: select_entries_def)
    next
      case (Cons x xs)
      obtain fp p where x: "x = (fp, p)" by fastforce
      obtain path rest where ps: "paths = path # rest" "from_native path = Inr p" "map from_native rest = map (\<lambda>(fp, p). Inr p) xs"
        using Cons.prems(2) x by (cases paths) auto
      obtain e where e: "e \<in> set es" "fe_path e = p"
        using entries_of_files(2) [OF s(2), of fp p] Cons.prems(1) x by (auto simp: entry_for_def)
      have "path_entry es' path = Some e"
        using path_entry_unique [OF _ inj, of e path] r(3,4) e ps(2) by (auto simp: distinct_map)
      moreover obtain sel where "select_entries es' rest = Inr sel" "set sel \<subseteq> set es" "map fe_path sel = map snd xs"
        using Cons.IH [OF _ ps(3)] Cons.prems(1) by auto
      ultimately show ?case using e x ps(1) by (simp add: select_entries_def)
    qed
    then obtain sel where sel: "select_entries es' paths = Inr sel" "set sel \<subseteq> set es" "map fe_path sel = map snd chosen" by blast
    have "map (\<lambda>e. b (fe_path e)) sel = map b (map snd chosen)" by (simp add: sel(3) [symmetric] comp_def)
    also have "\<dots> = map (\<lambda>(fp, p). node_bytes (nd fp)) chosen" using q(2) bp by auto
    finally have out: "map (\<lambda>e. b (fe_path e)) sel = map (\<lambda>(fp, p). node_bytes (nd fp)) chosen" .
    have "repo_read_entry_objects E r' (sid_pack sid) sel fs' = (Inr (map (\<lambda>e. b (fe_path e)) sel), fs')"
      using loose entry sel(2) loose_reads_same [OF q(1), of E] by (intro loose_entries_read) auto
    then have read: "repo_read_entry_objects E r' (sid_pack sid) sel fs' =
        (Inr (map (\<lambda>(fp, p). node_bytes (nd fp)) chosen), fs')" by (simp only: out)
    have "load_index E r' fs' (sid_pack sid) = Inr idx'" using idx'(1) loose_reads_same(1) [OF q(1), of E] by simp
    moreover have "tagged_entries idx' (sid_tag sid) = Inr es'" unfolding st(1) by (rule tagged)
    ultimately show ?thesis using sel(1) read by (rule show_files_eq)
  qed
  with s(1) show ?thesis by blast
qed

subsection \<open>The index that is packed\<close>

text \<open>
  The specification of the loop over the loose indexes: the snapshots of an index are appended up to
  the first one whose tag is there already.
\<close>

definition merged :: "(bytes \<times> content set) list \<Rightarrow> (bytes \<times> content set) list \<Rightarrow> (bytes \<times> content set) list" where
  "merged S xs = S @ takeWhile (\<lambda>x. fst x \<notin> fst ` set S) xs"

lemma foldl_merged:
  "distinct (map fst S @ concat (map (map fst) xss)) \<Longrightarrow> foldl merged S xss = S @ concat xss"
proof (induction xss arbitrary: S)
  case (Cons xs xss)
  have "takeWhile (\<lambda>x. fst x \<notin> fst ` set S) xs = xs" using Cons.prems by (auto simp: takeWhile_eq_all_conv)
  then have "merged S xs = S @ xs" by (simp only: merged_def)
  then show ?case using Cons.IH [of "S @ xs"] Cons.prems by simp
qed simp

definition total_files :: "pack_index \<Rightarrow> nat" where
  "total_files idx = sum_list (map (\<lambda>(t, C). card C) (snapshots_of idx))"

lemma push_snapshot_room:
  assumes "index_wf idx" "length es \<le> index_room idx" "push_snapshot idx tag es = Inr idx'"
  shows "index_room idx \<le> index_room idx' + length es"
proof -
  let ?i = "snd (intern_all entry_to_handle idx es)"
  have "path_pool idx' = path_pool ?i" "object_pool idx' = object_pool ?i"
    using assms(3) by (auto simp: push_snapshot_def Let_def case_prod_unfold result_simps split: if_splits)
  then have "index_room idx' = index_room ?i" by (simp add: index_room_def)
  with index.room_intern_all [of idx es] assms(1,2) show ?thesis by (simp add: index_wf_def)
qed

lemma push_entries_step:
  "push_snapshot idx t es = Inr idx' \<Longrightarrow> push_entries t es (Inr idx) = (None, Inr idx')"
  by (simp add: push_entries_def)

lemma snapshots_of_sets:
  "index_wf idx \<Longrightarrow> snapshots_of idx = map (\<lambda>(t, X). (t, entry_content ` X)) (entry_sets idx)"
  by (simp only: snapshots_of_entries entry_sets_def zip_map2)

lemma visit_push:
  assumes "index_wf idx" "index_synced idx" "sum_list (map (\<lambda>(t, es). length es) xs) \<le> index_room idx"
    and "distinct (map fst xs)"
  shows "\<exists>stopped idx'. visit push_entries xs (Inr idx) = (stopped, Inr idx') \<and> index_wf idx' \<and> index_synced idx' \<and>
    snapshots_of idx' = snapshots_of idx @
      takeWhile (\<lambda>x. fst x \<notin> set (snapshot_tags idx)) (map (\<lambda>(t, es). (t, entry_content ` set es)) xs) \<and>
    index_room idx \<le> index_room idx' + sum_list (map (\<lambda>(t, es). length es) xs)"
  using assms
proof (induction xs arbitrary: idx)
  case Nil
  then show ?case by simp
next
  case (Cons x xs)
  obtain t es where x: "x = (t, es)" by fastforce
  have room: "length es \<le> index_room idx" using Cons.prems(3) x by simp
  show ?case
  proof (cases "t \<in> set (snapshot_tags idx)")
    case True
    then have "push_snapshot idx t es = Inl (Fail (SnapshotAlreadyExists ''<unknown>'' t))"
      by (simp add: push_snapshot_def)
    with True x Cons.prems show ?thesis
      by (intro exI [of _ "Some ()"] exI [of _ idx]) (simp add: push_entries_def)
  next
    case False
    obtain idx1 where p: "push_snapshot idx t es = Inr idx1" "index_wf idx1" "index_synced idx1"
        "snapshots_of idx1 = snapshots_of idx @ [(t, entry_content ` set es)]"
      using push_snapshot_correct [OF Cons.prems(1,2) room False] by blast
    note r = push_snapshot_room [OF Cons.prems(1) room p(1)]
    have tags: "snapshot_tags idx1 = snapshot_tags idx @ [t]"
      using p(4) fst_snapshots_of [OF p(2)] fst_snapshots_of [OF Cons.prems(1)] by simp
    obtain stopped idx' where i: "visit push_entries xs (Inr idx1) = (stopped, Inr idx')" "index_wf idx'" "index_synced idx'"
        "snapshots_of idx' = snapshots_of idx1 @
          takeWhile (\<lambda>x. fst x \<notin> set (snapshot_tags idx1)) (map (\<lambda>(t, es). (t, entry_content ` set es)) xs)"
        "index_room idx1 \<le> index_room idx' + sum_list (map (\<lambda>(t, es). length es) xs)"
      using Cons.IH [OF p(2,3)] r Cons.prems(3,4) x by auto
    have "takeWhile (\<lambda>x. fst x \<notin> set (snapshot_tags idx1)) (map (\<lambda>(t, es). (t, entry_content ` set es)) xs) =
        takeWhile (\<lambda>x. fst x \<notin> set (snapshot_tags idx)) (map (\<lambda>(t, es). (t, entry_content ` set es)) xs)"
      using Cons.prems(4) x by (intro takeWhile_cong) (auto simp: tags image_iff)
    with i p(4) r x False push_entries_step [OF p(1)] show ?thesis
      by (intro exI [of _ stopped] exI [of _ idx']) simp
  qed
qed

lemma merge_index_ok:
  assumes new: "index_wf new" "index_synced new" and wf: "index_wf idx" and room: "total_files idx \<le> index_room new"
  shows "\<exists>new'. merge_index new idx = Inr new' \<and> index_wf new' \<and> index_synced new' \<and>
    snapshots_of new' = merged (snapshots_of new) (snapshots_of idx) \<and>
    index_room new \<le> index_room new' + total_files idx"
proof -
  obtain ess where ess: "entry_sets idx = zip (snapshot_tags idx) (map set ess)" "\<forall>es \<in> set ess. distinct es"
      "\<forall>(f :: _ \<Rightarrow> _ \<Rightarrow> error failure + pack_index \<Rightarrow> unit option \<times> (error failure + pack_index)) st.
        for_each_snapshot idx f st = Inr (visit f (zip (snapshot_tags idx) ess) st)"
    using for_each_snapshot_lists [OF wf] by blast
  let ?xs = "zip (snapshot_tags idx) ess"
  have sets: "map (\<lambda>(t, es). (t, set es)) ?xs = entry_sets idx" by (simp add: ess(1) zip_map2)
  have snaps: "map (\<lambda>(t, es). (t, entry_content ` set es)) ?xs = snapshots_of idx"
    unfolding snapshots_of_sets [OF wf] sets [symmetric] by (simp add: comp_def case_prod_unfold)
  have "length es = card (entry_content ` set es)" if "(t, es) \<in> set ?xs" for t es
  proof -
    have "(t, set es) \<in> set (entry_sets idx)" using that by (force simp: sets [symmetric])
    moreover have "distinct es" using that ess(2) by (auto dest: set_zip_rightD)
    ultimately show ?thesis using entry_set_card [OF wf] by (metis distinct_card)
  qed
  then have "map (\<lambda>(t, es). length es) ?xs = map (\<lambda>(t, es). card (entry_content ` set es)) ?xs" by auto
  also have "\<dots> = map (\<lambda>(t, C). card C) (snapshots_of idx)"
    unfolding snaps [symmetric] by (simp add: comp_def case_prod_unfold)
  finally have total: "sum_list (map (\<lambda>(t, es). length es) ?xs) = total_files idx" by (simp only: total_files_def)
  have "map fst ?xs = map fst (entry_sets idx)" unfolding sets [symmetric] by (simp add: comp_def case_prod_unfold)
  also have "\<dots> = snapshot_tags idx" using wf by (simp add: entry_sets_def index_wf_def)
  finally have "distinct (map fst ?xs)" using wf by (simp only: index_wf_def)
  from visit_push [OF new _ this] room total obtain stopped new' where
      "visit push_entries ?xs (Inr new) = (stopped, Inr new')" "index_wf new'" "index_synced new'"
      "snapshots_of new' = snapshots_of new @ takeWhile (\<lambda>x. fst x \<notin> set (snapshot_tags new)) (snapshots_of idx)"
      "index_room new \<le> index_room new' + total_files idx"
    by (auto simp: snaps)
  moreover have "fst ` set (snapshots_of new) = set (snapshot_tags new)"
    using fst_snapshots_of [OF new(1)] by (metis set_map)
  ultimately show ?thesis using ess(3) by (simp add: merge_index_def merged_def)
qed

lemma merge_loose_ok:
  assumes "index_wf new" "index_synced new"
    and "\<forall>p \<in> set ps. is_pack_loose E r fs p \<and> load_index E r fs p = Inr (ix p) \<and> index_wf (ix p)"
    and "sum_list (map (\<lambda>p. total_files (ix p)) ps) \<le> index_room new"
  shows "\<exists>new'. merge_loose E r fs new ps = Inr new' \<and> index_wf new' \<and> index_synced new' \<and>
    snapshots_of new' = foldl merged (snapshots_of new) (map (\<lambda>p. snapshots_of (ix p)) ps)"
  using assms
proof (induction ps arbitrary: new)
  case Nil
  then show ?case by simp
next
  case (Cons p ps)
  have p: "is_pack_loose E r fs p" "load_index E r fs p = Inr (ix p)" "index_wf (ix p)" using Cons.prems(3) by auto
  obtain new' where n: "merge_index new (ix p) = Inr new'" "index_wf new'" "index_synced new'"
      "snapshots_of new' = merged (snapshots_of new) (snapshots_of (ix p))"
      "index_room new \<le> index_room new' + total_files (ix p)"
    using merge_index_ok [OF Cons.prems(1,2) p(3)] Cons.prems(4) by auto
  have "sum_list (map (\<lambda>p. total_files (ix p)) ps) \<le> index_room new'" using n(5) Cons.prems(4) by simp
  from Cons.IH [OF n(2,3) _ this] Cons.prems(3) n(1,4) p(1,2) show ?case by auto
qed

subsection \<open>Packing and HEAD\<close>

definition moved :: "pack_id \<Rightarrow> pack_id list \<Rightarrow> snapshot_id \<Rightarrow> snapshot_id" where
  "moved pack ps h = (if sid_pack h \<in> set ps then h\<lparr>sid_pack := pack\<rparr> else h)"

definition head_at :: "env \<Rightarrow> repository \<Rightarrow> fs \<Rightarrow> snapshot_id \<Rightarrow> bool" where
  "head_at E r fs h \<longleftrightarrow> sid_ok E h \<and> cat_ok E \<and> no_parent_refs (rp_data_dir r) \<and>
     (\<exists>m. fs_get fs (head_path r) = Some (FileNode (snapshot_id_display h @ [CHR 0x0A]) m) \<and> and m owner_read \<noteq> 0)"

lemma read_head_at: "head_at E r fs h \<Longrightarrow> fs_wf fs \<Longrightarrow> \<exists>t. read_head E r fs = Inr (Some h, t)"
proof -
  assume h: "head_at E r fs h" and wf: "fs_wf fs"
  have "object_stored fs (head_path r) (snapshot_id_display h @ [CHR 0x0A])"
    using h by (auto intro!: file_stored [OF wf] simp: head_at_def head_path_def head_file_def no_parent_refs_snoc)
  then have "fs_read fs (head_path r) = Inr (snapshot_id_display h @ [CHR 0x0A])" by (rule object_stored_read)
  with h show ?thesis using parse_head_display [of E h] by (simp add: read_head_def head_at_def)
qed

lemma move_head_ok:
  assumes h: "head_at E r fs h" and dd: "data_dir_ok E r fs" and tmp: "tmp_ok E r fs (head_path r)" and lock: "rp_lock r \<noteq> None"
    and pack: "is_utf8 (pack_name pack)" "validate_pack_id (e_cat E) pack = Inr ()"
  shows "\<exists>fs' t. move_head E r pack ps fs = (Inr (), fs') \<and> read_head E r fs' = Inr (Some (moved pack ps h), t) \<and>
    (\<forall>q. q \<noteq> head_path r \<and> q \<noteq> temp_dir r \<longrightarrow> fs_get fs' q = fs_get fs q)"
proof -
  have wf: "fs_wf fs" using dd by (simp add: data_dir_ok_def)
  obtain t where t: "read_head E r fs = Inr (Some h, t)" using read_head_at [OF h wf] by blast
  show ?thesis
  proof (cases "sid_pack h \<in> set ps")
    case False
    with t show ?thesis
      by (intro exI [of _ fs] exI [of _ t]) (simp add: move_head_def query_def andThen_def ret_def moved_def)
  next
    case True
    let ?h = "h\<lparr>sid_pack := pack\<rparr>"
    have tag: "snapshot_tag_valid (e_cat E) (sid_tag h)" using h by (simp add: head_at_def sid_ok_def)
    then have "snapshot_id_new (e_cat E) pack (sid_tag h) = Inr ?h" by (simp add: snapshot_id_new_def)
    then have "move_head E r pack ps fs = update_head E r ?h fs"
      using t True by (simp add: move_head_def query_def andThen_def liftr_def)
    moreover have "sid_ok E ?h" using h pack by (simp add: head_at_def sid_ok_def)
    moreover have "fs_get fs (head_path r) \<noteq> Some DirNode" "cat_ok E" using h by (auto simp: head_at_def)
    ultimately show ?thesis using head_round_trip [OF dd tmp _ lock] True by (simp add: moved_def)
  qed
qed

lemma pack_then_head:
  assumes ready: "pack_ready E r fs name idx opts data"
    and h: "head_at E r fs h" and tmp: "tmp_ok E r fs (head_path r)" and lock: "rp_lock r \<noteq> None"
  shows "\<exists>fs1 fs2 idx' t. create_pack E r (Pack name) idx opts fs = Some (Inr (), fs1) \<and>
    move_head E r (Pack name) ps fs1 = (Inr (), fs2) \<and>
    load_index E r fs2 (Pack name) = Inr idx' \<and> snapshots_of idx' = snapshots_of idx \<and>
    read_head E r fs2 = Inr (Some (moved (Pack name) ps h), t)"
proof -
  note rd = pack_readyD [OF ready]
  note n = regular_name [OF rd(1-3)]
  obtain idx' hs where lay: "compute_object_offsets_and_ordering idx = (idx', hs)" by fastforce
  obtain pack_data fs1 where c: "create_pack E r (Pack name) idx opts fs = Some (Inr (), fs1)"
      "pack_files E r name pack_data (write_index (e_codec E) idx') fs fs1"
    using create_pack_ok [OF ready lay] by blast
  let ?ip = "packs_root r @ [name @ ''.pack.idx'']"
  have wf: "fs_wf fs1" and get: "fs_get fs1 q = (if q = ?ip then Some (FileNode (write_index (e_codec E) idx') created_mode)
         else if q = packs_root r @ [name @ ''.pack''] then Some (FileNode pack_data created_mode)
         else if prefix q (packs_root r) then Some DirNode else fs_get fs q)" for q
    using c(2) by (auto simp: pack_files_def)
  have apart: "\<not> prefix (head_path r) ?ip" "\<not> prefix (temp_dir r) ?ip" "head_path r \<noteq> packs_root r @ [x]"
    "temp_dir r \<noteq> packs_root r @ [x]" "temp_dir r @ [y] \<noteq> packs_root r @ [x]" "\<not> prefix (temp_dir r @ [y]) (packs_root r)" for x y
    by (auto simp: head_path_def head_file_def temp_dir_def temp_name_def packs_root_def packs_name_def)
  have below: "\<not> prefix (head_path r) (packs_root r)" "\<not> prefix (temp_dir r) (packs_root r)"
    using apart(1,2) by (auto dest: prefix_order.trans)
  have "head_at E r fs1 h" using h apart below by (simp add: head_at_def get)
  moreover have "data_dir_ok E r fs1"
  proof -
    have "prefix q (packs_root r)" if "prefix q (rp_data_dir r)" for q
      using that by (simp add: packs_root_def prefix_prefix)
    then have "dirs_to fs1 (rp_data_dir r)"
      using dirs_to_get [OF wf] by (simp add: get packs_root_def)
    moreover have "fs_get fs (temp_dir r) = Some DirNode" using rd(11) by (simp add: dirs_to_def)
    ultimately show ?thesis using wf rd(10) apart below by (simp add: data_dir_ok_def get)
  qed
  moreover have "tmp_ok E r fs1 (head_path r)" using tmp apart by (simp add: tmp_ok_def get)
  ultimately obtain fs2 t where m: "move_head E r (Pack name) ps fs1 = (Inr (), fs2)"
      "read_head E r fs2 = Inr (Some (moved (Pack name) ps h), t)"
      "\<forall>q. q \<noteq> head_path r \<and> q \<noteq> temp_dir r \<longrightarrow> fs_get fs2 q = fs_get fs1 q"
    using move_head_ok [of E r fs1 h "Pack name" ps] lock rd(1,2) by (auto simp: is_valid_regular_def)
  have "no_parent_refs (packs_root r)" using rd(10) by (simp add: packs_root_def no_parent_refs_snoc packs_name_def)
  then have np: "no_parent_refs ?ip" using no_dot_head [OF n(4,1)] by (simp add: no_parent_refs_snoc)
  have "object_stored fs1 ?ip (write_index (e_codec E) idx')"
    using np pack_file_readable by (intro file_stored [OF wf]) (simp_all add: get)
  then have "object_stored fs2 ?ip (write_index (e_codec E) idx')"
  proof (rule object_stored_frame)
    fix q assume "prefix q ?ip"
    then have "q \<noteq> head_path r" "q \<noteq> temp_dir r" using apart(1,2) by blast+
    then show "fs_get fs2 q = fs_get fs1 q" using m(3) by blast
  qed
  then have "load_index E r fs2 (Pack name) = Inr (idx'\<lparr>current := []\<rparr>)"
    by (intro packed_index_loads [OF ready lay] object_stored_read)
  moreover have "snapshots_of (idx'\<lparr>current := []\<rparr>) = snapshots_of idx" using layout_index [OF rd(14) lay] by blast
  ultimately show ?thesis using c(1) m(1,2) by blast
qed

end
