(* ===== verification/CommandSample.thy ===== *)
theory CommandSample
  imports CommandFacts PackProps StoreProps
begin

text \<open>
  A repository for the instances of the theorems on commands: one loose snapshot \<^verbatim>\<open>t\<close> of one file
  \<^verbatim>\<open>f\<close>, its object, and HEAD at the snapshot.
\<close>

definition sample_process :: process where
  "sample_process = \<lparr>ps_cwd = [''w''], ps_cpus = 2, ps_physical = 4, ps_stdin = Inr [], ps_levels = (-7, 22),
     ps_random = ''r''\<rparr>"

definition ones_bytes :: bytes where
  "ones_bytes = write_index unary_sample ones_index"

definition loose_t :: pack_id where
  "loose_t = Pack ''loose/t''"

definition head_t :: snapshot_id where
  "head_t = \<lparr>sid_pack = loose_t, sid_tag = ''t''\<rparr>"

definition cli_fs :: fs where
  "cli_fs = [([''w''], DirNode), ([''d''], DirNode), ([''d'', ''mutex''], FileNode [] 420),
     ([''d'', ''HEAD''], FileNode (snapshot_id_display head_t @ [CHR 0x0A]) 420),
     ([''d'', ''packs''], DirNode), ([''d'', ''packs'', ''loose''], DirNode),
     ([''d'', ''packs'', ''loose'', ''t.pack.idx''], FileNode ones_bytes 420),
     ([''d'', ''trash''], DirNode), ([''d'', ''loose''], DirNode), ([''d'', ''loose'', ''11''], DirNode),
     ([''d'', ''loose'', ''11'', ''11''], DirNode),
     ([''d'', ''loose'', ''11'', ''11'', replicate 36 (CHR ''1'')], FileNode ''xy'' 420)]"

lemma cli_fs_wf: "fs_wf cli_fs"
  by (simp add: fs_wf_def cli_fs_def fs_get_def)

lemma cli_modes: "and (420 :: u32) owner_read \<noteq> 0" "and (420 :: u32) owner_write \<noteq> 0"
  by code_simp+

lemma cli_opened: "open_repo_from_cwd sample_process pack_env ''/d'' cli_fs = (Inr store_repo, cli_fs)"
proof -
  have p: "path_push [''w''] ''/d'' = [''d'']" by code_simp
  have "resolve_target cli_fs [''d''] = Inr [''d'']" "metadata cli_fs [''d''] = Inr DirNode"
    "resolve_target cli_fs [''d'', ''mutex''] = Inr [''d'', ''mutex'']"
    "metadata cli_fs [''d'', ''mutex''] = Inr (FileNode [] 420)"
    by (simp_all add: metadata_def resolve_target_def max_links_def cli_fs_def fs_get_def)
  then show ?thesis
    using cli_modes
    by (simp add: open_repo_from_cwd_def sample_process_def p open_with_data_dir_def path_exists_def canonicalize_def
        open_rw_def open_for_write_def andThen_def query_def ret_def fs_read_def cli_fs_def fs_get_def pack_env_def
        plain_env_def store_repo_def)
qed

lemma cli_index:
  "parse unary_sample ones_bytes = Inr ones_index" "load_only_snapshots unary_sample ones_bytes = Inr [''t'']"
proof -
  have "\<forall>p \<in> set (pool_entries (path_pool ones_index)). pack_path_ok p"
    using pool_deserialize_wf(2) [of "[PackPath ''f'']"]
    by (simp add: ones_index_def ones_pools pack_path_ok_def components_def component_ok_def)
  from parse_write_index [OF unary_sample_ok _ this] ones_index_wf [of "current ones_index"]
  show "parse unary_sample ones_bytes = Inr ones_index"
    by (simp add: ones_bytes_def ones_index_def index_new_def)
  show "load_only_snapshots unary_sample ones_bytes = Inr [''t'']"
    using load_only_snapshots_prefix [OF unary_sample_ok, of 7]
    by (simp add: ones_bytes_def write_index_def v3_serialize_def ones_index_def)
qed

lemma cli_paths [simp]:
  "packs_root store_repo = [''d'', ''packs'']" "temp_dir store_repo = [''d'', ''trash'']"
  "head_path store_repo = [''d'', ''HEAD'']"
  "get_pack_index_path store_repo loose_t = [''d'', ''packs'', ''loose'', ''t.pack.idx'']"
  by (simp_all add: get_pack_index_path_def append_path_suffix_def path_push_def link_start_def loose_t_def
      target_components_def packs_root_def packs_name_def dot_pack_index_extension_def temp_dir_def temp_name_def
      head_path_def head_file_def)

lemma cli_reads:
  "fs_read cli_fs [''d'', ''packs'', ''loose'', ''t.pack.idx''] = Inr ones_bytes"
  "path_exists cli_fs [''d'', ''packs'', ''loose'', ''t.pack.idx'']"
  using cli_modes
  by (simp_all add: fs_read_def metadata_def resolve_target_def max_links_def cli_fs_def fs_get_def path_exists_def)

lemma cli_valid [simp]:
  "validate_pack_id plain_cat loose_t = Inr ()" "for_loose_snapshot plain_cat ''t'' = Inr loose_t"
  by code_simp+

lemma cli_loads [simp]:
  "load_index pack_env store_repo cli_fs loose_t = Inr ones_index"
  "load_index_snapshots pack_env store_repo cli_fs loose_t = Inr [''t'']"
  "is_pack_loose pack_env store_repo cli_fs loose_t"
  by (simp_all add: load_index_def load_index_file_def load_index_snapshots_def load_tags_file_def is_pack_loose_def
      loose_prefix_def cli_reads cli_index del: validate_pack_id.simps)
    (simp add: loose_t_def)

lemma cli_utf8 [simp]: "is_utf8 ''t.pack.idx''" "is_utf8 ''loose/t''" "is_utf8 ''t''"
  by (rule ascii_string(1); simp add: byte_val_def)+

lemma cli_packs: "packs pack_env store_repo cli_fs = (Inr [loose_t], cli_fs)"
proof -
  have made: "create_dir_all [''d'', ''packs''] cli_fs = (Inr (), cli_fs)"
  proof (rule create_dir_all_exists)
    show "dirs_to cli_fs [''d'', ''packs'']"
      using dirs_to_get [OF cli_fs_wf] by (simp add: cli_fs_def fs_get_def)
  qed (simp add: no_parent_refs_def)
  have walk: "plain_walk cli_fs [''d'', ''packs''] =
      [Inr ([''d'', ''packs''], False), Inr ([''d'', ''packs'', ''loose''], False),
       Inr ([''d'', ''packs'', ''loose'', ''t.pack.idx''], True)]"
    by (simp add: plain_walk_def cli_fs_def fs_get_def)
  have names: "strip_suffix dot_pack_index_extension ''loose/t.pack.idx'' = Some ''loose/t''"
    by (simp add: strip_suffix_def dot_pack_index_extension_def)
  have loose: "strip_prefix loose_prefix ''loose/t'' = Some ''t''" by (simp add: loose_prefix_def)
  have tags: "load_tags_file pack_env cli_fs [''d'', ''packs'', ''loose'', ''t.pack.idx''] = Inr [''t'']"
    by (simp add: load_tags_file_def cli_reads cli_index)
  have "discover_packs pack_env cli_fs [''d'', ''packs''] (plain_walk cli_fs [''d'', ''packs'']) = Inr [loose_t]"
    using cli_valid by (simp add: walk discover_pack_def logical_pack_id_path_def from_index_path_def names loose tags loose_t_def)
  moreover have "e_walk pack_env = plain_walk" by (simp add: pack_env_def)
  ultimately show ?thesis
    by (simp add: packs_def io_def lift_err_def andThen_def made query_def ret_def)
qed

lemma cli_loose: "loose_packs pack_env store_repo cli_fs = (Inr [loose_t], cli_fs)"
  by (simp add: loose_packs_def andThen_def cli_packs ret_def)

definition ones_handle :: file_handle where
  "ones_handle = \<lparr>fh_path = 0, fh_object = 0, fh_metadata = Regular 420\<rparr>"

definition ones_entry :: file_entry where
  "ones_entry = \<lparr>fe_path = PackPath ''f'', fe_checksum = ones, fe_object = \<lparr>om_offset = 0, om_size = 2\<rparr>, fe_metadata = Regular 420\<rparr>"

lemma ones_deltas: "snapshot_deltas ones_index = [\<lparr>cs_added = [ones_handle], cs_removed = []\<rparr>]"
  "snapshot_tags ones_index = [''t'']" "object_table ones_index = [(0, \<lparr>om_offset = 0, om_size = 2\<rparr>)]"
  by (simp_all add: ones_index_def ones_handle_def)

lemma ones_to_entry: "handle_to_entry ones_index ones_handle = Inr ones_entry"
  using ones_lookup by (simp add: handle_to_entry_def ones_handle_def ones_deltas ones_entry_def)

lemma ones_content: "handle_content ones_index ones_handle = Some (PackPath ''f'', ones, Regular 420)"
  using ones_lookup by (simp add: handle_content_def ones_handle_def)

lemma ones_wf: "index_wf ones_index"
  using ones_index_wf [of "current ones_index"]
  by (simp add: index_wf_def ones_deltas delta_ok_def delta_apply_def handles_valid_def ones_content)

lemma ones_sets:
  "entry_sets ones_index = [(''t'', {ones_entry})]" "snapshots_of ones_index = [(''t'', {entry_content ones_entry})]"
  by (simp_all add: snapshots_of_sets [OF ones_wf] entry_sets_def ones_deltas delta_apply_def entry_of_def ones_to_entry)

lemma ones_tagged: "tagged_entries ones_index ''t'' = Inr [ones_entry]"
  by (simp add: tagged_entries_def resolve_snapshot_def ones_deltas apply_changes_def unwrap_def snapshot_entries_def
      entries_from_handles_def ones_to_entry)

lemma ones_merged:
  "merge_loose pack_env store_repo cli_fs index_new [loose_t] = Inr (ones_index\<lparr>current := [ones_handle]\<rparr>)"
proof -
  have "for_each_snapshot ones_index push_entries (Inr index_new) =
      Inr (push_entries ''t'' [ones_entry] (Inr index_new))"
    by (simp add: for_each_snapshot_def ones_deltas change_set_map_def entry_refs_from_handles_def handle_to_entry_ref_eq
        ones_to_entry apply_changes_def split: prod.split option.split)
  moreover have "push_snapshot index_new ''t'' [ones_entry] = Inr (ones_index\<lparr>current := [ones_handle]\<rparr>)"
    by (simp add: push_snapshot_def index_new_def entry_to_handle_def get_or_insert_def pool_new_def pool_get_def
        get_changes_def ones_entry_def ones_handle_def ones_index_def pool_from_iter_def Let_def)
  ultimately show ?thesis by (simp add: merge_index_def push_entries_def)
qed

end
