(* ===== verification/CommandProps.thy ===== *)
theory CommandProps
  imports CommandSample
begin

text \<open>
  Properties of the commands: what \<^verbatim>\<open>list\<close>, \<^verbatim>\<open>list-files\<close> and \<^verbatim>\<open>show\<close> print and what \<^verbatim>\<open>pack\<close> makes of
  the loose snapshots, with their instances on a small repository.
\<close>

text \<open>C4: \<^verbatim>\<open>show\<close> prints what \<^verbatim>\<open>store\<close> was given: after a snapshot is created, the contents of any of its
  files, named in any order and any number of times, are written one after the other (a link by its
  stored target), whichever process reads the data directory; reading changes nothing.\<close>

theorem store_then_show:
  assumes "logical_files r fs names = Inr files" "lock_exclusive E r = (Inr (), r')"
    and "store_ready E r' fs i nd files" "snapshot_tag_valid (e_cat E) tag" "snapshot_index_path r' tag = ip_path i"
    and "sid = \<lparr>sid_pack = Pack (loose_prefix @ tag), sid_tag = tag\<rparr>"
    and "distinct (map snd files)" "\<forall>b \<in> file_contents nd files. length b < 2 ^ 64"
  shows "\<exists>fs'. create_snapshot E r sid names fs = Some (Inr (), r', fs') \<and>
    (\<forall>reader paths chosen. rp_data_dir reader = rp_data_dir r' \<and> set chosen \<subseteq> set files \<and>
       map from_native paths = map (\<lambda>(fp, p). Inr p) chosen \<longrightarrow>
       show_files E reader sid paths fs' = (Inr (concat (map (\<lambda>(fp, p). node_bytes (nd fp)) chosen)), fs'))"
proof -
  have "create_snapshot E r sid names fs = map_option (\<lambda>(x, fs). (x, r', fs)) (store_locked E r' sid files False fs)"
    using assms(1,2) by (simp add: create_snapshot_def create_snapshot_impl_def)
  with show_stored [OF assms(3-8)] show ?thesis by auto
qed

theorem store_then_show_witness:
  "\<exists>fs'. create_snapshot plain_env store_repo \<lparr>sid_pack = Pack ''loose/s'', sid_tag = ''s''\<rparr> [''f'', ''l''] store_fs =
      Some (Inr (), locked_repo, fs') \<and>
    show_files plain_env store_repo \<lparr>sid_pack = Pack ''loose/s'', sid_tag = ''s''\<rparr> [''f'', ''l'', ''f''] fs' = (Inr ''xfx'', fs')"
proof -
  have tag: "snapshot_tag_valid (e_cat plain_env) ''s''" "snapshot_index_path locked_repo ''s'' = ip_path store_place"
    by (simp_all add: snapshot_index_path_def append_path_suffix_def path_push_def target_components_def link_start_def
        loose_name_def dot_pack_index_extension_def)
  have sid: "\<lparr>sid_pack = Pack ''loose/s'', sid_tag = ''s''\<rparr> = \<lparr>sid_pack = Pack (loose_prefix @ ''s''), sid_tag = ''s''\<rparr>"
    by (simp add: loose_prefix_def)
  have d: "distinct (map snd store_names)" "\<forall>b \<in> file_contents store_node store_names. length b < 2 ^ 64"
    by (simp add: store_names_def) (simp add: store_contents)
  have paths: "from_native ''f'' = Inr (PackPath ''f'')" "from_native ''l'' = Inr (PackPath ''l'')"
    using pack_path_new_ok [OF store_path_ok(1)] pack_path_new_ok [OF store_path_ok(2)]
    by (simp_all add: from_native_def unix_components_def part_component_def map_filter_simps from_native_components_def
        append_native_component_def native_component_def)
  let ?f = "([''f''], PackPath ''f'')" and ?l = "([''l''], PackPath ''l'')"
  have out: "concat (map (\<lambda>(fp, p). node_bytes (store_node fp)) [?f, ?l, ?f]) = ''xfx''"
    by (simp add: store_node_def store_link_bytes)
  obtain fs' where fs': "create_snapshot plain_env store_repo \<lparr>sid_pack = Pack ''loose/s'', sid_tag = ''s''\<rparr> [''f'', ''l''] store_fs =
      Some (Inr (), locked_repo, fs')"
      "\<forall>reader paths chosen. rp_data_dir reader = rp_data_dir locked_repo \<and> set chosen \<subseteq> set store_names \<and>
       map from_native paths = map (\<lambda>(fp, p). Inr p) chosen \<longrightarrow>
       show_files plain_env reader \<lparr>sid_pack = Pack ''loose/s'', sid_tag = ''s''\<rparr> paths fs' =
         (Inr (concat (map (\<lambda>(fp, p). node_bytes (store_node fp)) chosen)), fs')"
    using store_then_show [OF store_sample_files store_sample_lock store_sample_ready tag sid d] by blast
  have "show_files plain_env store_repo \<lparr>sid_pack = Pack ''loose/s'', sid_tag = ''s''\<rparr> [''f'', ''l'', ''f''] fs' = (Inr ''xfx'', fs')"
    using fs'(2) [rule_format, of store_repo "[?f, ?l, ?f]" "[''f'', ''l'', ''f'']"] out paths
    by (simp add: store_names_def)
  with fs'(1) show ?thesis by blast
qed

text \<open>C8: Without pack names, in a repository whose indexes can be read and are well formed, \<^verbatim>\<open>list\<close> prints,
  sorted, one line for every snapshot of every pack: the format with its placeholders replaced, all at
  once, by the pack, the tag, the size and the number of files.  This is for packs and tags without a
  percent sign (\<^verbatim>\<open>row_rewrites_tag\<close> shows that a placeholder in a tag is replaced too) and for sizes
  below 1 PiB (\<^verbatim>\<open>format_size\<close> panics above).  Counting along the deltas when the format has no size gives the
  same lines as reading the entries, and spreading the packs over threads does not change the output.\<close>

theorem list_command:
  assumes "open_repo_from_cwd P E data_dir fs = (Inr r, fs1)" "packs E r fs1 = (Inr ids, fs2)"
    and "parse_format fmt = Some ts" "0 < ps_cpus P"
    and "\<forall>p \<in> set ids. CHR ''%'' \<notin> set (pack_id_display p) \<and> load_index E r fs2 p = Inr (ix p) \<and> listable fmt (ix p)"
  shows "list_run P E data_dir None fmt fs =
    (Inr (lines_text (sort (concat (map (\<lambda>p. map (snapshot_line ts p) (entry_sets (ix p))) ids)))), fs2)"
  using assms(1,2) print_snapshots_eq [OF assms(3-5)]
  by (simp add: list_run_def lib_def lift_err_def andThen_def liftr_def query_def)

lemma cli_format: "parse_format ''%s %n'' = Some [Slot CHR ''s'', Lit CHR '' '', Slot CHR ''n'']"
  by code_simp

theorem list_command_witness:
  "list_run sample_process pack_env ''/d'' None ''%s %n'' cli_fs = (Inr (''loose/t:t 1'' @ [CHR 0x0A]), cli_fs)"
proof -
  have sized: "\<not> is_file_size_required ''%s %n''" by code_simp
  have ok: "\<forall>p \<in> set [loose_t]. CHR ''%'' \<notin> set (pack_id_display p) \<and>
      load_index pack_env store_repo cli_fs p = Inr ones_index \<and> listable ''%s %n'' ones_index"
    by (simp add: listable_def ones_wf ones_sets sized) (simp add: loose_t_def)
  have cpus: "0 < ps_cpus sample_process" by (simp add: sample_process_def)
  from list_command [OF cli_opened cli_packs cli_format cpus, where ix = "\<lambda>p. ones_index", OF ok]
  show ?thesis
    by (simp add: ones_sets snapshot_line_def snapshot_slots_def loose_t_def lines_text_def show_nat.simps digit_bytes)
qed

definition file_line :: "hex_crate \<Rightarrow> token list \<Rightarrow> file_entry \<Rightarrow> bytes" where
  "file_line H ts e = (let n = om_size (fe_object e) in
     render (map_of (file_slots H (fe_checksum e) (fe_path e) (size_text n) n (fe_metadata e))) ts)"

lemma file_rows_eq:
  assumes "parse_format fmt = Some ts" "hex_ok (e_hex E)" "\<forall>e \<in> set es. unat (om_size (fe_object e)) < 2 ^ 50"
  shows "file_rows E fmt es = Inr (map (file_line (e_hex E) ts) es)"
  unfolding file_rows_def
  using format_file_row_render [OF assms(1,2) format_size_text, where 'e = error] assms(3)
  by (intro collect_total) (simp add: file_line_def Let_def)

text \<open>C9: \<^verbatim>\<open>list-files\<close> prints, sorted, one line for every entry of the snapshot: the format with its
  placeholders replaced, all at once, by checksum, path, size, permissions and kind.  This holds for
  every path: an escaped path never contains a placeholder that a later substitution would replace.\<close>

theorem list_files_command:
  assumes "open_repo_from_cwd P E data_dir fs = (Inr r, fs1)" "find_snapshot E r snapshot fs1 = (Inr sid, fs2)"
    and "load_index E r fs2 (sid_pack sid) = Inr idx" "tagged_entries idx (sid_tag sid) = Inr es"
    and "parse_format fmt = Some ts" "hex_ok (e_hex E)" "\<forall>e \<in> set es. unat (om_size (fe_object e)) < 2 ^ 50"
  shows "list_files_run P E data_dir snapshot fmt fs =
    (Inr (lines_text (sort (map (file_line (e_hex E) ts) es))), fs2)"
  using assms(1-4) file_rows_eq [OF assms(5-7)]
  by (simp add: list_files_run_def print_files_def lib_def lift_err_def andThen_def query_def)

theorem list_files_command_witness:
  "list_files_run sample_process pack_env ''/d'' ''loose/t:t'' ''%k %p %f %b'' cli_fs =
     (Inr (''file 644 f 2'' @ [CHR 0x0A]), cli_fs)"
proof -
  have id: "snapshot_id_from_str plain_cat ''loose/t:t'' = Inr head_t" by code_simp
  have found: "find_snapshot pack_env store_repo ''loose/t:t'' cli_fs = (Inr head_t, cli_fs)"
    by (simp add: find_snapshot_def id ret_def)
  have load: "load_index pack_env store_repo cli_fs (sid_pack head_t) = Inr ones_index"
    "tagged_entries ones_index (sid_tag head_t) = Inr [ones_entry]"
    by (simp_all add: head_t_def ones_tagged)
  have fmt: "parse_format ''%k %p %f %b'' = Some [Slot CHR ''k'', Lit CHR '' '', Slot CHR ''p'', Lit CHR '' '',
      Slot CHR ''f'', Lit CHR '' '', Slot CHR ''b'']" by code_simp
  have hex: "hex_ok (e_hex pack_env)" by (simp add: plain_hex_ok)
  have small: "\<forall>e \<in> set [ones_entry]. unat (om_size (fe_object e)) < 2 ^ 50" by (simp add: ones_entry_def)
  have parts: "escaped (PackPath ''f'') = ''f''" "show_octal 420 = ''644''" by code_simp+
  from list_files_command [OF cli_opened found load fmt hex small] show ?thesis
    by (simp add: file_line_def file_slots_def ones_entry_def kind_and_permissions_def parts lines_text_def
        show_nat.simps digit_bytes)
qed

text \<open>C6: The index that \<^verbatim>\<open>pack\<close> builds refines the merging of lists of tagged sets: the snapshots of the loose
  indexes are appended in order, each index up to the first tag that is there already; with distinct
  tags nothing is dropped.\<close>

theorem merge_loose_refines:
  assumes "\<forall>p \<in> set ps. is_pack_loose E r fs p \<and> load_index E r fs p = Inr (ix p) \<and> index_wf (ix p)"
    and "sum_list (map (\<lambda>p. total_files (ix p)) ps) \<le> 2 ^ 32"
  shows "\<exists>new. merge_loose E r fs index_new ps = Inr new \<and> index_wf new \<and> index_synced new \<and>
    snapshots_of new = foldl merged [] (map (\<lambda>p. snapshots_of (ix p)) ps) \<and>
    (distinct (concat (map (\<lambda>p. snapshot_tags (ix p)) ps)) \<longrightarrow>
      snapshots_of new = concat (map (\<lambda>p. snapshots_of (ix p)) ps))"
proof -
  obtain new where new: "merge_loose E r fs index_new ps = Inr new" "index_wf new" "index_synced new"
      "snapshots_of new = foldl merged [] (map (\<lambda>p. snapshots_of (ix p)) ps)"
    using merge_loose_ok [OF _ _ assms(1), of index_new] assms(2) index_wf_new by auto
  have "map (map fst) (map (\<lambda>p. snapshots_of (ix p)) ps) = map (\<lambda>p. snapshot_tags (ix p)) ps"
    using assms(1) fst_snapshots_of by simp
  with foldl_merged [of "[]" "map (\<lambda>p. snapshots_of (ix p)) ps"] new(4)
  have "snapshots_of new = concat (map (\<lambda>p. snapshots_of (ix p)) ps)"
    if "distinct (concat (map (\<lambda>p. snapshot_tags (ix p)) ps))"
    using that by (simp only: list.map append_Nil)
  with new show ?thesis by blast
qed

theorem merge_loose_refines_witness:
  "\<exists>new. merge_loose pack_env store_repo cli_fs index_new [loose_t, loose_t] = Inr new \<and>
     snapshots_of new = [(''t'', {entry_content ones_entry})]"
proof -
  have "\<forall>p \<in> set [loose_t, loose_t]. is_pack_loose pack_env store_repo cli_fs p \<and>
      load_index pack_env store_repo cli_fs p = Inr ones_index \<and> index_wf ones_index" by (simp add: ones_wf)
  moreover have "sum_list (map (\<lambda>p. total_files ones_index) [loose_t, loose_t]) \<le> 2 ^ 32"
    by (simp add: total_files_def ones_sets)
  ultimately show ?thesis
    using merge_loose_refines [of "[loose_t, loose_t]" pack_env store_repo cli_fs "\<lambda>p. ones_index"]
    by (auto simp: ones_sets merged_def)
qed

text \<open>C5: \<^verbatim>\<open>pack\<close> publishes the merged index: the pack loads with its snapshots, and HEAD, when it was at one of
  the packed snapshots, names the same tag in the new pack; otherwise HEAD stays.\<close>

theorem pack_command:
  assumes "pack_inputs P E data_dir a fs = (Inr (r, Pack name, ps, new, opts), fs1)" "\<not> pa_force a"
    and "pack_ready E r fs1 name new opts data" "head_at E r fs1 h" "tmp_ok E r fs1 (head_path r)" "rp_lock r \<noteq> None"
  shows "\<exists>fs' idx t. pack_run P E data_dir a fs = Some (Inr (), fs') \<and>
    load_index E r fs' (Pack name) = Inr idx \<and> snapshots_of idx = snapshots_of new \<and>
    read_head E r fs' = Inr (Some (moved (Pack name) ps h), t)"
proof -
  from pack_then_head [OF assms(3-6), of ps] obtain fs2 fs' idx t where
      "create_pack E r (Pack name) new opts fs1 = Some (Inr (), fs2)" "move_head E r (Pack name) ps fs2 = (Inr (), fs')"
      "load_index E r fs' (Pack name) = Inr idx" "snapshots_of idx = snapshots_of new"
      "read_head E r fs' = Inr (Some (moved (Pack name) ps h), t)" by blast
  with assms(1,2) show ?thesis by (simp add: pack_run_def lib_def lift_err_def)
qed

definition pack_sample :: pack_args where
  "pack_sample = \<lparr>pa_pack = ''p'', pa_from = None, pa_from0 = None, pa_indexes = None, pa_level = ''3'',
     pa_threads = ''2'', pa_frames = ''4'', pa_force = False\<rparr>"

lemma pack_sample_inputs:
  "pack_inputs sample_process pack_env ''/d'' pack_sample cli_fs =
     (Inr (store_repo, Pack ''p'', [loose_t], ones_index\<lparr>current := [ones_handle]\<rparr>, ones_options), cli_fs)"
proof -
  have id: "pack_id_from_str plain_cat ''p'' = Inr (Pack ''p'')" by code_simp
  have nums: "parse_u32 ''2'' = Inr 2" "parse_u32 ''4'' = Inr 4" "parse_i32 ''3'' = Inr 3"
    by (simp_all add: parse_u32_def parse_i32_def is_ascii_digit_def byte_val_def)
  have args: "parse_pack_args sample_process pack_env pack_sample = Inr (Pack ''p'', None, 3, 2)"
    by (simp add: parse_pack_args_def pack_sample_def id parse_level_def parse_threads_def nums sample_process_def)
  have chosen: "chosen_packs sample_process pack_env store_repo None None None cli_fs = (Inr [loose_t], cli_fs)"
    by (simp add: chosen_packs_def lib_def lift_err_def cli_loose)
  have frames: "parse_frames ''4'' idx = Inr 4" for idx by (simp add: parse_frames_def nums)
  have fields: "pa_from pack_sample = None" "pa_from0 pack_sample = None" "pa_frames pack_sample = ''4''"
    by (simp_all add: pack_sample_def)
  have opts: "\<lparr>po_window_log = 28, po_level = 3, po_num_workers = 2, po_num_frames = 4\<rparr> = ones_options"
    by (simp add: ones_options_def)
  show ?thesis
    unfolding pack_inputs_def
    by (simp only: andThen_def liftr_def args lib_def lift_err_def cli_opened query_def fields chosen ones_merged frames
        ret_def opts prod.case sum.case map_err.simps list.distinct if_False)
qed

theorem pack_command_witness:
  "\<exists>fs' idx t. pack_run sample_process pack_env ''/d'' pack_sample cli_fs = Some (Inr (), fs') \<and>
     load_index pack_env store_repo fs' (Pack ''p'') = Inr idx \<and>
     snapshots_of idx = snapshots_of (ones_index\<lparr>current := [ones_handle]\<rparr>) \<and>
     read_head pack_env store_repo fs' = Inr (Some \<lparr>sid_pack = Pack ''p'', sid_tag = ''t''\<rparr>, t)"
proof -
  have free: "pack_place_free pack_env store_repo cli_fs ''p''"
    using cli_fs_wf
    by (auto simp: pack_place_free_def place_free_def index_place_of_def pack_rnd_def no_parent_refs_def
        dirs_or_missing_def cli_fs_def fs_get_def ip_path_def acf_temp_path_def split: if_splits)
  have ready: "pack_ready pack_env store_repo cli_fs ''p'' (ones_index\<lparr>current := [ones_handle]\<rparr>) ones_options (\<lambda>c. ''xy'')"
    by (rule ones_ready_at [OF _ cli_fs_wf _ _ _ free]) (simp_all add: cli_fs_def fs_get_def)
  have tag: "snapshot_tag_valid plain_cat ''t''" by code_simp
  have head: "head_at pack_env store_repo cli_fs head_t"
    using cli_modes tag
    by (simp add: head_at_def sid_ok_def head_t_def cat_ok_def plain_cat_def no_parent_refs_def cli_fs_def fs_get_def
        del: validate_pack_id.simps) (simp add: loose_t_def)
  have tmp: "tmp_ok pack_env store_repo cli_fs (head_path store_repo)" by (simp add: tmp_ok_def cli_fs_def fs_get_def)
  have lock: "rp_lock store_repo \<noteq> None" "\<not> pa_force pack_sample" by (simp_all add: store_repo_def pack_sample_def)
  from pack_command [OF pack_sample_inputs lock(2) ready head tmp lock(1)] show ?thesis
    by (simp add: moved_def head_t_def)
qed

text \<open>C39: A size has a text exactly below 1024 T (1 PiB); \<^verbatim>\<open>format_size\<close> panics for every larger one, whether or not
  the format asks for sizes.\<close>

theorem format_size_bound: "format_size n = Inl Panicked \<longleftrightarrow> 2 ^ 50 \<le> unat n"
  by (rule format_size_panics)

end
