(* ===== verification/Progress.thy ===== *)
theory Progress
  imports RowFormat Remote
begin

text \<open>
  Progress reports: the counters of \<^verbatim>\<open>src/progress.rs\<close> and the percentage printer of
  \<^verbatim>\<open>src/bin/elfshaker/utils.rs\<close>.  The operations of the repository are modelled without a reporter
  (the dummy one, which is the default); this theory models what a reporter adds to a download.
  Counters are 64 bits wide and wrap around, as in a release build.
\<close>

record checkpoint =
  cp_done :: u64
  cp_remaining :: "u64 option"
  cp_detail :: "bytes option"

text \<open>A callback changes the state of its client or panics; the dummy reporter has none.\<close>

type_synonym 's reporter = "(checkpoint \<Rightarrow> 's \<Rightarrow> 's option) option"

definition reporter_new :: "(checkpoint \<Rightarrow> 's \<Rightarrow> 's option) \<Rightarrow> 's reporter" where
  "reporter_new f = Some f"

definition reporter_dummy :: "'s reporter" where
  "reporter_dummy = None"

definition report_checkpoint :: "'s reporter \<Rightarrow> u64 \<Rightarrow> u64 option \<Rightarrow> 's \<Rightarrow> 's option" where
  "report_checkpoint r finished remaining st =
     (case r of None \<Rightarrow> Some st
      | Some callback \<Rightarrow> callback \<lparr>cp_done = finished, cp_remaining = remaining, cp_detail = None\<rparr> st)"

definition report_with_detail :: "'s reporter \<Rightarrow> u64 \<Rightarrow> u64 option \<Rightarrow> bytes \<Rightarrow> 's \<Rightarrow> 's option" where
  "report_with_detail r finished remaining detail st =
     (case r of None \<Rightarrow> Some st
      | Some callback \<Rightarrow> callback \<lparr>cp_done = finished, cp_remaining = remaining, cp_detail = Some detail\<rparr> st)"

subsection \<open>The writer\<close>

text \<open>The writer behind it takes the data of one \<^verbatim>\<open>write\<close> call and answers how much of it was written.\<close>

record progress_writer =
  pw_remaining :: "u64 option"
  pw_written :: u64

definition writer_new :: progress_writer where
  "writer_new = \<lparr>pw_remaining = None, pw_written = 0\<rparr>"

definition with_known_size :: "u64 \<Rightarrow> progress_writer" where
  "with_known_size n = \<lparr>pw_remaining = Some n, pw_written = 0\<rparr>"

definition progress_write ::
    "'s reporter \<Rightarrow> io_error + u64 \<Rightarrow> progress_writer \<Rightarrow> 's \<Rightarrow> (io_error + u64) \<times> progress_writer \<times> 's option" where
  "progress_write r answer w st =
     (case answer of
        Inl e \<Rightarrow> (Inl e, w, Some st)
      | Inr n \<Rightarrow>
          (let w = w\<lparr>pw_written := pw_written w + n, pw_remaining := map_option (\<lambda>m. m - n) (pw_remaining w)\<rparr>
           in (Inr n, w, report_checkpoint r (pw_written w) (pw_remaining w) st)))"

subsection \<open>The percentage printer\<close>

definition bar_width :: nat where "bar_width = 25"

text \<open>
  The quotient \<^verbatim>\<open>percent as f32 / 100f32\<close> as a 24-bit significand and a scale, and its product with the
  width rounded to 24 bits again, ties to even.
\<close>

definition half_even :: "nat \<Rightarrow> nat \<Rightarrow> nat" where
  "half_even a b = (let q = a div b; r = a mod b in if 2 * r < b \<or> 2 * r = b \<and> even q then q else q + 1)"

definition f32_round :: "nat \<Rightarrow> nat" where
  "f32_round n = (let ulp = 2 ^ (floorlog 2 n - 24) in half_even n ulp * ulp)"

definition full_blocks :: "nat \<Rightarrow> nat \<Rightarrow> nat" where
  "full_blocks percent width =
     (if percent = 0 then 0
      else case find (\<lambda>s. 2 ^ 23 * 100 \<le> percent * 2 ^ s) [0..<64] of
        None \<Rightarrow> 0
      | Some s \<Rightarrow> (2 * f32_round (half_even (percent * 2 ^ s) 100 * width) + 2 ^ s) div (2 * 2 ^ s))"

definition create_progress_bar :: "int \<Rightarrow> nat \<Rightarrow> bytes option" where
  "create_progress_bar percent width =
     (if percent < 0 \<or> 100 < percent then None
      else let n = full_blocks (nat percent) width in
        Some (''['' @ replicate n (CHR ''='') @ ''>'' @ replicate (width - n) (CHR '' '') @ '']''))"

record printer =
  pr_message :: bytes
  pr_step :: u32
  pr_escapes :: bool
  pr_current :: "64 word"
  pr_output :: bytes

definition percentage :: "u64 \<Rightarrow> u64 \<Rightarrow> u64" where
  "percentage finished remaining = 100 * finished div max 1 (finished + remaining)"

definition if_escape :: "printer \<Rightarrow> bytes \<Rightarrow> bytes" where
  "if_escape p s = (if pr_escapes p then CHR 0x1B # s else [])"

definition show_u64 :: "u64 \<Rightarrow> bytes" where "show_u64 n = show_nat (unat n)"

definition show_i64 :: "64 word \<Rightarrow> bytes" where
  "show_i64 n = (if sint n < 0 then CHR ''-'' # show_nat (nat (- sint n)) else show_nat (nat (sint n)))"

definition printer_new :: "bytes \<Rightarrow> u32 \<Rightarrow> bool \<Rightarrow> printer option" where
  "printer_new message step escapes =
     (if 100 < step then None
      else Some \<lparr>pr_message = message, pr_step = step, pr_escapes = escapes, pr_current = - 100, pr_output = []\<rparr>)"

text \<open>The text of a finished report and of one under way; the bar is the part that can panic.\<close>

definition done_text :: "printer \<Rightarrow> u64 \<Rightarrow> bytes" where
  "done_text p whole =
     if_escape p ''[1m'' @ if_escape p ''[32;1m'' @ pr_message p @ if_escape p ''[32;0m'' @ '' ['' @
     show_u64 whole @ ''/'' @ show_u64 whole @ '']'' @ [CHR 0x0A]"

definition running_text :: "printer \<Rightarrow> checkpoint \<Rightarrow> u64 \<Rightarrow> u64 \<Rightarrow> bytes option" where
  "running_text p cp pct whole =
     map_option (\<lambda>bar. if_escape p ''[1m'' @ if_escape p ''[36;1m'' @ pr_message p @ if_escape p ''[32;0m'' @ '' '' @ bar @
       '' '' @ show_i64 pct @ ''% ['' @ show_u64 (cp_done cp) @ ''/'' @ show_u64 whole @ '']'' @
       (case cp_detail cp of None \<Rightarrow> [] | Some d \<Rightarrow> '': '' @ d))
     (create_progress_bar (sint (ucast pct :: u32)) bar_width)"

definition percentage_print :: "checkpoint \<Rightarrow> printer \<Rightarrow> printer option" where
  "percentage_print cp p =
     (case cp_remaining cp of
        None \<Rightarrow> Some (p\<lparr>pr_output := pr_output p @ pr_message p @ ''... ['' @ show_u64 (cp_done cp) @ ''/?]'' @ [CHR 0x0A]\<rparr>)
      | Some remaining \<Rightarrow>
          (let whole = cp_done cp + remaining; pct = percentage (cp_done cp) remaining;
               needs_update = (sint (pct - pr_current p) \<ge> int (unat (pr_step p)))
           in if needs_update \<or> pr_escapes p
              then map_option (\<lambda>text. p\<lparr>pr_current := pct,
                  pr_output := pr_output p @ if_escape p ''[2K'' @ [CHR 0x0D] @ text\<rparr>)
                (if pct = 100 then Some (done_text p whole) else running_text p cp pct whole)
              else Some p))"

subsection \<open>A download\<close>

text \<open>\<^verbatim>\<open>io::copy\<close> into a writer in memory: every chunk is written whole and reported.\<close>

fun copy_chunks :: "'s reporter \<Rightarrow> u64 list \<Rightarrow> progress_writer \<Rightarrow> 's \<Rightarrow> (progress_writer \<times> 's) option" where
  "copy_chunks r [] w st = Some (w, st)"
| "copy_chunks r (n # ns) w st =
     (case progress_write r (Inr n) w st of
        (_, w, None) \<Rightarrow> None
      | (_, w, Some st) \<Rightarrow> copy_chunks r ns w st)"

text \<open>The writer has counted part of a body of the announced size.\<close>

definition counting :: "nat \<Rightarrow> progress_writer \<Rightarrow> bool" where
  "counting size_hint w \<longleftrightarrow> unat (pw_written w) \<le> size_hint \<and>
     pw_remaining w = Some (of_nat (size_hint - unat (pw_written w)))"

lemma counting_new: "counting n (with_known_size (of_nat n))"
  by (simp add: counting_def with_known_size_def)

lemma counting_write:
  assumes "counting size_hint w" "unat (pw_written w) + unat n \<le> size_hint" "size_hint < 2 ^ 64"
  shows "counting size_hint (w\<lparr>pw_written := pw_written w + n, pw_remaining := map_option (\<lambda>m. m - n) (pw_remaining w)\<rparr>)"
    and "unat (pw_written w + n) = unat (pw_written w) + unat n"
proof -
  show sum: "unat (pw_written w + n) = unat (pw_written w) + unat n"
    using assms(2,3) by (intro unat_add_lem [THEN iffD1]) simp
  have "(of_nat (size_hint - unat (pw_written w)) :: u64) - n = of_nat (size_hint - (unat (pw_written w) + unat n))"
    using assms(2) by (simp add: of_nat_diff)
  then show "counting size_hint (w\<lparr>pw_written := pw_written w + n, pw_remaining := map_option (\<lambda>m. m - n) (pw_remaining w)\<rparr>)"
    using assms(1,2) sum by (simp add: counting_def)
qed

lemma percent_bound: "d \<le> n \<Longrightarrow> 100 * d div max 1 n \<le> (100 :: nat)"
  using div_le_mono [of "100 * d" "100 * max 1 n" "max 1 n"] by (auto simp: max_def)

text \<open>Then the percentage is at most 100 and the bar is drawn.\<close>

lemma counting_percentage:
  assumes "counting size_hint w" "100 * size_hint < 2 ^ 64" "pw_remaining w = Some m"
  shows "unat (percentage (pw_written w) m) \<le> 100"
proof -
  have whole: "unat (pw_written w + m) = size_hint"
    using assms by (auto simp: counting_def of_nat_diff unat_of_nat)
  have "unat (100 * pw_written w) = 100 * unat (pw_written w)"
    using assms(1,2) by (subst unat_mult_lem [THEN iffD1]) (auto simp: counting_def)
  moreover have "unat (max 1 (pw_written w + m)) = max 1 size_hint"
    using whole by (simp add: max_def word_le_nat_alt)
  moreover have "100 * unat (pw_written w) div max 1 size_hint \<le> 100"
    using assms(1) by (intro percent_bound) (simp add: counting_def)
  ultimately show ?thesis by (simp add: percentage_def unat_div)
qed

text \<open>A report of at most 100 percent is printed, and the printer keeps its message, step and terminal.\<close>

abbreviation same_printer :: "printer \<Rightarrow> printer \<Rightarrow> bool" where
  "same_printer p q \<equiv> pr_message q = pr_message p \<and> pr_step q = pr_step p \<and> pr_escapes q = pr_escapes p"

lemma percent_as_i32:
  assumes "unat (pct :: u64) < 2 ^ 31"
  shows "sint (ucast pct :: u32) = int (unat pct)"
proof -
  have n: "unat (ucast pct :: u32) = unat pct"
    unfolding unsigned_ucast_eq by (rule take_bit_nat_eq_self) (use assms in simp)
  have i: "uint (ucast pct :: u32) = int (unat pct)"
    unfolding n [symmetric] by simp
  show ?thesis
    unfolding sint_uint i by (rule signed_take_bit_int_eq_self) (use assms in \<open>simp_all del: of_nat_unat\<close>)
qed

lemma percent_as_isize:
  assumes "unat (pct :: u64) < 2 ^ 31" "- 100 \<le> sint shown" "sint shown \<le> 100"
  shows "sint (pct - shown) = int (unat pct) - sint shown"
proof -
  have "sint pct = int (unat pct)"
    unfolding sint_uint uint_nat
    by (rule signed_take_bit_int_eq_self) (use assms in \<open>simp_all del: of_nat_unat\<close>)
  then show ?thesis
    unfolding sint_word_ariths using assms
    by (subst signed_take_bit_int_eq_self) (simp_all del: of_nat_unat)
qed

lemma progress_bar_drawn:
  assumes "unat (pct :: u64) \<le> 100"
  shows "\<exists>bar. create_progress_bar (sint (ucast pct :: u32)) width = Some bar"
  using assms percent_as_i32 [of pct] by (simp add: create_progress_bar_def Let_def del: of_nat_unat)

lemma percentage_printed:
  assumes "cp_remaining cp = Some m" "unat (percentage (cp_done cp) m) \<le> 100"
  shows "\<exists>q. percentage_print cp p = Some q \<and> same_printer p q \<and>
    (pr_escapes p \<longrightarrow> pr_current q = percentage (cp_done cp) m)"
proof -
  obtain bar where "create_progress_bar (sint (ucast (percentage (cp_done cp) m) :: u32)) bar_width = Some bar"
    using progress_bar_drawn [OF assms(2)] by blast
  then show ?thesis using assms(1) by (simp add: percentage_print_def running_text_def Let_def)
qed

lemma copied:
  assumes "counting size_hint w" "unat (pw_written w) + sum_list (map unat ns) \<le> size_hint" "100 * size_hint < 2 ^ 64"
  shows "\<exists>w' q. copy_chunks (reporter_new percentage_print) ns w p = Some (w', q) \<and> counting size_hint w' \<and>
    unat (pw_written w') = unat (pw_written w) + sum_list (map unat ns) \<and> same_printer p q"
  using assms(1,2)
proof (induction ns arbitrary: w p)
  case Nil
  then show ?case by simp
next
  case (Cons n ns)
  let ?w = "w\<lparr>pw_written := pw_written w + n, pw_remaining := map_option (\<lambda>m. m - n) (pw_remaining w)\<rparr>"
  have c: "counting size_hint ?w" and wn: "unat (pw_written ?w) = unat (pw_written w) + unat n"
    using counting_write [OF Cons.prems(1), of n] Cons.prems(2) assms(3) by simp_all
  obtain m where m: "pw_remaining ?w = Some m" using c unfolding counting_def by blast
  let ?cp = "\<lparr>cp_done = pw_written ?w, cp_remaining = pw_remaining ?w, cp_detail = None\<rparr>"
  obtain q where q: "percentage_print ?cp p = Some q" "same_printer p q"
    using percentage_printed [of ?cp m p] counting_percentage [OF c assms(3) m] m by fastforce
  have step: "copy_chunks (reporter_new percentage_print) (n # ns) w p =
      copy_chunks (reporter_new percentage_print) ns ?w q"
    using q(1) by (simp add: progress_write_def report_checkpoint_def reporter_new_def Let_def)
  show ?case
    unfolding step using Cons.IH [OF c, of q] Cons.prems(2) wn q(2) by fastforce
qed

text \<open>
  A response without the length of its body is announced with the size 0.  The first chunk makes the rest
  wrap around to minus its length, so the total is 0 and the percentage a hundred times the chunk.
\<close>

lemma unannounced_percentage:
  assumes "unat n \<le> 8192"
  shows "unat (percentage n (0 - n)) = 100 * unat n"
proof -
  have "unat (100 * n) = 100 * unat n"
    using assms by (subst unat_mult_lem [THEN iffD1]) auto
  then show ?thesis by (simp add: percentage_def)
qed

lemma unannounced_panics:
  assumes "2 \<le> unat n" "unat n \<le> 8192" "pr_step p \<le> 100" "- 100 \<le> sint (pr_current p)" "sint (pr_current p) \<le> 100"
  shows "percentage_print \<lparr>cp_done = n, cp_remaining = Some (0 - n), cp_detail = d\<rparr> p = None"
proof -
  let ?pct = "percentage n (0 - n)"
  have pct: "unat ?pct = 100 * unat n" by (rule unannounced_percentage) (rule assms(2))
  have small: "unat ?pct < 2 ^ 31" using pct assms(2) by simp
  have "int (unat (pr_step p)) \<le> sint (?pct - pr_current p)"
    unfolding percent_as_isize [OF small assms(4,5)] pct
    using assms(1,3,5) by (simp add: word_le_nat_alt del: of_nat_unat)
  moreover have "?pct \<noteq> 100" using pct assms(1) by auto
  moreover have "create_progress_bar (sint (ucast ?pct :: u32)) bar_width = None"
    unfolding percent_as_i32 [OF small] pct using assms(1) by (simp add: create_progress_bar_def del: of_nat_unat)
  ultimately show ?thesis by (simp add: percentage_print_def running_text_def Let_def)
qed

subsection \<open>Packing\<close>

text \<open>
  A sequence of reports on a fixed number of tasks: \<^verbatim>\<open>compress_files\<close> reports every object and then the
  end; \<^verbatim>\<open>create_pack_impl\<close> reports the counts of its parallel tasks in the order in which they arrive.
\<close>

fun report_counts :: "'s reporter \<Rightarrow> nat \<Rightarrow> nat list \<Rightarrow> 's \<Rightarrow> 's option" where
  "report_counts r n [] st = Some st"
| "report_counts r n (d # ds) st =
     Option.bind (report_checkpoint r (of_nat d) (Some (of_nat n - of_nat d)) st) (report_counts r n ds)"

definition compress_reports :: "'s reporter \<Rightarrow> nat \<Rightarrow> 's \<Rightarrow> 's option" where
  "compress_reports r n = report_counts r n ([0..<n] @ [n])"

definition pack_reports :: "'s reporter \<Rightarrow> nat \<Rightarrow> nat list \<Rightarrow> 's \<Rightarrow> 's option" where
  "pack_reports r n arrivals = report_counts r n (arrivals @ [n])"

lemma task_percentage:
  assumes "d \<le> n" "100 * n < 2 ^ 64"
  shows "unat (percentage (of_nat d) (of_nat n - of_nat d)) = 100 * d div max 1 n"
proof -
  have "unat (100 * of_nat d :: u64) = unat (of_nat (100 * d) :: u64)" by simp
  also have "\<dots> = 100 * d" unfolding unat_of_nat using assms by (intro mod_less) simp
  finally have "unat (100 * of_nat d :: u64) = 100 * d" .
  moreover have "unat (of_nat n :: u64) = n" using assms by (simp add: unat_of_nat take_bit_nat_eq_self)
  then have "unat (max 1 (of_nat n) :: u64) = max 1 n" by (simp add: max_def word_le_nat_alt)
  ultimately show ?thesis by (simp add: percentage_def unat_div)
qed

lemma counts_reported:
  assumes "100 * n < 2 ^ 64" "\<forall>d\<in>set ds. d \<le> n"
  shows "\<exists>q. report_counts (reporter_new percentage_print) n ds p = Some q \<and> same_printer p q \<and>
    (ds \<noteq> [] \<longrightarrow> pr_escapes p \<longrightarrow> unat (pr_current q) = 100 * last ds div max 1 n)"
  using assms(2)
proof (induction ds arbitrary: p)
  case Nil
  then show ?case by simp
next
  case (Cons d ds)
  let ?cp = "\<lparr>cp_done = of_nat d, cp_remaining = Some (of_nat n - of_nat d), cp_detail = None\<rparr>"
  have pct: "unat (percentage (of_nat d) (of_nat n - of_nat d)) = 100 * d div max 1 n"
    using Cons.prems assms(1) by (intro task_percentage) simp_all
  also have "\<dots> \<le> 100" using Cons.prems by (intro percent_bound) simp
  finally obtain q where q: "percentage_print ?cp p = Some q" "same_printer p q"
      "pr_escapes p \<longrightarrow> pr_current q = percentage (of_nat d) (of_nat n - of_nat d)"
    using percentage_printed [of ?cp "of_nat n - of_nat d" p] by auto
  have "report_counts (reporter_new percentage_print) n (d # ds) p =
      report_counts (reporter_new percentage_print) n ds q"
    using q(1) by (simp add: report_checkpoint_def reporter_new_def)
  then show ?case using Cons.IH [of q] Cons.prems q pct by (cases "ds = []") auto
qed

lemma pack_progress:
  assumes "100 * n < 2 ^ 64" "\<forall>d\<in>set arrivals. d \<le> n"
  shows "\<exists>q. pack_reports (reporter_new percentage_print) n arrivals p = Some q \<and>
    (pr_escapes p \<longrightarrow> 0 < n \<longrightarrow> unat (pr_current q) = 100)"
  using counts_reported [of n "arrivals @ [n]" p] assms by (auto simp: pack_reports_def)

lemma compress_progress:
  assumes "100 * n < 2 ^ 64"
  shows "\<exists>q. compress_reports (reporter_new percentage_print) n p = Some q \<and>
    (pr_escapes p \<longrightarrow> 0 < n \<longrightarrow> unat (pr_current q) = 100)"
  using pack_progress [OF assms, of "[0..<n]" p] by (simp add: pack_reports_def compress_reports_def)

text \<open>C38: While the chunks of a body stay within the announced \<^verbatim>\<open>Content-Length\<close> (and a hundred times it
  fits in 64 bits) every write is counted and the percentage printer never panics.  When a response has no
  \<^verbatim>\<open>Content-Length\<close>, the first chunk of at least two bytes makes the printer panic: the announced size is
  0, the rest wraps around, and the percentage is a hundred times the length of the chunk.\<close>

theorem download_progress:
  assumes "pr_step p \<le> 100" "- 100 \<le> sint (pr_current p)" "sint (pr_current p) \<le> 100"
  shows "(100 * content_length r < 2 ^ 64 \<and> sum_list (map unat ns) \<le> content_length r \<longrightarrow>
      (\<exists>w q. copy_chunks (reporter_new percentage_print) ns (with_known_size (of_nat (content_length r))) p = Some (w, q) \<and>
        unat (pw_written w) = sum_list (map unat ns) \<and>
        pw_remaining w = Some (of_nat (content_length r - sum_list (map unat ns))))) \<and>
    (hr_length r = None \<and> ns \<noteq> [] \<and> 2 \<le> unat (hd ns) \<and> unat (hd ns) \<le> 8192 \<longrightarrow>
      copy_chunks (reporter_new percentage_print) ns (with_known_size (of_nat (content_length r))) p = None)"
    (is "?counted \<and> ?panics")
proof
  show ?counted
    using copied [OF counting_new, of "content_length r" ns p] by (auto simp: counting_def with_known_size_def)
  show ?panics
    using unannounced_panics [OF _ _ assms, of "hd ns" None]
    by (cases ns) (auto simp: content_length_def with_known_size_def progress_write_def report_checkpoint_def
        reporter_new_def Let_def)
qed

lemma download_progress_witness:
  "\<exists>p. printer_new ''Fetching'' 5 False = Some p \<and>
    (\<exists>w q. copy_chunks (reporter_new percentage_print) [3, 4] (with_known_size 10) p = Some (w, q) \<and>
      unat (pw_written w) = 7 \<and> pw_remaining w = Some 3) \<and>
    copy_chunks (reporter_new percentage_print) [3, 4] (with_known_size 0) p = None"
proof -
  let ?p = "\<lparr>pr_message = ''Fetching'', pr_step = 5, pr_escapes = False, pr_current = - 100, pr_output = []\<rparr>"
  let ?r = "\<lambda>n. \<lparr>hr_status = 200, hr_length = n, hr_body = ([], None)\<rparr>"
  have ten: "content_length (?r (Some ''10'')) = 10"
    by (simp add: content_length_def parse_u64_def digits_val_def byte_val_def is_ascii_digit_def Let_def)
  have none: "content_length (?r None) = 0" by (simp add: content_length_def)
  have "printer_new ''Fetching'' 5 False = Some ?p" by (simp add: printer_new_def)
  moreover have ok: "pr_step ?p \<le> 100" "- 100 \<le> sint (pr_current ?p)" "sint (pr_current ?p) \<le> 100" by simp_all
  moreover have "\<exists>w q. copy_chunks (reporter_new percentage_print) [3, 4] (with_known_size 10) ?p = Some (w, q) \<and>
      unat (pw_written w) = 7 \<and> pw_remaining w = Some 3"
    using download_progress [OF ok, of "?r (Some ''10'')" "[3, 4]", THEN conjunct1] unfolding ten by simp
  moreover have "copy_chunks (reporter_new percentage_print) [3, 4] (with_known_size 0) ?p = None"
    using download_progress [OF ok, of "?r None" "[3, 4]", THEN conjunct2] unfolding none by simp
  ultimately show ?thesis by blast
qed

end
