(* ===== verification/Program.thy ===== *)
theory Program
  imports CommandSample EsiCommandProps
begin

text \<open>
  The program: \<^verbatim>\<open>main\<close> and \<^verbatim>\<open>run_subcommand\<close> of \<^verbatim>\<open>src/bin/elfshaker/main.rs\<close> over the commands of the
  other theories.  A subcommand comes with the values of its arguments as \<^verbatim>\<open>clap\<close> gives them; what it
  leaves is its result, the exit status and the file system.
\<close>

datatype subcommand =
    RunExtract bytes bytes bool bool bool
  | RunExplode bytes
  | RunStore bytes "bytes option" "bytes option" bool
  | RunList "bytes list option" bytes
  | RunListPacks bytes
  | RunListFiles bytes bytes
  | RunPack pack_args
  | RunShow bytes "bytes list"
  | RunFind bytes
  | RunGc bool bool bool
  | RunUpdate
  | RunClone bytes bytes
  | RunEsi bool esi_command
  | RunHelp bytes

text \<open>What a command prints or counts, and how it fails.\<close>

datatype outcome =
    Quiet
  | Prints bytes
  | PrintsTable bytes bytes
  | Extracts "extract_result option"
  | Frees u64

datatype program_error = CommandError cli_error | EsiFailure esi_error

fun command_failure :: "('e \<Rightarrow> program_error) \<Rightarrow> 'e failure \<Rightarrow> program_error failure" where
  "command_failure f (Fail e) = Fail (f e)"
| "command_failure f Panicked = Panicked"

definition outcome_of :: "('a \<Rightarrow> outcome) \<Rightarrow> cli_error failure + 'a \<Rightarrow> program_error failure + outcome" where
  "outcome_of f x = map_err (command_failure CommandError) (rbind x (\<lambda>y. Inr (f y)))"

text \<open>The \<^verbatim>\<open>gc\<close> command opens the repository after the check of its options.\<close>

definition gc_command :: "process \<Rightarrow> env \<Rightarrow> bytes \<Rightarrow> bool \<Rightarrow> bool \<Rightarrow> bool \<Rightarrow> u64 cli" where
  "gc_command P E data_dir dry loose_snapshots loose_objects =
     (if \<not> loose_snapshots \<and> \<not> loose_objects then err (usage ''Invalid options!'')
      else andThen (lib (open_repo_from_cwd P E data_dir)) (\<lambda>r fs.
        case gc_run E r dry loose_snapshots loose_objects fs of (x, _, fs) \<Rightarrow> (x, fs)))"

type_synonym run = "nat \<times> fs \<Rightarrow> ((program_error failure + outcome) \<times> nat \<times> fs) option"

definition returning :: "('a \<Rightarrow> outcome) \<Rightarrow> 'a cli \<Rightarrow> run" where
  "returning f m s = (case m (snd s) of (x, fs) \<Rightarrow> Some (outcome_of f x, fst s, fs))"

definition may_return :: "(fs \<Rightarrow> ((cli_error failure + unit) \<times> fs) option) \<Rightarrow> run" where
  "may_return m s = map_option (\<lambda>(x, fs). (outcome_of (\<lambda>_. Quiet) x, fst s, fs)) (m (snd s))"

text \<open>\<^term>\<open>None\<close> stands for a command that does not return; the counter numbers the staging files of ESI.\<close>

fun run_subcommand :: "process \<Rightarrow> env \<Rightarrow> esi_env \<Rightarrow> bytes \<Rightarrow> subcommand \<Rightarrow> run" where
  "run_subcommand P E X d (RunExtract s threads reset verify force) =
     returning Extracts (extract_run P E d s threads reset verify force)"
| "run_subcommand P E X d (RunExplode p) = returning (\<lambda>_. Quiet) (explode_run P E d p)"
| "run_subcommand P E X d (RunStore s from from0 force) = may_return (store_run P E d s from from0 force)"
| "run_subcommand P E X d (RunList names fmt) = returning Prints (list_run P E d names fmt)"
| "run_subcommand P E X d (RunListPacks fmt) = returning Prints (list_packs_run P E d fmt)"
| "run_subcommand P E X d (RunListFiles s fmt) = returning Prints (list_files_run P E d s fmt)"
| "run_subcommand P E X d (RunPack a) = may_return (pack_run P E d a)"
| "run_subcommand P E X d (RunShow s ps) = returning Prints (show_run P E d s ps)"
| "run_subcommand P E X d (RunFind term) = returning (\<lambda>(h, t). PrintsTable h t) (find_run P E d term)"
| "run_subcommand P E X d (RunGc dry snapshots objects) = returning Frees (gc_command P E d dry snapshots objects)"
| "run_subcommand P E X d RunUpdate = returning (\<lambda>_. Quiet) (update_run P E d)"
| "run_subcommand P E X d (RunClone url directory) = returning (\<lambda>_. Quiet) (clone_run P E d url directory)"
| "run_subcommand P E X d (RunEsi given c) =
     (\<lambda>s. case esi_run X given c s of (x, s) \<Rightarrow>
        Some (map_err (command_failure EsiFailure) (rbind x (\<lambda>text. Inr (Prints text))), s))"
| "run_subcommand P E X d (RunHelp text) = (\<lambda>s. Some (Inr (Prints (text @ [CHR 0x0A])), s))"

text \<open>An error is logged and the process exits with 1; the status of a panic is 101.\<close>

definition error_exit_code :: nat where "error_exit_code = 1"

definition exit_status :: "program_error failure + outcome \<Rightarrow> nat" where
  "exit_status x = (case x of Inr _ \<Rightarrow> 0 | Inl (Fail _) \<Rightarrow> error_exit_code | Inl Panicked \<Rightarrow> 101)"

definition main_run ::
    "process \<Rightarrow> env \<Rightarrow> esi_env \<Rightarrow> bytes \<Rightarrow> subcommand \<Rightarrow> nat \<times> fs \<Rightarrow> (nat \<times> outcome option \<times> nat \<times> fs) option" where
  "main_run P E X d c s =
     map_option (\<lambda>(x, s). (exit_status x, (case x of Inl _ \<Rightarrow> None | Inr out \<Rightarrow> Some out), s))
       (run_subcommand P E X d c s)"

subsection \<open>Operations that stay in a relation of file systems\<close>

definition stays :: "(fs \<Rightarrow> fs \<Rightarrow> bool) \<Rightarrow> ('e, 'a) fs_op \<Rightarrow> bool" where
  "stays R m \<longleftrightarrow> (\<forall>fs. R fs (snd (m fs)))"

lemma staysI: "(\<And>fs x fs'. m fs = (x, fs') \<Longrightarrow> R fs fs') \<Longrightarrow> stays R m"
  by (simp add: stays_def prod_eq_iff)

lemma staysD: "stays R m \<Longrightarrow> m fs = (x, fs') \<Longrightarrow> R fs fs'"
  by (metis stays_def snd_conv)

locale fs_relation =
  fixes R :: "fs \<Rightarrow> fs \<Rightarrow> bool"
  assumes same: "R fs fs"
    and trans: "R fs fs' \<Longrightarrow> R fs' fs'' \<Longrightarrow> R fs fs''"
begin

lemma stays_ret: "stays R (ret x)"
  by (simp add: stays_def ret_def same)

lemma stays_err: "stays R (err x)"
  by (simp add: stays_def err_def same)

lemma stays_liftr: "stays R (liftr x)"
  by (simp add: stays_def liftr_def same)

lemma stays_query: "stays R (query q)"
  by (simp add: stays_def query_def same)

lemma stays_andThen:
  assumes "stays R m" "\<And>x. stays R (f x)"
  shows "stays R (andThen m f)"
  by (rule staysI) (auto simp: andThen_def split: prod.splits sum.splits
      intro: staysD [OF assms(1)] trans [OF staysD [OF assms(1)] staysD [OF assms(2)]])

lemma stays_lift_err: "stays R m \<Longrightarrow> stays R (lift_err g m)"
  by (simp add: stays_def lift_err_def split_beta)

lemma stays_if: "stays R m \<Longrightarrow> stays R m' \<Longrightarrow> stays R (if b then m else m')"
  by simp

lemma stays_split: "(\<And>a b. stays R (f a b)) \<Longrightarrow> stays R (case x of (a, b) \<Rightarrow> f a b)"
  by (cases x) simp

lemma stays_each: "(\<And>x. stays R (f x)) \<Longrightarrow> stays R (each f xs)"
  by (induction xs) (auto intro: stays_ret stays_andThen)

lemmas stays_combined = stays_ret stays_err stays_liftr stays_query stays_andThen stays_lift_err
  stays_if stays_split stays_each

end

subsection \<open>What opening a repository adds\<close>

text \<open>
  Nothing is lost: every path keeps its node, and a path that was absent is at most the directory
  \<^verbatim>\<open>packs\<close> of the data directory \<^term>\<open>dd\<close>, or the empty file \<^term>\<open>mutex\<close>.
\<close>

definition adds_marks :: "path \<Rightarrow> path \<Rightarrow> fs \<Rightarrow> fs \<Rightarrow> bool" where
  "adds_marks dd mutex fs fs' \<longleftrightarrow> (\<forall>p. fs_get fs' p = fs_get fs p \<or> fs_get fs p = None \<and>
     (p = dd @ [packs_name] \<and> fs_get fs' p = Some DirNode \<or> p = mutex \<and> fs_get fs' p = Some (FileNode [] created_mode)))"

text \<open>The data directory is a real directory; it stays one, and nothing else is added.\<close>

definition keeps_files :: "path \<Rightarrow> path \<Rightarrow> fs \<Rightarrow> fs \<Rightarrow> bool" where
  "keeps_files dd mutex fs fs' \<longleftrightarrow> (dirs_to fs dd \<and> no_parent_refs dd \<longrightarrow> adds_marks dd mutex fs fs')"

lemma adds_marks_refl: "adds_marks dd mutex fs fs"
  by (simp add: adds_marks_def)

lemma adds_mutex: "fs_get fs mutex = None \<Longrightarrow> adds_marks dd mutex fs (fs_put mutex (FileNode [] created_mode) fs)"
  by (cases "mutex = []") (auto simp: adds_marks_def fs_get_put)

lemma adds_marks_trans: "adds_marks dd mutex fs fs' \<Longrightarrow> adds_marks dd mutex fs' fs'' \<Longrightarrow> adds_marks dd mutex fs fs''"
  unfolding adds_marks_def by (metis option.distinct(1))

lemma adds_marks_dirs: "adds_marks dd mutex fs fs' \<Longrightarrow> dirs_to fs d \<Longrightarrow> dirs_to fs' d"
  unfolding adds_marks_def dirs_to_def by (metis option.distinct(1))

interpretation marks: fs_relation "keeps_files dd mutex" for dd mutex
proof
  fix fs fs' fs''
  show "keeps_files dd mutex fs fs" by (simp add: keeps_files_def adds_marks_refl)
  assume "keeps_files dd mutex fs fs'" "keeps_files dd mutex fs' fs''"
  then show "keeps_files dd mutex fs fs''"
    unfolding keeps_files_def by (metis adds_marks_trans adds_marks_dirs)
qed

lemma marks_lib: "stays (keeps_files dd mutex) m \<Longrightarrow> stays (keeps_files dd mutex) (lib m)"
  unfolding lib_def by (rule marks.stays_lift_err)

lemma marks_io: "stays (keeps_files dd mutex) m \<Longrightarrow> stays (keeps_files dd mutex) (io m)"
  unfolding io_def by (rule marks.stays_lift_err)

lemma marks_create_packs: "stays (keeps_files (rp_data_dir r) mutex) (create_dir_all (packs_root r))"
proof (rule staysI)
  fix fs x fs' assume run: "create_dir_all (packs_root r) fs = (x, fs')"
  let ?p = "rp_data_dir r @ [packs_name]"
  show "keeps_files (rp_data_dir r) mutex fs fs'"
    unfolding keeps_files_def
  proof
    assume "dirs_to fs (rp_data_dir r) \<and> no_parent_refs (rp_data_dir r)"
    then have "resolve_entry fs ?p = Inr ?p" by (intro dirs_to_snoc) (simp_all add: packs_name_def)
    then have "create_dir ?p fs = (case fs_get fs ?p of Some n \<Rightarrow> (Inl AlreadyExists, fs) | None \<Rightarrow> (Inr (), fs_put ?p DirNode fs))"
      by (simp add: create_dir_def)
    with run show "adds_marks (rp_data_dir r) mutex fs fs'"
      by (subst (asm) create_dir_all.simps)
        (auto simp: packs_root_def adds_marks_refl adds_marks_def fs_get_put split: option.splits if_splits)
  qed
qed

lemma marks_packs: "stays (keeps_files (rp_data_dir r) mutex) (packs E r)"
  unfolding packs_def by (intro marks.stays_combined marks_io marks_create_packs)

lemma marks_loose_packs: "stays (keeps_files (rp_data_dir r) mutex) (loose_packs E r)"
proof -
  have "stays (keeps_files (rp_data_dir r) mutex) (\<lambda>fs. ret (sort_key (loose_key E r fs) (filter (is_pack_loose E r fs) ids)) fs)" for ids
    by (simp add: stays_def ret_def marks.same)
  then show ?thesis unfolding loose_packs_def by (intro marks.stays_andThen marks_packs)
qed

lemma marks_find_snapshot: "stays (keeps_files (rp_data_dir r) mutex) (find_snapshot E r s)"
  unfolding find_snapshot_def find_pack_with_snapshot_def
  by (auto split: sum.splits intro!: marks.stays_combined marks_packs)

lemmas marks_intros = marks.stays_combined marks_lib marks_io marks_packs marks_loose_packs marks_find_snapshot

subsection \<open>Opening\<close>

text \<open>A path that was resolved is real: directories above it and no link at its end.\<close>

lemma walk_real:
  "walk links fs True cur cs = Inr q \<Longrightarrow> dirs_to fs cur \<Longrightarrow> no_parent_refs cur \<Longrightarrow>
     dirs_above fs q \<and> no_parent_refs q \<and> (\<forall>t. fs_get fs q \<noteq> Some (LinkNode t))"
proof (induction links fs True cur cs rule: walk.induct)
  case (1 links fs cur)
  then show ?case by (auto simp: dirs_to_def dirs_above_def strict_prefix_def)
next
  case (2 links fs cur c cs)
  have up: "dirs_to fs (butlast cur)" "no_parent_refs (butlast cur)"
    using "2.prems"(2,3) prefixeq_butlast [of cur] by (auto simp: dirs_to_def no_parent_refs_def dest: in_set_butlastD prefix_order.trans)
  have start: "dirs_to fs (link_start cur t)" "no_parent_refs (link_start cur t)" for t
    using "2.prems"(2,3) by (simp_all add: link_start_def dirs_to_def no_parent_refs_def)
  show ?case
  proof (cases "c = ''..''")
    case True
    with "2.prems"(1) "2.hyps"(1) up show ?thesis by simp
  next
    case c: False
    then have np: "no_parent_refs (cur @ [c])" using "2.prems"(3) by (simp add: no_parent_refs_snoc)
    show ?thesis
    proof (cases "fs_get fs (cur @ [c])")
      case None
      with "2.prems" c np show ?thesis by (auto simp: dirs_above_snoc split: if_splits)
    next
      case (Some n)
      show ?thesis
      proof (cases n)
        case (FileNode d m)
        with Some "2.prems" c np show ?thesis by (auto simp: dirs_above_snoc split: if_splits)
      next
        case DirNode
        have "dirs_to fs (cur @ [c])" using "2.prems"(2) Some DirNode by (auto simp: dirs_to_def)
        with Some DirNode "2.prems"(1) "2.hyps"(2) c np show ?thesis by simp
      next
        case (LinkNode t)
        with Some "2.prems"(1) "2.hyps"(3) c start show ?thesis by (simp split: if_splits)
      qed
    qed
  qed
qed

lemma walk_dirs:
  "''..'' \<notin> set ds \<Longrightarrow> (\<And>q. prefix q ds \<Longrightarrow> fs_get fs (cur @ q) = Some DirNode) \<Longrightarrow>
     walk links fs follow cur (ds @ cs) = walk links fs follow (cur @ ds) cs"
proof (induction ds arbitrary: cur)
  case (Cons d ds)
  have "fs_get fs (cur @ [d]) = Some DirNode" using Cons.prems(2) [of "[d]"] by simp
  moreover have "fs_get fs ((cur @ [d]) @ q) = Some DirNode" if "prefix q ds" for q
    using Cons.prems(2) [of "d # q"] that by simp
  ultimately show ?case using Cons.IH [of "cur @ [d]"] Cons.prems(1) by auto
qed simp

text \<open>The canonical data directory is a real directory when the mutex below it can be reached.\<close>

lemma canonical_dir:
  assumes "canonicalize fs d = Inr dd" "resolve_target fs (dd @ [c]) = Inr q"
  shows "dirs_to fs dd" "no_parent_refs dd"
proof -
  obtain n where n: "resolve_target fs d = Inr dd" "fs_get fs dd = Some n"
    using assms(1) by (auto simp: canonicalize_def metadata_def result_simps)
  then have real: "dirs_above fs dd" "no_parent_refs dd" "\<forall>t. fs_get fs dd \<noteq> Some (LinkNode t)"
    using walk_real [of max_links fs "[]" d dd] by (auto simp: resolve_target_def dirs_to_def no_parent_refs_def)
  show "no_parent_refs dd" by (rule real(2))
  have "fs_get fs dd = Some DirNode"
  proof (cases dd rule: rev_cases)
    case (snoc ds x)
    have "walk max_links fs True [] (ds @ [x, c]) = walk max_links fs True ds [x, c]"
      using real(1,2) snoc walk_dirs [of ds fs "[]" max_links True "[x, c]"]
      by (simp add: dirs_above_snoc dirs_to_def no_parent_refs_def)
    with assms(2) n(2) real(2,3) snoc show ?thesis
      by (cases n) (auto simp: resolve_target_def no_parent_refs_def)
  qed simp
  with real(1) show "dirs_to fs dd"
    by (auto simp: dirs_to_def dirs_above_def strict_prefix_def)
qed

text \<open>
  The effect of a command that opens the repository at \<^term>\<open>d\<close>: nothing, or what \<^const>\<open>adds_marks\<close>
  allows for the canonical data directory and the file that its \<^verbatim>\<open>mutex\<close> leads to.
\<close>

definition opening_adds :: "path \<Rightarrow> fs \<Rightarrow> fs \<Rightarrow> bool" where
  "opening_adds d fs fs' \<longleftrightarrow> fs' = fs \<or>
     (\<exists>dd mutex. canonicalize fs d = Inr dd \<and> resolve_target fs (dd @ [''mutex'']) = Inr mutex \<and> adds_marks dd mutex fs fs')"

lemma opening_adds_refl: "opening_adds d fs fs"
  by (simp add: opening_adds_def)

definition opens_only :: "path \<Rightarrow> ('e, 'a) fs_op \<Rightarrow> bool" where
  "opens_only d m \<longleftrightarrow> (\<forall>fs x fs'. m fs = (x, fs') \<longrightarrow> opening_adds d fs fs')"

lemma walk_errors: "walk links fs follow cur cs = Inl e \<Longrightarrow> e \<in> {NotFound, NotADirectory, OtherIo}"
  by (induction links fs follow cur cs rule: walk.induct) (auto split: if_splits option.splits node.splits)

lemma open_rw_effect:
  assumes "open_rw p fs = (x, fs')"
  shows "fs' = fs \<and> (\<exists>e \<in> {NotFound, NotADirectory, OtherIo}. x = Inl e) \<or>
    (\<exists>q. resolve_target fs p = Inr q \<and>
      (fs' = fs \<or> fs_get fs q = None \<and> fs' = fs_put q (FileNode [] created_mode) fs))"
proof (cases "resolve_target fs p")
  case (Inl e)
  then show ?thesis using assms walk_errors [of max_links fs True "[]" p e]
    by (auto simp: resolve_target_def open_rw_def andThen_def open_for_write_def)
next
  case (Inr q)
  then show ?thesis using assms
    by (auto simp: open_rw_def andThen_def open_for_write_def query_def ret_def
        split: option.splits node.splits if_splits sum.splits)
qed

lemma open_with_effect:
  assumes "open_with_data_dir E p d fs = (x, fs')"
  shows "fs' = fs \<and> \<not> is_ok x \<or>
    (\<exists>dd mutex. canonicalize fs d = Inr dd \<and> resolve_target fs (dd @ [''mutex'']) = Inr mutex \<and>
      adds_marks dd mutex fs fs' \<and> (\<forall>r. x = Inr r \<longrightarrow> rp_data_dir r = dd))"
proof (cases "path_exists fs d \<and> is_ok (canonicalize fs d)")
  case False
  then show ?thesis using assms by (auto simp: open_with_data_dir_def split: if_splits sum.splits)
next
  case True
  then obtain dd where dd: "canonicalize fs d = Inr dd" by (cases "canonicalize fs d") auto
  obtain y fs1 where o: "open_rw (dd @ [''mutex'']) fs = (y, fs1)" by fastforce
  have run: "fs' = fs1" "x = Inr r \<Longrightarrow> rp_data_dir r = dd" "y = Inl e \<Longrightarrow> e \<noteq> PermissionDenied \<Longrightarrow> e \<noteq> ReadOnlyFilesystem \<Longrightarrow> \<not> is_ok x" for r e
    using assms True dd o
    by (auto simp: open_with_data_dir_def Let_def result_simps split: sum.splits if_splits lock_answer.splits)
  from open_rw_effect [OF o] show ?thesis
  proof
    assume "fs1 = fs \<and> (\<exists>e \<in> {NotFound, NotADirectory, OtherIo}. y = Inl e)"
    then show ?thesis using run by auto
  next
    assume "\<exists>q. resolve_target fs (dd @ [''mutex'']) = Inr q \<and>
      (fs1 = fs \<or> fs_get fs q = None \<and> fs1 = fs_put q (FileNode [] created_mode) fs)"
    then show ?thesis using run dd by (auto simp: adds_marks_refl intro: adds_mutex)
  qed
qed

text \<open>The rest of a command, after the opening in either of its two forms.\<close>

lemma opens_only_andThen:
  fixes op0 :: "('e, repository) fs_op"
  assumes op0: "\<And>fs y fs1. op0 fs = (y, fs1) \<Longrightarrow>
      \<exists>z. open_repo_from_cwd P E d fs = (z, fs1) \<and> (\<forall>r. y = Inr r \<longrightarrow> z = Inr r)"
    and f: "\<And>r mutex. stays (keeps_files (rp_data_dir r) mutex) (f r)"
  shows "opens_only (path_push (ps_cwd P) d) (andThen op0 f)"
  unfolding opens_only_def opening_adds_def
proof (intro allI impI)
  fix fs x fs' assume run: "andThen op0 f fs = (x, fs')"
  obtain z fs1 where o: "op0 fs = (z, fs1)" by fastforce
  then obtain y where y: "open_with_data_dir E (ps_cwd P) (path_push (ps_cwd P) d) fs = (y, fs1)" "z = Inr r \<Longrightarrow> y = Inr r" for r
    using op0 unfolding open_repo_from_cwd_def by metis
  have run: "fs' = fs1 \<or> (\<exists>r. y = Inr r \<and> f r fs1 = (x, fs'))"
    using run o y(2) by (auto simp: andThen_def split: sum.splits)
  from open_with_effect [OF y(1)] show "fs' = fs \<or> (\<exists>dd mutex. canonicalize fs (path_push (ps_cwd P) d) = Inr dd \<and>
      resolve_target fs (dd @ [''mutex'']) = Inr mutex \<and> adds_marks dd mutex fs fs')"
  proof (elim disjE exE conjE)
    assume "fs1 = fs" "\<not> is_ok y"
    then show ?thesis using run by auto
  next
    fix dd mutex assume dd: "canonicalize fs (path_push (ps_cwd P) d) = Inr dd"
      "resolve_target fs (dd @ [''mutex'']) = Inr mutex" "adds_marks dd mutex fs fs1" "\<forall>r. y = Inr r \<longrightarrow> rp_data_dir r = dd"
    from run have "adds_marks dd mutex fs1 fs'"
    proof
      assume "fs' = fs1" then show ?thesis by (simp add: adds_marks_refl)
    next
      assume "\<exists>r. y = Inr r \<and> f r fs1 = (x, fs')"
      then obtain r where r: "rp_data_dir r = dd" "f r fs1 = (x, fs')" using dd(4) by auto
      with staysD [OF f r(2)] canonical_dir [OF dd(1,2)] show ?thesis
        by (metis keeps_files_def adds_marks_dirs dd(3))
    qed
    with dd show ?thesis by (metis adds_marks_trans)
  qed
qed

lemma opens_only_lib: "opens_only d m \<Longrightarrow> opens_only d (lib m)"
  unfolding opens_only_def by (auto simp: lib_def lift_err_def split: prod.splits)

lemma lib_opening: "lib m fs = (y, fs1) \<Longrightarrow> \<exists>z. m fs = (z, fs1) \<and> (\<forall>r. y = Inr r \<longrightarrow> z = Inr r)"
  by (cases "m fs"; cases "fst (m fs)") (auto simp: lib_def lift_err_def)

lemma marks_gc_packs: "stays (keeps_files dd mutex) (gc_packs E r True ps roots freed)"
  by (induction ps arbitrary: roots freed) (auto intro!: marks_intros)

lemma marks_gc_objects: "stays (keeps_files dd mutex) (gc_objects E r True cs freed)"
  by (induction cs arbitrary: freed) (auto intro!: marks_intros)

lemma marks_gc_sweep: "stays (keeps_files (rp_data_dir r) mutex) (gc_sweep E r True snapshots objects)"
  unfolding gc_sweep_def find_redundant_loose_packs_def
  by (intro marks_intros marks_gc_packs marks_gc_objects)

lemma marks_gc_run:
  "stays (keeps_files (rp_data_dir r) mutex) (\<lambda>fs. case gc_run E r True snapshots objects fs of (x, _, fs) \<Rightarrow> (x, fs))"
  by (rule staysI) (auto simp: gc_run_def Let_def lift_err_def marks.same split: if_splits prod.splits
      intro: staysD [OF marks_gc_sweep])

lemma gc_opens_only: "opens_only (path_push (ps_cwd P) d) (gc_command P E d True snapshots objects)"
proof (cases "\<not> snapshots \<and> \<not> objects")
  case True
  then show ?thesis by (simp add: gc_command_def opens_only_def err_def opening_adds_refl)
next
  case False
  then have "gc_command P E d True snapshots objects = andThen (lib (open_repo_from_cwd P E d))
      (\<lambda>r fs. case gc_run E r True snapshots objects fs of (x, _, fs) \<Rightarrow> (x, fs))"
    by (auto simp: gc_command_def)
  then show ?thesis using marks_gc_run lib_opening by (simp only:) (rule opens_only_andThen)
qed

lemmas opens_intros = opens_only_lib opens_only_andThen marks_intros

lemma list_opens_only: "opens_only (path_push (ps_cwd P) d) (list_run P E d names fmt)"
  unfolding list_run_def by (intro opens_intros) auto

lemma list_packs_opens_only: "opens_only (path_push (ps_cwd P) d) (list_packs_run P E d fmt)"
  unfolding list_packs_run_def by (intro opens_intros) auto

lemma list_files_opens_only: "opens_only (path_push (ps_cwd P) d) (list_files_run P E d s fmt)"
  unfolding list_files_run_def by (intro opens_intros) auto

lemma find_opens_only: "opens_only (path_push (ps_cwd P) d) (find_run P E d term)"
  unfolding find_run_def by (intro opens_intros) auto

text \<open>\<^verbatim>\<open>show\<close> is not among the commands that only read: it downloads a pack that is missing.\<close>

fun read_only :: "subcommand \<Rightarrow> bool" where
  "read_only (RunList names fmt) = True"
| "read_only (RunListPacks fmt) = True"
| "read_only (RunListFiles s fmt) = True"
| "read_only (RunFind term) = True"
| "read_only (RunGc dry snapshots objects) = dry"
| "read_only (RunEsi given c) = (given \<or> (\<exists>p. c = EsiList p))"
| "read_only (RunHelp text) = True"
| "read_only _ = False"

lemma returning_opens:
  assumes "opens_only d m"
  shows "\<exists>x fs'. returning f m (n, fs) = Some (x, n, fs') \<and> opening_adds d fs fs'"
proof (cases "m fs")
  case (Pair x fs')
  then show ?thesis using assms unfolding opens_only_def
    by (intro exI [of _ "outcome_of f x"] exI [of _ fs']) (auto simp: returning_def)
qed

text \<open>C7: The commands that only read (\<^verbatim>\<open>list\<close>, \<^verbatim>\<open>list-packs\<close>, \<^verbatim>\<open>list-files\<close>, \<^verbatim>\<open>find\<close>,
  \<^verbatim>\<open>gc --dry-run\<close>, \<^verbatim>\<open>esi list\<close> and the help) end, with a result, an error or a panic, whatever the file
  system and their arguments are.  They leave every file, link and directory as it is, and the counter of
  staging files.  The only paths that may be new are two: the directory \<^verbatim>\<open>packs\<close> of the canonical data
  directory, and one empty file, the one that the path \<^verbatim>\<open>mutex\<close> of that directory leads to.\<close>

theorem read_only_commands:
  assumes "read_only c"
  shows "\<exists>x fs'. run_subcommand P E X d c (n, fs) = Some (x, n, fs') \<and> (fs' = fs \<or>
    (\<exists>dd mutex. canonicalize fs (path_push (ps_cwd P) d) = Inr dd \<and>
      resolve_target fs (dd @ [''mutex'']) = Inr mutex \<and>
      (\<forall>p. fs_get fs' p = fs_get fs p \<or> fs_get fs p = None \<and>
        (p = dd @ [''packs''] \<and> fs_get fs' p = Some DirNode \<or>
         p = mutex \<and> fs_get fs' p = Some (FileNode [] created_mode)))))"
proof -
  have "\<exists>x fs'. run_subcommand P E X d c (n, fs) = Some (x, n, fs') \<and> opening_adds (path_push (ps_cwd P) d) fs fs'"
  proof (cases c)
    case (RunEsi given e)
    then have "given \<or> (\<exists>p. e = EsiList p)" using assms by simp
    then show ?thesis using RunEsi by (auto simp: opening_adds_refl esi_run_def Let_def split: esi_command.split)
  qed (use assms in \<open>simp_all add: opening_adds_refl returning_opens list_opens_only list_packs_opens_only list_files_opens_only
      find_opens_only gc_opens_only\<close>)
  then show ?thesis unfolding opening_adds_def adds_marks_def packs_name_def .
qed

lemma read_only_commands_witness:
  "read_only (RunGc True True True) \<and>
    (\<exists>x fs'. run_subcommand sample_process plain_env cmd_env ''/d'' (RunGc True True True) (0, cli_fs) = Some (x, 0, fs') \<and>
      (\<forall>p. fs_get fs' p = fs_get cli_fs p))"
proof -
  have p: "path_push [''w''] ''/d'' = [''d'']" by code_simp
  have paths: "canonicalize cli_fs [''d''] = Inr [''d'']" "resolve_target cli_fs [''d'', ''mutex''] = Inr [''d'', ''mutex'']"
    by (simp_all add: canonicalize_def metadata_def resolve_target_def max_links_def cli_fs_def fs_get_def)
  have there: "fs_get cli_fs [''d'', ''mutex''] \<noteq> None" "fs_get cli_fs [''d'', ''packs''] \<noteq> None"
    by (simp_all add: cli_fs_def fs_get_def)
  have cwd: "path_push (ps_cwd sample_process) ''/d'' = [''d'']" using p by (simp add: sample_process_def)
  obtain x fs' where run: "run_subcommand sample_process plain_env cmd_env ''/d'' (RunGc True True True) (0, cli_fs) = Some (x, 0, fs')"
    and same: "fs' = cli_fs \<or> (\<forall>p. fs_get fs' p = fs_get cli_fs p \<or> fs_get cli_fs p = None \<and>
      (p = [''d'', ''packs''] \<and> fs_get fs' p = Some DirNode \<or> p = [''d'', ''mutex''] \<and> fs_get fs' p = Some (FileNode [] created_mode)))"
    using read_only_commands [of "RunGc True True True" sample_process plain_env cmd_env "''/d''" 0 cli_fs] paths
    unfolding cwd by auto
  have "fs_get fs' p = fs_get cli_fs p" for p using same there by metis
  then show ?thesis using run by simp
qed

end
