(* ===== verification/PackExplode.thy ===== *)
theory PackExplode
  imports PackProps RepoProps StoreProps
begin

text \<open>
  Exploding a pack: its objects go back to the loose store under the names of their checksums,
  also when the store was emptied since the pack was created.
\<close>

subsection \<open>The entries of the objects\<close>

definition object_pack_path :: "env \<Rightarrow> checksum \<Rightarrow> pack_path" where
  "object_pack_path E c =
     (let s = hex_encode (e_hex E) c in PackPath (take 2 s @ CHR ''/'' # take 2 (drop 2 s) @ CHR ''/'' # drop 4 s))"

lemma hex_component: "list_all is_hex_lower s \<Longrightarrow> s \<noteq> [] \<Longrightarrow> component_ok s"
proof -
  have "\<not> is_hex_lower (CHR ''/'')" "\<not> is_hex_lower (CHR ''.'')" "\<not> is_hex_lower (CHR 0x00)"
    by (simp_all add: is_hex_lower_def is_ascii_digit_def byte_val_def)
  then show "list_all is_hex_lower s \<Longrightarrow> s \<noteq> [] \<Longrightarrow> component_ok s"
    by (auto simp: component_ok_def list_all_iff)
qed

lemma object_path:
  assumes hex: "hex_ok (e_hex E)" and len: "length c = 20"
  shows "loose_root r @ components (object_pack_path E c) = loose_object_path E r c"
    and "pack_path_ok (object_pack_path E c)"
    and "\<exists>a b d. components (object_pack_path E c) = [a, b, d]"
    and "components (object_pack_path E c) \<noteq> [] \<and> no_parent_refs (components (object_pack_path E c))"
proof -
  let ?s = "hex_encode (e_hex E) c"
  have s: "list_all is_hex_lower ?s" "length ?s = 40" using hex_okD(2,3) [OF hex] len by simp_all
  have ok: "component_ok (take 2 ?s)" "component_ok (take 2 (drop 2 ?s))" "component_ok (drop 4 ?s)"
    using s by (auto intro!: hex_component simp: list_all_iff dest!: in_set_takeD in_set_dropD)
  then have cs: "components (object_pack_path E c) = [take 2 ?s, take 2 (drop 2 ?s), drop 4 ?s]"
    using split_on_join_with [of "[take 2 ?s, take 2 (drop 2 ?s), drop 4 ?s]" "CHR ''/''"]
    by (simp add: components_def object_pack_path_def Let_def component_ok_def)
  show "loose_root r @ components (object_pack_path E c) = loose_object_path E r c"
    by (simp add: cs loose_object_path_def Let_def)
  show "pack_path_ok (object_pack_path E c)" using ok cs by (simp add: pack_path_ok_def)
  show "\<exists>a b d. components (object_pack_path E c) = [a, b, d]" using cs by blast
  show "components (object_pack_path E c) \<noteq> [] \<and> no_parent_refs (components (object_pack_path E c))"
    using ok cs by (auto simp: no_parent_refs_def component_ok_def)
qed

definition object_entry :: "env \<Rightarrow> checksum \<Rightarrow> object_metadata \<Rightarrow> file_entry" where
  "object_entry E c om = \<lparr>fe_path = object_pack_path E c, fe_checksum = c, fe_object = om, fe_metadata = Regular 0x1A4\<rparr>"

lemma object_metadata_known:
  assumes wf: "index_tables_wf idx" and c: "c \<in> set (object_checksums idx)"
  shows "\<exists>h om. get_object_metadata idx c = (Inr om :: 'e failure + _) \<and>
    map_of (object_table idx) h = Some om \<and> pool_lookup (object_pool idx) h = Some c"
proof -
  have pool: "pool_wf (object_pool idx)" using wf by (simp add: index_tables_wf_def)
  obtain h where h: "pool_get (object_pool idx) c = Some h"
    using pool_get_None_iff [OF pool, of c] c by (cases "pool_get (object_pool idx) c") (auto simp: object_checksums_def)
  then have l: "pool_lookup (object_pool idx) h = Some c" using pool_get_Some_iff [OF pool] by blast
  then have "unat h < length (pool_entries (object_pool idx))" by (auto simp: pool_lookup_def split: if_splits)
  then have "h \<in> fst ` set (object_table idx)"
    using wf by (auto simp: index_tables_wf_def simp flip: list.set_map intro!: image_eqI [of _ _ "unat h"])
  then obtain om where "map_of (object_table idx) h = Some om" by (metis map_of_eq_None_iff not_None_eq)
  with h l show ?thesis by (auto simp: get_object_metadata_def unwrap_def)
qed

lemma explode_entries:
  assumes wf: "index_tables_wf idx" and hex: "hex_ok (e_hex E)" and len: "\<forall>c \<in> set (object_checksums idx). length c = 20"
  shows "\<exists>es. collect (explode_entry E idx) (object_checksums idx) = Inr es \<and> map fe_checksum es = object_checksums idx \<and>
    (\<forall>e \<in> set es. e = object_entry E (fe_checksum e) (fe_object e) \<and>
      (\<exists>h. map_of (object_table idx) h = Some (fe_object e) \<and> pool_lookup (object_pool idx) h = Some (fe_checksum e)))"
proof -
  have one: "\<exists>om h. explode_entry E idx c = Inr (object_entry E c om) \<and> map_of (object_table idx) h = Some om \<and>
      pool_lookup (object_pool idx) h = Some c" if c: "c \<in> set (object_checksums idx)" for c
  proof -
    obtain h om where o: "get_object_metadata idx c = (Inr om :: error failure + _)"
        "map_of (object_table idx) h = Some om" "pool_lookup (object_pool idx) h = Some c"
      using object_metadata_known [OF wf c] by blast
    have "pack_path_new (as_bytes (object_pack_path E c)) = Inr (object_pack_path E c)"
      using object_path(2) [OF hex] len c by (intro pack_path_new_ok) blast
    then show ?thesis using o by (auto simp: explode_entry_def object_entry_def object_pack_path_def Let_def)
  qed
  then obtain m where m: "\<forall>c \<in> set (object_checksums idx). explode_entry E idx c = Inr (object_entry E c (m c)) \<and>
      (\<exists>h. map_of (object_table idx) h = Some (m c) \<and> pool_lookup (object_pool idx) h = Some c)"
    by metis
  let ?es = "map (\<lambda>c. object_entry E c (m c)) (object_checksums idx)"
  have "collect (explode_entry E idx) (object_checksums idx) = Inr ?es"
    using m by (simp add: collect_Inr_iff list_all2_conv_all_nth)
  moreover have "map fe_checksum ?es = object_checksums idx" by (simp add: comp_def object_entry_def)
  ultimately show ?thesis using m by (intro exI [of _ ?es]) (auto simp: object_entry_def)
qed

subsection \<open>The checks before the extraction\<close>

lemma same_depth_policy:
  assumes "distinct ps" "\<And>p. p \<in> set ps \<Longrightarrow> length (components p) = n"
  shows "preflight_path_policy U ps Unix = Inr ()"
proof -
  have "collect (target_path_key U Unix) ps = Inr (map components ps)"
    by (simp add: collect_Inr_iff list_all2_conv_all_nth unix_keys)
  moreover have "distinct (map components ps)"
    using assms(1) components_same by (auto simp: distinct_map inj_on_def)
  moreover have "\<not> strict_prefix (components p) (components q)" if "p \<in> set ps" "q \<in> set ps" for p q
    using assms(2) that prefix_length_less by fastforce
  ultimately show ?thesis
    using assms(1) unfolding preflight_path_policy_iff policy_ok_def by auto
qed

text \<open>The loose store after it was removed: a directory without anything, or nothing at all.\<close>

lemma ancestors_absent:
  assumes above: "\<And>q. strict_prefix q out \<Longrightarrow> fs_get fs q = Some DirNode" and out: "no_parent_refs out" "out \<noteq> []"
    and empty: "fs_get fs out = None" and ps: "\<And>p. p \<in> set ps \<Longrightarrow> pack_path_ok p"
  shows "preflight_destination_ancestors fs out ps [] = Inr ()"
  using ps
proof (induction ps)
  case Nil
  then show ?case by simp
next
  case (Cons p ps)
  have "symlink_metadata fs (out @ [c]) = Inl NotFound" if "c \<noteq> ''..''" for c
  proof -
    have "resolve_entry fs (out @ [c]) = Inl NotFound"
      unfolding resolve_entry_def
      using walk_missing [of "out @ [c]" out fs "[]" max_links False] above empty out that
      by (simp add: no_parent_refs_def strict_prefix_def)
    then show ?thesis by (simp add: symlink_metadata_def)
  qed
  moreover have "''..'' \<notin> set (butlast (components p))"
    using Cons.prems [of p] by (auto simp: pack_path_ok_def component_ok_def list_all_iff dest: in_set_butlastD)
  ultimately have "check_destination_ancestors fs out (components p) [] = Inr ()"
    by (cases "butlast (components p)") (auto simp: check_destination_ancestors_def)
  with Cons show ?case by (simp add: native_path_ok)
qed

lemma regular_no_links: "(\<And>e. e \<in> set es \<Longrightarrow> \<exists>m. fe_metadata e = Regular m) \<Longrightarrow> link_kinds es = []"
proof (induction es)
  case (Cons e es)
  then obtain m where "fe_metadata e = Regular m" by auto
  with Cons show ?case by (simp add: link_kinds_def List.map_filter_simps)
qed (simp add: link_kinds_def List.map_filter_simps)

subsection \<open>Exploding\<close>

text \<open>Names that the temporary files of the extraction do not collide with.\<close>

definition tmp_apart :: "env \<Rightarrow> repository \<Rightarrow> checksum list \<Rightarrow> bool" where
  "tmp_apart E r cs \<longleftrightarrow> (\<forall>c \<in> set cs. e_tmp E (loose_object_path E r c) \<noteq> ''..'' \<and>
     (\<forall>c' \<in> set cs. e_tmp E (loose_object_path E r c) \<notin> set (loose_object_path E r c')))"

definition store_emptied :: "repository \<Rightarrow> fs \<Rightarrow> bool" where
  "store_emptied r fs \<longleftrightarrow> fs_wf fs \<and> fs_get fs (rp_data_dir r) = Some DirNode \<and>
     (\<forall>q. prefix (loose_root r) q \<longrightarrow> fs_get fs q = None)"

lemma emptied_above:
  assumes "store_emptied r fs" "strict_prefix q (loose_root r)"
  shows "fs_get fs q = Some DirNode"
proof -
  have "dirs_above fs (loose_root r)"
    using assms(1) dirs_to_get [of fs "rp_data_dir r"] by (simp add: store_emptied_def loose_root_def dirs_above_snoc)
  with assms(2) show ?thesis by (simp add: dirs_above_def)
qed

lemma emptied_targets_free:
  assumes em: "store_emptied r fs" and np: "no_parent_refs (rp_data_dir r)" and hex: "hex_ok (e_hex E)"
    and len: "\<forall>c \<in> set cs. length c = 20" and tmp: "tmp_apart E r cs"
  shows "targets_free fs (loose_object_path E r ` set cs) (e_tmp E)"
    and "antichain (loose_object_path E r ` set cs)"
    and "distinct cs \<Longrightarrow> distinct (map (loose_object_path E r) cs)"
proof -
  have wf: "fs_wf fs" and dd: "fs_get fs (rp_data_dir r) = Some DirNode"
    and none: "\<And>q. prefix (loose_root r) q \<Longrightarrow> fs_get fs q = None" using em by (auto simp: store_emptied_def)
  have root: "loose_root r = rp_data_dir r @ [loose_name]" by (simp add: loose_root_def)
  note dirs = emptied_above [OF em]
  have parts: "\<exists>a b d. loose_object_path E r c = loose_root r @ [a, b, d] \<and> no_parent_refs [a, b, d]" if "c \<in> set cs" for c
    using object_path(1,3,4) [OF hex] len that by metis
  have npr: "no_parent_refs (loose_root r)"
    using np by (simp add: root no_parent_refs_snoc loose_name_def)
  show "targets_free fs (loose_object_path E r ` set cs) (e_tmp E)"
    unfolding targets_free_def
  proof (intro ballI conjI)
    fix p assume "p \<in> loose_object_path E r ` set cs"
    then obtain c where c: "c \<in> set cs" "p = loose_object_path E r c" by blast
    then obtain a b d where p: "p = loose_root r @ [a, b, d]" "no_parent_refs [a, b, d]" using parts by blast
    have "fs_get fs q = None \<or> fs_get fs q = Some DirNode" if q: "prefix q (loose_root r @ [a, b])" for q
    proof (cases "prefix (loose_root r) q")
      case False
      then have "strict_prefix q (loose_root r)" using q prefix_same_cases [of q _ "loose_root r"] by (auto simp: strict_prefix_def)
      then show ?thesis using dirs by blast
    qed (simp add: none)
    then have "dirs_or_missing fs (loose_root r @ [a, b])" by (simp add: dirs_or_missing_def)
    then show "writable_at fs p"
      using p npr none [of p] by (simp add: writable_at_def butlast_append no_parent_refs_def)
    have "e_tmp E p \<notin> set p" "e_tmp E p \<noteq> ''..''" using tmp c by (auto simp: tmp_apart_def)
    moreover have "last p \<in> set p" by (simp add: p(1))
    moreover have "fs_get fs (butlast p @ [x]) = None" for x by (simp add: none p(1) butlast_append)
    ultimately show "temp_free fs p (e_tmp E p)" by (auto simp: temp_free_def)
    show "e_tmp E p \<notin> set q" if "q \<in> loose_object_path E r ` set cs" for q
      using tmp c that by (auto simp: tmp_apart_def)
  qed
  show "antichain (loose_object_path E r ` set cs)"
  proof -
    have same: "length p = length (loose_root r) + 3" if p: "p \<in> loose_object_path E r ` set cs" for p
    proof -
      from p obtain c where c: "c \<in> set cs" "p = loose_object_path E r c" by blast
      from parts [OF c(1)] obtain a b d where "loose_object_path E r c = loose_root r @ [a, b, d]" by blast
      with c(2) show ?thesis by simp
    qed
    show ?thesis
      unfolding antichain_def
    proof (intro ballI notI)
      fix p q assume "p \<in> loose_object_path E r ` set cs" "q \<in> loose_object_path E r ` set cs" "strict_prefix p q"
      then show False using same [of p] same [of q] prefix_length_less [of p q] by simp
    qed
  qed
  show "distinct cs \<Longrightarrow> distinct (map (loose_object_path E r) cs)"
    using loose_object_path_inj [OF hex] len by (auto simp: distinct_map inj_on_def)
qed

text \<open>The pack of an index restores every object of the index.\<close>

lemma explode_ok:
  assumes em: "store_emptied r fs" and np: "no_parent_refs (rp_data_dir r)" and hex: "hex_ok (e_hex E)"
    and len: "\<forall>c \<in> set (object_checksums idx). length c = 20" and tmp: "tmp_apart E r (object_checksums idx)"
    and wf: "index_tables_wf idx" and load: "load_index E r fs pack = Inr idx" and loose: "\<not> is_pack_loose E r fs pack"
    and pk: "open_reader E r fs pack = Inr pk" "frames_match pk Fs"
    and lay: "\<And>es. (\<And>e. e \<in> set es \<Longrightarrow> \<exists>h. map_of (object_table idx) h = Some (fe_object e) \<and>
        pool_lookup (object_pool idx) h = Some (fe_checksum e)) \<Longrightarrow>
      layout_ok (concat Fs) es \<and> (\<forall>e \<in> set es. object_at (concat Fs) e = data (fe_checksum e))"
  shows "\<exists>fs'. explode_pack E r pack fs = (Inr (), fs') \<and> fs_wf fs' \<and>
    (\<forall>c \<in> set (object_checksums idx). fs_get fs' (loose_object_path E r c) = Some (FileNode (data c) 0x1A4))"
proof -
  let ?cs = "object_checksums idx" and ?out = "loose_root r"
  have distinct: "distinct ?cs" using wf by (simp add: index_tables_wf_def pool_wf_def object_checksums_def)
  note free = emptied_targets_free [OF em np hex len tmp]
  obtain es where es: "collect (explode_entry E idx) ?cs = Inr es" "map fe_checksum es = ?cs"
      "\<forall>e \<in> set es. e = object_entry E (fe_checksum e) (fe_object e) \<and>
        (\<exists>h. map_of (object_table idx) h = Some (fe_object e) \<and> pool_lookup (object_pool idx) h = Some (fe_checksum e))"
    using explode_entries [OF wf hex len] by blast
  have cs: "fe_checksum e \<in> set ?cs" if "e \<in> set es" for e using es(2) that by (metis image_eqI list.set_map)
  have entry: "fe_path e = object_pack_path E (fe_checksum e)" "fe_metadata e = Regular 0x1A4" if "e \<in> set es" for e
    using es(3) that by (metis file_entry.select_convs object_entry_def)+
  have out: "output_path ?out e = loose_object_path E r (fe_checksum e)" if "e \<in> set es" for e
    using object_path(1) [OF hex] len cs [OF that] entry(1) [OF that] by (simp add: output_path_def)
  then have outs: "map (output_path ?out) es = map (loose_object_path E r) ?cs"
    using es(2) by (metis (no_types, lifting) list.map_comp comp_apply map_cong)
  then have outset: "output_path ?out ` set es = loose_object_path E r ` set ?cs" by (metis list.set_map)
  have layout: "layout_ok (concat Fs) es" "\<And>e. e \<in> set es \<Longrightarrow> object_at (concat Fs) e = data (fe_checksum e)"
    using lay [of es] es(3) by blast+
  have ok: "pack_path_ok (fe_path e)" if "e \<in> set es" for e
    using object_path(2) [OF hex] len cs entry(1) that by simp
  have "extractable (e_sha1 E) False (object_at (concat Fs) e) e" if "e \<in> set es" for e
  proof -
    have "in_range (concat Fs) e" using layout(1) that by (simp add: layout_ok_def list_all_iff)
    then show ?thesis using ok entry(2) that by (simp add: extractable_def in_range_def object_at_def)
  qed
  then obtain fs' where x: "PackFile.extract_entries (e_sha1 E) pk es ?out False 8 (\<lambda>e. e_tmp E (output_path ?out e)) fs = (Inr (), fs')"
      "all_written fs (entry_writes ?out (concat Fs) es) fs'"
    using extract_entries_ok [OF pk(2) layout(1), of 8 "e_sha1 E" False ?out fs "e_tmp E"] free distinct em
    by (auto simp: outs outset store_emptied_def)
  have tmps: "output_tmp E ?out = (\<lambda>e. e_tmp E (output_path ?out e))"
    by (simp add: fun_eq_iff output_tmp_def output_path_def)
  have "distinct (map fe_path es)"
  proof -
    have "distinct (map (output_path ?out) es)" using free(3) distinct outs by simp
    then show ?thesis by (auto simp: distinct_map inj_on_def output_path_def)
  qed
  then have policy: "preflight_path_policy (e_unicode E) (map fe_path es) Unix = Inr ()"
    using object_path(3) [OF hex] len cs entry(1) by (intro same_depth_policy [where n = 3]) fastforce+
  have "preflight_destination_ancestors fs ?out (map fe_path es) [] = Inr ()"
    using emptied_above [OF em] np em ok by (intro ancestors_absent) (auto simp: store_emptied_def loose_root_def no_parent_refs_snoc loose_name_def)
  moreover have links: "link_kinds es = []" using entry(2) by (intro regular_no_links) blast
  moreover have "extract_entries_preflighted E r pack es ?out
      (default_extract_options\<lparr>xo_verify := False, xo_num_workers := 8\<rparr>) fs = (Inr (), fs')"
    using loose pk(1) x(1) by (simp add: extract_entries_preflighted_def open_or_fetch_def andThen_def tmps)
  ultimately have "repo_extract_entries E r pack es ?out
      (default_extract_options\<lparr>xo_verify := False, xo_num_workers := 8\<rparr>) fs = (Inr (), fs')"
    using policy no_links_no_probe [OF links]
    by (simp add: repo_extract_entries_def andThen_liftr andThen_query andThen_Inr packerr_def)
  then have "explode_pack E r pack fs = (Inr (), fs')"
    using load es(1) by (simp add: explode_pack_def andThen_query)
  moreover have "fs_get fs' (loose_object_path E r c) = Some (FileNode (data c) 0x1A4)" if c: "c \<in> set ?cs" for c
  proof -
    obtain e where e: "e \<in> set es" "fe_checksum e = c" using c es(2) by (metis imageE list.set_map)
    have "distinct (map fst (entry_writes ?out (concat Fs) es))" using free(3) distinct outs by simp
    moreover have "(output_path ?out e, entry_node (object_at (concat Fs) e) e) \<in> set (entry_writes ?out (concat Fs) es)"
      using e by (auto simp: entry_writes_def)
    ultimately have "map_of (entry_writes ?out (concat Fs) es) (loose_object_path E r c) =
        Some (entry_node (object_at (concat Fs) e) e)"
      using out [OF e(1)] e(2) by (metis map_of_is_SomeI)
    moreover have "entry_node (object_at (concat Fs) e) e = FileNode (data c) 0x1A4"
      using entry(2) [OF e(1)] layout(2) [OF e(1)] e(2) by (simp add: entry_node_def permission_bits_def)
    ultimately show ?thesis using x(2) by (simp add: all_written_def)
  qed
  ultimately show ?thesis using x(2) by (auto simp: all_written_def)
qed

subsection \<open>An emptied store\<close>

lemma remove_tree:
  assumes wf: "fs_wf fs" and d: "d \<noteq> []"
  shows "fs_get (filter (\<lambda>(r, _). \<not> prefix d r) fs) q = (if prefix d q then None else fs_get fs q)" (is "fs_get ?fs q = _")
    and "fs_wf (filter (\<lambda>(r, _). \<not> prefix d r) fs)"
proof -
  have map: "map_of (filter (\<lambda>(r, _). \<not> prefix d r) xs) q = (if prefix d q then None else map_of xs q)"
    for xs :: "(path \<times> node) list" and q
    by (induction xs) auto
  show get: "fs_get ?fs q = (if prefix d q then None else fs_get fs q)" for q
    using d by (auto simp: fs_get_def map)
  have "fs_get ?fs (butlast p) = Some DirNode" if p: "p \<in> fst ` set ?fs" for p
  proof -
    have "p \<in> fst ` set fs" "\<not> prefix d p" using p by force+
    then show ?thesis
      using fs_wfD [OF wf, of p] get [of "butlast p"] by (metis append_butlast_last_id prefix_snoc)
  qed
  moreover have "distinct (map fst ?fs)"
    using wf distinct_map_filter [of fst fs] by (simp add: fs_wf_def)
  moreover have "[] \<notin> fst ` set ?fs" using wf by (auto simp: fs_wf_def image_iff)
  ultimately show "fs_wf ?fs" by (simp add: fs_wf_def)
qed

lemma loose_store_removed:
  assumes wf: "fs_wf fs" and root: "fs_get fs (loose_root r) = Some DirNode" and np: "no_parent_refs (rp_data_dir r)"
  shows "\<exists>fs'. remove_loose_all r fs = (Inr (), fs') \<and> store_emptied r fs' \<and>
    (\<forall>q. \<not> prefix (loose_root r) q \<longrightarrow> fs_get fs' q = fs_get fs q)"
proof -
  let ?d = "loose_root r" and ?fs = "filter (\<lambda>(q, _). \<not> prefix (loose_root r) q) fs"
  have d: "?d \<noteq> []" "no_parent_refs ?d" using np by (simp_all add: loose_root_def no_parent_refs_snoc loose_name_def)
  have to: "dirs_to fs ?d" using dirs_to_get [OF wf] root by simp
  have "dirs_above fs ?d" using to by (auto simp: dirs_to_def dirs_above_def strict_prefix_def)
  then have "resolve_entry fs ?d = Inr ?d" using d(2) by (intro resolve_entry_plain)
  then have "remove_loose_all r fs = (Inr (), ?fs)"
    using root d(1) by (simp add: remove_loose_all_def remove_dir_all_def)
  moreover have "fs_get fs (rp_data_dir r) = Some DirNode" using to by (simp add: dirs_to_def loose_root_def)
  then have "store_emptied r ?fs"
    using remove_tree [OF wf d(1)] packs_not_loose(3) [of r] by (simp add: store_emptied_def)
  ultimately show ?thesis using remove_tree(1) [OF wf d(1)] by simp
qed

lemma regular_not_loose: "CHR ''/'' \<notin> set name \<Longrightarrow> \<not> is_pack_loose E r fs (Pack name)"
proof -
  assume "CHR ''/'' \<notin> set name"
  then have "strip_prefix loose_prefix name = None"
    by (auto simp: strip_prefix_None prefix_def loose_prefix_def)
  then show ?thesis by (simp add: is_pack_loose_def)
qed

text \<open>
  The limits of the format: a skippable frame has a length of 32 bits, and offsets in the file have 64.
  The frames are those that the objects are cut into, compressed in any way the encoder may choose.
\<close>

definition pack_fits :: "env \<Rightarrow> pack_index \<Rightarrow> pack_options \<Rightarrow> (checksum \<Rightarrow> bytes) \<Rightarrow> bool" where
  "pack_fits E idx opts data \<longleftrightarrow>
     (\<forall>fr. frames_of E fr (frame_contents idx opts (handle_data idx data)) \<longrightarrow>
        length (header_bytes E fr) < 2 ^ 32 \<and> length (pack_bytes E fr) < 2 ^ 64)"

lemma create_then_explode:
  assumes ready: "pack_ready E r fs name idx opts data" and fits: "pack_fits E idx opts data" and hex: "hex_ok (e_hex E)"
    and root: "fs_get fs (loose_root r) = Some DirNode" and len: "\<forall>c \<in> set (object_checksums idx). length c = 20"
    and tmp: "tmp_apart E r (object_checksums idx)"
  shows "\<exists>fs1 fs2 fs3. create_pack E r (Pack name) idx opts fs = Some (Inr (), fs1) \<and>
    remove_loose_all r fs1 = (Inr (), fs2) \<and> (\<forall>q. prefix (loose_root r) q \<longrightarrow> fs_get fs2 q = None) \<and>
    explode_pack E r (Pack name) fs2 = (Inr (), fs3) \<and>
    (\<forall>c \<in> set (object_checksums idx). fs_read fs3 (loose_object_path E r c) = Inr (data c))"
proof -
  note rd = pack_readyD [OF ready]
  obtain idx' hs where lay: "compute_object_offsets_and_ordering idx = (idx', hs)" by fastforce
  obtain fr Fs fsx fs1 where c: "create_pack E r (Pack name) idx opts fs = Some (Inr (), fs1)"
      "pack_files E r name (pack_bytes E fr) (write_index (e_codec E) idx') fs fs1"
      "frames_of E fr Fs" "Fs \<noteq> []" "concat Fs = concat (map (handle_data idx data) hs)" "objects_present E r fsx idx data"
      "Fs = frame_contents idx opts (handle_data idx data)"
    using create_pack_ok [OF ready lay] by blast
  have sizes: "length (header_bytes E fr) < 2 ^ 32" "length (pack_bytes E fr) < 2 ^ 64"
    using fits c(3,7) by (simp_all add: pack_fits_def)
  note n = regular_name [OF rd(1-3)] and li = layout_index [OF rd(14) lay]
  have pool: "object_pool idx' = object_pool idx"
    using lay by (auto simp: compute_object_offsets_and_ordering_def Let_def)
  have wf1: "fs_wf fs1" and get1: "\<And>q. fs_get fs1 q = (if q = packs_root r @ [name @ ''.pack.idx''] then
        Some (FileNode (write_index (e_codec E) idx') created_mode)
      else if q = packs_root r @ [name @ ''.pack''] then Some (FileNode (pack_bytes E fr) created_mode)
      else if prefix q (packs_root r) then Some DirNode else fs_get fs q)"
    using c(2) by (simp_all add: pack_files_def)
  have "loose_root r \<noteq> packs_root r @ x" for x using packs_not_loose(1) [of r x] by auto
  then have root1: "fs_get fs1 (loose_root r) = Some DirNode" using get1 root by simp
  obtain fs2 where fs2: "remove_loose_all r fs1 = (Inr (), fs2)" "store_emptied r fs2"
      "\<forall>q. \<not> prefix (loose_root r) q \<longrightarrow> fs_get fs2 q = fs_get fs1 q"
    using loose_store_removed [OF wf1 root1 rd(10)] by blast
  have np: "no_parent_refs (packs_root r @ [name @ s])" if "name @ s \<noteq> ''..''" for s
    using rd(10) that by (auto simp: packs_root_def packs_name_def no_parent_refs_def)
  have nn: "name @ s \<noteq> ''..''" for s using no_dot_head [OF n(4,1)] by auto
  have here: "fs_get fs2 (packs_root r @ [name @ ''.pack.idx'']) = Some (FileNode (write_index (e_codec E) idx') created_mode)"
    "fs_get fs2 (packs_root r @ [name @ ''.pack'']) = Some (FileNode (pack_bytes E fr) created_mode)"
    using fs2(3) [rule_format, OF packs_not_loose(1)] by (simp_all add: get1)
  have reads: "fs_read fs2 (packs_root r @ [name @ ''.pack.idx'']) = Inr (write_index (e_codec E) idx')"
    "fs_read fs2 (packs_root r @ [name @ ''.pack'']) = Inr (pack_bytes E fr)"
    using fs2(2) here np [OF nn] pack_file_readable
    by (auto intro!: object_stored_read file_stored simp: store_emptied_def)
  let ?idx = "idx'\<lparr>current := []\<rparr>"
  have cs: "object_checksums ?idx = object_checksums idx" by (simp add: object_checksums_def pool)
  have wf': "index_tables_wf ?idx" using li(1) by (simp add: index_tables_wf_def)
  have load: "load_index E r fs2 (Pack name) = Inr ?idx" by (rule packed_index_loads [OF ready lay reads(1)])
  obtain pk where pk: "open_reader E r fs2 (Pack name) = Inr pk" "frames_match pk Fs"
    using packed_frames_open [OF ready c(3,4) sizes reads(2)] by blast
  have layout: "layout_ok (concat Fs) es \<and> (\<forall>e \<in> set es. object_at (concat Fs) e = data (fe_checksum e))"
    if "\<And>e. e \<in> set es \<Longrightarrow> \<exists>h. map_of (object_table ?idx) h = Some (fe_object e) \<and>
      pool_lookup (object_pool ?idx) h = Some (fe_checksum e)" for es
    unfolding c(5) using built_pack_layout [OF rd(14) lay rd(16) c(6), of es] that by simp
  obtain fs3 where x: "explode_pack E r (Pack name) fs2 = (Inr (), fs3)" "fs_wf fs3"
      "\<forall>c \<in> set (object_checksums idx). fs_get fs3 (loose_object_path E r c) = Some (FileNode (data c) 0x1A4)"
    using explode_ok [OF fs2(2) rd(10) hex _ _ wf' load regular_not_loose [OF rd(3)] pk layout, unfolded cs, OF len tmp]
    by blast
  have "fs_read fs3 (loose_object_path E r c) = Inr (data c)" if o: "c \<in> set (object_checksums idx)" for c
  proof -
    have "no_parent_refs (loose_object_path E r c)"
      using loose_object_no_parent(1) [OF hex _ rd(10)] len o by blast
    moreover have "and (0x1A4 :: u32) owner_read \<noteq> 0" by (simp add: owner_read_def)
    ultimately show ?thesis using x(2,3) o by (intro object_stored_read file_stored) auto
  qed
  with x(1) c(1) fs2(1,2) show ?thesis unfolding store_emptied_def by blast
qed

subsection \<open>The property\<close>

text \<open>C3: Packing loses no object: when the loose store is removed after a pack was created from it,
  exploding the pack writes every object of the index back under the name of its checksum, with its
  bytes.  This holds for every index of loose objects whose pack fits into the limits
  of the format, with free names for the pack and temporary names that are no part of an object path.\<close>

theorem pack_explode_round_trip:
  assumes "pack_ready E r fs name idx opts data" "pack_fits E idx opts data" "hex_ok (e_hex E)"
    and "fs_get fs (loose_root r) = Some DirNode" "\<forall>c \<in> set (object_checksums idx). length c = 20"
    and "tmp_apart E r (object_checksums idx)"
  shows "\<exists>fs1 fs2 fs3. create_pack E r (Pack name) idx opts fs = Some (Inr (), fs1) \<and>
    remove_loose_all r fs1 = (Inr (), fs2) \<and> (\<forall>q. prefix (loose_root r) q \<longrightarrow> fs_get fs2 q = None) \<and>
    explode_pack E r (Pack name) fs2 = (Inr (), fs3) \<and>
    (\<forall>c \<in> set (object_checksums idx). fs_read fs3 (loose_object_path E r c) = Inr (data c))"
  using assms by (rule create_then_explode)

lemma show_nat_length: "n < 10 ^ Suc k \<Longrightarrow> length (show_nat n) \<le> Suc k"
proof (induction k arbitrary: n)
  case (Suc k)
  then have "n div 10 < 10 ^ Suc k" by (simp add: less_mult_imp_div_less mult.commute)
  from Suc.IH [OF this] show ?case by (subst show_nat.simps) simp
qed (simp add: show_nat.simps)

lemma ones_fits: "pack_fits pack_env ones_index ones_options (\<lambda>c. ''xy'')"
proof -
  have table: "object_table ones_index = [(0, \<lparr>om_offset = 0, om_size = 2\<rparr>)]" by (simp add: ones_index_def)
  have "frame_contents ones_index ones_options (handle_data ones_index (\<lambda>c. ''xy'')) = [''xy'']"
    using ones_lookup(1)
    by (simp add: frame_contents_def compute_object_offsets_and_ordering_def table partition_by_u64_def
        clamp_partitions_def part_data_def handle_data_def Let_def size_handles_def ones_options_def)
  moreover have "fr = [(2, ''=x=y'')]" if "frames_of pack_env fr [''xy'']" for fr
    using that by (auto simp: frames_of_def list_all2_Cons2 plain_zstd_def prod_eq_iff)
  moreover have "length (header_bytes pack_env [(2, ''=x=y'')]) \<le> 30"
    using show_nat_length [of "unat pack_header_magic" 19] show_nat_length [of 4 0] show_nat_length [of 2 0]
    by (simp add: header_bytes_def plain_env_def header_new_def header_nats_def nats_text_def frame_record_def
        pack_header_magic_def)
  then have "length (header_bytes pack_env [(2, ''=x=y'')]) < 2 ^ 32 \<and> length (pack_bytes pack_env [(2, ''=x=y'')]) < 2 ^ 64"
    by (simp add: pack_bytes_def header_bytes_def write_skippable_frame_def u32_le_def)
  ultimately show ?thesis unfolding pack_fits_def by metis
qed

theorem pack_explode_round_trip_witness:
  "\<exists>fs1 fs2 fs3. create_pack pack_env sample_repo (Pack ''p'') ones_index ones_options ones_fs = Some (Inr (), fs1) \<and>
    remove_loose_all sample_repo fs1 = (Inr (), fs2) \<and> explode_pack pack_env sample_repo (Pack ''p'') fs2 = (Inr (), fs3) \<and>
    fs_get fs2 [''d'', ''loose'', ''11'', ''11'', replicate 36 (CHR ''1'')] = None \<and>
    fs_read fs3 [''d'', ''loose'', ''11'', ''11'', replicate 36 (CHR ''1'')] = Inr ''xy''"
proof -
  have cs: "object_checksums ones_index = [ones]"
    using pool_deserialize_wf(2) [of "[ones]"] by (simp add: object_checksums_def ones_index_def ones_pools)
  have root: "loose_root sample_repo = [''d'', ''loose'']"
    by (simp add: loose_root_def sample_repo_def loose_name_def)
  then have dir: "fs_get ones_fs (loose_root sample_repo) = Some DirNode"
    by (simp add: ones_fs_def fs_get_def)
  have len: "\<forall>c \<in> set (object_checksums ones_index). length c = 20" by (simp add: cs ones_def)
  have "CHR ''t'' # replicate 36 (CHR ''1'') \<noteq> s" if "CHR ''t'' \<notin> set s" for s using that by auto
  moreover have "CHR ''t'' \<notin> set (replicate 36 (CHR ''1''))" by simp
  ultimately have tmp: "tmp_apart pack_env sample_repo (object_checksums ones_index)"
    by (simp add: tmp_apart_def cs ones_path)
  have hex: "hex_ok (e_hex pack_env)" by (simp add: plain_hex_ok)
  from pack_explode_round_trip [OF ones_ready ones_fits hex dir len tmp] show ?thesis
    by (fastforce simp: cs ones_path root)
qed

end
