(* ===== verification/IndexFile.thy ===== *)
theory IndexFile
  imports StoreProps
begin

text \<open>
  Index files: \<^verbatim>\<open>PackIndex::save\<close> and \<^verbatim>\<open>load\<close> (\<^verbatim>\<open>src/packidx.rs\<close>) over the atomic files and the wire format.
\<close>

fun pack_io_failure :: "io_error failure \<Rightarrow> pack_error failure" where
  "pack_io_failure (Fail e) = Fail (PackIOError e)"
| "pack_io_failure Panicked = Panicked"

definition index_save :: "env \<Rightarrow> path \<Rightarrow> pack_index \<Rightarrow> fs \<Rightarrow> ((pack_error failure + unit) \<times> fs) option" where
  "index_save E p idx fs =
     (case acf_new (e_held E) (e_tmp E p) p fs of
        None \<Rightarrow> None
      | Some (Inl e, fs) \<Rightarrow> Some (Inl (Fail (PackIOError e)), fs)
      | Some (Inr a, fs) \<Rightarrow>
          Some (lift_err pack_io_failure (commit_content a (write_index (e_codec E) idx, None)) fs))"

text \<open>A saved index loads as it was, without the cached snapshot, and is not overwritten by another save.\<close>

lemma save_then_load:
  assumes fs: "fs_wf fs" "no_parent_refs d" "name \<noteq> ''..''" "dirs_or_missing fs d"
    and tmp: "fs_get fs (acf_temp_path d (e_tmp E (d @ [name]))) = None" "name \<noteq> ''.elfshakertmp_'' @ e_tmp E (d @ [name])"
    and free: "reservable fs (d @ [name])" "\<not> e_held E (d @ [name])"
    and idx: "codec_ok (e_codec E)" "index_tables_wf idx" "\<forall>p \<in> set (pool_entries (path_pool idx)). pack_path_ok p"
  shows "\<exists>fs'. index_save E (d @ [name]) idx fs = Some (Inr (), fs') \<and>
    load_index_file E fs' (d @ [name]) = Inr (idx\<lparr>current := []\<rparr>) \<and>
    (\<forall>idx'. index_save E (d @ [name]) idx' fs' = Some (Inl (Fail (PackIOError AlreadyExists)), fs'))"
proof -
  let ?p = "d @ [name]" and ?r = "e_tmp E (d @ [name])" and ?b = "write_index (e_codec E) idx"
  obtain fs1 fs' where new: "acf_new (e_held E) ?r ?p fs = Some (Inr (acf_handle d name ?r), fs1)"
      and commit: "commit_content (acf_handle d name ?r) (?b, None) fs1 = (Inr (), fs')"
      and get: "\<forall>q. fs_get fs' q = (if q = ?p then Some (FileNode ?b created_mode) else if prefix q d then Some DirNode else fs_get fs q)"
    using acf_publish [of fs d name "e_held E" ?r ?b] fs tmp free write_index_nonempty by blast
  have to: "dirs_to fs' d" using get by (auto simp: dirs_to_def dest: prefix_length_le)
  have here: "fs_get fs' ?p = Some (FileNode ?b created_mode)" using get by simp
  have created_readable: "and created_mode owner_read \<noteq> 0" by (simp add: created_mode_def owner_read_def)
  have mode: "and created_mode owner_write \<noteq> 0" by (simp add: created_mode_def owner_write_def)
  have "fs_read fs' ?p = Inr ?b"
    using fs(2,3) to here created_readable
    by (intro object_stored_read) (auto simp: object_stored_def no_parent_refs_snoc dirs_above_snoc)
  then have "load_index_file E fs' ?p = Inr (idx\<lparr>current := []\<rparr>)"
    using parse_write_index [OF idx] by (simp add: load_index_file_def)
  moreover have "index_save E ?p idx' fs' = Some (Inl (Fail (PackIOError AlreadyExists)), fs')" for idx'
  proof -
    have "fs_get fs' (acf_temp_path d ?r) = None"
      using get tmp by (auto simp: acf_temp_path_def dest: prefix_length_le)
    then show ?thesis
      using acf_new_existing [OF to fs(2,3) here mode, of ?r "e_held E"] free(2) write_index_nonempty [of "e_codec E" idx]
      by (simp add: index_save_def)
  qed
  moreover have "index_save E ?p idx fs = Some (Inr (), fs')"
    using new commit by (simp add: index_save_def lift_err_def)
  ultimately show ?thesis by blast
qed

end
