(* ===== verification/CheckoutProps.thy ===== *)
theory CheckoutProps
  imports CommandSample
begin

text \<open>
  What the checks of a checkout without \<^verbatim>\<open>--force\<close> guarantee about the working directory: they are
  related to the nodes that are there, not to the functions that check.
\<close>

subsection \<open>Paths on Unix\<close>

text \<open>The names that POSIX allows: not empty and without a slash.\<close>

definition posix_names :: "fs \<Rightarrow> bool" where
  "posix_names fs \<longleftrightarrow> (\<forall>p n. fs_get fs p = Some n \<longrightarrow> (\<forall>c \<in> set p. c \<noteq> [] \<and> CHR ''/'' \<notin> set c))"

lemma native_loop_join:
  "\<forall>c \<in> set cs. c \<noteq> [] \<Longrightarrow> out \<noteq> [] \<Longrightarrow>
     from_native_loop Unix out (map Normal cs) = Inr (join_with (CHR ''/'') (out # cs))"
proof (induction cs arbitrary: out)
  case (Cons c cs)
  with Cons.IH [of "out @ CHR ''/'' # c"] show ?case
    by (cases cs) (simp_all add: append_native_component_def Let_def)
qed simp

lemma native_components:
  assumes "from_native_components Unix (map Normal s) = Inr p" "\<forall>c \<in> set s. c \<noteq> [] \<and> CHR ''/'' \<notin> set c" "s \<noteq> []"
  shows "components p = s"
proof -
  obtain c cs where s: "s = c # cs" using assms(3) by (cases s) auto
  have "from_native_loop Unix [] (map Normal s) = Inr (join_with (CHR ''/'') s)"
    using native_loop_join [of cs c] assms(2) by (simp add: s append_native_component_def)
  with assms(1) have "p = PackPath (join_with (CHR ''/'') s)"
    by (auto simp: from_native_components_def pack_path_new_def result_simps)
  then show ?thesis using split_on_join_with [OF assms(3)] assms(2) by (simp add: components_def)
qed

lemma walked_unix_key:
  assumes "walked_key U Unix dest (dest @ s) = Inr key" "\<forall>c \<in> set s. c \<noteq> [] \<and> CHR ''/'' \<notin> set c" "s \<noteq> []"
  shows "key = s"
  using assms native_components [OF _ assms(2,3)]
  by (auto simp: walked_key_def packerr_def result_simps unix_keys)

subsection \<open>Paths of an index\<close>

lemma load_index_paths: "load_index E r fs p = Inr idx \<Longrightarrow> \<forall>q \<in> set (pool_entries (path_pool idx)). pack_path_ok q"
  using parse_paths_ok by (auto simp: load_index_def load_index_file_def result_simps)

lemma snapshot_entries_paths:
  assumes "\<forall>q \<in> set (pool_entries (path_pool idx)). pack_path_ok q" "snapshot_entries idx hs = Inr es" "e \<in> set es"
  shows "pack_path_ok (fe_path e)"
proof -
  have "list_all2 (\<lambda>h e. handle_to_entry idx h = Inr e) hs es"
    using assms(2) by (simp add: snapshot_entries_def entries_from_handles_def result_simps collect_Inr_iff)
  then obtain h where "handle_to_entry idx h = Inr e"
    using assms(3) by (force simp: list_all2_conv_all_nth in_set_conv_nth)
  then have "fe_path e \<in> set (pool_entries (path_pool idx))"
    by (auto simp: handle_to_entry_def result_simps pool_lookup_def split: if_splits)
  with assms(1) show ?thesis by blast
qed

lemma head_entries_paths:
  assumes "head_entries E r fs opts sid idx head = Inr old" "load_index E r fs (sid_pack sid) = Inr idx" "e \<in> set old"
  shows "pack_path_ok (fe_path e)"
proof -
  have "\<not> (xo_reset opts \<and> xo_force opts)" using assms(1,3) by (auto simp: head_entries_def)
  moreover from this obtain h where "head = Some h" using assms(1,3) by (cases head) (auto simp: head_entries_def)
  ultimately obtain idx' handles where i: "head_index E r fs sid idx h = Inr idx'"
      "(case handles of None \<Rightarrow> Inl (Fail (BrokenHeadRef (PackErr (SnapshotNotFound (sid_tag h)))))
        | Some hs \<Rightarrow> snapshot_entries idx' hs) = Inr old"
    using assms(1) unfolding head_entries_def by (simp only: if_False option.case rbind_Inr_iff) blast
  then obtain hs where h: "snapshot_entries idx' hs = Inr old" by (cases handles) simp_all
  from i(1)
  have "\<exists>p. load_index E r fs p = Inr idx'"
    using assms(2) by (auto simp: head_index_def result_simps split: if_splits)
  then show ?thesis using snapshot_entries_paths [OF load_index_paths h assms(3)] by blast
qed

subsection \<open>What is planned\<close>

text \<open>What a plan relies on: valid paths; and an entry that is new or replaced conflicts with no other.\<close>

lemma planned:
  assumes "plan_checkout E r fs sid opts = Inr (t, old, new, gone)" "order_ok E" "\<not> xo_force opts"
  shows "\<And>e. e \<in> set old \<union> set new \<union> set gone \<Longrightarrow> pack_path_ok (fe_path e)"
    and "set gone \<subseteq> set old"
    and "\<And>e h. \<not> xo_reset opts \<Longrightarrow> e \<in> set new \<Longrightarrow> h \<in> set old \<Longrightarrow>
      prefix (components (fe_path e)) (components (fe_path h)) \<Longrightarrow> \<exists>g \<in> set gone. fe_path g = fe_path h"
proof -
  from assms(1) obtain head ht idx hs entries where p: "load_index E r fs (sid_pack sid) = Inr idx"
      "snapshot_entries idx hs = Inr entries" "packerr (preflight_path_policy (e_unicode E) (map fe_path entries) Unix) = Inr ()"
      "head_entries E r fs opts sid idx head = Inr old" "(new, gone) = checkout_diff E opts head old entries"
    by (auto simp: plan_checkout_def result_simps split: if_splits)
  have none: "head = None \<Longrightarrow> old = []" using p(4) by (auto simp: head_entries_def split: if_splits)
  have diff: "set new \<subseteq> set entries \<and> set gone \<subseteq> set old \<and> (\<not> xo_reset opts \<and> head \<noteq> None \<longrightarrow>
      entry_content ` set new = entry_content ` set entries - entry_content ` set old \<and>
      entry_content ` set gone = entry_content ` set old - entry_content ` set entries)"
    using compute_entry_diff_ok [OF assms(2), of old entries new gone] p(5)
    by (auto simp: checkout_diff_def split: if_splits)
  show "set gone \<subseteq> set old" using diff by blast
  show "pack_path_ok (fe_path e)" if "e \<in> set old \<union> set new \<union> set gone" for e
  proof -
    have "e \<in> set old \<or> e \<in> set entries" using that diff by blast
    then show ?thesis
      using snapshot_entries_paths [OF load_index_paths [OF p(1)] p(2)] head_entries_paths [OF p(4,1)] by metis
  qed
  show "\<exists>g \<in> set gone. fe_path g = fe_path h"
    if h: "\<not> xo_reset opts" "e \<in> set new" "h \<in> set old" "prefix (components (fe_path e)) (components (fe_path h))" for e h
  proof (rule ccontr)
    assume "\<not> ?thesis"
    then have "entry_content h \<notin> entry_content ` set gone" by (auto simp: entry_content_def)
    have "head \<noteq> None" using none h(3) by (cases head) simp_all
    with diff h(1) have exact: "entry_content ` set new = entry_content ` set entries - entry_content ` set old"
        "entry_content ` set gone = entry_content ` set old - entry_content ` set entries" by blast+
    have "entry_content h \<in> entry_content ` set old" "entry_content e \<in> entry_content ` set new" using h(2,3) by simp_all
    with exact \<open>entry_content h \<notin> entry_content ` set gone\<close>
    have e: "entry_content e \<notin> entry_content ` set old" and "entry_content h \<in> entry_content ` set entries" by blast+
    then obtain k where k: "k \<in> set entries" "entry_content k = entry_content h" by force
    have "e \<noteq> k" using e h(3) k(2) by force
    have path: "fe_path k = fe_path h" using k(2) by (simp add: entry_content_def)
    have pol: "distinct (map fe_path entries)" "\<forall>a \<in> set entries. \<forall>b \<in> set entries.
        \<not> strict_prefix (components (fe_path a)) (components (fe_path b))"
    proof -
      have "collect (target_path_key (e_unicode E) Unix) (map fe_path entries) = Inr (map components (map fe_path entries))"
        by (simp add: collect_Inr_iff list_all2_conv_all_nth unix_keys)
      with p(3) show "distinct (map fe_path entries)" "\<forall>a \<in> set entries. \<forall>b \<in> set entries.
          \<not> strict_prefix (components (fe_path a)) (components (fe_path b))"
        by (auto simp: packerr_def result_simps preflight_path_policy_iff policy_ok_def)
    qed
    have "e \<in> set entries" using diff h(2) by blast
    then have "components (fe_path e) = components (fe_path k)"
      using pol(2) k(1) h(4) path by (metis strict_prefix_def)
    then have "fe_path e = fe_path k" by (rule components_same)
    then have "e = k" using pol(1) \<open>e \<in> set entries\<close> k(1) by (auto simp: distinct_map inj_on_def)
    with \<open>e \<noteq> k\<close> show False ..
  qed
qed

subsection \<open>Files as HEAD left them\<close>

text \<open>
  The file or link of an entry is there, of the kind of the entry and with the target of a link, and was
  last modified no later than HEAD.
\<close>

definition unchanged_since :: "env \<Rightarrow> fs \<Rightarrow> path \<Rightarrow> nat option \<Rightarrow> file_entry \<Rightarrow> bool" where
  "unchanged_since E fs dest t e \<longleftrightarrow>
     (\<exists>q n m head_time. t = Some head_time \<and> resolve_entry fs (output_path dest e) = Inr q \<and> fs_get fs q = Some n \<and>
        last_modified_at E fs q = Some m \<and> m \<le> head_time \<and>
        (case fe_metadata e of
           Regular mode \<Rightarrow> is_file_node n
         | Symlink enc kind \<Rightarrow> \<exists>target bs. n = LinkNode target \<and>
             encode_target_as (fe_path e) (UnixNative target) enc = Inr bs \<and> e_sha1 E bs = fe_checksum e))"

lemma entry_unchanged:
  assumes "check_entry_unchanged_since E fs e head_time (output_path dest e) = Inr ()"
  shows "unchanged_since E fs dest (Some head_time) e"
proof -
  from assms obtain q n m where q: "resolve_entry fs (output_path dest e) = Inr q" "fs_get fs q = Some n"
      "kind_matches E fs e (output_path dest e) n" "last_modified_at E fs q = Some m" "m \<le> head_time"
    by (auto simp: check_entry_unchanged_since_def result_simps split: if_splits)
  have "\<exists>target bs. n = LinkNode target \<and> encode_target_as (fe_path e) (UnixNative target) enc = Inr bs \<and> e_sha1 E bs = fe_checksum e"
    if "fe_metadata e = Symlink enc kind" for enc kind
  proof -
    have "is_link_node n" "verify_materialized (e_sha1 E) (fe_path e) (output_path dest e) enc kind (fe_checksum e) fs = Inr ()"
      using q(3) that by (auto simp: kind_matches_def is_ok_iff)
    then show ?thesis using q(1,2)
      by (cases n) (auto simp: verify_materialized_def read_link_def symlink_metadata_def result_simps split: if_splits)
  qed
  with q show ?thesis
    unfolding unchanged_since_def by (auto simp: kind_matches_def split: entry_metadata.splits)
qed

subsection \<open>What is overwritten\<close>

lemma ancestors_checked:
  "preflight_destination_ancestors fs dest ps removable = Inr () \<longleftrightarrow>
     (\<forall>p \<in> set ps. \<exists>native. native_path p = Inr native \<and> check_destination_ancestors fs dest native removable = Inr ())"
  by (induction ps) (auto simp: result_simps)

lemma removable_gone:
  assumes "collect native_path (removed_paths new gone) = Inr removable" "\<forall>g \<in> set gone. pack_path_ok (fe_path g)"
    and "s \<in> set removable"
  shows "\<exists>g \<in> set gone. s = components (fe_path g)"
proof -
  have "list_all2 (\<lambda>p s. native_path p = Inr s) (removed_paths new gone) removable"
    using assms(1) by (simp add: collect_Inr_iff)
  then obtain p where "p \<in> set (removed_paths new gone)" "native_path p = Inr s"
    using assms(3) by (force simp: list_all2_conv_all_nth in_set_conv_nth)
  then show ?thesis using assms(2) native_path_ok by (auto simp: removed_paths_def)
qed

lemma unchanged_not_above:
  assumes "unchanged_since E fs dest t g" "fs_wf fs" "no_parent_refs (output_path dest g)"
    and "strict_prefix (output_path dest g) q"
  shows "fs_get fs q = None"
proof (rule ccontr)
  assume q: "fs_get fs q \<noteq> None"
  then have dir: "fs_get fs (output_path dest g) = Some DirNode" using fs_wf_prefix [OF assms(2)] assms(4) by blast
  have "dirs_above fs (output_path dest g)"
    using fs_wf_prefix [OF assms(2), of "output_path dest g"] dir by (simp add: dirs_above_def)
  then have "resolve_entry fs (output_path dest g) = Inr (output_path dest g)"
    using assms(3) by (intro resolve_entry_plain)
  with assms(1) dir show False by (auto simp: unchanged_since_def split: entry_metadata.splits)
qed

lemma overwritten_known:
  assumes plan: "plan_checkout E r fs sid opts = Inr (t, old, new, gone)" "order_ok E" "\<not> xo_force opts"
    and fs: "fs_wf fs" "posix_names fs" "no_parent_refs (rp_path r)"
    and walk: "\<forall>e \<in> set new. walker_complete (e_tree E) fs [output_path (rp_path r) e]"
    and rem: "collect native_path (removed_paths new gone) = Inr removable"
    and clean: "preflight_untracked_collisions (e_unicode E) Unix (e_tree E) fs (rp_path r)
       (map fe_path new) (map fe_path old) removable = Inr ()"
    and kept: "\<forall>g \<in> set gone. unchanged_since E fs (rp_path r) t g"
    and q: "e \<in> set new" "prefix (output_path (rp_path r) e) q" "fs_get fs q = Some n" "\<not> is_dir_node n"
  shows "\<exists>h \<in> set (if xo_reset opts then old else gone). q = output_path (rp_path r) h"
proof -
  note pl = planned [OF plan]
  have ok: "pack_path_ok (fe_path h)" "no_parent_refs (output_path (rp_path r) h)" if "h \<in> set old \<union> set new \<union> set gone" for h
    using pl(1) [OF that] fs(3) by (auto simp: output_path_def no_parent_refs_def pack_path_ok_def component_ok_def list_all_iff)
  have native: "native_path (fe_path e) = Inr (components (fe_path e))" using ok(1) q(1) native_path_ok by blast
  have "fe_path e \<in> set (map fe_path new)" using q(1) by simp
  moreover have "walker_complete (e_tree E) fs [rp_path r @ components (fe_path e)]"
    using walk q(1) by (simp add: output_path_def)
  moreover have "no_parent_refs (rp_path r @ components (fe_path e))" using ok(2) [of e] q(1) by (simp add: output_path_def)
  moreover have "prefix (rp_path r @ components (fe_path e)) q" using q(2) by (simp add: output_path_def)
  ultimately have "(\<exists>s \<in> set removable. strict_prefix s (components (fe_path e))) \<or> (\<exists>p \<in> set (map fe_path old). \<exists>key.
      target_path_key (e_unicode E) Unix p = Inr key \<and> walked_key (e_unicode E) Unix (rp_path r) q = Inr key)"
    using untracked_collisions_sound [OF clean _ native _ _ q(3,4) _ fs(1)] by blast
  then consider (removed) s where "s \<in> set removable" "strict_prefix s (components (fe_path e))"
    | (tracked) h key where "h \<in> set old" "target_path_key (e_unicode E) Unix (fe_path h) = Inr key"
        "walked_key (e_unicode E) Unix (rp_path r) q = Inr key"
    by force
  then show ?thesis
  proof cases
    case removed
    obtain g where g: "g \<in> set gone" "s = components (fe_path g)"
      using removable_gone [OF rem _ removed(1)] ok(1) by blast
    have "strict_prefix (output_path (rp_path r) g) (output_path (rp_path r) e)"
      using removed(2) g(2) by (simp add: output_path_def strict_prefix_def)
    then have "strict_prefix (output_path (rp_path r) g) q" using q(2) by (rule prefix_order.less_le_trans)
    moreover have "unchanged_since E fs (rp_path r) t g" "no_parent_refs (output_path (rp_path r) g)"
      using kept g(1) ok(2) [of g] by simp_all
    ultimately have "fs_get fs q = None" using unchanged_not_above fs(1) by metis
    with q(3) show ?thesis by simp
  next
    case tracked
    obtain s where s: "q = rp_path r @ s" "prefix (components (fe_path e)) s"
      using q(2) by (auto simp: output_path_def prefix_def)
    have "components (fe_path e) \<noteq> []" using ok(1) q(1) by simp
    then have "s \<noteq> []" using s(2) by auto
    moreover have "\<forall>c \<in> set s. c \<noteq> [] \<and> CHR ''/'' \<notin> set c" using fs(2) q(3) s(1) unfolding posix_names_def by fastforce
    ultimately have h: "components (fe_path h) = s"
      using walked_unix_key [of "e_unicode E" "rp_path r" s key] tracked(2,3) s(1) by (simp add: unix_keys)
    show ?thesis
    proof (cases "xo_reset opts")
      case True
      with tracked(1) h s(1) show ?thesis by (auto simp: output_path_def)
    next
      case False
      then obtain g where g: "g \<in> set gone" "fe_path g = fe_path h"
        using pl(3) [OF False q(1) tracked(1)] s(2) h by blast
      then have "q = output_path (rp_path r) g" using h s(1) by (simp add: output_path_def)
      with g(1) False show ?thesis by auto
    qed
  qed
qed

subsection \<open>The property\<close>

text \<open>C11: Without \<^verbatim>\<open>--force\<close>, and for a snapshot without links to write, a checkout either fails with nothing
  changed, or the working directory allowed it.  Then every file or link that it replaces or removes is
  there, of the kind that HEAD has, a link with its target, and not modified since HEAD; there is no
  other file or link at or below any of its outputs (with \<^verbatim>\<open>--reset\<close>: none that HEAD does not have); and
  the only links above an output are among those that it removes.  The file system has POSIX names, and the
  walker reports everything at or below an output.\<close>

theorem checkout_guarded:
  assumes "extract_snapshot E r sid opts fs = (x, fs')" "\<not> xo_force opts"
    and "plan_checkout E r fs sid opts = Inr (t, old, new, gone)" "link_kinds new = []"
    and "fs_wf fs" "posix_names fs" "dirs_to fs (rp_path r)" "no_parent_refs (rp_path r)" "order_ok E"
    and "\<forall>e \<in> set new. walker_complete (e_tree E) fs [output_path (rp_path r) e]"
  shows "(\<exists>e. x = Inl e) \<and> fs' = fs \<or>
    (\<forall>e \<in> set gone. unchanged_since E fs (rp_path r) t e) \<and>
    (\<forall>e \<in> set new. \<forall>q n. prefix (output_path (rp_path r) e) q \<and> fs_get fs q = Some n \<and> \<not> is_dir_node n \<longrightarrow>
      (\<exists>h \<in> set (if xo_reset opts then old else gone). q = output_path (rp_path r) h)) \<and>
    (\<forall>e \<in> set new. \<forall>s target. strict_prefix s (components (fe_path e)) \<and> s \<noteq> [] \<and>
      fs_get fs (rp_path r @ s) = Some (LinkNode target) \<longrightarrow> (\<exists>h \<in> set gone. s = components (fe_path h)))"
  using extract_snapshot_guard [OF assms(1-4)]
proof (elim disjE exE conjE)
  fix removable
  assume rem: "collect native_path (removed_paths new gone) = Inr removable" and clean: "checkout_clean E r fs t old new gone removable"
  note pl = planned [OF assms(3,9,2)]
  have unchanged: "\<forall>e \<in> set gone. unchanged_since E fs (rp_path r) t e"
    using clean native_path_ok pl(1) entry_unchanged by (fastforce simp: checkout_clean_def output_path_def)
  moreover have "\<exists>h \<in> set (if xo_reset opts then old else gone). q = output_path (rp_path r) h"
    if "e \<in> set new" "prefix (output_path (rp_path r) e) q" "fs_get fs q = Some n" "\<not> is_dir_node n" for e q n
    using overwritten_known [OF assms(3,9,2,5,6,8,10) rem _ unchanged that] clean by (simp add: checkout_clean_def)
  moreover have "\<exists>h \<in> set gone. s = components (fe_path h)"
    if e: "e \<in> set new" "strict_prefix s (components (fe_path e))" "s \<noteq> []" "fs_get fs (rp_path r @ s) = Some (LinkNode target)"
    for e s target
  proof -
    have ok: "pack_path_ok (fe_path e)" using pl(1) e(1) by blast
    have "fe_path e \<in> set (map fe_path new @ removed_paths new gone)" using e(1) by simp
    moreover have "preflight_destination_ancestors fs (rp_path r) (map fe_path new @ removed_paths new gone) removable = Inr ()"
      using clean by (simp add: checkout_clean_def)
    ultimately obtain native where "native_path (fe_path e) = Inr native"
        "check_destination_ancestors fs (rp_path r) native removable = Inr ()"
      using ancestors_checked [THEN iffD1, THEN bspec] by blast
    with native_path_ok [OF ok]
    have "check_destination_ancestors fs (rp_path r) (components (fe_path e)) removable = Inr ()" by simp
    moreover have "no_parent_refs (rp_path r @ components (fe_path e))"
      using assms(8) ok by (auto simp: no_parent_refs_def pack_path_ok_def component_ok_def list_all_iff)
    ultimately have "s \<in> set removable" using checked_links_removable [OF assms(5,7)] e(2-4) by blast
    then show ?thesis using removable_gone [OF rem] pl(1) by blast
  qed
  ultimately show ?thesis by blast
qed blast

subsection \<open>A working directory that was changed\<close>

text \<open>
  The snapshots \<^verbatim>\<open>t\<close> with the file \<^verbatim>\<open>f\<close> and \<^verbatim>\<open>s\<close> without files, and a file \<^verbatim>\<open>f\<close> in the working directory
  that was modified after HEAD was written; with or without a HEAD, which is \<^verbatim>\<open>t\<close>.
\<close>

definition work_env :: env where
  "work_env = pack_env\<lparr>e_times := (\<lambda>fs p. (None, Some (if p = [''w'', ''f''] then 2 else 1)))\<rparr>"

definition work_fs :: "bool \<Rightarrow> fs" where
  "work_fs head = [([''w''], DirNode), ([''d''], DirNode), ([''d'', ''packs''], DirNode),
     ([''d'', ''packs'', ''loose''], DirNode), ([''d'', ''packs'', ''loose'', ''t.pack.idx''], FileNode ones_bytes 420),
     ([''d'', ''packs'', ''loose'', ''s.pack.idx''], FileNode (tag_bytes ''s'') 420), ([''w'', ''f''], FileNode ''xx'' 420)] @
     (if head then [([''d'', ''HEAD''], FileNode (snapshot_id_display head_t @ [CHR 0x0A]) 420)] else [])"

definition snapshot_s :: snapshot_id where
  "snapshot_s = \<lparr>sid_pack = Pack ''loose/s'', sid_tag = ''s''\<rparr>"

lemma work_env_fields [simp]:
  "e_codec work_env = unary_sample" "e_cat work_env = plain_cat" "e_order work_env = (\<lambda>xs. xs)"
  "e_times work_env = (\<lambda>fs p. (None, Some (if p = [''w'', ''f''] then 2 else 1)))"
  "e_tree work_env = (\<lambda>fs p. Inr (WalkLeaf p))"
  by (simp_all add: work_env_def pack_env_def plain_env_def)

lemma work_fs_wf: "fs_wf (work_fs h)"
  by (simp add: fs_wf_def work_fs_def fs_get_def)

lemma work_paths:
  "get_pack_index_path store_repo (Pack ''loose/s'') = [''d'', ''packs'', ''loose'', ''s.pack.idx'']"
  by (simp add: get_pack_index_path_def append_path_suffix_def path_push_def link_start_def
      target_components_def dot_pack_index_extension_def)

lemma work_reads:
  "fs_read (work_fs h) [''d'', ''packs'', ''loose'', ''t.pack.idx''] = Inr ones_bytes"
  "fs_read (work_fs h) [''d'', ''packs'', ''loose'', ''s.pack.idx''] = Inr (tag_bytes ''s'')"
  "fs_read (work_fs True) [''d'', ''HEAD''] = Inr (snapshot_id_display head_t @ [CHR 0x0A])"
  "fs_read (work_fs False) [''d'', ''HEAD''] = Inl NotFound"
  "resolve_target (work_fs True) [''d'', ''HEAD''] = Inr [''d'', ''HEAD'']"
  using cli_modes by (simp_all add: fs_read_def metadata_def resolve_target_def max_links_def work_fs_def fs_get_def)

lemma work_loads:
  "load_index work_env store_repo (work_fs h) loose_t = Inr ones_index"
  "load_index work_env store_repo (work_fs h) (Pack ''loose/s'') = Inr (tag_index ''s'')"
  by (simp_all add: load_index_def load_index_file_def work_paths work_reads cli_index tag_index_parsed
      del: validate_pack_id.simps)

lemma work_head:
  "read_head work_env store_repo (work_fs True) = Inr (Some head_t, Some 1)"
  "read_head work_env store_repo (work_fs False) = Inr (None, None)"
proof -
  have "parse_head work_env (snapshot_id_display head_t @ [CHR 0x0A]) = Inr head_t"
  proof (rule parse_head_display)
    have "is_utf8 (pack_name loose_t)" by (simp add: loose_t_def)
    then show "sid_ok work_env head_t" by (simp add: sid_ok_def head_t_def)
  qed (simp add: cat_ok_def plain_cat_def)
  then show "read_head work_env store_repo (work_fs True) = Inr (Some head_t, Some 1)"
    by (simp add: read_head_def work_reads last_modified_at_def get_last_modified_def)
  show "read_head work_env store_repo (work_fs False) = Inr (None, None)"
    by (simp add: read_head_def work_reads)
qed

lemma work_resolved:
  "resolve_snapshot ones_index ''t'' = (Inr (Some [ones_handle]) :: error failure + _)"
  "resolve_snapshot (tag_index ''s'') ''s'' = (Inr (Some []) :: error failure + _)"
  "snapshot_entries ones_index [ones_handle] = Inr [ones_entry]" "snapshot_entries idx [] = Inr []"
  by (simp_all add: resolve_snapshot_def ones_deltas apply_changes_def tag_index_def index_new_def
      snapshot_entries_def entries_from_handles_def ones_to_entry)

lemma work_policy: "preflight_path_policy U [] Unix = Inr ()" "preflight_path_policy U [PackPath ''f''] Unix = Inr ()"
  by (simp_all add: preflight_path_policy_iff policy_ok_def unix_keys strict_prefix_def)

lemma work_plan:
  "plan_checkout work_env store_repo (work_fs True) snapshot_s default_extract_options =
     Inr (Some 1, [ones_entry], [], [ones_entry])"
  "plan_checkout work_env store_repo (work_fs False) head_t default_extract_options =
     Inr (None, [], [ones_entry], [])"
proof -
  have packs: "sid_pack snapshot_s = Pack ''loose/s''" "sid_tag snapshot_s = ''s''" "sid_pack head_t = loose_t"
      "sid_tag head_t = ''t''" "Pack ''loose/s'' \<noteq> loose_t" "fe_path ones_entry = PackPath ''f''"
    by (simp_all add: snapshot_s_def head_t_def loose_t_def ones_entry_def)
  note defs = plan_checkout_def work_head work_loads work_resolved packs unwrap_def work_policy packerr_def
    head_entries_def head_index_def default_extract_options_def checkout_diff_def compute_entry_diff_def missing_from_def
  show "plan_checkout work_env store_repo (work_fs True) snapshot_s default_extract_options =
      Inr (Some 1, [ones_entry], [], [ones_entry])"
    using packs(5) by (simp add: defs)
  show "plan_checkout work_env store_repo (work_fs False) head_t default_extract_options = Inr (None, [], [ones_entry], [])"
    by (simp add: defs)
qed

lemma work_ready:
  "fs_wf (work_fs h)" "posix_names (work_fs h)" "dirs_to (work_fs h) (rp_path store_repo)"
  "no_parent_refs (rp_path store_repo)" "order_ok work_env" "\<not> xo_force default_extract_options"
  "walker_complete (e_tree work_env) (work_fs h) [output_path (rp_path store_repo) ones_entry]"
proof -
  show "fs_wf (work_fs h)" by (rule work_fs_wf)
  show "posix_names (work_fs h)"
    by (simp add: posix_names_def work_fs_def fs_get_def)
  show "dirs_to (work_fs h) (rp_path store_repo)"
    using dirs_to_get [OF work_fs_wf] by (simp add: work_fs_def fs_get_def)
  show "walker_complete (e_tree work_env) (work_fs h) [output_path (rp_path store_repo) ones_entry]"
    by (auto simp: walker_complete_def output_path_def ones_entry_def components_def work_fs_def fs_get_def split: if_splits)
qed (simp_all add: no_parent_refs_def order_ok_def default_extract_options_def)

text \<open>
  Switching to \<^verbatim>\<open>s\<close> would remove the modified file, and checking out \<^verbatim>\<open>t\<close> without a HEAD would overwrite
  it: both fail and leave everything as it is.
\<close>

theorem checkout_guarded_witness:
  "(\<exists>e. extract_snapshot work_env store_repo snapshot_s default_extract_options (work_fs True) = (Inl e, work_fs True)) \<and>
   (\<exists>e. extract_snapshot work_env store_repo head_t default_extract_options (work_fs False) = (Inl e, work_fs False))"
proof -
  have out: "output_path [''w''] ones_entry = [''w'', ''f'']"
    by (simp add: output_path_def ones_entry_def components_def)
  have node: "fs_get (work_fs h) [''w'', ''f''] = Some (FileNode ''xx'' 420)" for h
    by (simp add: work_fs_def fs_get_def)
  have here: "resolve_entry (work_fs h) [''w'', ''f''] = Inr [''w'', ''f'']" for h
    by (simp add: resolve_entry_def work_fs_def fs_get_def)
  have "\<not> unchanged_since work_env (work_fs True) (rp_path store_repo) (Some 1) ones_entry"
    by (simp add: unchanged_since_def out here last_modified_at_def get_last_modified_def)
  moreover obtain x fs' where x: "extract_snapshot work_env store_repo snapshot_s default_extract_options (work_fs True) = (x, fs')"
    by fastforce
  ultimately have modified: "(\<exists>e. x = Inl e) \<and> fs' = work_fs True"
    using checkout_guarded [OF x work_ready(6) work_plan(1) _ work_ready(1-5)] by (simp add: link_kinds_def map_filter_simps)
  obtain y fs'' where y: "extract_snapshot work_env store_repo head_t default_extract_options (work_fs False) = (y, fs'')"
    by fastforce
  have "link_kinds [ones_entry] = []" by (simp add: link_kinds_def map_filter_simps ones_entry_def)
  from checkout_guarded [OF y work_ready(6) work_plan(2) this work_ready(1-5)] work_ready(7)
  have "(\<exists>e. y = Inl e) \<and> fs'' = work_fs False"
    using node [of False] by (fastforce simp: out default_extract_options_def)
  with x y modified show ?thesis by auto
qed

end
