(* ===== verification/Spec2Isabelle.thy ===== *)
theory Spec2Isabelle
  imports IndexWire SnapshotIdentity Algo Ids PackFrames EsiCommandProps AtomicFile AtomicProtocol RemoteFacts RepoProps StoreProps PackProps LockProps CommandProps Progress Program PackExplode IndexFile CheckoutProps
begin

text \<open>
  A model of elfshaker, a version control system for build outputs, with the theorems that make its
  parts correct.  Sources are named relative to \<^verbatim>\<open>src/\<close> of the crate; theories by their file.

  \<^bold>\<open>The program.\<close>  A \<^emph>\<open>repository\<close> is a data directory.  \<^emph>\<open>Snapshots\<close> (tagged sets of file entries:
  path, checksum, mode or link) are recorded in \<^emph>\<open>pack indexes\<close>.  The index of a \<^emph>\<open>loose\<close> snapshot refers to
  objects that are files named after their checksums; the index of a \<^emph>\<open>pack\<close> refers to slices of the
  decompressed contents of one file of compressed frames.  \<^verbatim>\<open>store\<close> writes loose objects and a loose
  index; \<^verbatim>\<open>pack\<close> merges loose indexes into one, orders the objects by size, compresses them in frames and
  publishes the pack before its index; \<^verbatim>\<open>extract\<close> makes the working directory equal to a snapshot, after
  checks that nothing untracked or modified is lost; \<^verbatim>\<open>gc\<close> removes what packs make redundant.  A remote
  index (\<^verbatim>\<open>.esi\<close>) lists packs by URL and checksum; indexes and packs are downloaded on demand.

  \<^bold>\<open>Theories and sources.\<close>

  \<^item> Foundations: \<^verbatim>\<open>Prelude\<close> (results as sums, the \<^verbatim>\<open>failure\<close> type with its value for a panic, lists, byte
    strings), \<^verbatim>\<open>Utf8\<close> and \<^verbatim>\<open>PathText\<close> (UTF-8 as \<^verbatim>\<open>std\<close> decodes it, lossy conversion, numbers as text),
    \<^verbatim>\<open>FileSystem\<close> and \<^verbatim>\<open>FsLemmas\<close> (the calls of \<^verbatim>\<open>std::fs\<close> on a finite map from paths to nodes),
    \<^verbatim>\<open>External\<close>, \<^verbatim>\<open>Env\<close>, \<^verbatim>\<open>EnvPlain\<close> (what comes from other crates, its laws, and an instance).
  \<^item> Data model: \<^verbatim>\<open>EntryPool\<close> (\<^verbatim>\<open>entrypool.rs\<close>), \<^verbatim>\<open>PackPath\<close> (\<^verbatim>\<open>packpath.rs\<close>), \<^verbatim>\<open>LegacyPath\<close> (\<^verbatim>\<open>legacy_path.rs\<close>),
    \<^verbatim>\<open>PackIdx\<close> with \<^verbatim>\<open>IndexInv\<close>, \<^verbatim>\<open>ObjectLayout\<close>, \<^verbatim>\<open>IndexWire\<close>, \<^verbatim>\<open>SnapshotIdentity\<close>, \<^verbatim>\<open>StoredIndex\<close>
    (\<^verbatim>\<open>packidx.rs\<close>: the index as a value, its invariant and abstraction, the layout of the objects, the three
    wire formats, the identity of a snapshot), \<^verbatim>\<open>Algo\<close> (\<^verbatim>\<open>repo/algo.rs\<close>), \<^verbatim>\<open>Ids\<close> and \<^verbatim>\<open>PackFile\<close> with
    \<^verbatim>\<open>PackFrames\<close> (\<^verbatim>\<open>repo/pack.rs\<close>: identifiers, frames, reading and extracting entries).
  \<^item> Files: \<^verbatim>\<open>RepoFs\<close> (\<^verbatim>\<open>repo/fs.rs\<close>), \<^verbatim>\<open>Symlink\<close> (\<^verbatim>\<open>repo/symlink.rs\<close>), \<^verbatim>\<open>AtomicFile\<close> (\<^verbatim>\<open>atomicfile.rs\<close> run by
    one process) and \<^verbatim>\<open>AtomicProtocol\<close> (the same by several, with crashes, as a step relation).
  \<^item> Repository (\<^verbatim>\<open>repo/repository.rs\<close>, \<^verbatim>\<open>repo/error.rs\<close>, \<^verbatim>\<open>batch.rs\<close>): \<^verbatim>\<open>RepoError\<close>, \<^verbatim>\<open>RepoBase\<close> (opening, locks,
    paths, HEAD), \<^verbatim>\<open>RepoFind\<close> (packs, finding a snapshot), \<^verbatim>\<open>Preflight\<close> (path policy, links above outputs,
    untracked collisions, cleaning a file list), \<^verbatim>\<open>RepoExtract\<close>, \<^verbatim>\<open>RepoStore\<close> (storing, packing, exploding,
    remotes), \<^verbatim>\<open>RepoGc\<close>; their lemmas in \<^verbatim>\<open>RepoFacts\<close>, \<^verbatim>\<open>GcFacts\<close>, \<^verbatim>\<open>ExtractFacts\<close>, \<^verbatim>\<open>StoreFacts\<close>,
    \<^verbatim>\<open>StoreSnapshot\<close>, \<^verbatim>\<open>StoreExtract\<close>, \<^verbatim>\<open>IndexFile\<close>, \<^verbatim>\<open>PackBuild\<close>, \<^verbatim>\<open>PackCreate\<close>, \<^verbatim>\<open>PackExplode\<close>; samples in \<^verbatim>\<open>RepoSample\<close>;
    properties in \<^verbatim>\<open>RepoProps\<close>, \<^verbatim>\<open>StoreProps\<close>, \<^verbatim>\<open>CheckoutProps\<close>, \<^verbatim>\<open>PackProps\<close>, \<^verbatim>\<open>LockProps\<close>.
  \<^item> Remotes: \<^verbatim>\<open>Remote\<close> and \<^verbatim>\<open>RemoteFacts\<close> (\<^verbatim>\<open>repo/remote.rs\<close>); \<^verbatim>\<open>Esi\<close>, \<^verbatim>\<open>EsiDocument\<close>, \<^verbatim>\<open>EsiEdit\<close>, \<^verbatim>\<open>EsiStore\<close>
    (\<^verbatim>\<open>esi.rs\<close>: documents that keep every byte), \<^verbatim>\<open>EsiCommit\<close>, \<^verbatim>\<open>EsiCommitFacts\<close>, \<^verbatim>\<open>EsiCommitStage\<close>,
    \<^verbatim>\<open>EsiCommitProps\<close> (\<^verbatim>\<open>commit_documents\<close> and its rollback), \<^verbatim>\<open>EsiCommands\<close>, \<^verbatim>\<open>EsiCommandProps\<close>
    (\<^verbatim>\<open>bin/elfshaker/esi.rs\<close>); \<^verbatim>\<open>Progress\<close> (\<^verbatim>\<open>progress.rs\<close> and the percentage printer).
  \<^item> Commands (\<^verbatim>\<open>bin/elfshaker/\<close>): \<^verbatim>\<open>RowFormat\<close> (placeholders, sizes, rows), \<^verbatim>\<open>Commands\<close> (the \<^verbatim>\<open>run\<close> functions),
    \<^verbatim>\<open>CommandFacts\<close>, \<^verbatim>\<open>CommandSample\<close>, \<^verbatim>\<open>CommandProps\<close>, \<^verbatim>\<open>Program\<close> (\<^verbatim>\<open>main.rs\<close>: the dispatch and the exit status).

  \<^bold>\<open>How code became definitions.\<close>  A definition has the name of the function it translates where that is
  free.  A function that changes files is an \<^verbatim>\<open>fs_op\<close>: it takes the file system and returns a result and the
  file system, also when it fails; \<^term>\<open>andThen\<close> is the question mark operator.  \<^verbatim>\<open>Fail e\<close> is an error,
  \<^verbatim>\<open>Panicked\<close> a panic (\<^verbatim>\<open>unwrap\<close>, \<^verbatim>\<open>expect\<close>, \<^verbatim>\<open>assert\<close>, an index out of range).  Byte and OS strings are lists of
  characters of 8 bits, \<^verbatim>\<open>u32\<close>, \<^verbatim>\<open>u64\<close> and \<^verbatim>\<open>usize\<close> words that wrap around (release builds; additions that the
  code checks return their error), \<^verbatim>\<open>f64\<close> and \<^verbatim>\<open>f32\<close> computations exact significands with their rounding.
  A hash map is a function or an association list, and where the code depends on the order of iteration
  the order is a parameter.  \<^verbatim>\<open>run_in_parallel\<close> returns its results in the order of the tasks; its tasks touch
  different files, so the model runs them one after the other, all of them also after an error.

  \<^bold>\<open>Parameters and laws.\<close>  The record \<^verbatim>\<open>env\<close> holds what is not in the sources: SHA-1, hexadecimal, URLs, the
  MessagePack codec, Zstandard, Unicode tables, directory walks, the HTTP agent, times, locks held by others,
  random names and iteration orders.  Theorems name the documented behaviour they rely on: \<^verbatim>\<open>hex_ok\<close>,
  \<^verbatim>\<open>codec_ok\<close>, \<^verbatim>\<open>header_ok\<close> (decoding inverts encoding), \<^verbatim>\<open>zstd_ok\<close> (frames decompress one after the other),
  \<^verbatim>\<open>walk_ok\<close>, \<^verbatim>\<open>sha1_ok\<close> (20 bytes), \<^verbatim>\<open>order_ok\<close> (a permutation), \<^verbatim>\<open>cat_ok\<close>.  No
  theorem assumes that SHA-1 has no collisions at all.  \<^verbatim>\<open>store_ready\<close>, for storing and then extracting or showing,
  assumes that the contents of the stored files do not collide with each other; elsewhere statements about
  content speak of checksums.  \<^verbatim>\<open>EnvPlain\<close> has an environment with all laws.

  \<^bold>\<open>Bounds.\<close>  Resolving a path follows at most 40 links, as Linux does (\<^verbatim>\<open>max_links\<close>); so it ends.  A pool has
  room for \<^verbatim>\<open>2^32\<close> values (handles of 32 bits); the lemmas on interning carry the room that is left.  Sizes
  and offsets have 64 bits; theorems on packs assume a layout below \<^verbatim>\<open>2^64\<close> and a header below \<^verbatim>\<open>2^32\<close> bytes,
  the limit of a skippable frame.  The only loop that may not end is \<^verbatim>\<open>AtomicCreateFile::new\<close>
  (\<^verbatim>\<open>partial_function\<close>, \<^term>\<open>None\<close> when it does not return); \<^verbatim>\<open>acf_new_returns\<close> says exactly when.  All other
  recursions are total functions with their measures.

  \<^bold>\<open>What the theorems show.\<close>

  \<^item> The index: \<^verbatim>\<open>push_snapshot\<close> refines appending a tagged set, \<^verbatim>\<open>resolve_snapshot\<close> replays the deltas to
    exactly that set, an index read back is the one written, every path that parses is valid, the identity
    of a snapshot depends on nothing but its content, and the layout makes every object a slice.
  \<^item> Packs and the store, end to end: what \<^verbatim>\<open>store\<close> was given is what \<^verbatim>\<open>extract\<close> writes and \<^verbatim>\<open>show\<close> prints; a
    pack reads back every object whatever the cut into frames; a pack restores a loose store that was removed
    (\<^verbatim>\<open>explode\<close>); \<^verbatim>\<open>pack\<close> merges loose indexes as lists of tagged sets and moves HEAD along.
  \<^item> Guards: a checkout without \<^verbatim>\<open>--force\<close> changes nothing unless the files that it replaces or removes are as
    HEAD left them, nothing untracked is at or below an output and the links above outputs are removed first;
    without such links no link leads a write out of the destination; the path policy refuses exactly the
    clashes, cleaned file lists stay below the working directory.
  \<^item> Files: outputs are all or nothing; under every interleaving and crash of processes the destination of an
    \<^verbatim>\<open>AtomicCreateFile\<close> is never partially written and a later process recovers (inductive step relation,
    reachable states); a commit of several documents happens as a whole or is rolled back.
  \<^item> Collection: \<^verbatim>\<open>gc\<close> keeps every referenced object, leaves no other object when it succeeds, and removes
    only snapshots whose content is packed; the commands that only read, the dry run among them, leave every
    file as it is and add at most the directory of the packs and the mutex.
  \<^item> Remote indexes: documents are lossless, \<^verbatim>\<open>esi add\<close> and \<^verbatim>\<open>esi remove\<close> refine updating and restricting a
    map from URLs to entries.  Downloads: the progress counters are exact within the announced length, and
    the printer panics when no length is announced.

  \<^bold>\<open>Interfaces.\<close>  The locale \<^verbatim>\<open>interner\<close> (a store that hands out stable handles) is interpreted on entry pools
  and on the tables of an index; \<^verbatim>\<open>keyed_store\<close> (putting and deleting in a map from keys) on the documents of
  \<^verbatim>\<open>esi.rs\<close>; \<^verbatim>\<open>fs_relation\<close> (operations that stay in a reflexive and transitive relation of file systems) on
  the relation that adds nothing but the directory of the packs and the mutex.

  \<^bold>\<open>Limits of the file-system model.\<close>  One user owns every file and the medium does not fail: a call fails for
  what is at its path and its permission bits.  Hard links, mount points, the umask and the sharing of open
  files between processes are not modelled, apart from the inodes and locks of \<^verbatim>\<open>AtomicProtocol\<close>.  The length
  of a directory, which depends on the platform, is 0 (\<^verbatim>\<open>node_len\<close>): it only matters where a directory has
  the name of a pack or an index.

  \<^bold>\<open>Not modelled.\<close>

  \<^item> \<^verbatim>\<open>log.rs\<close>, the timing statistics and log messages: output only.  The operations of the repository are
    modelled with the dummy reporter; \<^verbatim>\<open>Progress\<close> says what a real one adds to a download and to packing.
  \<^item> \<^verbatim>\<open>bin/elfshaker/cli.rs\<close>, \<^verbatim>\<open>manpages.rs\<close> and the \<^verbatim>\<open>get_app\<close> functions: declarations for \<^verbatim>\<open>clap\<close>; a subcommand
    of \<^verbatim>\<open>Program\<close> carries the values that \<^verbatim>\<open>clap\<close> gives.  The help text is a parameter.
  \<^item> The construction of the HTTP agent and the formatting of dates: settings of a library.
  \<^item> The branches for Windows and macOS of file operations; the path policy, the decoding of links and native
    components are modelled for all three targets.
  \<^item> \<^verbatim>\<open>silence_broken_pipe\<close> (a panic hook) and the test modules.
\<close>

end
